(* ===== verification/Status.thy ===== *)
theory Status
  imports Main "HOL-Library.Word"
begin

text \<open>
  The C integer types as fixed-width words, and the status codes of \<open>CommonDefs.h\<close> and of
  the component headers that the modelled code returns, with their values. A \<open>STATUS\<close> is a
  32-bit word, so an application callback may return any other value too.
\<close>

type_synonym BYTE = "8 word"
type_synonym UINT8 = "8 word"
type_synonym UINT16 = "16 word"
type_synonym UINT32 = "32 word"
type_synonym UINT64 = "64 word"
type_synonym STATUS = "32 word"

abbreviation (input) STATUS_SUCCESS :: STATUS where "STATUS_SUCCESS \<equiv> 0"
abbreviation (input) STATUS_NULL_ARG :: STATUS where "STATUS_NULL_ARG \<equiv> 1"
abbreviation (input) STATUS_INVALID_ARG :: STATUS where "STATUS_INVALID_ARG \<equiv> 0x2"
abbreviation (input) STATUS_INVALID_ARG_LEN :: STATUS where "STATUS_INVALID_ARG_LEN \<equiv> 0x3"
abbreviation (input) STATUS_NOT_ENOUGH_MEMORY :: STATUS where
  "STATUS_NOT_ENOUGH_MEMORY \<equiv> 0x4"
abbreviation (input) STATUS_BUFFER_TOO_SMALL :: STATUS where "STATUS_BUFFER_TOO_SMALL \<equiv> 0x5"
abbreviation (input) STATUS_INVALID_HANDLE_ERROR :: STATUS where
  "STATUS_INVALID_HANDLE_ERROR \<equiv> 0x8"
abbreviation (input) STATUS_INTERNAL_ERROR :: STATUS where "STATUS_INTERNAL_ERROR \<equiv> 0xc"
abbreviation (input) STATUS_NOT_FOUND :: STATUS where "STATUS_NOT_FOUND \<equiv> 0x10"
abbreviation (input) STATUS_HEAP_NOT_INITIALIZED :: STATUS where
  "STATUS_HEAP_NOT_INITIALIZED \<equiv> 0x10000002"
abbreviation (input) STATUS_HEAP_CORRUPTED :: STATUS where
  "STATUS_HEAP_CORRUPTED \<equiv> 0x10000003"
abbreviation (input) STATUS_INVALID_ALLOCATION_SIZE :: STATUS where
  "STATUS_INVALID_ALLOCATION_SIZE \<equiv> 0x10000015"
abbreviation (input) STATUS_MIN_CONTENT_VIEW_ITEMS :: STATUS where
  "STATUS_MIN_CONTENT_VIEW_ITEMS \<equiv> 0x30000001"
abbreviation (input) STATUS_INVALID_CONTENT_VIEW_DURATION :: STATUS where
  "STATUS_INVALID_CONTENT_VIEW_DURATION \<equiv> 0x30000002"
abbreviation (input) STATUS_CONTENT_VIEW_NO_MORE_ITEMS :: STATUS where
  "STATUS_CONTENT_VIEW_NO_MORE_ITEMS \<equiv> 0x30000003"
abbreviation (input) STATUS_CONTENT_VIEW_INVALID_INDEX :: STATUS where
  "STATUS_CONTENT_VIEW_INVALID_INDEX \<equiv> 0x30000004"
abbreviation (input) STATUS_CONTENT_VIEW_INVALID_TIMESTAMP :: STATUS where
  "STATUS_CONTENT_VIEW_INVALID_TIMESTAMP \<equiv> 0x30000005"
abbreviation (input) STATUS_INVALID_CONTENT_VIEW_LENGTH :: STATUS where
  "STATUS_INVALID_CONTENT_VIEW_LENGTH \<equiv> 0x30000006"
abbreviation (input) STATUS_MKV_TRACK_INFO_NOT_FOUND :: STATUS where
  "STATUS_MKV_TRACK_INFO_NOT_FOUND \<equiv> 0x32000026"
abbreviation (input) STATUS_INVALID_BASE64_ENCODE :: STATUS where
  "STATUS_INVALID_BASE64_ENCODE \<equiv> 0x40000001"
abbreviation (input) STATUS_INVALID_BASE :: STATUS where "STATUS_INVALID_BASE \<equiv> 0x40000002"
abbreviation (input) STATUS_INVALID_DIGIT :: STATUS where "STATUS_INVALID_DIGIT \<equiv> 0x40000003"
abbreviation (input) STATUS_INT_OVERFLOW :: STATUS where "STATUS_INT_OVERFLOW \<equiv> 0x40000004"
abbreviation (input) STATUS_EMPTY_STRING :: STATUS where "STATUS_EMPTY_STRING \<equiv> 0x40000005"
abbreviation (input) STATUS_HASH_KEY_NOT_PRESENT :: STATUS where
  "STATUS_HASH_KEY_NOT_PRESENT \<equiv> 0x40100001"
abbreviation (input) STATUS_HASH_KEY_ALREADY_PRESENT :: STATUS where
  "STATUS_HASH_KEY_ALREADY_PRESENT \<equiv> 0x40100002"
abbreviation (input) STATUS_HASH_ENTRY_ITERATION_ABORT :: STATUS where
  "STATUS_HASH_ENTRY_ITERATION_ABORT \<equiv> 0x40100003"
abbreviation (input) STATUS_BIT_READER_OUT_OF_RANGE :: STATUS where
  "STATUS_BIT_READER_OUT_OF_RANGE \<equiv> 0x41000001"
abbreviation (input) STATUS_BIT_READER_INVALID_SIZE :: STATUS where
  "STATUS_BIT_READER_INVALID_SIZE \<equiv> 0x41000002"
abbreviation (input) STATUS_DEVICE_FINGERPRINT_LENGTH :: STATUS where
  "STATUS_DEVICE_FINGERPRINT_LENGTH \<equiv> 0x52000006"
abbreviation (input) STATUS_INVALID_STREAM_STATE :: STATUS where
  "STATUS_INVALID_STREAM_STATE \<equiv> 0x5200000e"
abbreviation (input) STATUS_SERVICE_CALL_CALLBACKS_MISSING :: STATUS where
  "STATUS_SERVICE_CALL_CALLBACKS_MISSING \<equiv> 0x5200000f"
abbreviation (input) STATUS_SERVICE_CALL_NOT_AUTHORIZED_ERROR :: STATUS where
  "STATUS_SERVICE_CALL_NOT_AUTHORIZED_ERROR \<equiv> 0x52000010"
abbreviation (input) STATUS_DESCRIBE_STREAM_CALL_FAILED :: STATUS where
  "STATUS_DESCRIBE_STREAM_CALL_FAILED \<equiv> 0x52000011"
abbreviation (input) STATUS_INVALID_DESCRIBE_STREAM_RESPONSE :: STATUS where
  "STATUS_INVALID_DESCRIBE_STREAM_RESPONSE \<equiv> 0x52000012"
abbreviation (input) STATUS_STREAM_IS_BEING_DELETED_ERROR :: STATUS where
  "STATUS_STREAM_IS_BEING_DELETED_ERROR \<equiv> 0x52000013"
abbreviation (input) STATUS_SERVICE_CALL_INVALID_ARG_ERROR :: STATUS where
  "STATUS_SERVICE_CALL_INVALID_ARG_ERROR \<equiv> 0x52000014"
abbreviation (input) STATUS_SERVICE_CALL_DEVICE_NOT_FOND_ERROR :: STATUS where
  "STATUS_SERVICE_CALL_DEVICE_NOT_FOND_ERROR \<equiv> 0x52000015"
abbreviation (input) STATUS_SERVICE_CALL_DEVICE_NOT_PROVISIONED_ERROR :: STATUS where
  "STATUS_SERVICE_CALL_DEVICE_NOT_PROVISIONED_ERROR \<equiv> 0x52000016"
abbreviation (input) STATUS_SERVICE_CALL_RESOURCE_NOT_FOUND_ERROR :: STATUS where
  "STATUS_SERVICE_CALL_RESOURCE_NOT_FOUND_ERROR \<equiv> 0x52000017"
abbreviation (input) STATUS_INVALID_AUTH_LEN :: STATUS where
  "STATUS_INVALID_AUTH_LEN \<equiv> 0x52000018"
abbreviation (input) STATUS_CREATE_STREAM_CALL_FAILED :: STATUS where
  "STATUS_CREATE_STREAM_CALL_FAILED \<equiv> 0x52000019"
abbreviation (input) STATUS_GET_STREAMING_TOKEN_CALL_FAILED :: STATUS where
  "STATUS_GET_STREAMING_TOKEN_CALL_FAILED \<equiv> 0x5200002a"
abbreviation (input) STATUS_GET_STREAMING_ENDPOINT_CALL_FAILED :: STATUS where
  "STATUS_GET_STREAMING_ENDPOINT_CALL_FAILED \<equiv> 0x5200002b"
abbreviation (input) STATUS_INVALID_URI_LEN :: STATUS where
  "STATUS_INVALID_URI_LEN \<equiv> 0x5200002c"
abbreviation (input) STATUS_PUT_STREAM_CALL_FAILED :: STATUS where
  "STATUS_PUT_STREAM_CALL_FAILED \<equiv> 0x5200002d"
abbreviation (input) STATUS_SERVICE_CALL_UNKOWN_ERROR :: STATUS where
  "STATUS_SERVICE_CALL_UNKOWN_ERROR \<equiv> 0x52000031"
abbreviation (input) STATUS_SERVICE_CALL_RESOURCE_IN_USE_ERROR :: STATUS where
  "STATUS_SERVICE_CALL_RESOURCE_IN_USE_ERROR \<equiv> 0x52000032"
abbreviation (input) STATUS_SERVICE_CALL_CLIENT_LIMIT_ERROR :: STATUS where
  "STATUS_SERVICE_CALL_CLIENT_LIMIT_ERROR \<equiv> 0x52000033"
abbreviation (input) STATUS_SERVICE_CALL_DEVICE_LIMIT_ERROR :: STATUS where
  "STATUS_SERVICE_CALL_DEVICE_LIMIT_ERROR \<equiv> 0x52000034"
abbreviation (input) STATUS_SERVICE_CALL_STREAM_LIMIT_ERROR :: STATUS where
  "STATUS_SERVICE_CALL_STREAM_LIMIT_ERROR \<equiv> 0x52000035"
abbreviation (input) STATUS_SERVICE_CALL_RESOURCE_DELETED_ERROR :: STATUS where
  "STATUS_SERVICE_CALL_RESOURCE_DELETED_ERROR \<equiv> 0x52000036"
abbreviation (input) STATUS_SERVICE_CALL_TIMEOUT_ERROR :: STATUS where
  "STATUS_SERVICE_CALL_TIMEOUT_ERROR \<equiv> 0x52000037"
abbreviation (input) STATUS_STREAM_READY_CALLBACK_FAILED :: STATUS where
  "STATUS_STREAM_READY_CALLBACK_FAILED \<equiv> 0x52000038"
abbreviation (input) STATUS_INVALID_STREAM_DESCRIPTION_VERSION :: STATUS where
  "STATUS_INVALID_STREAM_DESCRIPTION_VERSION \<equiv> 0x5200003a"
abbreviation (input) STATUS_TAG_STREAM_CALL_FAILED :: STATUS where
  "STATUS_TAG_STREAM_CALL_FAILED \<equiv> 0x5200003d"
abbreviation (input) STATUS_INVALID_CREATE_STREAM_RESPONSE :: STATUS where
  "STATUS_INVALID_CREATE_STREAM_RESPONSE \<equiv> 0x5200003f"
abbreviation (input) STATUS_CLIENT_AUTH_CALL_FAILED :: STATUS where
  "STATUS_CLIENT_AUTH_CALL_FAILED \<equiv> 0x52000040"
abbreviation (input) STATUS_GET_CLIENT_TOKEN_CALL_FAILED :: STATUS where
  "STATUS_GET_CLIENT_TOKEN_CALL_FAILED \<equiv> 0x52000041"
abbreviation (input) STATUS_CLIENT_PROVISION_CALL_FAILED :: STATUS where
  "STATUS_CLIENT_PROVISION_CALL_FAILED \<equiv> 0x52000042"
abbreviation (input) STATUS_CREATE_CLIENT_CALL_FAILED :: STATUS where
  "STATUS_CREATE_CLIENT_CALL_FAILED \<equiv> 0x52000043"
abbreviation (input) STATUS_CLIENT_READY_CALLBACK_FAILED :: STATUS where
  "STATUS_CLIENT_READY_CALLBACK_FAILED \<equiv> 0x52000044"
abbreviation (input) STATUS_TAG_CLIENT_CALL_FAILED :: STATUS where
  "STATUS_TAG_CLIENT_CALL_FAILED \<equiv> 0x52000045"
abbreviation (input) STATUS_INVALID_CREATE_DEVICE_RESPONSE :: STATUS where
  "STATUS_INVALID_CREATE_DEVICE_RESPONSE \<equiv> 0x52000046"
abbreviation (input) STATUS_ACK_TIMESTAMP_NOT_IN_VIEW_WINDOW :: STATUS where
  "STATUS_ACK_TIMESTAMP_NOT_IN_VIEW_WINDOW \<equiv> 0x52000047"
abbreviation (input) STATUS_INVALID_FRAGMENT_ACK_VERSION :: STATUS where
  "STATUS_INVALID_FRAGMENT_ACK_VERSION \<equiv> 0x52000048"
abbreviation (input) STATUS_INVALID_TOKEN_EXPIRATION :: STATUS where
  "STATUS_INVALID_TOKEN_EXPIRATION \<equiv> 0x52000049"
abbreviation (input) STATUS_INVALID_ACK_KEY_START :: STATUS where
  "STATUS_INVALID_ACK_KEY_START \<equiv> 0x5200004d"
abbreviation (input) STATUS_INVALID_ACK_DUPLICATE_KEY_NAME :: STATUS where
  "STATUS_INVALID_ACK_DUPLICATE_KEY_NAME \<equiv> 0x5200004e"
abbreviation (input) STATUS_INVALID_ACK_INVALID_VALUE_START :: STATUS where
  "STATUS_INVALID_ACK_INVALID_VALUE_START \<equiv> 0x5200004f"
abbreviation (input) STATUS_INVALID_ACK_INVALID_VALUE_END :: STATUS where
  "STATUS_INVALID_ACK_INVALID_VALUE_END \<equiv> 0x52000050"
abbreviation (input) STATUS_INVALID_PARSED_ACK_TYPE :: STATUS where
  "STATUS_INVALID_PARSED_ACK_TYPE \<equiv> 0x52000051"
abbreviation (input) STATUS_INVALID_CLIENT_READY_STATE :: STATUS where
  "STATUS_INVALID_CLIENT_READY_STATE \<equiv> 0x52000055"
abbreviation (input) STATUS_STATE_MACHINE_STATE_NOT_FOUND :: STATUS where
  "STATUS_STATE_MACHINE_STATE_NOT_FOUND \<equiv> 0x52000056"
abbreviation (input) STATUS_INVALID_FRAGMENT_ACK_TYPE :: STATUS where
  "STATUS_INVALID_FRAGMENT_ACK_TYPE \<equiv> 0x52000057"
abbreviation (input) STATUS_INVALID_STREAM_READY_STATE :: STATUS where
  "STATUS_INVALID_STREAM_READY_STATE \<equiv> 0x52000058"
abbreviation (input) STATUS_ACK_ERR_STREAM_READ_ERROR :: STATUS where
  "STATUS_ACK_ERR_STREAM_READ_ERROR \<equiv> 0x5200005c"
abbreviation (input) STATUS_ACK_ERR_FRAGMENT_SIZE_REACHED :: STATUS where
  "STATUS_ACK_ERR_FRAGMENT_SIZE_REACHED \<equiv> 0x5200005d"
abbreviation (input) STATUS_ACK_ERR_FRAGMENT_DURATION_REACHED :: STATUS where
  "STATUS_ACK_ERR_FRAGMENT_DURATION_REACHED \<equiv> 0x5200005e"
abbreviation (input) STATUS_ACK_ERR_CONNECTION_DURATION_REACHED :: STATUS where
  "STATUS_ACK_ERR_CONNECTION_DURATION_REACHED \<equiv> 0x5200005f"
abbreviation (input) STATUS_ACK_ERR_FRAGMENT_TIMECODE_NOT_MONOTONIC :: STATUS where
  "STATUS_ACK_ERR_FRAGMENT_TIMECODE_NOT_MONOTONIC \<equiv> 0x52000060"
abbreviation (input) STATUS_ACK_ERR_MULTI_TRACK_MKV :: STATUS where
  "STATUS_ACK_ERR_MULTI_TRACK_MKV \<equiv> 0x52000061"
abbreviation (input) STATUS_ACK_ERR_INVALID_MKV_DATA :: STATUS where
  "STATUS_ACK_ERR_INVALID_MKV_DATA \<equiv> 0x52000062"
abbreviation (input) STATUS_ACK_ERR_INVALID_PRODUCER_TIMESTAMP :: STATUS where
  "STATUS_ACK_ERR_INVALID_PRODUCER_TIMESTAMP \<equiv> 0x52000063"
abbreviation (input) STATUS_ACK_ERR_STREAM_NOT_ACTIVE :: STATUS where
  "STATUS_ACK_ERR_STREAM_NOT_ACTIVE \<equiv> 0x52000064"
abbreviation (input) STATUS_ACK_ERR_KMS_KEY_ACCESS_DENIED :: STATUS where
  "STATUS_ACK_ERR_KMS_KEY_ACCESS_DENIED \<equiv> 0x52000065"
abbreviation (input) STATUS_ACK_ERR_KMS_KEY_DISABLED :: STATUS where
  "STATUS_ACK_ERR_KMS_KEY_DISABLED \<equiv> 0x52000066"
abbreviation (input) STATUS_ACK_ERR_KMS_KEY_VALIDATION_ERROR :: STATUS where
  "STATUS_ACK_ERR_KMS_KEY_VALIDATION_ERROR \<equiv> 0x52000067"
abbreviation (input) STATUS_ACK_ERR_KMS_KEY_UNAVAILABLE :: STATUS where
  "STATUS_ACK_ERR_KMS_KEY_UNAVAILABLE \<equiv> 0x52000068"
abbreviation (input) STATUS_ACK_ERR_KMS_KEY_INVALID_USAGE :: STATUS where
  "STATUS_ACK_ERR_KMS_KEY_INVALID_USAGE \<equiv> 0x52000069"
abbreviation (input) STATUS_ACK_ERR_KMS_KEY_INVALID_STATE :: STATUS where
  "STATUS_ACK_ERR_KMS_KEY_INVALID_STATE \<equiv> 0x5200006a"
abbreviation (input) STATUS_ACK_ERR_KMS_KEY_NOT_FOUND :: STATUS where
  "STATUS_ACK_ERR_KMS_KEY_NOT_FOUND \<equiv> 0x5200006b"
abbreviation (input) STATUS_ACK_ERR_STREAM_DELETED :: STATUS where
  "STATUS_ACK_ERR_STREAM_DELETED \<equiv> 0x5200006c"
abbreviation (input) STATUS_ACK_ERR_ACK_INTERNAL_ERROR :: STATUS where
  "STATUS_ACK_ERR_ACK_INTERNAL_ERROR \<equiv> 0x5200006d"
abbreviation (input) STATUS_ACK_ERR_FRAGMENT_ARCHIVAL_ERROR :: STATUS where
  "STATUS_ACK_ERR_FRAGMENT_ARCHIVAL_ERROR \<equiv> 0x5200006e"
abbreviation (input) STATUS_ACK_ERR_UNKNOWN_ACK_ERROR :: STATUS where
  "STATUS_ACK_ERR_UNKNOWN_ACK_ERROR \<equiv> 0x5200006f"
abbreviation (input) STATUS_MISSING_ERR_ACK_ID :: STATUS where
  "STATUS_MISSING_ERR_ACK_ID \<equiv> 0x52000070"
abbreviation (input) STATUS_INVALID_ACK_SEGMENT_LEN :: STATUS where
  "STATUS_INVALID_ACK_SEGMENT_LEN \<equiv> 0x52000071"
abbreviation (input) STATUS_ACK_ERR_FRAGMENT_METADATA_LIMIT_REACHED :: STATUS where
  "STATUS_ACK_ERR_FRAGMENT_METADATA_LIMIT_REACHED \<equiv> 0x52000075"
abbreviation (input) STATUS_ACK_ERR_TRACK_NUMBER_MISMATCH :: STATUS where
  "STATUS_ACK_ERR_TRACK_NUMBER_MISMATCH \<equiv> 0x5200007c"
abbreviation (input) STATUS_ACK_ERR_FRAMES_MISSING_FOR_TRACK :: STATUS where
  "STATUS_ACK_ERR_FRAMES_MISSING_FOR_TRACK \<equiv> 0x5200007d"
abbreviation (input) STATUS_ACK_ERR_MORE_THAN_ALLOWED_TRACKS_FOUND :: STATUS where
  "STATUS_ACK_ERR_MORE_THAN_ALLOWED_TRACKS_FOUND \<equiv> 0x5200007e"
abbreviation (input) STATUS_SETTING_KEY_FRAME_FLAG_WHILE_USING_EOFR :: STATUS where
  "STATUS_SETTING_KEY_FRAME_FLAG_WHILE_USING_EOFR \<equiv> 0x52000084"
abbreviation (input) STATUS_MAX_FRAME_TIMESTAMP_DELTA_BETWEEN_TRACKS_EXCEEDED :: STATUS where
  "STATUS_MAX_FRAME_TIMESTAMP_DELTA_BETWEEN_TRACKS_EXCEEDED \<equiv> 0x52000085"
abbreviation (input) STATUS_PUTMEDIA_LAST_PERSIST_ACK_NOT_RECEIVED :: STATUS where
  "STATUS_PUTMEDIA_LAST_PERSIST_ACK_NOT_RECEIVED \<equiv> 0x52000088"
abbreviation (input) STATUS_STATE_MACHINE_NAME_LEN_INVALID :: STATUS where
  "STATUS_STATE_MACHINE_NAME_LEN_INVALID \<equiv> 0x5200009a"

definition STATUS_FAILED :: "STATUS \<Rightarrow> bool" where
  "STATUS_FAILED s \<longleftrightarrow> s \<noteq> STATUS_SUCCESS"

definition STATUS_SUCCEEDED :: "STATUS \<Rightarrow> bool" where
  "STATUS_SUCCEEDED s \<longleftrightarrow> \<not> STATUS_FAILED s"

lemma STATUS_FAILED_simps [simp]:
  "STATUS_FAILED s \<longleftrightarrow> s \<noteq> STATUS_SUCCESS" "STATUS_SUCCEEDED s \<longleftrightarrow> s = STATUS_SUCCESS"
  by (simp_all add: STATUS_FAILED_def STATUS_SUCCEEDED_def)

end
