(* ===== verification/Prelude.thy ===== *)
theory Prelude
  imports Status
begin

text \<open>
  Shared vocabulary of the development: the conventions for pointers and out parameters, and
  the generic facts on words, lists and residues that the component theories use.

  Conventions. A pointer argument that the code compares with \<open>NULL\<close> is an \<open>option\<close>
  (\<open>None\<close> is \<open>NULL\<close>). An out parameter is a component of the result of type
  \<open>'a option\<close>: \<open>None\<close> means that the function returns without writing it. Where the
  code also checks the out pointer itself, the definition takes a \<open>bool\<close> that says whether
  the pointer is non-\<open>NULL\<close>. A function that mutates an object returns the object's new
  value. The outcome of \<open>MEMALLOC\<close>/\<open>MEMCALLOC\<close> is an argument of the definitions
  that allocate. Object sizes are those of an LP64 target.
\<close>

unbundle bit_operations_syntax

subsection \<open>Words: stepping an index without wrap-around\<close>

named_theorems word_step

lemma unat_eq_iff: "unat (a :: 'a::len word) = unat b \<longleftrightarrow> a = b"
  by (simp add: word_unat_eq_iff)

lemma unat_of_nat_below: "k < unat (w :: 'a::len word) \<Longrightarrow> unat (of_nat k :: 'a word) = k"
proof -
  assume "k < unat w"
  also have "unat w < 2 ^ LENGTH('a)" by (rule unsigned_less)
  finally show ?thesis by (simp add: unat_of_nat)
qed

lemma take_bit_unat_below:
  "LENGTH('a::len) \<le> k \<Longrightarrow> take_bit k (unat (n :: 'a word)) = unat n"
proof -
  assume "LENGTH('a) \<le> k"
  then have "unat n < 2 ^ k" by (meson le_less_trans not_le power_increasing_iff unsigned_less order_less_le_trans one_less_numeral_iff semiring_norm(76))
  then show ?thesis by (simp add: take_bit_nat_eq_self)
qed

lemma unat_ucast_up:
  "LENGTH('a::len) \<le> LENGTH('b::len) \<Longrightarrow> unat (ucast (n :: 'a word) :: 'b word) = unat n"
  by (simp add: unsigned_ucast_eq take_bit_unat_below)

lemma unat_Suc_less [word_step]:
  fixes x y :: "'a::len word"
  shows "x < y \<Longrightarrow> unat (x + 1) = Suc (unat x)"
  by unat_arith

lemma word_inc_le [word_step]:
  fixes x y :: "'a::len word"
  assumes "x < y"
  shows "x + 1 \<le> y" "x < x + 1"
  using unat_Suc_less [OF assms] assms by (simp_all add: word_le_nat_alt word_less_nat_alt)

lemma unat_pred_nonzero [word_step]:
  fixes x :: "'a::len word"
  shows "x \<noteq> 0 \<Longrightarrow> unat (x - 1) = unat x - 1"
  by (rule unat_minus_one)

lemma unat_pred_greater [word_step]:
  fixes x y :: "'a::len word"
  shows "y < x \<Longrightarrow> unat (x - 1) = unat x - 1"
  by (metis unat_pred_nonzero word_not_simps(1))

lemma unat_diff_le [word_step]:
  fixes x y :: "'a::len word"
  shows "y \<le> x \<Longrightarrow> unat (x - y) = unat x - unat y"
  by (rule unat_sub)

text \<open>The measure of every loop that steps an index down to, or up to, a bound.\<close>

lemma unat_diff_down:
  fixes x y :: "'a::len word"
  assumes "x \<noteq> y"
  shows "unat (x - 1 - y) < unat (x - y)"
proof -
  have "x - y \<noteq> 0" using assms by simp
  moreover have "x - 1 - y = (x - y) - 1" by simp
  ultimately show ?thesis
    by (metis diff_less unat_gt_0 unat_minus_one zero_less_one)
qed

lemma unat_diff_up:
  fixes x y :: "'a::len word"
  assumes "x \<noteq> y"
  shows "unat (y - (x + 1)) < unat (y - x)"
proof -
  have "y - x \<noteq> 0" using assms by simp
  moreover have "y - (x + 1) = (y - x) - 1" by simp
  ultimately show ?thesis
    by (metis diff_less unat_gt_0 unat_minus_one zero_less_one)
qed

subsection \<open>Residues: distinct indices of a window occupy distinct slots\<close>

lemma mod_window_inj:
  fixes i j n :: nat
  assumes "i mod n = j mod n" "i \<le> j" "j < i + n"
  shows "i = j"
proof -
  have "n dvd j - i" using assms(1,2) by (metis mod_eq_dvd_iff_nat)
  moreover have "j - i < n" using assms(2,3) by linarith
  ultimately have "j - i = 0" by (metis nat_dvd_not_less not_gr_zero)
  then show ?thesis using assms(2) by simp
qed

lemma mod_window_inj':
  fixes i j n t h :: nat
  assumes "i mod n = j mod n" "t \<le> i" "i < h" "t \<le> j" "j < h" "h \<le> t + n"
  shows "i = j"
  using assms mod_window_inj [of i n j] mod_window_inj [of j n i] by linarith

end
