(* ===== verification/ContentView.thy ===== *)
theory ContentView
  imports Prelude
begin

text \<open>
  The rolling content view of \<open>src/view\<close>: the circular buffer of \<open>ViewItem\<close>s that
  holds the frames between the producer (\<open>contentViewAddItem\<close>, the head) and the
  consumer (\<open>contentViewGetNext\<close>, the current item), and from whose tail items are
  evicted. Indices are 64-bit and only grow; an item lives in the slot given by its index
  modulo the item count. A \<open>PViewItem\<close> is the slot number; the remove callback is an
  application function, so every operation returns the notifications it sends, in order.
\<close>

subsection \<open>Items, flags and the view object\<close>

abbreviation (input) ITEM_FLAG_NONE :: UINT32 where "ITEM_FLAG_NONE \<equiv> 0"
abbreviation (input) ITEM_FLAG_FRAGMENT_START :: UINT32 where "ITEM_FLAG_FRAGMENT_START \<equiv> 2"
abbreviation (input) ITEM_FLAG_RECEIVED_ACK :: UINT32 where "ITEM_FLAG_RECEIVED_ACK \<equiv> 8"
abbreviation (input) ITEM_FLAG_SKIP_ITEM :: UINT32 where "ITEM_FLAG_SKIP_ITEM \<equiv> 64"

definition CHECK_ITEM_FRAGMENT_START :: "UINT32 \<Rightarrow> bool" where
  "CHECK_ITEM_FRAGMENT_START f \<longleftrightarrow> (f AND ITEM_FLAG_FRAGMENT_START) \<noteq> ITEM_FLAG_NONE"

definition CHECK_ITEM_RECEIVED_ACK :: "UINT32 \<Rightarrow> bool" where
  "CHECK_ITEM_RECEIVED_ACK f \<longleftrightarrow> (f AND ITEM_FLAG_RECEIVED_ACK) \<noteq> ITEM_FLAG_NONE"

definition CHECK_ITEM_SKIP_ITEM :: "UINT32 \<Rightarrow> bool" where
  "CHECK_ITEM_SKIP_ITEM f \<longleftrightarrow> (f AND ITEM_FLAG_SKIP_ITEM) \<noteq> ITEM_FLAG_NONE"

definition GET_ITEM_DATA_OFFSET :: "UINT32 \<Rightarrow> UINT16" where
  "GET_ITEM_DATA_OFFSET f = ucast (drop_bit 16 f)"

definition SET_ITEM_DATA_OFFSET :: "UINT32 \<Rightarrow> UINT32 \<Rightarrow> UINT32" where
  "SET_ITEM_DATA_OFFSET f off =
     (f AND 0x0000ffff) OR push_bit 16 (ucast (ucast off :: UINT16))"

record ViewItem =
  vi_index :: UINT64
  vi_timestamp :: UINT64
  vi_ackTimestamp :: UINT64
  vi_duration :: UINT64
  vi_length :: UINT32
  vi_flags :: UINT32
  vi_handle :: UINT64

datatype CONTENT_VIEW_OVERFLOW_POLICY =
    CONTENT_VIEW_OVERFLOW_POLICY_DROP_TAIL_VIEW_ITEM
  | CONTENT_VIEW_OVERFLOW_POLICY_DROP_UNTIL_FRAGMENT_START

text \<open>\<open>cv_removeCallbackFunc\<close> says whether the callback pointer is non-\<open>NULL\<close>.\<close>

record RollingContentView =
  cv_version :: UINT32
  cv_allocationSize :: UINT32
  cv_head :: UINT64
  cv_tail :: UINT64
  cv_current :: UINT64
  cv_customData :: UINT64
  cv_removeCallbackFunc :: bool
  cv_bufferDuration :: UINT64
  cv_bufferOverflowStrategy :: CONTENT_VIEW_OVERFLOW_POLICY
  cv_itemBufferCount :: UINT64
  cv_itemBuffer :: "ViewItem list"

text \<open>A call of the remove callback: the custom data, the item and the flag passed.\<close>

type_synonym notification = "UINT64 \<times> ViewItem \<times> bool"

abbreviation (input) MIN_CONTENT_VIEW_ITEMS :: UINT32 where "MIN_CONTENT_VIEW_ITEMS \<equiv> 10"
abbreviation (input) MIN_CONTENT_VIEW_BUFFER_DURATION :: UINT64 where
  "MIN_CONTENT_VIEW_BUFFER_DURATION \<equiv> 0"
abbreviation (input) CONTENT_VIEW_CURRENT_VERSION :: UINT32 where "CONTENT_VIEW_CURRENT_VERSION \<equiv> 0"
abbreviation (input) MAX_UINT64 :: UINT64 where "MAX_UINT64 \<equiv> 0xffffffffffffffff"

text \<open>\<open>sizeof(RollingContentView)\<close> and \<open>sizeof(ViewItem)\<close>.\<close>

abbreviation (input) SIZEOF_RollingContentView :: nat where "SIZEOF_RollingContentView \<equiv> 80"
abbreviation (input) SIZEOF_ViewItem :: nat where "SIZEOF_ViewItem \<equiv> 48"

definition GET_VIEW_ITEM_FROM_INDEX :: "RollingContentView \<Rightarrow> UINT64 \<Rightarrow> nat" where
  "GET_VIEW_ITEM_FROM_INDEX v i = (if i = 0 then 0 else unat (i mod cv_itemBufferCount v))"

text \<open>What the pointer returned by \<open>GET_VIEW_ITEM_FROM_INDEX\<close> points to.\<close>

definition item_at :: "RollingContentView \<Rightarrow> UINT64 \<Rightarrow> ViewItem" where
  "item_at v i = cv_itemBuffer v ! GET_VIEW_ITEM_FROM_INDEX v i"

definition notify :: "RollingContentView \<Rightarrow> ViewItem \<Rightarrow> bool \<Rightarrow> notification list" where
  "notify v it removed =
     (if cv_removeCallbackFunc v then [(cv_customData v, it, removed)] else [])"

subsection \<open>Creation, eviction and release\<close>

definition zero_item :: ViewItem where
  "zero_item = \<lparr>vi_index = 0, vi_timestamp = 0, vi_ackTimestamp = 0, vi_duration = 0,
     vi_length = 0, vi_flags = 0, vi_handle = 0\<rparr>"

text \<open>
  The allocation size is computed in 64 bits and stored in a \<open>UINT32\<close>. The zeroed items
  are those the allocation has room for behind the structure.
\<close>

definition contentViewAllocationSize :: "UINT32 \<Rightarrow> UINT32" where
  "contentViewAllocationSize maxItemCount =
     ucast (of_nat SIZEOF_RollingContentView + of_nat SIZEOF_ViewItem * ucast maxItemCount :: UINT64)"

definition createContentView ::
  "UINT32 \<Rightarrow> UINT64 \<Rightarrow> bool \<Rightarrow> UINT64 \<Rightarrow> CONTENT_VIEW_OVERFLOW_POLICY \<Rightarrow> bool \<Rightarrow> bool
   \<Rightarrow> STATUS \<times> RollingContentView option" where
  "createContentView maxItemCount bufferDuration removeCallbackFunc customData overflowStrategy
     ppContentView calloc =
     (if \<not> ppContentView then (STATUS_NULL_ARG, None)
      else if \<not> maxItemCount > MIN_CONTENT_VIEW_ITEMS then (STATUS_MIN_CONTENT_VIEW_ITEMS, None)
      else if \<not> bufferDuration > MIN_CONTENT_VIEW_BUFFER_DURATION
        then (STATUS_INVALID_CONTENT_VIEW_DURATION, None)
      else if \<not> calloc then (STATUS_NOT_ENOUGH_MEMORY, None)
      else (STATUS_SUCCESS, Some
        \<lparr>cv_version = CONTENT_VIEW_CURRENT_VERSION,
         cv_allocationSize = contentViewAllocationSize maxItemCount,
         cv_head = 0, cv_tail = 0, cv_current = 0,
         cv_customData = customData,
         cv_removeCallbackFunc = removeCallbackFunc,
         cv_bufferDuration = bufferDuration,
         cv_bufferOverflowStrategy = overflowStrategy,
         cv_itemBufferCount = ucast maxItemCount,
         cv_itemBuffer = replicate
           ((unat (contentViewAllocationSize maxItemCount) - SIZEOF_RollingContentView)
             div SIZEOF_ViewItem) zero_item\<rparr>))"

text \<open>
  The body shared by the loops of \<open>contentViewRemoveAll\<close> and \<open>contentViewTrimTail\<close>:
  the tail moves first, the current item is pushed along, the callback is called.
\<close>

definition evictTail :: "RollingContentView \<Rightarrow> RollingContentView \<times> notification list" where
  "evictTail v =
     (let pTail = item_at v (cv_tail v);
          v1 = v\<lparr>cv_tail := cv_tail v + 1\<rparr>;
          currentRemoved = (cv_current v1 < cv_tail v1);
          v2 = (if currentRemoved then v1\<lparr>cv_current := cv_tail v1\<rparr> else v1)
      in (v2, notify v2 pTail currentRemoved))"

lemma evictTail_fields [simp]:
  "cv_tail (fst (evictTail v)) = cv_tail v + 1"
  "cv_head (fst (evictTail v)) = cv_head v"
  "cv_itemBuffer (fst (evictTail v)) = cv_itemBuffer v"
  "cv_itemBufferCount (fst (evictTail v)) = cv_itemBufferCount v"
  "cv_removeCallbackFunc (fst (evictTail v)) = cv_removeCallbackFunc v"
  "cv_customData (fst (evictTail v)) = cv_customData v"
  by (simp_all add: evictTail_def Let_def)

function evictTailUntil ::
  "UINT64 \<Rightarrow> RollingContentView \<Rightarrow> RollingContentView \<times> notification list" where
  "evictTailUntil to v =
     (if cv_tail v = to then (v, [])
      else let (v1, ev1) = evictTail v; (v2, ev2) = evictTailUntil to v1 in (v2, ev1 @ ev2))"
  by pat_completeness auto
termination
proof (relation "measure (\<lambda>(to, v). unat (to - cv_tail v))", simp)
  fix to v x and v1 :: RollingContentView and ev1
  assume "cv_tail v \<noteq> to" "x = evictTail v" "(v1, ev1) = x"
  then show "((to, v1), to, v) \<in> measure (\<lambda>(to, v). unat (to - cv_tail v))"
    using evictTail_fields(1) [of v] unat_diff_up [of "cv_tail v" to]
    by (metis (no_types, lifting) case_prod_conv fst_conv in_measure)
qed

declare evictTailUntil.simps [simp del]

fun contentViewRemoveAll ::
  "RollingContentView option \<Rightarrow> STATUS \<times> RollingContentView option \<times> notification list" where
  "contentViewRemoveAll None = (STATUS_NULL_ARG, None, [])"
| "contentViewRemoveAll (Some v) =
     (if cv_tail v = cv_head v then (STATUS_SUCCESS, Some v, [])
      else let (v', ev) = evictTailUntil (cv_head v) v in (STATUS_SUCCESS, Some v', ev))"

text \<open>Releasing the object: the status of the purge is ignored; the memory is gone.\<close>

fun freeContentView ::
  "RollingContentView option \<Rightarrow> STATUS \<times> RollingContentView option \<times> notification list" where
  "freeContentView None = (STATUS_SUCCESS, None, [])"
| "freeContentView (Some v) =
     (let (_, _, ev) = contentViewRemoveAll (Some v) in (STATUS_SUCCESS, None, ev))"

fun contentViewTrimTail ::
  "RollingContentView option \<Rightarrow> UINT64 \<Rightarrow> STATUS \<times> RollingContentView option \<times> notification list"
where
  "contentViewTrimTail None itemIndex = (STATUS_NULL_ARG, None, [])"
| "contentViewTrimTail (Some v) itemIndex =
     (if \<not> (itemIndex \<ge> cv_tail v \<and> itemIndex \<le> cv_head v)
      then (STATUS_CONTENT_VIEW_INVALID_INDEX, Some v, [])
      else let (v', ev) = evictTailUntil itemIndex v in (STATUS_SUCCESS, Some v', ev))"


subsection \<open>Queries\<close>

fun contentViewItemExists ::
  "RollingContentView option \<Rightarrow> UINT64 \<Rightarrow> bool \<Rightarrow> STATUS \<times> bool option" where
  "contentViewItemExists (Some v) itemIndex True =
     (STATUS_SUCCESS, Some (itemIndex \<ge> cv_tail v \<and> itemIndex < cv_head v))"
| "contentViewItemExists _ _ _ = (STATUS_NULL_ARG, None)"

fun contentViewTimestampInRange ::
  "RollingContentView option \<Rightarrow> UINT64 \<Rightarrow> bool \<Rightarrow> bool \<Rightarrow> STATUS \<times> bool option" where
  "contentViewTimestampInRange (Some v) timestamp checkAckTimeStamp True =
     (if cv_head v = cv_tail v then (STATUS_SUCCESS, Some False)
      else
        let pNewest = item_at v (cv_head v - 1); pOldest = item_at v (cv_tail v)
        in (STATUS_SUCCESS, Some
          (if checkAckTimeStamp
           then timestamp \<ge> vi_ackTimestamp pOldest \<and>
                timestamp \<le> vi_ackTimestamp pNewest + vi_duration pNewest
           else timestamp \<ge> vi_timestamp pOldest \<and>
                timestamp \<le> vi_timestamp pNewest + vi_duration pNewest)))"
| "contentViewTimestampInRange None _ _ True = (STATUS_NULL_ARG, Some False)"
| "contentViewTimestampInRange _ _ _ False = (STATUS_NULL_ARG, None)"

fun contentViewGetItemAt ::
  "RollingContentView option \<Rightarrow> UINT64 \<Rightarrow> bool \<Rightarrow> STATUS \<times> nat option" where
  "contentViewGetItemAt (Some v) itemIndex True =
     (case contentViewItemExists (Some v) itemIndex True of
        (st, ex) \<Rightarrow>
          if STATUS_FAILED st then (st, None)
          else if ex \<noteq> Some True then (STATUS_CONTENT_VIEW_INVALID_INDEX, None)
          else (STATUS_SUCCESS, Some (GET_VIEW_ITEM_FROM_INDEX v itemIndex)))"
| "contentViewGetItemAt _ _ _ = (STATUS_NULL_ARG, None)"

fun contentViewGetNext ::
  "RollingContentView option \<Rightarrow> bool \<Rightarrow> STATUS \<times> RollingContentView option \<times> nat option" where
  "contentViewGetNext (Some v) True =
     (if \<not> (cv_head v \<noteq> cv_tail v \<and> cv_current v \<noteq> cv_head v)
      then (STATUS_CONTENT_VIEW_NO_MORE_ITEMS, Some v, None)
      else if cv_current v > cv_head v \<and> cv_head v > cv_tail v
      then (STATUS_CONTENT_VIEW_INVALID_INDEX, Some (v\<lparr>cv_current := cv_tail v\<rparr>), None)
      else (STATUS_SUCCESS, Some (v\<lparr>cv_current := cv_current v + 1\<rparr>),
            Some (GET_VIEW_ITEM_FROM_INDEX v (cv_current v))))"
| "contentViewGetNext v _ = (STATUS_NULL_ARG, v, None)"

fun contentViewGetCurrentIndex ::
  "RollingContentView option \<Rightarrow> bool \<Rightarrow> STATUS \<times> UINT64 option" where
  "contentViewGetCurrentIndex (Some v) True = (STATUS_SUCCESS, Some (cv_current v))"
| "contentViewGetCurrentIndex _ _ = (STATUS_NULL_ARG, None)"

fun contentViewSetCurrentIndex ::
  "RollingContentView option \<Rightarrow> UINT64 \<Rightarrow> STATUS \<times> RollingContentView option" where
  "contentViewSetCurrentIndex None _ = (STATUS_NULL_ARG, None)"
| "contentViewSetCurrentIndex (Some v) i =
     (if \<not> (i \<ge> cv_tail v \<and> i \<le> cv_head v) then (STATUS_CONTENT_VIEW_INVALID_INDEX, Some v)
      else (STATUS_SUCCESS, Some (v\<lparr>cv_current := i\<rparr>)))"

fun contentViewResetCurrent ::
  "RollingContentView option \<Rightarrow> STATUS \<times> RollingContentView option" where
  "contentViewResetCurrent None = (STATUS_NULL_ARG, None)"
| "contentViewResetCurrent (Some v) = (STATUS_SUCCESS, Some (v\<lparr>cv_current := cv_tail v\<rparr>))"

fun contentViewGetTail :: "RollingContentView option \<Rightarrow> bool \<Rightarrow> STATUS \<times> nat option" where
  "contentViewGetTail (Some v) True =
     (if cv_head v = 0 then (STATUS_CONTENT_VIEW_NO_MORE_ITEMS, None)
      else (STATUS_SUCCESS, Some (GET_VIEW_ITEM_FROM_INDEX v (cv_tail v))))"
| "contentViewGetTail _ _ = (STATUS_NULL_ARG, None)"

fun contentViewGetHead :: "RollingContentView option \<Rightarrow> bool \<Rightarrow> STATUS \<times> nat option" where
  "contentViewGetHead (Some v) True =
     (if cv_head v = 0 then (STATUS_CONTENT_VIEW_NO_MORE_ITEMS, None)
      else (STATUS_SUCCESS, Some (GET_VIEW_ITEM_FROM_INDEX v (cv_head v - 1))))"
| "contentViewGetHead _ _ = (STATUS_NULL_ARG, None)"

fun contentViewGetAllocationSize ::
  "RollingContentView option \<Rightarrow> bool \<Rightarrow> STATUS \<times> UINT32 option" where
  "contentViewGetAllocationSize (Some v) True = (STATUS_SUCCESS, Some (cv_allocationSize v))"
| "contentViewGetAllocationSize _ _ = (STATUS_NULL_ARG, None)"

text \<open>
  The window queries: the first component written is the value from the current item, the
  second the value for the whole window, each only if its pointer is non-\<open>NULL\<close>.
\<close>

definition written :: "bool \<Rightarrow> 'a \<Rightarrow> 'a option" where
  "written p x = (if p then Some x else None)"

definition contentViewGetWindowDuration ::
  "RollingContentView option \<Rightarrow> bool \<Rightarrow> bool \<Rightarrow> STATUS \<times> UINT64 option \<times> UINT64 option" where
  "contentViewGetWindowDuration pv pCurrentDuration pWindowDuration =
     (let out = (\<lambda>st c w. (st, written pCurrentDuration c, written pWindowDuration w))
      in case pv of
           None \<Rightarrow> out STATUS_NULL_ARG 0 0
         | Some v \<Rightarrow>
             if \<not> pCurrentDuration then out STATUS_NULL_ARG 0 0
             else if cv_head v = cv_tail v then out STATUS_SUCCESS 0 0
             else
               let pHead = item_at v (cv_head v - 1);
                   pTail = item_at v (cv_tail v);
                   pCurrent = item_at v (cv_current v);
                   windowDuration =
                     vi_ackTimestamp pHead + vi_duration pHead - vi_ackTimestamp pTail
               in if cv_head v = cv_current v then out STATUS_SUCCESS 0 windowDuration
                  else out STATUS_SUCCESS
                    (vi_ackTimestamp pHead + vi_duration pHead - vi_ackTimestamp pCurrent)
                    windowDuration)"

definition contentViewGetWindowItemCount ::
  "RollingContentView option \<Rightarrow> bool \<Rightarrow> bool \<Rightarrow> STATUS \<times> UINT64 option \<times> UINT64 option" where
  "contentViewGetWindowItemCount pv pCurrentItemCount pWindowItemCount =
     (let out = (\<lambda>st c w. (st, written pCurrentItemCount c, written pWindowItemCount w))
      in case pv of
           None \<Rightarrow> out STATUS_NULL_ARG 0 0
         | Some v \<Rightarrow>
             if \<not> pCurrentItemCount then out STATUS_NULL_ARG 0 0
             else if cv_head v = cv_tail v then out STATUS_SUCCESS 0 0
             else out STATUS_SUCCESS (cv_head v - cv_current v) (cv_head v - cv_tail v))"

text \<open>The backward loop of \<open>contentViewGetWindowAllocationSize\<close>.\<close>

function windowAllocationLoop ::
  "RollingContentView \<Rightarrow> bool \<Rightarrow> UINT64 \<Rightarrow> UINT64 \<Rightarrow> UINT64 \<Rightarrow> UINT64 \<times> UINT64" where
  "windowAllocationLoop v pWindow curIndex cur win =
     (let len = ucast (vi_length (item_at v curIndex));
          cur' = (if curIndex \<ge> cv_current v \<and> cv_head v \<noteq> cv_current v then cur + len else cur);
          win' = win + len
      in if curIndex = cv_current v \<and> \<not> pWindow then (cur', win')
         else if curIndex = cv_tail v then (cur', win')
         else windowAllocationLoop v pWindow (curIndex - 1) cur' win')"
  by pat_completeness auto
termination
  by (relation "measure (\<lambda>(v, p, i, c, w). unat (i - cv_tail v))") (auto simp: unat_diff_down)

declare windowAllocationLoop.simps [simp del]

definition contentViewGetWindowAllocationSize ::
  "RollingContentView option \<Rightarrow> bool \<Rightarrow> bool \<Rightarrow> STATUS \<times> UINT64 option \<times> UINT64 option" where
  "contentViewGetWindowAllocationSize pv pCurrentAllocationSize pWindowAllocationSize =
     (let out = (\<lambda>st c w. (st, written pCurrentAllocationSize c, written pWindowAllocationSize w))
      in case pv of
           None \<Rightarrow> out STATUS_NULL_ARG 0 0
         | Some v \<Rightarrow>
             if \<not> pCurrentAllocationSize then out STATUS_NULL_ARG 0 0
             else if cv_head v = cv_tail v then out STATUS_SUCCESS 0 0
             else if \<not> (cv_head v \<noteq> cv_current v \<or> pWindowAllocationSize)
               then out STATUS_SUCCESS 0 0
             else let (c, w) = windowAllocationLoop v pWindowAllocationSize (cv_head v - 1) 0 0
               in out STATUS_SUCCESS c w)"

subsection \<open>Search by timestamp\<close>

definition item_ts :: "bool \<Rightarrow> ViewItem \<Rightarrow> UINT64" where
  "item_ts checkAckTimeStamp it =
     (if checkAckTimeStamp then vi_ackTimestamp it else vi_timestamp it)"

text \<open>
  The binary search. \<open>None\<close> is the process being stopped by the fatal \<open>CHECK\<close> (or
  not returning); \<open>cur\<close> is the slot \<open>pCurItem\<close> points to.
\<close>

partial_function (option) findLoop ::
  "RollingContentView \<Rightarrow> UINT64 \<Rightarrow> bool \<Rightarrow> UINT64 \<Rightarrow> UINT64 \<Rightarrow> nat \<Rightarrow> nat option" where
  "findLoop v timestamp checkAck oldestIndex newestIndex cur =
     (if \<not> oldestIndex \<le> newestIndex then Some cur
      else
        let curIndex = (oldestIndex + newestIndex) div 2;
            r = contentViewGetItemAt (Some v) curIndex True
        in if STATUS_FAILED (fst r) then None
           else
             let p = the (snd r); it = cv_itemBuffer v ! p; ts = item_ts checkAck it
             in if ts \<le> timestamp \<and> ts + vi_duration it \<ge> timestamp then Some p
                else if ts > timestamp
                then findLoop v timestamp checkAck oldestIndex (curIndex - 1) p
                else findLoop v timestamp checkAck (curIndex + 1) newestIndex p)"

definition findViewItemWithTimestamp ::
  "RollingContentView \<Rightarrow> nat \<Rightarrow> nat \<Rightarrow> UINT64 \<Rightarrow> bool \<Rightarrow> nat option" where
  "findViewItemWithTimestamp v pOldest pNewest timestamp checkAck =
     findLoop v timestamp checkAck (vi_index (cv_itemBuffer v ! pOldest))
       (vi_index (cv_itemBuffer v ! pNewest)) pOldest"

text \<open>\<open>None\<close> again stands for the fatal assertion inside the search.\<close>

fun contentViewGetItemWithTimestamp ::
  "RollingContentView option \<Rightarrow> UINT64 \<Rightarrow> bool \<Rightarrow> bool \<Rightarrow> (STATUS \<times> nat option) option" where
  "contentViewGetItemWithTimestamp (Some v) timestamp checkAck True =
     (case contentViewTimestampInRange (Some v) timestamp checkAck True of
        (st, ex) \<Rightarrow>
          if STATUS_FAILED st then Some (st, None)
          else if ex \<noteq> Some True then Some (STATUS_CONTENT_VIEW_INVALID_TIMESTAMP, None)
          else map_option (\<lambda>p. (STATUS_SUCCESS, Some p))
            (findViewItemWithTimestamp v (GET_VIEW_ITEM_FROM_INDEX v (cv_tail v))
              (GET_VIEW_ITEM_FROM_INDEX v (cv_head v - 1)) timestamp checkAck))"
| "contentViewGetItemWithTimestamp _ _ _ _ = Some (STATUS_NULL_ARG, None)"


subsection \<open>Overflow handling and insertion\<close>

fun contentViewCheckAvailability ::
  "RollingContentView option \<Rightarrow> bool \<Rightarrow> STATUS \<times> bool option" where
  "contentViewCheckAvailability (Some v) True =
     (STATUS_SUCCESS, Some
       (\<not> (cv_head v \<noteq> cv_tail v \<and>
           (let pHead = item_at v (cv_head v - 1); pTail = item_at v (cv_tail v)
            in cv_head v - cv_tail v \<ge> cv_itemBufferCount v \<or>
               vi_ackTimestamp pHead + vi_duration pHead - vi_ackTimestamp pTail
                 \<ge> cv_bufferDuration v))))"
| "contentViewCheckAvailability _ _ = (STATUS_NULL_ARG, None)"

lemma unat_drop_measure:
  fixes t h :: "'a::len word"
  assumes "t + 1 \<noteq> h"
  shows "unat (h - t - 2) < unat (h - t - 1)"
proof -
  have "h - t - 2 = (h - t - 1) - 1" by simp
  moreover have "h - t - 1 \<noteq> 0" using assms by (simp add: algebra_simps)
  ultimately show ?thesis
    by (metis diff_less unat_gt_0 unat_minus_one zero_less_one)
qed

text \<open>
  The \<open>do ... while\<close> loop of the drop-until-fragment-start policy; \<open>dropped\<close> is
  \<open>dropFrameCount\<close> and the result carries the evicted items' notifications.
\<close>

function dropUntilFragmentStart ::
  "UINT64 \<Rightarrow> RollingContentView \<Rightarrow> bool \<Rightarrow> UINT32 \<Rightarrow> RollingContentView \<times> notification list" where
  "dropUntilFragmentStart currentStreamingItem v viewItemDropped dropped =
     (let pTail = item_at v (cv_tail v);
          drop = (cv_removeCallbackFunc v \<and> cv_tail v \<noteq> currentStreamingItem);
          ev = (if drop then [(cv_customData v, pTail, viewItemDropped)] else []);
          dropped' = (if drop then dropped + 1 else dropped);
          viewItemDropped' =
            (if cv_removeCallbackFunc v \<and> cv_tail v = currentStreamingItem then True
             else viewItemDropped);
          v1 = v\<lparr>cv_tail := cv_tail v + 1\<rparr>
      in if cv_tail v1 \<noteq> cv_head v1 \<and>
            (dropped' = 0 \<or> \<not> CHECK_ITEM_FRAGMENT_START (vi_flags (item_at v1 (cv_tail v1))))
         then let (v2, ev2) =
                dropUntilFragmentStart currentStreamingItem v1 viewItemDropped' dropped'
              in (v2, ev @ ev2)
         else (v1, ev))"
  by pat_completeness auto

termination
  by (relation "measure (\<lambda>(s, v, b, n). unat (cv_head v - cv_tail v - 1))")
     (auto simp: unat_drop_measure)

declare dropUntilFragmentStart.simps [simp del]

text \<open>
  \<open>dropTail\<close> is the \<open>switch\<close> over the overflow policy, \<open>retainStreamingItem\<close> the
  final block that keeps the item being streamed as the new tail.
\<close>

definition dropTail ::
  "UINT64 \<Rightarrow> bool \<Rightarrow> RollingContentView \<Rightarrow> RollingContentView \<times> notification list" where
  "dropTail currentStreamingItem viewItemDropped v =
     (case cv_bufferOverflowStrategy v of
        CONTENT_VIEW_OVERFLOW_POLICY_DROP_TAIL_VIEW_ITEM \<Rightarrow>
          let v1 = (if cv_tail v = currentStreamingItem
                    then v\<lparr>cv_tail := cv_tail v + 1\<rparr> else v);
              pTail = item_at v1 (cv_tail v1)
          in (v1\<lparr>cv_tail := cv_tail v1 + 1\<rparr>, notify v1 pTail True)
      | CONTENT_VIEW_OVERFLOW_POLICY_DROP_UNTIL_FRAGMENT_START \<Rightarrow>
          dropUntilFragmentStart currentStreamingItem v viewItemDropped 0)"

definition retainStreamingItem :: "UINT64 \<Rightarrow> RollingContentView \<Rightarrow> RollingContentView" where
  "retainStreamingItem currentStreamingItem v =
     (if cv_current v \<le> cv_tail v
      then let v1 = v\<lparr>cv_current := cv_tail v\<rparr>
           in if currentStreamingItem \<noteq> MAX_UINT64 \<and> currentStreamingItem < cv_tail v1
              then let v2 = v1\<lparr>cv_tail := cv_tail v1 - 1\<rparr>;
                       v3 = v2\<lparr>cv_current := cv_tail v2 + 1\<rparr>;
                       pCurrentViewItem = item_at v3 currentStreamingItem;
                       slot = GET_VIEW_ITEM_FROM_INDEX v3 (cv_tail v3);
                       pTail = (cv_itemBuffer v3 ! slot)
                         \<lparr>vi_flags := vi_flags pCurrentViewItem,
                          vi_handle := vi_handle pCurrentViewItem,
                          vi_length := vi_length pCurrentViewItem,
                          vi_index := cv_tail v3\<rparr>
                   in v3\<lparr>cv_itemBuffer := (cv_itemBuffer v3)[slot := pTail]\<rparr>
              else v1
      else v)"

fun contentViewTrimTailItems ::
  "RollingContentView option \<Rightarrow> STATUS \<times> RollingContentView option \<times> notification list" where
  "contentViewTrimTailItems None = (STATUS_NULL_ARG, None, [])"
| "contentViewTrimTailItems (Some v) =
     (let consumed = (cv_current v > cv_tail v);
          currentStreamingItem = (if consumed then cv_current v - 1 else MAX_UINT64);
          (v1, ev) = dropTail currentStreamingItem (\<not> consumed) v
      in (STATUS_SUCCESS, Some (retainStreamingItem currentStreamingItem v1), ev))"

text \<open>The write of the new item into the head slot and the increment of the head.\<close>

definition appendItem ::
  "RollingContentView \<Rightarrow> UINT64 \<Rightarrow> UINT64 \<Rightarrow> UINT64 \<Rightarrow> UINT64 \<Rightarrow> UINT32 \<Rightarrow> UINT32 \<Rightarrow> UINT32
   \<Rightarrow> RollingContentView" where
  "appendItem v timestamp ackTimeStamp duration allocHandle offset len flags =
     (let slot = GET_VIEW_ITEM_FROM_INDEX v (cv_head v);
          it = \<lparr>vi_index = cv_head v, vi_timestamp = timestamp, vi_ackTimestamp = ackTimeStamp,
                vi_duration = duration, vi_length = len,
                vi_flags = SET_ITEM_DATA_OFFSET flags offset, vi_handle = allocHandle\<rparr>
      in v\<lparr>cv_itemBuffer := (cv_itemBuffer v)[slot := it], cv_head := cv_head v + 1\<rparr>)"

fun contentViewAddItem ::
  "RollingContentView option \<Rightarrow> UINT64 \<Rightarrow> UINT64 \<Rightarrow> UINT64 \<Rightarrow> UINT64 \<Rightarrow> UINT32 \<Rightarrow> UINT32 \<Rightarrow> UINT32
   \<Rightarrow> STATUS \<times> RollingContentView option \<times> notification list" where
  "contentViewAddItem None _ _ _ _ _ _ _ = (STATUS_NULL_ARG, None, [])"
| "contentViewAddItem (Some v) timestamp ackTimeStamp duration allocHandle offset len flags =
     (if \<not> len > 0 then (STATUS_INVALID_CONTENT_VIEW_LENGTH, Some v, [])
      else
        let append = (\<lambda>v. appendItem v timestamp ackTimeStamp duration allocHandle offset len flags)
        in if cv_head v \<noteq> cv_tail v
           then if \<not> vi_timestamp (item_at v (cv_head v - 1)) \<le> timestamp
                then (STATUS_CONTENT_VIEW_INVALID_TIMESTAMP, Some v, [])
                else
                  case contentViewCheckAvailability (Some v) True of
                    (st, avail) \<Rightarrow>
                      if STATUS_FAILED st then (st, Some v, [])
                      else if avail \<noteq> Some True
                      then case contentViewTrimTailItems (Some v) of
                             (st', pv', ev) \<Rightarrow>
                               if STATUS_FAILED st' then (st', pv', ev)
                               else (STATUS_SUCCESS, map_option append pv', ev)
                      else (STATUS_SUCCESS, Some (append v), [])
           else (STATUS_SUCCESS, Some (append v), []))"

subsection \<open>Rolling back the current item\<close>

text \<open>
  The backward loop: the result is the new \<open>current\<close>. \<open>cur\<close> is the view's current
  index as the loop has set it so far.
\<close>

function rollbackLoop ::
  "RollingContentView \<Rightarrow> UINT64 \<Rightarrow> UINT64 \<Rightarrow> bool \<Rightarrow> bool \<Rightarrow> UINT64 \<Rightarrow> UINT64 \<Rightarrow> UINT64 \<Rightarrow> UINT64" where
  "rollbackLoop v timestamp duration keyFrame lastReceivedAck curIndex lastIndex cur =
     (let pCurrent = item_at v curIndex;
          start = (\<not> keyFrame \<or> CHECK_ITEM_FRAGMENT_START (vi_flags pCurrent))
      in if start \<and> lastReceivedAck \<and> CHECK_ITEM_RECEIVED_ACK (vi_flags pCurrent) then lastIndex
         else if start \<and> vi_ackTimestamp pCurrent + duration \<le> timestamp then curIndex
         else
           let cur' = (if start then curIndex else cur);
               lastIndex' = (if start then curIndex else lastIndex)
           in if curIndex = cv_tail v then cur'
              else rollbackLoop v timestamp duration keyFrame lastReceivedAck (curIndex - 1)
                     lastIndex' cur')"
  by pat_completeness auto
termination
  by (relation "measure (\<lambda>(v, t, d, k, a, i, l, c). unat (i - cv_tail v))")
     (auto simp: unat_diff_down)

declare rollbackLoop.simps [simp del]

text \<open>The forward loop over items marked to be skipped.\<close>

function skipForward :: "RollingContentView \<Rightarrow> UINT64 \<Rightarrow> UINT64" where
  "skipForward v curIndex =
     (if \<not> CHECK_ITEM_SKIP_ITEM (vi_flags (item_at v curIndex)) then curIndex
      else if curIndex = cv_head v then curIndex
      else skipForward v (curIndex + 1))"
  by pat_completeness auto
termination
  by (relation "measure (\<lambda>(v, i). unat (cv_head v - i))") (auto simp: unat_diff_up)

declare skipForward.simps [simp del]

fun contentViewRollbackCurrent ::
  "RollingContentView option \<Rightarrow> UINT64 \<Rightarrow> bool \<Rightarrow> bool \<Rightarrow> STATUS \<times> RollingContentView option" where
  "contentViewRollbackCurrent None _ _ _ = (STATUS_NULL_ARG, None)"
| "contentViewRollbackCurrent (Some v) duration keyFrame lastReceivedAck =
     (if \<not> (cv_current v \<noteq> cv_tail v \<and> duration \<noteq> 0) then (STATUS_SUCCESS, Some v)
      else
        let curIndex = cv_current v;
            timestamp = vi_ackTimestamp (item_at v curIndex);
            back = rollbackLoop v timestamp duration keyFrame lastReceivedAck
                     curIndex curIndex curIndex
        in (STATUS_SUCCESS, Some (v\<lparr>cv_current := skipForward v back\<rparr>)))"

end
