(* ===== verification/ContentViewInv.thy ===== *)
theory ContentViewInv
  imports ContentView
begin

text \<open>
  The invariant of the rolling content view and the facts that every mutating operation
  keeps it: the index window is ordered and fits the buffer, every live item carries its own
  index, and the live items are ordered by timestamp.
\<close>

subsection \<open>Slots\<close>

lemma slot_unat:
  "GET_VIEW_ITEM_FROM_INDEX v i = unat i mod unat (cv_itemBufferCount v)"
  by (simp add: GET_VIEW_ITEM_FROM_INDEX_def unat_mod)

lemma slot_cong [simp]:
  "GET_VIEW_ITEM_FROM_INDEX (v\<lparr>cv_tail := t\<rparr>) i = GET_VIEW_ITEM_FROM_INDEX v i"
  "GET_VIEW_ITEM_FROM_INDEX (v\<lparr>cv_head := t\<rparr>) i = GET_VIEW_ITEM_FROM_INDEX v i"
  "GET_VIEW_ITEM_FROM_INDEX (v\<lparr>cv_current := t\<rparr>) i = GET_VIEW_ITEM_FROM_INDEX v i"
  "GET_VIEW_ITEM_FROM_INDEX (v\<lparr>cv_itemBuffer := b\<rparr>) i = GET_VIEW_ITEM_FROM_INDEX v i"
  by (simp_all add: GET_VIEW_ITEM_FROM_INDEX_def)

lemma item_at_cong [simp]:
  "item_at (v\<lparr>cv_tail := t\<rparr>) i = item_at v i"
  "item_at (v\<lparr>cv_head := t\<rparr>) i = item_at v i"
  "item_at (v\<lparr>cv_current := t\<rparr>) i = item_at v i"
  by (simp_all add: item_at_def)

lemma slot_inj:
  assumes "GET_VIEW_ITEM_FROM_INDEX v i = GET_VIEW_ITEM_FROM_INDEX v j"
    and "unat t \<le> unat i" "unat i < h" "unat t \<le> unat j" "unat j < h"
    and "h \<le> unat t + unat (cv_itemBufferCount v)"
  shows "i = j"
  using mod_window_inj' [of "unat i" "unat (cv_itemBufferCount v)" "unat j" "unat t" h] assms
  by (simp add: slot_unat unat_eq_iff)

definition view_wf :: "RollingContentView \<Rightarrow> bool" where
  "view_wf v \<longleftrightarrow> 10 < unat (cv_itemBufferCount v) \<and>
     length (cv_itemBuffer v) = unat (cv_itemBufferCount v)"

lemma slot_less: "view_wf v \<Longrightarrow> GET_VIEW_ITEM_FROM_INDEX v i < length (cv_itemBuffer v)"
  by (simp add: view_wf_def slot_unat)

lemma item_at_update:
  assumes "view_wf v"
  shows "item_at (v\<lparr>cv_itemBuffer := (cv_itemBuffer v)[GET_VIEW_ITEM_FROM_INDEX v k := x]\<rparr>) i =
    (if GET_VIEW_ITEM_FROM_INDEX v i = GET_VIEW_ITEM_FROM_INDEX v k then x else item_at v i)"
  using slot_less [OF assms, of k] by (simp add: item_at_def nth_list_update)

subsection \<open>The invariant\<close>

text \<open>
  \<open>live t h v\<close>: between the indices \<open>t\<close> and \<open>h\<close> every item carries its index, and
  timestamps do not decrease.
\<close>

definition live :: "nat \<Rightarrow> nat \<Rightarrow> RollingContentView \<Rightarrow> bool" where
  "live t h v \<longleftrightarrow>
     (\<forall>i. t \<le> unat i \<and> unat i < h \<longrightarrow> vi_index (item_at v i) = i) \<and>
     (\<forall>i j. t \<le> unat i \<and> i \<le> j \<and> unat j < h \<longrightarrow>
        vi_timestamp (item_at v i) \<le> vi_timestamp (item_at v j))"

definition view_inv :: "RollingContentView \<Rightarrow> bool" where
  "view_inv v \<longleftrightarrow> view_wf v \<and> cv_tail v \<le> cv_current v \<and> cv_current v \<le> cv_head v \<and>
     unat (cv_head v) \<le> unat (cv_tail v) + unat (cv_itemBufferCount v) \<and>
     live (unat (cv_tail v)) (unat (cv_head v)) v"

text \<open>
  What the insertion of an item needs: room for it, and a current index of at most one past
  the head (the state an overflow eviction may leave behind).
\<close>

definition view_room :: "RollingContentView \<Rightarrow> bool" where
  "view_room v \<longleftrightarrow> view_wf v \<and> cv_tail v \<le> cv_current v \<and>
     unat (cv_current v) \<le> Suc (unat (cv_head v)) \<and> cv_tail v \<le> cv_head v \<and>
     unat (cv_head v) < unat (cv_tail v) + unat (cv_itemBufferCount v) \<and>
     live (unat (cv_tail v)) (unat (cv_head v)) v"

lemma live_mono: "live t h v \<Longrightarrow> t \<le> t' \<Longrightarrow> h' \<le> h \<Longrightarrow> live t' h' v"
  unfolding live_def by (meson le_trans less_le_trans)

lemma live_cong [simp]:
  "live t h (v\<lparr>cv_tail := x\<rparr>) = live t h v"
  "live t h (v\<lparr>cv_head := x\<rparr>) = live t h v"
  "live t h (v\<lparr>cv_current := x\<rparr>) = live t h v"
  by (simp_all add: live_def)

lemma view_wf_cong [simp]:
  "view_wf (v\<lparr>cv_tail := x\<rparr>) = view_wf v"
  "view_wf (v\<lparr>cv_head := x\<rparr>) = view_wf v"
  "view_wf (v\<lparr>cv_current := x\<rparr>) = view_wf v"
  "view_wf (v\<lparr>cv_itemBuffer := (cv_itemBuffer v)[k := y]\<rparr>) = view_wf v"
  by (simp_all add: view_wf_def)

lemma view_inv_set_current:
  "view_inv v \<Longrightarrow> cv_tail v \<le> c \<Longrightarrow> c \<le> cv_head v \<Longrightarrow> view_inv (v\<lparr>cv_current := c\<rparr>)"
  by (simp add: view_inv_def)

lemma view_inv_order:
  assumes "view_inv v"
  shows "cv_tail v \<le> cv_head v" "unat (cv_tail v) \<le> unat (cv_current v)"
    "unat (cv_current v) \<le> unat (cv_head v)"
  using assms by (auto simp: view_inv_def word_le_nat_alt)

subsection \<open>Insertion\<close>

lemma appendItem_live:
  assumes room: "view_room v"
    and head: "cv_head v \<noteq> MAX_UINT64"
    and ts: "cv_tail v < cv_head v \<Longrightarrow> vi_timestamp (item_at v (cv_head v - 1)) \<le> ts"
  shows "live (unat (cv_tail v)) (Suc (unat (cv_head v)))
    (appendItem v ts ack dur h off len fl)"
proof -
  let ?v = "appendItem v ts ack dur h off len fl"
  let ?s = "GET_VIEW_ITEM_FROM_INDEX v"
  have wf: "view_wf v" and lv: "live (unat (cv_tail v)) (unat (cv_head v)) v"
    and cap: "unat (cv_head v) < unat (cv_tail v) + unat (cv_itemBufferCount v)"
    using room by (simp_all add: view_room_def)
  have at: "item_at ?v i = (if ?s i = ?s (cv_head v) then
      \<lparr>vi_index = cv_head v, vi_timestamp = ts, vi_ackTimestamp = ack, vi_duration = dur,
       vi_length = len, vi_flags = SET_ITEM_DATA_OFFSET fl off, vi_handle = h\<rparr>
      else item_at v i)" for i
    using item_at_update [OF wf] by (simp add: appendItem_def Let_def)
  have new: "?s i = ?s (cv_head v) \<longleftrightarrow> i = cv_head v"
    if "unat (cv_tail v) \<le> unat i" "unat i < Suc (unat (cv_head v))" for i
    using slot_inj [of v i "cv_head v" "cv_tail v" "Suc (unat (cv_head v))"] that cap room
    by (auto simp: view_room_def word_le_nat_alt)
  have old: "vi_timestamp (item_at v i) \<le> ts"
    if "unat (cv_tail v) \<le> unat i" "unat i < unat (cv_head v)" for i
  proof -
    have lt: "cv_tail v < cv_head v" using that by (simp add: word_less_nat_alt)
    have "i \<le> cv_head v - 1" "unat (cv_head v - 1) < unat (cv_head v)"
      using that lt by (auto simp: word_le_nat_alt unat_pred_greater [OF lt])
    then have "vi_timestamp (item_at v i) \<le> vi_timestamp (item_at v (cv_head v - 1))"
      using lv that by (auto simp: live_def)
    then show ?thesis using ts [OF lt] by (rule order_trans)
  qed
  show ?thesis
    unfolding live_def
  proof (intro conjI allI impI; elim conjE)
    fix i :: UINT64 assume i: "unat (cv_tail v) \<le> unat i" "unat i < Suc (unat (cv_head v))"
    show "vi_index (item_at ?v i) = i"
      using at [of i] new [OF i] lv i by (auto simp: live_def less_Suc_eq unat_eq_iff)
  next
    fix i j :: UINT64 assume ij: "unat (cv_tail v) \<le> unat i" "i \<le> j" "unat j < Suc (unat (cv_head v))"
    have j: "unat (cv_tail v) \<le> unat j" and i: "unat i < Suc (unat (cv_head v))"
      using ij by (auto simp: word_le_nat_alt)
    show "vi_timestamp (item_at ?v i) \<le> vi_timestamp (item_at ?v j)"
    proof (cases "j = cv_head v")
      case True
      have "i = cv_head v \<or> unat i < unat (cv_head v)"
        using i by (auto simp: less_Suc_eq unat_eq_iff)
      then show ?thesis using True at [of i] at [of j] new [OF ij(1) i] old [of i] ij(1) by auto
    next
      case False
      then have j': "unat j < unat (cv_head v)" using ij(3) by (auto simp: less_Suc_eq unat_eq_iff)
      moreover have "unat i < unat (cv_head v)" using j' ij(2) by (simp add: word_le_nat_alt)
      ultimately show ?thesis
        using at [of i] at [of j] new [OF ij(1) i] new [OF j ij(3)] ij lv by (auto simp: live_def)
    qed
  qed
qed

lemma appendItem_fields [simp]:
  "cv_tail (appendItem v ts ack dur h off len fl) = cv_tail v"
  "cv_head (appendItem v ts ack dur h off len fl) = cv_head v + 1"
  "cv_current (appendItem v ts ack dur h off len fl) = cv_current v"
  "cv_itemBufferCount (appendItem v ts ack dur h off len fl) = cv_itemBufferCount v"
  "view_wf (appendItem v ts ack dur h off len fl) = view_wf v"
  by (simp_all add: appendItem_def Let_def view_wf_def)

lemma unat_Suc_not_max: "x \<noteq> (MAX_UINT64 :: UINT64) \<Longrightarrow> unat (x + 1) = Suc (unat x)"
proof -
  assume "x \<noteq> MAX_UINT64"
  then have "1 + x \<noteq> 0" by (auto simp: add_eq_0_iff)
  then show ?thesis using unatSuc [of x] by (simp add: add.commute)
qed

lemma appendItem_inv:
  assumes "view_room v" "cv_head v \<noteq> MAX_UINT64"
    "cv_tail v < cv_head v \<Longrightarrow> vi_timestamp (item_at v (cv_head v - 1)) \<le> ts"
  shows "view_inv (appendItem v ts ack dur h off len fl)"
  using appendItem_live [OF assms] assms(1) unat_Suc_not_max [OF assms(2)]
  by (auto simp: view_inv_def view_room_def word_le_nat_alt)


subsection \<open>Overflow eviction\<close>

lemma dropUntil_spec:
  "cv_tail v < cv_head v \<Longrightarrow>
   \<exists>t ev. dropUntilFragmentStart s v b n = (v\<lparr>cv_tail := t\<rparr>, ev) \<and>
     cv_tail v < t \<and> t \<le> cv_head v"
proof (induction s v b n rule: dropUntilFragmentStart.induct)
  case (1 s v b n)
  let ?drop = "cv_removeCallbackFunc v \<and> cv_tail v \<noteq> s"
  let ?n = "if ?drop then n + 1 else n"
  let ?b = "if cv_removeCallbackFunc v \<and> cv_tail v = s then True else b"
  let ?v = "v\<lparr>cv_tail := cv_tail v + 1\<rparr>"
  let ?go = "cv_tail v + 1 \<noteq> cv_head v \<and>
    (?n = 0 \<or> \<not> CHECK_ITEM_FRAGMENT_START (vi_flags (item_at ?v (cv_tail v + 1))))"
  note inc = word_inc_le [OF "1.prems"]
  show ?case
  proof (cases ?go)
    case False
    then show ?thesis
      using inc by (subst dropUntilFragmentStart.simps) (auto simp: Let_def)
  next
    case True
    then have "cv_tail ?v < cv_head ?v" using inc(1) by (simp add: order.strict_iff_order)
    then obtain t ev where t: "dropUntilFragmentStart s ?v ?b ?n = (?v\<lparr>cv_tail := t\<rparr>, ev)"
      "cv_tail v + 1 < t" "t \<le> cv_head v"
      using "1.IH" [OF refl refl refl refl refl refl] True by fastforce
    then have "cv_tail v < t" using inc(2) by simp
    then show ?thesis
      using t True by (subst dropUntilFragmentStart.simps) (auto simp: Let_def)
  qed
qed

text \<open>
  The first item is kept when it is the one being streamed (and without a callback nothing is
  ever counted as dropped), so the loop goes on past it.
\<close>

lemma dropUntil_past_first:
  assumes "cv_tail v < cv_head v" "cv_tail v + 1 \<noteq> cv_head v"
    and "cv_tail v = s \<or> \<not> cv_removeCallbackFunc v"
  shows "\<exists>t ev. dropUntilFragmentStart s v b 0 = (v\<lparr>cv_tail := t\<rparr>, ev) \<and>
     cv_tail v + 1 < t \<and> t \<le> cv_head v"
proof -
  let ?v = "v\<lparr>cv_tail := cv_tail v + 1\<rparr>"
  have "cv_tail ?v < cv_head ?v" using word_inc_le(1) [OF assms(1)] assms(2)
    by (simp add: order.strict_iff_order)
  from dropUntil_spec [OF this] show ?thesis
    using assms by (subst dropUntilFragmentStart.simps) (fastforce simp: Let_def)
qed

text \<open>
  The outcome of the \<open>switch\<close>: only the tail moves, by at least one; the one state in which
  it passes the head is a view whose single item is being streamed under the drop-tail policy.
\<close>

definition streaming_only :: "RollingContentView \<Rightarrow> bool" where
  "streaming_only v \<longleftrightarrow> cv_current v = cv_tail v + 1 \<and> cv_head v = cv_tail v + 1"


lemma le_MAX_UINT64: "x \<le> (MAX_UINT64 :: UINT64)"
proof -
  have "MAX_UINT64 = (- 1 :: UINT64)" by simp
  then show ?thesis by (metis word_n1_ge)
qed

lemma le_not_max: "y \<le> x \<Longrightarrow> x \<noteq> MAX_UINT64 \<Longrightarrow> y \<noteq> MAX_UINT64"
proof -
  have "MAX_UINT64 = (- 1 :: UINT64)" by simp
  then show "y \<le> x \<Longrightarrow> x \<noteq> MAX_UINT64 \<Longrightarrow> y \<noteq> MAX_UINT64"
    by (metis order_antisym word_n1_ge)
qed

definition streamed_item :: "RollingContentView \<Rightarrow> UINT64" where
  "streamed_item v = (if cv_current v > cv_tail v then cv_current v - 1 else MAX_UINT64)"

lemma dropTail_spec:
  assumes "cv_tail v < cv_head v" "cv_head v \<noteq> MAX_UINT64" "cv_current v \<le> cv_head v"
  obtains t ev where "dropTail (streamed_item v) b v = (v\<lparr>cv_tail := t\<rparr>, ev)"
    and "unat (cv_tail v) < unat t"
    and "unat t \<le> unat (cv_head v) \<or>
      cv_bufferOverflowStrategy v = CONTENT_VIEW_OVERFLOW_POLICY_DROP_TAIL_VIEW_ITEM \<and>
      streaming_only v \<and> unat t = Suc (unat (cv_head v))"
    and "streamed_item v = cv_tail v \<Longrightarrow> cv_head v \<noteq> cv_tail v + 1 \<Longrightarrow> unat (cv_tail v) + 1 < unat t"
proof (cases "cv_bufferOverflowStrategy v")
  case CONTENT_VIEW_OVERFLOW_POLICY_DROP_TAIL_VIEW_ITEM
  have t1: "unat (cv_tail v + 1) = Suc (unat (cv_tail v))" using assms(1) by (rule unat_Suc_less)
  have "cv_tail v + 1 \<noteq> MAX_UINT64" using le_not_max [OF word_inc_le(1) [OF assms(1)] assms(2)] .
  then have t2: "unat (cv_tail v + 2) = Suc (Suc (unat (cv_tail v)))"
    using unat_Suc_not_max [of "cv_tail v + 1"] t1 by (simp add: add.assoc)
  have le: "Suc (unat (cv_tail v)) \<le> unat (cv_head v)" using assms(1) by (simp add: word_less_nat_alt)
  show thesis
  proof (cases "cv_tail v = streamed_item v")
    case True
    have cur: "cv_current v = cv_tail v + 1"
      using True le_not_max [OF less_imp_le [OF assms(1)] assms(2)]
      by (auto simp: streamed_item_def split: if_splits)
    have "Suc (Suc (unat (cv_tail v))) \<le> unat (cv_head v) \<or> streaming_only v"
      using le t1 cur by (auto simp: streaming_only_def le_Suc_eq le_less unat_eq_iff [symmetric])
    then show thesis
      using that [of "cv_tail v + 2"] True t2 t1 CONTENT_VIEW_OVERFLOW_POLICY_DROP_TAIL_VIEW_ITEM
      by (auto simp: dropTail_def streaming_only_def add.assoc)
  next
    case False
    then show thesis
      using that [of "cv_tail v + 1"] t1 le CONTENT_VIEW_OVERFLOW_POLICY_DROP_TAIL_VIEW_ITEM
      by (auto simp: dropTail_def)
  qed
next
  case CONTENT_VIEW_OVERFLOW_POLICY_DROP_UNTIL_FRAGMENT_START
  have t1: "unat (cv_tail v + 1) = Suc (unat (cv_tail v))" using assms(1) by (rule unat_Suc_less)
  show thesis
  proof (cases "streamed_item v = cv_tail v \<and> cv_head v \<noteq> cv_tail v + 1")
    case True
    with dropUntil_past_first [OF assms(1), of "streamed_item v" b] show thesis
      using that t1 CONTENT_VIEW_OVERFLOW_POLICY_DROP_UNTIL_FRAGMENT_START
      by (fastforce simp: dropTail_def word_less_nat_alt word_le_nat_alt)
  next
    case False
    with dropUntil_spec [OF assms(1), of "streamed_item v" b 0] show thesis
      using that CONTENT_VIEW_OVERFLOW_POLICY_DROP_UNTIL_FRAGMENT_START
      by (fastforce simp: dropTail_def word_less_nat_alt word_le_nat_alt)
  qed
qed


text \<open>Keeping the streamed item as the new tail only rewrites the slot of that tail.\<close>

lemma retain_live:
  assumes wf: "view_wf v" and lv: "live (unat t) (unat (cv_head v)) v"
    and cap: "unat (cv_head v) \<le> unat t + unat (cv_itemBufferCount v)"
    and new: "vi_index x = t" "vi_timestamp x = vi_timestamp (item_at v t)"
  shows "live (unat t) (unat (cv_head v))
      (v\<lparr>cv_itemBuffer := (cv_itemBuffer v)[GET_VIEW_ITEM_FROM_INDEX v t := x]\<rparr>)"
    and "vi_timestamp (item_at
      (v\<lparr>cv_itemBuffer := (cv_itemBuffer v)[GET_VIEW_ITEM_FROM_INDEX v t := x]\<rparr>) i) =
      vi_timestamp (item_at v i)"
proof -
  let ?v = "v\<lparr>cv_itemBuffer := (cv_itemBuffer v)[GET_VIEW_ITEM_FROM_INDEX v t := x]\<rparr>"
  have ts: "vi_timestamp (item_at ?v i) = vi_timestamp (item_at v i)" for i
    using new(2) by (simp add: item_at_update [OF wf]) (simp add: item_at_def)
  show "vi_timestamp (item_at ?v i) = vi_timestamp (item_at v i)" by (rule ts)
  have "vi_index (item_at ?v i) = i" if "unat t \<le> unat i" "unat i < unat (cv_head v)" for i
    using slot_inj [of v i t t "unat (cv_head v)"] that cap new(1) lv
    by (auto simp: item_at_update [OF wf] live_def)
  then show "live (unat t) (unat (cv_head v)) ?v"
    using lv by (simp add: live_def ts)
qed

lemma retain_rewrite:
  assumes inv: "view_inv v" and t: "unat (cv_tail v) < unat t"
    and tle: "unat t \<le> Suc (unat (cv_head v))"
    and adv: "streamed_item v = cv_tail v \<Longrightarrow> cv_head v \<noteq> cv_tail v + 1 \<Longrightarrow>
      unat (cv_tail v) + 1 < unat t"
    and cur: "cv_tail v < cv_current v" "cv_current v \<le> t"
  defines "w \<equiv> retainStreamingItem (streamed_item v) (v\<lparr>cv_tail := t\<rparr>)"
  shows "view_room w" "cv_head w = cv_head v" "cv_tail w = t - 1" "cv_current w = t"
    "vi_timestamp (item_at w i) = vi_timestamp (item_at v i)"
proof -
  let ?s = "cv_current v - 1"
  let ?u = "v\<lparr>cv_tail := t - 1, cv_current := t\<rparr>"
  let ?k = "GET_VIEW_ITEM_FROM_INDEX ?u (t - 1)"
  let ?p = "item_at v ?s"
  let ?x = "(item_at v (t - 1))\<lparr>vi_flags := vi_flags ?p, vi_handle := vi_handle ?p,
    vi_length := vi_length ?p, vi_index := t - 1\<rparr>"
  have wf: "view_wf v" and big: "10 < unat (cv_itemBufferCount v)"
    and lv: "live (unat (cv_tail v)) (unat (cv_head v)) v"
    and cap: "unat (cv_head v) \<le> unat (cv_tail v) + unat (cv_itemBufferCount v)"
    using inv by (auto simp: view_inv_def view_wf_def)
  have s: "streamed_item v = ?s" "?s < t" "?s \<noteq> MAX_UINT64"
    and us: "unat ?s = unat (cv_current v) - 1"
  proof -
    show us: "unat ?s = unat (cv_current v) - 1" using cur(1) by (rule unat_pred_greater)
    show "streamed_item v = ?s" using cur(1) by (simp add: streamed_item_def)
    show "?s < t" using us cur by (simp add: word_less_nat_alt word_le_nat_alt)
    then show "?s \<noteq> MAX_UINT64"
      by (metis le_not_max less_imp_le order_less_irrefl)
  qed
  have ut: "unat (t - 1) = unat t - 1" using t unat_pred_greater [of "cv_tail v" t]
    by (simp add: word_less_nat_alt)
  have w: "w = ?u\<lparr>cv_itemBuffer := (cv_itemBuffer ?u)[?k := ?x]\<rparr>"
    using s cur by (simp add: w_def retainStreamingItem_def Let_def item_at_def)
  have lu: "live (unat (t - 1)) (unat (cv_head ?u)) ?u"
    using live_mono [OF lv] t ut by simp
  have capu: "unat (cv_head ?u) \<le> unat (t - 1) + unat (cv_itemBufferCount ?u)"
    using cap ut t by simp
  note live = retain_live [OF _ lu capu, of ?x]
  show "vi_timestamp (item_at w i) = vi_timestamp (item_at v i)"
    unfolding w using live(2) wf by simp
  have "live (unat (t - 1)) (unat (cv_head v)) w"
    unfolding w using live(1) wf by simp
  moreover have "unat (cv_tail v) < unat t - 1 \<or> unat (cv_head v) = Suc (unat (cv_tail v))"
  proof (rule disjCI)
    assume ne: "unat (cv_head v) \<noteq> Suc (unat (cv_tail v))"
    show "unat (cv_tail v) < unat t - 1"
    proof (rule ccontr)
      assume "\<not> ?thesis"
      then have "unat (cv_current v) = Suc (unat (cv_tail v))" "unat t = Suc (unat (cv_tail v))"
        using t cur by (auto simp: word_less_nat_alt word_le_nat_alt)
      then have "?s = cv_tail v" using us by (simp add: unat_eq_iff [symmetric])
      moreover have "cv_head v \<noteq> cv_tail v + 1"
        using ne unat_Suc_less [OF cur(1)] by auto
      ultimately show False using adv s(1) \<open>unat t = _\<close> by simp
    qed
  qed
  moreover have "view_wf w" using wf by (simp add: w view_wf_def)
  moreover have "cv_tail w = t - 1" "cv_current w = t" "cv_head w = cv_head v"
    "cv_itemBufferCount w = cv_itemBufferCount v" by (simp_all add: w)
  ultimately show "view_room w"
    unfolding view_room_def using big cap t ut tle by (auto simp: word_le_nat_alt)
  show "cv_head w = cv_head v" "cv_tail w = t - 1" "cv_current w = t"
    by (simp_all add: w)
qed

lemma retain_keep:
  assumes inv: "view_inv v" and t: "unat (cv_tail v) < unat t"
    and tle: "unat t \<le> unat (cv_head v)"
    and cur: "cv_current v \<le> cv_tail v \<or> t < cv_current v"
  defines "w \<equiv> retainStreamingItem (streamed_item v) (v\<lparr>cv_tail := t\<rparr>)"
  shows "view_room w" "view_inv w" "cv_head w = cv_head v" "cv_tail w = t" "item_at w i = item_at v i"
proof -
  have le: "t \<le> cv_head v" using tle by (simp add: word_le_nat_alt)
  have w: "w = v\<lparr>cv_tail := t, cv_current := (if t < cv_current v then cv_current v else t)\<rparr>"
  proof (cases "t < cv_current v")
    case True
    then show ?thesis by (simp add: w_def retainStreamingItem_def)
  next
    case False
    then show ?thesis using cur t
      by (auto simp: w_def retainStreamingItem_def streamed_item_def word_le_nat_alt word_less_nat_alt)
  qed
  have lv: "live (unat t) (unat (cv_head v)) v"
    using inv t live_mono [of "unat (cv_tail v)" "unat (cv_head v)" v "unat t" "unat (cv_head v)"]
    by (simp add: view_inv_def)
  show "view_inv w" "view_room w"
    using inv lv le t by (auto simp: w view_inv_def view_room_def word_le_nat_alt word_less_nat_alt)
  show "cv_head w = cv_head v" "cv_tail w = t" "item_at w i = item_at v i" by (simp_all add: w)
qed


subsection \<open>The operations keep the invariant\<close>

lemma contentViewTrimTailItems_eq:
  "contentViewTrimTailItems (Some v) =
     (let (v1, ev) = dropTail (streamed_item v) (\<not> cv_current v > cv_tail v) v
      in (STATUS_SUCCESS, Some (retainStreamingItem (streamed_item v) v1), ev))"
  by (simp add: streamed_item_def Let_def split: prod.splits)

declare contentViewTrimTailItems.simps [simp del]

lemma trimTailItems_spec:
  assumes inv: "view_inv v" and lt: "cv_tail v < cv_head v" and max: "cv_head v \<noteq> MAX_UINT64"
  obtains w ev where "contentViewTrimTailItems (Some v) = (STATUS_SUCCESS, Some w, ev)"
    and "view_room w" "cv_head w = cv_head v" "cv_tail v \<le> cv_tail w"
    and "\<And>i. vi_timestamp (item_at w i) = vi_timestamp (item_at v i)"
    and "cv_bufferOverflowStrategy v = CONTENT_VIEW_OVERFLOW_POLICY_DROP_TAIL_VIEW_ITEM \<and>
      streaming_only v \<or> view_inv w"
proof -
  have curh: "cv_current v \<le> cv_head v" using inv by (simp add: view_inv_def)
  obtain t ev where d: "dropTail (streamed_item v) (\<not> cv_current v > cv_tail v) v =
      (v\<lparr>cv_tail := t\<rparr>, ev)"
    and t: "unat (cv_tail v) < unat t"
    and tle: "unat t \<le> unat (cv_head v) \<or>
      cv_bufferOverflowStrategy v = CONTENT_VIEW_OVERFLOW_POLICY_DROP_TAIL_VIEW_ITEM \<and>
      streaming_only v \<and> unat t = Suc (unat (cv_head v))"
    and adv: "streamed_item v = cv_tail v \<Longrightarrow> cv_head v \<noteq> cv_tail v + 1 \<Longrightarrow>
      unat (cv_tail v) + 1 < unat t"
    by (rule dropTail_spec [OF lt max curh, where b = "\<not> cv_current v > cv_tail v"]) blast
  let ?w = "retainStreamingItem (streamed_item v) (v\<lparr>cv_tail := t\<rparr>)"
  have eq: "contentViewTrimTailItems (Some v) = (STATUS_SUCCESS, Some ?w, ev)"
    by (simp add: contentViewTrimTailItems_eq d)
  show thesis
  proof (cases "cv_tail v < cv_current v \<and> cv_current v \<le> t")
    case True
    have tle': "unat t \<le> Suc (unat (cv_head v))" using tle by auto
    have "cv_tail v < cv_current v" "cv_current v \<le> t" using True by auto
    note r = retain_rewrite [OF inv t tle' adv this]
    have ge: "cv_tail v \<le> t - 1"
      using t unat_pred_greater [of "cv_tail v" t] by (simp add: word_less_nat_alt word_le_nat_alt)
    have "view_inv ?w" if "unat t \<le> unat (cv_head v)"
      using r(1-4) that by (auto simp: view_inv_def view_room_def word_le_nat_alt)
    then show thesis using that [OF eq] r ge tle by auto
  next
    case False
    then have cur: "cv_current v \<le> cv_tail v \<or> t < cv_current v" by auto
    have "unat t \<le> unat (cv_head v)"
    proof (rule ccontr)
      assume "\<not> ?thesis"
      then have "unat t = Suc (unat (cv_head v))" "cv_current v = cv_head v"
        using tle by (auto simp: streaming_only_def)
      then show False using cur lt by (auto simp: word_less_nat_alt word_le_nat_alt)
    qed
    note r = retain_keep [OF inv t this cur]
    show thesis using that [OF eq] r t by (auto simp: word_le_nat_alt)
  qed
qed

text \<open>
  The eviction loop: the tail arrives at its target, the current item is pushed along, and the
  callback sees exactly the evicted items, oldest first, flagged when they were not consumed.
\<close>

definition evictedNotes :: "RollingContentView \<Rightarrow> UINT64 \<Rightarrow> UINT64 \<Rightarrow> notification list" where
  "evictedNotes v from to =
     (if cv_removeCallbackFunc v
      then map (\<lambda>k. (cv_customData v, item_at v (of_nat k), cv_current v \<le> of_nat k))
             [unat from..<unat to]
      else [])"

lemma evictedNotes_step:
  assumes "from < to" "from \<le> cv_current v" "w = fst (evictTail v)" "cv_tail v = from"
  shows "evictedNotes v from to = snd (evictTail v) @ evictedNotes w (from + 1) to"
proof -
  have up: "[unat from..<unat to] = unat from # [unat (from + 1)..<unat to]"
    using assms(1) by (simp add: unat_Suc_less [OF assms(1)] upt_conv_Cons word_less_nat_alt)
  have le: "cv_current w \<le> of_nat k \<longleftrightarrow> cv_current v \<le> of_nat k"
    if "k \<in> set [unat (from + 1)..<unat to]" for k
  proof -
    have k: "unat (of_nat k :: UINT64) = k"
      using that by (auto intro: unat_of_nat_below)
    then have "from + 1 \<le> of_nat k" using that by (auto simp: word_le_nat_alt)
    then show ?thesis
      using assms by (auto simp: evictTail_def Let_def)
  qed
  have it: "item_at w i = item_at v i" for i
    by (simp add: assms(3) item_at_def GET_VIEW_ITEM_FROM_INDEX_def)
  have "cv_current v < from + 1 \<longleftrightarrow> cv_current v \<le> from"
    using unat_Suc_less [OF assms(1)] by (auto simp: word_less_nat_alt word_le_nat_alt)
  then show ?thesis
    using le it assms(3,4) unfolding evictedNotes_def up
    by (auto simp: evictTail_def notify_def Let_def)
qed

lemma evictTailUntil_spec:
  "cv_tail v \<le> to \<Longrightarrow> cv_tail v \<le> cv_current v \<Longrightarrow>
   evictTailUntil to v =
     (v\<lparr>cv_tail := to, cv_current := max (cv_current v) to\<rparr>, evictedNotes v (cv_tail v) to)"
proof (induction to v rule: evictTailUntil.induct)
  case (1 to v)
  show ?case
  proof (cases "cv_tail v = to")
    case True
    then show ?thesis using "1.prems"
      by (subst evictTailUntil.simps) (simp add: evictedNotes_def max_absorb1)
  next
    case False
    then have lt: "cv_tail v < to" using "1.prems"(1) by simp
    obtain w ev where e: "evictTail v = (w, ev)" by fastforce
    have w: "w = v\<lparr>cv_tail := cv_tail v + 1, cv_current := max (cv_current v) (cv_tail v + 1)\<rparr>"
      using e by (auto simp: evictTail_def Let_def max_def split: if_splits)
    have "evictTailUntil to w =
        (w\<lparr>cv_tail := to, cv_current := max (cv_current w) to\<rparr>, evictedNotes w (cv_tail w) to)"
      using "1.IH" [OF False e [symmetric] refl] word_inc_le [OF lt] by (simp add: w)
    moreover have "max (max (cv_current v) (cv_tail v + 1)) to = max (cv_current v) to"
      using word_inc_le [OF lt] by (simp add: max.assoc max_absorb2)
    moreover have "evictedNotes v (cv_tail v) to = ev @ evictedNotes w (cv_tail v + 1) to"
      using evictedNotes_step [OF lt "1.prems"(2) _ refl, of w] e by simp
    ultimately show ?thesis
      using False e by (subst evictTailUntil.simps) (simp add: w)
  qed
qed

end
