(* ===== verification/Interfaces.thy ===== *)
theory Interfaces
  imports Prelude
begin

text \<open>
  The contracts between components, as locales: what a client may rely on, stated over an
  abstraction of the provider's state, with the client-side consequences proved once.
\<close>

subsection \<open>Sequential consumption\<close>

text \<open>
  \<open>drain next n s\<close> takes up to \<open>n\<close> elements one after the other.
\<close>

primrec drain :: "('s \<Rightarrow> ('a \<times> 's) option) \<Rightarrow> nat \<Rightarrow> 's \<Rightarrow> 'a list \<times> 's" where
  "drain nxt 0 s = ([], s)"
| "drain nxt (Suc n) s =
     (case nxt s of None \<Rightarrow> ([], s)
      | Some (x, s') \<Rightarrow> let (xs, s'') = drain nxt n s' in (x # xs, s''))"

text \<open>
  A provider whose \<open>nxt\<close> delivers the pending elements in order, one at a time.
\<close>

locale consumer =
  fixes inv :: "'s \<Rightarrow> bool"
    and pending :: "'s \<Rightarrow> 'a list"
    and nxt :: "'s \<Rightarrow> ('a \<times> 's) option"
  assumes nxt_None: "inv s \<Longrightarrow> nxt s = None \<longleftrightarrow> pending s = []"
    and nxt_Some: "inv s \<Longrightarrow> nxt s = Some (x, s') \<Longrightarrow> pending s = x # pending s' \<and> inv s'"
begin

lemma drain_pending:
  "inv s \<Longrightarrow> fst (drain nxt n s) = take n (pending s) \<and>
     pending (snd (drain nxt n s)) = drop n (pending s) \<and> inv (snd (drain nxt n s))"
proof (induction n arbitrary: s)
  case 0
  then show ?case by simp
next
  case (Suc n)
  show ?case
  proof (cases "nxt s")
    case None
    then show ?thesis using Suc.prems nxt_None [of s] by simp
  next
    case (Some p)
    then obtain x s' where p: "nxt s = Some (x, s')" by (cases p) auto
    with nxt_Some [OF Suc.prems p] Suc.IH [of s'] show ?thesis
      by (auto split: prod.splits)
  qed
qed

lemma drain_all:
  assumes "inv s" "length (pending s) \<le> n"
  shows "fst (drain nxt n s) = pending s" "nxt (snd (drain nxt n s)) = None"
  using drain_pending [OF assms(1), of n] assms(2) nxt_None [of "snd (drain nxt n s)"] by auto

end

subsection \<open>First in, first out\<close>

text \<open>
  A consumer with an insertion at the end, for up to \<open>cap\<close> elements; \<open>'k\<close> is what an insertion needs from its
  environment (an address, say) and \<open>ok\<close> when it is usable. \<open>feed\<close> inserts a sequence.
\<close>

primrec feed :: "('k \<Rightarrow> 'a \<Rightarrow> 's \<Rightarrow> 's option) \<Rightarrow> ('k \<times> 'a) list \<Rightarrow> 's \<Rightarrow> 's option" where
  "feed enq [] s = Some s"
| "feed enq (kx # kxs) s = Option.bind (enq (fst kx) (snd kx) s) (feed enq kxs)"

locale fifo = consumer inv pending nxt
  for inv :: "'s \<Rightarrow> bool" and pending :: "'s \<Rightarrow> 'a list" and nxt :: "'s \<Rightarrow> ('a \<times> 's) option" +
  fixes cap :: nat and ok :: "'k \<Rightarrow> 's \<Rightarrow> bool"
    and enq :: "'k \<Rightarrow> 'a \<Rightarrow> 's \<Rightarrow> 's option"
  assumes enq_snoc: "inv s \<Longrightarrow> ok k s \<Longrightarrow> length (pending s) < cap \<Longrightarrow>
      \<exists>s'. enq k x s = Some s' \<and> inv s' \<and> pending s' = pending s @ [x]"
    and enq_ok: "inv s \<Longrightarrow> ok k s \<Longrightarrow> enq k x s = Some s' \<Longrightarrow> ok k' s \<Longrightarrow> k' \<noteq> k \<Longrightarrow> ok k' s'"
begin

lemma feed_snoc:
  "inv s \<Longrightarrow> distinct (map fst kxs) \<Longrightarrow> (\<And>k. k \<in> set (map fst kxs) \<Longrightarrow> ok k s) \<Longrightarrow>
   length (pending s) + length kxs \<le> cap \<Longrightarrow>
   \<exists>s'. feed enq kxs s = Some s' \<and> inv s' \<and> pending s' = pending s @ map snd kxs"
proof (induction kxs arbitrary: s)
  case Nil
  then show ?case by simp
next
  case (Cons kx kxs)
  obtain s1 where s1: "enq (fst kx) (snd kx) s = Some s1" "inv s1" "pending s1 = pending s @ [snd kx]"
    using enq_snoc [OF Cons.prems(1) Cons.prems(3)] Cons.prems(4) by auto
  have "ok k s1" if "k \<in> set (map fst kxs)" for k
  proof -
    have "k \<noteq> fst kx" using that Cons.prems(2) unfolding list.map distinct.simps by metis
    moreover have "ok k s" "ok (fst kx) s" using that Cons.prems(3) unfolding list.map list.set by blast+
    ultimately show ?thesis using enq_ok [OF Cons.prems(1) _ s1(1)] by blast
  qed
  then obtain s' where "feed enq kxs s1 = Some s'" "inv s'" "pending s' = pending s1 @ map snd kxs"
    using Cons.IH [OF s1(2)] Cons.prems(2,4) s1(3) by auto
  then show ?case using s1 by simp
qed

text \<open>What goes in comes out, after what was there, in the same order.\<close>

lemma feed_drain:
  assumes "inv s" "distinct (map fst kxs)" "\<And>k. k \<in> set (map fst kxs) \<Longrightarrow> ok k s"
    "length (pending s) + length kxs \<le> cap" "length (pending s) + length kxs \<le> n"
  obtains s' where "feed enq kxs s = Some s'" "fst (drain nxt n s') = pending s @ map snd kxs"
    "nxt (snd (drain nxt n s')) = None"
proof -
  obtain s' where s': "feed enq kxs s = Some s'" "inv s'" "pending s' = pending s @ map snd kxs"
    using feed_snoc [OF assms(1-4)] by auto
  show thesis using that [OF s'(1)] drain_all [OF s'(2), of n] s'(3) assms(5) by simp
qed

end

subsection \<open>Key-value stores\<close>

text \<open>
  A store whose operations act on a partial map; \<open>ok k s\<close> is when the store can take one more
  value for \<open>k\<close>.
\<close>

locale key_store =
  fixes inv :: "'s \<Rightarrow> bool"
    and content :: "'s \<Rightarrow> 'k \<rightharpoonup> 'v"
    and ok :: "'k \<Rightarrow> 's \<Rightarrow> bool"
    and get :: "'k \<Rightarrow> 's \<Rightarrow> 'v option"
    and upsert :: "'k \<Rightarrow> 'v \<Rightarrow> 's \<Rightarrow> 's option"
    and remove :: "'k \<Rightarrow> 's \<Rightarrow> 's option"
  assumes get_content: "inv s \<Longrightarrow> get k s = content s k"
    and upsert_content: "inv s \<Longrightarrow> ok k s \<Longrightarrow>
      \<exists>s'. upsert k v s = Some s' \<and> inv s' \<and> content s' = (content s)(k \<mapsto> v)"
    and remove_content: "inv s \<Longrightarrow> content s k \<noteq> None \<Longrightarrow>
      \<exists>s'. remove k s = Some s' \<and> inv s' \<and> content s' = (content s)(k := None)"
    and remove_absent: "inv s \<Longrightarrow> content s k = None \<Longrightarrow> remove k s = None"
begin

lemma get_upsert:
  assumes "inv s" "ok k s"
  obtains s' where "upsert k v s = Some s'" "inv s'" "\<And>k'. get k' s' = (if k' = k then Some v else get k' s)"
proof -
  obtain s' where s': "upsert k v s = Some s'" "inv s'" "content s' = (content s)(k \<mapsto> v)"
    using upsert_content [OF assms] by blast
  then show thesis using that [OF s'(1,2)] get_content assms(1) by simp
qed

lemma remove_undoes_upsert:
  assumes "inv s" "ok k s" "get k s = None"
  obtains s' s'' where "upsert k v s = Some s'" "remove k s' = Some s''" "inv s''" "content s'' = content s"
proof -
  obtain s' where s': "upsert k v s = Some s'" "inv s'" "content s' = (content s)(k \<mapsto> v)"
    using upsert_content [OF assms(1,2)] by blast
  then obtain s'' where s'': "remove k s' = Some s''" "inv s''" "content s'' = (content s')(k := None)"
    using remove_content [of s' k] by auto
  have "content s k = None" using assms(1,3) get_content by simp
  then have "content s'' = content s" using s'(3) s''(3) by auto
  then show thesis using that s'(1) s''(1,2) by blast
qed

lemma get_remove:
  assumes "inv s" "remove k s = Some s'"
  shows "inv s' \<and> get k s \<noteq> None \<and> (\<forall>k'. get k' s' = (if k' = k then None else get k' s))"
proof -
  have "content s k \<noteq> None" using remove_absent [OF assms(1)] assms(2) by fastforce
  then show ?thesis
    using remove_content [OF assms(1)] assms(2) get_content assms(1) by fastforce
qed

end

end
