(* ===== verification/ContentViewProps.thy ===== *)
theory ContentViewProps
  imports ContentViewInv Interfaces
begin

text \<open>
  The properties of the content view that its client, the stream, relies on: creation and
  insertion keep the invariant, items are delivered in order, eviction reports exactly what it
  drops, the search finds the item that covers a timestamp, and the window sizes are the sums
  of the item sizes. The last section states two behaviours that contradict the comments.
\<close>

subsection \<open>The view as a list of items\<close>

definition items_between :: "RollingContentView \<Rightarrow> UINT64 \<Rightarrow> UINT64 \<Rightarrow> ViewItem list" where
  "items_between v i j = map (\<lambda>k. item_at v (of_nat k)) [unat i..<unat j]"

definition view_items :: "RollingContentView \<Rightarrow> ViewItem list" where
  "view_items v = items_between v (cv_tail v) (cv_head v)"

definition pending_items :: "RollingContentView \<Rightarrow> ViewItem list" where
  "pending_items v = items_between v (cv_current v) (cv_head v)"

definition new_item ::
  "RollingContentView \<Rightarrow> UINT64 \<Rightarrow> UINT64 \<Rightarrow> UINT64 \<Rightarrow> UINT64 \<Rightarrow> UINT32 \<Rightarrow> UINT32 \<Rightarrow> UINT32 \<Rightarrow> ViewItem"
where
  "new_item v ts ack dur h off len fl =
     \<lparr>vi_index = cv_head v, vi_timestamp = ts, vi_ackTimestamp = ack, vi_duration = dur,
      vi_length = len, vi_flags = SET_ITEM_DATA_OFFSET fl off, vi_handle = h\<rparr>"

lemma items_between_Cons:
  "i < j \<Longrightarrow> items_between v i j = item_at v i # items_between v (i + 1) j"
  by (simp add: items_between_def unat_Suc_less upt_conv_Cons word_less_nat_alt)

lemma items_between_Nil: "j \<le> i \<Longrightarrow> items_between v i j = []"
  by (simp add: items_between_def word_le_nat_alt)

lemma items_between_cong [simp]:
  "items_between (v\<lparr>cv_current := c\<rparr>) i j = items_between v i j"
  "items_between (v\<lparr>cv_tail := c\<rparr>) i j = items_between v i j"
  by (simp_all add: items_between_def)

subsection \<open>Consumption\<close>

text \<open>\<open>contentViewGetNext\<close> as the stream uses it: the item pointed to, or no item.\<close>

definition next_item :: "RollingContentView \<Rightarrow> (ViewItem \<times> RollingContentView) option" where
  "next_item v =
     (case contentViewGetNext (Some v) True of
        (st, Some w, Some p) \<Rightarrow>
          if STATUS_SUCCEEDED st then Some (cv_itemBuffer v ! p, w) else None
      | _ \<Rightarrow> None)"

lemma next_item_eq:
  assumes "view_inv v"
  shows "next_item v =
    (if cv_current v = cv_head v then None
     else Some (item_at v (cv_current v), v\<lparr>cv_current := cv_current v + 1\<rparr>))"
  using assms by (auto simp: next_item_def item_at_def view_inv_def)

interpretation view_next: consumer view_inv pending_items next_item
proof
  fix s :: RollingContentView assume inv: "view_inv s"
  then have le: "cv_current s \<le> cv_head s" by (simp add: view_inv_def)
  show "next_item s = None \<longleftrightarrow> pending_items s = []"
    using le items_between_Cons [of "cv_current s" "cv_head s" s]
    by (auto simp: next_item_eq [OF inv] pending_items_def items_between_Nil order.strict_iff_order)
next
  fix s s' :: RollingContentView and x
  assume inv: "view_inv s" and n: "next_item s = Some (x, s')"
  then have lt: "cv_current s < cv_head s"
    by (auto simp: next_item_eq view_inv_def order.strict_iff_order split: if_splits)
  have s': "s' = s\<lparr>cv_current := cv_current s + 1\<rparr>" "x = item_at s (cv_current s)"
    using n by (auto simp: next_item_eq [OF inv] split: if_splits)
  have "cv_tail s \<le> cv_current s + 1"
    using inv word_inc_le [OF lt] by (auto simp: view_inv_def)
  then show "pending_items s = x # pending_items s' \<and> view_inv s'"
    using items_between_Cons [OF lt] word_inc_le [OF lt] view_inv_set_current [OF inv]
    by (simp add: s' pending_items_def)
qed


subsection \<open>Creation and insertion: supporting lemmas\<close>

lemma contentViewAllocationSize_exact:
  assumes "80 + 48 * unat n < 2 ^ 32"
  shows "unat (contentViewAllocationSize n) = 80 + 48 * unat n"
proof -
  have "unat (80 + 48 * ucast n :: UINT64) = 80 + 48 * unat n"
    using assms by (simp add: unat_word_ariths unat_ucast_up)
  then show ?thesis
    using assms by (simp add: contentViewAllocationSize_def unsigned_ucast_eq take_bit_eq_mod)
qed

lemma createContentView_inv:
  assumes "createContentView n dur cb cd pol True True = (STATUS_SUCCESS, Some v)"
    and "80 + 48 * unat n < 2 ^ 32"
  shows "view_inv v" "cv_head v = 0" "cv_tail v = 0"
proof -
  have "10 < unat n"
    using assms(1) by (auto simp: createContentView_def word_less_nat_alt split: if_splits)
  moreover have v: "cv_head v = 0" "cv_tail v = 0" "cv_current v = 0"
    "cv_itemBufferCount v = ucast n" "length (cv_itemBuffer v) = unat n"
    using assms contentViewAllocationSize_exact [OF assms(2)]
    by (auto simp: createContentView_def split: if_splits)
  ultimately show "view_inv v" "cv_head v = 0" "cv_tail v = 0"
    by (auto simp: view_inv_def view_wf_def live_def unat_ucast_up)
qed

lemma appendItem_at_head:
  "view_wf v \<Longrightarrow> item_at (appendItem v ts ack dur h off len fl) (cv_head v) =
     new_item v ts ack dur h off len fl"
  using slot_less [of v "cv_head v"]
  by (simp add: appendItem_def new_item_def item_at_def Let_def)

lemma availability_room:
  assumes inv: "view_inv v"
    and avail: "contentViewCheckAvailability (Some v) True = (STATUS_SUCCESS, Some True)"
  shows "view_room v"
proof -
  have "cv_head v = cv_tail v \<or> cv_head v - cv_tail v < cv_itemBufferCount v"
    using avail by (auto simp: Let_def not_le)
  moreover have "unat (cv_head v - cv_tail v) = unat (cv_head v) - unat (cv_tail v)"
    using unat_diff_le [OF view_inv_order(1) [OF inv]] .
  ultimately show ?thesis
    using inv by (auto simp: view_inv_def view_room_def view_wf_def word_less_nat_alt word_le_nat_alt)
qed

text \<open>An accepted item is appended after the eviction, which happens only without room.\<close>

definition overflow_evict :: "RollingContentView \<Rightarrow> RollingContentView \<times> notification list" where
  "overflow_evict v =
     (if contentViewCheckAvailability (Some v) True = (STATUS_SUCCESS, Some True) then (v, [])
      else (the (fst (snd (contentViewTrimTailItems (Some v)))),
            snd (snd (contentViewTrimTailItems (Some v)))))"

lemma availability_shape:
  "contentViewCheckAvailability (Some v) True = (STATUS_SUCCESS, Some a) \<Longrightarrow> cv_head v = cv_tail v \<Longrightarrow> a"
  by simp

lemma availability_total:
  obtains a where "contentViewCheckAvailability (Some v) True = (STATUS_SUCCESS, Some a)"
  by simp

declare contentViewCheckAvailability.simps [simp del]

lemma contentViewAddItem_accept:
  assumes inv: "view_inv v" and max: "cv_head v \<noteq> MAX_UINT64" and len: "len \<noteq> 0"
    and ts: "cv_tail v = cv_head v \<or> vi_timestamp (item_at v (cv_head v - 1)) \<le> ts"
  shows "contentViewAddItem (Some v) ts ack dur h off len fl =
      (STATUS_SUCCESS, Some (appendItem (fst (overflow_evict v)) ts ack dur h off len fl),
       snd (overflow_evict v))"
    and "view_room (fst (overflow_evict v))" "cv_head (fst (overflow_evict v)) = cv_head v"
    and "cv_tail v \<le> cv_tail (fst (overflow_evict v))"
    and "vi_timestamp (item_at (fst (overflow_evict v)) i) = vi_timestamp (item_at v i)"
proof -
  let ?g = "contentViewAddItem (Some v) ts ack dur h off len fl =
      (STATUS_SUCCESS, Some (appendItem (fst (overflow_evict v)) ts ack dur h off len fl),
       snd (overflow_evict v)) \<and> view_room (fst (overflow_evict v)) \<and>
       cv_head (fst (overflow_evict v)) = cv_head v \<and>
       cv_tail v \<le> cv_tail (fst (overflow_evict v)) \<and>
       (\<forall>i. vi_timestamp (item_at (fst (overflow_evict v)) i) = vi_timestamp (item_at v i))"
  obtain a where a: "contentViewCheckAvailability (Some v) True = (STATUS_SUCCESS, Some a)"
    by (rule availability_total)
  have ?g
  proof (cases a)
    case True
    then show ?thesis using a availability_room [OF inv] len ts
      by (auto simp: overflow_evict_def word_gt_0)
  next
    case False
    then have ne: "cv_head v \<noteq> cv_tail v" using a availability_shape by blast
    then have lt: "cv_tail v < cv_head v"
      using view_inv_order(1) [OF inv] by (simp add: order.strict_iff_order)
    obtain w ev where w: "contentViewTrimTailItems (Some v) = (STATUS_SUCCESS, Some w, ev)"
      "view_room w" "cv_head w = cv_head v" "cv_tail v \<le> cv_tail w"
      "\<And>i. vi_timestamp (item_at w i) = vi_timestamp (item_at v i)"
      using trimTailItems_spec [OF inv lt max] by metis
    have o: "overflow_evict v = (w, ev)" using a False w(1) by (simp add: overflow_evict_def)
    show ?thesis using a False ne len ts w by (simp add: o word_gt_0)
  qed
  then show "contentViewAddItem (Some v) ts ack dur h off len fl =
      (STATUS_SUCCESS, Some (appendItem (fst (overflow_evict v)) ts ack dur h off len fl),
       snd (overflow_evict v))"
    "view_room (fst (overflow_evict v))" "cv_head (fst (overflow_evict v)) = cv_head v"
    "cv_tail v \<le> cv_tail (fst (overflow_evict v))"
    "vi_timestamp (item_at (fst (overflow_evict v)) i) = vi_timestamp (item_at v i)"
    by blast+
qed

lemma appendItem_old:
  assumes "view_room v" "unat (cv_tail v) \<le> unat k" "unat k < unat (cv_head v)"
  shows "item_at (appendItem v ts ack dur h off len fl) k = item_at v k"
proof -
  have "GET_VIEW_ITEM_FROM_INDEX v k \<noteq> GET_VIEW_ITEM_FROM_INDEX v (cv_head v)"
    using slot_inj [of v k "cv_head v" "cv_tail v" "Suc (unat (cv_head v))"] assms
    by (auto simp: view_room_def)
  then show ?thesis
    using assms(1) item_at_update [of v "cv_head v"]
    by (simp add: appendItem_def Let_def view_room_def)
qed

lemma items_between_cong_at:
  assumes "\<And>k. unat i \<le> unat k \<Longrightarrow> unat k < unat j \<Longrightarrow> item_at v k = item_at w k"
  shows "items_between v i j = items_between w i j"
  unfolding items_between_def
proof (rule map_cong [OF refl])
  fix k assume "k \<in> set [unat i..<unat j]"
  then have "unat (of_nat k :: UINT64) = k" "unat i \<le> k" "k < unat j"
    using unat_of_nat_below [of k j] by auto
  then show "item_at v (of_nat k) = item_at w (of_nat k)" using assms [of "of_nat k"] by simp
qed

lemma items_between_snoc:
  assumes "unat (j + 1) = Suc (unat j)" "i \<le> j"
  shows "items_between v i (j + 1) = items_between v i j @ [item_at v j]"
  using assms by (simp add: items_between_def word_le_nat_alt)

lemma appendItem_view_items:
  assumes "view_room v" "cv_head v \<noteq> MAX_UINT64"
  shows "view_items (appendItem v ts ack dur h off len fl) =
    view_items v @ [new_item v ts ack dur h off len fl]"
proof -
  have le: "cv_tail v \<le> cv_head v" and wf: "view_wf v" using assms(1) by (auto simp: view_room_def)
  show ?thesis
    using items_between_snoc [OF unat_Suc_not_max [OF assms(2)] le] appendItem_at_head [OF wf]
      items_between_cong_at [of "cv_tail v" "cv_head v" "appendItem v ts ack dur h off len fl" v]
      appendItem_old [OF assms(1)]
    by (simp add: view_items_def)
qed

subsection \<open>Creation and insertion\<close>

definition demo_view :: RollingContentView where
  "demo_view = the (snd (createContentView 11 1000 True 7
     CONTENT_VIEW_OVERFLOW_POLICY_DROP_UNTIL_FRAGMENT_START True True))"

lemma demo_view_create:
  "createContentView 11 1000 True 7 CONTENT_VIEW_OVERFLOW_POLICY_DROP_UNTIL_FRAGMENT_START
     True True = (STATUS_SUCCESS, Some demo_view)"
  by (simp add: demo_view_def createContentView_def)

lemma demo_view_facts:
  "view_inv demo_view" "cv_head demo_view = 0" "cv_tail demo_view = 0"
  using createContentView_inv [OF demo_view_create] by simp_all

text \<open>
  A view with three items, two of them fragment starts, none consumed; \<open>demo3c\<close> has
  consumed two of them.
\<close>

definition demo3 :: RollingContentView where
  "demo3 = appendItem (appendItem (appendItem demo_view 10 10 5 91 0 4 2) 15 15 5 92 0 6 0)
     20 20 5 93 0 8 2"

definition demo3c :: RollingContentView where
  "demo3c = demo3\<lparr>cv_current := 2\<rparr>"

lemma appendItem_inv_step:
  assumes "view_inv v" "cv_head v \<noteq> MAX_UINT64"
    and "unat (cv_head v) < unat (cv_tail v) + unat (cv_itemBufferCount v)"
    and "cv_tail v < cv_head v \<Longrightarrow> vi_timestamp (item_at v (cv_head v - 1)) \<le> ts"
  shows "view_inv (appendItem v ts ack dur h off len fl)"
  using appendItem_inv [OF _ assms(2,4)] assms(1,3)
  by (auto simp: view_inv_def view_room_def word_le_nat_alt)

lemma demo_view_fields:
  "cv_itemBufferCount demo_view = 11" "cv_current demo_view = 0"
  "cv_bufferOverflowStrategy demo_view = CONTENT_VIEW_OVERFLOW_POLICY_DROP_UNTIL_FRAGMENT_START"
  "cv_removeCallbackFunc demo_view"
  by (simp_all add: demo_view_def createContentView_def)

lemma demo3_facts:
  "view_inv demo3" "cv_head demo3 = 3" "cv_tail demo3 = 0" "cv_current demo3 = 0"
  "cv_itemBufferCount demo3 = 11"
  unfolding demo3_def
  by (intro appendItem_inv_step | simp add: demo_view_facts demo_view_fields
      | (simp add: demo_view_def, code_simp))+

lemma demo3c_facts:
  "view_inv demo3c" "cv_head demo3c = 3" "cv_tail demo3c = 0" "cv_current demo3c = 2"
  using view_inv_set_current [OF demo3_facts(1), of 2]
  by (simp_all add: demo3c_def demo3_facts)

lemma demo3_notes:
  "map (vi_index \<circ> fst \<circ> snd) (evictedNotes demo3 0 2) = [0, 1]"
  by code_simp

text \<open>A view that \<open>createContentView\<close> returns for an item count whose allocation size fits
  its 32-bit field satisfies the view invariant, is empty, and has one slot per item.\<close>

theorem createContentView_correct:
  assumes "createContentView n dur cb cd pol True True = (STATUS_SUCCESS, Some v)"
    and "80 + 48 * unat n < 2 ^ 32"
  shows "view_inv v \<and> view_items v = [] \<and> pending_items v = [] \<and>
    length (cv_itemBuffer v) = unat n \<and> unat (cv_allocationSize v) = 80 + 48 * unat n"
proof -
  note i = createContentView_inv [OF assms]
  have "cv_itemBufferCount v = ucast n" "cv_allocationSize v = contentViewAllocationSize n"
    using assms(1) by (auto simp: createContentView_def split: if_splits)
  then show ?thesis
    using i contentViewAllocationSize_exact [OF assms(2)] view_inv_order(3) [OF i(1)]
    by (simp add: view_items_def pending_items_def items_between_Nil view_inv_def view_wf_def
        unat_ucast_up)
qed

theorem createContentView_correct_witness:
  "view_inv demo_view \<and> length (cv_itemBuffer demo_view) = 11"
  using createContentView_correct [OF demo_view_create] by simp

text \<open>C1. \<open>contentViewAddItem\<close> on a view in its invariant: the status is exactly the one the
  length and timestamp checks give; on an error the view is unchanged and nothing is notified;
  on success the invariant holds again, the head has moved by one and its slot holds the new
  item, and when there was room no other item is touched.\<close>

theorem contentViewAddItem_correct:
  assumes "view_inv v" "cv_head v \<noteq> MAX_UINT64"
  shows "case contentViewAddItem (Some v) ts ack dur h off len fl of (st, pw, ev) \<Rightarrow>
    st = (if len = 0 then STATUS_INVALID_CONTENT_VIEW_LENGTH
          else if cv_tail v \<noteq> cv_head v \<and> ts < vi_timestamp (item_at v (cv_head v - 1))
          then STATUS_CONTENT_VIEW_INVALID_TIMESTAMP else STATUS_SUCCESS) \<and>
    (if st \<noteq> STATUS_SUCCESS then pw = Some v \<and> ev = []
     else \<exists>w. pw = Some w \<and> view_inv w \<and> cv_head w = cv_head v + 1 \<and>
       cv_tail v \<le> cv_tail w \<and> last (view_items w) = new_item v ts ack dur h off len fl \<and>
       (contentViewCheckAvailability (Some v) True = (STATUS_SUCCESS, Some True) \<longrightarrow>
          view_items w = view_items v @ [new_item v ts ack dur h off len fl] \<and> ev = []))"
proof (cases "len \<noteq> 0 \<and>
    (cv_tail v = cv_head v \<or> vi_timestamp (item_at v (cv_head v - 1)) \<le> ts)")
  case False
  then show ?thesis by (auto simp: word_gt_0)
next
  case True
  then have len: "len \<noteq> 0"
    and ts: "cv_tail v = cv_head v \<or> vi_timestamp (item_at v (cv_head v - 1)) \<le> ts" by auto
  let ?u = "fst (overflow_evict v)" and ?w = "appendItem (fst (overflow_evict v)) ts ack dur h off len fl"
  note a = contentViewAddItem_accept [OF assms len ts]
  have hd: "cv_head ?u \<noteq> MAX_UINT64" using a(3) assms(2) by simp
  have "cv_tail ?u < cv_head ?u \<Longrightarrow> vi_timestamp (item_at ?u (cv_head ?u - 1)) \<le> ts"
    using a(3,4) a(5) [of "cv_head v - 1"] ts by auto
  then have inv: "view_inv ?w" using appendItem_inv [OF a(2) hd] by blast
  have items: "view_items ?w = view_items ?u @ [new_item v ts ack dur h off len fl]"
    using appendItem_view_items [OF a(2) hd] a(3) by (simp add: new_item_def)
  have st: "(if len = 0 then STATUS_INVALID_CONTENT_VIEW_LENGTH
      else if cv_tail v \<noteq> cv_head v \<and> ts < vi_timestamp (item_at v (cv_head v - 1))
      then STATUS_CONTENT_VIEW_INVALID_TIMESTAMP else STATUS_SUCCESS) = STATUS_SUCCESS"
    using len ts by auto
  show ?thesis
    unfolding a(1) prod.case st using inv items a(3,4) by (auto simp: overflow_evict_def)
qed

theorem contentViewAddItem_correct_witness:
  "\<exists>w. contentViewAddItem (Some demo_view) 5 5 2 9 0 4 2 = (STATUS_SUCCESS, Some w, []) \<and>
     view_inv w \<and> view_items w = [new_item demo_view 5 5 2 9 0 4 2]"
proof -
  have "contentViewCheckAvailability (Some demo_view) True = (STATUS_SUCCESS, Some True)"
    by (simp add: demo_view_facts contentViewCheckAvailability.simps)
  then show ?thesis
    using contentViewAddItem_correct [OF demo_view_facts(1), where ts = 5 and ack = 5 and dur = 2
        and h = 9 and off = 0 and len = 4 and fl = 2]
    by (auto simp: demo_view_facts view_items_def [of demo_view] items_between_Nil)
qed

subsection \<open>Eviction\<close>

lemma items_between_split:
  assumes "i \<le> k" "k \<le> j"
  shows "items_between v i j = items_between v i k @ items_between v k j"
  using assms upt_add_eq_append [of "unat i" "unat k" "unat j - unat k"]
  by (simp add: items_between_def word_le_nat_alt)

lemma length_items_between: "length (items_between v i j) = unat j - unat i"
  by (simp add: items_between_def)

lemma evictTailUntil_inv:
  assumes "view_inv v" "cv_tail v \<le> i" "i \<le> cv_head v"
  shows "view_inv (v\<lparr>cv_tail := i, cv_current := max (cv_current v) i\<rparr>)"
  using assms live_mono [of "unat (cv_tail v)" "unat (cv_head v)" v "unat i" "unat (cv_head v)"]
  by (auto simp: view_inv_def word_le_nat_alt max_def)

text \<open>C16. \<open>contentViewTrimTail\<close> drops exactly the items before the given index, keeps the
  rest and the invariant, pushes the current item along, and passes each dropped item to the
  callback, oldest first, flagged exactly when it had not been consumed; an index outside the
  window is refused and changes nothing.\<close>

theorem contentViewTrimTail_correct:
  assumes "view_inv v"
  shows "contentViewTrimTail (Some v) i =
    (if cv_tail v \<le> i \<and> i \<le> cv_head v
     then (STATUS_SUCCESS, Some (v\<lparr>cv_tail := i, cv_current := max (cv_current v) i\<rparr>),
           evictedNotes v (cv_tail v) i)
     else (STATUS_CONTENT_VIEW_INVALID_INDEX, Some v, [])) \<and>
    (cv_tail v \<le> i \<and> i \<le> cv_head v \<longrightarrow>
      view_inv (v\<lparr>cv_tail := i, cv_current := max (cv_current v) i\<rparr>) \<and>
      view_items (v\<lparr>cv_tail := i, cv_current := max (cv_current v) i\<rparr>) =
        drop (unat i - unat (cv_tail v)) (view_items v))"
    (is "?eq \<and> (?in \<longrightarrow> ?post)")
proof (intro conjI impI)
  show ?eq using assms evictTailUntil_spec [of v i] by (auto simp: view_inv_def)
next
  assume ?in
  then show "view_inv (v\<lparr>cv_tail := i, cv_current := max (cv_current v) i\<rparr>)"
    "view_items (v\<lparr>cv_tail := i, cv_current := max (cv_current v) i\<rparr>) =
      drop (unat i - unat (cv_tail v)) (view_items v)"
    using evictTailUntil_inv [OF assms] items_between_split [of "cv_tail v" i "cv_head v" v]
      length_items_between [of v "cv_tail v" i]
    by (simp_all add: view_items_def)
qed

theorem contentViewTrimTail_correct_witness:
  "fst (contentViewTrimTail (Some demo3) 2) = STATUS_SUCCESS \<and>
   map (vi_index \<circ> fst \<circ> snd) (snd (snd (contentViewTrimTail (Some demo3) 2))) = [0, 1] \<and>
   view_inv (demo3\<lparr>cv_tail := 2, cv_current := max (cv_current demo3) 2\<rparr>)"
  using contentViewTrimTail_correct [OF demo3_facts(1), of 2] by (simp add: demo3_facts demo3_notes)

text \<open>\<open>contentViewRemoveAll\<close> empties the view, and \<open>freeContentView\<close> sends the same
  notifications before it releases it: with a callback, every live item exactly once, oldest
  first.\<close>

theorem contentViewRemoveAll_correct:
  assumes "view_inv v"
  shows "\<exists>w. contentViewRemoveAll (Some v) =
      (STATUS_SUCCESS, Some w, evictedNotes v (cv_tail v) (cv_head v)) \<and>
    freeContentView (Some v) = (STATUS_SUCCESS, None, evictedNotes v (cv_tail v) (cv_head v)) \<and>
    map (fst \<circ> snd) (evictedNotes v (cv_tail v) (cv_head v)) =
      (if cv_removeCallbackFunc v then view_items v else []) \<and>
    view_inv w \<and> view_items w = [] \<and> pending_items w = [] \<and> cv_head w = cv_head v"
proof -
  let ?w = "v\<lparr>cv_tail := cv_head v, cv_current := max (cv_current v) (cv_head v)\<rparr>"
  note ord = view_inv_order [OF assms]
  have e: "evictTailUntil (cv_head v) v = (?w, evictedNotes v (cv_tail v) (cv_head v))"
    using assms ord by (intro evictTailUntil_spec) (auto simp: view_inv_def)
  have "contentViewRemoveAll (Some v) =
      (STATUS_SUCCESS, Some (if cv_tail v = cv_head v then v else ?w),
       evictedNotes v (cv_tail v) (cv_head v))"
    using e by (simp add: evictedNotes_def)
  moreover have "view_inv (if cv_tail v = cv_head v then v else ?w)"
    using assms evictTailUntil_inv [OF assms ord(1)] by simp
  moreover have "map (fst \<circ> snd) (evictedNotes v (cv_tail v) (cv_head v)) =
      (if cv_removeCallbackFunc v then view_items v else [])"
    by (simp add: evictedNotes_def view_items_def items_between_def)
  moreover have "cv_tail v = cv_head v \<Longrightarrow> cv_current v = cv_head v"
    using assms by (auto simp: view_inv_def)
  ultimately show ?thesis
    by (auto simp: view_items_def pending_items_def items_between_Nil max_def)
qed

theorem contentViewRemoveAll_correct_witness:
  "map vi_handle (map (fst \<circ> snd) (snd (snd (freeContentView (Some demo3))))) = [91, 92, 93]"
proof -
  have "map vi_handle (view_items demo3) = [91, 92, 93]" by code_simp
  moreover have "cv_removeCallbackFunc demo3" by code_simp
  ultimately show ?thesis
    using contentViewRemoveAll_correct [OF demo3_facts(1)] by (metis snd_conv)
qed

subsection \<open>Consumption of the pending items\<close>

text \<open>C15. Any number of calls of \<open>contentViewGetNext\<close> delivers the pending items in insertion
  order, each once, and leaves the invariant and the remaining items.\<close>

theorem contentViewGetNext_delivers_in_order:
  assumes "view_inv v"
  shows "fst (drain next_item n v) = take n (pending_items v) \<and>
    pending_items (snd (drain next_item n v)) = drop n (pending_items v) \<and>
    view_inv (snd (drain next_item n v))"
  by (rule view_next.drain_pending [OF assms])

theorem contentViewGetNext_delivers_in_order_witness:
  "map vi_handle (fst (drain next_item 2 demo3)) = [91, 92] \<and>
   view_inv (snd (drain next_item 2 demo3))"
proof -
  have "map vi_handle (take 2 (pending_items demo3)) = [91, 92]" by code_simp
  then show ?thesis using contentViewGetNext_delivers_in_order [OF demo3_facts(1), of 2] by simp
qed

subsection \<open>The drop-until-fragment-start policy\<close>

definition not_start :: "ViewItem \<Rightarrow> bool" where
  "not_start it \<longleftrightarrow> \<not> CHECK_ITEM_FRAGMENT_START (vi_flags it)"

lemma dropUntil_fragment:
  "cv_tail v < cv_head v \<Longrightarrow> cv_removeCallbackFunc v \<Longrightarrow> cv_head v \<le> s \<Longrightarrow>
   unat n + (unat (cv_head v) - unat (cv_tail v)) < 2 ^ 32 \<Longrightarrow>
   \<exists>t. dropUntilFragmentStart s v b n =
       (v\<lparr>cv_tail := t\<rparr>, map (\<lambda>it. (cv_customData v, it, b)) (items_between v (cv_tail v) t)) \<and>
     cv_tail v < t \<and> t \<le> cv_head v \<and>
     items_between v t (cv_head v) = dropWhile not_start (tl (view_items v))"
proof (induction s v b n rule: dropUntilFragmentStart.induct)
  case (1 s v b n)
  let ?t = "cv_tail v + 1" and ?h = "cv_head v"
  let ?v = "v\<lparr>cv_tail := cv_tail v + 1\<rparr>"
  note inc = word_inc_le [OF "1.prems"(1)] unat_Suc_less [OF "1.prems"(1)]
  have drop: "cv_tail v \<noteq> s" using "1.prems"(1,3) by auto
  have un: "unat (n + 1) = Suc (unat n)"
    using "1.prems"(1,4) by (intro unat_Suc_less [of n "n + 1"])
      (simp add: word_less_nat_alt unat_word_ariths)
  then have n: "n + 1 \<noteq> 0" by auto
  have bound: "unat n + (unat ?h - Suc (unat (cv_tail v))) < 4294967295"
    using "1.prems"(1,4) by (simp add: word_less_nat_alt)
  have tl: "tl (view_items v) = items_between v ?t ?h" "view_items v = item_at v (cv_tail v) # items_between v ?t ?h"
    using items_between_Cons [OF "1.prems"(1), of v] by (simp_all add: view_items_def)
  have one: "items_between v (cv_tail v) ?t = [item_at v (cv_tail v)]"
    using items_between_Cons [OF inc(2), of v] by (simp add: items_between_Nil)
  show ?case
  proof (cases "?t \<noteq> ?h \<and> not_start (item_at v ?t)")
    case False
    then have "dropWhile not_start (items_between v ?t ?h) = items_between v ?t ?h"
      using items_between_Cons [of ?t ?h v] inc(1)
      by (cases "?t = ?h") (auto simp: items_between_Nil order.strict_iff_order)
    then show ?thesis
      using inc False "1.prems"(2) drop n one
      by (subst dropUntilFragmentStart.simps) (auto simp: Let_def tl not_start_def)
  next
    case True
    then have lt: "?t < ?h" using inc(1) by (simp add: order.strict_iff_order)
    have "\<exists>t. dropUntilFragmentStart s ?v b (n + 1) =
       (?v\<lparr>cv_tail := t\<rparr>, map (\<lambda>it. (cv_customData v, it, b)) (items_between v ?t t)) \<and>
        ?t < t \<and> t \<le> ?h \<and> items_between v t ?h = dropWhile not_start (tl (view_items ?v))"
      using "1.IH" [OF refl refl refl refl refl refl] True "1.prems" drop n un lt inc bound
      by (simp add: not_start_def [abs_def])
    then obtain t where t: "dropUntilFragmentStart s ?v b (n + 1) =
       (?v\<lparr>cv_tail := t\<rparr>, map (\<lambda>it. (cv_customData v, it, b)) (items_between v ?t t))"
        "?t < t" "t \<le> ?h" "items_between v t ?h = dropWhile not_start (tl (view_items ?v))" by blast
    have "dropWhile not_start (tl (view_items v)) = dropWhile not_start (tl (view_items ?v))"
      using True items_between_Cons [OF lt, of v] by (simp add: tl view_items_def [of ?v])
    moreover have "cv_tail v < t" using inc(2) t(2) by (rule order.strict_trans)
    moreover have "items_between v (cv_tail v) t = item_at v (cv_tail v) # items_between v ?t t"
      using items_between_Cons [OF \<open>cv_tail v < t\<close>] .
    ultimately show ?thesis
      using t True "1.prems"(2) drop n
      by (subst dropUntilFragmentStart.simps) (auto simp: Let_def not_start_def)
  qed
qed

text \<open>C12. Overflow under the drop-until-fragment-start policy, with a callback and no item
  being streamed: the oldest item and all that follow it up to the next fragment start are
  dropped, no more and no fewer, the callback receives exactly those, and what remains starts
  with a fragment start or is empty.\<close>

theorem contentViewTrimTailItems_fragment:
  assumes inv: "view_inv v" and ne: "cv_tail v < cv_head v" and max: "cv_head v \<noteq> MAX_UINT64"
    and pol: "cv_bufferOverflowStrategy v = CONTENT_VIEW_OVERFLOW_POLICY_DROP_UNTIL_FRAGMENT_START"
    and cb: "cv_removeCallbackFunc v" and cur: "cv_current v = cv_tail v"
    and cnt: "unat (cv_itemBufferCount v) < 2 ^ 32"
  shows "\<exists>w. contentViewTrimTailItems (Some v) = (STATUS_SUCCESS, Some w,
      map (\<lambda>it. (cv_customData v, it, True))
        (hd (view_items v) # takeWhile not_start (tl (view_items v)))) \<and>
    view_inv w \<and> view_items w = dropWhile not_start (tl (view_items v)) \<and>
    pending_items w = view_items w"
proof -
  have s: "streamed_item v = MAX_UINT64" using cur by (simp add: streamed_item_def)
  have "cv_head v \<le> MAX_UINT64" by (rule le_MAX_UINT64)
  moreover have "unat (0 :: UINT32) + (unat (cv_head v) - unat (cv_tail v)) < 2 ^ 32"
    using inv cnt unfolding view_inv_def by (simp, linarith)
  ultimately obtain t where t: "dropUntilFragmentStart MAX_UINT64 v True 0 =
      (v\<lparr>cv_tail := t\<rparr>, map (\<lambda>it. (cv_customData v, it, True)) (items_between v (cv_tail v) t))"
    "cv_tail v < t" "t \<le> cv_head v"
    "items_between v t (cv_head v) = dropWhile not_start (tl (view_items v))"
    using dropUntil_fragment [OF ne cb, of MAX_UINT64 0 True] by blast
  let ?w = "retainStreamingItem MAX_UINT64 (v\<lparr>cv_tail := t\<rparr>)"
  have "view_inv ?w" "cv_head ?w = cv_head v" "cv_tail ?w = t"
    using retain_keep [OF inv, of t] t(2,3) cur by (simp_all add: s word_less_nat_alt word_le_nat_alt)
  moreover have w: "?w = v\<lparr>cv_tail := t, cv_current := t\<rparr>"
    using t(2) cur by (simp add: retainStreamingItem_def)
  moreover have "view_items v \<noteq> []"
    using items_between_Cons [OF ne] by (simp add: view_items_def)
  have "items_between v (cv_tail v) t = hd (view_items v) # takeWhile not_start (tl (view_items v))"
  proof -
    have "view_items v = items_between v (cv_tail v) t @ dropWhile not_start (tl (view_items v))"
      using items_between_split [of "cv_tail v" t "cv_head v" v] t by (simp add: view_items_def)
    moreover have "view_items v =
      (hd (view_items v) # takeWhile not_start (tl (view_items v))) @ dropWhile not_start (tl (view_items v))"
      using \<open>view_items v \<noteq> []\<close> by simp
    ultimately show ?thesis by (metis append_same_eq)
  qed
  ultimately show ?thesis
    using t pol cur
    by (simp add: contentViewTrimTailItems_eq s dropTail_def view_items_def pending_items_def)
qed

theorem contentViewTrimTailItems_fragment_witness:
  "\<exists>w. contentViewTrimTailItems (Some demo3) = (STATUS_SUCCESS, Some w,
      map (\<lambda>it. (cv_customData demo3, it, True))
        (hd (view_items demo3) # takeWhile not_start (tl (view_items demo3)))) \<and>
    map vi_handle (view_items w) = [93]"
proof -
  have "map vi_handle (dropWhile not_start (tl (view_items demo3))) = [93]" by code_simp
  moreover have "cv_removeCallbackFunc demo3" "cv_bufferOverflowStrategy demo3 =
    CONTENT_VIEW_OVERFLOW_POLICY_DROP_UNTIL_FRAGMENT_START" by code_simp+
  ultimately show ?thesis
    using contentViewTrimTailItems_fragment [OF demo3_facts(1)] by (fastforce simp: demo3_facts)
qed

subsection \<open>Rolling back\<close>

text \<open>
  The reference for the backward loop: among the items from \<open>i\<close> down to the tail at which
  the stream may restart, the newest one that satisfies a stop condition ends the search.
\<close>

definition downto_tail :: "RollingContentView \<Rightarrow> UINT64 \<Rightarrow> UINT64 list" where
  "downto_tail v i = map of_nat (rev [unat (cv_tail v)..<Suc (unat i)])"

definition restart_point :: "RollingContentView \<Rightarrow> bool \<Rightarrow> UINT64 \<Rightarrow> bool" where
  "restart_point v keyFrame i \<longleftrightarrow>
     \<not> keyFrame \<or> CHECK_ITEM_FRAGMENT_START (vi_flags (item_at v i))"

definition acked :: "RollingContentView \<Rightarrow> bool \<Rightarrow> UINT64 \<Rightarrow> bool" where
  "acked v lastReceivedAck i \<longleftrightarrow>
     lastReceivedAck \<and> CHECK_ITEM_RECEIVED_ACK (vi_flags (item_at v i))"

definition rolled_enough :: "RollingContentView \<Rightarrow> UINT64 \<Rightarrow> UINT64 \<Rightarrow> UINT64 \<Rightarrow> bool" where
  "rolled_enough v timestamp duration i \<longleftrightarrow> vi_ackTimestamp (item_at v i) + duration \<le> timestamp"

definition pick_target :: "('a \<Rightarrow> bool) \<Rightarrow> ('a \<Rightarrow> bool) \<Rightarrow> 'a list \<Rightarrow> 'a \<Rightarrow> 'a" where
  "pick_target isAcked enough starts c =
     (let go = (\<lambda>k. \<not> (isAcked k \<or> enough k)); older = last (c # takeWhile go starts)
      in case dropWhile go starts of
           [] \<Rightarrow> older
         | k # _ \<Rightarrow> if isAcked k then older else k)"

definition rollback_target ::
  "RollingContentView \<Rightarrow> UINT64 \<Rightarrow> UINT64 \<Rightarrow> bool \<Rightarrow> bool \<Rightarrow> UINT64 \<Rightarrow> UINT64 \<Rightarrow> UINT64" where
  "rollback_target v timestamp duration keyFrame lastReceivedAck i c =
     pick_target (acked v lastReceivedAck) (rolled_enough v timestamp duration)
       (filter (restart_point v keyFrame) (downto_tail v i)) c"

lemma pick_target_simps [simp]:
  "pick_target a e [] c = c"
  "pick_target a e (k # ks) c = (if a k then c else if e k then k else pick_target a e ks k)"
  by (simp_all add: pick_target_def)

lemma pick_target_in: "pick_target a e ks c \<in> insert c (set ks)"
  by (induction ks arbitrary: c) auto

lemma downto_tail_rec:
  assumes "cv_tail v \<le> i"
  shows "downto_tail v i = i # (if i = cv_tail v then [] else downto_tail v (i - 1))"
proof (cases "i = cv_tail v")
  case True
  then show ?thesis by (simp add: downto_tail_def)
next
  case False
  then have "cv_tail v < i" using assms by simp
  then have "Suc (unat (i - 1)) = unat i" "unat (cv_tail v) \<le> unat i"
    by (auto simp: unat_pred_greater word_less_nat_alt)
  then show ?thesis using False by (simp add: downto_tail_def)
qed

lemma rollback_target_step:
  assumes "cv_tail v \<le> i"
  shows "rollback_target v ts d key ack i c =
    (let start = restart_point v key i; c' = (if start then i else c)
     in if start \<and> acked v ack i then c
        else if start \<and> rolled_enough v ts d i then i
        else if i = cv_tail v then c' else rollback_target v ts d key ack (i - 1) c')"
  by (auto simp: rollback_target_def downto_tail_rec [OF assms] Let_def)

lemma rollbackLoop_target:
  "cv_tail v \<le> i \<Longrightarrow> l = c \<Longrightarrow>
   rollbackLoop v ts d key ack i l c = rollback_target v ts d key ack i c"
proof (induction v ts d key ack i l c rule: rollbackLoop.induct)
  case (1 v ts d key ack i l c)
  have le: "cv_tail v \<le> i - 1" if "i \<noteq> cv_tail v"
  proof -
    have "cv_tail v < i" using "1.prems"(1) that by simp
    then show ?thesis by (auto simp: word_le_nat_alt unat_pred_greater word_less_nat_alt)
  qed
  let ?s = "restart_point v key i" and ?c = "if restart_point v key i then i else c"
  have IH: "rollbackLoop v ts d key ack (i - 1) ?c ?c = rollback_target v ts d key ack (i - 1) ?c"
    if "\<not> (?s \<and> acked v ack i)" "\<not> (?s \<and> rolled_enough v ts d i)" "i \<noteq> cv_tail v"
    using "1.IH" [OF refl refl _ _ refl refl that(3) le [OF that(3)]] that "1.prems"(2)
    by (simp add: restart_point_def acked_def rolled_enough_def)
  have "rollbackLoop v ts d key ack i l c =
    (if ?s \<and> acked v ack i then c
     else if ?s \<and> rolled_enough v ts d i then i
     else if i = cv_tail v then ?c else rollbackLoop v ts d key ack (i - 1) ?c ?c)"
    using "1.prems"(2) by (subst rollbackLoop.simps)
      (auto simp: restart_point_def acked_def rolled_enough_def Let_def)
  then show ?case
    using IH by (auto simp: rollback_target_step [OF "1.prems"(1)] Let_def)
qed

lemma downto_tail_range:
  "cv_tail v \<le> i \<Longrightarrow> k \<in> set (downto_tail v i) \<Longrightarrow> cv_tail v \<le> k \<and> k \<le> i"
proof -
  assume a: "cv_tail v \<le> i" "k \<in> set (downto_tail v i)"
  then obtain n where n: "k = of_nat n" "unat (cv_tail v) \<le> n" "n \<le> unat i"
    by (auto simp: downto_tail_def)
  have "unat i < 2 ^ LENGTH(64)" by (rule unsigned_less)
  then have "unat k = n" using n(1,3) by (simp add: unat_of_nat)
  then show ?thesis using n by (simp add: word_le_nat_alt)
qed

lemma rollback_target_range:
  assumes "cv_tail v \<le> i" "cv_tail v \<le> c" "c \<le> i"
  shows "cv_tail v \<le> rollback_target v ts d key ack i c \<and> rollback_target v ts d key ack i c \<le> i"
proof -
  have "rollback_target v ts d key ack i c \<in> insert c (set (downto_tail v i))"
    using pick_target_in [of _ _ "filter (restart_point v key) (downto_tail v i)" c]
    by (auto simp: rollback_target_def)
  then show ?thesis using assms downto_tail_range [OF assms(1)] by auto
qed

lemma skipForward_spec:
  "i \<le> cv_head v \<Longrightarrow> i \<le> skipForward v i \<and> skipForward v i \<le> cv_head v \<and>
     (\<forall>k. i \<le> k \<and> k < skipForward v i \<longrightarrow> CHECK_ITEM_SKIP_ITEM (vi_flags (item_at v k))) \<and>
     (skipForward v i = cv_head v \<or>
      \<not> CHECK_ITEM_SKIP_ITEM (vi_flags (item_at v (skipForward v i))))"
proof (induction v i rule: skipForward.induct)
  case (1 v i)
  show ?case
  proof (cases "CHECK_ITEM_SKIP_ITEM (vi_flags (item_at v i)) \<and> i \<noteq> cv_head v")
    case False
    then have "skipForward v i = i" by (subst skipForward.simps) auto
    then show ?thesis using False "1.prems" by auto
  next
    case True
    then have lt: "i < cv_head v" using "1.prems" by (simp add: order.strict_iff_order)
    note inc = word_inc_le [OF lt]
    have eq: "skipForward v i = skipForward v (i + 1)" using True by (subst skipForward.simps) auto
    have "k = i \<or> i + 1 \<le> k" if "i \<le> k" for k
      using that unat_Suc_less [OF lt] by (auto simp: word_le_nat_alt unat_eq_iff [symmetric])
    moreover have "i + 1 \<le> skipForward v (i + 1)" "i \<le> skipForward v (i + 1)"
      using "1.IH" True inc by (auto intro: order.trans [of i "i + 1"])
    ultimately show ?thesis
      using "1.IH" True inc unfolding eq by blast
  qed
qed

text \<open>C14. \<open>contentViewRollbackCurrent\<close> sets the current item to the reference target, moved
  forward over the items marked as skipped and never past the head; the target is an item of
  the window, so the view invariant is kept.\<close>

theorem contentViewRollbackCurrent_correct:
  fixes v :: RollingContentView and duration :: UINT64 and keyFrame lastReceivedAck :: bool
  assumes inv: "view_inv v" and nontriv: "cv_current v \<noteq> cv_tail v" "duration \<noteq> 0"
  defines "target \<equiv> rollback_target v (vi_ackTimestamp (item_at v (cv_current v))) duration
     keyFrame lastReceivedAck (cv_current v) (cv_current v)"
  shows "\<exists>r. contentViewRollbackCurrent (Some v) duration keyFrame lastReceivedAck =
      (STATUS_SUCCESS, Some (v\<lparr>cv_current := r\<rparr>)) \<and> view_inv (v\<lparr>cv_current := r\<rparr>) \<and>
    cv_tail v \<le> target \<and> target \<le> cv_current v \<and> target \<le> r \<and>
    (\<forall>k. target \<le> k \<and> k < r \<longrightarrow> CHECK_ITEM_SKIP_ITEM (vi_flags (item_at v k))) \<and>
    (r = cv_head v \<or> \<not> CHECK_ITEM_SKIP_ITEM (vi_flags (item_at v r)))"
proof -
  have le: "cv_tail v \<le> cv_current v" "cv_current v \<le> cv_head v" using inv by (auto simp: view_inv_def)
  have t: "cv_tail v \<le> target" "target \<le> cv_current v"
    using rollback_target_range [OF le(1) le(1) order_refl] by (auto simp: target_def)
  have s: "target \<le> skipForward v target \<and> skipForward v target \<le> cv_head v \<and>
     (\<forall>k. target \<le> k \<and> k < skipForward v target \<longrightarrow> CHECK_ITEM_SKIP_ITEM (vi_flags (item_at v k))) \<and>
     (skipForward v target = cv_head v \<or>
      \<not> CHECK_ITEM_SKIP_ITEM (vi_flags (item_at v (skipForward v target))))"
    using skipForward_spec t(2) le(2) by (meson order.trans)
  have "contentViewRollbackCurrent (Some v) duration keyFrame lastReceivedAck =
      (STATUS_SUCCESS, Some (v\<lparr>cv_current := skipForward v target\<rparr>))"
    using nontriv by (simp add: target_def rollbackLoop_target [OF le(1) refl] Let_def)
  moreover have "view_inv (v\<lparr>cv_current := skipForward v target\<rparr>)"
    using view_inv_set_current [OF inv] s t by (meson order.trans)
  ultimately show ?thesis using s t by blast
qed

theorem contentViewRollbackCurrent_correct_witness:
  "\<exists>r. contentViewRollbackCurrent (Some demo3c) 3 True False =
      (STATUS_SUCCESS, Some (demo3c\<lparr>cv_current := r\<rparr>)) \<and> view_inv (demo3c\<lparr>cv_current := r\<rparr>) \<and>
    r = 0"
proof -
  have "rollback_target demo3c (vi_ackTimestamp (item_at demo3c 2)) 3 True False 2 2 = 0"
    "skipForward demo3c 0 = 0"
    by code_simp+
  moreover have "contentViewRollbackCurrent (Some demo3c) 3 True False =
      (STATUS_SUCCESS, Some (demo3c\<lparr>cv_current := 0\<rparr>))" by code_simp
  ultimately show ?thesis
    using contentViewRollbackCurrent_correct [OF demo3c_facts(1), of 3 True False]
      view_inv_set_current [OF demo3c_facts(1), of 0]
    by (auto simp: demo3c_facts)
qed

subsection \<open>Search by timestamp\<close>

definition covers :: "bool \<Rightarrow> ViewItem \<Rightarrow> UINT64 \<Rightarrow> bool" where
  "covers checkAck it timestamp \<longleftrightarrow>
     item_ts checkAck it \<le> timestamp \<and> timestamp \<le> item_ts checkAck it + vi_duration it"

text \<open>No gap between neighbours: each item starts no later than the one before it ends.\<close>

definition contiguous :: "bool \<Rightarrow> RollingContentView \<Rightarrow> bool" where
  "contiguous checkAck v \<longleftrightarrow>
     (\<forall>k. cv_tail v \<le> k \<and> k < cv_head v - 1 \<longrightarrow>
        item_ts checkAck (item_at v (k + 1)) \<le>
          item_ts checkAck (item_at v k) + vi_duration (item_at v k))"

lemma midpoint:
  fixes a b :: UINT64
  assumes "a \<le> b" "unat b < 2 ^ 63"
  shows "a \<le> (a + b) div 2" "(a + b) div 2 \<le> b" "unat ((a + b) div 2) = (unat a + unat b) div 2"
proof -
  have "unat (a + b) = unat a + unat b"
    using assms by (simp add: unat_word_ariths word_le_nat_alt)
  then show m: "unat ((a + b) div 2) = (unat a + unat b) div 2"
    by (simp add: unat_div)
  show "a \<le> (a + b) div 2" "(a + b) div 2 \<le> b"
    using assms(1) m by (simp_all add: word_le_nat_alt)
qed

lemma findLoop_step:
  assumes "lo \<le> hi" "cv_tail v \<le> lo" "hi < cv_head v" "unat (cv_head v) \<le> 2 ^ 63"
  shows "findLoop v ts ack lo hi c =
    (let m = (lo + hi) div 2
     in if covers ack (item_at v m) ts then Some (GET_VIEW_ITEM_FROM_INDEX v m)
        else if item_ts ack (item_at v m) > ts
        then findLoop v ts ack lo (m - 1) (GET_VIEW_ITEM_FROM_INDEX v m)
        else findLoop v ts ack (m + 1) hi (GET_VIEW_ITEM_FROM_INDEX v m))"
proof -
  have "unat hi < 2 ^ 63" using assms(3,4) by (simp add: word_less_nat_alt)
  note m = midpoint [OF assms(1) this]
  have "cv_tail v \<le> (lo + hi) div 2" "(lo + hi) div 2 < cv_head v"
    using m(1,2) assms(2,3) by auto
  then show ?thesis
    using assms(1) by (subst findLoop.simps) (simp add: Let_def covers_def item_at_def)
qed

lemma findLoop_total:
  assumes head: "unat (cv_head v) \<le> 2 ^ 63" and tl: "item_ts ack (item_at v (cv_tail v)) \<le> ts"
  shows "cv_tail v \<le> lo \<Longrightarrow> hi < cv_head v \<Longrightarrow> \<exists>p. findLoop v ts ack lo hi c = Some p"
proof (induction "Suc (unat hi) - unat lo" arbitrary: lo hi c rule: less_induct)
  case less
  show ?case
  proof (cases "lo \<le> hi")
    case False
    then show ?thesis by (subst findLoop.simps) simp
  next
    case True
    define m where "m = (lo + hi) div 2"
    have hi: "unat hi < 2 ^ 63" using less.prems(2) head by (simp add: word_less_nat_alt)
    note mid = midpoint [OF True hi, folded m_def]
    note step = findLoop_step [OF True less.prems head, of ts ack c, folded m_def]
    have up: "unat (m + 1) = Suc (unat m)" "cv_tail v \<le> m + 1"
      using unat_Suc_less [of m "cv_head v"] mid less.prems by (auto simp: word_le_nat_alt word_less_nat_alt)
    have "\<exists>p. findLoop v ts ack (m + 1) hi (GET_VIEW_ITEM_FROM_INDEX v m) = Some p"
      using less.hyps [of hi "m + 1"] up less.prems(2) mid(1) True by (simp add: word_le_nat_alt)
    moreover have "\<exists>p. findLoop v ts ack lo (m - 1) (GET_VIEW_ITEM_FROM_INDEX v m) = Some p"
      if "item_ts ack (item_at v m) > ts"
    proof -
      have "m \<noteq> cv_tail v" using that tl by auto
      then have lt: "cv_tail v < m" using mid(1) less.prems(1) by simp
      have "unat (m - 1) = unat m - 1" using lt by (rule unat_pred_greater)
      then show ?thesis
        using less.hyps [of "m - 1" lo] lt less.prems mid True
        by (simp add: word_le_nat_alt word_less_nat_alt)
    qed
    ultimately show ?thesis using step by (simp add: Let_def)
  qed
qed

lemma find_bounds:
  assumes "view_inv v" "cv_tail v < cv_head v"
  shows "findViewItemWithTimestamp v (GET_VIEW_ITEM_FROM_INDEX v (cv_tail v))
      (GET_VIEW_ITEM_FROM_INDEX v (cv_head v - 1)) ts ack =
    findLoop v ts ack (cv_tail v) (cv_head v - 1) (GET_VIEW_ITEM_FROM_INDEX v (cv_tail v))"
    and "cv_tail v \<le> cv_head v - 1" "cv_head v - 1 < cv_head v"
proof -
  have u: "unat (cv_head v - 1) = unat (cv_head v) - 1" using assms(2) by (rule unat_pred_greater)
  then show b: "cv_tail v \<le> cv_head v - 1" "cv_head v - 1 < cv_head v"
    using assms(2) by (auto simp: word_le_nat_alt word_less_nat_alt)
  have "vi_index (item_at v (cv_tail v)) = cv_tail v" "vi_index (item_at v (cv_head v - 1)) = cv_head v - 1"
    using assms b by (auto simp: view_inv_def live_def word_le_nat_alt word_less_nat_alt)
  then show "findViewItemWithTimestamp v (GET_VIEW_ITEM_FROM_INDEX v (cv_tail v))
      (GET_VIEW_ITEM_FROM_INDEX v (cv_head v - 1)) ts ack =
    findLoop v ts ack (cv_tail v) (cv_head v - 1) (GET_VIEW_ITEM_FROM_INDEX v (cv_tail v))"
    by (simp add: findViewItemWithTimestamp_def item_at_def)
qed

definition in_range :: "bool \<Rightarrow> RollingContentView \<Rightarrow> UINT64 \<Rightarrow> bool" where
  "in_range ack v ts \<longleftrightarrow> cv_head v \<noteq> cv_tail v \<and>
     item_ts ack (item_at v (cv_tail v)) \<le> ts \<and>
     ts \<le> item_ts ack (item_at v (cv_head v - 1)) + vi_duration (item_at v (cv_head v - 1))"

lemma timestampInRange_eq:
  "contentViewTimestampInRange (Some v) ts ack True = (STATUS_SUCCESS, Some (in_range ack v ts))"
  by (auto simp: in_range_def item_ts_def Let_def)

text \<open>A timestamp in a gap of a sparse view: it lies behind the end of an item and before the start of the next one. The item is
  one of the two.\<close>

definition beside_gap :: "bool \<Rightarrow> RollingContentView \<Rightarrow> UINT64 \<Rightarrow> UINT64 \<Rightarrow> bool" where
  "beside_gap checkAck v timestamp k \<longleftrightarrow>
     (\<exists>j. cv_tail v \<le> j \<and> j + 1 < cv_head v \<and> j < j + 1 \<and> (k = j \<or> k = j + 1) \<and>
        item_ts checkAck (item_at v j) + vi_duration (item_at v j) < timestamp \<and> timestamp < item_ts checkAck (item_at v (j + 1)))"

lemma contiguous_no_gap: "contiguous ack v \<Longrightarrow> \<not> beside_gap ack v ts k"
proof
  assume con: "contiguous ack v" and "beside_gap ack v ts k"
  then obtain j where j: "cv_tail v \<le> j" "j + 1 < cv_head v" "j < j + 1"
    "item_ts ack (item_at v j) + vi_duration (item_at v j) < ts" "ts < item_ts ack (item_at v (j + 1))"
    by (auto simp: beside_gap_def)
  have "j < cv_head v - 1" using j(2,3) unat_pred_greater [OF j(2)] by (auto simp: word_less_nat_alt unat_Suc_less)
  then have "item_ts ack (item_at v (j + 1)) \<le> item_ts ack (item_at v j) + vi_duration (item_at v j)"
    using con j(1) unfolding contiguous_def by blast
  then show False using j(4,5) by simp
qed

text \<open>What the search has found out when it goes on: the items before the range end too early, those behind it start too late, and the last one
  it has looked at is beside the range.\<close>

definition searched :: "bool \<Rightarrow> RollingContentView \<Rightarrow> UINT64 \<Rightarrow> UINT64 \<Rightarrow> UINT64 \<Rightarrow> bool" where
  "searched ack v ts lo hi \<longleftrightarrow>
     (lo = cv_tail v \<or> cv_tail v < lo \<and> item_ts ack (item_at v (lo - 1)) + vi_duration (item_at v (lo - 1)) < ts) \<and>
     (hi = cv_head v - 1 \<or> ts < item_ts ack (item_at v (hi + 1)))"

lemma search_ended:
  assumes r: "in_range ack v ts" and lt: "cv_tail v < cv_head v" and s: "searched ack v ts lo hi" and e: "lo = hi + 1" "hi < cv_head v" "cv_tail v \<le> lo"
    and k: "k = hi \<or> k = lo" "cv_tail v \<le> k" "k < cv_head v"
  shows "beside_gap ack v ts k"
proof -
  have hi: "unat (hi + 1) = Suc (unat hi)" using unat_Suc_less [OF e(2)] .
  have pred: "unat (cv_head v - 1) = unat (cv_head v) - 1" by (rule unat_pred_greater [OF lt])
  have lo1: "lo - 1 = hi" using e(1) by simp
  have nl: "lo \<noteq> cv_tail v"
  proof
    assume lo: "lo = cv_tail v"
    then have "hi \<noteq> cv_head v - 1" using lt e(1) hi pred by (auto simp: word_less_nat_alt)
    then have "ts < item_ts ack (item_at v lo)" using s e(1) unfolding searched_def by simp
    then show False using r lo by (auto simp: in_range_def dest: leD)
  qed
  then have low: "cv_tail v < lo" "item_ts ack (item_at v hi) + vi_duration (item_at v hi) < ts" using s lo1 unfolding searched_def by auto
  have nh: "hi \<noteq> cv_head v - 1" using low(2) r by (auto simp: in_range_def)
  then have "ts < item_ts ack (item_at v lo)" using s e(1) unfolding searched_def by simp
  moreover have "cv_tail v \<le> hi" using low(1) e(1) hi by (simp add: word_less_nat_alt word_le_nat_alt)
  moreover have "unat hi \<noteq> unat (cv_head v - 1)" using nh by (simp add: unat_eq_iff)
  then have "lo < cv_head v" using e hi pred lt by (simp add: word_less_nat_alt)
  moreover have "hi < lo" using e(1) hi by (simp add: word_less_nat_alt)
  ultimately show ?thesis unfolding beside_gap_def using low(2) k(1) e(1) by (intro exI [of _ hi]) auto
qed

lemma findLoop_sparse:
  assumes r: "in_range ack v ts" and lt: "cv_tail v < cv_head v" and head: "unat (cv_head v) \<le> 2 ^ 63"
  shows "lo \<le> hi \<Longrightarrow> cv_tail v \<le> lo \<Longrightarrow> hi < cv_head v \<Longrightarrow> searched ack v ts lo hi \<Longrightarrow>
    \<exists>k. findLoop v ts ack lo hi c = Some (GET_VIEW_ITEM_FROM_INDEX v k) \<and> cv_tail v \<le> k \<and> k < cv_head v \<and>
      (covers ack (item_at v k) ts \<or> beside_gap ack v ts k)"
proof (induction "unat hi - unat lo" arbitrary: lo hi c rule: less_induct)
  case less
  define m where "m = (lo + hi) div 2"
  have hi: "unat hi < 2 ^ 63" using less.prems(3) head by (simp add: word_less_nat_alt)
  note mid = midpoint [OF less.prems(1) hi, folded m_def]
  note step = findLoop_step [OF less.prems(1-3) head, of ts ack c, folded m_def]
  have mt: "cv_tail v \<le> m" "m < cv_head v" using mid less.prems by auto
  consider "covers ack (item_at v m) ts" | "item_ts ack (item_at v m) > ts"
    | "item_ts ack (item_at v m) \<le> ts" "item_ts ack (item_at v m) + vi_duration (item_at v m) < ts"
    by (force simp: covers_def)
  then show ?case
  proof cases
    case 1
    then show ?thesis using mt step by (auto simp: Let_def)
  next
    case 2
    then have "m \<noteq> cv_tail v" using r by (auto simp: in_range_def)
    then have tm: "cv_tail v < m" using mt(1) by simp
    have u: "unat (m - 1) = unat m - 1" using tm by (rule unat_pred_greater)
    have b: "m - 1 < cv_head v" "cv_tail v \<le> m - 1" using tm u mt(2) by (auto simp: word_le_nat_alt word_less_nat_alt)
    have s: "searched ack v ts lo (m - 1)" using less.prems(4) 2 by (simp add: searched_def)
    have go: "findLoop v ts ack lo hi c = findLoop v ts ack lo (m - 1) (GET_VIEW_ITEM_FROM_INDEX v m)"
      using step 2 by (auto simp: Let_def covers_def)
    show ?thesis
    proof (cases "lo \<le> m - 1")
      case True
      then have "unat (m - 1) - unat lo < unat hi - unat lo" using u mid(2) tm by (auto simp: word_le_nat_alt word_less_nat_alt)
      then show ?thesis using less.hyps [OF _ True less.prems(2) b(1) s] go by simp
    next
      case False
      then have "lo = m" using mid(1) u tm by (simp add: word_le_nat_alt unat_eq_iff [symmetric] word_less_nat_alt)
      then have "beside_gap ack v ts m" using search_ended [OF r lt s _ b(1) less.prems(2), of m] mt by simp
      then show ?thesis using go False mt by (subst (asm) (2) findLoop.simps) auto
    qed
  next
    case 3
    then have "m \<noteq> cv_head v - 1" using r by (auto simp: in_range_def)
    then have "unat m \<noteq> unat (cv_head v - 1)" by (simp add: unat_eq_iff)
    then have up: "unat (m + 1) = Suc (unat m)" "m + 1 < cv_head v"
      using unat_Suc_less [OF mt(2)] unat_pred_greater [OF lt] mt(2) lt by (auto simp: word_less_nat_alt)
    have lm: "cv_tail v \<le> m + 1" "cv_tail v < m + 1" using up(1) mt(1) by (simp_all add: word_le_nat_alt word_less_nat_alt)
    have s: "searched ack v ts (m + 1) hi" using less.prems(4) 3 lm by (simp add: searched_def)
    have go: "findLoop v ts ack lo hi c = findLoop v ts ack (m + 1) hi (GET_VIEW_ITEM_FROM_INDEX v m)"
      using step 3 by (auto simp: Let_def covers_def)
    show ?thesis
    proof (cases "m + 1 \<le> hi")
      case True
      then have "unat hi - unat (m + 1) < unat hi - unat lo" using up(1) mid(1) by (auto simp: word_le_nat_alt)
      then show ?thesis using less.hyps [OF _ True lm(1) less.prems(3) s] go by simp
    next
      case False
      then have "hi = m" using mid(2) up(1) by (simp add: word_le_nat_alt unat_eq_iff [symmetric])
      then have "beside_gap ack v ts m" using search_ended [OF r lt s _ less.prems(3) lm(1), of m] mt by simp
      then show ?thesis using go False mt by (subst (asm) (2) findLoop.simps) auto
    qed
  qed
qed

lemma item_with_timestamp:
  assumes inv: "view_inv v" and head: "unat (cv_head v) \<le> 2 ^ 63" and r: "in_range ack v ts"
  obtains k where "contentViewGetItemWithTimestamp (Some v) ts ack True = Some (STATUS_SUCCESS, Some (GET_VIEW_ITEM_FROM_INDEX v k))"
    "cv_tail v \<le> k" "k < cv_head v" "covers ack (item_at v k) ts \<or> beside_gap ack v ts k"
proof -
  have lt: "cv_tail v < cv_head v" using r view_inv_order(1) [OF inv] by (auto simp: in_range_def order.strict_iff_order)
  note b = find_bounds [OF inv lt]
  obtain k where k: "findLoop v ts ack (cv_tail v) (cv_head v - 1) (GET_VIEW_ITEM_FROM_INDEX v (cv_tail v)) = Some (GET_VIEW_ITEM_FROM_INDEX v k)"
    "cv_tail v \<le> k" "k < cv_head v" "covers ack (item_at v k) ts \<or> beside_gap ack v ts k"
    using findLoop_sparse [OF r lt head b(2) order_refl b(3)] by (auto simp: searched_def)
  then show thesis using that r b(1) by (simp add: timestampInRange_eq del: contentViewTimestampInRange.simps)
qed

text \<open>C2. \<open>contentViewGetItemWithTimestamp\<close> on any view, sparse ones included: the binary search ends and its fatal assertion does not fire; for a
  timestamp in the window it returns a live item that covers the timestamp or, when the timestamp lies in a gap, one of the two items beside
  the gap, and in a view without gaps always the former; otherwise the status is that of an invalid timestamp.\<close>

theorem contentViewGetItemWithTimestamp_correct:
  assumes inv: "view_inv v" and head: "unat (cv_head v) \<le> 2 ^ 63"
  shows "if in_range ack v ts
    then \<exists>k. contentViewGetItemWithTimestamp (Some v) ts ack True =
           Some (STATUS_SUCCESS, Some (GET_VIEW_ITEM_FROM_INDEX v k)) \<and>
         cv_tail v \<le> k \<and> k < cv_head v \<and>
         (if contiguous ack v then covers ack (item_at v k) ts else covers ack (item_at v k) ts \<or> beside_gap ack v ts k)
    else contentViewGetItemWithTimestamp (Some v) ts ack True =
           Some (STATUS_CONTENT_VIEW_INVALID_TIMESTAMP, None)"
proof (cases "in_range ack v ts")
  case False
  then show ?thesis by (simp add: timestampInRange_eq del: contentViewTimestampInRange.simps)
next
  case True
  obtain k where "contentViewGetItemWithTimestamp (Some v) ts ack True = Some (STATUS_SUCCESS, Some (GET_VIEW_ITEM_FROM_INDEX v k))"
    "cv_tail v \<le> k" "k < cv_head v" "covers ack (item_at v k) ts \<or> beside_gap ack v ts k"
    by (rule item_with_timestamp [OF inv head True])
  then show ?thesis using True contiguous_no_gap [of ack v ts k] by (auto simp del: contentViewGetItemWithTimestamp.simps)
qed

theorem contentViewGetItemWithTimestamp_correct_witness:
  "\<exists>k. contentViewGetItemWithTimestamp (Some demo3) 17 False True =
     Some (STATUS_SUCCESS, Some (GET_VIEW_ITEM_FROM_INDEX demo3 k)) \<and>
     covers False (item_at demo3 k) 17"
proof -
  have k: "k = 0 \<or> k = 1" if "k < (2 :: UINT64)" for k
    using that unat_eq_iff [of k 0] unat_eq_iff [of k 1] by (auto simp: word_less_nat_alt)
  have i: "item_ts False (item_at demo3 1) \<le>
      item_ts False (item_at demo3 0) + vi_duration (item_at demo3 0)" by code_simp
  have ii: "item_ts False (item_at demo3 2) \<le>
      item_ts False (item_at demo3 1) + vi_duration (item_at demo3 1)" by code_simp
  have "item_ts False (item_at demo3 (j + 1)) \<le>
      item_ts False (item_at demo3 j) + vi_duration (item_at demo3 j)" if "j < 2" for j
    using k [OF that] i ii by auto
  then have "contiguous False demo3"
    by (simp add: contiguous_def demo3_facts)
  moreover have "in_range False demo3 17" by code_simp
  ultimately show ?thesis
    using contentViewGetItemWithTimestamp_correct [OF demo3_facts(1), of False 17]
    by (auto simp: demo3_facts)
qed

text \<open>The fatal assertion inside the binary search never fires on a view in its invariant,
  whatever the timestamps of its items, as long as the indices stay below \<open>2 ^ 63\<close>; beyond
  that the sum of the two bounds would wrap.\<close>

theorem contentViewGetItemWithTimestamp_no_abort:
  assumes inv: "view_inv v" and head: "unat (cv_head v) \<le> 2 ^ 63"
  shows "\<exists>st p. contentViewGetItemWithTimestamp (Some v) ts ack True = Some (st, p)"
proof (cases "in_range ack v ts")
  case False
  then show ?thesis by (simp add: timestampInRange_eq del: contentViewTimestampInRange.simps)
next
  case True
  then have lt: "cv_tail v < cv_head v"
    using view_inv_order(1) [OF inv] by (auto simp: in_range_def order.strict_iff_order)
  note b = find_bounds [OF inv lt]
  have "\<exists>p. findLoop v ts ack (cv_tail v) (cv_head v - 1) (GET_VIEW_ITEM_FROM_INDEX v (cv_tail v)) = Some p"
    using findLoop_total [OF head _ order_refl b(3)] True by (auto simp: in_range_def)
  then show ?thesis
    using True b(1) by (auto simp: timestampInRange_eq simp del: contentViewTimestampInRange.simps)
qed

theorem contentViewGetItemWithTimestamp_no_abort_witness:
  "\<exists>st p. contentViewGetItemWithTimestamp (Some demo3c) 13 True True = Some (st, p)"
  using contentViewGetItemWithTimestamp_no_abort [OF demo3c_facts(1), of 13 True]
  by (simp add: demo3c_facts)

subsection \<open>Window allocation sizes\<close>

definition sum_lengths :: "ViewItem list \<Rightarrow> UINT64" where
  "sum_lengths its = sum_list (map (\<lambda>it. ucast (vi_length it)) its)"

lemma sum_lengths_simps [simp]:
  "sum_lengths [] = 0" "sum_lengths [x] = ucast (vi_length x)" "sum_lengths (xs @ [x]) = sum_lengths xs + ucast (vi_length x)"
  by (simp_all add: sum_lengths_def)

lemma windowAllocationLoop_sums:
  "cv_tail v \<le> i \<Longrightarrow> i < cv_head v \<Longrightarrow> cv_tail v \<le> cv_current v \<Longrightarrow> cv_current v \<le> cv_head v \<Longrightarrow>
   w \<or> cv_current v \<le> i \<Longrightarrow>
   fst (windowAllocationLoop v w i c n) = c + sum_lengths (items_between v (cv_current v) (i + 1)) \<and>
   (w \<longrightarrow> snd (windowAllocationLoop v w i c n) = n + sum_lengths (items_between v (cv_tail v) (i + 1)))"
proof (induction v w i c n rule: windowAllocationLoop.induct)
  case (1 v w i c n)
  let ?len = "ucast (vi_length (item_at v i)) :: UINT64"
  let ?c = "if i \<ge> cv_current v \<and> cv_head v \<noteq> cv_current v then c + ?len else c"
  note inc = word_inc_le [OF "1.prems"(2)] unat_Suc_less [OF "1.prems"(2)]
  have cnt: "i \<ge> cv_current v \<and> cv_head v \<noteq> cv_current v \<longleftrightarrow> cv_current v \<le> i"
    using "1.prems"(2) by auto
  have bet: "items_between v a (i + 1) = (if a \<le> i then items_between v a i @ [item_at v i] else [])" for a
    using items_between_snoc [OF inc(3), of a v] inc
    by (auto simp: items_between_Nil word_le_nat_alt word_less_nat_alt)
  show ?case
  proof (cases "i = cv_current v \<and> \<not> w \<or> i = cv_tail v")
    case True
    then have "windowAllocationLoop v w i c n = (?c, n + ?len)"
      by (subst windowAllocationLoop.simps) (auto simp: Let_def)
    moreover have "items_between v (cv_current v) i = []"
      using True "1.prems"(3) by (auto intro: items_between_Nil)
    moreover have "w \<Longrightarrow> items_between v (cv_tail v) i = []"
      using True by (auto intro: items_between_Nil)
    ultimately show ?thesis using "1.prems"(1) by (auto simp: cnt bet)
  next
    case False
    then have lt: "cv_tail v < i" using "1.prems"(1) by auto
    have u: "unat (i - 1) = unat i - 1" using lt by (rule unat_pred_greater)
    have b: "cv_tail v \<le> i - 1" "i - 1 < cv_head v" "w \<or> cv_current v \<le> i - 1"
      using lt u False "1.prems"(2,5) order.not_eq_order_implies_strict [of "cv_current v" i]
      by (auto simp: word_le_nat_alt word_less_nat_alt unat_eq_iff [symmetric])
    have eq: "windowAllocationLoop v w i c n = windowAllocationLoop v w (i - 1) ?c (n + ?len)"
      using False by (subst windowAllocationLoop.simps) (auto simp: Let_def)
    have "fst (windowAllocationLoop v w (i - 1) ?c (n + ?len)) =
        ?c + sum_lengths (items_between v (cv_current v) i) \<and>
      (w \<longrightarrow> snd (windowAllocationLoop v w (i - 1) ?c (n + ?len)) =
        n + ?len + sum_lengths (items_between v (cv_tail v) i))"
      using "1.IH" [OF refl refl refl] False b "1.prems"(3,4) by simp
    moreover have "\<not> cv_current v \<le> i \<Longrightarrow> items_between v (cv_current v) i = []"
      by (intro items_between_Nil) auto
    ultimately show ?thesis unfolding eq using "1.prems"(1) by (auto simp: cnt bet)
  qed
qed

lemma sum_lengths_unat:
  assumes "length its \<le> 2 ^ 32"
  shows "unat (sum_lengths its) = sum_list (map (\<lambda>it. unat (vi_length it)) its)"
proof -
  have len: "unat (vi_length it) < 2 ^ 32" for it using unsigned_less [of "vi_length it"] by simp
  have "unat (sum_lengths its) = sum_list (map (\<lambda>it. unat (vi_length it)) its) \<and>
      sum_list (map (\<lambda>it. unat (vi_length it)) its) \<le> length its * (2 ^ 32 - 1)"
    using assms
  proof (induction its rule: rev_induct)
    case Nil
    then show ?case by simp
  next
    case (snoc x xs)
    then have IH: "unat (sum_lengths xs) = sum_list (map (\<lambda>it. unat (vi_length it)) xs)"
      "sum_list (map (\<lambda>it. unat (vi_length it)) xs) \<le> length xs * (2 ^ 32 - 1)"
      and l: "length xs < 2 ^ 32" by auto
    have "unat (sum_lengths xs) + unat (vi_length x) < 2 ^ 64"
      using IH l len [of x] by simp
    then show ?case using IH len [of x] by (simp add: unat_word_ariths unat_ucast_up)
  qed
  then show ?thesis by simp
qed

text \<open>\<open>contentViewGetWindowAllocationSize\<close> returns the exact sum of the lengths of the
  pending items, and of all items when the second pointer is given; the sums do not wrap.\<close>

theorem contentViewGetWindowAllocationSize_correct:
  assumes inv: "view_inv v" and cnt: "unat (cv_itemBufferCount v) < 2 ^ 32"
  shows "\<exists>c w. contentViewGetWindowAllocationSize (Some v) True win =
      (STATUS_SUCCESS, Some c, if win then Some w else None) \<and>
    unat c = sum_list (map (\<lambda>it. unat (vi_length it)) (pending_items v)) \<and>
    unat w = sum_list (map (\<lambda>it. unat (vi_length it)) (view_items v))"
proof -
  let ?c = "sum_lengths (pending_items v)" and ?w = "sum_lengths (view_items v)"
  note ord = view_inv_order [OF inv]
  have le: "cv_tail v \<le> cv_current v" "cv_current v \<le> cv_head v" using inv by (auto simp: view_inv_def)
  have "length (pending_items v) \<le> 2 ^ 32" "length (view_items v) \<le> 2 ^ 32"
    using inv cnt ord by (auto simp: pending_items_def view_items_def length_items_between view_inv_def)
  note sums = sum_lengths_unat [OF this(1)] sum_lengths_unat [OF this(2)]
  have "contentViewGetWindowAllocationSize (Some v) True win =
      (STATUS_SUCCESS, Some ?c, if win then Some ?w else None)"
  proof (cases "cv_head v = cv_tail v \<or> cv_head v = cv_current v \<and> \<not> win")
    case True
    then show ?thesis using le
      by (auto simp: contentViewGetWindowAllocationSize_def Let_def written_def pending_items_def
          view_items_def items_between_Nil)
  next
    case False
    then have lt: "cv_tail v < cv_head v" using ord(1) by (auto simp: order.strict_iff_order)
    note b = find_bounds(2,3) [OF inv lt]
    have "win \<or> cv_current v \<le> cv_head v - 1"
      using False le(2) unat_pred_greater [OF lt]
      by (auto simp: word_le_nat_alt unat_eq_iff [symmetric])
    then show ?thesis
      using windowAllocationLoop_sums [OF b le, of win 0 0] False
      by (auto simp: contentViewGetWindowAllocationSize_def Let_def written_def pending_items_def
          view_items_def split: prod.splits)
  qed
  then show ?thesis using sums by blast
qed

theorem contentViewGetWindowAllocationSize_correct_witness:
  "\<exists>c w. contentViewGetWindowAllocationSize (Some demo3c) True True =
      (STATUS_SUCCESS, Some c, Some w) \<and> unat c = 8 \<and> unat w = 18"
proof -
  have "sum_list (map (\<lambda>it. unat (vi_length it)) (pending_items demo3c)) = 8"
    "sum_list (map (\<lambda>it. unat (vi_length it)) (view_items demo3c)) = 18" by code_simp+
  moreover have "cv_itemBufferCount demo3c = 11" by (simp add: demo3c_def demo3_facts)
  ultimately show ?thesis
    using contentViewGetWindowAllocationSize_correct [OF demo3c_facts(1), of True] by simp
qed

subsection \<open>Behaviours at the edges\<close>

text \<open>C17. The drop-tail policy on a full view whose only item has been consumed: the callback
  is called with the content of the slot after the last item, which holds no live item, and the
  item added by the call is never delivered, because the current index ends up behind it.\<close>

theorem contentViewAddItem_drop_tail_skips:
  assumes inv: "view_inv v" and max: "cv_head v \<noteq> MAX_UINT64" and so: "streaming_only v"
    and pol: "cv_bufferOverflowStrategy v = CONTENT_VIEW_OVERFLOW_POLICY_DROP_TAIL_VIEW_ITEM"
    and full: "contentViewCheckAvailability (Some v) True = (STATUS_SUCCESS, Some False)"
    and len: "len \<noteq> 0" and ts: "vi_timestamp (item_at v (cv_tail v)) \<le> ts"
  shows "\<exists>w. contentViewAddItem (Some v) ts ack dur h off len fl =
      (STATUS_SUCCESS, Some w, notify v (item_at v (cv_head v)) True) \<and>
    view_items w = [new_item v ts ack dur h off len fl] \<and> next_item w = None"
proof -
  have hd: "cv_head v = cv_tail v + 1" "cv_current v = cv_head v"
    using so by (auto simp: streaming_only_def)
  have "cv_tail v \<noteq> MAX_UINT64" using le_not_max [OF view_inv_order(1) [OF inv] max] .
  then have u: "unat (cv_head v) = Suc (unat (cv_tail v))" using hd(1) unat_Suc_not_max by simp
  then have lt: "cv_tail v < cv_head v" by (simp add: word_less_nat_alt)
  have s: "streamed_item v = cv_tail v" using lt hd by (simp add: streamed_item_def)
  have d: "dropTail (cv_tail v) b v =
      (v\<lparr>cv_tail := cv_head v + 1\<rparr>, notify v (item_at v (cv_head v)) True)" for b
    using pol hd by (simp add: dropTail_def notify_def)
  let ?t = "cv_head v + 1"
  have ut: "unat ?t = Suc (unat (cv_head v))" using max by (rule unat_Suc_not_max)
  have adv: "streamed_item v = cv_tail v \<Longrightarrow> cv_head v \<noteq> cv_tail v + 1 \<Longrightarrow> unat (cv_tail v) + 1 < unat ?t"
    using hd by simp
  have pre: "unat (cv_tail v) < unat ?t" "unat ?t \<le> Suc (unat (cv_head v))"
    "cv_tail v < cv_current v" "cv_current v \<le> ?t"
    using u ut lt hd(2) by (auto simp: word_le_nat_alt)
  note r = retain_rewrite [OF inv pre(1,2) adv pre(3,4)]
  let ?u = "retainStreamingItem (cv_tail v) (v\<lparr>cv_tail := ?t\<rparr>)"
  have r': "view_room ?u" "cv_head ?u = cv_head v" "cv_tail ?u = cv_head v" "cv_current ?u = ?t"
    using r by (simp_all add: s)
  have o: "overflow_evict v = (?u, notify v (item_at v (cv_head v)) True)"
    using full by (simp add: overflow_evict_def contentViewTrimTailItems_eq s d)
  have "cv_head v - 1 = cv_tail v" using hd(1) by simp
  then have a: "contentViewAddItem (Some v) ts ack dur h off len fl =
      (STATUS_SUCCESS, Some (appendItem ?u ts ack dur h off len fl), notify v (item_at v (cv_head v)) True)"
    using contentViewAddItem_accept(1) [OF inv max len] ts by (simp add: o)
  have "view_items (appendItem ?u ts ack dur h off len fl) = [new_item v ts ack dur h off len fl]"
    using appendItem_view_items [OF r'(1)] max r'(2,3)
    by (simp add: new_item_def view_items_def [of ?u] items_between_Nil)
  moreover have "next_item (appendItem ?u ts ack dur h off len fl) = None"
    using r'(2-4) by (simp add: next_item_def)
  ultimately show ?thesis using a by blast
qed

definition demo_tail :: RollingContentView where
  "demo_tail = appendItem (the (snd (createContentView 11 5 True 7
     CONTENT_VIEW_OVERFLOW_POLICY_DROP_TAIL_VIEW_ITEM True True))) 10 10 5 91 0 4 2
     \<lparr>cv_current := 1\<rparr>"

lemma demo_tail_create:
  "createContentView 11 5 True 7 CONTENT_VIEW_OVERFLOW_POLICY_DROP_TAIL_VIEW_ITEM True True =
     (STATUS_SUCCESS, Some (the (snd (createContentView 11 5 True 7
        CONTENT_VIEW_OVERFLOW_POLICY_DROP_TAIL_VIEW_ITEM True True))))"
  by (simp add: createContentView_def)

lemma demo_tail_inv: "view_inv demo_tail"
proof -
  let ?v = "the (snd (createContentView 11 5 True 7
     CONTENT_VIEW_OVERFLOW_POLICY_DROP_TAIL_VIEW_ITEM True True))"
  note c = createContentView_inv [OF demo_tail_create]
  have f: "view_inv ?v" "cv_head ?v = 0" "cv_tail ?v = 0" using c by simp_all
  have "cv_itemBufferCount ?v = 11" by (simp add: createContentView_def)
  then have "view_inv (appendItem ?v 10 10 5 91 0 4 2)"
    using f by (intro appendItem_inv_step) simp_all
  then show ?thesis
    unfolding demo_tail_def using f by (intro view_inv_set_current) simp_all
qed

theorem contentViewAddItem_drop_tail_skips_witness:
  "\<exists>w. contentViewAddItem (Some demo_tail) 15 15 5 92 0 4 2 =
      (STATUS_SUCCESS, Some w, [(7, zero_item, True)]) \<and>
    view_items w = [new_item demo_tail 15 15 5 92 0 4 2] \<and> next_item w = None"
proof -
  have "notify demo_tail (item_at demo_tail (cv_head demo_tail)) True = [(7, zero_item, True)]"
    "contentViewCheckAvailability (Some demo_tail) True = (STATUS_SUCCESS, Some False)"
    "vi_timestamp (item_at demo_tail (cv_tail demo_tail)) \<le> 15" "cv_head demo_tail \<noteq> MAX_UINT64"
    "cv_current demo_tail = cv_tail demo_tail + 1" "cv_head demo_tail = cv_tail demo_tail + 1"
    "cv_bufferOverflowStrategy demo_tail = CONTENT_VIEW_OVERFLOW_POLICY_DROP_TAIL_VIEW_ITEM"
    by code_simp+
  then show ?thesis
    using contentViewAddItem_drop_tail_skips [OF demo_tail_inv, where ts = 15 and ack = 15
        and dur = 5 and h = 92 and off = 0 and len = 4 and fl = 2]
    by (simp add: streaming_only_def)
qed

text \<open>
  Rolling back by one time unit from a fully consumed view goes to its very first item: the
  reference timestamp is read from the slot after the last item.
\<close>

lemma rollback_from_head_example:
  "contentViewRollbackCurrent (Some (demo3\<lparr>cv_current := 3\<rparr>)) 1 False False =
     (STATUS_SUCCESS, Some demo3)"
  by code_simp

text \<open>
  The allocation size is truncated to 32 bits: for this item count the view has no slot at
  all behind its structure, while it records the full count.
\<close>

lemma createContentView_truncates:
  "\<exists>v. createContentView 89478486 1 cb cd pol True True = (STATUS_SUCCESS, Some v) \<and>
     cv_itemBuffer v = [] \<and> cv_itemBufferCount v = 89478486"
  by (simp add: createContentView_def contentViewAllocationSize_def)

text \<open>
  Without a callback nothing counts as dropped, so the loop of the fragment policy drops the
  whole view instead of stopping at the next fragment start.
\<close>

lemma dropUntil_no_callback:
  "cv_tail v < cv_head v \<Longrightarrow> \<not> cv_removeCallbackFunc v \<Longrightarrow>
   dropUntilFragmentStart s v b 0 = (v\<lparr>cv_tail := cv_head v\<rparr>, [])"
proof (induction "unat (cv_head v) - unat (cv_tail v)" arbitrary: v rule: less_induct)
  case less
  note inc = word_inc_le [OF less.prems(1)] unat_Suc_less [OF less.prems(1)]
  let ?v = "v\<lparr>cv_tail := cv_tail v + 1\<rparr>"
  show ?case
  proof (cases "cv_tail v + 1 = cv_head v")
    case True
    then show ?thesis
      using less.prems(2) by (subst dropUntilFragmentStart.simps) (simp add: Let_def)
  next
    case False
    then have lt: "cv_tail ?v < cv_head ?v" using inc(1) by (simp add: order.strict_iff_order)
    have "dropUntilFragmentStart s ?v b 0 = (?v\<lparr>cv_tail := cv_head ?v\<rparr>, [])"
      using less.hyps [OF _ lt] less.prems inc(3) by (simp add: word_less_nat_alt)
    then show ?thesis
      using False less.prems(2) by (subst dropUntilFragmentStart.simps) (simp add: Let_def)
  qed
qed

text \<open>The data offset survives its packing into the flags, and so do the low flag bits.\<close>

lemma data_offset_roundtrip:
  "GET_ITEM_DATA_OFFSET (SET_ITEM_DATA_OFFSET f off) = ucast off"
  "SET_ITEM_DATA_OFFSET f off AND 0xffff = f AND 0xffff"
proof -
  have m: "(0xffff :: UINT32) = mask 16" by (simp add: mask_eq_exp_minus_1)
  show "GET_ITEM_DATA_OFFSET (SET_ITEM_DATA_OFFSET f off) = ucast off"
    "SET_ITEM_DATA_OFFSET f off AND 0xffff = f AND 0xffff"
    unfolding m SET_ITEM_DATA_OFFSET_def GET_ITEM_DATA_OFFSET_def
    by (rule bit_word_eqI; auto simp: bit_simps)+
qed

end
