(* ===== verification/StateMachine.thy ===== *)
theory StateMachine
  imports Prelude
begin

text \<open>
  The generic state machine of \<open>src/state\<close>. A machine is driven by a table of states whose
  callbacks work on the object behind \<open>customData\<close>; the object, with the environment its
  callbacks reach, is the type variable \<open>'w\<close>. An execute callback of the library may end with
  a call of \<open>stepStateMachine\<close> on the same machine, whose status it returns: its result carries
  a flag for that call.
\<close>

subsection \<open>States and machines\<close>

record 'w StateMachineState =
  sms_state :: UINT64
  sms_acceptStates :: UINT64
  sms_getNextStateFn :: "('w \<Rightarrow> STATUS \<times> UINT64 \<times> 'w) option"
  sms_executeStateFn :: "(UINT64 \<Rightarrow> 'w \<Rightarrow> STATUS \<times> bool \<times> 'w) option"
  sms_stateTransitionHookFunc :: "('w \<Rightarrow> STATUS \<times> UINT64 option \<times> 'w) option"
  sms_maxLocalStateRetryCount :: UINT32
  sms_status :: STATUS

text \<open>\<open>smi_pCurrentState\<close> is the position of the current state in the table.\<close>

record 'w StateMachineImpl =
  smi_version :: UINT32
  smi_getCurrentTimeFunc :: "'w \<Rightarrow> UINT64 \<times> 'w"
  smi_pCurrentState :: nat
  smi_localStateRetryCount :: UINT32
  smi_stateTransitionWaitTime :: UINT64
  smi_stateCount :: UINT32
  smi_stateMachineName :: string
  smi_states :: "'w StateMachineState list"

abbreviation (input) INFINITE_RETRY_COUNT_SENTINEL :: UINT32 where
  "INFINITE_RETRY_COUNT_SENTINEL \<equiv> 0"
abbreviation (input) STATE_MACHINE_CURRENT_VERSION :: UINT32 where
  "STATE_MACHINE_CURRENT_VERSION \<equiv> 0"
abbreviation (input) MAX_STATE_MACHINE_NAME_LENGTH :: nat where
  "MAX_STATE_MACHINE_NAME_LENGTH \<equiv> 32"

definition current_state :: "'w StateMachineImpl \<Rightarrow> 'w StateMachineState" where
  "current_state m = smi_states m ! smi_pCurrentState m"

subsection \<open>Creation and release\<close>

definition createStateMachine ::
  "'w StateMachineState list option \<Rightarrow> UINT32 \<Rightarrow> ('w \<Rightarrow> UINT64 \<times> 'w) option \<Rightarrow> bool \<Rightarrow> bool
   \<Rightarrow> STATUS \<times> 'w StateMachineImpl option" where
  "createStateMachine pStates stateCount getCurrentTimeFunc ppStateMachine calloc =
     (case (pStates, getCurrentTimeFunc) of
        (Some states, Some tm) \<Rightarrow>
          if \<not> ppStateMachine then (STATUS_NULL_ARG, None)
          else if \<not> stateCount > 0 then (STATUS_INVALID_ARG, None)
          else if \<not> calloc then (STATUS_NOT_ENOUGH_MEMORY, None)
          else (STATUS_SUCCESS, Some
            \<lparr>smi_version = STATE_MACHINE_CURRENT_VERSION, smi_getCurrentTimeFunc = tm,
             smi_pCurrentState = 0, smi_localStateRetryCount = 0,
             smi_stateTransitionWaitTime = 0, smi_stateCount = stateCount,
             smi_stateMachineName = [], smi_states = take (unat stateCount) states\<rparr>)
      | _ \<Rightarrow> (STATUS_NULL_ARG, None))"

definition createStateMachineWithName ::
  "'w StateMachineState list option \<Rightarrow> UINT32 \<Rightarrow> ('w \<Rightarrow> UINT64 \<times> 'w) option \<Rightarrow> string option \<Rightarrow> bool
   \<Rightarrow> bool \<Rightarrow> STATUS \<times> 'w StateMachineImpl option" where
  "createStateMachineWithName pStates stateCount getCurrentTimeFunc pStateMachineName
     ppStateMachine calloc =
     (case pStateMachineName of
        None \<Rightarrow> (STATUS_NULL_ARG, None)
      | Some nm \<Rightarrow>
          if nm = [] then (STATUS_STATE_MACHINE_NAME_LEN_INVALID, None)
          else if \<not> length nm \<le> MAX_STATE_MACHINE_NAME_LENGTH
          then (STATUS_STATE_MACHINE_NAME_LEN_INVALID, None)
          else case createStateMachine pStates stateCount getCurrentTimeFunc ppStateMachine calloc of
            (st, pm) \<Rightarrow>
              if STATUS_FAILED st then (st, pm)
              else case pm of None \<Rightarrow> (STATUS_NULL_ARG, None)
                | Some m \<Rightarrow> (STATUS_SUCCESS,
                    Some (m\<lparr>smi_stateMachineName := take MAX_STATE_MACHINE_NAME_LENGTH nm\<rparr>)))"

fun freeStateMachine :: "'w StateMachineImpl option \<Rightarrow> STATUS \<times> 'w StateMachineImpl option" where
  "freeStateMachine _ = (STATUS_SUCCESS, None)"

subsection \<open>Lookup and acceptance\<close>

text \<open>The search loop: the first table entry from position \<open>i\<close> on with the given state.\<close>

fun findState :: "UINT64 \<Rightarrow> nat \<Rightarrow> 'w StateMachineState list \<Rightarrow> nat option" where
  "findState st i [] = None"
| "findState st i (s # ss) = (if sms_state s = st then Some i else findState st (Suc i) ss)"

fun getStateMachineState ::
  "'w StateMachineImpl option \<Rightarrow> UINT64 \<Rightarrow> bool \<Rightarrow> STATUS \<times> nat option" where
  "getStateMachineState (Some m) st True =
     (case findState st 0 (smi_states m) of
        None \<Rightarrow> (STATUS_STATE_MACHINE_STATE_NOT_FOUND, None)
      | Some i \<Rightarrow> (STATUS_SUCCESS, Some i))"
| "getStateMachineState _ _ _ = (STATUS_NULL_ARG, None)"

fun getStateMachineCurrentState :: "'w StateMachineImpl option \<Rightarrow> bool \<Rightarrow> STATUS \<times> nat option" where
  "getStateMachineCurrentState (Some m) True = (STATUS_SUCCESS, Some (smi_pCurrentState m))"
| "getStateMachineCurrentState _ _ = (STATUS_NULL_ARG, None)"

fun acceptStateMachineState :: "'w StateMachineImpl option \<Rightarrow> UINT64 \<Rightarrow> STATUS" where
  "acceptStateMachineState None _ = STATUS_NULL_ARG"
| "acceptStateMachineState (Some m) requiredStates =
     (if requiredStates AND sms_state (current_state m) = sms_state (current_state m)
      then STATUS_SUCCESS else STATUS_INVALID_STREAM_STATE)"

fun setStateMachineCurrentState ::
  "'w StateMachineImpl option \<Rightarrow> UINT64 \<Rightarrow> STATUS \<times> 'w StateMachineImpl option" where
  "setStateMachineCurrentState None _ = (STATUS_NULL_ARG, None)"
| "setStateMachineCurrentState (Some m) st =
     (case getStateMachineState (Some m) st True of
        (r, Some i) \<Rightarrow> if STATUS_FAILED r then (r, Some m)
                      else (STATUS_SUCCESS, Some (m\<lparr>smi_pCurrentState := i\<rparr>))
      | (r, None) \<Rightarrow> (r, Some m))"

fun resetStateMachineRetryCount ::
  "'w StateMachineImpl option \<Rightarrow> STATUS \<times> 'w StateMachineImpl option" where
  "resetStateMachineRetryCount None = (STATUS_NULL_ARG, None)"
| "resetStateMachineRetryCount (Some m) =
     (STATUS_SUCCESS, Some (m\<lparr>smi_localStateRetryCount := 0, smi_stateTransitionWaitTime := 0\<rparr>))"

fun getStateMachineName :: "'w StateMachineImpl option \<Rightarrow> string option" where
  "getStateMachineName None = None"
| "getStateMachineName (Some m) = Some (smi_stateMachineName m)"

subsection \<open>Stepping\<close>

text \<open>
  The body of \<open>stepStateMachine\<close> up to and including the execute callback. The flag of the
  result says that the callback, as its last action, steps the machine again.
\<close>

definition retryCountAfter ::
  "'w StateMachineImpl \<Rightarrow> 'w StateMachineState \<Rightarrow> UINT32" where
  "retryCountAfter m pState =
     (if sms_state pState \<noteq> sms_state (current_state m) then 0
      else smi_localStateRetryCount m + 1)"

definition runHook :: "'w StateMachineImpl \<Rightarrow> 'w \<Rightarrow> STATUS \<times> UINT64 \<times> 'w" where
  "runHook m w =
     (case sms_stateTransitionHookFunc (current_state m) of
        None \<Rightarrow> (STATUS_SUCCESS, 0, w)
      | Some hook \<Rightarrow> (case hook w of (st, wait, w') \<Rightarrow> (st, case wait of None \<Rightarrow> 0 | Some t \<Rightarrow> t, w')))"

definition enterState ::
  "nat \<Rightarrow> UINT64 \<Rightarrow> 'w StateMachineImpl \<Rightarrow> 'w \<Rightarrow> STATUS \<times> bool \<times> 'w StateMachineImpl \<times> 'w" where
  "enterState i waitTime m w =
     (let m1 = m\<lparr>smi_stateTransitionWaitTime := waitTime, smi_pCurrentState := i\<rparr>
      in case sms_executeStateFn (current_state m1) of
           None \<Rightarrow> (STATUS_SUCCESS, False, m1, w)
         | Some execute \<Rightarrow>
             (case execute waitTime w of (st, again, w') \<Rightarrow> (st, st = STATUS_SUCCESS \<and> again, m1, w')))"

definition stepTransition ::
  "'w StateMachineImpl \<Rightarrow> 'w \<Rightarrow> STATUS \<times> bool \<times> 'w StateMachineImpl \<times> 'w" where
  "stepTransition m w =
     (case sms_getNextStateFn (current_state m) of
        None \<Rightarrow> (STATUS_NULL_ARG, False, m, w)
      | Some getNextState \<Rightarrow>
          (case getNextState w of (st, nextState, w1) \<Rightarrow>
            if STATUS_FAILED st then (st, False, m, w1)
            else case getStateMachineState (Some m) nextState True of
              (st1, None) \<Rightarrow> (st1, False, m, w1)
            | (st1, Some i) \<Rightarrow>
                let pState = smi_states m ! i;
                    acc = acceptStateMachineState (Some m) (sms_acceptStates pState)
                in if STATUS_FAILED acc then (acc, False, m, w1)
                   else
                     let (time, w2) = smi_getCurrentTimeFunc m w1;
                         (st2, wait, w3) = runHook m w2
                     in if STATUS_FAILED st2 then (st2, False, m, w3)
                        else
                          let m1 = m\<lparr>smi_localStateRetryCount := retryCountAfter m pState\<rparr>
                          in if sms_maxLocalStateRetryCount pState \<noteq> INFINITE_RETRY_COUNT_SENTINEL \<and>
                                \<not> smi_localStateRetryCount m1 \<le> sms_maxLocalStateRetryCount pState
                             then (sms_status pState, False, m1, w3)
                             else enterState i (time + wait) m1 w3))"

text \<open>\<open>None\<close> means that the chain of steps does not end.\<close>

partial_function (option) stepLoop ::
  "'w StateMachineImpl \<Rightarrow> 'w \<Rightarrow> (STATUS \<times> 'w StateMachineImpl \<times> 'w) option" where
  "stepLoop m w =
     (case stepTransition m w of (st, again, m', w') \<Rightarrow>
        if again then stepLoop m' w' else Some (st, m', w'))"

fun stepStateMachine ::
  "'w StateMachineImpl option \<Rightarrow> 'w \<Rightarrow> (STATUS \<times> 'w StateMachineImpl option \<times> 'w) option" where
  "stepStateMachine None w = Some (STATUS_NULL_ARG, None, w)"
| "stepStateMachine (Some m) w = map_option (\<lambda>(st, m', w'). (st, Some m', w')) (stepLoop m w)"

fun checkForStateTransition ::
  "'w StateMachineImpl option \<Rightarrow> bool \<Rightarrow> 'w \<Rightarrow> STATUS \<times> bool option \<times> 'w" where
  "checkForStateTransition (Some m) True w =
     (case sms_getNextStateFn (current_state m) of
        None \<Rightarrow> (STATUS_NULL_ARG, None, w)
      | Some getNextState \<Rightarrow>
          (case getNextState w of (st, nextState, w1) \<Rightarrow>
            if STATUS_FAILED st then (st, None, w1)
            else (STATUS_SUCCESS, Some (findState nextState 0 (smi_states m) \<noteq> None \<and>
                    sms_state (current_state m) \<noteq> nextState), w1)))"
| "checkForStateTransition _ _ w = (STATUS_NULL_ARG, None, w)"

subsection \<open>Lookup and one transition\<close>

lemma findState_Some:
  "findState st i ss = Some j \<Longrightarrow> i \<le> j \<and> j - i < length ss \<and> sms_state (ss ! (j - i)) = st"
proof (induction ss arbitrary: i)
  case (Cons s ss)
  show ?case
  proof (cases "sms_state s = st")
    case True
    then show ?thesis using Cons.prems by simp
  next
    case False
    then have "Suc i \<le> j \<and> j - Suc i < length ss \<and> sms_state (ss ! (j - Suc i)) = st"
      using Cons by simp
    then show ?thesis by (auto simp: nth_Cons' Suc_diff_le)
  qed
qed simp

lemma findState_None: "findState st i ss = None \<longleftrightarrow> st \<notin> sms_state ` set ss"
  by (induction ss arbitrary: i) auto

text \<open>
  A transition either leaves the table position alone (an error before the state is entered) or
  enters a state that the current state's callback chose, that accepts the current state and
  whose retry bound is respected.
\<close>

definition observed :: "'w StateMachineImpl \<Rightarrow> 'w \<Rightarrow> 'w set" where
  "observed m w =
     (case sms_getNextStateFn (current_state m) of
        None \<Rightarrow> {w}
      | Some f \<Rightarrow> let w1 = snd (snd (f w))
                 in {w1, snd (snd (runHook m (snd (smi_getCurrentTimeFunc m w1))))})"

lemma retry_count_id [simp]:
  "m\<lparr>smi_localStateRetryCount := smi_localStateRetryCount m\<rparr> = m"
  by (cases m) simp

lemma stepTransition_cases:
  assumes "stepTransition m w = (st, again, m', w')"
  obtains (refused) "\<not> again" "m' = m\<lparr>smi_localStateRetryCount := smi_localStateRetryCount m'\<rparr>"
      "w' \<in> observed m w"
  | (entered) f n w1 i wait w3 where
      "sms_getNextStateFn (current_state m) = Some f" "f w = (STATUS_SUCCESS, n, w1)"
      "findState n 0 (smi_states m) = Some i"
      "sms_acceptStates (smi_states m ! i) AND sms_state (current_state m) = sms_state (current_state m)"
      "runHook m (snd (smi_getCurrentTimeFunc m w1)) = (STATUS_SUCCESS, wait, w3)"
      "sms_maxLocalStateRetryCount (smi_states m ! i) = INFINITE_RETRY_COUNT_SENTINEL \<or>
       retryCountAfter m (smi_states m ! i) \<le> sms_maxLocalStateRetryCount (smi_states m ! i)"
      "enterState i (fst (smi_getCurrentTimeFunc m w1) + wait)
         (m\<lparr>smi_localStateRetryCount := retryCountAfter m (smi_states m ! i)\<rparr>) w3 = (st, again, m', w')"
proof (cases "sms_getNextStateFn (current_state m)")
  case None
  then show thesis using assms refused by (auto simp: stepTransition_def observed_def)
next
  case (Some f)
  obtain r n w1 where f: "f w = (r, n, w1)" by (metis prod_cases3)
  obtain t w2 where t: "smi_getCurrentTimeFunc m w1 = (t, w2)" by fastforce
  obtain r2 wait w3 where h: "runHook m w2 = (r2, wait, w3)" by (metis prod_cases3)
  note eqs = Some f t h
  show thesis
  proof (cases "r = STATUS_SUCCESS \<and> findState n 0 (smi_states m) \<noteq> None")
    case False
    then show thesis using assms refused eqs
      by (auto simp: stepTransition_def observed_def split: option.splits if_splits)
  next
    case True
    then obtain i where i: "findState n 0 (smi_states m) = Some i" by auto
    show thesis
    proof (cases "sms_acceptStates (smi_states m ! i) AND sms_state (current_state m) =
        sms_state (current_state m) \<and> r2 = STATUS_SUCCESS \<and>
        (sms_maxLocalStateRetryCount (smi_states m ! i) = INFINITE_RETRY_COUNT_SENTINEL \<or>
         retryCountAfter m (smi_states m ! i) \<le> sms_maxLocalStateRetryCount (smi_states m ! i))")
      case False
      then show thesis using assms refused eqs True i
        by (auto simp: stepTransition_def observed_def Let_def split: if_splits)
    next
      case c: True
      then show thesis using assms entered [of f n w1 i wait w3] eqs True i
        by (auto simp: stepTransition_def Let_def split: if_splits)
    qed
  qed
qed

lemma enterState_machine:
  "enterState i t m w = (st, again, m', w') \<Longrightarrow>
     m' = m\<lparr>smi_stateTransitionWaitTime := t, smi_pCurrentState := i\<rparr>"
  by (auto simp: enterState_def Let_def split: option.splits prod.splits)

definition machine_wf :: "'w StateMachineImpl \<Rightarrow> bool" where
  "machine_wf m \<longleftrightarrow> smi_pCurrentState m < length (smi_states m)"

lemma stepTransition_wf:
  assumes "machine_wf m" "stepTransition m w = (st, again, m', w')"
  shows "machine_wf m'" "smi_states m' = smi_states m"
    "smi_getCurrentTimeFunc m' = smi_getCurrentTimeFunc m"
proof -
  have "machine_wf m' \<and> smi_states m' = smi_states m \<and>
      smi_getCurrentTimeFunc m' = smi_getCurrentTimeFunc m"
    using assms(2)
  proof (cases rule: stepTransition_cases)
    case refused
    from refused(2) show ?thesis using assms(1)
      by (metis (no_types, lifting) StateMachineImpl.select_convs StateMachineImpl.surjective
          StateMachineImpl.update_convs(4) machine_wf_def)
  next
    case (entered f n w1 i wait w3)
    then show ?thesis using enterState_machine [OF entered(7)] findState_Some [OF entered(3)]
      by (simp add: machine_wf_def)
  qed
  then show "machine_wf m'" "smi_states m' = smi_states m"
    "smi_getCurrentTimeFunc m' = smi_getCurrentTimeFunc m" by simp_all
qed

subsection \<open>Tables whose chains of steps end\<close>

text \<open>
  What a state table must provide so that a call of \<open>stepStateMachine\<close> returns: an invariant
  that transitions keep and a rank that goes down whenever an execute callback steps again.
\<close>

locale stepping_table =
  fixes inv :: "'w StateMachineImpl \<Rightarrow> 'w \<Rightarrow> bool"
    and rank :: "'w StateMachineImpl \<Rightarrow> 'w \<Rightarrow> nat"
  assumes inv_transition: "inv m w \<Longrightarrow> stepTransition m w = (st, again, m', w') \<Longrightarrow> inv m' w'"
    and rank_transition: "inv m w \<Longrightarrow> stepTransition m w = (st, True, m', w') \<Longrightarrow> rank m' w' < rank m w"
begin

lemma step_returns:
  "inv m w \<Longrightarrow> \<exists>st m' w'. stepLoop m w = Some (st, m', w') \<and> inv m' w'"
proof (induction "rank m w" arbitrary: m w rule: less_induct)
  case less
  obtain st again m' w' where t: "stepTransition m w = (st, again, m', w')" by (metis prod_cases4)
  have inv: "inv m' w'" using inv_transition [OF less.prems t] .
  show ?case
  proof (cases again)
    case True
    then have "rank m' w' < rank m w" using rank_transition [OF less.prems] t by simp
    then show ?thesis using less.hyps [OF _ inv] True t by (subst stepLoop.simps) simp
  next
    case False
    then show ?thesis using t inv by (subst stepLoop.simps) simp
  qed
qed

lemma step_returns_ptr:
  "inv m w \<Longrightarrow> \<exists>st m' w'. stepStateMachine (Some m) w = Some (st, Some m', w') \<and> inv m' w'"
  using step_returns by fastforce

end

end
