(* ===== verification/ClientState.thy ===== *)
theory ClientState
  imports StateMachine
begin

text \<open>
  The client's state machine: \<open>ClientState.c\<close>, the authentication integration it calls
  (\<open>AuthIntegration.c\<close>) and the service call results that resume it (\<open>ClientEvent.c\<close>).
  The client object carries the application's callbacks; the state they work on is the type
  variable \<open>'e\<close>. A callback does not change the client object while it runs. The
  \<open>customData\<close> of the machine is the client itself, so the \<open>NULL\<close> checks of the callbacks
  on it hold and are not repeated.
\<close>

subsection \<open>Data\<close>

datatype AUTH_INFO_TYPE = AUTH_INFO_UNDEFINED | AUTH_INFO_TYPE_CERT | AUTH_INFO_TYPE_STS | AUTH_INFO_NONE

type_synonym SERVICE_CALL_RESULT = UINT32

abbreviation (input) SERVICE_CALL_RESULT_NOT_SET :: SERVICE_CALL_RESULT where
  "SERVICE_CALL_RESULT_NOT_SET \<equiv> 0"
abbreviation (input) SERVICE_CALL_RESULT_OK :: SERVICE_CALL_RESULT where
  "SERVICE_CALL_RESULT_OK \<equiv> 200"
abbreviation (input) SERVICE_CALL_AUTH_FAILURE :: SERVICE_CALL_RESULT where
  "SERVICE_CALL_AUTH_FAILURE \<equiv> 10007"
abbreviation (input) MAX_AUTH_LEN :: UINT32 where "MAX_AUTH_LEN \<equiv> 10000"
abbreviation (input) SERVICE_CALL_CONTEXT_CURRENT_VERSION :: UINT32 where
  "SERVICE_CALL_CONTEXT_CURRENT_VERSION \<equiv> 1"
abbreviation (input) MAX_ARN_LEN :: nat where "MAX_ARN_LEN \<equiv> 2048"
abbreviation (input) MAX_DEVICE_FINGERPRINT_LENGTH :: nat where "MAX_DEVICE_FINGERPRINT_LENGTH \<equiv> 32"
abbreviation (input) SERVICE_CALL_MAX_RETRY_COUNT :: UINT32 where "SERVICE_CALL_MAX_RETRY_COUNT \<equiv> 5"
abbreviation (input) MIN_STREAMING_TOKEN_EXPIRATION_DURATION :: UINT64 where
  "MIN_STREAMING_TOKEN_EXPIRATION_DURATION \<equiv> 300000000"

abbreviation (input) CLIENT_STATE_NONE :: UINT64 where "CLIENT_STATE_NONE \<equiv> 0"
abbreviation (input) CLIENT_STATE_NEW :: UINT64 where "CLIENT_STATE_NEW \<equiv> 1"
abbreviation (input) CLIENT_STATE_AUTH :: UINT64 where "CLIENT_STATE_AUTH \<equiv> 2"
abbreviation (input) CLIENT_STATE_PROVISION :: UINT64 where "CLIENT_STATE_PROVISION \<equiv> 4"
abbreviation (input) CLIENT_STATE_GET_TOKEN :: UINT64 where "CLIENT_STATE_GET_TOKEN \<equiv> 8"
abbreviation (input) CLIENT_STATE_CREATE :: UINT64 where "CLIENT_STATE_CREATE \<equiv> 16"
abbreviation (input) CLIENT_STATE_TAG_CLIENT :: UINT64 where "CLIENT_STATE_TAG_CLIENT \<equiv> 32"
abbreviation (input) CLIENT_STATE_READY :: UINT64 where "CLIENT_STATE_READY \<equiv> 64"

record AuthInfo =
  ai_version :: UINT32
  ai_type :: AUTH_INFO_TYPE
  ai_data :: "BYTE list"
  ai_size :: UINT32
  ai_expiration :: UINT64

datatype PAuthInfo = NULL_AuthInfo | tokenAuthInfo_ptr | certAuthInfo_ptr | streamingAuthInfo_ptr

record ServiceCallContext =
  scc_version :: UINT32
  scc_callAfter :: UINT64
  scc_timeout :: UINT64
  scc_pAuthInfo :: PAuthInfo
  scc_connectionTimeout :: UINT64

record 'e ClientCallbacks =
  cb_getCurrentTimeFn :: "'e \<Rightarrow> UINT64 \<times> 'e"
  cb_getRandomNumberFn :: "'e \<Rightarrow> UINT32 \<times> 'e"
  cb_getSecurityTokenFn :: "('e \<Rightarrow> STATUS \<times> (BYTE list option \<times> UINT32 \<times> UINT64) \<times> 'e) option"
  cb_getDeviceCertificateFn :: "('e \<Rightarrow> STATUS \<times> (BYTE list option \<times> UINT32 \<times> UINT64) \<times> 'e) option"
  cb_getDeviceFingerprintFn :: "('e \<Rightarrow> STATUS \<times> string option \<times> 'e) option"
  cb_deviceCertToTokenFn :: "(string \<Rightarrow> ServiceCallContext \<Rightarrow> 'e \<Rightarrow> STATUS \<times> 'e) option"
  cb_createDeviceFn :: "string \<Rightarrow> ServiceCallContext \<Rightarrow> 'e \<Rightarrow> STATUS \<times> 'e"
  cb_broadcastConditionVariableFn :: "'e \<Rightarrow> STATUS \<times> 'e"
  cb_clientReadyFn :: "'e \<Rightarrow> STATUS \<times> 'e"
  cb_executeRetryStrategyFn :: "('e \<Rightarrow> UINT64 \<times> 'e) option"

text \<open>
  The fields of \<open>KinesisVideoClient\<close> and its \<open>base\<close> that this code uses. \<open>kvc_lock\<close>
  counts the acquisitions of the recursive client lock that have not been released.
\<close>

record 'e KinesisVideoClient =
  kvc_arn :: string
  kvc_serviceCallContext :: ServiceCallContext
  kvc_result :: SERVICE_CALL_RESULT
  kvc_lock :: nat
  kvc_name :: string
  kvc_tagCount :: UINT32
  kvc_tags :: bool
  kvc_serviceCallCompletionTimeout :: UINT64
  kvc_serviceCallConnectionTimeout :: UINT64
  kvc_pRetryStrategy :: bool
  kvc_tokenAuthInfo :: AuthInfo
  kvc_certAuthInfo :: AuthInfo
  kvc_clientReady :: bool
  kvc_deviceFingerprint :: string
  kvc_clientCallbacks :: "'e ClientCallbacks"
  kvc_env :: 'e

definition getCurrentTime :: "'e KinesisVideoClient \<Rightarrow> UINT64 \<times> 'e KinesisVideoClient" where
  "getCurrentTime c =
     (case cb_getCurrentTimeFn (kvc_clientCallbacks c) (kvc_env c) of (t, e) \<Rightarrow> (t, c\<lparr>kvc_env := e\<rparr>))"

subsection \<open>Authentication integration\<close>

text \<open>The \<open>MEMCPY\<close> of the authentication bits over the start of the buffer.\<close>

definition storeAuthInfo ::
  "AUTH_INFO_TYPE \<Rightarrow> BYTE list \<Rightarrow> UINT32 \<Rightarrow> UINT64 \<Rightarrow> AuthInfo \<Rightarrow> AuthInfo" where
  "storeAuthInfo ty d sz expiration a =
     a\<lparr>ai_type := ty, ai_version := 0, ai_expiration := expiration, ai_size := sz,
       ai_data := take (unat sz) d @ drop (unat sz) (ai_data a)\<rparr>"

text \<open>
  The two attempts of \<open>getAuthInfo\<close>. The flag of the result is the early return; the last
  component are the values left in the local variables.
\<close>

definition trySecurityToken ::
  "'e KinesisVideoClient \<Rightarrow> STATUS \<times> bool \<times> 'e KinesisVideoClient" where
  "trySecurityToken c =
     (case cb_getSecurityTokenFn (kvc_clientCallbacks c) of
        None \<Rightarrow> (STATUS_SUCCESS, False, c)
      | Some f \<Rightarrow>
          (case f (kvc_env c) of (st, (pAuthData, sz, expiration), e) \<Rightarrow>
            let c1 = c\<lparr>kvc_env := e\<rparr>
            in if STATUS_FAILED st then (st, False, c1)
               else case pAuthData of
                 None \<Rightarrow> (STATUS_SUCCESS, False, c1)
               | Some d \<Rightarrow>
                   if sz = 0 then (STATUS_SUCCESS, False, c1)
                   else if \<not> sz \<le> MAX_AUTH_LEN then (STATUS_INVALID_AUTH_LEN, False, c1)
                   else (STATUS_SUCCESS, True, c1\<lparr>kvc_tokenAuthInfo :=
                     storeAuthInfo AUTH_INFO_TYPE_STS d sz expiration (kvc_tokenAuthInfo c1)\<rparr>)))"

definition tryDeviceCertificate :: "'e KinesisVideoClient \<Rightarrow> STATUS \<times> 'e KinesisVideoClient" where
  "tryDeviceCertificate c =
     (case cb_getDeviceCertificateFn (kvc_clientCallbacks c) of
        None \<Rightarrow> (STATUS_SUCCESS, c)
      | Some f \<Rightarrow>
          (case f (kvc_env c) of (st, (pAuthData, sz, expiration), e) \<Rightarrow>
            let c1 = c\<lparr>kvc_env := e\<rparr>
            in if STATUS_FAILED st then (st, c1)
               else case pAuthData of
                 None \<Rightarrow> (STATUS_SUCCESS, c1)
               | Some d \<Rightarrow>
                   if sz = 0 then (STATUS_SUCCESS, c1)
                   else if \<not> sz \<le> MAX_AUTH_LEN then (STATUS_INVALID_AUTH_LEN, c1)
                   else (STATUS_SUCCESS, c1\<lparr>kvc_certAuthInfo :=
                     storeAuthInfo AUTH_INFO_TYPE_CERT d sz expiration (kvc_certAuthInfo c1)\<rparr>)))"

definition getAuthInfo :: "'e KinesisVideoClient \<Rightarrow> STATUS \<times> 'e KinesisVideoClient" where
  "getAuthInfo c =
     (let (st, c') =
        (case trySecurityToken c of (st, early, c1) \<Rightarrow>
           if STATUS_FAILED st \<or> early then (st, c1) else tryDeviceCertificate c1)
      in (st, c'\<lparr>kvc_result :=
           (if STATUS_FAILED st then SERVICE_CALL_AUTH_FAILURE else SERVICE_CALL_RESULT_OK)\<rparr>))"

definition getCurrentAuthType :: "'e KinesisVideoClient \<Rightarrow> AUTH_INFO_TYPE" where
  "getCurrentAuthType c =
     (if ai_type (kvc_tokenAuthInfo c) \<noteq> AUTH_INFO_UNDEFINED then ai_type (kvc_tokenAuthInfo c)
      else if ai_type (kvc_certAuthInfo c) \<noteq> AUTH_INFO_UNDEFINED then ai_type (kvc_certAuthInfo c)
      else AUTH_INFO_UNDEFINED)"

definition getCurrentAuthExpiration :: "'e KinesisVideoClient \<Rightarrow> UINT64" where
  "getCurrentAuthExpiration c =
     (if ai_type (kvc_tokenAuthInfo c) \<noteq> AUTH_INFO_UNDEFINED then ai_expiration (kvc_tokenAuthInfo c)
      else if ai_type (kvc_certAuthInfo c) \<noteq> AUTH_INFO_UNDEFINED then ai_expiration (kvc_certAuthInfo c)
      else 0)"

text \<open>\<open>createRandomName\<close> of \<open>Client.c\<close>: \<open>maxChars\<close> random digits and capital letters.\<close>

definition randomNameChar :: "UINT32 \<Rightarrow> char" where
  "randomNameChar r =
     (let k = unat (r mod 36) in if k \<le> 9 then char_of (k + 48) else char_of (k + 65 - 10))"

fun createRandomName ::
  "nat \<Rightarrow> ('e \<Rightarrow> UINT32 \<times> 'e) \<Rightarrow> 'e \<Rightarrow> string \<times> 'e" where
  "createRandomName 0 randFn e = ([], e)"
| "createRandomName (Suc n) randFn e =
     (let (r, e1) = randFn e; (s, e2) = createRandomName n randFn e1 in (randomNameChar r # s, e2))"

definition provisionKinesisVideoProducer ::
  "'e KinesisVideoClient \<Rightarrow> STATUS \<times> 'e KinesisVideoClient" where
  "provisionKinesisVideoProducer c =
     (case (case cb_getDeviceFingerprintFn (kvc_clientCallbacks c) of
              None \<Rightarrow> (STATUS_SUCCESS, None, c)
            | Some f \<Rightarrow> (case f (kvc_env c) of (st, fp, e) \<Rightarrow> (st, fp, c\<lparr>kvc_env := e\<rparr>))) of
        (st, pDeviceFingerprint, c1) \<Rightarrow>
          if STATUS_FAILED st then (st, c1)
          else case pDeviceFingerprint of
            Some (ch # chs) \<Rightarrow>
              if \<not> length (ch # chs) \<le> MAX_DEVICE_FINGERPRINT_LENGTH
              then (STATUS_DEVICE_FINGERPRINT_LENGTH, c1)
              else (STATUS_SUCCESS, c1\<lparr>kvc_deviceFingerprint := ch # chs\<rparr>)
          | _ \<Rightarrow>
              (case createRandomName MAX_DEVICE_FINGERPRINT_LENGTH
                      (cb_getRandomNumberFn (kvc_clientCallbacks c1)) (kvc_env c1) of
                 (s, e) \<Rightarrow> (STATUS_SUCCESS, c1\<lparr>kvc_deviceFingerprint := s, kvc_env := e\<rparr>)))"

subsection \<open>State callbacks\<close>

definition defaultClientStateTransitionHook ::
  "'e KinesisVideoClient \<Rightarrow> STATUS \<times> UINT64 option \<times> 'e KinesisVideoClient" where
  "defaultClientStateTransitionHook c =
     (case cb_executeRetryStrategyFn (kvc_clientCallbacks c) of
        None \<Rightarrow> (STATUS_SUCCESS, None, c)
      | Some f \<Rightarrow>
          if \<not> (kvc_result c > SERVICE_CALL_RESULT_OK \<and> kvc_pRetryStrategy c)
          then (STATUS_SUCCESS, None, c)
          else case f (kvc_env c) of (wait, e) \<Rightarrow> (STATUS_SUCCESS, Some wait, c\<lparr>kvc_env := e\<rparr>))"

definition fromNewClientState ::
  "'e KinesisVideoClient \<Rightarrow> STATUS \<times> UINT64 \<times> 'e KinesisVideoClient" where
  "fromNewClientState c = (STATUS_SUCCESS, CLIENT_STATE_AUTH, c)"

definition executeNewClientState ::
  "UINT64 \<Rightarrow> 'e KinesisVideoClient \<Rightarrow> STATUS \<times> bool \<times> 'e KinesisVideoClient" where
  "executeNewClientState time c = (STATUS_SUCCESS, False, c)"

definition fromAuthClientState ::
  "'e KinesisVideoClient \<Rightarrow> STATUS \<times> UINT64 \<times> 'e KinesisVideoClient" where
  "fromAuthClientState c =
     (let ready = (if kvc_clientReady c then CLIENT_STATE_READY else CLIENT_STATE_CREATE)
      in case getCurrentAuthType c of
           AUTH_INFO_UNDEFINED \<Rightarrow>
             if kvc_clientReady c then (STATUS_INVALID_CLIENT_READY_STATE, 0, c)
             else (STATUS_SUCCESS, CLIENT_STATE_PROVISION, c)
         | AUTH_INFO_TYPE_STS \<Rightarrow>
             (case getCurrentTime c of (currentTime, c1) \<Rightarrow>
                if currentTime \<ge> ai_expiration (kvc_tokenAuthInfo c1) \<or>
                   ai_expiration (kvc_tokenAuthInfo c1) - currentTime
                     < MIN_STREAMING_TOKEN_EXPIRATION_DURATION
                then (STATUS_SUCCESS, CLIENT_STATE_AUTH, c1)
                else (STATUS_SUCCESS, ready, c1))
         | AUTH_INFO_NONE \<Rightarrow> (STATUS_SUCCESS, ready, c)
         | AUTH_INFO_TYPE_CERT \<Rightarrow> (STATUS_SUCCESS, CLIENT_STATE_GET_TOKEN, c))"

definition executeAuthClientState ::
  "UINT64 \<Rightarrow> 'e KinesisVideoClient \<Rightarrow> STATUS \<times> bool \<times> 'e KinesisVideoClient" where
  "executeAuthClientState time c = (case getAuthInfo c of (st, c') \<Rightarrow> (st, STATUS_SUCCEEDED st, c'))"

definition fromProvisionClientState ::
  "'e KinesisVideoClient \<Rightarrow> STATUS \<times> UINT64 \<times> 'e KinesisVideoClient" where
  "fromProvisionClientState c =
     (STATUS_SUCCESS,
      (case getCurrentAuthType c of
         AUTH_INFO_UNDEFINED \<Rightarrow> CLIENT_STATE_PROVISION
       | AUTH_INFO_NONE \<Rightarrow> CLIENT_STATE_CREATE
       | AUTH_INFO_TYPE_STS \<Rightarrow> CLIENT_STATE_CREATE
       | AUTH_INFO_TYPE_CERT \<Rightarrow> CLIENT_STATE_GET_TOKEN), c)"

definition executeProvisionClientState ::
  "UINT64 \<Rightarrow> 'e KinesisVideoClient \<Rightarrow> STATUS \<times> bool \<times> 'e KinesisVideoClient" where
  "executeProvisionClientState time c =
     (case provisionKinesisVideoProducer c of (st, c') \<Rightarrow> (st, STATUS_SUCCEEDED st, c'))"

definition fromGetTokenClientState ::
  "'e KinesisVideoClient \<Rightarrow> STATUS \<times> UINT64 \<times> 'e KinesisVideoClient" where
  "fromGetTokenClientState c =
     (let authType = getCurrentAuthType c
      in (STATUS_SUCCESS,
          if kvc_result c = SERVICE_CALL_RESULT_OK \<and>
             (authType = AUTH_INFO_TYPE_STS \<or> authType = AUTH_INFO_NONE)
          then if kvc_clientReady c then CLIENT_STATE_READY else CLIENT_STATE_CREATE
          else CLIENT_STATE_GET_TOKEN, c))"

definition prepareServiceCall ::
  "PAuthInfo \<Rightarrow> UINT64 \<Rightarrow> 'e KinesisVideoClient \<Rightarrow> 'e KinesisVideoClient" where
  "prepareServiceCall auth time c =
     c\<lparr>kvc_serviceCallContext :=
        \<lparr>scc_version = SERVICE_CALL_CONTEXT_CURRENT_VERSION, scc_callAfter = time, scc_timeout = kvc_serviceCallCompletionTimeout c,
         scc_pAuthInfo = auth, scc_connectionTimeout = kvc_serviceCallConnectionTimeout c\<rparr>\<rparr>"

definition executeGetTokenClientState ::
  "UINT64 \<Rightarrow> 'e KinesisVideoClient \<Rightarrow> STATUS \<times> bool \<times> 'e KinesisVideoClient" where
  "executeGetTokenClientState time c =
     (let c1 = (prepareServiceCall certAuthInfo_ptr time c)\<lparr>kvc_result := SERVICE_CALL_RESULT_NOT_SET\<rparr>
      in case cb_deviceCertToTokenFn (kvc_clientCallbacks c1) of
           None \<Rightarrow> (STATUS_SERVICE_CALL_CALLBACKS_MISSING, False, c1)
         | Some f \<Rightarrow>
             (case f (kvc_name c1) (kvc_serviceCallContext c1) (kvc_env c1) of
                (st, e) \<Rightarrow> (st, False, c1\<lparr>kvc_env := e\<rparr>)))"

definition fromCreateClientState ::
  "'e KinesisVideoClient \<Rightarrow> STATUS \<times> UINT64 \<times> 'e KinesisVideoClient" where
  "fromCreateClientState c =
     (STATUS_SUCCESS,
      (if kvc_result c = SERVICE_CALL_RESULT_OK
       then if kvc_tagCount c \<noteq> 0 \<and> kvc_tags c then CLIENT_STATE_TAG_CLIENT else CLIENT_STATE_READY
       else CLIENT_STATE_CREATE), c)"

definition executeCreateClientState ::
  "UINT64 \<Rightarrow> 'e KinesisVideoClient \<Rightarrow> STATUS \<times> bool \<times> 'e KinesisVideoClient" where
  "executeCreateClientState time c =
     (let c1 = (prepareServiceCall tokenAuthInfo_ptr time c)\<lparr>kvc_result := SERVICE_CALL_RESULT_NOT_SET\<rparr>
      in case cb_createDeviceFn (kvc_clientCallbacks c1) (kvc_name c1) (kvc_serviceCallContext c1)
                (kvc_env c1) of
           (st, e) \<Rightarrow> (st, False, c1\<lparr>kvc_env := e\<rparr>))"

definition fromTagClientState ::
  "'e KinesisVideoClient \<Rightarrow> STATUS \<times> UINT64 \<times> 'e KinesisVideoClient" where
  "fromTagClientState c =
     (STATUS_SUCCESS,
      (if kvc_result c = SERVICE_CALL_RESULT_OK then CLIENT_STATE_READY else CLIENT_STATE_TAG_CLIENT), c)"

definition executeTagClientState ::
  "UINT64 \<Rightarrow> 'e KinesisVideoClient \<Rightarrow> STATUS \<times> bool \<times> 'e KinesisVideoClient" where
  "executeTagClientState time c =
     (STATUS_SUCCESS, True,
      (prepareServiceCall tokenAuthInfo_ptr time c)\<lparr>kvc_result := SERVICE_CALL_RESULT_OK\<rparr>)"

definition fromReadyClientState ::
  "'e KinesisVideoClient \<Rightarrow> STATUS \<times> UINT64 \<times> 'e KinesisVideoClient" where
  "fromReadyClientState c =
     (case getCurrentTime c of (currentTime, c1) \<Rightarrow>
        (STATUS_SUCCESS,
         (if currentTime > getCurrentAuthExpiration c1 then CLIENT_STATE_AUTH else CLIENT_STATE_READY), c1))"

definition executeReadyClientState ::
  "UINT64 \<Rightarrow> 'e KinesisVideoClient \<Rightarrow> STATUS \<times> bool \<times> 'e KinesisVideoClient" where
  "executeReadyClientState time c =
     (if kvc_clientReady c then (STATUS_SUCCESS, False, c)
      else
        let c1 = c\<lparr>kvc_clientReady := True\<rparr>
        in case cb_broadcastConditionVariableFn (kvc_clientCallbacks c1) (kvc_env c1) of
             (st, e) \<Rightarrow>
               if STATUS_FAILED st then (st, False, c1\<lparr>kvc_env := e\<rparr>)
               else case cb_clientReadyFn (kvc_clientCallbacks c1) e of
                 (st', e') \<Rightarrow> (st', False, c1\<lparr>kvc_env := e'\<rparr>))"

subsection \<open>The state table\<close>

definition clientState ::
  "UINT64 \<Rightarrow> UINT64 \<Rightarrow> ('e KinesisVideoClient \<Rightarrow> STATUS \<times> UINT64 \<times> 'e KinesisVideoClient)
   \<Rightarrow> (UINT64 \<Rightarrow> 'e KinesisVideoClient \<Rightarrow> STATUS \<times> bool \<times> 'e KinesisVideoClient)
   \<Rightarrow> UINT32 \<Rightarrow> STATUS \<Rightarrow> 'e KinesisVideoClient StateMachineState" where
  "clientState st acc nxt exec retries status =
     \<lparr>sms_state = st, sms_acceptStates = acc, sms_getNextStateFn = Some nxt,
      sms_executeStateFn = Some exec,
      sms_stateTransitionHookFunc = Some defaultClientStateTransitionHook,
      sms_maxLocalStateRetryCount = retries, sms_status = status\<rparr>"

definition CLIENT_STATE_MACHINE_STATES :: "'e KinesisVideoClient StateMachineState list" where
  "CLIENT_STATE_MACHINE_STATES =
     [clientState CLIENT_STATE_NEW (CLIENT_STATE_NONE OR CLIENT_STATE_NEW)
        fromNewClientState executeNewClientState INFINITE_RETRY_COUNT_SENTINEL
        STATUS_INVALID_CLIENT_READY_STATE,
      clientState CLIENT_STATE_AUTH (CLIENT_STATE_READY OR CLIENT_STATE_NEW OR CLIENT_STATE_AUTH)
        fromAuthClientState executeAuthClientState SERVICE_CALL_MAX_RETRY_COUNT
        STATUS_CLIENT_AUTH_CALL_FAILED,
      clientState CLIENT_STATE_GET_TOKEN
        (CLIENT_STATE_AUTH OR CLIENT_STATE_PROVISION OR CLIENT_STATE_GET_TOKEN)
        fromGetTokenClientState executeGetTokenClientState SERVICE_CALL_MAX_RETRY_COUNT
        STATUS_GET_CLIENT_TOKEN_CALL_FAILED,
      clientState CLIENT_STATE_PROVISION (CLIENT_STATE_AUTH OR CLIENT_STATE_PROVISION)
        fromProvisionClientState executeProvisionClientState SERVICE_CALL_MAX_RETRY_COUNT
        STATUS_CLIENT_PROVISION_CALL_FAILED,
      clientState CLIENT_STATE_CREATE
        (CLIENT_STATE_PROVISION OR CLIENT_STATE_GET_TOKEN OR CLIENT_STATE_AUTH OR CLIENT_STATE_CREATE)
        fromCreateClientState executeCreateClientState SERVICE_CALL_MAX_RETRY_COUNT
        STATUS_CREATE_CLIENT_CALL_FAILED,
      clientState CLIENT_STATE_TAG_CLIENT
        (CLIENT_STATE_CREATE OR CLIENT_STATE_TAG_CLIENT OR CLIENT_STATE_READY)
        fromTagClientState executeTagClientState SERVICE_CALL_MAX_RETRY_COUNT
        STATUS_TAG_CLIENT_CALL_FAILED,
      clientState CLIENT_STATE_READY
        (CLIENT_STATE_GET_TOKEN OR CLIENT_STATE_AUTH OR CLIENT_STATE_TAG_CLIENT OR
         CLIENT_STATE_CREATE OR CLIENT_STATE_READY)
        fromReadyClientState executeReadyClientState INFINITE_RETRY_COUNT_SENTINEL
        STATUS_CLIENT_READY_CALLBACK_FAILED]"

type_synonym 'e client_machine = "'e KinesisVideoClient StateMachineImpl"

text \<open>The machine as \<open>createKinesisVideoClient\<close> creates it.\<close>

definition createClientStateMachine :: "STATUS \<times> 'e client_machine option" where
  "createClientStateMachine =
     createStateMachineWithName (Some CLIENT_STATE_MACHINE_STATES) 7 (Some getCurrentTime)
       (Some ''CLIENT'') True True"

subsection \<open>Events\<close>

definition lockClient :: "'e KinesisVideoClient \<Rightarrow> 'e KinesisVideoClient" where
  "lockClient c = c\<lparr>kvc_lock := kvc_lock c + 1\<rparr>"

definition unlockClient :: "'e KinesisVideoClient \<Rightarrow> 'e KinesisVideoClient" where
  "unlockClient c = c\<lparr>kvc_lock := kvc_lock c - 1\<rparr>"

definition stepClientStateMachine ::
  "'e client_machine \<Rightarrow> 'e KinesisVideoClient
   \<Rightarrow> (STATUS \<times> 'e client_machine \<times> 'e KinesisVideoClient) option" where
  "stepClientStateMachine m c =
     map_option (\<lambda>(st, m', c'). (st, m', unlockClient c')) (stepLoop m (lockClient c))"

definition serviceCallResultCheck :: "SERVICE_CALL_RESULT \<Rightarrow> STATUS" where
  "serviceCallResultCheck r =
     (if r = 406 then STATUS_SERVICE_CALL_INVALID_ARG_ERROR
      else if r = 10005 then STATUS_SERVICE_CALL_DEVICE_NOT_FOND_ERROR
      else if r = 10004 then STATUS_SERVICE_CALL_DEVICE_NOT_PROVISIONED_ERROR
      else if r = 401 \<or> r = 403 then STATUS_SERVICE_CALL_NOT_AUTHORIZED_ERROR
      else if r = 404 then STATUS_SERVICE_CALL_RESOURCE_NOT_FOUND_ERROR
      else if r = 10003 then STATUS_SERVICE_CALL_RESOURCE_IN_USE_ERROR
      else if r = 408 \<or> r = 504 \<or> r = 598 \<or> r = 599 then STATUS_SERVICE_CALL_TIMEOUT_ERROR
      else if r = 10400 then STATUS_SERVICE_CALL_RESOURCE_DELETED_ERROR
      else if r = 10000 then STATUS_SERVICE_CALL_CLIENT_LIMIT_ERROR
      else if r = 10001 then STATUS_SERVICE_CALL_DEVICE_LIMIT_ERROR
      else if r = 10002 then STATUS_SERVICE_CALL_STREAM_LIMIT_ERROR
      else if r = 10401 \<or> r = SERVICE_CALL_RESULT_OK then STATUS_SUCCESS
      else if r = 4000 then STATUS_ACK_ERR_STREAM_READ_ERROR
      else if r = 4001 then STATUS_ACK_ERR_FRAGMENT_SIZE_REACHED
      else if r = 4002 then STATUS_ACK_ERR_FRAGMENT_DURATION_REACHED
      else if r = 4003 then STATUS_ACK_ERR_CONNECTION_DURATION_REACHED
      else if r = 4004 then STATUS_ACK_ERR_FRAGMENT_TIMECODE_NOT_MONOTONIC
      else if r = 4005 then STATUS_ACK_ERR_MULTI_TRACK_MKV
      else if r = 4006 then STATUS_ACK_ERR_INVALID_MKV_DATA
      else if r = 4007 then STATUS_ACK_ERR_INVALID_PRODUCER_TIMESTAMP
      else if r = 4008 then STATUS_ACK_ERR_STREAM_NOT_ACTIVE
      else if r = 4009 then STATUS_ACK_ERR_FRAGMENT_METADATA_LIMIT_REACHED
      else if r = 4010 then STATUS_ACK_ERR_TRACK_NUMBER_MISMATCH
      else if r = 4011 then STATUS_ACK_ERR_FRAMES_MISSING_FOR_TRACK
      else if r = 4012 then STATUS_ACK_ERR_MORE_THAN_ALLOWED_TRACKS_FOUND
      else if r = 4500 then STATUS_ACK_ERR_KMS_KEY_ACCESS_DENIED
      else if r = 4501 then STATUS_ACK_ERR_KMS_KEY_DISABLED
      else if r = 4502 then STATUS_ACK_ERR_KMS_KEY_VALIDATION_ERROR
      else if r = 4503 then STATUS_ACK_ERR_KMS_KEY_UNAVAILABLE
      else if r = 4504 then STATUS_ACK_ERR_KMS_KEY_INVALID_USAGE
      else if r = 4505 then STATUS_ACK_ERR_KMS_KEY_INVALID_STATE
      else if r = 4506 then STATUS_ACK_ERR_KMS_KEY_NOT_FOUND
      else if r = 4507 then STATUS_ACK_ERR_STREAM_DELETED
      else if r = 5000 then STATUS_ACK_ERR_ACK_INTERNAL_ERROR
      else if r = 5001 then STATUS_ACK_ERR_FRAGMENT_ARCHIVAL_ERROR
      else if r = 7000 then STATUS_ACK_ERR_UNKNOWN_ACK_ERROR
      else STATUS_SERVICE_CALL_UNKOWN_ERROR)"

text \<open>
  The common frame of the three result events: with the lock held, the state the event belongs
  to must accept the current state and the result must be one of those the event tolerates;
  then the event's own update runs and, on its success, the machine is stepped.
\<close>

definition resultEvent ::
  "UINT64 \<Rightarrow> STATUS list \<Rightarrow> SERVICE_CALL_RESULT
   \<Rightarrow> ('e KinesisVideoClient \<Rightarrow> STATUS \<times> 'e KinesisVideoClient)
   \<Rightarrow> 'e client_machine \<Rightarrow> 'e KinesisVideoClient
   \<Rightarrow> (STATUS \<times> 'e client_machine \<times> 'e KinesisVideoClient) option" where
  "resultEvent st tolerated callResult update m c =
     (let c0 = lockClient c; out = (\<lambda>r m c. Some (r, m, unlockClient c))
      in case getStateMachineState (Some m) st True of
           (r, None) \<Rightarrow> out r m c0
         | (r, Some i) \<Rightarrow>
             let acc = acceptStateMachineState (Some m) (sms_acceptStates (smi_states m ! i));
                 chk = serviceCallResultCheck callResult
             in if STATUS_FAILED acc then out acc m c0
                else if \<not> (chk = STATUS_SUCCESS \<or> chk \<in> set tolerated) then out chk m c0
                else case update (c0\<lparr>kvc_result := callResult\<rparr>) of (r', c1) \<Rightarrow>
                  if STATUS_FAILED r' then out r' m c1
                  else map_option (\<lambda>(st, m', c'). (st, m', unlockClient c')) (stepLoop m c1))"

definition storeDeviceArn ::
  "SERVICE_CALL_RESULT \<Rightarrow> string option \<Rightarrow> 'e KinesisVideoClient \<Rightarrow> STATUS \<times> 'e KinesisVideoClient" where
  "storeDeviceArn callResult deviceArn c =
     (if callResult \<noteq> SERVICE_CALL_RESULT_OK then (STATUS_SUCCESS, c)
      else case deviceArn of
        None \<Rightarrow> (STATUS_INVALID_CREATE_DEVICE_RESPONSE, c)
      | Some arn \<Rightarrow>
          if \<not> length arn \<le> MAX_ARN_LEN then (STATUS_INVALID_CREATE_DEVICE_RESPONSE, c)
          else (STATUS_SUCCESS, c\<lparr>kvc_arn := arn\<rparr>))"

definition createDeviceResult ::
  "SERVICE_CALL_RESULT \<Rightarrow> string option \<Rightarrow> 'e client_machine \<Rightarrow> 'e KinesisVideoClient
   \<Rightarrow> (STATUS \<times> 'e client_machine \<times> 'e KinesisVideoClient) option" where
  "createDeviceResult callResult deviceArn =
     resultEvent CLIENT_STATE_CREATE
       [STATUS_SERVICE_CALL_RESOURCE_NOT_FOUND_ERROR, STATUS_SERVICE_CALL_TIMEOUT_ERROR,
        STATUS_SERVICE_CALL_UNKOWN_ERROR]
       callResult (storeDeviceArn callResult deviceArn)"

definition tagClientResult ::
  "SERVICE_CALL_RESULT \<Rightarrow> 'e client_machine \<Rightarrow> 'e KinesisVideoClient
   \<Rightarrow> (STATUS \<times> 'e client_machine \<times> 'e KinesisVideoClient) option" where
  "tagClientResult callResult =
     resultEvent CLIENT_STATE_TAG_CLIENT
       [STATUS_SERVICE_CALL_TIMEOUT_ERROR, STATUS_SERVICE_CALL_UNKOWN_ERROR]
       callResult (\<lambda>c. (STATUS_SUCCESS, c))"

definition storeToken ::
  "SERVICE_CALL_RESULT \<Rightarrow> BYTE list option \<Rightarrow> UINT32 \<Rightarrow> UINT64 \<Rightarrow> 'e KinesisVideoClient
   \<Rightarrow> STATUS \<times> 'e KinesisVideoClient" where
  "storeToken callResult pToken tokenSize expiration c =
     (if callResult \<noteq> SERVICE_CALL_RESULT_OK then (STATUS_SUCCESS, c)
      else if \<not> tokenSize \<le> MAX_AUTH_LEN then (STATUS_INVALID_AUTH_LEN, c)
      else
        let a = (kvc_tokenAuthInfo c)\<lparr>ai_version := 0, ai_expiration := expiration, ai_size := tokenSize\<rparr>
        in (STATUS_SUCCESS, c\<lparr>kvc_tokenAuthInfo :=
             (case pToken of
                None \<Rightarrow> a\<lparr>ai_type := AUTH_INFO_NONE\<rparr>
              | Some d \<Rightarrow>
                  if tokenSize = 0 then a\<lparr>ai_type := AUTH_INFO_NONE\<rparr>
                  else storeAuthInfo AUTH_INFO_TYPE_STS d tokenSize expiration a)\<rparr>))"

definition deviceCertToTokenResult ::
  "SERVICE_CALL_RESULT \<Rightarrow> BYTE list option \<Rightarrow> UINT32 \<Rightarrow> UINT64 \<Rightarrow> 'e client_machine
   \<Rightarrow> 'e KinesisVideoClient \<Rightarrow> (STATUS \<times> 'e client_machine \<times> 'e KinesisVideoClient) option" where
  "deviceCertToTokenResult callResult pToken tokenSize expiration =
     resultEvent CLIENT_STATE_GET_TOKEN
       [STATUS_SERVICE_CALL_TIMEOUT_ERROR, STATUS_SERVICE_CALL_UNKOWN_ERROR]
       callResult (storeToken callResult pToken tokenSize expiration)"

end
