(* ===== verification/ClientProps.thy ===== *)
theory ClientProps
  imports ClientState
begin

text \<open>
  Properties of the client's state machine: every transition its callbacks ask for is one the
  table accepts, every step of the machine returns, and in every state a sequence of steps and
  service results can reach, the client is ready or being created only with an authentication
  token in place.
\<close>

subsection \<open>The table\<close>

lemma client_table:
  "length CLIENT_STATE_MACHINE_STATES = 7"
  "map sms_state CLIENT_STATE_MACHINE_STATES = [1, 2, 8, 4, 16, 32, 64]"
  by (simp_all add: CLIENT_STATE_MACHINE_STATES_def clientState_def)

lemma nat_less_7: "i < (7 :: nat) \<longleftrightarrow> i = 0 \<or> i = 1 \<or> i = 2 \<or> i = 3 \<or> i = 4 \<or> i = 5 \<or> i = 6"
  by auto

lemma client_state_nth:
  "CLIENT_STATE_MACHINE_STATES ! 0 = clientState 1 1 fromNewClientState executeNewClientState 0
     STATUS_INVALID_CLIENT_READY_STATE"
  "CLIENT_STATE_MACHINE_STATES ! Suc 0 = clientState 2 67 fromAuthClientState executeAuthClientState 5
     STATUS_CLIENT_AUTH_CALL_FAILED"
  "CLIENT_STATE_MACHINE_STATES ! 2 = clientState 8 14 fromGetTokenClientState
     executeGetTokenClientState 5 STATUS_GET_CLIENT_TOKEN_CALL_FAILED"
  "CLIENT_STATE_MACHINE_STATES ! 3 = clientState 4 6 fromProvisionClientState
     executeProvisionClientState 5 STATUS_CLIENT_PROVISION_CALL_FAILED"
  "CLIENT_STATE_MACHINE_STATES ! 4 = clientState 16 30 fromCreateClientState
     executeCreateClientState 5 STATUS_CREATE_CLIENT_CALL_FAILED"
  "CLIENT_STATE_MACHINE_STATES ! 5 = clientState 32 112 fromTagClientState
     executeTagClientState 5 STATUS_TAG_CLIENT_CALL_FAILED"
  "CLIENT_STATE_MACHINE_STATES ! 6 = clientState 64 122 fromReadyClientState
     executeReadyClientState 0 STATUS_CLIENT_READY_CALLBACK_FAILED"
  by (simp_all add: CLIENT_STATE_MACHINE_STATES_def)

lemma client_find:
  "findState 1 0 CLIENT_STATE_MACHINE_STATES = Some 0"
  "findState 2 0 CLIENT_STATE_MACHINE_STATES = Some 1"
  "findState 8 0 CLIENT_STATE_MACHINE_STATES = Some 2"
  "findState 4 0 CLIENT_STATE_MACHINE_STATES = Some 3"
  "findState 16 0 CLIENT_STATE_MACHINE_STATES = Some 4"
  "findState 32 0 CLIENT_STATE_MACHINE_STATES = Some 5"
  "findState 64 0 CLIENT_STATE_MACHINE_STATES = Some 6"
  by (simp_all add: CLIENT_STATE_MACHINE_STATES_def clientState_def)

definition client_wf :: "'e client_machine \<Rightarrow> bool" where
  "client_wf m \<longleftrightarrow> smi_states m = CLIENT_STATE_MACHINE_STATES \<and> smi_pCurrentState m < 7 \<and>
     smi_getCurrentTimeFunc m = getCurrentTime"

text \<open>Before a state is entered the callbacks change nothing but the environment.\<close>

definition env_only :: "'e KinesisVideoClient \<Rightarrow> 'e KinesisVideoClient \<Rightarrow> bool" where
  "env_only c c' \<longleftrightarrow> (\<exists>e. c' = c\<lparr>kvc_env := e\<rparr>)"

lemma env_only_refl [simp]: "env_only c c"
  unfolding env_only_def by (rule exI [of _ "kvc_env c"]) (cases c, simp)

lemma env_only_update [simp]: "env_only c (c\<lparr>kvc_env := e\<rparr>)"
  by (auto simp: env_only_def)

lemma env_only_trans: "env_only a b \<Longrightarrow> env_only b c \<Longrightarrow> env_only a c"
  by (auto simp: env_only_def)

lemma getCurrentTime_env: "env_only c (snd (getCurrentTime c))"
  by (auto simp: getCurrentTime_def split: prod.splits)

lemma getCurrentTime_env': "getCurrentTime c = (t, c') \<Longrightarrow> env_only c c'"
  using getCurrentTime_env [of c] by simp

text \<open>The successor state each \<open>from\<close> callback may choose, by table position.\<close>

definition client_next :: "nat \<Rightarrow> 'e KinesisVideoClient \<Rightarrow> nat \<Rightarrow> bool" where
  "client_next i c j \<longleftrightarrow>
     (let ty = getCurrentAuthType c; tok = (ty = AUTH_INFO_TYPE_STS \<or> ty = AUTH_INFO_NONE)
      in i = 0 \<and> j = 1 \<or>
         i = 1 \<and> (j = 1 \<and> ty = AUTH_INFO_TYPE_STS \<or> j = 3 \<and> ty = AUTH_INFO_UNDEFINED \<or>
                  j = 2 \<and> ty = AUTH_INFO_TYPE_CERT \<or>
                  j = (if kvc_clientReady c then 6 else 4) \<and> tok) \<or>
         i = 2 \<and> (j = 2 \<or> j = (if kvc_clientReady c then 6 else 4) \<and> tok) \<or>
         i = 3 \<and> (j = 3 \<and> ty = AUTH_INFO_UNDEFINED \<or> j = 4 \<and> tok \<or> j = 2 \<and> ty = AUTH_INFO_TYPE_CERT) \<or>
         i = 4 \<and> (j = 4 \<and> kvc_result c \<noteq> SERVICE_CALL_RESULT_OK \<or>
                  (j = 5 \<or> j = 6) \<and> kvc_result c = SERVICE_CALL_RESULT_OK) \<or>
         i = 5 \<and> (j = 5 \<and> kvc_result c \<noteq> SERVICE_CALL_RESULT_OK \<or>
                  j = 6 \<and> kvc_result c = SERVICE_CALL_RESULT_OK) \<or>
         i = 6 \<and> (j = 6 \<or> j = 1))"

lemma client_from:
  assumes "i < 7" "sms_getNextStateFn (CLIENT_STATE_MACHINE_STATES ! i) = Some f" "f c = (st, n, c1)"
  shows "env_only c c1 \<and>
    (st = STATUS_SUCCESS \<and> (\<exists>j < 7. findState n 0 CLIENT_STATE_MACHINE_STATES = Some j \<and>
       client_next i c j) \<or>
     st = STATUS_INVALID_CLIENT_READY_STATE \<and> i = 1 \<and> kvc_clientReady c \<and>
       getCurrentAuthType c = AUTH_INFO_UNDEFINED)"
proof -
  consider "i = 0" | "i = 1" | "i = 2" | "i = 3" | "i = 4" | "i = 5" | "i = 6"
    using assms(1) by linarith
  then show ?thesis
  proof cases
    case 1
    then show ?thesis using assms(2,3)
      by (auto simp: client_state_nth clientState_def fromNewClientState_def client_find client_next_def)
  next
    case 2
    then show ?thesis using assms(2,3)
      by (auto simp: client_state_nth clientState_def fromAuthClientState_def client_find
          client_next_def Let_def dest: getCurrentTime_env'
          split: AUTH_INFO_TYPE.splits prod.splits if_splits)
  next
    case 3
    then show ?thesis using assms(2,3)
      by (auto simp: client_state_nth clientState_def fromGetTokenClientState_def client_find
          client_next_def Let_def split: if_splits)
  next
    case 4
    then show ?thesis using assms(2,3)
      by (auto simp: client_state_nth clientState_def fromProvisionClientState_def client_find
          client_next_def Let_def split: AUTH_INFO_TYPE.splits)
  next
    case 5
    then show ?thesis using assms(2,3)
      by (auto simp: client_state_nth clientState_def fromCreateClientState_def client_find
          client_next_def Let_def split: if_splits)
  next
    case 6
    then show ?thesis using assms(2,3)
      by (auto simp: client_state_nth clientState_def fromTagClientState_def client_find
          client_next_def Let_def split: if_splits)
  next
    case 7
    then show ?thesis using assms(2,3)
      by (auto simp: client_state_nth clientState_def fromReadyClientState_def client_find
          client_next_def Let_def dest: getCurrentTime_env' split: prod.splits if_splits)
  qed
qed

lemma client_hook:
  assumes "client_wf m" "runHook m c = (st, t, c')"
  shows "env_only c c' \<and> st = STATUS_SUCCESS"
proof -
  have "sms_stateTransitionHookFunc (current_state m) = Some defaultClientStateTransitionHook"
    using assms(1) unfolding client_wf_def current_state_def nat_less_7
    by (auto simp: client_state_nth clientState_def)
  then show ?thesis using assms(2)
    by (auto simp: runHook_def defaultClientStateTransitionHook_def
        split: option.splits prod.splits if_splits)
qed

lemma client_fn_Some:
  "client_wf m \<Longrightarrow> \<exists>f. sms_getNextStateFn (current_state m) = Some f"
  unfolding client_wf_def current_state_def nat_less_7
  by (auto simp: client_state_nth clientState_def)

text \<open>The table accepts every transition that the callbacks may ask for.\<close>

lemma client_accepts:
  "client_next i c j \<Longrightarrow> i < 7 \<Longrightarrow>
   sms_acceptStates (CLIENT_STATE_MACHINE_STATES ! j) AND sms_state (CLIENT_STATE_MACHINE_STATES ! i) =
     sms_state (CLIENT_STATE_MACHINE_STATES ! i)"
  unfolding client_next_def Let_def
  by (auto simp: client_state_nth clientState_def split: if_splits)

lemma client_transition:
  fixes m :: "'e client_machine"
  assumes wf: "client_wf m" and step: "stepTransition m c = (st, again, m', c')"
  obtains (refused) e n where "\<not> again" "c' = c\<lparr>kvc_env := e\<rparr>"
      "m' = m\<lparr>smi_localStateRetryCount := n\<rparr>"
      "st = STATUS_INVALID_CLIENT_READY_STATE \<and> kvc_clientReady c \<and>
         getCurrentAuthType c = AUTH_INFO_UNDEFINED \<or>
       client_next (smi_pCurrentState m) c (smi_pCurrentState m) \<and>
         st = sms_status (smi_states m ! smi_pCurrentState m) \<and>
         sms_maxLocalStateRetryCount (smi_states m ! smi_pCurrentState m) = 5 \<and>
         smi_localStateRetryCount m + 1 > 5"
  | (entered) j e t a n exec where "client_next (smi_pCurrentState m) c j" "j < 7"
      "sms_executeStateFn (smi_states m ! j) = Some exec"
      "exec t (c\<lparr>kvc_env := e\<rparr>) = (st, a, c')" "again \<longleftrightarrow> st = STATUS_SUCCESS \<and> a"
      "m' = m\<lparr>smi_localStateRetryCount := n, smi_stateTransitionWaitTime := t, smi_pCurrentState := j\<rparr>"
      "n = (if j = smi_pCurrentState m then smi_localStateRetryCount m + 1 else 0)"
      "sms_maxLocalStateRetryCount (smi_states m ! j) = 5 \<longrightarrow> n \<le> 5"
proof -
  let ?T = "CLIENT_STATE_MACHINE_STATES :: 'e KinesisVideoClient StateMachineState list" and ?i = "smi_pCurrentState m"
  have i: "?i < 7" and tab: "smi_states m = ?T" "smi_getCurrentTimeFunc m = getCurrentTime"
    and cur: "current_state m = ?T ! ?i"
    using wf by (auto simp: client_wf_def current_state_def)
  obtain f where f: "sms_getNextStateFn (?T ! ?i) = Some f" using client_fn_Some [OF wf] cur by auto
  obtain r nx c1 where r: "f c = (r, nx, c1)" by (metis prod_cases3)
  obtain t c2 where t: "getCurrentTime c1 = (t, c2)" by fastforce
  obtain r2 wait c3 where h: "runHook m c2 = (r2, wait, c3)" by (metis prod_cases3)
  note fr = client_from [OF i f r]
  have r2: "r2 = STATUS_SUCCESS" and "env_only c2 c3" using client_hook [OF wf h] by auto
  then have "env_only c c3"
    using fr getCurrentTime_env' [OF t] by (meson env_only_trans)
  then obtain e where e: "c3 = c\<lparr>kvc_env := e\<rparr>" by (auto simp: env_only_def)
  obtain e1 where e1: "c1 = c\<lparr>kvc_env := e1\<rparr>" using fr by (auto simp: env_only_def)
  show thesis
  proof (cases "r = STATUS_SUCCESS")
    case False
    then show thesis
      using step refused [of e1 "smi_localStateRetryCount m"] fr r f e1
      by (auto simp: stepTransition_def cur)
  next
    case True
    then obtain j where j: "j < 7" "findState nx 0 ?T = Some j" "client_next ?i c j" using fr by auto
    have acc: "sms_acceptStates (?T ! j) AND sms_state (?T ! ?i) = sms_state (?T ! ?i)"
      by (rule client_accepts [OF j(3) i])
    have same: "sms_state (?T ! j) = sms_state (?T ! ?i) \<longleftrightarrow> j = ?i"
      using i j(1) unfolding nat_less_7 by (auto simp: client_state_nth clientState_def)
    have max: "sms_maxLocalStateRetryCount (?T ! j) = 0 \<or> sms_maxLocalStateRetryCount (?T ! j) = 5"
      and ex: "\<exists>exec. sms_executeStateFn (?T ! j) = Some exec"
      using j(1) unfolding nat_less_7 by (auto simp: client_state_nth clientState_def)
    from ex obtain exec where exec: "sms_executeStateFn (?T ! j) = Some exec" ..
    obtain r3 a c4 where x: "exec (t + wait) c3 = (r3, a, c4)" by (metis prod_cases3)
    let ?n = "retryCountAfter m (?T ! j)"
    have n: "?n = (if j = ?i then smi_localStateRetryCount m + 1 else 0)"
      using same by (simp add: retryCountAfter_def cur)
    show thesis
    proof (cases "sms_maxLocalStateRetryCount (?T ! j) \<noteq> 0 \<and> \<not> ?n \<le> sms_maxLocalStateRetryCount (?T ! j)")
      case over: True
      then have ji: "j = ?i" using n by (auto split: if_splits)
      have "(st, again, m', c') = (sms_status (?T ! j), False, m\<lparr>smi_localStateRetryCount := ?n\<rparr>, c3)"
        using step True over r t h r2 j(2) acc f
        by (simp add: stepTransition_def cur tab Let_def)
      then show thesis
        using refused [of e ?n] e over max ji j(3) n tab by (auto simp: not_le)
    next
      case False
      have "(st, again, m', c') = (r3, r3 = STATUS_SUCCESS \<and> a,
          m\<lparr>smi_localStateRetryCount := ?n, smi_stateTransitionWaitTime := t + wait,
            smi_pCurrentState := j\<rparr>, c4)"
        using step True False r t h r2 j(2) acc f exec x
        by (auto simp: stepTransition_def cur tab enterState_def current_state_def Let_def)
      then have eqs: "st = r3" "again \<longleftrightarrow> r3 = STATUS_SUCCESS \<and> a" "c' = c4"
        "m' = m\<lparr>smi_localStateRetryCount := ?n, smi_stateTransitionWaitTime := t + wait,
            smi_pCurrentState := j\<rparr>" by auto
      have "sms_maxLocalStateRetryCount (?T ! j) = 5 \<longrightarrow> ?n \<le> 5" using False by auto
      then show thesis
        using entered [of j exec "t + wait" e a ?n] j(1,3) exec x e n tab by (simp add: eqs)
    qed
  qed
qed

subsection \<open>The invariant\<close>

text \<open>
  The token slot never holds a certificate; a client that is ready, or that is in one of the
  states behind authentication, has a token; the ready state is only entered with the ready
  flag set.
\<close>

definition client_inv :: "'e client_machine \<Rightarrow> 'e KinesisVideoClient \<Rightarrow> bool" where
  "client_inv m c \<longleftrightarrow> client_wf m \<and>
     ai_type (kvc_tokenAuthInfo c) \<noteq> AUTH_INFO_TYPE_CERT \<and>
     ai_type (kvc_certAuthInfo c) \<in> {AUTH_INFO_UNDEFINED, AUTH_INFO_TYPE_CERT} \<and>
     (kvc_clientReady c \<or> smi_pCurrentState m \<in> {4, 5, 6} \<longrightarrow>
        ai_type (kvc_tokenAuthInfo c) \<noteq> AUTH_INFO_UNDEFINED) \<and>
     (smi_pCurrentState m = 6 \<longrightarrow> kvc_clientReady c)"

text \<open>What the execute callbacks leave alone.\<close>

definition keeps_token :: "'e KinesisVideoClient \<Rightarrow> 'e KinesisVideoClient \<Rightarrow> bool" where
  "keeps_token c c' \<longleftrightarrow>
     (ai_type (kvc_tokenAuthInfo c') = ai_type (kvc_tokenAuthInfo c) \<or>
      ai_type (kvc_tokenAuthInfo c') = AUTH_INFO_TYPE_STS) \<and>
     (ai_type (kvc_certAuthInfo c') = ai_type (kvc_certAuthInfo c) \<or>
      ai_type (kvc_certAuthInfo c') = AUTH_INFO_TYPE_CERT) \<and>
     kvc_clientReady c' = kvc_clientReady c \<and> kvc_lock c' = kvc_lock c"

lemma getAuthInfo_keeps: "getAuthInfo c = (st, c') \<Longrightarrow> keeps_token c c'"
  by (auto simp: getAuthInfo_def trySecurityToken_def tryDeviceCertificate_def Let_def keeps_token_def
      storeAuthInfo_def split: option.splits prod.splits if_splits)

lemma provision_keeps: "provisionKinesisVideoProducer c = (st, c') \<Longrightarrow> keeps_token c c'"
  by (auto simp: provisionKinesisVideoProducer_def keeps_token_def
      split: option.splits prod.splits if_splits list.splits)

lemma client_exec:
  assumes "j < 7" "sms_executeStateFn (CLIENT_STATE_MACHINE_STATES ! j) = Some exec"
    "exec t c = (st, a, c')"
  shows "keeps_token c (c'\<lparr>kvc_clientReady := kvc_clientReady c\<rparr>)"
    "kvc_clientReady c' \<longleftrightarrow> kvc_clientReady c \<or> j = 6"
    "a \<longrightarrow> j = 1 \<or> j = 3 \<or> j = 5 \<and> kvc_result c' = SERVICE_CALL_RESULT_OK"
proof -
  have "keeps_token c (c'\<lparr>kvc_clientReady := kvc_clientReady c\<rparr>) \<and>
    (kvc_clientReady c' \<longleftrightarrow> kvc_clientReady c \<or> j = 6) \<and>
    (a \<longrightarrow> j = 1 \<or> j = 3 \<or> j = 5 \<and> kvc_result c' = SERVICE_CALL_RESULT_OK)"
  proof -
    consider "j = 1" | "j = 3" | "j = 0 \<or> j = 2 \<or> j = 4 \<or> j = 5 \<or> j = 6"
      using assms(1) by linarith
    then show ?thesis
    proof cases
      case 1
      then show ?thesis using assms(2,3)
        by (auto simp: client_state_nth clientState_def executeAuthClientState_def keeps_token_def
            dest!: getAuthInfo_keeps split: prod.splits)
    next
      case 2
      then show ?thesis using assms(2,3)
        by (auto simp: client_state_nth clientState_def executeProvisionClientState_def keeps_token_def
            dest!: provision_keeps split: prod.splits)
    next
      case 3
      then show ?thesis using assms(2,3)
        by (elim disjE) (auto simp: client_state_nth clientState_def executeNewClientState_def
            executeGetTokenClientState_def executeCreateClientState_def executeTagClientState_def
            executeReadyClientState_def prepareServiceCall_def keeps_token_def Let_def
            split: prod.splits option.splits if_splits)
    qed
  qed
  then show "keeps_token c (c'\<lparr>kvc_clientReady := kvc_clientReady c\<rparr>)"
    "kvc_clientReady c' \<longleftrightarrow> kvc_clientReady c \<or> j = 6"
    "a \<longrightarrow> j = 1 \<or> j = 3 \<or> j = 5 \<and> kvc_result c' = SERVICE_CALL_RESULT_OK" by auto
qed

lemma client_next_token:
  assumes inv: "client_inv m c" and nxt: "client_next (smi_pCurrentState m) c j" and j: "j \<in> {4, 5, 6}"
  shows "ai_type (kvc_tokenAuthInfo c) \<noteq> AUTH_INFO_UNDEFINED"
proof -
  have ty: "getCurrentAuthType c = AUTH_INFO_TYPE_STS \<or> getCurrentAuthType c = AUTH_INFO_NONE \<Longrightarrow>
      ai_type (kvc_tokenAuthInfo c) \<noteq> AUTH_INFO_UNDEFINED"
    using inv by (auto simp: client_inv_def getCurrentAuthType_def)
  show ?thesis
  proof (cases "smi_pCurrentState m \<in> {4, 5, 6}")
    case True
    then show ?thesis using inv by (auto simp: client_inv_def)
  next
    case False
    then show ?thesis
      using nxt j ty unfolding client_next_def Let_def by auto
  qed
qed

lemma client_inv_transition:
  assumes inv: "client_inv m c" and step: "stepTransition m c = (st, again, m', c')"
  shows "client_inv m' c'" "kvc_lock c' = kvc_lock c"
proof -
  have wf: "client_wf m" using inv by (simp add: client_inv_def)
  have "client_inv m' c' \<and> kvc_lock c' = kvc_lock c"
    using wf step
  proof (cases rule: client_transition)
    case (refused e n)
    then show ?thesis using inv by (simp add: client_inv_def client_wf_def)
  next
    case (entered j e t a n exec)
    have tab: "smi_states m = CLIENT_STATE_MACHINE_STATES" using wf by (simp add: client_wf_def)
    note x = client_exec [OF entered(2) entered(3) [unfolded tab] entered(4)]
    have tok: "ai_type (kvc_tokenAuthInfo c) \<noteq> AUTH_INFO_UNDEFINED" if "j \<in> {4, 5, 6}"
      using client_next_token [OF inv entered(1) that] .
    have "client_wf m'" using wf entered(2,6) by (simp add: client_wf_def)
    moreover have "smi_pCurrentState m' = j" using entered(6) by simp
    moreover have "kvc_clientReady c \<Longrightarrow> ai_type (kvc_tokenAuthInfo c) \<noteq> AUTH_INFO_UNDEFINED"
      using inv by (simp add: client_inv_def)
    moreover have "ai_type (kvc_tokenAuthInfo c) \<noteq> AUTH_INFO_TYPE_CERT"
      "ai_type (kvc_certAuthInfo c) \<in> {AUTH_INFO_UNDEFINED, AUTH_INFO_TYPE_CERT}"
      using inv by (simp_all add: client_inv_def)
    ultimately show ?thesis
      using x(1,2) tok unfolding client_inv_def keeps_token_def by auto
  qed
  then show "client_inv m' c'" "kvc_lock c' = kvc_lock c" by auto
qed

text \<open>
  The rank of a configuration: the class of its state, then the retries that are left in it.
\<close>

definition client_rank :: "'e client_machine \<Rightarrow> 'e KinesisVideoClient \<Rightarrow> nat" where
  "client_rank m c =
     7 * ([4, 3, 0, 2, 2, 1, 4] ! smi_pCurrentState m) +
     (if smi_localStateRetryCount m \<le> 5 then 5 - unat (smi_localStateRetryCount m) else 6)"

lemma client_rank_transition:
  assumes inv: "client_inv m c" and step: "stepTransition m c = (st, True, m', c')"
  shows "client_rank m' c' < client_rank m c"
proof -
  have wf: "client_wf m" using inv by (simp add: client_inv_def)
  show ?thesis
    using wf step
  proof (cases rule: client_transition)
    case (refused e n)
    then show ?thesis by simp
  next
    case (entered j e t a n exec)
    let ?i = "smi_pCurrentState m" and ?k = "smi_localStateRetryCount m"
    have tab: "smi_states m = CLIENT_STATE_MACHINE_STATES" and i: "?i < 7"
      using wf by (auto simp: client_wf_def)
    have j: "j = 1 \<or> j = 3 \<or> j = 5"
      using client_exec(3) [OF entered(2) entered(3) [unfolded tab] entered(4)] entered(5) by auto
    have n5: "n \<le> 5" using j entered(8) unfolding tab
      by (auto simp: client_state_nth clientState_def)
    show ?thesis
    proof (cases "j = ?i")
      case True
      have "?k \<le> 5 \<Longrightarrow> unat (?k + 1) = Suc (unat ?k)"
        by (rule unat_Suc_less [of _ 6]) (simp add: word_le_nat_alt word_less_nat_alt)
      then show ?thesis
        using True entered(6,7) n5 by (auto simp: client_rank_def word_le_nat_alt)
    next
      case False
      then have "[4, 3, 0, 2, 2, 1, 4] ! j < ([4, 3, 0, 2, 2, 1, 4] ! ?i :: nat)"
        using entered(1) j i unfolding nat_less_7 client_next_def Let_def
        by (auto split: if_splits)
      then show ?thesis
        using entered(6,7) False by (auto simp: client_rank_def)
    qed
  qed
qed

interpretation client_table: stepping_table client_inv client_rank
  by unfold_locales (fact client_inv_transition(1), fact client_rank_transition)

subsection \<open>Stepping the client\<close>

lemma stepLoop_lock:
  "client_inv m c \<Longrightarrow> stepLoop m c = Some (st, m', c') \<Longrightarrow> kvc_lock c' = kvc_lock c"
proof (induction "client_rank m c" arbitrary: m c rule: less_induct)
  case less
  obtain r again m1 c1 where t: "stepTransition m c = (r, again, m1, c1)" by (metis prod_cases4)
  note inv = client_inv_transition [OF less.prems(1) t]
  show ?case
  proof (cases again)
    case True
    then have "stepLoop m1 c1 = Some (st, m', c')"
      using less.prems(2) t by (subst (asm) stepLoop.simps) simp
    then show ?thesis
      using less.hyps [OF _ inv(1)] client_rank_transition [OF less.prems(1)] t True inv(2) by simp
  next
    case False
    then show ?thesis
      using less.prems(2) t inv(2) by (subst (asm) stepLoop.simps) simp
  qed
qed

lemma client_inv_lock [simp]:
  "client_inv m (lockClient c) = client_inv m c" "client_inv m (unlockClient c) = client_inv m c"
  by (simp_all add: client_inv_def lockClient_def unlockClient_def)

lemma step_unlocked:
  assumes "client_inv m c" "0 < kvc_lock c"
  obtains st m' c' where "stepLoop m c = Some (st, m', c')" "client_inv m' c'"
    "kvc_lock (unlockClient c') = kvc_lock c - 1"
  using client_table.step_returns [OF assms(1)] stepLoop_lock [OF assms(1)]
  by (force simp: unlockClient_def)

lemma resultEvent_safe:
  assumes inv: "client_inv m c"
    and upd: "\<And>c0. client_inv m c0 \<Longrightarrow>
      client_inv m (snd (update c0)) \<and> kvc_lock (snd (update c0)) = kvc_lock c0"
  shows "\<exists>st m' c'. resultEvent s tol r update m c = Some (st, m', c') \<and> client_inv m' c' \<and>
    kvc_lock c' = kvc_lock c"
proof -
  let ?c = "(lockClient c)\<lparr>kvc_result := r\<rparr>"
  have base: "client_inv m ?c" "kvc_lock ?c = Suc (kvc_lock c)"
    using inv by (simp_all add: client_inv_def lockClient_def)
  obtain r' c1 where u: "update ?c = (r', c1)" by fastforce
  have c1: "client_inv m c1" "kvc_lock c1 = Suc (kvc_lock c)" using upd [OF base(1)] base(2) u by auto
  obtain st m' c' where st: "stepLoop m c1 = Some (st, m', c')" "client_inv m' c'"
    "kvc_lock (unlockClient c') = kvc_lock c"
    using step_unlocked [OF c1(1)] c1(2) by auto
  have lk: "kvc_lock (unlockClient (lockClient c)) = kvc_lock c"
    by (simp add: lockClient_def unlockClient_def)
  have lk1: "kvc_lock (unlockClient c1) = kvc_lock c" using c1(2) by (simp add: unlockClient_def)
  show ?thesis
    using inv c1(1) st u lk lk1
    by (auto simp: resultEvent_def Let_def split: option.splits)
qed

lemma storeDeviceArn_safe:
  "client_inv m c \<Longrightarrow>
   client_inv m (snd (storeDeviceArn r arn c)) \<and> kvc_lock (snd (storeDeviceArn r arn c)) = kvc_lock c"
  by (auto simp: storeDeviceArn_def client_inv_def split: option.splits)

lemma storeToken_safe:
  "client_inv m c \<Longrightarrow>
   client_inv m (snd (storeToken r tok n ex c)) \<and> kvc_lock (snd (storeToken r tok n ex c)) = kvc_lock c"
  by (auto simp: storeToken_def client_inv_def storeAuthInfo_def Let_def split: option.splits)

subsection \<open>Reachable clients\<close>

text \<open>
  A client as it is after its creation: the machine is in its first state and no
  authentication is stored. From there, the application steps it and reports results.
\<close>

definition client_init :: "'e client_machine \<Rightarrow> 'e KinesisVideoClient \<Rightarrow> bool" where
  "client_init m c \<longleftrightarrow> createClientStateMachine = (STATUS_SUCCESS, Some m) \<and>
     ai_type (kvc_tokenAuthInfo c) = AUTH_INFO_UNDEFINED \<and>
     ai_type (kvc_certAuthInfo c) = AUTH_INFO_UNDEFINED \<and> \<not> kvc_clientReady c"

inductive client_reachable :: "'e client_machine \<Rightarrow> 'e KinesisVideoClient \<Rightarrow> bool" where
  created: "client_init m c \<Longrightarrow> client_reachable m c"
| stepped: "client_reachable m c \<Longrightarrow> stepClientStateMachine m c = Some (st, m', c') \<Longrightarrow>
    client_reachable m' c'"
| device_created: "client_reachable m c \<Longrightarrow> createDeviceResult r arn m c = Some (st, m', c') \<Longrightarrow>
    client_reachable m' c'"
| tagged: "client_reachable m c \<Longrightarrow> tagClientResult r m c = Some (st, m', c') \<Longrightarrow>
    client_reachable m' c'"
| token_received: "client_reachable m c \<Longrightarrow>
    deviceCertToTokenResult r tok n ex m c = Some (st, m', c') \<Longrightarrow> client_reachable m' c'"

lemma client_init_inv: "client_init m c \<Longrightarrow> client_inv m c \<and> smi_pCurrentState m = 0"
  by (auto simp: client_init_def createClientStateMachine_def createStateMachineWithName_def
      createStateMachine_def client_inv_def client_wf_def client_table(1))

lemma stepClient_safe:
  assumes "client_inv m c"
  shows "\<exists>st m' c'. stepClientStateMachine m c = Some (st, m', c') \<and> client_inv m' c' \<and>
    kvc_lock c' = kvc_lock c"
proof -
  have l: "client_inv m (lockClient c)" "kvc_lock (lockClient c) = Suc (kvc_lock c)"
    using assms by (simp, simp add: lockClient_def)
  then obtain st m' c' where s: "stepLoop m (lockClient c) = Some (st, m', c')" "client_inv m' c'"
    "kvc_lock (unlockClient c') = kvc_lock (lockClient c) - 1"
    by (metis step_unlocked zero_less_Suc)
  then show ?thesis using l(2) by (auto simp: stepClientStateMachine_def)
qed

lemma client_events_safe:
  assumes "client_inv m c"
  shows "\<exists>st m' c'. createDeviceResult r arn m c = Some (st, m', c') \<and> client_inv m' c' \<and>
      kvc_lock c' = kvc_lock c"
    "\<exists>st m' c'. tagClientResult r m c = Some (st, m', c') \<and> client_inv m' c' \<and>
      kvc_lock c' = kvc_lock c"
    "\<exists>st m' c'. deviceCertToTokenResult r tok n ex m c = Some (st, m', c') \<and> client_inv m' c' \<and>
      kvc_lock c' = kvc_lock c"
proof -
  show "\<exists>st m' c'. createDeviceResult r arn m c = Some (st, m', c') \<and> client_inv m' c' \<and>
      kvc_lock c' = kvc_lock c"
    unfolding createDeviceResult_def by (rule resultEvent_safe [OF assms storeDeviceArn_safe])
  show "\<exists>st m' c'. tagClientResult r m c = Some (st, m', c') \<and> client_inv m' c' \<and>
      kvc_lock c' = kvc_lock c"
    unfolding tagClientResult_def by (rule resultEvent_safe [OF assms]) simp
  show "\<exists>st m' c'. deviceCertToTokenResult r tok n ex m c = Some (st, m', c') \<and> client_inv m' c' \<and>
      kvc_lock c' = kvc_lock c"
    unfolding deviceCertToTokenResult_def by (rule resultEvent_safe [OF assms storeToken_safe])
qed

lemma client_reachable_inv: "client_reachable m c \<Longrightarrow> client_inv m c"
proof (induction rule: client_reachable.induct)
  case (created m c)
  then show ?case by (simp add: client_init_inv)
next
  case (stepped m c st m' c')
  then show ?case using stepClient_safe [OF stepped.IH] by auto
next
  case (device_created m c r arn st m' c')
  then show ?case using client_events_safe(1) [OF device_created.IH, of r arn] by auto
next
  case (tagged m c r st m' c')
  then show ?case using client_events_safe(2) [OF tagged.IH, of r] by auto
next
  case (token_received m c r tok n ex st m' c')
  then show ?case using client_events_safe(3) [OF token_received.IH, of r tok n ex] by auto
qed

subsection \<open>The properties\<close>

definition demo_callbacks :: "nat ClientCallbacks" where
  "demo_callbacks =
     \<lparr>cb_getCurrentTimeFn = (\<lambda>e. (of_nat e, e + 1)), cb_getRandomNumberFn = (\<lambda>e. (of_nat e, e)),
      cb_getSecurityTokenFn = Some (\<lambda>e. (STATUS_SUCCESS, (Some [1, 2], 2, 400000000), e)),
      cb_getDeviceCertificateFn = None, cb_getDeviceFingerprintFn = None,
      cb_deviceCertToTokenFn = None, cb_createDeviceFn = (\<lambda>nm ctx e. (STATUS_SUCCESS, e)),
      cb_broadcastConditionVariableFn = (\<lambda>e. (STATUS_SUCCESS, e)),
      cb_clientReadyFn = (\<lambda>e. (STATUS_SUCCESS, e)), cb_executeRetryStrategyFn = None\<rparr>"

definition demo_auth :: AuthInfo where
  "demo_auth = \<lparr>ai_version = 0, ai_type = AUTH_INFO_UNDEFINED, ai_data = [], ai_size = 0,
     ai_expiration = 0\<rparr>"

definition demo_client :: "nat ClientCallbacks \<Rightarrow> nat KinesisVideoClient" where
  "demo_client cb =
     \<lparr>kvc_arn = [], kvc_serviceCallContext = \<lparr>scc_version = 0, scc_callAfter = 0, scc_timeout = 0,
        scc_pAuthInfo = NULL_AuthInfo, scc_connectionTimeout = 0\<rparr>,
      kvc_result = SERVICE_CALL_RESULT_NOT_SET, kvc_lock = 0, kvc_name = ''dev'', kvc_tagCount = 0,
      kvc_tags = False, kvc_serviceCallCompletionTimeout = 0, kvc_serviceCallConnectionTimeout = 0,
      kvc_pRetryStrategy = False, kvc_tokenAuthInfo = demo_auth, kvc_certAuthInfo = demo_auth,
      kvc_clientReady = False, kvc_deviceFingerprint = [], kvc_clientCallbacks = cb, kvc_env = 0\<rparr>"

definition demo_machine :: "nat client_machine" where
  "demo_machine = the (snd createClientStateMachine)"

lemma demo_init: "client_init demo_machine (demo_client cb)"
  by (simp add: client_init_def demo_machine_def demo_client_def demo_auth_def
      createClientStateMachine_def createStateMachineWithName_def createStateMachine_def)

lemma demo_machine_fields:
  "smi_states demo_machine = CLIENT_STATE_MACHINE_STATES" "smi_pCurrentState demo_machine = 0"
  "smi_localStateRetryCount demo_machine = 0" "smi_getCurrentTimeFunc demo_machine = getCurrentTime"
  by (simp_all add: demo_machine_def createClientStateMachine_def createStateMachineWithName_def
      createStateMachine_def client_table(1))

lemmas client_eval = stepTransition_def current_state_def client_state_nth clientState_def client_find
  runHook_def defaultClientStateTransitionHook_def getCurrentTime_def demo_client_def demo_callbacks_def
  demo_auth_def enterState_def retryCountAfter_def Let_def demo_machine_fields
  getAuthInfo_def trySecurityToken_def storeAuthInfo_def getCurrentAuthType_def

text \<open>One transition of \<open>stepStateMachine\<close>, for any state table: either the machine stays in
  its state and the call ends, or it enters a state chosen by the current state's callback that
  accepts the current state, with the local retry count reset or incremented and within the
  bound of the entered state, and the wait time is the current time plus the hook's delay.\<close>

theorem stepTransition_sound:
  assumes "machine_wf m" "stepTransition m w = (st, again, m', w')"
  shows "machine_wf m' \<and> smi_states m' = smi_states m \<and>
    (\<not> again \<and> smi_pCurrentState m' = smi_pCurrentState m \<or>
     sms_acceptStates (current_state m') AND sms_state (current_state m) = sms_state (current_state m) \<and>
     smi_localStateRetryCount m' =
       (if sms_state (current_state m') = sms_state (current_state m)
        then smi_localStateRetryCount m + 1 else 0) \<and>
     (sms_maxLocalStateRetryCount (current_state m') = INFINITE_RETRY_COUNT_SENTINEL \<or>
      smi_localStateRetryCount m' \<le> sms_maxLocalStateRetryCount (current_state m')))"
proof -
  note wf = stepTransition_wf [OF assms]
  show ?thesis
    using assms(2)
  proof (cases rule: stepTransition_cases)
    case refused
    have "smi_pCurrentState m' = smi_pCurrentState m" by (subst refused(2)) simp
    then show ?thesis using wf refused(1) by simp
  next
    case (entered f n w1 i wait w3)
    have m': "current_state m' = smi_states m ! i"
      "smi_localStateRetryCount m' = retryCountAfter m (smi_states m ! i)"
      using enterState_machine [OF entered(7)] by (simp_all add: current_state_def)
    then show ?thesis using wf entered(4,6) by (auto simp: retryCountAfter_def)
  qed
qed

theorem stepTransition_sound_witness:
  "\<exists>st m' w'. stepTransition demo_machine (demo_client demo_callbacks) = (st, True, m', w') \<and>
     machine_wf m' \<and> smi_pCurrentState m' = 1"
proof -
  let ?r = "stepTransition demo_machine (demo_client demo_callbacks)"
  have r: "fst (snd ?r)" "smi_pCurrentState (fst (snd (snd ?r))) = 1"
    by (simp_all add: client_eval fromNewClientState_def executeAuthClientState_def)
  have wf: "machine_wf demo_machine"
    by (simp add: machine_wf_def demo_machine_fields client_table(1))
  obtain st again m' w' where eq: "?r = (st, again, m', w')" by (metis prod_cases4)
  have "again" "smi_pCurrentState m' = 1" using r by (simp_all add: eq)
  then show ?thesis using stepTransition_sound [OF wf eq] eq by auto
qed

text \<open>The client's state table is closed: whatever state a \<open>from\<close> callback chooses, the
  table has it and it accepts the current state, so a step never fails for the lack of a
  transition; the callback's only error is a ready client that has lost its authentication.\<close>

theorem client_table_closed:
  fixes c :: "'e KinesisVideoClient"
  assumes "i < 7"
    and "sms_getNextStateFn (CLIENT_STATE_MACHINE_STATES ! i :: 'e KinesisVideoClient StateMachineState) = Some f"
    and "f c = (st, n, c1)"
  shows "st = STATUS_SUCCESS \<and>
      (\<exists>j < 7. findState n 0 (CLIENT_STATE_MACHINE_STATES :: 'e KinesisVideoClient StateMachineState list) = Some j \<and>
         sms_acceptStates (CLIENT_STATE_MACHINE_STATES ! j :: 'e KinesisVideoClient StateMachineState) AND
           sms_state (CLIENT_STATE_MACHINE_STATES ! i :: 'e KinesisVideoClient StateMachineState) =
           sms_state (CLIENT_STATE_MACHINE_STATES ! i :: 'e KinesisVideoClient StateMachineState)) \<or>
    st = STATUS_INVALID_CLIENT_READY_STATE \<and> kvc_clientReady c \<and>
      getCurrentAuthType c = AUTH_INFO_UNDEFINED"
  using client_from [OF assms] client_accepts assms(1) by blast

theorem client_table_closed_witness:
  "\<exists>j < 7. findState 2 0 (CLIENT_STATE_MACHINE_STATES :: nat KinesisVideoClient StateMachineState list) = Some j"
  using client_table_closed [of 0 fromNewClientState "demo_client demo_callbacks" STATUS_SUCCESS 2
      "demo_client demo_callbacks"]
  by (auto simp: client_state_nth clientState_def fromNewClientState_def)

text \<open>C13. Stepping the client returns: the chain of recursive steps is finite whatever the
  application's callbacks answer, the invariant is kept and the client lock is released.\<close>

theorem stepClientStateMachine_returns:
  assumes "client_inv m c"
  shows "\<exists>st m' c'. stepClientStateMachine m c = Some (st, m', c') \<and> client_inv m' c' \<and>
    kvc_lock c' = kvc_lock c"
  by (rule stepClient_safe [OF assms])

theorem stepClientStateMachine_returns_witness:
  "\<exists>st m' c'. stepClientStateMachine demo_machine (demo_client demo_callbacks) = Some (st, m', c') \<and>
     client_inv m' c' \<and> kvc_lock c' = kvc_lock (demo_client demo_callbacks)"
  using stepClientStateMachine_returns client_init_inv [OF demo_init] by blast

text \<open>The service results (device created, tagged, token received) return in every state and
  for every result value, keep the client invariant and release the lock on every path.\<close>

theorem client_result_events_return:
  assumes "client_inv m c"
  shows "(\<exists>st m' c'. createDeviceResult r arn m c = Some (st, m', c') \<and> client_inv m' c' \<and>
      kvc_lock c' = kvc_lock c) \<and>
    (\<exists>st m' c'. tagClientResult r m c = Some (st, m', c') \<and> client_inv m' c' \<and>
      kvc_lock c' = kvc_lock c) \<and>
    (\<exists>st m' c'. deviceCertToTokenResult r tok n ex m c = Some (st, m', c') \<and> client_inv m' c' \<and>
      kvc_lock c' = kvc_lock c)"
  by (intro conjI client_events_safe [OF assms])

theorem client_result_events_return_witness:
  "\<exists>st m' c'. createDeviceResult 200 (Some ''arn'') demo_machine (demo_client demo_callbacks) =
     Some (st, m', c') \<and> client_inv m' c' \<and> kvc_lock c' = kvc_lock (demo_client demo_callbacks)"
  using client_result_events_return [of demo_machine "demo_client demo_callbacks" 200 "Some ''arn''"]
    client_init_inv [OF demo_init [of demo_callbacks]] by blast

text \<open>C5. In every reachable client, the states behind authentication (create, tag, ready) and
  the ready flag come only with a stored token (a security token or the explicit absence of
  authentication), and the ready state only with the ready flag.\<close>

theorem client_ready_authenticated:
  assumes "client_reachable m c"
    and "kvc_clientReady c \<or>
      sms_state (current_state m) \<in> {CLIENT_STATE_CREATE, CLIENT_STATE_TAG_CLIENT, CLIENT_STATE_READY}"
  shows "getCurrentAuthType c \<in> {AUTH_INFO_TYPE_STS, AUTH_INFO_NONE} \<and>
    (sms_state (current_state m) = CLIENT_STATE_READY \<longrightarrow> kvc_clientReady c)"
proof -
  have inv: "client_inv m c" using client_reachable_inv [OF assms(1)] .
  then have i: "smi_pCurrentState m < 7" and t: "smi_states m = CLIENT_STATE_MACHINE_STATES"
    by (auto simp: client_inv_def client_wf_def)
  have s: "sms_state (current_state m) = [1, 2, 8, 4, 16, 32, 64] ! smi_pCurrentState m"
    using i unfolding nat_less_7 by (auto simp: current_state_def t client_state_nth clientState_def)
  have tok: "ai_type (kvc_tokenAuthInfo c) \<noteq> AUTH_INFO_UNDEFINED"
  proof (cases "kvc_clientReady c")
    case True
    then show ?thesis using inv by (simp add: client_inv_def)
  next
    case False
    then have "smi_pCurrentState m \<in> {4, 5, 6}"
      using assms(2) i unfolding s nat_less_7 by auto
    then show ?thesis using inv unfolding client_inv_def by blast
  qed
  have "ai_type (kvc_tokenAuthInfo c) \<noteq> AUTH_INFO_TYPE_CERT" using inv by (simp add: client_inv_def)
  then have "getCurrentAuthType c \<in> {AUTH_INFO_TYPE_STS, AUTH_INFO_NONE}"
    using tok by (cases "ai_type (kvc_tokenAuthInfo c)") (simp_all add: getCurrentAuthType_def)
  moreover have "sms_state (current_state m) = CLIENT_STATE_READY \<Longrightarrow> smi_pCurrentState m = 6"
    using i unfolding s nat_less_7 by auto
  ultimately show ?thesis using inv by (auto simp: client_inv_def)
qed

theorem client_ready_authenticated_witness:
  "\<exists>m (c :: nat KinesisVideoClient). client_reachable m c \<and>
     sms_state (current_state m) = CLIENT_STATE_CREATE \<and>
     getCurrentAuthType c \<in> {AUTH_INFO_TYPE_STS, AUTH_INFO_NONE}"
proof -
  let ?c = "lockClient (demo_client demo_callbacks)"
  let ?m1 = "demo_machine\<lparr>smi_stateTransitionWaitTime := 0, smi_pCurrentState := 1\<rparr>"
  let ?c1 = "?c\<lparr>kvc_env := 1, kvc_result := 200,
    kvc_tokenAuthInfo := storeAuthInfo AUTH_INFO_TYPE_STS [1, 2] 2 400000000 demo_auth\<rparr>"
  have t1: "stepTransition demo_machine ?c = (STATUS_SUCCESS, True, ?m1, ?c1)"
    by (simp add: client_eval fromNewClientState_def executeAuthClientState_def lockClient_def)
  let ?r = "stepTransition ?m1 ?c1"
  have "\<not> (400000000 :: UINT64) \<le> 1" by (simp add: word_le_nat_alt)
  then have t2: "\<not> fst (snd ?r)" "smi_pCurrentState (fst (snd (snd ?r))) = 4"
    by (simp_all add: client_eval fromAuthClientState_def executeCreateClientState_def lockClient_def
        prepareServiceCall_def)
  obtain st again m2 c2 where r: "?r = (st, again, m2, c2)" by (metis prod_cases4)
  have "stepLoop demo_machine ?c = Some (st, m2, c2)"
    using t1 t2(1) r by (subst stepLoop.simps, simp, subst stepLoop.simps) simp
  then have "stepClientStateMachine demo_machine (demo_client demo_callbacks) = Some (st, m2, unlockClient c2)"
    by (simp add: stepClientStateMachine_def)
  then have reach: "client_reachable m2 (unlockClient c2)"
    using client_reachable.stepped [OF client_reachable.created [OF demo_init]] by blast
  have "smi_states m2 = CLIENT_STATE_MACHINE_STATES"
    using client_reachable_inv [OF reach] by (simp add: client_inv_def client_wf_def)
  then have s: "sms_state (current_state m2) = CLIENT_STATE_CREATE"
    using t2(2) r by (simp add: current_state_def client_state_nth clientState_def)
  then show ?thesis using client_ready_authenticated [OF reach] reach by auto
qed

subsection \<open>A client without credentials\<close>

definition no_credentials :: "'e KinesisVideoClient \<Rightarrow> bool" where
  "no_credentials c \<longleftrightarrow>
     ai_type (kvc_tokenAuthInfo c) = AUTH_INFO_UNDEFINED \<and>
     ai_type (kvc_certAuthInfo c) = AUTH_INFO_UNDEFINED \<and> \<not> kvc_clientReady c \<and>
     cb_getSecurityTokenFn (kvc_clientCallbacks c) = None \<and>
     cb_getDeviceCertificateFn (kvc_clientCallbacks c) = None \<and>
     cb_getDeviceFingerprintFn (kvc_clientCallbacks c) = None"

lemma no_credentials_auth:
  assumes "no_credentials c"
  shows "\<exists>c'. executeAuthClientState t (c\<lparr>kvc_env := e\<rparr>) = (STATUS_SUCCESS, True, c') \<and> no_credentials c'"
  using assms
  by (simp add: executeAuthClientState_def getAuthInfo_def trySecurityToken_def
      tryDeviceCertificate_def no_credentials_def)

lemma no_credentials_provision:
  assumes "no_credentials c"
  shows "\<exists>c'. executeProvisionClientState t (c\<lparr>kvc_env := e\<rparr>) = (STATUS_SUCCESS, True, c') \<and>
    no_credentials c'"
proof -
  obtain s e' where "createRandomName MAX_DEVICE_FINGERPRINT_LENGTH
      (cb_getRandomNumberFn (kvc_clientCallbacks c)) e = (s, e')" by fastforce
  then show ?thesis using assms
    by (simp add: executeProvisionClientState_def provisionKinesisVideoProducer_def no_credentials_def)
qed

lemma no_credentials_fails:
  "client_inv m c \<Longrightarrow> no_credentials c \<Longrightarrow> smi_pCurrentState m \<in> {0, 1, 3} \<Longrightarrow>
   \<exists>m' c'. stepLoop m c = Some (STATUS_CLIENT_PROVISION_CALL_FAILED, m', c') \<and>
     smi_pCurrentState m' = 3"
proof (induction "client_rank m c" arbitrary: m c rule: less_induct)
  case less
  let ?i = "smi_pCurrentState m"
  have wf: "client_wf m" and tab: "smi_states m = CLIENT_STATE_MACHINE_STATES"
    using less.prems(1) by (auto simp: client_inv_def client_wf_def)
  have nxt: "client_next ?i c j \<Longrightarrow> ?i = 0 \<and> j = 1 \<or> ?i \<in> {1, 3} \<and> j = 3" for j
    using less.prems(2,3) by (auto simp: client_next_def no_credentials_def getCurrentAuthType_def)
  obtain st again m' c' where t: "stepTransition m c = (st, again, m', c')" by (metis prod_cases4)
  from wf t show ?case
  proof (cases rule: client_transition)
    case (refused e n)
    then have i: "?i = 3" "st = sms_status (smi_states m ! ?i)"
      using nxt [of ?i] less.prems(2) by (auto simp: no_credentials_def)
    then show ?thesis
      using t refused(1,3) by (subst stepLoop.simps) (simp add: tab client_state_nth clientState_def)
  next
    case (entered j e tm a n exec)
    have j: "j = 1 \<or> j = 3" using nxt [OF entered(1)] by auto
    have "st = STATUS_SUCCESS \<and> a \<and> no_credentials c'"
    proof (cases "j = 1")
      case True
      then have "exec = executeAuthClientState"
        using entered(3) unfolding tab by (simp add: client_state_nth clientState_def)
      then show ?thesis using no_credentials_auth [OF less.prems(2), of tm e] entered(4) by auto
    next
      case False
      then have "exec = executeProvisionClientState"
        using j entered(3) unfolding tab by (simp add: client_state_nth clientState_def)
      then show ?thesis using no_credentials_provision [OF less.prems(2), of tm e] entered(4) by auto
    qed
    then have go: "again" "no_credentials c'" using entered(5) by auto
    have "client_rank m' c' < client_rank m c" "client_inv m' c'"
      using client_rank_transition [OF less.prems(1)] client_inv_transition(1) [OF less.prems(1) t] t go(1)
      by auto
    then have "\<exists>m'' c''. stepLoop m' c' = Some (STATUS_CLIENT_PROVISION_CALL_FAILED, m'', c'') \<and>
        smi_pCurrentState m'' = 3"
      using less.hyps go(2) j entered(6) by auto
    then show ?thesis using t go(1) by (subst stepLoop.simps) simp
  qed
qed

text \<open>A new client whose application provides neither a token, nor a certificate, nor a
  fingerprint does not hang: its first step runs the provisioning state until its retries are
  used up and returns the provisioning error, with the machine left in the provisioning state.\<close>

theorem client_without_credentials_fails:
  assumes "client_init m c" "no_credentials c"
  shows "\<exists>m' c'. stepClientStateMachine m c = Some (STATUS_CLIENT_PROVISION_CALL_FAILED, m', c') \<and>
    smi_pCurrentState m' = 3"
proof -
  note i = client_init_inv [OF assms(1)]
  have "no_credentials (lockClient c)" using assms(2) by (simp add: no_credentials_def lockClient_def)
  then show ?thesis
    using no_credentials_fails [of m "lockClient c"] i by (auto simp: stepClientStateMachine_def)
qed

theorem client_without_credentials_fails_witness:
  "\<exists>m' c'. stepClientStateMachine demo_machine
      (demo_client (demo_callbacks\<lparr>cb_getSecurityTokenFn := None\<rparr>)) =
    Some (STATUS_CLIENT_PROVISION_CALL_FAILED, m', c') \<and> smi_pCurrentState m' = 3"
  by (rule client_without_credentials_fails [OF demo_init])
    (simp add: no_credentials_def demo_client_def demo_auth_def demo_callbacks_def)

end
