(* ===== verification/SingleLinkedList.thy ===== *)
theory SingleLinkedList
  imports Prelude "HOL-Library.Monad_Syntax"
begin

text \<open>
  The singly linked list of \<open>SingleLinkedList.c\<close> over an explicit heap of nodes. An address is
  a natural number, \<open>None\<close> is \<open>NULL\<close>, and the heap maps the allocated addresses to their
  nodes. Every operation runs in the option monad: \<open>None\<close> is an access through a dangling
  pointer, or a traversal that does not end. The address that \<open>MEMCALLOC\<close> returns is an
  argument of the operations that allocate (\<open>None\<close> when it fails).
\<close>

subsection \<open>Nodes, lists and the heap\<close>

type_synonym addr = nat

record SingleListNode =
  nd_pNext :: "addr option"
  nd_data :: UINT64

record SingleList =
  sl_count :: UINT32
  sl_pHead :: "addr option"
  sl_pTail :: "addr option"

type_synonym node_heap = "addr \<rightharpoonup> SingleListNode"

definition setNext :: "addr \<Rightarrow> addr option \<Rightarrow> node_heap \<Rightarrow> node_heap option" where
  "setNext a p h = do { n \<leftarrow> h a; Some (h(a \<mapsto> n\<lparr>nd_pNext := p\<rparr>)) }"

definition memFreeNode :: "addr \<Rightarrow> node_heap \<Rightarrow> node_heap option" where
  "memFreeNode a h = do { _ \<leftarrow> h a; Some (h(a := None)) }"

subsection \<open>Internal operations\<close>

definition singleListAllocNode ::
  "addr option \<Rightarrow> UINT64 \<Rightarrow> node_heap \<Rightarrow> STATUS \<times> addr option \<times> node_heap" where
  "singleListAllocNode alloc d h =
     (case alloc of
        None \<Rightarrow> (STATUS_NOT_ENOUGH_MEMORY, None, h)
      | Some a \<Rightarrow> (STATUS_SUCCESS, Some a, h(a \<mapsto> \<lparr>nd_pNext = None, nd_data = d\<rparr>)))"

definition singleListInsertNodeHeadInternal ::
  "SingleList \<Rightarrow> addr \<Rightarrow> node_heap \<Rightarrow> (STATUS \<times> SingleList \<times> node_heap) option" where
  "singleListInsertNodeHeadInternal l a h = do {
     h1 \<leftarrow> setNext a (sl_pHead l) h;
     Some (if sl_pHead l = None \<and> sl_pTail l \<noteq> None then (STATUS_INTERNAL_ERROR, l, h1)
           else
             let l1 = (if sl_pHead l = None then l\<lparr>sl_pTail := Some a\<rparr> else l)
             in (STATUS_SUCCESS, l1\<lparr>sl_pHead := Some a, sl_count := sl_count l1 + 1\<rparr>, h1))
   }"

definition singleListInsertNodeTailInternal ::
  "SingleList \<Rightarrow> addr \<Rightarrow> node_heap \<Rightarrow> (STATUS \<times> SingleList \<times> node_heap) option" where
  "singleListInsertNodeTailInternal l a h = do {
     h1 \<leftarrow> setNext a None h;
     case sl_pTail l of
       Some t \<Rightarrow> do {
         h2 \<leftarrow> setNext t (Some a) h1;
         Some (STATUS_SUCCESS, l\<lparr>sl_pTail := Some a, sl_count := sl_count l + 1\<rparr>, h2)
       }
     | None \<Rightarrow>
         Some (if sl_pHead l \<noteq> None then (STATUS_INTERNAL_ERROR, l, h1)
               else (STATUS_SUCCESS,
                     l\<lparr>sl_pHead := Some a, sl_pTail := Some a, sl_count := sl_count l + 1\<rparr>, h1))
   }"

definition singleListInsertNodeAfterInternal ::
  "SingleList \<Rightarrow> addr \<Rightarrow> addr \<Rightarrow> node_heap \<Rightarrow> (STATUS \<times> SingleList \<times> node_heap) option" where
  "singleListInsertNodeAfterInternal l p a h = do {
     n \<leftarrow> h p;
     h1 \<leftarrow> setNext a (nd_pNext n) h;
     if nd_pNext n = None \<and> sl_pTail l \<noteq> Some p then Some (STATUS_INTERNAL_ERROR, l, h1)
     else do {
       h2 \<leftarrow> setNext p (Some a) h1;
       let l1 = (if nd_pNext n = None then l\<lparr>sl_pTail := Some a\<rparr> else l);
       Some (STATUS_SUCCESS, l1\<lparr>sl_count := sl_count l1 + 1\<rparr>, h2)
     }
   }"

text \<open>The \<open>for\<close> loop of \<open>singleListGetNodeAtInternal\<close>, \<open>k\<close> iterations before its end.\<close>

fun nodeAtLoop :: "nat \<Rightarrow> addr option \<Rightarrow> node_heap \<Rightarrow> (STATUS \<times> addr option) option" where
  "nodeAtLoop 0 p h = Some (STATUS_SUCCESS, p)"
| "nodeAtLoop (Suc k) None h = Some (STATUS_INTERNAL_ERROR, None)"
| "nodeAtLoop (Suc k) (Some a) h = do { n \<leftarrow> h a; nodeAtLoop k (nd_pNext n) h }"

definition singleListGetNodeAtInternal ::
  "SingleList \<Rightarrow> UINT32 \<Rightarrow> node_heap \<Rightarrow> (STATUS \<times> addr option) option" where
  "singleListGetNodeAtInternal l index h = nodeAtLoop (unat index) (sl_pHead l) h"

subsection \<open>Creation, clearing and release\<close>

definition empty_list :: SingleList where
  "empty_list = \<lparr>sl_count = 0, sl_pHead = None, sl_pTail = None\<rparr>"

definition singleListCreate :: "bool \<Rightarrow> bool \<Rightarrow> STATUS \<times> SingleList option" where
  "singleListCreate ppList calloc =
     (if \<not> ppList then (STATUS_NULL_ARG, None)
      else if \<not> calloc then (STATUS_NOT_ENOUGH_MEMORY, None)
      else (STATUS_SUCCESS, Some empty_list))"

text \<open>The freeing loop; the second component are the data pointers that are freed too.\<close>

partial_function (option) clearLoop ::
  "bool \<Rightarrow> addr option \<Rightarrow> node_heap \<Rightarrow> (node_heap \<times> UINT64 list) option" where
  "clearLoop freeData p h =
     (case p of
        None \<Rightarrow> Some (h, [])
      | Some a \<Rightarrow> do {
          n \<leftarrow> h a;
          h1 \<leftarrow> memFreeNode a h;
          (h2, ds) \<leftarrow> clearLoop freeData (nd_pNext n) h1;
          Some (h2, if freeData \<and> nd_data n \<noteq> 0 then nd_data n # ds else ds)
        })"

fun singleListClear ::
  "SingleList option \<Rightarrow> bool \<Rightarrow> node_heap \<Rightarrow> (STATUS \<times> SingleList option \<times> node_heap \<times> UINT64 list) option"
where
  "singleListClear None freeData h = Some (STATUS_NULL_ARG, None, h, [])"
| "singleListClear (Some l) freeData h = do {
     (h1, ds) \<leftarrow> clearLoop freeData (sl_pHead l) h;
     Some (STATUS_SUCCESS, Some (l\<lparr>sl_count := 0, sl_pHead := None, sl_pTail := None\<rparr>), h1, ds)
   }"

fun singleListFree :: "SingleList option \<Rightarrow> node_heap \<Rightarrow> (STATUS \<times> node_heap) option" where
  "singleListFree None h = Some (STATUS_SUCCESS, h)"
| "singleListFree (Some l) h = do {
     (_, _, h1, _) \<leftarrow> singleListClear (Some l) False h;
     Some (STATUS_SUCCESS, h1)
   }"

subsection \<open>Insertion\<close>

fun singleListInsertNodeHead ::
  "SingleList option \<Rightarrow> addr option \<Rightarrow> node_heap \<Rightarrow> (STATUS \<times> SingleList option \<times> node_heap) option" where
  "singleListInsertNodeHead (Some l) (Some a) h = do {
     (st, l1, h1) \<leftarrow> singleListInsertNodeHeadInternal l a h;
     Some (st, Some l1, h1)
   }"
| "singleListInsertNodeHead l p h = Some (STATUS_NULL_ARG, l, h)"

fun singleListInsertItemHead ::
  "addr option \<Rightarrow> SingleList option \<Rightarrow> UINT64 \<Rightarrow> node_heap
   \<Rightarrow> (STATUS \<times> SingleList option \<times> node_heap) option" where
  "singleListInsertItemHead alloc None d h = Some (STATUS_NULL_ARG, None, h)"
| "singleListInsertItemHead alloc (Some l) d h =
     (case singleListAllocNode alloc d h of
        (st, None, h1) \<Rightarrow> Some (st, Some l, h1)
      | (st, Some a, h1) \<Rightarrow> do {
          (st, l1, h2) \<leftarrow> singleListInsertNodeHeadInternal l a h1;
          Some (st, Some l1, h2)
        })"

fun singleListInsertNodeTail ::
  "SingleList option \<Rightarrow> addr option \<Rightarrow> node_heap \<Rightarrow> (STATUS \<times> SingleList option \<times> node_heap) option" where
  "singleListInsertNodeTail (Some l) (Some a) h = do {
     (st, l1, h1) \<leftarrow> singleListInsertNodeTailInternal l a h;
     Some (st, Some l1, h1)
   }"
| "singleListInsertNodeTail l p h = Some (STATUS_NULL_ARG, l, h)"

fun singleListInsertItemTail ::
  "addr option \<Rightarrow> SingleList option \<Rightarrow> UINT64 \<Rightarrow> node_heap
   \<Rightarrow> (STATUS \<times> SingleList option \<times> node_heap) option" where
  "singleListInsertItemTail alloc None d h = Some (STATUS_NULL_ARG, None, h)"
| "singleListInsertItemTail alloc (Some l) d h =
     (case singleListAllocNode alloc d h of
        (st, None, h1) \<Rightarrow> Some (st, Some l, h1)
      | (st, Some a, h1) \<Rightarrow> do {
          (st, l1, h2) \<leftarrow> singleListInsertNodeTailInternal l a h1;
          Some (st, Some l1, h2)
        })"

fun singleListInsertNodeAfter ::
  "SingleList option \<Rightarrow> addr option \<Rightarrow> addr option \<Rightarrow> node_heap
   \<Rightarrow> (STATUS \<times> SingleList option \<times> node_heap) option" where
  "singleListInsertNodeAfter (Some l) (Some p) (Some a) h = do {
     (st, l1, h1) \<leftarrow> singleListInsertNodeAfterInternal l p a h;
     Some (st, Some l1, h1)
   }"
| "singleListInsertNodeAfter l p a h = Some (STATUS_NULL_ARG, l, h)"

fun singleListInsertItemAfter ::
  "addr option \<Rightarrow> SingleList option \<Rightarrow> addr option \<Rightarrow> UINT64 \<Rightarrow> node_heap
   \<Rightarrow> (STATUS \<times> SingleList option \<times> node_heap) option" where
  "singleListInsertItemAfter alloc (Some l) (Some p) d h =
     (case singleListAllocNode alloc d h of
        (st, None, h1) \<Rightarrow> Some (st, Some l, h1)
      | (st, Some a, h1) \<Rightarrow> do {
          (st, l1, h2) \<leftarrow> singleListInsertNodeAfterInternal l p a h1;
          Some (st, Some l1, h2)
        })"
| "singleListInsertItemAfter alloc l p d h = Some (STATUS_NULL_ARG, l, h)"

subsection \<open>Deletion\<close>

fun singleListDeleteHead ::
  "SingleList option \<Rightarrow> node_heap \<Rightarrow> (STATUS \<times> SingleList option \<times> node_heap) option" where
  "singleListDeleteHead None h = Some (STATUS_NULL_ARG, None, h)"
| "singleListDeleteHead (Some l) h =
     (case sl_pHead l of
        None \<Rightarrow> Some (STATUS_SUCCESS, Some l, h)
      | Some a \<Rightarrow> do {
          n \<leftarrow> h a;
          let l1 = l\<lparr>sl_pHead := nd_pNext n\<rparr>;
          let l2 = (if sl_pHead l1 = None then l1\<lparr>sl_pTail := None\<rparr> else l1);
          h1 \<leftarrow> memFreeNode a h;
          Some (STATUS_SUCCESS, Some (l2\<lparr>sl_count := sl_count l2 - 1\<rparr>), h1)
        })"

fun singleListDeleteNextNode ::
  "SingleList option \<Rightarrow> addr option \<Rightarrow> node_heap \<Rightarrow> (STATUS \<times> SingleList option \<times> node_heap) option" where
  "singleListDeleteNextNode (Some l) (Some p) h = do {
     n \<leftarrow> h p;
     case nd_pNext n of
       None \<Rightarrow> Some (if sl_pTail l = Some p then STATUS_SUCCESS else STATUS_INVALID_ARG, Some l, h)
     | Some x \<Rightarrow> do {
         nx \<leftarrow> h x;
         h1 \<leftarrow> setNext p (nd_pNext nx) h;
         if nd_pNext nx = None \<and> sl_pTail l \<noteq> Some x then Some (STATUS_INTERNAL_ERROR, Some l, h1)
         else do {
           let l1 = (if nd_pNext nx = None then l\<lparr>sl_pTail := Some p\<rparr> else l);
           h2 \<leftarrow> memFreeNode x h1;
           Some (STATUS_SUCCESS, Some (l1\<lparr>sl_count := sl_count l1 - 1\<rparr>), h2)
         }
       }
   }"
| "singleListDeleteNextNode l p h = Some (STATUS_NULL_ARG, l, h)"

text \<open>The search for the node before \<open>a\<close>: the node found, if any.\<close>

partial_function (option) findPrevLoop ::
  "addr \<Rightarrow> addr option \<Rightarrow> node_heap \<Rightarrow> addr option option" where
  "findPrevLoop a p h =
     (case p of
        None \<Rightarrow> Some None
      | Some q \<Rightarrow> do { n \<leftarrow> h q; if nd_pNext n = Some a then Some (Some q) else findPrevLoop a (nd_pNext n) h })"

fun singleListDeleteNode ::
  "SingleList option \<Rightarrow> addr option \<Rightarrow> node_heap \<Rightarrow> (STATUS \<times> SingleList option \<times> node_heap) option" where
  "singleListDeleteNode (Some l) (Some a) h =
     (if sl_pHead l = Some a then singleListDeleteHead (Some l) h
      else do {
        r \<leftarrow> findPrevLoop a (sl_pHead l) h;
        case r of None \<Rightarrow> Some (STATUS_SUCCESS, Some l, h)
        | Some q \<Rightarrow> singleListDeleteNextNode (Some l) (Some q) h
      })"
| "singleListDeleteNode l p h = Some (STATUS_NULL_ARG, l, h)"

subsection \<open>Access\<close>

fun singleListGetHeadNode :: "SingleList option \<Rightarrow> bool \<Rightarrow> STATUS \<times> addr option option" where
  "singleListGetHeadNode (Some l) True = (STATUS_SUCCESS, Some (sl_pHead l))"
| "singleListGetHeadNode _ _ = (STATUS_NULL_ARG, None)"

fun singleListGetTailNode :: "SingleList option \<Rightarrow> bool \<Rightarrow> STATUS \<times> addr option option" where
  "singleListGetTailNode (Some l) True = (STATUS_SUCCESS, Some (sl_pTail l))"
| "singleListGetTailNode _ _ = (STATUS_NULL_ARG, None)"

fun singleListGetNodeAt ::
  "SingleList option \<Rightarrow> UINT32 \<Rightarrow> bool \<Rightarrow> node_heap \<Rightarrow> (STATUS \<times> addr option) option" where
  "singleListGetNodeAt (Some l) index True h =
     (if \<not> index < sl_count l then Some (STATUS_INVALID_ARG, None)
      else singleListGetNodeAtInternal l index h)"
| "singleListGetNodeAt _ _ _ h = Some (STATUS_NULL_ARG, None)"

fun singleListGetNodeDataAt ::
  "SingleList option \<Rightarrow> UINT32 \<Rightarrow> bool \<Rightarrow> node_heap \<Rightarrow> (STATUS \<times> UINT64 option) option" where
  "singleListGetNodeDataAt (Some l) index True h =
     (if \<not> index < sl_count l then Some (STATUS_INVALID_ARG, None)
      else do {
        (st, p) \<leftarrow> singleListGetNodeAtInternal l index h;
        if STATUS_FAILED st then Some (st, None)
        else do { a \<leftarrow> p; n \<leftarrow> h a; Some (STATUS_SUCCESS, Some (nd_data n)) }
      })"
| "singleListGetNodeDataAt _ _ _ h = Some (STATUS_NULL_ARG, None)"

fun singleListGetNodeData ::
  "addr option \<Rightarrow> bool \<Rightarrow> node_heap \<Rightarrow> (STATUS \<times> UINT64 option) option" where
  "singleListGetNodeData (Some a) True h = do { n \<leftarrow> h a; Some (STATUS_SUCCESS, Some (nd_data n)) }"
| "singleListGetNodeData _ _ h = Some (STATUS_NULL_ARG, None)"

fun singleListGetNextNode ::
  "addr option \<Rightarrow> bool \<Rightarrow> node_heap \<Rightarrow> (STATUS \<times> addr option option) option" where
  "singleListGetNextNode (Some a) True h = do { n \<leftarrow> h a; Some (STATUS_SUCCESS, Some (nd_pNext n)) }"
| "singleListGetNextNode _ _ h = Some (STATUS_NULL_ARG, None)"

fun singleListGetNodeCount :: "SingleList option \<Rightarrow> bool \<Rightarrow> STATUS \<times> UINT32 option" where
  "singleListGetNodeCount (Some l) True = (STATUS_SUCCESS, Some (sl_count l))"
| "singleListGetNodeCount _ _ = (STATUS_NULL_ARG, None)"

subsection \<open>Concatenation\<close>

text \<open>
  The guard tests \<open>ppListToAppend\<close> twice and never \<open>pDstList\<close>: a \<open>NULL\<close> destination is
  dereferenced, the \<open>None\<close> of the monad. The last component of the result is what the pointer
  to the appended list holds afterwards.
\<close>

fun singleListAppendList ::
  "SingleList option \<Rightarrow> SingleList option option \<Rightarrow> node_heap
   \<Rightarrow> (STATUS \<times> SingleList option \<times> SingleList option option \<times> node_heap) option" where
  "singleListAppendList d None h = Some (STATUS_NULL_ARG, d, None, h)"
| "singleListAppendList d (Some None) h = Some (STATUS_SUCCESS, d, Some None, h)"
| "singleListAppendList None (Some (Some b)) h = None"
| "singleListAppendList (Some l) (Some (Some b)) h =
     (if sl_count l = 0
      then Some (STATUS_SUCCESS,
             Some (l\<lparr>sl_pHead := sl_pHead b, sl_pTail := sl_pTail b,
                     sl_count := sl_count l + sl_count b\<rparr>), Some None, h)
      else if sl_count b \<noteq> 0
      then do {
        t \<leftarrow> sl_pTail l;
        h1 \<leftarrow> setNext t (sl_pHead b) h;
        Some (STATUS_SUCCESS,
          Some (l\<lparr>sl_pTail := sl_pTail b, sl_count := sl_count l + sl_count b\<rparr>), Some None, h1)
      }
      else Some (STATUS_SUCCESS, Some (l\<lparr>sl_count := sl_count l + sl_count b\<rparr>), Some None, h))"

end
