(* ===== verification/LinkedListProps.thy ===== *)
theory LinkedListProps
  imports SingleLinkedList
begin

text \<open>
  The linked list implements a finite sequence: under the representation invariant every
  operation succeeds without touching a dangling pointer and acts on the sequence of stored
  items as its name says.
\<close>

subsection \<open>Chains of nodes\<close>

fun chain :: "node_heap \<Rightarrow> addr option \<Rightarrow> addr list \<Rightarrow> addr option \<Rightarrow> bool" where
  "chain h p [] q \<longleftrightarrow> p = q"
| "chain h p (a # as) q \<longleftrightarrow> p = Some a \<and> (\<exists>n. h a = Some n \<and> chain h (nd_pNext n) as q)"

lemma chain_append:
  "chain h p (as @ bs) q \<longleftrightarrow> (\<exists>r. chain h p as r \<and> chain h r bs q)"
  by (induction as arbitrary: p) auto

lemma chain_upd [simp]: "a \<notin> set as \<Longrightarrow> chain (h(a := x)) p as q = chain h p as q"
  by (induction as arbitrary: p) auto

lemma chain_dom: "chain h p as q \<Longrightarrow> a \<in> set as \<Longrightarrow> \<exists>n. h a = Some n"
  by (induction as arbitrary: p) auto

lemma chain_None: "chain h p as None \<Longrightarrow> p = None \<longleftrightarrow> as = []"
  by (cases as) auto

definition nodes_data :: "node_heap \<Rightarrow> addr list \<Rightarrow> UINT64 list" where
  "nodes_data h as = map (\<lambda>a. nd_data (the (h a))) as"

lemma nodes_data_simps [simp]:
  "nodes_data h [] = []" "nodes_data h (a # as) = nd_data (the (h a)) # nodes_data h as"
  "nodes_data h (as @ bs) = nodes_data h as @ nodes_data h bs"
  "length (nodes_data h as) = length as"
  by (simp_all add: nodes_data_def)

lemma nodes_data_upd [simp]: "a \<notin> set as \<Longrightarrow> nodes_data (h(a := x)) as = nodes_data h as"
  by (simp add: nodes_data_def)

subsection \<open>The representation invariant\<close>

definition list_at :: "node_heap \<Rightarrow> SingleList \<Rightarrow> addr list \<Rightarrow> bool" where
  "list_at h l as \<longleftrightarrow> chain h (sl_pHead l) as None \<and> distinct as \<and>
     sl_pTail l = (if as = [] then None else Some (last as)) \<and>
     unat (sl_count l) = length as"

text \<open>The stored items, read off by following \<open>n\<close> links.\<close>

primrec walk :: "nat \<Rightarrow> addr option \<Rightarrow> node_heap \<Rightarrow> UINT64 list" where
  "walk 0 p h = []"
| "walk (Suc n) p h =
     (case p of None \<Rightarrow> []
      | Some a \<Rightarrow> (case h a of None \<Rightarrow> [] | Some nd \<Rightarrow> nd_data nd # walk n (nd_pNext nd) h))"

definition list_items :: "SingleList \<times> node_heap \<Rightarrow> UINT64 list" where
  "list_items s = walk (unat (sl_count (fst s))) (sl_pHead (fst s)) (snd s)"

definition list_inv :: "SingleList \<times> node_heap \<Rightarrow> bool" where
  "list_inv s \<longleftrightarrow> (\<exists>as. list_at (snd s) (fst s) as)"

lemma walk_chain: "chain h p as None \<Longrightarrow> walk (length as) p h = nodes_data h as"
  by (induction as arbitrary: p) auto

lemma list_items_at: "list_at h l as \<Longrightarrow> list_items (l, h) = nodes_data h as"
  by (simp add: list_items_def list_at_def walk_chain)

lemma list_inv_items:
  assumes "list_inv (l, h)"
  obtains as where "list_at h l as" "list_items (l, h) = nodes_data h as"
  using assms list_items_at by (auto simp: list_inv_def)

lemma list_atI:
  "list_at h l as \<Longrightarrow> list_inv (l, h) \<and> list_items (l, h) = nodes_data h as"
  by (auto simp: list_inv_def list_items_at)

lemma empty_list_at: "list_at h empty_list []"
  by (simp add: list_at_def empty_list_def)

lemma last_split: "as \<noteq> [] \<Longrightarrow> \<exists>bs. as = bs @ [last as]"
  by (metis append_butlast_last_id)

lemma unat_count_Suc: "sl_count l \<noteq> 0xffffffff \<Longrightarrow> unat (sl_count l + 1) = Suc (unat (sl_count l))"
proof -
  assume "sl_count l \<noteq> 0xffffffff"
  then have "1 + sl_count l \<noteq> 0" by (auto simp: add_eq_0_iff)
  then show ?thesis using unatSuc [of "sl_count l"] by (simp add: add.commute)
qed

subsection \<open>Insertion and deletion\<close>

lemma insert_head_at:
  assumes "list_at h l as" "h a = Some n" "a \<notin> set as" "sl_count l \<noteq> 0xffffffff"
  obtains l' h' where "singleListInsertNodeHeadInternal l a h = Some (STATUS_SUCCESS, l', h')"
    "list_at h' l' (a # as)" "nodes_data h' (a # as) = nd_data n # nodes_data h as"
proof
  let ?h = "h(a \<mapsto> n\<lparr>nd_pNext := sl_pHead l\<rparr>)"
  let ?l1 = "if sl_pHead l = None then l\<lparr>sl_pTail := Some a\<rparr> else l"
  let ?l = "?l1\<lparr>sl_pHead := Some a, sl_count := sl_count ?l1 + 1\<rparr>"
  have c: "chain h (sl_pHead l) as None" using assms(1) by (simp add: list_at_def)
  show "singleListInsertNodeHeadInternal l a h = Some (STATUS_SUCCESS, ?l, ?h)"
    using assms chain_None [OF c]
    by (simp add: singleListInsertNodeHeadInternal_def setNext_def list_at_def Let_def)
  show "list_at ?h ?l (a # as)"
    using assms chain_None [OF c] unat_count_Suc [OF assms(4)] by (auto simp: list_at_def)
  show "nodes_data ?h (a # as) = nd_data n # nodes_data h as" using assms(3) by simp
qed

lemma insert_tail_at:
  assumes "list_at h l as" "h a = Some n" "a \<notin> set as" "sl_count l \<noteq> 0xffffffff"
  obtains l' h' where "singleListInsertNodeTailInternal l a h = Some (STATUS_SUCCESS, l', h')"
    "list_at h' l' (as @ [a])" "nodes_data h' (as @ [a]) = nodes_data h as @ [nd_data n]"
proof (cases "as = []")
  case True
  then show thesis
    using assms that [of "l\<lparr>sl_pHead := Some a, sl_pTail := Some a, sl_count := sl_count l + 1\<rparr>"
        "h(a \<mapsto> n\<lparr>nd_pNext := None\<rparr>)"] unat_count_Suc [OF assms(4)]
    by (simp add: singleListInsertNodeTailInternal_def setNext_def list_at_def)
next
  case False
  then obtain bs t where as: "as = bs @ [t]" by (metis last_split)
  then have c: "chain h (sl_pHead l) (bs @ [t]) None" "distinct (bs @ [t])" "sl_pTail l = Some t"
    "unat (sl_count l) = Suc (length bs)"
    using assms(1) by (auto simp: list_at_def)
  then obtain nt where nt: "h t = Some nt" "nd_pNext nt = None" "chain h (sl_pHead l) bs (Some t)"
    by (auto simp: chain_append)
  have ta: "t \<noteq> a" "t \<notin> set bs" "a \<notin> set bs" using assms(3) c(2) as by auto
  let ?h = "h(a \<mapsto> n\<lparr>nd_pNext := None\<rparr>, t \<mapsto> nt\<lparr>nd_pNext := Some a\<rparr>)"
  let ?l = "l\<lparr>sl_pTail := Some a, sl_count := sl_count l + 1\<rparr>"
  have "singleListInsertNodeTailInternal l a h = Some (STATUS_SUCCESS, ?l, ?h)"
    using assms(2) c(3) nt(1) ta(1) by (simp add: singleListInsertNodeTailInternal_def setNext_def)
  moreover have "list_at ?h ?l (as @ [a])"
    using c nt ta unat_count_Suc [OF assms(4)] by (simp add: list_at_def as chain_append)
  moreover have "nodes_data ?h (as @ [a]) = nodes_data h as @ [nd_data n]"
    using ta nt(1) by (simp add: as)
  ultimately show thesis by (rule that)
qed

lemma insert_after_at:
  assumes "list_at h l (bs @ p # cs)" "h a = Some n" "a \<notin> set (bs @ p # cs)" "sl_count l \<noteq> 0xffffffff"
  obtains l' h' where "singleListInsertNodeAfterInternal l p a h = Some (STATUS_SUCCESS, l', h')"
    "list_at h' l' (bs @ p # a # cs)"
    "nodes_data h' (bs @ p # a # cs) = nodes_data h (bs @ [p]) @ nd_data n # nodes_data h cs"
proof -
  obtain np where np: "h p = Some np" "chain h (sl_pHead l) bs (Some p)" "chain h (nd_pNext np) cs None"
    using assms(1) by (auto simp: list_at_def chain_append)
  have d: "distinct (bs @ p # cs)" and tl: "sl_pTail l = Some (last (p # cs))"
    and cnt: "unat (sl_count l) = Suc (length bs + length cs)"
    using assms(1) by (auto simp: list_at_def)
  have nn: "nd_pNext np = None \<longleftrightarrow> cs = []" using chain_None [OF np(3)] .
  have x: "a \<noteq> p" "a \<notin> set bs" "a \<notin> set cs" "p \<notin> set bs" "p \<notin> set cs" using assms(3) d by auto
  let ?h = "h(a \<mapsto> n\<lparr>nd_pNext := nd_pNext np\<rparr>, p \<mapsto> np\<lparr>nd_pNext := Some a\<rparr>)"
  let ?l1 = "if nd_pNext np = None then l\<lparr>sl_pTail := Some a\<rparr> else l"
  let ?l = "?l1\<lparr>sl_count := sl_count ?l1 + 1\<rparr>"
  have "singleListInsertNodeAfterInternal l p a h = Some (STATUS_SUCCESS, ?l, ?h)"
    using np(1) assms(2) x nn tl by (simp add: singleListInsertNodeAfterInternal_def setNext_def Let_def)
  moreover have "list_at ?h ?l (bs @ p # a # cs)"
    using np x d tl cnt nn unat_count_Suc [OF assms(4)] by (auto simp: list_at_def chain_append)
  moreover have "nodes_data ?h (bs @ p # a # cs) = nodes_data h (bs @ [p]) @ nd_data n # nodes_data h cs"
    using x np(1) by simp
  ultimately show thesis by (rule that)
qed

lemma unat_count_pred: "unat (sl_count l) = Suc k \<Longrightarrow> unat (sl_count l - 1) = k"
  using unat_pred_nonzero [of "sl_count l"] by (metis diff_Suc_1 nat.distinct(1) unat_0)

lemma delete_head_at:
  assumes "list_at h l (a # as)"
  obtains l' where "singleListDeleteHead (Some l) h = Some (STATUS_SUCCESS, Some l', h(a := None))"
    "list_at (h(a := None)) l' as"
proof -
  obtain n where n: "sl_pHead l = Some a" "h a = Some n" "chain h (nd_pNext n) as None"
    using assms by (auto simp: list_at_def)
  have d: "a \<notin> set as" "distinct as" "sl_pTail l = Some (last (a # as))"
    "unat (sl_count l - 1) = length as"
    using assms unat_count_pred [of l "length as"] by (auto simp: list_at_def)
  show thesis
    using that n d chain_None [OF n(3)]
    by (auto simp: memFreeNode_def list_at_def Let_def)
qed

lemma delete_next_at:
  assumes "list_at h l (bs @ p # x # cs)"
  obtains l' h' where
    "singleListDeleteNextNode (Some l) (Some p) h = Some (STATUS_SUCCESS, Some l', h')"
    "list_at h' l' (bs @ p # cs)" "nodes_data h' (bs @ p # cs) = nodes_data h (bs @ p # cs)" "h' x = None"
proof -
  obtain np nx where n: "h p = Some np" "chain h (sl_pHead l) bs (Some p)" "nd_pNext np = Some x"
    "h x = Some nx" "chain h (nd_pNext nx) cs None"
    using assms by (auto simp: list_at_def chain_append)
  have d: "p \<noteq> x" "p \<notin> set bs" "x \<notin> set bs" "p \<notin> set cs" "x \<notin> set cs" "distinct (bs @ p # cs)"
    and tl: "sl_pTail l = Some (last (x # cs))"
    and cnt: "unat (sl_count l - 1) = Suc (length bs + length cs)"
    using assms unat_count_pred [of l "Suc (length bs + length cs)"] by (auto simp: list_at_def)
  have nn: "nd_pNext nx = None \<longleftrightarrow> cs = []" using chain_None [OF n(5)] .
  let ?h = "h(p \<mapsto> np\<lparr>nd_pNext := nd_pNext nx\<rparr>, x := None)"
  let ?l1 = "if nd_pNext nx = None then l\<lparr>sl_pTail := Some p\<rparr> else l"
  let ?l = "?l1\<lparr>sl_count := sl_count ?l1 - 1\<rparr>"
  have "singleListDeleteNextNode (Some l) (Some p) h = Some (STATUS_SUCCESS, Some ?l, ?h)"
    using n d tl nn by (simp add: setNext_def memFreeNode_def Let_def)
  moreover have "list_at ?h ?l (bs @ p # cs)"
    using n d tl cnt nn by (auto simp: list_at_def chain_append fun_upd_twist [of x p])
  moreover have "nodes_data ?h (bs @ p # cs) = nodes_data h (bs @ p # cs)"
    using d n(1) by (simp add: fun_upd_twist [of x p])
  ultimately show thesis using that by simp
qed

lemma findPrevLoop_at:
  "chain h p (bs @ q # x # cs) None \<Longrightarrow> distinct (bs @ q # x # cs) \<Longrightarrow>
   findPrevLoop x p h = Some (Some q)"
proof (induction bs arbitrary: p)
  case Nil
  then show ?case by (subst findPrevLoop.simps) auto
next
  case (Cons b bs)
  then obtain n where n: "p = Some b" "h b = Some n" "chain h (nd_pNext n) (bs @ q # x # cs) None"
    by auto
  have "nd_pNext n \<noteq> Some x" using n(3) Cons.prems(2) by (cases bs) auto
  then show ?case
    using Cons.IH [OF n(3)] Cons.prems(2) n(1,2) by (subst findPrevLoop.simps) simp
qed

lemma findPrevLoop_absent:
  "chain h p as None \<Longrightarrow> x \<notin> set (tl as) \<Longrightarrow> findPrevLoop x p h = Some None"
proof (induction as arbitrary: p)
  case Nil
  then show ?case by (subst findPrevLoop.simps) simp
next
  case (Cons a as)
  then obtain n where n: "p = Some a" "h a = Some n" "chain h (nd_pNext n) as None" by auto
  have "nd_pNext n \<noteq> Some x" using n(3) Cons.prems(2) by (cases as) auto
  moreover have "x \<notin> set (tl as)" using Cons.prems(2) by (cases as) auto
  ultimately show ?case
    using Cons.IH [OF n(3)] n(1,2) by (subst findPrevLoop.simps) simp
qed

text \<open>Deleting the node at position \<open>length bs\<close>, wherever it is in the list.\<close>

lemma delete_node_at:
  assumes "list_at h l (bs @ x # cs)"
  obtains l' h' where "singleListDeleteNode (Some l) (Some x) h = Some (STATUS_SUCCESS, Some l', h')"
    "list_at h' l' (bs @ cs)" "nodes_data h' (bs @ cs) = nodes_data h (bs @ cs)"
proof (cases bs rule: rev_cases)
  case Nil
  then show thesis
    using assms delete_head_at [of h l x cs] that by (force simp: list_at_def)
next
  case (snoc ds q)
  have c: "chain h (sl_pHead l) (ds @ q # x # cs) None" "distinct (ds @ q # x # cs)"
    using assms by (auto simp: list_at_def snoc)
  have "sl_pHead l \<noteq> Some x" using c by (cases ds) auto
  moreover obtain l' h' where
    "singleListDeleteNextNode (Some l) (Some q) h = Some (STATUS_SUCCESS, Some l', h')"
    "list_at h' l' (ds @ q # cs)" "nodes_data h' (ds @ q # cs) = nodes_data h (ds @ q # cs)"
    using assms unfolding snoc append_assoc append_Cons append_Nil by (rule delete_next_at)
  ultimately show thesis
    using that findPrevLoop_at [OF c] by (simp add: snoc del: singleListDeleteNextNode.simps)
qed

lemma nodeAtLoop_at:
  "chain h p as q \<Longrightarrow> k \<le> length as \<Longrightarrow>
   nodeAtLoop k p h = Some (STATUS_SUCCESS, if k < length as then Some (as ! k) else q)"
proof (induction as arbitrary: p k)
  case Nil
  then show ?case by simp
next
  case (Cons a as)
  then show ?case by (cases k) auto
qed

lemma getNodeAt_at:
  assumes "list_at h l as"
  shows "singleListGetNodeAt (Some l) i True h =
    Some (if unat i < length as then (STATUS_SUCCESS, Some (as ! unat i)) else (STATUS_INVALID_ARG, None))"
  using assms nodeAtLoop_at [of h "sl_pHead l" as None "unat i"]
  by (auto simp: list_at_def singleListGetNodeAtInternal_def word_less_nat_alt)

lemma clearLoop_at:
  "chain h p as None \<Longrightarrow> distinct as \<Longrightarrow>
   clearLoop fd p h = Some (\<lambda>a. if a \<in> set as then None else h a,
     if fd then filter (\<lambda>d. d \<noteq> 0) (nodes_data h as) else [])"
proof (induction as arbitrary: p h)
  case Nil
  then show ?case by (subst clearLoop.simps) simp
next
  case (Cons a as)
  then obtain n where n: "p = Some a" "h a = Some n" "chain h (nd_pNext n) as None" by auto
  have "a \<notin> set as" "distinct as" using Cons.prems(2) by auto
  then have "chain (h(a := None)) (nd_pNext n) as None" using n(3) by (subst chain_upd)
  then have "clearLoop fd (nd_pNext n) (h(a := None)) =
      Some (\<lambda>b. if b \<in> set as then None else (h(a := None)) b,
        if fd then filter (\<lambda>d. d \<noteq> 0) (nodes_data (h(a := None)) as) else [])"
    using \<open>distinct as\<close> by (rule Cons.IH)
  moreover have "(\<lambda>b. if b \<in> set as then None else (h(a := None)) b) =
      (\<lambda>b. if b \<in> set (a # as) then None else h b)" by auto
  ultimately show ?case
    using n Cons.prems(2) by (subst clearLoop.simps) (simp add: memFreeNode_def)
qed

lemma append_at:
  assumes "list_at h l as" "list_at h b bs" "set as \<inter> set bs = {}" "length as + length bs < 2 ^ 32"
  obtains l' h' where "singleListAppendList (Some l) (Some (Some b)) h =
      Some (STATUS_SUCCESS, Some l', Some None, h')"
    "list_at h' l' (as @ bs)" "nodes_data h' (as @ bs) = nodes_data h as @ nodes_data h bs"
proof -
  have cnt: "unat (sl_count l) = length as" "unat (sl_count b) = length bs"
    using assms(1,2) by (auto simp: list_at_def)
  then have sum: "unat (sl_count l + sl_count b) = length as + length bs"
    using assms(4) by (simp add: unat_word_ariths)
  have zero: "sl_count l = 0 \<longleftrightarrow> as = []" "sl_count b = 0 \<longleftrightarrow> bs = []"
    using cnt by (metis length_0_conv unat_0 unat_eq_zero)+
  show thesis
  proof (cases "as = [] \<or> bs = []")
    case True
    then show thesis
      using that assms sum zero by (auto simp: list_at_def split: if_splits)
  next
    case False
    then obtain cs t where as: "as = cs @ [t]" by (metis last_split)
    then obtain nt where nt: "h t = Some nt" "nd_pNext nt = None" "chain h (sl_pHead l) cs (Some t)"
      "sl_pTail l = Some t" "distinct (cs @ [t])"
      using assms(1) by (auto simp: list_at_def chain_append)
    have x: "t \<notin> set cs" "t \<notin> set bs" using nt(5) assms(3) as by auto
    let ?h = "h(t \<mapsto> nt\<lparr>nd_pNext := sl_pHead b\<rparr>)"
    let ?l = "l\<lparr>sl_pTail := sl_pTail b, sl_count := sl_count l + sl_count b\<rparr>"
    have "singleListAppendList (Some l) (Some (Some b)) h = Some (STATUS_SUCCESS, Some ?l, Some None, ?h)"
      using False zero nt by (simp add: setNext_def)
    moreover have "list_at ?h ?l (as @ bs)"
      using assms(2,3) nt x sum False by (auto simp: list_at_def as chain_append)
    moreover have "nodes_data ?h (as @ bs) = nodes_data h as @ nodes_data h bs"
      using x nt(1) by (simp add: as)
    ultimately show thesis by (rule that)
  qed
qed

subsection \<open>Clearing and concatenation\<close>

text \<open>Clearing a list frees exactly its nodes, once each, and on request exactly the
  non-\<open>NULL\<close> data pointers stored in them, in list order; every other address is untouched and
  the list is empty.\<close>

theorem singleListClear_correct:
  assumes "list_at h l as"
  shows "\<exists>l' h'. singleListClear (Some l) freeData h = Some (STATUS_SUCCESS, Some l', h',
      if freeData then filter (\<lambda>d. d \<noteq> 0) (list_items (l, h)) else []) \<and>
    list_at h' l' [] \<and> (\<forall>a. h' a = (if a \<in> set as then None else h a))"
proof -
  have "chain h (sl_pHead l) as None" "distinct as" using assms by (auto simp: list_at_def)
  from clearLoop_at [OF this, of freeData] show ?thesis
    by (simp add: list_items_at [OF assms]) (simp add: list_at_def)
qed

text \<open>Appending one list to another with disjoint nodes moves all its nodes behind those of
  the destination: the items are concatenated and the pointer to the appended list is cleared.\<close>

theorem singleListAppendList_correct:
  assumes "list_at h l as" "list_at h b bs" "set as \<inter> set bs = {}" "length as + length bs < 2 ^ 32"
  shows "\<exists>l' h'. singleListAppendList (Some l) (Some (Some b)) h =
      Some (STATUS_SUCCESS, Some l', Some None, h') \<and> list_inv (l', h') \<and>
    list_items (l', h') = list_items (l, h) @ list_items (b, h)"
proof -
  obtain l' h' where r: "singleListAppendList (Some l) (Some (Some b)) h =
      Some (STATUS_SUCCESS, Some l', Some None, h')"
    "list_at h' l' (as @ bs)" "nodes_data h' (as @ bs) = nodes_data h as @ nodes_data h bs"
    by (rule append_at [OF assms])
  then show ?thesis
    using list_atI [OF r(2)] by (simp add: list_items_at [OF assms(1)] list_items_at [OF assms(2)])
qed

definition demo_nodes :: node_heap where
  "demo_nodes = [1 \<mapsto> \<lparr>nd_pNext = Some 2, nd_data = 70\<rparr>, 2 \<mapsto> \<lparr>nd_pNext = None, nd_data = 0\<rparr>,
     3 \<mapsto> \<lparr>nd_pNext = None, nd_data = 90\<rparr>]"

lemma demo_nodes_lists:
  "list_at demo_nodes \<lparr>sl_count = 2, sl_pHead = Some 1, sl_pTail = Some 2\<rparr> [1, 2]"
  "list_at demo_nodes \<lparr>sl_count = 1, sl_pHead = Some 3, sl_pTail = Some 3\<rparr> [3]"
  by (simp_all add: list_at_def demo_nodes_def)

lemma demo_nodes_items:
  "list_items (\<lparr>sl_count = 2, sl_pHead = Some 1, sl_pTail = Some 2\<rparr>, demo_nodes) = [70, 0]"
  "list_items (\<lparr>sl_count = 1, sl_pHead = Some 3, sl_pTail = Some 3\<rparr>, demo_nodes) = [90]"
  unfolding list_items_at [OF demo_nodes_lists(1)] list_items_at [OF demo_nodes_lists(2)]
  by (simp_all add: demo_nodes_def)

theorem singleListClear_correct_witness:
  "\<exists>l' h'. singleListClear (Some \<lparr>sl_count = 2, sl_pHead = Some 1, sl_pTail = Some 2\<rparr>) True demo_nodes =
     Some (STATUS_SUCCESS, Some l', h', [70]) \<and> h' 2 = None \<and> h' 3 = demo_nodes 3"
proof -
  have "filter (\<lambda>d. d \<noteq> 0) [70, 0 :: UINT64] = [70]" by simp
  then show ?thesis
    using singleListClear_correct [OF demo_nodes_lists(1), of True] unfolding demo_nodes_items
    by fastforce
qed

theorem singleListAppendList_correct_witness:
  "\<exists>l' h'. singleListAppendList (Some \<lparr>sl_count = 2, sl_pHead = Some 1, sl_pTail = Some 2\<rparr>)
      (Some (Some \<lparr>sl_count = 1, sl_pHead = Some 3, sl_pTail = Some 3\<rparr>)) demo_nodes =
     Some (STATUS_SUCCESS, Some l', Some None, h') \<and> list_items (l', h') = [70, 0] @ [90]"
proof -
  have "set [1, 2] \<inter> set [3 :: addr] = {}" "length [1, 2 :: addr] + length [3 :: addr] < 2 ^ 32" by simp_all
  from singleListAppendList_correct [OF demo_nodes_lists this] show ?thesis
    unfolding demo_nodes_items by blast
qed

end
