(* ===== verification/StackQueue.thy ===== *)
theory StackQueue
  imports LinkedListProps
begin

text \<open>
  The stack and queue of \<open>StackQueue.c\<close>, a thin layer over the linked list. As there,
  \<open>None\<close> of the monad is an access through a dangling pointer, and the operations that
  allocate take the address \<open>MEMCALLOC\<close> returns.
\<close>

definition stackQueueCreate :: "bool \<Rightarrow> bool \<Rightarrow> STATUS \<times> SingleList option" where
  "stackQueueCreate ppStackQueue calloc = singleListCreate ppStackQueue calloc"

definition stackQueueFree :: "SingleList option \<Rightarrow> node_heap \<Rightarrow> (STATUS \<times> node_heap) option" where
  "stackQueueFree q h = singleListFree q h"

definition stackQueueClear ::
  "SingleList option \<Rightarrow> bool \<Rightarrow> node_heap \<Rightarrow> (STATUS \<times> SingleList option \<times> node_heap \<times> UINT64 list) option"
where
  "stackQueueClear q freeData h = singleListClear q freeData h"

definition stackQueueGetCount :: "SingleList option \<Rightarrow> bool \<Rightarrow> STATUS \<times> UINT32 option" where
  "stackQueueGetCount q pCount = singleListGetNodeCount q pCount"

fun stackQueueIsEmpty :: "SingleList option \<Rightarrow> bool \<Rightarrow> STATUS \<times> bool option" where
  "stackQueueIsEmpty (Some q) True =
     (case singleListGetNodeCount (Some q) True of
        (st, c) \<Rightarrow> if STATUS_FAILED st then (st, None) else (STATUS_SUCCESS, map_option (\<lambda>n. n = 0) c))"
| "stackQueueIsEmpty _ _ = (STATUS_NULL_ARG, None)"

definition stackQueuePush ::
  "addr option \<Rightarrow> SingleList option \<Rightarrow> UINT64 \<Rightarrow> node_heap
   \<Rightarrow> (STATUS \<times> SingleList option \<times> node_heap) option" where
  "stackQueuePush alloc q item h = singleListInsertItemHead alloc q item h"

text \<open>\<open>pItem\<close> says whether the out pointer is non-\<open>NULL\<close>; the item written is in the result.\<close>

definition stackQueuePeek ::
  "SingleList option \<Rightarrow> bool \<Rightarrow> node_heap \<Rightarrow> (STATUS \<times> UINT64 option) option" where
  "stackQueuePeek q pItem h =
     (case singleListGetHeadNode q True of
        (st, None) \<Rightarrow> Some (st, None)
      | (st, Some None) \<Rightarrow> Some (STATUS_NOT_FOUND, None)
      | (st, Some (Some a)) \<Rightarrow> singleListGetNodeData (Some a) pItem h)"

definition stackQueuePop ::
  "SingleList option \<Rightarrow> bool \<Rightarrow> node_heap \<Rightarrow> (STATUS \<times> UINT64 option \<times> SingleList option \<times> node_heap) option"
where
  "stackQueuePop q pItem h = do {
     (st, item) \<leftarrow> stackQueuePeek q pItem h;
     if STATUS_FAILED st then Some (st, item, q, h)
     else do { (st, q', h') \<leftarrow> singleListDeleteHead q h; Some (st, item, q', h') }
   }"

text \<open>The search loop: \<open>None\<close> as the index means that the end was reached.\<close>

partial_function (option) indexOfLoop ::
  "UINT64 \<Rightarrow> UINT32 \<Rightarrow> addr option \<Rightarrow> node_heap \<Rightarrow> UINT32 option option" where
  "indexOfLoop item index p h =
     (case p of
        None \<Rightarrow> Some None
      | Some a \<Rightarrow> do {
          n \<leftarrow> h a;
          if nd_data n = item then Some (Some index) else indexOfLoop item (index + 1) (nd_pNext n) h
        })"

fun stackQueueGetIndexOf ::
  "SingleList option \<Rightarrow> UINT64 \<Rightarrow> bool \<Rightarrow> node_heap \<Rightarrow> (STATUS \<times> UINT32 option) option" where
  "stackQueueGetIndexOf (Some q) item True h = do {
     r \<leftarrow> indexOfLoop item 0 (sl_pHead q) h;
     case r of None \<Rightarrow> Some (STATUS_NOT_FOUND, None) | Some i \<Rightarrow> Some (STATUS_SUCCESS, Some i)
   }"
| "stackQueueGetIndexOf _ _ _ h = Some (STATUS_NULL_ARG, None)"

definition stackQueueGetAt ::
  "SingleList option \<Rightarrow> UINT32 \<Rightarrow> bool \<Rightarrow> node_heap \<Rightarrow> (STATUS \<times> UINT64 option) option" where
  "stackQueueGetAt q index pItem h =
     (if \<not> pItem then Some (STATUS_NOT_FOUND, None) else singleListGetNodeDataAt q index True h)"

definition stackQueueSetAt ::
  "SingleList option \<Rightarrow> UINT32 \<Rightarrow> UINT64 \<Rightarrow> node_heap \<Rightarrow> (STATUS \<times> node_heap) option" where
  "stackQueueSetAt q index item h = do {
     (st, p) \<leftarrow> singleListGetNodeAt q index True h;
     if STATUS_FAILED st then Some (st, h)
     else do { a \<leftarrow> p; n \<leftarrow> h a; Some (STATUS_SUCCESS, h(a \<mapsto> n\<lparr>nd_data := item\<rparr>)) }
   }"

definition stackQueueRemoveAt ::
  "SingleList option \<Rightarrow> UINT32 \<Rightarrow> node_heap \<Rightarrow> (STATUS \<times> SingleList option \<times> node_heap) option" where
  "stackQueueRemoveAt q index h = do {
     (st, p) \<leftarrow> singleListGetNodeAt q index True h;
     if STATUS_FAILED st then Some (st, q, h) else singleListDeleteNode q p h
   }"

definition stackQueueRemoveItem ::
  "SingleList option \<Rightarrow> UINT64 \<Rightarrow> node_heap \<Rightarrow> (STATUS \<times> SingleList option \<times> node_heap) option" where
  "stackQueueRemoveItem q item h = do {
     (st, i) \<leftarrow> stackQueueGetIndexOf q item True h;
     if STATUS_FAILED st then Some (st, q, h) else do { index \<leftarrow> i; stackQueueRemoveAt q index h }
   }"

definition stackQueueEnqueue ::
  "addr option \<Rightarrow> SingleList option \<Rightarrow> UINT64 \<Rightarrow> node_heap
   \<Rightarrow> (STATUS \<times> SingleList option \<times> node_heap) option" where
  "stackQueueEnqueue alloc q item h = singleListInsertItemTail alloc q item h"

definition stackQueueDequeue ::
  "SingleList option \<Rightarrow> bool \<Rightarrow> node_heap \<Rightarrow> (STATUS \<times> UINT64 option \<times> SingleList option \<times> node_heap) option"
where
  "stackQueueDequeue q pItem h =
     (case singleListGetHeadNode q True of
        (st, None) \<Rightarrow> Some (st, None, q, h)
      | (st, Some None) \<Rightarrow> Some (STATUS_NOT_FOUND, None, q, h)
      | (st, Some (Some a)) \<Rightarrow> do {
          (st, item) \<leftarrow> singleListGetNodeData (Some a) pItem h;
          if STATUS_FAILED st then Some (st, item, q, h)
          else do { (st, q', h') \<leftarrow> singleListDeleteHead q h; Some (st, item, q', h') }
        })"

text \<open>Iterators are node pointers.\<close>

definition stackQueueGetIterator :: "SingleList option \<Rightarrow> bool \<Rightarrow> STATUS \<times> addr option option" where
  "stackQueueGetIterator q pIterator = singleListGetHeadNode q pIterator"

fun stackQueueIteratorNext :: "addr option option \<Rightarrow> node_heap \<Rightarrow> (STATUS \<times> addr option option) option" where
  "stackQueueIteratorNext None h = Some (STATUS_NULL_ARG, None)"
| "stackQueueIteratorNext (Some None) h = Some (STATUS_NOT_FOUND, Some None)"
| "stackQueueIteratorNext (Some (Some a)) h = do {
     (st, nxt) \<leftarrow> singleListGetNextNode (Some a) True h;
     if STATUS_FAILED st then Some (st, Some (Some a)) else Some (STATUS_SUCCESS, nxt)
   }"

fun stackQueueIteratorGetItem ::
  "addr option \<Rightarrow> bool \<Rightarrow> node_heap \<Rightarrow> (STATUS \<times> UINT64 option) option" where
  "stackQueueIteratorGetItem None pData h = Some (STATUS_NOT_FOUND, None)"
| "stackQueueIteratorGetItem (Some a) pData h = singleListGetNodeData (Some a) pData h"

definition stackQueueEnqueueAfterIndex ::
  "addr option \<Rightarrow> SingleList option \<Rightarrow> UINT32 \<Rightarrow> UINT64 \<Rightarrow> node_heap
   \<Rightarrow> (STATUS \<times> SingleList option \<times> node_heap) option" where
  "stackQueueEnqueueAfterIndex alloc q index item h = do {
     (st, p) \<leftarrow> singleListGetNodeAt q index True h;
     if STATUS_FAILED st then Some (st, q, h) else singleListInsertItemAfter alloc q p item h
   }"

end
