(* ===== verification/StackQueueProps.thy ===== *)
theory StackQueueProps
  imports StackQueue Interfaces
begin

text \<open>
  The stack queue implements a sequence: what each operation does to the stored items, and the
  first-in-first-out law by interpretation of the queue contract.
\<close>

subsection \<open>Operations on the stored items\<close>

abbreviation (input) room :: "SingleList \<Rightarrow> bool" where "room l \<equiv> sl_count l \<noteq> 0xffffffff"

lemma fresh_not_in: "list_at h l as \<Longrightarrow> h a = None \<Longrightarrow> a \<notin> set as"
  using chain_dom by (fastforce simp: list_at_def)

lemma list_at_fresh:
  "list_at h l as \<Longrightarrow> h a = None \<Longrightarrow> list_at (h(a \<mapsto> x)) l as \<and> nodes_data (h(a \<mapsto> x)) as = nodes_data h as"
  using fresh_not_in by (auto simp: list_at_def)

lemma list_items_length: "list_inv (l, h) \<Longrightarrow> length (list_items (l, h)) = unat (sl_count l)"
  by (elim list_inv_items) (simp add: list_at_def)

lemma enqueue_items:
  assumes "list_inv (l, h)" "h a = None" "room l"
  obtains l' h' where "stackQueueEnqueue (Some a) (Some l) x h = Some (STATUS_SUCCESS, Some l', h')"
    "list_inv (l', h')" "list_items (l', h') = list_items (l, h) @ [x]"
proof -
  obtain as where as: "list_at h l as" "list_items (l, h) = nodes_data h as"
    using assms(1) by (rule list_inv_items)
  let ?h = "h(a \<mapsto> \<lparr>nd_pNext = None, nd_data = x\<rparr>)"
  obtain l' h' where r: "singleListInsertNodeTailInternal l a ?h = Some (STATUS_SUCCESS, l', h')"
    "list_at h' l' (as @ [a])" "nodes_data h' (as @ [a]) = nodes_data ?h as @ [x]"
    using insert_tail_at [of ?h l as a "\<lparr>nd_pNext = None, nd_data = x\<rparr>"]
      list_at_fresh [OF as(1) assms(2)] fresh_not_in [OF as(1) assms(2)] assms(3) by auto
  show thesis
    using that r(1) list_atI [OF r(2)] r(3) as list_at_fresh [OF as(1) assms(2)]
    by (simp add: stackQueueEnqueue_def singleListAllocNode_def)
qed

lemma push_items:
  assumes "list_inv (l, h)" "h a = None" "room l"
  obtains l' h' where "stackQueuePush (Some a) (Some l) x h = Some (STATUS_SUCCESS, Some l', h')"
    "list_inv (l', h')" "list_items (l', h') = x # list_items (l, h)"
proof -
  obtain as where as: "list_at h l as" "list_items (l, h) = nodes_data h as"
    using assms(1) by (rule list_inv_items)
  let ?h = "h(a \<mapsto> \<lparr>nd_pNext = None, nd_data = x\<rparr>)"
  obtain l' h' where r: "singleListInsertNodeHeadInternal l a ?h = Some (STATUS_SUCCESS, l', h')"
    "list_at h' l' (a # as)" "nodes_data h' (a # as) = x # nodes_data ?h as"
    using insert_head_at [of ?h l as a "\<lparr>nd_pNext = None, nd_data = x\<rparr>"]
      list_at_fresh [OF as(1) assms(2)] fresh_not_in [OF as(1) assms(2)] assms(3) by auto
  show thesis
    using that r(1) list_atI [OF r(2)] r(3) as list_at_fresh [OF as(1) assms(2)]
    by (simp add: stackQueuePush_def singleListAllocNode_def)
qed

lemma enqueue_after_items:
  assumes "list_inv (l, h)" "h a = None" "room l" "unat i < length (list_items (l, h))"
  obtains l' h' where
    "stackQueueEnqueueAfterIndex (Some a) (Some l) i x h = Some (STATUS_SUCCESS, Some l', h')"
    "list_inv (l', h')"
    "list_items (l', h') = take (Suc (unat i)) (list_items (l, h)) @ x # drop (Suc (unat i)) (list_items (l, h))"
proof -
  obtain as where as: "list_at h l as" "list_items (l, h) = nodes_data h as"
    using assms(1) by (rule list_inv_items)
  let ?n = "\<lparr>nd_pNext = None, nd_data = x\<rparr>"
  let ?h = "h(a \<mapsto> ?n)" and ?k = "unat i"
  have k: "?k < length as" using assms(4) as(2) by simp
  have sp: "as = take ?k as @ as ! ?k # drop (Suc ?k) as" using id_take_nth_drop [OF k] .
  have fr: "list_at ?h l (take ?k as @ as ! ?k # drop (Suc ?k) as)" "a \<notin> set (take ?k as @ as ! ?k # drop (Suc ?k) as)"
    using list_at_fresh [OF as(1) assms(2)] fresh_not_in [OF as(1) assms(2)] sp by metis+
  obtain l' h' where r: "singleListInsertNodeAfterInternal l (as ! ?k) a ?h = Some (STATUS_SUCCESS, l', h')"
    "list_at h' l' (take ?k as @ as ! ?k # a # drop (Suc ?k) as)"
    "nodes_data h' (take ?k as @ as ! ?k # a # drop (Suc ?k) as) =
       nodes_data ?h (take ?k as @ [as ! ?k]) @ nd_data ?n # nodes_data ?h (drop (Suc ?k) as)"
    by (rule insert_after_at [OF fr(1) _ fr(2) assms(3)]) auto
  have "nodes_data ?h (take ?k as @ [as ! ?k]) = take (Suc ?k) (nodes_data h as)"
    "nodes_data ?h (drop (Suc ?k) as) = drop (Suc ?k) (nodes_data h as)"
    using fr(2) k by (auto simp: nodes_data_def take_map drop_map take_Suc_conv_app_nth)
  then show thesis
    using that r(1,3) list_atI [OF r(2)] as getNodeAt_at [OF as(1), of i] k
    by (simp add: stackQueueEnqueueAfterIndex_def singleListAllocNode_def del: nodes_data_simps)
qed

lemma delete_head_items:
  assumes "list_inv (l, h)" "list_items (l, h) = x # xs"
  obtains a n l' where "sl_pHead l = Some a" "h a = Some n" "nd_data n = x"
    "singleListDeleteHead (Some l) h = Some (STATUS_SUCCESS, Some l', h(a := None))"
    "list_inv (l', h(a := None))" "list_items (l', h(a := None)) = xs"
proof -
  obtain as where as: "list_at h l as" "list_items (l, h) = nodes_data h as"
    using assms(1) by (rule list_inv_items)
  then obtain a bs where bs: "as = a # bs" "nodes_data h bs = xs" "nd_data (the (h a)) = x"
    using assms(2) by (cases as) auto
  obtain l' where l': "singleListDeleteHead (Some l) h = Some (STATUS_SUCCESS, Some l', h(a := None))"
    "list_at (h(a := None)) l' bs"
    using delete_head_at [of h l a bs] as(1) bs(1) by auto
  have "a \<notin> set bs" "\<exists>n. h a = Some n" "sl_pHead l = Some a"
    using as(1) by (auto simp: list_at_def bs(1))
  then show thesis
    using that [of a _ l'] l'(1) list_atI [OF l'(2)] bs by auto
qed

lemma head_None: "list_inv (l, h) \<Longrightarrow> sl_pHead l = None \<longleftrightarrow> list_items (l, h) = []"
  by (elim list_inv_items) (auto simp: list_at_def nodes_data_def dest: chain_None)

lemma remove_at_items:
  assumes "list_inv (l, h)" "unat i < length (list_items (l, h))"
  obtains l' h' where "stackQueueRemoveAt (Some l) i h = Some (STATUS_SUCCESS, Some l', h')"
    "list_inv (l', h')"
    "list_items (l', h') = take (unat i) (list_items (l, h)) @ drop (Suc (unat i)) (list_items (l, h))"
proof -
  obtain as where as: "list_at h l as" "list_items (l, h) = nodes_data h as"
    using assms(1) by (rule list_inv_items)
  let ?k = "unat i"
  have k: "?k < length as" using assms(2) as(2) by simp
  have sp: "list_at h l (take ?k as @ as ! ?k # drop (Suc ?k) as)"
    using as(1) id_take_nth_drop [OF k] by metis
  obtain l' h' where r: "singleListDeleteNode (Some l) (Some (as ! ?k)) h = Some (STATUS_SUCCESS, Some l', h')"
    "list_at h' l' (take ?k as @ drop (Suc ?k) as)"
    "nodes_data h' (take ?k as @ drop (Suc ?k) as) = nodes_data h (take ?k as @ drop (Suc ?k) as)"
    by (rule delete_node_at [OF sp])
  show thesis
    using that r(1,3) list_atI [OF r(2)] as getNodeAt_at [OF as(1), of i] k
    by (simp add: stackQueueRemoveAt_def nodes_data_def take_map drop_map del: singleListDeleteNode.simps)
qed

lemma indexOfLoop_at:
  "chain h p as None \<Longrightarrow>
   indexOfLoop x i p h = Some (if x \<in> set (nodes_data h as)
     then Some (i + of_nat (length (takeWhile (\<lambda>d. d \<noteq> x) (nodes_data h as)))) else None)"
proof (induction as arbitrary: p i)
  case Nil
  then show ?case by (subst indexOfLoop.simps) simp
next
  case (Cons a as)
  then obtain n where n: "p = Some a" "h a = Some n" "chain h (nd_pNext n) as None" by auto
  show ?case
    using Cons.IH [OF n(3), of "i + 1"] n(1,2)
    by (subst indexOfLoop.simps) (auto simp: add.assoc)
qed

lemma index_of_items:
  assumes "list_inv (l, h)"
  shows "stackQueueGetIndexOf (Some l) x True h =
    Some (if x \<in> set (list_items (l, h))
          then (STATUS_SUCCESS, Some (of_nat (length (takeWhile (\<lambda>d. d \<noteq> x) (list_items (l, h))))))
          else (STATUS_NOT_FOUND, None))"
  using assms by (elim list_inv_items) (auto simp: list_at_def indexOfLoop_at)

subsection \<open>The queue contract\<close>

definition sq_next :: "SingleList \<times> node_heap \<Rightarrow> (UINT64 \<times> SingleList \<times> node_heap) option" where
  "sq_next s =
     (case stackQueueDequeue (Some (fst s)) True (snd s) of
        Some (st, Some x, Some l, h) \<Rightarrow> if STATUS_SUCCEEDED st then Some (x, l, h) else None
      | _ \<Rightarrow> None)"

definition sq_enqueue :: "addr \<Rightarrow> UINT64 \<Rightarrow> SingleList \<times> node_heap \<Rightarrow> (SingleList \<times> node_heap) option" where
  "sq_enqueue a x s =
     (case stackQueueEnqueue (Some a) (Some (fst s)) x (snd s) of
        Some (st, Some l, h) \<Rightarrow> if STATUS_SUCCEEDED st then Some (l, h) else None
      | _ \<Rightarrow> None)"

lemma dequeue_items:
  assumes "list_inv (l, h)"
  shows "list_items (l, h) = [] \<Longrightarrow> stackQueueDequeue (Some l) True h = Some (STATUS_NOT_FOUND, None, Some l, h)"
    and "list_items (l, h) = x # xs \<Longrightarrow> \<exists>l' h'. stackQueueDequeue (Some l) True h =
        Some (STATUS_SUCCESS, Some x, Some l', h') \<and> list_inv (l', h') \<and> list_items (l', h') = xs"
proof -
  show "list_items (l, h) = [] \<Longrightarrow> stackQueueDequeue (Some l) True h = Some (STATUS_NOT_FOUND, None, Some l, h)"
    using head_None [OF assms] by (simp add: stackQueueDequeue_def)
  assume "list_items (l, h) = x # xs"
  from delete_head_items [OF assms this] obtain a n l' where "sl_pHead l = Some a" "h a = Some n"
    "nd_data n = x" "singleListDeleteHead (Some l) h = Some (STATUS_SUCCESS, Some l', h(a := None))"
    "list_inv (l', h(a := None))" "list_items (l', h(a := None)) = xs" by blast
  then show "\<exists>l' h'. stackQueueDequeue (Some l) True h =
        Some (STATUS_SUCCESS, Some x, Some l', h') \<and> list_inv (l', h') \<and> list_items (l', h') = xs"
    by (simp add: stackQueueDequeue_def del: singleListDeleteHead.simps)
qed

lemma enqueue_frame:
  assumes "stackQueueEnqueue (Some a) (Some l) x h = Some (st, l', h')" "k \<noteq> a" "h k = None"
  shows "h' k = None"
  using assms
  by (auto simp: stackQueueEnqueue_def singleListAllocNode_def singleListInsertNodeTailInternal_def
      setNext_def Let_def bind_eq_Some_conv split: option.splits if_splits)

lemma room_length: "list_inv (l, h) \<Longrightarrow> length (list_items (l, h)) < 2 ^ 32 - 1 \<Longrightarrow> room l"
  by (auto simp: list_items_length)

interpretation sq: fifo list_inv list_items sq_next "2 ^ 32 - 1" "\<lambda>a s. snd s a = None" sq_enqueue
proof
  fix s :: "SingleList \<times> node_heap" assume inv: "list_inv s"
  obtain l h where s: "s = (l, h)" by (cases s)
  show "sq_next s = None \<longleftrightarrow> list_items s = []"
    using dequeue_items [of l h] inv
    by (cases "list_items s") (auto simp: s sq_next_def)
next
  fix s s' :: "SingleList \<times> node_heap" and x assume inv: "list_inv s" and n: "sq_next s = Some (x, s')"
  obtain l h where s: "s = (l, h)" by (cases s)
  show "list_items s = x # list_items s' \<and> list_inv s'"
    using dequeue_items [of l h] inv n
    by (cases "list_items s") (fastforce simp: s sq_next_def)+
next
  fix s :: "SingleList \<times> node_heap" and a x
  assume inv: "list_inv s" and f: "snd s a = None" and c: "length (list_items s) < 2 ^ 32 - 1"
  obtain l h where s: "s = (l, h)" by (cases s)
  have "list_inv (l, h)" "h a = None" "room l" using inv f c room_length [of l h] by (auto simp: s)
  then obtain l' h' where "stackQueueEnqueue (Some a) (Some l) x h = Some (STATUS_SUCCESS, Some l', h')"
    "list_inv (l', h')" "list_items (l', h') = list_items (l, h) @ [x]"
    by (rule enqueue_items)
  then show "\<exists>s'. sq_enqueue a x s = Some s' \<and> list_inv s' \<and> list_items s' = list_items s @ [x]"
    by (simp add: s sq_enqueue_def)
next
  fix s s' :: "SingleList \<times> node_heap" and a x b
  assume "sq_enqueue a x s = Some s'" "snd s b = None" "b \<noteq> a"
  then show "snd s' b = None"
    using enqueue_frame [of a "fst s" x "snd s" _ "Some (fst s')" "snd s'" b]
    by (auto simp: sq_enqueue_def split: option.splits prod.splits if_splits)
qed

subsection \<open>The properties\<close>

definition demo_heap :: node_heap where
  "demo_heap = [1 \<mapsto> \<lparr>nd_pNext = Some 2, nd_data = 70\<rparr>, 2 \<mapsto> \<lparr>nd_pNext = None, nd_data = 80\<rparr>]"

definition demo_list :: SingleList where
  "demo_list = \<lparr>sl_count = 2, sl_pHead = Some 1, sl_pTail = Some 2\<rparr>"

lemma demo_list_inv: "list_inv (demo_list, demo_heap)" "list_items (demo_list, demo_heap) = [70, 80]"
proof -
  have "list_at demo_heap demo_list [1, 2]"
    by (simp add: list_at_def demo_heap_def demo_list_def)
  from list_atI [OF this] show "list_inv (demo_list, demo_heap)"
    "list_items (demo_list, demo_heap) = [70, 80]" by (simp_all add: demo_heap_def)
qed

text \<open>Insertion: with a fresh node and a count below its maximum, push, enqueue and insert
  after an index succeed, keep the list invariant and insert the item in front, at the end and
  right after the index; the memory is accessed only through live nodes.\<close>

theorem stackQueue_insert_correct:
  assumes "list_inv (l, h)" "h a = None" "sl_count l \<noteq> 0xffffffff"
  shows "(\<exists>l' h'. stackQueuePush (Some a) (Some l) x h = Some (STATUS_SUCCESS, Some l', h') \<and>
      list_inv (l', h') \<and> list_items (l', h') = x # list_items (l, h)) \<and>
    (\<exists>l' h'. stackQueueEnqueue (Some a) (Some l) x h = Some (STATUS_SUCCESS, Some l', h') \<and>
      list_inv (l', h') \<and> list_items (l', h') = list_items (l, h) @ [x]) \<and>
    (unat i < length (list_items (l, h)) \<longrightarrow>
     (\<exists>l' h'. stackQueueEnqueueAfterIndex (Some a) (Some l) i x h = Some (STATUS_SUCCESS, Some l', h') \<and>
      list_inv (l', h') \<and> list_items (l', h') =
        take (Suc (unat i)) (list_items (l, h)) @ x # drop (Suc (unat i)) (list_items (l, h))))"
proof (intro conjI impI)
  show "\<exists>l' h'. stackQueuePush (Some a) (Some l) x h = Some (STATUS_SUCCESS, Some l', h') \<and>
      list_inv (l', h') \<and> list_items (l', h') = x # list_items (l, h)"
    using push_items [OF assms, of x] by blast
  show "\<exists>l' h'. stackQueueEnqueue (Some a) (Some l) x h = Some (STATUS_SUCCESS, Some l', h') \<and>
      list_inv (l', h') \<and> list_items (l', h') = list_items (l, h) @ [x]"
    using enqueue_items [OF assms, of x] by blast
  assume "unat i < length (list_items (l, h))"
  then show "\<exists>l' h'. stackQueueEnqueueAfterIndex (Some a) (Some l) i x h = Some (STATUS_SUCCESS, Some l', h') \<and>
      list_inv (l', h') \<and> list_items (l', h') =
        take (Suc (unat i)) (list_items (l, h)) @ x # drop (Suc (unat i)) (list_items (l, h))"
    using enqueue_after_items [OF assms, of i x] by blast
qed

theorem stackQueue_insert_correct_witness:
  "\<exists>l' h'. stackQueueEnqueueAfterIndex (Some 7) (Some demo_list) 0 75 demo_heap =
     Some (STATUS_SUCCESS, Some l', h') \<and> list_inv (l', h') \<and> list_items (l', h') = [70, 75, 80]"
proof -
  have "demo_heap 7 = None" "sl_count demo_list \<noteq> 0xffffffff"
    by (simp_all add: demo_heap_def demo_list_def)
  then show ?thesis
    using stackQueue_insert_correct [OF demo_list_inv(1), of 7 75 0] by (auto simp: demo_list_inv(2))
qed

text \<open>Removal: dequeue and pop deliver the first item and leave the rest, or report an empty
  queue; removal at an index removes exactly that item, and an index past the end is refused;
  removal of an item removes its first occurrence, or reports that there is none.\<close>

theorem stackQueue_remove_correct:
  assumes inv: "list_inv (l, h)"
  shows "(case list_items (l, h) of
      [] \<Rightarrow> stackQueueDequeue (Some l) True h = Some (STATUS_NOT_FOUND, None, Some l, h) \<and>
            stackQueuePop (Some l) True h = Some (STATUS_NOT_FOUND, None, Some l, h)
    | x # xs \<Rightarrow> \<exists>l' h'. stackQueueDequeue (Some l) True h = Some (STATUS_SUCCESS, Some x, Some l', h') \<and>
        stackQueuePop (Some l) True h = Some (STATUS_SUCCESS, Some x, Some l', h') \<and>
        list_inv (l', h') \<and> list_items (l', h') = xs) \<and>
    (if unat i < length (list_items (l, h))
     then \<exists>l' h'. stackQueueRemoveAt (Some l) i h = Some (STATUS_SUCCESS, Some l', h') \<and>
       list_inv (l', h') \<and>
       list_items (l', h') = take (unat i) (list_items (l, h)) @ drop (Suc (unat i)) (list_items (l, h))
     else stackQueueRemoveAt (Some l) i h = Some (STATUS_INVALID_ARG, Some l, h)) \<and>
    (if y \<in> set (list_items (l, h))
     then \<exists>l' h'. stackQueueRemoveItem (Some l) y h = Some (STATUS_SUCCESS, Some l', h') \<and>
       list_inv (l', h') \<and> list_items (l', h') = remove1 y (list_items (l, h))
     else stackQueueRemoveItem (Some l) y h = Some (STATUS_NOT_FOUND, Some l, h))"
    (is "?head \<and> ?at \<and> ?item")
proof (intro conjI)
  have pop: "stackQueuePop (Some l) True h = stackQueueDequeue (Some l) True h"
    by (auto simp: stackQueuePop_def stackQueueDequeue_def stackQueuePeek_def split: option.splits)
  show ?head
    unfolding pop using dequeue_items [OF inv] by (auto split: list.splits)
  show ?at
  proof (cases "unat i < length (list_items (l, h))")
    case True
    obtain l' h' where "stackQueueRemoveAt (Some l) i h = Some (STATUS_SUCCESS, Some l', h')"
      "list_inv (l', h')"
      "list_items (l', h') = take (unat i) (list_items (l, h)) @ drop (Suc (unat i)) (list_items (l, h))"
      by (rule remove_at_items [OF inv True])
    then show ?thesis using True by simp
  next
    case False
    then show ?thesis using inv getNodeAt_at
      by (elim list_inv_items) (fastforce simp: stackQueueRemoveAt_def)
  qed
  show ?item
  proof (cases "y \<in> set (list_items (l, h))")
    case False
    then show ?thesis by (simp add: stackQueueRemoveItem_def index_of_items [OF inv]
          del: stackQueueGetIndexOf.simps)
  next
    case True
    let ?xs = "list_items (l, h)"
    let ?k = "length (takeWhile (\<lambda>d. d \<noteq> y) ?xs)"
    obtain us vs where us: "?xs = us @ y # vs" "y \<notin> set us" using split_list_first [OF True] by auto
    then have k: "takeWhile (\<lambda>d. d \<noteq> y) ?xs = us" by (auto simp: takeWhile_append)
    have "unat (of_nat (length us) :: UINT32) = length us"
    proof (rule unat_of_nat_below)
      show "length us < unat (sl_count l)" using us(1) list_items_length [OF inv] by simp
    qed
    then obtain l' h' where "stackQueueRemoveAt (Some l) (of_nat (length us)) h = Some (STATUS_SUCCESS, Some l', h')"
      "list_inv (l', h')" "list_items (l', h') = us @ vs"
      using remove_at_items [OF inv, of "of_nat (length us)"] us(1) by auto
    moreover have "remove1 y ?xs = us @ vs" using us by (simp add: remove1_append)
    ultimately show ?thesis using True
      by (simp add: stackQueueRemoveItem_def index_of_items [OF inv] k
          del: stackQueueGetIndexOf.simps)
  qed
qed

theorem stackQueue_remove_correct_witness:
  "\<exists>l' h'. stackQueueRemoveItem (Some demo_list) 80 demo_heap = Some (STATUS_SUCCESS, Some l', h') \<and>
     list_items (l', h') = [70]"
  using stackQueue_remove_correct [OF demo_list_inv(1), of 0 80] by (auto simp: demo_list_inv(2))

text \<open>C19. First in, first out: after any sequence of enqueues with distinct fresh nodes, the
  dequeues deliver the items that were there and then the new ones, in order, and end with an
  empty queue.\<close>

theorem stackQueue_fifo:
  assumes "list_inv s" "distinct (map fst kxs)" "\<forall>k \<in> set (map fst kxs). snd s k = None"
    "length (list_items s) + length kxs \<le> 2 ^ 32 - 1" "length (list_items s) + length kxs \<le> n"
  shows "\<exists>s'. feed sq_enqueue kxs s = Some s' \<and>
    fst (drain sq_next n s') = list_items s @ map snd kxs \<and> sq_next (snd (drain sq_next n s')) = None"
  using sq.feed_drain [OF assms(1,2) _ assms(4,5)] assms(3) by blast

theorem stackQueue_fifo_witness:
  "\<exists>s'. feed sq_enqueue [(5, 90), (6, 95)] (demo_list, demo_heap) = Some s' \<and>
    fst (drain sq_next 4 s') = [70, 80, 90, 95] \<and> sq_next (snd (drain sq_next 4 s')) = None"
  using stackQueue_fifo [OF demo_list_inv(1), of "[(5, 90), (6, 95)]" 4]
  by (simp add: demo_list_inv(2)) (simp add: demo_heap_def)

end
