(* ===== verification/HashTable.thy ===== *)
theory HashTable
  imports Prelude
begin

text \<open>
  The hash table of \<open>HashTable.c\<close>: an array of buckets, each a growing array of entries, with
  the FNV-1a hash of the key choosing the bucket. The entries of a bucket are its whole array,
  of which the first \<open>hb_count\<close> are in use. The memory that \<open>MEMALLOC\<close> returns, with its
  uninitialised content, is an argument of the operation that grows a bucket.
\<close>

subsection \<open>Data\<close>

record HashEntry =
  he_key :: UINT64
  he_value :: UINT64

record HashBucket =
  hb_count :: UINT32
  hb_length :: UINT32
  hb_entries :: "HashEntry list"

record HashTable =
  ht_itemCount :: UINT32
  ht_bucketCount :: UINT32
  ht_bucketLength :: UINT32
  ht_buckets :: "HashBucket list"

abbreviation (input) DEFAULT_HASH_TABLE_BUCKET_LENGTH :: UINT32 where
  "DEFAULT_HASH_TABLE_BUCKET_LENGTH \<equiv> 2"
abbreviation (input) DEFAULT_HASH_TABLE_BUCKET_COUNT :: UINT32 where
  "DEFAULT_HASH_TABLE_BUCKET_COUNT \<equiv> 10000"
abbreviation (input) MIN_HASH_TABLE_ENTRIES_ALLOC_LENGTH :: UINT32 where
  "MIN_HASH_TABLE_ENTRIES_ALLOC_LENGTH \<equiv> 8"
abbreviation (input) MIN_HASH_BUCKET_COUNT :: UINT32 where "MIN_HASH_BUCKET_COUNT \<equiv> 16"

subsection \<open>Hashing\<close>

text \<open>The loop over the bytes of the key, from byte \<open>i\<close> on, \<open>n\<close> of them.\<close>

fun keyHashLoop :: "nat \<Rightarrow> nat \<Rightarrow> UINT64 \<Rightarrow> UINT64 \<Rightarrow> UINT64" where
  "keyHashLoop 0 i key hash = hash"
| "keyHashLoop (Suc n) i key hash =
     keyHashLoop n (Suc i) key ((hash XOR (drop_bit (i * 8) key AND 0xff)) * 0x100000001b3)"

definition getKeyHash :: "UINT64 \<Rightarrow> UINT64" where
  "getKeyHash key = keyHashLoop 8 0 key 0xcbf29ce484222325"

text \<open>The position of the bucket that \<open>getHashBucket\<close> returns a pointer to.\<close>

definition getHashBucket :: "HashTable \<Rightarrow> UINT64 \<Rightarrow> nat" where
  "getHashBucket t key = unat (ucast (getKeyHash key mod ucast (ht_bucketCount t)) :: UINT32)"

subsection \<open>Creation and release\<close>

text \<open>
  The sizes are computed in 32 bits. A table whose size wraps would be accessed outside its
  allocation: the result is then \<open>None\<close>.
\<close>

definition hashTableAllocSize :: "UINT32 \<Rightarrow> UINT32 \<Rightarrow> UINT32" where
  "hashTableAllocSize bucketCount bucketLength =
     (let entryAllocSize = 16 * bucketLength; bucketAllocSize = 16 * bucketCount
      in 16 + bucketAllocSize + entryAllocSize * bucketCount)"

definition zero_entry :: HashEntry where "zero_entry = \<lparr>he_key = 0, he_value = 0\<rparr>"

definition hashTableCreateWithParams ::
  "UINT32 \<Rightarrow> UINT32 \<Rightarrow> bool \<Rightarrow> bool \<Rightarrow> (STATUS \<times> HashTable option) option" where
  "hashTableCreateWithParams bucketCount bucketLength ppHashTable calloc =
     (if \<not> (bucketCount \<ge> MIN_HASH_BUCKET_COUNT \<and> bucketLength > 0 \<and> ppHashTable)
      then Some (STATUS_NULL_ARG, None)
      else if \<not> calloc then Some (STATUS_NOT_ENOUGH_MEMORY, None)
      else if unat (hashTableAllocSize bucketCount bucketLength) <
              16 + 16 * unat bucketCount + 16 * unat bucketLength * unat bucketCount then None
      else Some (STATUS_SUCCESS, Some
        \<lparr>ht_itemCount = 0, ht_bucketCount = bucketCount, ht_bucketLength = bucketLength,
         ht_buckets = replicate (unat bucketCount)
           \<lparr>hb_count = 0, hb_length = bucketLength,
            hb_entries = replicate (unat bucketLength) zero_entry\<rparr>\<rparr>))"

definition hashTableCreate :: "bool \<Rightarrow> bool \<Rightarrow> (STATUS \<times> HashTable option) option" where
  "hashTableCreate ppHashTable calloc =
     hashTableCreateWithParams DEFAULT_HASH_TABLE_BUCKET_COUNT DEFAULT_HASH_TABLE_BUCKET_LENGTH
       ppHashTable calloc"

fun hashTableClear :: "HashTable option \<Rightarrow> STATUS \<times> HashTable option" where
  "hashTableClear None = (STATUS_NULL_ARG, None)"
| "hashTableClear (Some t) =
     (STATUS_SUCCESS, Some (t\<lparr>ht_buckets := map (\<lambda>b. b\<lparr>hb_count := 0\<rparr>) (ht_buckets t), ht_itemCount := 0\<rparr>))"

text \<open>The second component are the buckets whose entry arrays are freed on their own.\<close>

fun hashTableFree :: "HashTable option \<Rightarrow> STATUS \<times> HashBucket list" where
  "hashTableFree None = (STATUS_SUCCESS, [])"
| "hashTableFree (Some t) =
     (STATUS_SUCCESS, filter (\<lambda>b. hb_length b \<noteq> ht_bucketLength t) (ht_buckets t))"

subsection \<open>Queries\<close>

fun hashTableGetCount :: "HashTable option \<Rightarrow> bool \<Rightarrow> STATUS \<times> UINT32 option" where
  "hashTableGetCount (Some t) True = (STATUS_SUCCESS, Some (ht_itemCount t))"
| "hashTableGetCount _ _ = (STATUS_NULL_ARG, None)"

fun hashTableGetBucketCount :: "HashTable option \<Rightarrow> bool \<Rightarrow> STATUS \<times> UINT32 option" where
  "hashTableGetBucketCount (Some t) True = (STATUS_SUCCESS, Some (ht_bucketCount t))"
| "hashTableGetBucketCount _ _ = (STATUS_NULL_ARG, None)"

fun hashTableIsEmpty :: "HashTable option \<Rightarrow> bool \<Rightarrow> STATUS \<times> bool option" where
  "hashTableIsEmpty (Some t) True = (STATUS_SUCCESS, Some (ht_itemCount t = 0))"
| "hashTableIsEmpty _ _ = (STATUS_NULL_ARG, None)"

text \<open>The loop over the entries in use: the position of the first one with the key.\<close>

fun findEntry :: "UINT64 \<Rightarrow> nat \<Rightarrow> HashEntry list \<Rightarrow> nat option" where
  "findEntry key 0 es = None"
| "findEntry key (Suc n) [] = None"
| "findEntry key (Suc n) (e # es) =
     (if he_key e = key then Some 0 else map_option Suc (findEntry key n es))"

fun hashTableGet :: "HashTable option \<Rightarrow> UINT64 \<Rightarrow> bool \<Rightarrow> STATUS \<times> UINT64 option" where
  "hashTableGet (Some t) key True =
     (let b = ht_buckets t ! getHashBucket t key
      in case findEntry key (unat (hb_count b)) (hb_entries b) of
           None \<Rightarrow> (STATUS_HASH_KEY_NOT_PRESENT, None)
         | Some i \<Rightarrow> (STATUS_SUCCESS, Some (he_value (hb_entries b ! i))))"
| "hashTableGet _ _ _ = (STATUS_NULL_ARG, None)"

definition hashTableContains :: "HashTable option \<Rightarrow> UINT64 \<Rightarrow> bool \<Rightarrow> STATUS \<times> bool option" where
  "hashTableContains pt key pContains =
     (if \<not> pContains then (STATUS_NULL_ARG, None)
      else case hashTableGet pt key True of (st, _) \<Rightarrow>
        if \<not> (st = STATUS_HASH_KEY_NOT_PRESENT \<or> st = STATUS_SUCCESS) then (st, None)
        else (STATUS_SUCCESS, Some (st = STATUS_SUCCESS)))"

subsection \<open>Updates\<close>

definition grownLength :: "HashBucket \<Rightarrow> UINT32" where
  "grownLength b = max (hb_length b * 2) MIN_HASH_TABLE_ENTRIES_ALLOC_LENGTH"

text \<open>
  \<open>alloc\<close> is the content of the array that \<open>MEMALLOC\<close> returns, if it succeeds.
\<close>

definition growBucket :: "HashEntry list option \<Rightarrow> HashBucket \<Rightarrow> HashBucket option" where
  "growBucket alloc b =
     (if hb_count b \<noteq> hb_length b then Some b
      else case alloc of
        None \<Rightarrow> None
      | Some arr \<Rightarrow> Some (b\<lparr>hb_length := grownLength b,
          hb_entries := take (unat (hb_count b)) (hb_entries b) @ drop (unat (hb_count b)) arr\<rparr>))"

fun hashTableUpsert ::
  "HashEntry list option \<Rightarrow> HashTable option \<Rightarrow> UINT64 \<Rightarrow> UINT64 \<Rightarrow> STATUS \<times> HashTable option" where
  "hashTableUpsert alloc None key value = (STATUS_NULL_ARG, None)"
| "hashTableUpsert alloc (Some t) key value =
     (let i = getHashBucket t key; b = ht_buckets t ! i
      in case findEntry key (unat (hb_count b)) (hb_entries b) of
           Some k \<Rightarrow>
             (STATUS_SUCCESS, Some (t\<lparr>ht_buckets := (ht_buckets t)[i :=
                b\<lparr>hb_entries := (hb_entries b)[k := (hb_entries b ! k)\<lparr>he_value := value\<rparr>]\<rparr>]\<rparr>))
         | None \<Rightarrow>
             (case growBucket alloc b of
                None \<Rightarrow> (STATUS_NOT_ENOUGH_MEMORY, Some t)
              | Some b1 \<Rightarrow>
                  let n = unat (hb_count b1);
                      b2 = b1\<lparr>hb_entries := (hb_entries b1)[n := \<lparr>he_key = key, he_value = value\<rparr>],
                             hb_count := hb_count b1 + 1\<rparr>
                  in (STATUS_SUCCESS, Some (t\<lparr>ht_buckets := (ht_buckets t)[i := b2],
                        ht_itemCount := ht_itemCount t + 1\<rparr>))))"

definition hashTablePut ::
  "HashEntry list option \<Rightarrow> HashTable option \<Rightarrow> UINT64 \<Rightarrow> UINT64 \<Rightarrow> STATUS \<times> HashTable option" where
  "hashTablePut alloc pt key value =
     (case hashTableContains pt key True of (st, c) \<Rightarrow>
        if STATUS_FAILED st then (st, pt)
        else if c = Some True then (STATUS_HASH_KEY_ALREADY_PRESENT, pt)
        else hashTableUpsert alloc pt key value)"

text \<open>\<open>MEMMOVE\<close> of the \<open>m\<close> entries behind position \<open>k\<close> down by one.\<close>

definition moveEntries :: "nat \<Rightarrow> nat \<Rightarrow> HashEntry list \<Rightarrow> HashEntry list" where
  "moveEntries k m es = take k es @ take m (drop (Suc k) es) @ drop (k + m) es"

fun hashTableRemove :: "HashTable option \<Rightarrow> UINT64 \<Rightarrow> STATUS \<times> HashTable option" where
  "hashTableRemove None key = (STATUS_NULL_ARG, None)"
| "hashTableRemove (Some t) key =
     (let i = getHashBucket t key; b = ht_buckets t ! i
      in case findEntry key (unat (hb_count b)) (hb_entries b) of
           None \<Rightarrow> (STATUS_HASH_KEY_NOT_PRESENT, Some t)
         | Some k \<Rightarrow>
             let b1 = b\<lparr>hb_entries := moveEntries k (unat (hb_count b) - Suc k) (hb_entries b),
                       hb_count := hb_count b - 1\<rparr>
             in (STATUS_SUCCESS, Some (t\<lparr>ht_buckets := (ht_buckets t)[i := b1],
                   ht_itemCount := ht_itemCount t - 1\<rparr>)))"

subsection \<open>Enumeration\<close>

definition bucket_live :: "HashBucket \<Rightarrow> HashEntry list" where
  "bucket_live b = take (unat (hb_count b)) (hb_entries b)"

text \<open>
  \<open>pHashEntries\<close> says whether the buffer is given, \<open>pHashCount\<close> is the number the caller
  passes; the result has the entries copied and the count written back.
\<close>

fun hashTableGetAllEntries ::
  "HashTable option \<Rightarrow> bool \<Rightarrow> UINT32 option \<Rightarrow> STATUS \<times> HashEntry list \<times> UINT32 option" where
  "hashTableGetAllEntries (Some t) pHashEntries (Some n) =
     (if \<not> pHashEntries \<or> ht_itemCount t = 0 then (STATUS_SUCCESS, [], Some (ht_itemCount t))
      else if \<not> n \<ge> ht_itemCount t then (STATUS_BUFFER_TOO_SMALL, [], None)
      else (STATUS_SUCCESS, concat (map bucket_live (ht_buckets t)), Some (ht_itemCount t)))"
| "hashTableGetAllEntries _ _ _ = (STATUS_NULL_ARG, [], None)"

text \<open>The callback works on the caller's data \<open>'c\<close>; the loop stops at the first non-success.\<close>

fun iterateEntries ::
  "('c \<Rightarrow> HashEntry \<Rightarrow> STATUS \<times> 'c) \<Rightarrow> HashEntry list \<Rightarrow> 'c \<Rightarrow> STATUS \<times> 'c" where
  "iterateEntries f [] c = (STATUS_SUCCESS, c)"
| "iterateEntries f (e # es) c =
     (case f c e of (st, c') \<Rightarrow>
        if \<not> (st = STATUS_HASH_ENTRY_ITERATION_ABORT \<or> st = STATUS_SUCCESS) then (st, c')
        else if st = STATUS_HASH_ENTRY_ITERATION_ABORT then (STATUS_SUCCESS, c')
        else iterateEntries f es c')"

fun hashTableIterateEntries ::
  "HashTable option \<Rightarrow> ('c \<Rightarrow> HashEntry \<Rightarrow> STATUS \<times> 'c) option \<Rightarrow> 'c \<Rightarrow> STATUS \<times> 'c" where
  "hashTableIterateEntries (Some t) (Some f) c =
     iterateEntries f (concat (map bucket_live (ht_buckets t))) c"
| "hashTableIterateEntries _ _ c = (STATUS_NULL_ARG, c)"

end
