(* ===== verification/HashTableProps.thy ===== *)
theory HashTableProps
  imports HashTable Interfaces
begin

text \<open>
  The hash table implements a finite map: the representation invariant, the map it stands for,
  what each operation does to the map, and the key-value store contract by interpretation.
\<close>

subsection \<open>Entry arrays as maps\<close>

definition entry_map :: "HashEntry list \<Rightarrow> UINT64 \<rightharpoonup> UINT64" where
  "entry_map es = map_of (map (\<lambda>e. (he_key e, he_value e)) es)"

lemma entry_map_simps [simp]:
  "entry_map [] = Map.empty"
  "entry_map (e # es) = (entry_map es)(he_key e \<mapsto> he_value e)"
  by (simp_all add: entry_map_def)

lemma dom_entry_map: "dom (entry_map es) = he_key ` set es"
  by (simp add: entry_map_def dom_map_of_conv_image_fst image_image)

lemma entry_map_None: "entry_map es k = None \<longleftrightarrow> k \<notin> he_key ` set es"
  using dom_entry_map [of es] by blast

lemma findEntry_spec:
  "findEntry key n es = None \<Longrightarrow> entry_map (take n es) key = None"
  "findEntry key n es = Some i \<Longrightarrow> i < n \<and> i < length es \<and> he_key (es ! i) = key \<and>
     entry_map (take n es) key = Some (he_value (es ! i))"
proof (induction key n es arbitrary: i rule: findEntry.induct)
  case (3 key n e es)
  {
    case 1
    then show ?case using "3.IH"(1) by (auto split: if_splits)
  next
    case 2
    then show ?case using "3.IH"(2) by (auto split: if_splits)
  }
qed auto

lemma entry_map_update:
  assumes "distinct (map he_key es)" "k < length es"
  shows "entry_map (es[k := (es ! k)\<lparr>he_value := v\<rparr>]) = (entry_map es)(he_key (es ! k) \<mapsto> v)"
  using assms
proof (induction es arbitrary: k)
  case (Cons e es)
  show ?case
  proof (cases k)
    case (Suc j)
    then have "he_key (es ! j) \<in> he_key ` set es" using Cons.prems(2) by simp
    then have "he_key (es ! j) \<noteq> he_key e" using Cons.prems(1) by auto
    then show ?thesis using Suc Cons by (auto simp: fun_eq_iff)
  qed (auto simp: fun_eq_iff)
qed simp

lemma entry_map_snoc:
  "he_key e \<notin> he_key ` set es \<Longrightarrow> entry_map (es @ [e]) = (entry_map es)(he_key e \<mapsto> he_value e)"
  by (induction es) (auto simp: fun_upd_twist)

lemma entry_map_delete:
  assumes "distinct (map he_key es)" "k < length es"
  shows "entry_map (take k es @ drop (Suc k) es) = (entry_map es)(he_key (es ! k) := None)"
  using assms
proof (induction es arbitrary: k)
  case (Cons e es)
  show ?case
  proof (cases k)
    case 0
    have "entry_map es (he_key e) = None" using Cons.prems(1) by (simp add: entry_map_None)
    then show ?thesis using 0 by (auto simp: fun_eq_iff)
  next
    case (Suc j)
    then have "he_key (es ! j) \<in> he_key ` set es" using Cons.prems(2) by simp
    then have "he_key (es ! j) \<noteq> he_key e" using Cons.prems(1) by auto
    then show ?thesis using Suc Cons by (auto simp: fun_eq_iff)
  qed
qed simp

lemma keys_update: "map he_key (es[k := (es ! k)\<lparr>he_value := v\<rparr>]) = map he_key es"
  by (simp add: map_update list_update_same_conv) (metis list_update_id map_update)

subsection \<open>The invariant and the map\<close>

definition bucket_ok :: "HashTable \<Rightarrow> nat \<Rightarrow> HashBucket \<Rightarrow> bool" where
  "bucket_ok t i b \<longleftrightarrow> length (hb_entries b) = unat (hb_length b) \<and> hb_count b \<le> hb_length b \<and>
     distinct (map he_key (bucket_live b)) \<and>
     (\<forall>key \<in> set (map he_key (bucket_live b)). getHashBucket t key = i)"

definition ht_inv :: "HashTable \<Rightarrow> bool" where
  "ht_inv t \<longleftrightarrow> length (ht_buckets t) = unat (ht_bucketCount t) \<and> 16 \<le> unat (ht_bucketCount t) \<and>
     (\<forall>i < length (ht_buckets t). bucket_ok t i (ht_buckets t ! i)) \<and>
     ht_itemCount t = of_nat (length (concat (map bucket_live (ht_buckets t))))"

definition ht_map :: "HashTable \<Rightarrow> UINT64 \<rightharpoonup> UINT64" where
  "ht_map t key = entry_map (bucket_live (ht_buckets t ! getHashBucket t key)) key"

lemma getHashBucket_cong [simp]:
  "getHashBucket (t\<lparr>ht_buckets := bs\<rparr>) = getHashBucket t"
  "getHashBucket (t\<lparr>ht_itemCount := n\<rparr>) = getHashBucket t"
  by (simp_all add: getHashBucket_def fun_eq_iff)

lemma bucket_ok_cong [simp]:
  "bucket_ok (t\<lparr>ht_buckets := bs\<rparr>) = bucket_ok t" "bucket_ok (t\<lparr>ht_itemCount := n\<rparr>) = bucket_ok t"
  by (simp_all add: bucket_ok_def fun_eq_iff)

lemma getHashBucket_less:
  assumes "0 < unat (ht_bucketCount t)"
  shows "getHashBucket t key < unat (ht_bucketCount t)"
proof -
  let ?x = "getKeyHash key mod ucast (ht_bucketCount t)"
  have "unat ?x < unat (ht_bucketCount t)"
    using assms by (simp add: unat_mod unat_ucast_up)
  moreover have "unat (ucast ?x :: UINT32) \<le> unat ?x"
    by (simp add: unsigned_ucast_eq take_bit_eq_mod)
  ultimately show ?thesis by (simp add: getHashBucket_def)
qed

lemma ht_inv_bucket:
  assumes "ht_inv t"
  shows "getHashBucket t key < length (ht_buckets t)"
    "bucket_ok t (getHashBucket t key) (ht_buckets t ! getHashBucket t key)"
proof -
  have "0 < unat (ht_bucketCount t)" using assms by (simp add: ht_inv_def)
  from getHashBucket_less [OF this] show "getHashBucket t key < length (ht_buckets t)"
    using assms by (simp add: ht_inv_def)
  then show "bucket_ok t (getHashBucket t key) (ht_buckets t ! getHashBucket t key)"
    using assms by (simp add: ht_inv_def)
qed

text \<open>Replacing one bucket changes the map at its keys only, and the total by the difference.\<close>

lemma ht_map_bucket:
  assumes "getHashBucket t key < length (ht_buckets t)"
    and "entry_map (bucket_live b') = (entry_map (bucket_live (ht_buckets t ! getHashBucket t key)))(key := x)"
  shows "ht_map (t\<lparr>ht_buckets := (ht_buckets t)[getHashBucket t key := b']\<rparr>) = (ht_map t)(key := x)"
  using assms by (auto simp: ht_map_def fun_eq_iff nth_list_update)

lemma concat_update_length:
  "i < length bs \<Longrightarrow>
   of_nat (length (concat (map f (bs[i := b'])))) + of_nat (length (f (bs ! i))) =
   (of_nat (length (concat (map f bs))) + of_nat (length (f b')) :: 'a::comm_semiring_1)"
proof (induction bs arbitrary: i)
  case (Cons b bs)
  then show ?case by (cases i) (auto simp: algebra_simps)
qed simp

lemma ht_inv_bucket_update:
  assumes "ht_inv t" "i < length (ht_buckets t)" "bucket_ok t i b'"
    and "n + of_nat (length (bucket_live (ht_buckets t ! i))) =
      ht_itemCount t + of_nat (length (bucket_live b'))"
  shows "ht_inv (t\<lparr>ht_buckets := (ht_buckets t)[i := b'], ht_itemCount := n\<rparr>)"
proof -
  let ?bs = "(ht_buckets t)[i := b']"
  have "of_nat (length (concat (map bucket_live ?bs))) + of_nat (length (bucket_live (ht_buckets t ! i))) =
      (ht_itemCount t + of_nat (length (bucket_live b')) :: UINT32)"
    using concat_update_length [OF assms(2), of bucket_live b'] assms(1) by (simp add: ht_inv_def)
  then have "n = of_nat (length (concat (map bucket_live ?bs)))"
    using assms(4) by (metis add_right_cancel)
  then show ?thesis
    using assms(1-3) by (auto simp: ht_inv_def nth_list_update)
qed

lemma length_live: "bucket_ok t i b \<Longrightarrow> length (bucket_live b) = unat (hb_count b)"
  by (simp add: bucket_ok_def bucket_live_def word_le_nat_alt)

subsection \<open>The operations\<close>

lemma hashTableGet_map:
  assumes "ht_inv t"
  shows "hashTableGet (Some t) key True =
    (case ht_map t key of None \<Rightarrow> (STATUS_HASH_KEY_NOT_PRESENT, None) | Some v \<Rightarrow> (STATUS_SUCCESS, Some v))"
  using findEntry_spec
  by (auto simp: ht_map_def bucket_live_def Let_def split: option.splits)

lemma ht_map_find:
  "ht_map t key = None \<longleftrightarrow>
   findEntry key (unat (hb_count (ht_buckets t ! getHashBucket t key)))
     (hb_entries (ht_buckets t ! getHashBucket t key)) = None"
proof -
  let ?b = "ht_buckets t ! getHashBucket t key"
  have m: "ht_map t key = entry_map (take (unat (hb_count ?b)) (hb_entries ?b)) key"
    by (simp add: ht_map_def bucket_live_def)
  show ?thesis
  proof (cases "findEntry key (unat (hb_count ?b)) (hb_entries ?b)")
    case None
    then show ?thesis using findEntry_spec(1) [OF None] m by simp
  next
    case (Some i)
    then show ?thesis using findEntry_spec(2) [OF Some] m by simp
  qed
qed

lemma upsert_present:
  assumes inv: "ht_inv t" and pres: "ht_map t key \<noteq> None"
  obtains t' where "hashTableUpsert alloc (Some t) key v = (STATUS_SUCCESS, Some t')" "ht_inv t'"
    "ht_map t' = (ht_map t)(key \<mapsto> v)" "ht_itemCount t' = ht_itemCount t"
proof -
  let ?i = "getHashBucket t key"
  let ?b = "ht_buckets t ! ?i"
  note b = ht_inv_bucket [OF inv, of key]
  obtain k where k: "findEntry key (unat (hb_count ?b)) (hb_entries ?b) = Some k"
    using pres ht_map_find [of t key] by fastforce
  note fk = findEntry_spec(2) [OF k]
  let ?e = "(hb_entries ?b ! k)\<lparr>he_value := v\<rparr>"
  let ?b' = "?b\<lparr>hb_entries := (hb_entries ?b)[k := ?e]\<rparr>"
  have live: "bucket_live ?b' = (bucket_live ?b)[k := (bucket_live ?b ! k)\<lparr>he_value := v\<rparr>]"
    using fk by (simp add: bucket_live_def take_update_swap)
  have kl: "k < length (bucket_live ?b)" "he_key (bucket_live ?b ! k) = key"
    using fk by (auto simp: bucket_live_def)
  have keys: "map he_key (bucket_live ?b') = map he_key (bucket_live ?b)"
    unfolding live by (rule keys_update)
  have "length (hb_entries ?b') = unat (hb_length ?b')" "hb_count ?b' \<le> hb_length ?b'"
    using b(2) by (simp_all add: bucket_ok_def)
  then have ok: "bucket_ok t ?i ?b'"
    using b(2) unfolding bucket_ok_def keys by blast
  let ?t = "t\<lparr>ht_buckets := (ht_buckets t)[?i := ?b']\<rparr>"
  have "length (bucket_live ?b') = length (bucket_live ?b)" unfolding live by simp
  then have cnt: "ht_itemCount t + of_nat (length (bucket_live ?b)) =
      ht_itemCount t + of_nat (length (bucket_live ?b'))" by (simp only:)
  have same: "t\<lparr>ht_buckets := bs, ht_itemCount := ht_itemCount t\<rparr> = t\<lparr>ht_buckets := bs\<rparr>" for bs by simp
  have "distinct (map he_key (bucket_live ?b))" using b(2) by (simp add: bucket_ok_def)
  from entry_map_update [OF this kl(1), of v]
  have em: "entry_map (bucket_live ?b') = (entry_map (bucket_live ?b))(key \<mapsto> v)"
    unfolding live kl(2) .
  have "hashTableUpsert alloc (Some t) key v = (STATUS_SUCCESS, Some ?t)"
    using k by (simp add: Let_def)
  from that [OF this ht_inv_bucket_update [OF inv b(1) ok cnt, unfolded same] ht_map_bucket [OF b(1) em]]
  show thesis by simp
qed

text \<open>Growing a bucket keeps its live entries and makes room for one more.\<close>

definition alloc_for :: "HashEntry list option \<Rightarrow> HashTable \<Rightarrow> UINT64 \<Rightarrow> bool" where
  "alloc_for alloc t key \<longleftrightarrow>
     (let b = ht_buckets t ! getHashBucket t key
      in unat (hb_length b) < 2 ^ 27 \<and> (\<exists>arr. alloc = Some arr \<and> length arr = unat (grownLength b)))"

lemma grown_length: "unat (hb_length b) < 2 ^ 27 \<Longrightarrow> unat (hb_length b) < unat (grownLength b)"
proof -
  assume a: "unat (hb_length b) < 2 ^ 27"
  then have "unat (hb_length b * 2) = unat (hb_length b) * 2" by (simp add: unat_word_ariths)
  then show ?thesis by (auto simp: grownLength_def max_def word_le_nat_alt)
qed

lemma grow_ok:
  assumes b: "bucket_ok t i b" and al: "unat (hb_length b) < 2 ^ 27" "length arr = unat (grownLength b)"
  obtains b1 where "growBucket (Some arr) b = Some b1" "bucket_live b1 = bucket_live b"
    "hb_count b1 = hb_count b" "hb_count b1 < hb_length b1" "length (hb_entries b1) = unat (hb_length b1)"
proof (cases "hb_count b = hb_length b")
  case False
  then show thesis using that b by (auto simp: growBucket_def bucket_ok_def order.strict_iff_order)
next
  case True
  let ?b = "b\<lparr>hb_length := grownLength b,
    hb_entries := take (unat (hb_count b)) (hb_entries b) @ drop (unat (hb_count b)) arr\<rparr>"
  have len: "length (hb_entries b) = unat (hb_length b)" using b by (simp add: bucket_ok_def)
  have "growBucket (Some arr) b = Some ?b" using True by (simp add: growBucket_def)
  moreover have "hb_count ?b < hb_length ?b"
    using grown_length [OF al(1)] True by (simp add: word_less_nat_alt)
  moreover have "bucket_live ?b = bucket_live b" using True len by (simp add: bucket_live_def)
  moreover have "length (hb_entries ?b) = unat (hb_length ?b)"
    using True len al(2) grown_length [OF al(1)] by simp
  ultimately show thesis using that by simp
qed

lemma upsert_absent:
  assumes inv: "ht_inv t" and abs: "ht_map t key = None" and al: "alloc_for alloc t key"
  obtains t' where "hashTableUpsert alloc (Some t) key v = (STATUS_SUCCESS, Some t')" "ht_inv t'"
    "ht_map t' = (ht_map t)(key \<mapsto> v)" "ht_itemCount t' = ht_itemCount t + 1"
proof -
  let ?i = "getHashBucket t key"
  let ?b = "ht_buckets t ! ?i"
  note b = ht_inv_bucket [OF inv, of key]
  obtain arr where arr: "alloc = Some arr" "length arr = unat (grownLength ?b)" "unat (hb_length ?b) < 2 ^ 27"
    using al by (auto simp: alloc_for_def Let_def)
  obtain b1 where b1: "growBucket alloc ?b = Some b1" "bucket_live b1 = bucket_live ?b"
    "hb_count b1 = hb_count ?b" "hb_count b1 < hb_length b1" "length (hb_entries b1) = unat (hb_length b1)"
    using grow_ok [OF b(2) arr(3,2)] arr(1) by auto
  let ?n = "unat (hb_count b1)" and ?e = "\<lparr>he_key = key, he_value = v\<rparr>"
  let ?b2 = "b1\<lparr>hb_entries := (hb_entries b1)[?n := ?e], hb_count := hb_count b1 + 1\<rparr>"
  have n: "?n < length (hb_entries b1)" "unat (hb_count b1 + 1) = Suc ?n"
    using b1(4,5) unat_Suc_less [OF b1(4)] by (auto simp: word_less_nat_alt)
  have live: "bucket_live ?b2 = bucket_live ?b @ [?e]"
    unfolding b1(2) [symmetric] using n by (simp add: bucket_live_def take_Suc_conv_app_nth)
  have new: "key \<notin> he_key ` set (bucket_live ?b)"
    using abs by (simp add: ht_map_def entry_map_None)
  have "hb_count b1 + 1 \<le> hb_length b1" using word_inc_le(1) [OF b1(4)] .
  then have ok: "bucket_ok t ?i ?b2"
    using b(2) new n b1(5) unfolding bucket_ok_def live by auto
  let ?t = "t\<lparr>ht_buckets := (ht_buckets t)[?i := ?b2], ht_itemCount := ht_itemCount t + 1\<rparr>"
  have "ht_inv ?t"
    by (rule ht_inv_bucket_update [OF inv b(1) ok]) (simp only: live, simp)
  moreover have "ht_map ?t = (ht_map t)(key \<mapsto> v)"
  proof -
    have "entry_map (bucket_live ?b2) = (entry_map (bucket_live ?b))(key \<mapsto> v)"
      unfolding live using new by (subst entry_map_snoc) auto
    from ht_map_bucket [OF b(1) this] show ?thesis by (simp add: ht_map_def fun_eq_iff)
  qed
  moreover have "hashTableUpsert alloc (Some t) key v = (STATUS_SUCCESS, Some ?t)"
    using b1(1) abs ht_map_find [of t key] by (simp add: Let_def)
  ultimately show thesis using that by (simp del: hashTableUpsert.simps)
qed

lemma take_moveEntries:
  assumes "k < n" "n \<le> length es"
  shows "take (n - 1) (moveEntries k (n - Suc k) es) = take k (take n es) @ drop (Suc k) (take n es)"
proof -
  have "min (n - 1) k = k" "min n k = k" using assms by auto
  then show ?thesis using assms by (simp add: moveEntries_def drop_take)
qed

lemma remove_present:
  assumes inv: "ht_inv t" and pres: "ht_map t key \<noteq> None"
  obtains t' where "hashTableRemove (Some t) key = (STATUS_SUCCESS, Some t')" "ht_inv t'"
    "ht_map t' = (ht_map t)(key := None)" "ht_itemCount t' = ht_itemCount t - 1"
proof -
  let ?i = "getHashBucket t key"
  let ?b = "ht_buckets t ! ?i"
  note b = ht_inv_bucket [OF inv, of key]
  obtain k where k: "findEntry key (unat (hb_count ?b)) (hb_entries ?b) = Some k"
    using pres ht_map_find [of t key] by fastforce
  note fk = findEntry_spec(2) [OF k]
  let ?m = "unat (hb_count ?b) - Suc k"
  let ?b' = "?b\<lparr>hb_entries := moveEntries k ?m (hb_entries ?b), hb_count := hb_count ?b - 1\<rparr>"
  have nz: "hb_count ?b \<noteq> 0" using fk by (auto simp: unat_eq_zero)
  have cnt: "unat (hb_count ?b - 1) = unat (hb_count ?b) - 1" using unat_pred_nonzero [OF nz] .
  have len: "length (hb_entries ?b) = unat (hb_length ?b)" "unat (hb_count ?b) \<le> length (hb_entries ?b)"
    using b(2) by (auto simp: bucket_ok_def word_le_nat_alt)
  have live: "bucket_live ?b' = take k (bucket_live ?b) @ drop (Suc k) (bucket_live ?b)"
    using take_moveEntries [of k "unat (hb_count ?b)" "hb_entries ?b"] fk len(2) cnt by (simp add: bucket_live_def)
  have kl: "k < length (bucket_live ?b)" "he_key (bucket_live ?b ! k) = key"
    using fk by (auto simp: bucket_live_def)
  have split: "bucket_live ?b = take k (bucket_live ?b) @ bucket_live ?b ! k # drop (Suc k) (bucket_live ?b)"
    using id_take_nth_drop [OF kl(1)] .
  have "set (map he_key (bucket_live ?b')) \<subseteq> set (map he_key (bucket_live ?b))"
    unfolding live using set_take_subset [of k "bucket_live ?b"] set_drop_subset [of "Suc k" "bucket_live ?b"]
    by auto
  moreover have "distinct (map he_key (bucket_live ?b'))"
  proof -
    have "distinct (map he_key (bucket_live ?b))" using b(2) by (simp add: bucket_ok_def)
    then show ?thesis unfolding live by (subst (asm) split) simp
  qed
  moreover have "length (hb_entries ?b') = unat (hb_length ?b')"
    using len fk by (simp add: moveEntries_def)
  moreover have "hb_count ?b' \<le> hb_length ?b'" using cnt len by (simp add: word_le_nat_alt)
  ultimately have ok: "bucket_ok t ?i ?b'" using b(2) unfolding bucket_ok_def by blast
  let ?t = "t\<lparr>ht_buckets := (ht_buckets t)[?i := ?b'], ht_itemCount := ht_itemCount t - 1\<rparr>"
  have "length (bucket_live ?b) = Suc (length (bucket_live ?b'))" using kl(1) by (simp add: live)
  then have "ht_itemCount t - 1 + of_nat (length (bucket_live ?b)) =
      ht_itemCount t + of_nat (length (bucket_live ?b'))" by simp
  from ht_inv_bucket_update [OF inv b(1) ok this] have "ht_inv ?t" .
  moreover have "ht_map ?t = (ht_map t)(key := None)"
  proof -
    have "distinct (map he_key (bucket_live ?b))" using b(2) by (simp add: bucket_ok_def)
    from entry_map_delete [OF this kl(1)]
    have "entry_map (bucket_live ?b') = (entry_map (bucket_live ?b))(key := None)"
      unfolding live using kl(2) by simp
    from ht_map_bucket [OF b(1) this] show ?thesis by (simp add: ht_map_def fun_eq_iff)
  qed
  moreover have "hashTableRemove (Some t) key = (STATUS_SUCCESS, Some ?t)"
    using k by (simp add: Let_def)
  ultimately show thesis using that by (simp del: hashTableRemove.simps)
qed

lemma remove_missing:
  "ht_map t key = None \<Longrightarrow> hashTableRemove (Some t) key = (STATUS_HASH_KEY_NOT_PRESENT, Some t)"
  using ht_map_find [of t key] by (simp add: Let_def)

subsection \<open>The created and the cleared table\<close>

lemma create_inv:
  assumes "hashTableCreateWithParams n len pp calloc = Some (st, Some t)"
  shows "ht_inv t" "ht_map t = Map.empty" "ht_itemCount t = 0"
proof -
  have t: "t = \<lparr>ht_itemCount = 0, ht_bucketCount = n, ht_bucketLength = len,
      ht_buckets = replicate (unat n) \<lparr>hb_count = 0, hb_length = len,
        hb_entries = replicate (unat len) zero_entry\<rparr>\<rparr>" and n: "16 \<le> n"
    using assms by (auto simp: hashTableCreateWithParams_def split: if_splits)
  have n16: "16 \<le> unat n" using n by (simp add: word_le_nat_alt)
  show inv: "ht_inv t"
    using n16 by (simp add: t ht_inv_def bucket_ok_def bucket_live_def)
  have "ht_map t key = None" for key
    using ht_inv_bucket(1) [OF inv, of key] by (simp add: ht_map_def t bucket_live_def)
  then show "ht_map t = Map.empty" by (simp add: fun_eq_iff)
  show "ht_itemCount t = 0" by (simp add: t)
qed

lemma concat_map_empty: "concat (map (\<lambda>x. []) xs) = []"
  by (induction xs) simp_all

lemma clear_inv:
  assumes "ht_inv t"
  obtains t' where "hashTableClear (Some t) = (STATUS_SUCCESS, Some t')" "ht_inv t'" "ht_map t' = Map.empty"
proof -
  let ?t = "t\<lparr>ht_buckets := map (\<lambda>b. b\<lparr>hb_count := 0\<rparr>) (ht_buckets t), ht_itemCount := 0\<rparr>"
  have live: "bucket_live (b\<lparr>hb_count := 0\<rparr>) = []" for b by (simp add: bucket_live_def)
  have "bucket_ok t i (b\<lparr>hb_count := 0\<rparr>)" if "bucket_ok t i b" for i b
    using that by (simp add: bucket_ok_def live)
  then have "ht_inv ?t" using assms by (simp add: ht_inv_def live comp_def concat_map_empty)
  moreover have "ht_map ?t = Map.empty"
    using ht_inv_bucket(1) [OF assms] by (simp add: ht_map_def live fun_eq_iff)
  ultimately show thesis using that by simp
qed

subsection \<open>The enumeration\<close>

definition all_live :: "HashTable \<Rightarrow> HashEntry list" where
  "all_live t = concat (map bucket_live (ht_buckets t))"

lemma live_index:
  assumes "ht_inv t" "i < length (ht_buckets t)" "e \<in> set (bucket_live (ht_buckets t ! i))"
  shows "getHashBucket t (he_key e) = i"
  using assms by (auto simp: ht_inv_def bucket_ok_def)

lemma distinct_concat_map:
  "(\<And>i. i < length xs \<Longrightarrow> distinct (map f (g (xs ! i)))) \<Longrightarrow>
   (\<And>i j x y. i < length xs \<Longrightarrow> j < length xs \<Longrightarrow> x \<in> set (g (xs ! i)) \<Longrightarrow> y \<in> set (g (xs ! j)) \<Longrightarrow>
      f x = f y \<Longrightarrow> i = j) \<Longrightarrow>
   distinct (map f (concat (map g xs)))"
proof (induction xs)
  case (Cons a xs)
  have "distinct (map f (g a))" using Cons.prems(1) [of 0] by simp
  moreover have "distinct (map f (concat (map g xs)))"
  proof (rule Cons.IH)
    show "distinct (map f (g (xs ! i)))" if "i < length xs" for i
      using Cons.prems(1) [of "Suc i"] that by simp
    show "i = j" if "i < length xs" "j < length xs" "x \<in> set (g (xs ! i))" "y \<in> set (g (xs ! j))" "f x = f y"
      for i j x y using Cons.prems(2) [of "Suc i" "Suc j" x y] that by simp
  qed
  moreover have "f x \<noteq> f y" if x: "x \<in> set (g a)" and y: "y \<in> set (concat (map g xs))" for x y
  proof
    assume eq: "f x = f y"
    obtain b where "b \<in> set xs" "y \<in> set (g b)" using y by auto
    then obtain j where "j < length xs" "y \<in> set (g (xs ! j))" by (metis in_set_conv_nth)
    then show False using Cons.prems(2) [of 0 "Suc j" x y] x eq by simp
  qed
  ultimately show ?case by (auto simp: image_iff)
qed simp

lemma all_live_distinct: "ht_inv t \<Longrightarrow> distinct (map he_key (all_live t))"
  unfolding all_live_def
  by (rule distinct_concat_map) (auto simp: ht_inv_def bucket_ok_def, metis)

lemma entry_map_distinct:
  "distinct (map he_key es) \<Longrightarrow> entry_map es k = Some v \<longleftrightarrow> \<lparr>he_key = k, he_value = v\<rparr> \<in> set es"
proof (induction es)
  case (Cons e es)
  have "\<lparr>he_key = he_key e, he_value = w\<rparr> \<notin> set es" for w
    using Cons.prems by (force simp: image_iff)
  moreover have "e = \<lparr>he_key = k, he_value = v\<rparr> \<longleftrightarrow> he_key e = k \<and> he_value e = v" by (cases e) auto
  ultimately show ?case using Cons by auto
qed simp

lemma all_live_bucket:
  assumes "ht_inv t"
  shows "e \<in> set (all_live t) \<longleftrightarrow> e \<in> set (bucket_live (ht_buckets t ! getHashBucket t (he_key e)))"
proof
  assume "e \<in> set (all_live t)"
  then obtain b where b: "b \<in> set (ht_buckets t)" "e \<in> set (bucket_live b)"
    by (auto simp: all_live_def)
  obtain j where j: "j < length (ht_buckets t)" "ht_buckets t ! j = b"
    using b(1) by (metis in_set_conv_nth)
  then show "e \<in> set (bucket_live (ht_buckets t ! getHashBucket t (he_key e)))"
    using live_index [OF assms j(1)] b(2) by simp
next
  assume "e \<in> set (bucket_live (ht_buckets t ! getHashBucket t (he_key e)))"
  then show "e \<in> set (all_live t)"
    using nth_mem [OF ht_inv_bucket(1) [OF assms, of "he_key e"]] by (auto simp: all_live_def)
qed

lemma all_live_map:
  assumes "ht_inv t"
  shows "entry_map (all_live t) = ht_map t"
proof
  fix k
  have "distinct (map he_key (bucket_live (ht_buckets t ! getHashBucket t k)))"
    using ht_inv_bucket(2) [OF assms, of k] by (simp add: bucket_ok_def)
  from entry_map_distinct [OF this]
  have "entry_map (all_live t) k = Some v \<longleftrightarrow> ht_map t k = Some v" for v
    using entry_map_distinct [OF all_live_distinct [OF assms], of k v]
      all_live_bucket [OF assms, of "\<lparr>he_key = k, he_value = v\<rparr>"]
    by (simp add: ht_map_def)
  then show "entry_map (all_live t) k = ht_map t k" by (metis not_None_eq)
qed

subsection \<open>The key-value store\<close>

definition ht_get :: "UINT64 \<Rightarrow> HashTable \<Rightarrow> UINT64 option" where
  "ht_get key t = snd (hashTableGet (Some t) key True)"

text \<open>An update whose allocation succeeds, with zeroed memory.\<close>

definition ht_fresh :: "HashTable \<Rightarrow> UINT64 \<Rightarrow> HashEntry list option" where
  "ht_fresh t key = Some (replicate (unat (grownLength (ht_buckets t ! getHashBucket t key))) zero_entry)"

definition ht_upsert :: "UINT64 \<Rightarrow> UINT64 \<Rightarrow> HashTable \<Rightarrow> HashTable option" where
  "ht_upsert key v t = (case hashTableUpsert (ht_fresh t key) (Some t) key v of
     (st, t') \<Rightarrow> if STATUS_FAILED st then None else t')"

definition ht_remove :: "UINT64 \<Rightarrow> HashTable \<Rightarrow> HashTable option" where
  "ht_remove key t = (case hashTableRemove (Some t) key of
     (st, t') \<Rightarrow> if STATUS_FAILED st then None else t')"

definition ht_room :: "UINT64 \<Rightarrow> HashTable \<Rightarrow> bool" where
  "ht_room key t \<longleftrightarrow> unat (hb_length (ht_buckets t ! getHashBucket t key)) < 2 ^ 27"

lemma ht_fresh_alloc: "ht_room key t \<Longrightarrow> alloc_for (ht_fresh t key) t key"
  by (simp add: alloc_for_def ht_fresh_def ht_room_def Let_def)

lemma ht_upsert_store:
  assumes "ht_inv t" "ht_room key t"
  shows "\<exists>t'. ht_upsert key v t = Some t' \<and> ht_inv t' \<and> ht_map t' = (ht_map t)(key \<mapsto> v)"
proof (cases "ht_map t key")
  case None
  obtain t' where "hashTableUpsert (ht_fresh t key) (Some t) key v = (STATUS_SUCCESS, Some t')" "ht_inv t'"
    "ht_map t' = (ht_map t)(key \<mapsto> v)"
    by (rule upsert_absent [OF assms(1) None ht_fresh_alloc [OF assms(2)]])
  then show ?thesis by (simp add: ht_upsert_def del: hashTableUpsert.simps)
next
  case (Some w)
  then have "ht_map t key \<noteq> None" by simp
  then obtain t' where "hashTableUpsert (ht_fresh t key) (Some t) key v = (STATUS_SUCCESS, Some t')" "ht_inv t'"
    "ht_map t' = (ht_map t)(key \<mapsto> v)"
    by (rule upsert_present [OF assms(1)])
  then show ?thesis by (simp add: ht_upsert_def del: hashTableUpsert.simps)
qed

lemma ht_remove_store:
  assumes "ht_inv t" "ht_map t key \<noteq> None"
  shows "\<exists>t'. ht_remove key t = Some t' \<and> ht_inv t' \<and> ht_map t' = (ht_map t)(key := None)"
proof -
  obtain t' where "hashTableRemove (Some t) key = (STATUS_SUCCESS, Some t')" "ht_inv t'"
    "ht_map t' = (ht_map t)(key := None)"
    by (rule remove_present [OF assms])
  then show ?thesis by (simp add: ht_remove_def del: hashTableRemove.simps)
qed

interpretation hash: key_store ht_inv ht_map ht_room ht_get ht_upsert ht_remove
proof
  fix t :: HashTable and k v :: UINT64
  assume inv: "ht_inv t"
  show "ht_get k t = ht_map t k"
    using hashTableGet_map [OF inv, of k] by (simp add: ht_get_def split: option.splits del: hashTableGet.simps)
  show "\<exists>t'. ht_upsert k v t = Some t' \<and> ht_inv t' \<and> ht_map t' = (ht_map t)(k \<mapsto> v)" if "ht_room k t"
    by (rule ht_upsert_store [OF inv that])
  show "\<exists>t'. ht_remove k t = Some t' \<and> ht_inv t' \<and> ht_map t' = (ht_map t)(k := None)" if "ht_map t k \<noteq> None"
    by (rule ht_remove_store [OF inv that])
  show "ht_remove k t = None" if "ht_map t k = None"
    using remove_missing [OF that] by (simp add: ht_remove_def del: hashTableRemove.simps)
qed

subsection \<open>Properties\<close>

text \<open>A created table for the instances.\<close>

definition ht_sample :: HashTable where
  "ht_sample = \<lparr>ht_itemCount = 0, ht_bucketCount = 16, ht_bucketLength = 1,
     ht_buckets = replicate 16 \<lparr>hb_count = 0, hb_length = 1, hb_entries = [zero_entry]\<rparr>\<rparr>"

lemma ht_sample_created: "hashTableCreateWithParams 16 1 True True = Some (STATUS_SUCCESS, Some ht_sample)"
  by (simp add: hashTableCreateWithParams_def hashTableAllocSize_def ht_sample_def)

lemmas ht_sample_inv = create_inv [OF ht_sample_created]

lemma ht_sample_room: "ht_room k ht_sample"
  using ht_inv_bucket(1) [OF ht_sample_inv(1), of k] by (simp add: ht_room_def ht_sample_def)

text \<open>C18. An upsert on a table that satisfies the representation invariant succeeds whenever the key is
  present or the allocation for a larger bucket can be served. The new table stands for the map with the
  key updated, still satisfies the invariant, and counts one more item exactly if the key is new. If the
  key is new, its bucket is full and the allocation fails, the table is left as it was.\<close>

theorem hashTableUpsert_correct:
  assumes "ht_inv t"
  shows "(ht_map t key \<noteq> None \<or> alloc_for alloc t key \<longrightarrow>
      (\<exists>t'. hashTableUpsert alloc (Some t) key v = (STATUS_SUCCESS, Some t') \<and> ht_inv t' \<and>
         ht_map t' = (ht_map t)(key \<mapsto> v) \<and>
         ht_itemCount t' = (if ht_map t key = None then ht_itemCount t + 1 else ht_itemCount t))) \<and>
    (ht_map t key = None \<and> hb_count (ht_buckets t ! getHashBucket t key) =
        hb_length (ht_buckets t ! getHashBucket t key) \<longrightarrow>
      hashTableUpsert None (Some t) key v = (STATUS_NOT_ENOUGH_MEMORY, Some t))"
proof (intro conjI impI)
  assume "ht_map t key \<noteq> None \<or> alloc_for alloc t key"
  then show "\<exists>t'. hashTableUpsert alloc (Some t) key v = (STATUS_SUCCESS, Some t') \<and> ht_inv t' \<and>
         ht_map t' = (ht_map t)(key \<mapsto> v) \<and>
         ht_itemCount t' = (if ht_map t key = None then ht_itemCount t + 1 else ht_itemCount t)"
    using upsert_present [OF assms, of key alloc v] upsert_absent [OF assms, of key alloc v] by metis
next
  let ?b = "ht_buckets t ! getHashBucket t key"
  assume a: "ht_map t key = None \<and> hb_count ?b = hb_length ?b"
  then have "growBucket None ?b = None" by (simp add: growBucket_def)
  moreover have "findEntry key (unat (hb_count ?b)) (hb_entries ?b) = None"
    using a ht_map_find [of t key] by blast
  ultimately show "hashTableUpsert None (Some t) key v = (STATUS_NOT_ENOUGH_MEMORY, Some t)"
    by (simp add: Let_def)
qed

theorem hashTableUpsert_correct_witness:
  "\<exists>t'. hashTableUpsert (ht_fresh ht_sample 5) (Some ht_sample) 5 7 = (STATUS_SUCCESS, Some t') \<and>
     ht_map t' = [5 \<mapsto> 7] \<and> ht_itemCount t' = 1"
proof -
  have "alloc_for (ht_fresh ht_sample 5) ht_sample 5" by (rule ht_fresh_alloc [OF ht_sample_room])
  then show ?thesis
    using hashTableUpsert_correct [OF ht_sample_inv(1), of 5 "ht_fresh ht_sample 5" 7] ht_sample_inv(2,3)
    by (auto simp del: hashTableUpsert.simps)
qed

text \<open>A put refuses a key that is present and leaves the table as it was; a key that is not present
  is added as by an upsert.\<close>

theorem hashTablePut_correct:
  assumes "ht_inv t"
  shows "hashTablePut alloc (Some t) key v =
    (if ht_map t key \<noteq> None then (STATUS_HASH_KEY_ALREADY_PRESENT, Some t)
     else hashTableUpsert alloc (Some t) key v)"
  using hashTableGet_map [OF assms, of key]
  by (auto simp: hashTablePut_def hashTableContains_def split: option.splits
      simp del: hashTableUpsert.simps hashTableGet.simps)

theorem hashTablePut_correct_witness:
  "hashTablePut None (Some ht_sample) 5 7 = hashTableUpsert None (Some ht_sample) 5 7"
  using hashTablePut_correct [OF ht_sample_inv(1), of None 5 7] ht_sample_inv(2)
  by (simp del: hashTableUpsert.simps)

text \<open>Removing a present key gives a table that satisfies the invariant, stands for the map without
  the key and counts one item less; removing any other key is an error that leaves the table as it was.\<close>

theorem hashTableRemove_correct:
  assumes "ht_inv t"
  shows "if ht_map t key = None then hashTableRemove (Some t) key = (STATUS_HASH_KEY_NOT_PRESENT, Some t)
    else \<exists>t'. hashTableRemove (Some t) key = (STATUS_SUCCESS, Some t') \<and> ht_inv t' \<and>
      ht_map t' = (ht_map t)(key := None) \<and> ht_itemCount t' = ht_itemCount t - 1"
proof (cases "ht_map t key = None")
  case True
  then show ?thesis using remove_missing [OF True] by simp
next
  case False
  obtain t' where "hashTableRemove (Some t) key = (STATUS_SUCCESS, Some t')" "ht_inv t'"
    "ht_map t' = (ht_map t)(key := None)" "ht_itemCount t' = ht_itemCount t - 1"
    by (rule remove_present [OF assms False])
  then show ?thesis using False by (simp del: hashTableRemove.simps)
qed

theorem hashTableRemove_correct_witness:
  "\<exists>t t'. ht_map t 5 = Some 7 \<and> hashTableRemove (Some t) 5 = (STATUS_SUCCESS, Some t') \<and>
    ht_map t' = Map.empty \<and> ht_itemCount t' = 0"
proof -
  obtain t where "ht_inv t" "ht_map t = (ht_map ht_sample)(5 \<mapsto> 7)" "ht_itemCount t = ht_itemCount ht_sample + 1"
    using upsert_absent [OF ht_sample_inv(1) _ ht_fresh_alloc [OF ht_sample_room], of 5 7] ht_sample_inv(2) by metis
  then have t: "ht_inv t" "ht_map t 5 = Some 7" "(ht_map t)(5 := None) = Map.empty" "ht_itemCount t - 1 = 0"
    using ht_sample_inv(2,3) by auto
  from hashTableRemove_correct [OF t(1), of 5] show ?thesis
    unfolding t(3,4) using t(2) by auto
qed

text \<open>Putting a new key and removing it again gives back a table with the original content, and in
  between exactly that key reads as the new value. The allocations succeed and the bucket of the key is
  below the size whose doubling would overflow the 32-bit allocation size.\<close>

theorem hashTable_upsert_get_remove:
  assumes "ht_inv t" "ht_room key t" "ht_get key t = None"
  shows "\<exists>t1 t2. ht_upsert key v t = Some t1 \<and> ht_remove key t1 = Some t2 \<and>
    (\<forall>k. ht_get k t1 = (if k = key then Some v else ht_get k t)) \<and> ht_inv t2 \<and> ht_map t2 = ht_map t"
proof -
  obtain t1 where t1: "ht_upsert key v t = Some t1" "\<And>k. ht_get k t1 = (if k = key then Some v else ht_get k t)"
    by (rule hash.get_upsert [OF assms(1,2), of v]) blast
  obtain t1' t2 where "ht_upsert key v t = Some t1'" "ht_remove key t1' = Some t2" "ht_inv t2" "ht_map t2 = ht_map t"
    by (rule hash.remove_undoes_upsert [OF assms, of v])
  with t1 show ?thesis by auto
qed

theorem hashTable_upsert_get_remove_witness:
  "\<exists>t1 t2. ht_upsert 3 4 ht_sample = Some t1 \<and> ht_remove 3 t1 = Some t2 \<and> ht_get 3 t1 = Some 4 \<and>
    ht_map t2 = Map.empty"
proof -
  have "ht_get 3 ht_sample = None"
    using hash.get_content [OF ht_sample_inv(1)] ht_sample_inv(2) by simp
  then show ?thesis
    using hashTable_upsert_get_remove [OF ht_sample_inv(1) ht_sample_room, of 3 4] ht_sample_inv(2) by auto
qed

text \<open>With a large enough buffer the enumeration returns every key-value pair of the map exactly once,
  and the count it writes back is their number modulo the width of the counter.\<close>

theorem hashTableGetAllEntries_complete:
  assumes "ht_inv t" "ht_itemCount t \<noteq> 0" "ht_itemCount t \<le> n"
  shows "\<exists>es. hashTableGetAllEntries (Some t) True (Some n) = (STATUS_SUCCESS, es, Some (of_nat (length es))) \<and>
    distinct (map he_key es) \<and> (\<forall>k v. \<lparr>he_key = k, he_value = v\<rparr> \<in> set es \<longleftrightarrow> ht_map t k = Some v)"
proof -
  have "hashTableGetAllEntries (Some t) True (Some n) =
      (STATUS_SUCCESS, all_live t, Some (of_nat (length (all_live t))))"
    using assms by (simp add: all_live_def ht_inv_def)
  then show ?thesis
    using all_live_distinct [OF assms(1)] entry_map_distinct all_live_map [OF assms(1)] by metis
qed

theorem hashTableGetAllEntries_complete_witness:
  "\<exists>t es. hashTableGetAllEntries (Some t) True (Some 1) = (STATUS_SUCCESS, es, Some 1) \<and>
    \<lparr>he_key = 5, he_value = 7\<rparr> \<in> set es"
proof -
  obtain t' where t': "ht_inv t'" "ht_map t' = (ht_map ht_sample)(5 \<mapsto> 7)"
    "ht_itemCount t' = ht_itemCount ht_sample + 1"
    using upsert_absent [OF ht_sample_inv(1) _ ht_fresh_alloc [OF ht_sample_room], of 5 7] ht_sample_inv(2) by metis
  then have c: "ht_itemCount t' = 1" using ht_sample_inv(3) by simp
  then obtain es where es: "hashTableGetAllEntries (Some t') True (Some 1) = (STATUS_SUCCESS, es, Some (of_nat (length es)))"
    "\<lparr>he_key = 5, he_value = 7\<rparr> \<in> set es"
    using hashTableGetAllEntries_complete [of t' 1] t' by auto
  then have "hashTableGetAllEntries (Some t') True (Some 1) = (STATUS_SUCCESS, es, Some 1)"
    using c by simp
  with es(2) show ?thesis by blast
qed

text \<open>A created table is empty and satisfies the invariant; creation with valid arguments succeeds
  whenever memory is available and the size of the table fits into 32 bits, and clearing a table
  with any content gives an empty table.\<close>

theorem hashTable_created_and_cleared_empty:
  "(16 \<le> n \<and> 0 < len \<and> 16 + 16 * unat n + 16 * unat len * unat n < 2 ^ 32 \<longrightarrow>
     (\<exists>t. hashTableCreateWithParams n len True True = Some (STATUS_SUCCESS, Some t) \<and>
        ht_inv t \<and> ht_map t = Map.empty \<and> ht_itemCount t = 0)) \<and>
   (ht_inv u \<longrightarrow> (\<exists>t. hashTableClear (Some u) = (STATUS_SUCCESS, Some t) \<and> ht_inv t \<and> ht_map t = Map.empty))"
proof (intro conjI impI)
  assume a: "16 \<le> n \<and> 0 < len \<and> 16 + 16 * unat n + 16 * unat len * unat n < 2 ^ 32"
  let ?size = "16 + 16 * unat n + 16 * unat len * unat n"
  have "hashTableAllocSize n len = of_nat ?size"
    by (simp add: hashTableAllocSize_def Let_def)
  then have "unat (hashTableAllocSize n len) = ?size"
    using a by (simp only: unat_of_nat) simp
  then obtain t where t: "hashTableCreateWithParams n len True True = Some (STATUS_SUCCESS, Some t)"
    using a by (simp add: hashTableCreateWithParams_def)
  with create_inv [OF t] show "\<exists>t. hashTableCreateWithParams n len True True = Some (STATUS_SUCCESS, Some t) \<and>
        ht_inv t \<and> ht_map t = Map.empty \<and> ht_itemCount t = 0" by blast
next
  assume "ht_inv u"
  then obtain t where "hashTableClear (Some u) = (STATUS_SUCCESS, Some t)" "ht_inv t" "ht_map t = Map.empty"
    by (rule clear_inv)
  then show "\<exists>t. hashTableClear (Some u) = (STATUS_SUCCESS, Some t) \<and> ht_inv t \<and> ht_map t = Map.empty" by blast
qed

theorem hashTable_created_and_cleared_empty_witness:
  "\<exists>t. hashTableCreateWithParams 10000 2 True True = Some (STATUS_SUCCESS, Some t) \<and> ht_map t = Map.empty"
  using hashTable_created_and_cleared_empty [of 10000 2] by auto

end
