(* ===== verification/FrameOrder.thy ===== *)
theory FrameOrder
  imports Prelude
begin

text \<open>
  The frame order coordinator of \<open>FrameOrderCoordinator.c\<close>: one queue of frames per track, from
  which the frame with the earliest timestamp is put into the stream once every track has one.

  A queue is the list of the frames its pointers refer to: every queued frame is a private copy
  that only its queue refers to. \<open>putFrame\<close> of the stream is a parameter: any function on the
  part \<open>'s\<close> of the stream that lies outside the coordinator. The result \<open>None\<close> of an
  operation stands for undefined behaviour of the code (a division by zero, a call through or an
  access by a \<open>NULL\<close> pointer, an access outside an array) and for a loop that does not end.
\<close>

subsection \<open>Data\<close>

datatype FRAME_ORDER_MODE =
  FRAME_ORDER_MODE_PASS_THROUGH
| FRAME_ORDERING_MODE_MULTI_TRACK_AV
| FRAME_ORDERING_MODE_MULTI_TRACK_AV_COMPARE_DTS_ONE_MS_COMPENSATE
| FRAME_ORDERING_MODE_MULTI_TRACK_AV_COMPARE_PTS_ONE_MS_COMPENSATE
| FRAME_ORDERING_MODE_MULTI_TRACK_AV_COMPARE_DTS_ONE_MS_COMPENSATE_EOFR
| FRAME_ORDERING_MODE_MULTI_TRACK_AV_COMPARE_PTS_ONE_MS_COMPENSATE_EOFR

datatype MKV_TRACK_INFO_TYPE =
  MKV_TRACK_INFO_TYPE_VIDEO | MKV_TRACK_INFO_TYPE_AUDIO | MKV_TRACK_INFO_TYPE_UNKOWN

record Frame =
  fr_version :: UINT32
  fr_index :: UINT32
  fr_flags :: UINT32
  fr_decodingTs :: UINT64
  fr_presentationTs :: UINT64
  fr_duration :: UINT64
  fr_size :: UINT32
  fr_frameData :: "8 word list"
  fr_trackId :: UINT64

abbreviation (input) FRAME_FLAG_KEY_FRAME :: UINT32 where "FRAME_FLAG_KEY_FRAME \<equiv> 1"
abbreviation (input) FRAME_FLAG_END_OF_FRAGMENT :: UINT32 where "FRAME_FLAG_END_OF_FRAGMENT \<equiv> 8"
abbreviation (input) DEFAULT_MAX_FRAME_QUEUE_SIZE_PER_TRACK :: UINT32 where
  "DEFAULT_MAX_FRAME_QUEUE_SIZE_PER_TRACK \<equiv> 60"
abbreviation (input) MAX_SUPPORTED_TRACK_COUNT_PER_STREAM :: UINT32 where
  "MAX_SUPPORTED_TRACK_COUNT_PER_STREAM \<equiv> 3"

definition CHECK_FRAME_FLAG_KEY_FRAME :: "UINT32 \<Rightarrow> bool" where
  "CHECK_FRAME_FLAG_KEY_FRAME f \<longleftrightarrow> f AND FRAME_FLAG_KEY_FRAME \<noteq> 0"

definition CHECK_FRAME_FLAG_END_OF_FRAGMENT :: "UINT32 \<Rightarrow> bool" where
  "CHECK_FRAME_FLAG_END_OF_FRAGMENT f \<longleftrightarrow> f AND FRAME_FLAG_END_OF_FRAGMENT \<noteq> 0"

definition SET_FRAME_FLAG_KEY_FRAME :: "UINT32 \<Rightarrow> UINT32" where
  "SET_FRAME_FLAG_KEY_FRAME f = f OR FRAME_FLAG_KEY_FRAME"

text \<open>The fields of the track information and of the stream capabilities that the coordinator reads.\<close>

record TrackInfo =
  ti_trackId :: UINT64
  ti_trackType :: MKV_TRACK_INFO_TYPE

record StreamCaps =
  sc_frameOrderingMode :: FRAME_ORDER_MODE
  sc_timecodeScale :: UINT64
  sc_trackInfoCount :: UINT32
  sc_trackInfoList :: "TrackInfo list"

record FrameOrderTrackData =
  td_pTrackInfo :: TrackInfo
  td_frameCount :: UINT32
  td_frameQueue :: "Frame list"

text \<open>
  \<open>foc_compareFn\<close> says whether the comparison function is set: it is then
  \<open>audioVideoFrameTimestampComparator\<close>. \<open>foc_lock\<close> is how often the recursive lock is held.
\<close>

record FrameOrderCoordinator =
  foc_eofrPut :: bool
  foc_putFrameTrackDataList :: "FrameOrderTrackData list"
  foc_putFrameTrackDataListCount :: UINT32
  foc_keyFrameDetected :: bool
  foc_trackWithFrame :: UINT32
  foc_lock :: nat
  foc_compareFn :: bool

record 's Stream =
  ks_streamCaps :: StreamCaps
  ks_coordinator :: FrameOrderCoordinator
  ks_putFrameErrors :: UINT64
  ks_rest :: 's

subsection \<open>Creation and release\<close>

text \<open>
  \<open>calloc\<close> is the success of the allocation of the structure and \<open>queues\<close> that of the queue of
  each track. More tracks than the array has elements are an access outside of it.
\<close>

definition hasCompareFn :: "FRAME_ORDER_MODE \<Rightarrow> bool" where
  "hasCompareFn m \<longleftrightarrow> m \<noteq> FRAME_ORDER_MODE_PASS_THROUGH"

definition createFrameOrderCoordinator ::
  "'s Stream option \<Rightarrow> bool \<Rightarrow> bool \<Rightarrow> bool list \<Rightarrow> (STATUS \<times> FrameOrderCoordinator option) option" where
  "createFrameOrderCoordinator pStream ppCoordinator calloc queues =
     (case pStream of
        None \<Rightarrow> Some (STATUS_NULL_ARG, None)
      | Some s \<Rightarrow>
          let caps = ks_streamCaps s; n = unat (sc_trackInfoCount caps)
          in if \<not> ppCoordinator then Some (STATUS_NULL_ARG, None)
             else if \<not> calloc then Some (STATUS_NOT_ENOUGH_MEMORY, None)
             else if sc_trackInfoCount caps > MAX_SUPPORTED_TRACK_COUNT_PER_STREAM \<or>
                     length (sc_trackInfoList caps) < n then None
             else if \<not> list_all id (take n queues) then Some (STATUS_NOT_ENOUGH_MEMORY, None)
             else Some (STATUS_SUCCESS, Some
               \<lparr>foc_eofrPut = False,
                foc_putFrameTrackDataList = map (\<lambda>ti. \<lparr>td_pTrackInfo = ti, td_frameCount = 0, td_frameQueue = []\<rparr>)
                  (take n (sc_trackInfoList caps)),
                foc_putFrameTrackDataListCount = sc_trackInfoCount caps,
                foc_keyFrameDetected = False, foc_trackWithFrame = 0, foc_lock = 0,
                foc_compareFn = hasCompareFn (sc_frameOrderingMode caps)\<rparr>))"

text \<open>
  The argument is the content of \<open>*ppFrameOrderCoordinator\<close>; the result has the frames that are freed and
  the new content.
\<close>

fun freeFrameOrderCoordinator ::
  "FrameOrderCoordinator option option \<Rightarrow> STATUS \<times> Frame list \<times> FrameOrderCoordinator option option" where
  "freeFrameOrderCoordinator None = (STATUS_NULL_ARG, [], None)"
| "freeFrameOrderCoordinator (Some None) = (STATUS_SUCCESS, [], Some None)"
| "freeFrameOrderCoordinator (Some (Some c)) =
     (STATUS_SUCCESS,
      concat (map td_frameQueue (take (unat (foc_putFrameTrackDataListCount c)) (foc_putFrameTrackDataList c))),
      Some None)"

subsection \<open>The comparison\<close>

definition comparesDts :: "FRAME_ORDER_MODE \<Rightarrow> bool" where
  "comparesDts m \<longleftrightarrow>
     m = FRAME_ORDERING_MODE_MULTI_TRACK_AV_COMPARE_DTS_ONE_MS_COMPENSATE \<or>
     m = FRAME_ORDERING_MODE_MULTI_TRACK_AV_COMPARE_DTS_ONE_MS_COMPENSATE_EOFR"

definition comparesPts :: "FRAME_ORDER_MODE \<Rightarrow> bool" where
  "comparesPts m \<longleftrightarrow>
     m = FRAME_ORDERING_MODE_MULTI_TRACK_AV_COMPARE_PTS_ONE_MS_COMPENSATE \<or>
     m = FRAME_ORDERING_MODE_MULTI_TRACK_AV_COMPARE_PTS_ONE_MS_COMPENSATE_EOFR"

definition mkvTimestamp :: "StreamCaps \<Rightarrow> Frame \<Rightarrow> UINT64" where
  "mkvTimestamp caps f =
     (if comparesDts (sc_frameOrderingMode caps) then fr_decodingTs f else fr_presentationTs f)
       div sc_timecodeScale caps"

definition delayFrame :: "StreamCaps \<Rightarrow> Frame \<Rightarrow> Frame" where
  "delayFrame caps f = f\<lparr>fr_presentationTs := fr_presentationTs f + sc_timecodeScale caps\<rparr>"

definition delayHead :: "StreamCaps \<Rightarrow> FrameOrderTrackData \<Rightarrow> FrameOrderTrackData" where
  "delayHead caps d = d\<lparr>td_frameQueue := (case td_frameQueue d of [] \<Rightarrow> [] | f # fs \<Rightarrow> delayFrame caps f # fs)\<rparr>"

text \<open>The comparison of two tracks: its status, which goes first, and the tracks with the changed frames.\<close>

definition compareTracks ::
  "StreamCaps \<Rightarrow> FrameOrderTrackData \<Rightarrow> FrameOrderTrackData
   \<Rightarrow> (STATUS \<times> bool \<times> FrameOrderTrackData \<times> FrameOrderTrackData) option" where
  "compareTracks caps d1 d2 =
     (let mode = sc_frameOrderingMode caps
      in if \<not> (comparesDts mode \<or> comparesPts mode) then Some (STATUS_SUCCESS, False, d1, d2)
         else case (td_frameQueue d1, td_frameQueue d2) of
           (pFirst # _, pSecond # _) \<Rightarrow>
             if sc_timecodeScale caps = 0 then None
             else
               let mkvTimestamp1 = mkvTimestamp caps pFirst; mkvTimestamp2 = mkvTimestamp caps pSecond;
                   firstFrameFirst = mkvTimestamp1 \<le> mkvTimestamp2
               in Some (if mkvTimestamp1 = mkvTimestamp2 \<and>
                           ti_trackType (td_pTrackInfo d1) \<noteq> ti_trackType (td_pTrackInfo d2)
                        then if \<not> CHECK_FRAME_FLAG_KEY_FRAME (fr_flags pFirst) \<and>
                                CHECK_FRAME_FLAG_KEY_FRAME (fr_flags pSecond)
                             then (STATUS_SUCCESS, firstFrameFirst, delayHead caps d1, d2)
                             else (STATUS_SUCCESS, firstFrameFirst, d1, delayHead caps d2)
                        else (STATUS_SUCCESS, firstFrameFirst, d1, d2))
         | _ \<Rightarrow> Some (STATUS_NOT_FOUND, False, d1, d2))"

text \<open>The whole function: \<open>pFirstFrameFirst\<close> says whether the out pointer is given.\<close>

fun audioVideoFrameTimestampComparator ::
  "FrameOrderTrackData option \<Rightarrow> FrameOrderTrackData option \<Rightarrow> StreamCaps option \<Rightarrow> bool
   \<Rightarrow> (STATUS \<times> bool option \<times> FrameOrderTrackData option \<times> FrameOrderTrackData option) option" where
  "audioVideoFrameTimestampComparator (Some d1) (Some d2) (Some caps) True =
     (case compareTracks caps d1 d2 of
        None \<Rightarrow> None
      | Some (st, first, d1', d2') \<Rightarrow> Some (st, Some first, Some d1', Some d2'))"
| "audioVideoFrameTimestampComparator pd1 pd2 pStreamInfo pFirstFrameFirst =
     Some (STATUS_NULL_ARG, if pFirstFrameFirst then Some False else None, pd1, pd2)"

subsection \<open>The earliest track\<close>

fun firstTrackWithFrame :: "nat \<Rightarrow> FrameOrderTrackData list \<Rightarrow> nat" where
  "firstTrackWithFrame minIndex [] = minIndex"
| "firstTrackWithFrame minIndex (d # ds) =
     (if td_frameCount d = 0 then firstTrackWithFrame (Suc minIndex) ds else minIndex)"

text \<open>The loop over the tracks from \<open>i\<close> on, \<open>n\<close> of them.\<close>

fun earliestTrackLoop ::
  "StreamCaps \<Rightarrow> bool \<Rightarrow> nat \<Rightarrow> nat \<Rightarrow> nat \<Rightarrow> FrameOrderTrackData list
   \<Rightarrow> (STATUS \<times> nat \<times> FrameOrderTrackData list) option" where
  "earliestTrackLoop caps compareFn 0 i minIndex ds = Some (STATUS_SUCCESS, minIndex, ds)"
| "earliestTrackLoop caps compareFn (Suc n) i minIndex ds =
     (if td_frameCount (ds ! i) = 0 then earliestTrackLoop caps compareFn n (Suc i) minIndex ds
      else if \<not> compareFn then None
      else case audioVideoFrameTimestampComparator (Some (ds ! minIndex)) (Some (ds ! i)) (Some caps) True of
        Some (st, Some firstFrameFirst, Some d1, Some d2) \<Rightarrow>
          let ds' = ds[minIndex := d1, i := d2]
          in if STATUS_FAILED st then Some (st, minIndex, ds')
             else earliestTrackLoop caps compareFn n (Suc i) (if firstFrameFirst then minIndex else i) ds'
      | _ \<Rightarrow> None)"

text \<open>The result has the position of the earliest track, if one was found.\<close>

definition getEarliestTrack ::
  "StreamCaps \<Rightarrow> FrameOrderCoordinator \<Rightarrow> (STATUS \<times> nat option \<times> FrameOrderCoordinator) option" where
  "getEarliestTrack caps c =
     (if \<not> foc_trackWithFrame c > 0 then Some (STATUS_SUCCESS, None, c)
      else
        let ds = foc_putFrameTrackDataList c; count = unat (foc_putFrameTrackDataListCount c);
            minIndex = firstTrackWithFrame 0 (take count ds)
        in case earliestTrackLoop caps (foc_compareFn c) (count - Suc minIndex) (Suc minIndex) minIndex ds of
             None \<Rightarrow> None
           | Some (st, k, ds') \<Rightarrow>
               Some (st, if STATUS_FAILED st then None else Some k, c\<lparr>foc_putFrameTrackDataList := ds'\<rparr>))"

subsection \<open>Putting frames\<close>

text \<open>The bookkeeping after a frame was taken from track \<open>k\<close>.\<close>

definition takeFrame :: "nat \<Rightarrow> FrameOrderCoordinator \<Rightarrow> FrameOrderCoordinator" where
  "takeFrame k c =
     (let d = foc_putFrameTrackDataList c ! k;
          d' = d\<lparr>td_frameQueue := tl (td_frameQueue d), td_frameCount := td_frameCount d - 1\<rparr>;
          c' = c\<lparr>foc_putFrameTrackDataList := (foc_putFrameTrackDataList c)[k := d']\<rparr>
      in if td_frameCount d' = 0 then c'\<lparr>foc_trackWithFrame := foc_trackWithFrame c' - 1\<rparr> else c')"

definition putEarliestFrame ::
  "(Frame \<Rightarrow> 's \<Rightarrow> STATUS \<times> 's) \<Rightarrow> 's Stream \<Rightarrow> (STATUS \<times> 's Stream) option" where
  "putEarliestFrame putFrame s =
     (let c = ks_coordinator s
      in if \<not> foc_trackWithFrame c > 0 then Some (STATUS_SUCCESS, s)
         else case getEarliestTrack (ks_streamCaps s) c of
           None \<Rightarrow> None
         | Some (st, k, c1) \<Rightarrow>
             if STATUS_FAILED st then Some (st, s\<lparr>ks_coordinator := c1\<rparr>)
             else case k of
               None \<Rightarrow> Some (STATUS_SUCCESS, s\<lparr>ks_coordinator := c1\<rparr>)
             | Some k \<Rightarrow>
                 if \<not> k < length (foc_putFrameTrackDataList c1) then None
                 else case td_frameQueue (foc_putFrameTrackDataList c1 ! k) of
                   [] \<Rightarrow> Some (STATUS_NOT_FOUND, s\<lparr>ks_coordinator := c1\<rparr>)
                 | f # _ \<Rightarrow>
                     let c2 = takeFrame k c1;
                         f' = (if foc_eofrPut c2 then f\<lparr>fr_flags := SET_FRAME_FLAG_KEY_FRAME (fr_flags f)\<rparr> else f);
                         c3 = c2\<lparr>foc_eofrPut := False\<rparr>
                     in case putFrame f' (ks_rest s) of
                          (st, r) \<Rightarrow> Some (st, s\<lparr>ks_coordinator := c3, ks_rest := r\<rparr>))"

text \<open>The two loops.\<close>

partial_function (option) putWhileAllTracks ::
  "(Frame \<Rightarrow> 's \<Rightarrow> STATUS \<times> 's) \<Rightarrow> 's Stream \<Rightarrow> (STATUS \<times> 's Stream) option" where
  "putWhileAllTracks putFrame s =
     (if foc_trackWithFrame (ks_coordinator s) = foc_putFrameTrackDataListCount (ks_coordinator s)
      then Option.bind (putEarliestFrame putFrame s)
        (\<lambda>(st, s'). if STATUS_FAILED st then Some (st, s') else putWhileAllTracks putFrame s')
      else Some (STATUS_SUCCESS, s))"

partial_function (option) putWhileAnyTrack ::
  "(Frame \<Rightarrow> 's \<Rightarrow> STATUS \<times> 's) \<Rightarrow> 's Stream \<Rightarrow> (STATUS \<times> 's Stream) option" where
  "putWhileAnyTrack putFrame s =
     (if foc_trackWithFrame (ks_coordinator s) > 0
      then Option.bind (putEarliestFrame putFrame s)
        (\<lambda>(st, s'). if STATUS_FAILED st then Some (st, s') else putWhileAnyTrack putFrame s')
      else Some (STATUS_SUCCESS, s))"

definition lockCoordinator :: "'s Stream \<Rightarrow> 's Stream" where
  "lockCoordinator s = s\<lparr>ks_coordinator := (ks_coordinator s)\<lparr>foc_lock := Suc (foc_lock (ks_coordinator s))\<rparr>\<rparr>"

definition unlockCoordinator :: "'s Stream \<Rightarrow> 's Stream" where
  "unlockCoordinator s = s\<lparr>ks_coordinator := (ks_coordinator s)\<lparr>foc_lock := foc_lock (ks_coordinator s) - 1\<rparr>\<rparr>"

fun frameOrderCoordinatorFlush ::
  "(Frame \<Rightarrow> 's \<Rightarrow> STATUS \<times> 's) \<Rightarrow> 's Stream option \<Rightarrow> (STATUS \<times> 's Stream option) option" where
  "frameOrderCoordinatorFlush putFrame None = None"
| "frameOrderCoordinatorFlush putFrame (Some s) =
     (if sc_frameOrderingMode (ks_streamCaps s) = FRAME_ORDER_MODE_PASS_THROUGH then Some (STATUS_SUCCESS, Some s)
      else case putWhileAnyTrack putFrame (lockCoordinator s) of
        None \<Rightarrow> None
      | Some (st, s') \<Rightarrow> Some (st, Some (unlockCoordinator s')))"

fun findTrack :: "UINT64 \<Rightarrow> nat \<Rightarrow> FrameOrderTrackData list \<Rightarrow> nat option" where
  "findTrack trackId i [] = None"
| "findTrack trackId i (d # ds) =
     (if ti_trackId (td_pTrackInfo d) = trackId then Some i else findTrack trackId (Suc i) ds)"

text \<open>The copy that is queued: the frame with its own data.\<close>

definition copyFrame :: "Frame \<Rightarrow> Frame" where
  "copyFrame f = f\<lparr>fr_frameData := take (unat (fr_size f)) (fr_frameData f)\<rparr>"

definition enqueueFrame :: "nat \<Rightarrow> Frame \<Rightarrow> FrameOrderCoordinator \<Rightarrow> FrameOrderCoordinator" where
  "enqueueFrame k f c =
     (let d = foc_putFrameTrackDataList c ! k;
          d' = d\<lparr>td_frameQueue := td_frameQueue d @ [f], td_frameCount := td_frameCount d + 1\<rparr>
      in c\<lparr>foc_putFrameTrackDataList := (foc_putFrameTrackDataList c)[k := d'],
           foc_trackWithFrame := (if td_frameCount d = 0 then foc_trackWithFrame c + 1 else foc_trackWithFrame c)\<rparr>)"

definition noteKeyFrame :: "Frame \<Rightarrow> 's Stream \<Rightarrow> 's Stream" where
  "noteKeyFrame f s =
     (if \<not> foc_keyFrameDetected (ks_coordinator s) \<and> CHECK_FRAME_FLAG_KEY_FRAME (fr_flags f)
      then s\<lparr>ks_coordinator := (ks_coordinator s)\<lparr>foc_keyFrameDetected := True\<rparr>\<rparr> else s)"

text \<open>An end of fragment: everything queued goes first, then the frame itself.\<close>

definition putEndOfFragment ::
  "(Frame \<Rightarrow> 's \<Rightarrow> STATUS \<times> 's) \<Rightarrow> Frame \<Rightarrow> 's Stream \<Rightarrow> (STATUS \<times> 's Stream) option" where
  "putEndOfFragment putFrame f s =
     (case frameOrderCoordinatorFlush putFrame (Some s) of
        Some (st, Some s2) \<Rightarrow>
          if STATUS_FAILED st then Some (st, s2)
          else (case putFrame f (ks_rest s2) of (st, r) \<Rightarrow>
            let s3 = s2\<lparr>ks_rest := r\<rparr>
            in if STATUS_FAILED st then Some (st, s3)
               else if comparesDts (sc_frameOrderingMode (ks_streamCaps s))
               then Some (STATUS_SUCCESS, s3\<lparr>ks_coordinator := (ks_coordinator s3)\<lparr>foc_eofrPut := True\<rparr>\<rparr>)
               else Some (STATUS_SUCCESS, s3))
      | _ \<Rightarrow> None)"

text \<open>
  Any other frame: its copy is queued and the queues are drained as far as every track has a frame.
  \<open>alloc\<close> is the success of the allocation of the frame, whose 32-bit size must not wrap, and
  \<open>node\<close> that of the queue node.
\<close>

definition putIntoTrack ::
  "(Frame \<Rightarrow> 's \<Rightarrow> STATUS \<times> 's) \<Rightarrow> bool \<Rightarrow> bool \<Rightarrow> Frame \<Rightarrow> nat \<Rightarrow> 's Stream \<Rightarrow> (STATUS \<times> 's Stream) option" where
  "putIntoTrack putFrame alloc node f k s =
     (if 2 ^ 32 \<le> 64 + unat (fr_size f) then None
      else if \<not> alloc then Some (STATUS_NOT_ENOUGH_MEMORY, s)
      else if \<not> node then Some (STATUS_NOT_ENOUGH_MEMORY, s)
      else putWhileAllTracks putFrame (s\<lparr>ks_coordinator := enqueueFrame k (copyFrame f) (ks_coordinator s)\<rparr>))"

text \<open>The part of \<open>frameOrderCoordinatorPutFrame\<close> under the lock.\<close>

definition putFrameLocked ::
  "(Frame \<Rightarrow> 's \<Rightarrow> STATUS \<times> 's) \<Rightarrow> bool \<Rightarrow> bool \<Rightarrow> Frame \<Rightarrow> 's Stream \<Rightarrow> (STATUS \<times> 's Stream) option" where
  "putFrameLocked putFrame alloc node f s =
     (let c = ks_coordinator s; caps = ks_streamCaps s; mode = sc_frameOrderingMode caps;
          eofr = CHECK_FRAME_FLAG_END_OF_FRAGMENT (fr_flags f);
          track = findTrack (fr_trackId f) 0 (take (unat (sc_trackInfoCount caps)) (foc_putFrameTrackDataList c))
      in if track = None \<and> \<not> eofr then Some (STATUS_MKV_TRACK_INFO_NOT_FOUND, s)
         else if \<not> eofr \<and> \<not> td_frameCount (foc_putFrameTrackDataList c ! the track) \<le> DEFAULT_MAX_FRAME_QUEUE_SIZE_PER_TRACK
         then Some (STATUS_MAX_FRAME_TIMESTAMP_DELTA_BETWEEN_TRACKS_EXCEEDED, s)
         else
           let s1 = noteKeyFrame f s
           in if (mode = FRAME_ORDERING_MODE_MULTI_TRACK_AV_COMPARE_DTS_ONE_MS_COMPENSATE \<or>
                  mode = FRAME_ORDERING_MODE_MULTI_TRACK_AV_COMPARE_PTS_ONE_MS_COMPENSATE) \<and>
                 foc_keyFrameDetected (ks_coordinator s1) \<and> eofr
              then Some (STATUS_SETTING_KEY_FRAME_FLAG_WHILE_USING_EOFR, s1)
              else if eofr then putEndOfFragment putFrame f s1
              else putIntoTrack putFrame alloc node f (the track) s1)"

definition countError :: "STATUS \<Rightarrow> 's Stream \<Rightarrow> 's Stream" where
  "countError st s = (if STATUS_FAILED st then s\<lparr>ks_putFrameErrors := ks_putFrameErrors s + 1\<rparr> else s)"

fun frameOrderCoordinatorPutFrame ::
  "(Frame \<Rightarrow> 's \<Rightarrow> STATUS \<times> 's) \<Rightarrow> bool \<Rightarrow> bool \<Rightarrow> 's Stream option \<Rightarrow> Frame option
   \<Rightarrow> (STATUS \<times> 's Stream option) option" where
  "frameOrderCoordinatorPutFrame putFrame alloc node None f = Some (STATUS_NULL_ARG, None)"
| "frameOrderCoordinatorPutFrame putFrame alloc node (Some s) None =
     Some (STATUS_NULL_ARG, Some (countError STATUS_NULL_ARG s))"
| "frameOrderCoordinatorPutFrame putFrame alloc node (Some s) (Some f) =
     (if sc_frameOrderingMode (ks_streamCaps s) = FRAME_ORDER_MODE_PASS_THROUGH
      then (case putFrame f (ks_rest s) of (st, r) \<Rightarrow> Some (st, Some (countError st (s\<lparr>ks_rest := r\<rparr>))))
      else case putFrameLocked putFrame alloc node f (lockCoordinator s) of
        None \<Rightarrow> None
      | Some (st, s') \<Rightarrow> Some (st, Some (unlockCoordinator (countError st s'))))"

end
