(* ===== verification/FrameOrderProps.thy ===== *)
theory FrameOrderProps
  imports FrameOrder
begin

text \<open>
  The frame order coordinator: its invariant, that every operation returns whatever the stream does
  with the frames, and that in the modes that compare decoding timestamps the frames of a whole session leave in
  timestamp order, with the frames of each track in their own order.
\<close>

subsection \<open>The invariant\<close>

abbreviation (input) queued :: "FrameOrderTrackData \<Rightarrow> bool" where
  "queued d \<equiv> td_frameQueue d \<noteq> []"

definition td_ok :: "FrameOrderTrackData \<Rightarrow> bool" where
  "td_ok d \<longleftrightarrow> td_frameCount d = of_nat (length (td_frameQueue d)) \<and> length (td_frameQueue d) \<le> 61 \<and>
     (\<forall>f \<in> set (td_frameQueue d). fr_trackId f = ti_trackId (td_pTrackInfo d))"

definition foc_ok :: "StreamCaps \<Rightarrow> FrameOrderCoordinator \<Rightarrow> bool" where
  "foc_ok caps c \<longleftrightarrow>
     length (foc_putFrameTrackDataList c) = unat (foc_putFrameTrackDataListCount c) \<and>
     foc_putFrameTrackDataListCount c = sc_trackInfoCount caps \<and> foc_putFrameTrackDataListCount c \<noteq> 0 \<and>
     list_all td_ok (foc_putFrameTrackDataList c) \<and>
     foc_trackWithFrame c = of_nat (length (filter queued (foc_putFrameTrackDataList c))) \<and>
     foc_compareFn c = hasCompareFn (sc_frameOrderingMode caps)"

lemma frameCount_zero: "td_ok d \<Longrightarrow> td_frameCount d = 0 \<longleftrightarrow> \<not> queued d"
proof -
  assume ok: "td_ok d"
  then have "length (td_frameQueue d) < 2 ^ 32" by (simp add: td_ok_def)
  then have "unat (of_nat (length (td_frameQueue d)) :: UINT32) = length (td_frameQueue d)"
    by (simp add: unat_of_nat)
  then have "unat (td_frameCount d) = length (td_frameQueue d)" using ok by (simp add: td_ok_def)
  then show ?thesis by (metis length_0_conv unat_eq_zero)
qed

lemma trackWithFrame_unat:
  assumes "foc_ok caps c"
  shows "unat (foc_trackWithFrame c) = length (filter queued (foc_putFrameTrackDataList c))"
proof -
  let ?n = "length (filter queued (foc_putFrameTrackDataList c))"
  have "?n \<le> unat (foc_putFrameTrackDataListCount c)" using assms by (metis foc_ok_def length_filter_le)
  moreover have "unat (foc_putFrameTrackDataListCount c) < 2 ^ 32"
    using unsigned_less [of "foc_putFrameTrackDataListCount c"] by simp
  ultimately have "?n < 2 ^ 32" by linarith
  then show ?thesis using assms by (simp add: foc_ok_def unat_of_nat)
qed

lemma trackWithFrame_pos:
  assumes "foc_ok caps c"
  shows "foc_trackWithFrame c > 0 \<longleftrightarrow> (\<exists>d \<in> set (foc_putFrameTrackDataList c). queued d)"
proof -
  have "foc_trackWithFrame c > 0 \<longleftrightarrow> length (filter queued (foc_putFrameTrackDataList c)) > 0"
    using trackWithFrame_unat [OF assms] by (metis word_gt_0 unat_eq_zero neq0_conv)
  then show ?thesis by (auto simp: filter_empty_conv)
qed

lemma trackWithFrame_all:
  assumes "foc_ok caps c"
  shows "foc_trackWithFrame c = foc_putFrameTrackDataListCount c \<longleftrightarrow>
    (\<forall>d \<in> set (foc_putFrameTrackDataList c). queued d)"
proof -
  have "foc_trackWithFrame c = foc_putFrameTrackDataListCount c \<longleftrightarrow>
      length (filter queued (foc_putFrameTrackDataList c)) = length (foc_putFrameTrackDataList c)"
    using trackWithFrame_unat [OF assms] assms by (metis foc_ok_def unat_eq_iff)
  then show ?thesis by (metis (mono_tags, lifting) filter_id_conv length_filter_less nat_less_le)
qed

subsection \<open>Frames up to the fields the coordinator changes\<close>

text \<open>The comparison changes presentation timestamps, the end of a fragment the key frame flag.\<close>

definition fr_core :: "Frame \<Rightarrow> Frame" where "fr_core f = f\<lparr>fr_presentationTs := 0\<rparr>"

definition fr_id :: "Frame \<Rightarrow> Frame" where "fr_id f = f\<lparr>fr_presentationTs := 0, fr_flags := 0\<rparr>"

definition same_track :: "FrameOrderTrackData \<Rightarrow> FrameOrderTrackData \<Rightarrow> bool" where
  "same_track d d' \<longleftrightarrow> td_pTrackInfo d' = td_pTrackInfo d \<and> td_frameCount d' = td_frameCount d \<and>
     map fr_core (td_frameQueue d') = map fr_core (td_frameQueue d)"

lemma same_track_refl [simp]: "same_track d d"
  by (simp add: same_track_def)

lemma same_track_trans: "same_track a b \<Longrightarrow> same_track b c \<Longrightarrow> same_track a c"
  by (simp add: same_track_def)

lemma delayHead_same [simp]: "same_track d (delayHead caps d)"
  by (auto simp: same_track_def delayHead_def delayFrame_def fr_core_def split: list.splits)

lemma fr_core_fields:
  assumes "fr_core f = fr_core g"
  shows "fr_decodingTs f = fr_decodingTs g" "fr_trackId f = fr_trackId g" "fr_id f = fr_id g"
proof -
  have "fr_decodingTs (fr_core x) = fr_decodingTs x" "fr_trackId (fr_core x) = fr_trackId x" for x
    by (simp_all add: fr_core_def)
  then show "fr_decodingTs f = fr_decodingTs g" "fr_trackId f = fr_trackId g" using assms by metis+
  have "fr_id x = (fr_core x)\<lparr>fr_flags := 0\<rparr>" for x by (simp add: fr_id_def fr_core_def)
  then show "fr_id f = fr_id g" by (simp only: assms)
qed

lemma fr_id_fields:
  assumes "fr_id f = fr_id g"
  shows "fr_decodingTs f = fr_decodingTs g" "fr_trackId f = fr_trackId g"
proof -
  have "fr_decodingTs (fr_id x) = fr_decodingTs x" "fr_trackId (fr_id x) = fr_trackId x" for x
    by (simp_all add: fr_id_def)
  then show "fr_decodingTs f = fr_decodingTs g" "fr_trackId f = fr_trackId g" using assms by metis+
qed

lemma map_eq_transfer:
  assumes "map f xs = map f ys" "\<And>x y. f x = f y \<Longrightarrow> g x = g y"
  shows "map g xs = map g ys"
  using assms(1)
proof (induction xs arbitrary: ys)
  case (Cons x xs)
  obtain y zs where ys: "ys = y # zs" using Cons.prems by (cases ys) simp_all
  then have "f x = f y" "map f xs = map f zs" using Cons.prems by simp_all
  with assms(2) [of x y] Cons.IH [of zs] show ?case by (simp only: ys list.map)
qed simp

lemma same_track_queue:
  assumes "same_track d d'"
  shows "length (td_frameQueue d') = length (td_frameQueue d)"
    "map fr_id (td_frameQueue d') = map fr_id (td_frameQueue d)"
    "map fr_decodingTs (td_frameQueue d') = map fr_decodingTs (td_frameQueue d)"
    "map fr_trackId (td_frameQueue d') = map fr_trackId (td_frameQueue d)"
proof -
  have core: "map fr_core (td_frameQueue d') = map fr_core (td_frameQueue d)"
    using assms by (simp add: same_track_def)
  show "length (td_frameQueue d') = length (td_frameQueue d)" using core by (metis length_map)
  show "map fr_id (td_frameQueue d') = map fr_id (td_frameQueue d)"
    by (rule map_eq_transfer [OF core]) (rule fr_core_fields(3))
  show "map fr_decodingTs (td_frameQueue d') = map fr_decodingTs (td_frameQueue d)"
    by (rule map_eq_transfer [OF core]) (rule fr_core_fields(1))
  show "map fr_trackId (td_frameQueue d') = map fr_trackId (td_frameQueue d)"
    by (rule map_eq_transfer [OF core]) (rule fr_core_fields(2))
qed

lemma same_track_ok:
  assumes "same_track d d'" "td_ok d"
  shows "td_ok d'" "queued d' \<longleftrightarrow> queued d"
proof -
  note q = same_track_queue [OF assms(1)]
  show "queued d' \<longleftrightarrow> queued d" using q(1) by (metis length_0_conv)
  have "fr_trackId ` set (td_frameQueue d') = fr_trackId ` set (td_frameQueue d)"
    using q(4) by (metis list.set_map)
  moreover have "fr_trackId ` set (td_frameQueue d) \<subseteq> {ti_trackId (td_pTrackInfo d)}"
    using assms(2) by (auto simp: td_ok_def)
  ultimately have "\<forall>f \<in> set (td_frameQueue d'). fr_trackId f = ti_trackId (td_pTrackInfo d)" by blast
  then show "td_ok d'" using assms q(1) by (simp add: td_ok_def same_track_def)
qed

subsection \<open>The earliest track\<close>

definition dts_of :: "StreamCaps \<Rightarrow> Frame \<Rightarrow> UINT64" where
  "dts_of caps f = fr_decodingTs f div sc_timecodeScale caps"

definition head_ts :: "StreamCaps \<Rightarrow> FrameOrderTrackData \<Rightarrow> UINT64" where
  "head_ts caps d = dts_of caps (hd (td_frameQueue d))"

abbreviation (input) dts_mode :: "StreamCaps \<Rightarrow> bool" where
  "dts_mode caps \<equiv> comparesDts (sc_frameOrderingMode caps)"

lemma same_track_head_ts:
  assumes "same_track d d'" "queued d"
  shows "head_ts caps d' = head_ts caps d"
proof -
  have q: "queued d'" using same_track_queue(1) [OF assms(1)] assms(2) by (metis length_0_conv)
  have "fr_decodingTs (hd (td_frameQueue d')) = fr_decodingTs (hd (td_frameQueue d))"
    using same_track_queue(3) [OF assms(1)] assms(2) q by (metis list.map_sel(1))
  then show ?thesis by (simp add: head_ts_def dts_of_def)
qed

lemma compareTracks_ok:
  assumes "queued d1" "queued d2" "sc_timecodeScale caps \<noteq> 0"
  obtains first d1' d2' where "compareTracks caps d1 d2 = Some (STATUS_SUCCESS, first, d1', d2')"
    "same_track d1 d1'" "same_track d2 d2'" "dts_mode caps \<longrightarrow> (first \<longleftrightarrow> head_ts caps d1 \<le> head_ts caps d2)"
proof -
  obtain f1 q1 f2 q2 where q: "td_frameQueue d1 = f1 # q1" "td_frameQueue d2 = f2 # q2"
    using assms(1,2) by (meson neq_Nil_conv)
  have ts: "dts_mode caps \<Longrightarrow> head_ts caps d1 = mkvTimestamp caps f1 \<and> head_ts caps d2 = mkvTimestamp caps f2"
    by (simp add: head_ts_def dts_of_def mkvTimestamp_def q)
  show thesis
  proof (cases "comparesDts (sc_frameOrderingMode caps) \<or> comparesPts (sc_frameOrderingMode caps)")
    case True
    let ?swap = "mkvTimestamp caps f1 = mkvTimestamp caps f2 \<and>
        ti_trackType (td_pTrackInfo d1) \<noteq> ti_trackType (td_pTrackInfo d2)"
    let ?key = "\<not> CHECK_FRAME_FLAG_KEY_FRAME (fr_flags f1) \<and> CHECK_FRAME_FLAG_KEY_FRAME (fr_flags f2)"
    let ?d1 = "if ?swap \<and> ?key then delayHead caps d1 else d1"
    let ?d2 = "if ?swap \<and> \<not> ?key then delayHead caps d2 else d2"
    have "compareTracks caps d1 d2 = Some (STATUS_SUCCESS, mkvTimestamp caps f1 \<le> mkvTimestamp caps f2, ?d1, ?d2)"
      using True assms(3) by (auto simp: compareTracks_def q Let_def)
    then show thesis using ts by (intro that) auto
  next
    case False
    then have "compareTracks caps d1 d2 = Some (STATUS_SUCCESS, False, d1, d2)"
      by (simp add: compareTracks_def Let_def)
    then show thesis using that False by auto
  qed
qed

lemma same_tracks_trans:
  "list_all2 same_track xs ys \<Longrightarrow> list_all2 same_track ys zs \<Longrightarrow> list_all2 same_track xs zs"
  by (rule list_all2_trans [OF same_track_trans])

lemma same_tracks_ok:
  assumes "list_all2 same_track ds ds'" "list_all td_ok ds"
  shows "list_all td_ok ds'" "length (filter queued ds') = length (filter queued ds)"
  using assms
proof (induction ds ds' rule: list_all2_induct)
  case (Cons d ds d' ds')
  {
    case 1
    then show ?case using Cons same_track_ok [of d d'] by simp
  next
    case 2
    then show ?case using Cons same_track_ok [of d d'] by simp
  }
qed simp_all

lemma earliestTrackLoop_ok:
  assumes "i + n \<le> length ds" "m < i" "list_all td_ok ds" "queued (ds ! m)" "sc_timecodeScale caps \<noteq> 0"
  shows "\<exists>k ds'. earliestTrackLoop caps True n i m ds = Some (STATUS_SUCCESS, k, ds') \<and>
    list_all2 same_track ds ds' \<and> k < length ds \<and> queued (ds ! k) \<and>
    (dts_mode caps \<longrightarrow> (\<forall>j. (j = m \<or> i \<le> j \<and> j < i + n) \<and> queued (ds ! j) \<longrightarrow>
       head_ts caps (ds ! k) \<le> head_ts caps (ds ! j)))"
  using assms(1-4)
proof (induction n arbitrary: i m ds)
  case 0
  then show ?case by (auto intro: list_all2_refl)
next
  case (Suc n)
  have il: "i < length ds" "td_ok (ds ! i)" "m < length ds" using Suc.prems by (auto simp: list_all_length)
  show ?case
  proof (cases "queued (ds ! i)")
    case False
    then have "td_frameCount (ds ! i) = 0" using frameCount_zero [OF il(2)] by simp
    moreover have "(j = m \<or> i \<le> j \<and> j < i + Suc n) \<and> queued (ds ! j) \<longleftrightarrow>
        (j = m \<or> Suc i \<le> j \<and> j < Suc i + n) \<and> queued (ds ! j)" for j
      using False Suc.prems(2,4) by (cases "j = i") auto
    ultimately show ?thesis using Suc.IH [of "Suc i" ds m] Suc.prems by simp
  next
    case True
    then have nz: "td_frameCount (ds ! i) \<noteq> 0" using frameCount_zero [OF il(2)] by simp
    obtain first d1 d2 where cmp: "compareTracks caps (ds ! m) (ds ! i) = Some (STATUS_SUCCESS, first, d1, d2)"
      "same_track (ds ! m) d1" "same_track (ds ! i) d2"
      "dts_mode caps \<longrightarrow> (first \<longleftrightarrow> head_ts caps (ds ! m) \<le> head_ts caps (ds ! i))"
      by (rule compareTracks_ok [OF Suc.prems(4) True assms(5)])
    let ?ds = "ds[m := d1, i := d2]" and ?m = "if first then m else i"
    have nth: "?ds ! j = (if j = i then d2 else if j = m then d1 else ds ! j)" if "j < length ds" for j
      using that Suc.prems(2) by (simp add: nth_list_update)
    have same: "list_all2 same_track ds ?ds"
      using cmp(2,3) by (auto simp: list_all2_conv_all_nth nth)
    have ok: "list_all td_ok ?ds" using same_tracks_ok(1) [OF same Suc.prems(3)] .
    have sj: "same_track (ds ! j) (?ds ! j)" if "j < length ds" for j
      using same that by (simp add: list_all2_conv_all_nth)
    have qj: "queued (?ds ! j) \<longleftrightarrow> queued (ds ! j)" if "j < length ds" for j
      using same_track_ok(2) [OF sj [OF that]] Suc.prems(3) that by (simp add: list_all_length)
    have hj: "head_ts caps (?ds ! j) = head_ts caps (ds ! j)" if "j < length ds" "queued (ds ! j)" for j
      using same_track_head_ts [OF sj [OF that(1)] that(2)] .
    have ml: "?m < length ds" "queued (ds ! ?m)" using il Suc.prems(4) True by auto
    have "queued (?ds ! ?m)" using qj [OF ml(1)] ml(2) by blast
    then obtain k ds' where k: "earliestTrackLoop caps True n (Suc i) ?m ?ds = Some (STATUS_SUCCESS, k, ds')"
      "list_all2 same_track ?ds ds'" "k < length ds" "queued (?ds ! k)"
      "dts_mode caps \<Longrightarrow> (j = ?m \<or> Suc i \<le> j \<and> j < Suc i + n) \<Longrightarrow> queued (?ds ! j) \<Longrightarrow>
         head_ts caps (?ds ! k) \<le> head_ts caps (?ds ! j)" for j
      using Suc.IH [of "Suc i" ?ds ?m] Suc.prems(1,2) ok by (auto split: if_splits)
    have "head_ts caps (ds ! k) \<le> head_ts caps (ds ! j)"
      if m: "dts_mode caps" and j: "j = m \<or> i \<le> j \<and> j < i + Suc n" "queued (ds ! j)" for j
    proof -
      have jl: "j < length ds" using j(1) il Suc.prems(1) by auto
      have km: "head_ts caps (ds ! k) \<le> head_ts caps (ds ! ?m)"
        using k(5) [OF m, of ?m] qj [OF ml(1)] ml hj [OF ml] hj [OF k(3)] qj [OF k(3)] k(4) by simp
      show ?thesis
      proof (cases "j = m \<or> j = i")
        case True
        have "head_ts caps (ds ! ?m) \<le> head_ts caps (ds ! j)" using True cmp(4) m by auto
        then show ?thesis using km by simp
      next
        case False
        then have "Suc i \<le> j \<and> j < Suc i + n" using j(1) by auto
        then show ?thesis
          using k(5) [OF m, of j] qj [OF jl] j(2) hj [OF jl j(2)] hj [OF k(3)] qj [OF k(3)] k(4) by simp
      qed
    qed
    moreover have "earliestTrackLoop caps True (Suc n) i m ds = Some (STATUS_SUCCESS, k, ds')"
      using k(1) nz cmp(1) by simp
    ultimately show ?thesis
      using same_tracks_trans [OF same k(2)] k(3,4) qj [OF k(3)] by blast
  qed
qed

lemma firstTrackWithFrame_ok:
  assumes "list_all td_ok ds" "\<exists>d \<in> set ds. queued d"
  obtains j where "firstTrackWithFrame a ds = a + j" "j < length ds" "queued (ds ! j)"
    "\<forall>i < j. \<not> queued (ds ! i)"
  using assms
proof (induction ds arbitrary: a thesis)
  case (Cons d ds)
  show ?case
  proof (cases "queued d")
    case True
    then have "td_frameCount d \<noteq> 0" using frameCount_zero [of d] Cons.prems(2) by simp
    then show ?thesis using Cons.prems(1) [of 0] True by simp
  next
    case False
    then have z: "td_frameCount d = 0" using frameCount_zero [of d] Cons.prems(2) by simp
    obtain j where j: "firstTrackWithFrame (Suc a) ds = Suc a + j" "j < length ds" "queued (ds ! j)"
      "\<forall>i < j. \<not> queued (ds ! i)"
    proof (rule Cons.IH)
      show "list_all td_ok ds" "\<exists>d \<in> set ds. queued d" using Cons.prems(2,3) False by simp_all
    qed blast
    have "\<forall>i < Suc j. \<not> queued ((d # ds) ! i)" using j(4) False by (auto simp: less_Suc_eq_0_disj)
    then show ?thesis using Cons.prems(1) [of "Suc j"] z j by simp
  qed
qed simp

lemma getEarliestTrack_ok:
  assumes ok: "foc_ok caps c" and mode: "hasCompareFn (sc_frameOrderingMode caps)"
    and scale: "sc_timecodeScale caps \<noteq> 0" and some: "foc_trackWithFrame c > 0"
  shows "\<exists>k ds'. getEarliestTrack caps c = Some (STATUS_SUCCESS, Some k, c\<lparr>foc_putFrameTrackDataList := ds'\<rparr>) \<and>
    list_all2 same_track (foc_putFrameTrackDataList c) ds' \<and> k < length (foc_putFrameTrackDataList c) \<and>
    queued (foc_putFrameTrackDataList c ! k) \<and>
    (dts_mode caps \<longrightarrow> (\<forall>d \<in> set (foc_putFrameTrackDataList c). queued d \<longrightarrow>
       head_ts caps (foc_putFrameTrackDataList c ! k) \<le> head_ts caps d))"
proof -
  let ?ds = "foc_putFrameTrackDataList c"
  have len: "unat (foc_putFrameTrackDataListCount c) = length ?ds" and tds: "list_all td_ok ?ds"
    and cmp: "foc_compareFn c" using ok mode by (simp_all add: foc_ok_def)
  have "\<exists>d \<in> set ?ds. queued d" using some trackWithFrame_pos [OF ok] by blast
  then obtain m where m: "firstTrackWithFrame 0 ?ds = 0 + m" "m < length ?ds" "queued (?ds ! m)"
    "\<forall>i < m. \<not> queued (?ds ! i)"
    by (rule firstTrackWithFrame_ok [OF tds])
  note first = m(4)
  have "Suc m + (length ?ds - Suc m) \<le> length ?ds" using m(2) by simp
  from earliestTrackLoop_ok [OF this _ tds m(3) scale]
  obtain k ds' where k: "earliestTrackLoop caps True (length ?ds - Suc m) (Suc m) m ?ds = Some (STATUS_SUCCESS, k, ds')"
    "list_all2 same_track ?ds ds'" "k < length ?ds" "queued (?ds ! k)"
    "dts_mode caps \<longrightarrow> (\<forall>j. (j = m \<or> Suc m \<le> j \<and> j < Suc m + (length ?ds - Suc m)) \<and> queued (?ds ! j) \<longrightarrow>
       head_ts caps (?ds ! k) \<le> head_ts caps (?ds ! j))" by blast
  have "head_ts caps (?ds ! k) \<le> head_ts caps d" if m: "dts_mode caps" and d: "d \<in> set ?ds" "queued d" for d
  proof -
    obtain j where j: "j < length ?ds" "?ds ! j = d" using d(1) by (metis in_set_conv_nth)
    have "\<not> j < m" using first d(2) j(2) by blast
    then have "j = m \<or> Suc m \<le> j \<and> j < Suc m + (length ?ds - Suc m)" using j(1) by linarith
    then show ?thesis using k(5) m d(2) j by blast
  qed
  moreover have "getEarliestTrack caps c = Some (STATUS_SUCCESS, Some k, c\<lparr>foc_putFrameTrackDataList := ds'\<rparr>)"
    using some len m(1) k(1) cmp by (simp add: getEarliestTrack_def Let_def)
  ultimately show ?thesis using k(2-4) by blast
qed

subsection \<open>Taking and adding a frame\<close>

lemma filter_update_length:
  "k < length xs \<Longrightarrow>
   length (filter P (xs[k := y])) + (if P (xs ! k) then 1 else 0) = length (filter P xs) + (if P y then 1 else 0)"
proof (induction xs arbitrary: k)
  case (Cons x xs)
  then show ?case by (cases k) auto
qed simp

lemma list_all_update: "list_all P xs \<Longrightarrow> P x \<Longrightarrow> list_all P (xs[k := x])"
  by (auto simp: list_all_iff dest: set_update_subset_insert [THEN subsetD])

text \<open>The number of queued frames, which every put decreases.\<close>

definition frames_of :: "FrameOrderTrackData list \<Rightarrow> nat" where
  "frames_of ds = sum_list (map (\<lambda>d. length (td_frameQueue d)) ds)"

lemma same_tracks_frames: "list_all2 same_track ds ds' \<Longrightarrow> frames_of ds' = frames_of ds"
  unfolding frames_of_def
  by (induction ds ds' rule: list_all2_induct) (simp_all add: same_track_queue(1))

lemma frames_of_update:
  "k < length ds \<Longrightarrow> frames_of (ds[k := d']) + length (td_frameQueue (ds ! k)) = frames_of ds + length (td_frameQueue d')"
  unfolding frames_of_def
proof (induction ds arbitrary: k)
  case (Cons d ds)
  then show ?case by (cases k) (auto simp: algebra_simps)
qed simp

lemma foc_ok_same_tracks:
  "foc_ok caps c \<Longrightarrow> list_all2 same_track (foc_putFrameTrackDataList c) ds' \<Longrightarrow>
   foc_ok caps (c\<lparr>foc_putFrameTrackDataList := ds'\<rparr>)"
  using same_tracks_ok [of "foc_putFrameTrackDataList c" ds'] list_all2_lengthD [of same_track "foc_putFrameTrackDataList c" ds']
  by (auto simp: foc_ok_def)

lemma foc_ok_update:
  assumes "foc_ok caps c" "length ds = length (foc_putFrameTrackDataList c)" "list_all td_ok ds"
    "n = of_nat (length (filter queued ds))"
  shows "foc_ok caps (c\<lparr>foc_putFrameTrackDataList := ds, foc_trackWithFrame := n\<rparr>)"
  using assms by (auto simp: foc_ok_def)

lemma of_nat_step:
  "m + 1 = n + (if b then 0 else 1) \<Longrightarrow> (if b then of_nat n - 1 else of_nat n) = (of_nat m :: UINT32)"
  by (cases b) auto

lemma takeFrame_ok:
  assumes ok: "foc_ok caps c" and k: "k < length (foc_putFrameTrackDataList c)"
    and q: "td_frameQueue (foc_putFrameTrackDataList c ! k) = f # fs"
  shows "foc_ok caps (takeFrame k c)"
    "frames_of (foc_putFrameTrackDataList (takeFrame k c)) < frames_of (foc_putFrameTrackDataList c)"
proof -
  let ?ds = "foc_putFrameTrackDataList c"
  let ?d = "?ds ! k"
  let ?d' = "?d\<lparr>td_frameQueue := fs, td_frameCount := td_frameCount ?d - 1\<rparr>"
  have tk: "takeFrame k c = c\<lparr>foc_putFrameTrackDataList := ?ds[k := ?d'], foc_trackWithFrame :=
      (if td_frameCount ?d' = 0 then foc_trackWithFrame c - 1 else foc_trackWithFrame c)\<rparr>"
    by (simp add: takeFrame_def Let_def q)
  have "td_ok ?d" using ok k by (simp add: foc_ok_def list_all_length)
  then have d': "td_ok ?d'" by (simp add: td_ok_def q)
  have "length (filter queued (?ds[k := ?d'])) + 1 = length (filter queued ?ds) + (if fs = [] then 0 else 1)"
    using filter_update_length [OF k, of queued ?d'] q by simp
  note step = of_nat_step [OF this]
  have cnt: "foc_trackWithFrame c = of_nat (length (filter queued ?ds))" using ok by (simp add: foc_ok_def)
  have zero: "td_frameCount ?d' = 0 \<longleftrightarrow> fs = []" using frameCount_zero [OF d'] by simp
  have "(if td_frameCount ?d' = 0 then foc_trackWithFrame c - 1 else foc_trackWithFrame c) =
      of_nat (length (filter queued (?ds[k := ?d'])))"
    unfolding zero cnt by (rule step)
  moreover have "list_all td_ok (?ds[k := ?d'])"
    by (rule list_all_update [where P = td_ok]) (use ok d' in \<open>simp_all add: foc_ok_def\<close>)
  ultimately show "foc_ok caps (takeFrame k c)"
    unfolding tk using foc_ok_update [OF ok length_list_update] by blast
  show "frames_of (foc_putFrameTrackDataList (takeFrame k c)) < frames_of ?ds"
    using frames_of_update [OF k, of ?d'] q by (simp add: tk)
qed

lemma foc_ok_flags [simp]:
  "foc_ok caps (c\<lparr>foc_eofrPut := b\<rparr>) = foc_ok caps c"
  "foc_ok caps (c\<lparr>foc_keyFrameDetected := b\<rparr>) = foc_ok caps c"
  "foc_ok caps (c\<lparr>foc_lock := n\<rparr>) = foc_ok caps c"
  by (simp_all add: foc_ok_def)

lemma takeFrame_fields [simp]:
  "foc_lock (takeFrame k c) = foc_lock c" "foc_eofrPut (takeFrame k c) = foc_eofrPut c"
  by (simp_all add: takeFrame_def Let_def)

lemma takeFrame_tracks:
  "foc_putFrameTrackDataList (takeFrame k c) = (foc_putFrameTrackDataList c)
     [k := (foc_putFrameTrackDataList c ! k)\<lparr>td_frameQueue := tl (td_frameQueue (foc_putFrameTrackDataList c ! k)),
        td_frameCount := td_frameCount (foc_putFrameTrackDataList c ! k) - 1\<rparr>]"
  by (simp add: takeFrame_def Let_def)

definition stream_ok :: "'s Stream \<Rightarrow> bool" where
  "stream_ok s \<longleftrightarrow> foc_ok (ks_streamCaps s) (ks_coordinator s) \<and> sc_timecodeScale (ks_streamCaps s) \<noteq> 0 \<and>
     hasCompareFn (sc_frameOrderingMode (ks_streamCaps s))"

definition eofr_frame :: "FrameOrderCoordinator \<Rightarrow> Frame \<Rightarrow> Frame" where
  "eofr_frame c f = (if foc_eofrPut c then f\<lparr>fr_flags := SET_FRAME_FLAG_KEY_FRAME (fr_flags f)\<rparr> else f)"

abbreviation (input) tracks :: "'s Stream \<Rightarrow> FrameOrderTrackData list" where
  "tracks s \<equiv> foc_putFrameTrackDataList (ks_coordinator s)"

text \<open>What one step of the loops does, whatever \<open>putFrame\<close> is.\<close>

lemma putEarliestFrame_step:
  assumes ok: "stream_ok s" and some: "foc_trackWithFrame (ks_coordinator s) > 0"
  obtains k ds f fs where "list_all2 same_track (tracks s) ds" "k < length ds" "td_frameQueue (ds ! k) = f # fs"
    "dts_mode (ks_streamCaps s) \<longrightarrow> (\<forall>d \<in> set (tracks s). queued d \<longrightarrow>
       head_ts (ks_streamCaps s) (tracks s ! k) \<le> head_ts (ks_streamCaps s) d)"
    "putEarliestFrame pf s = (case pf (eofr_frame (ks_coordinator s) f) (ks_rest s) of (st, r) \<Rightarrow>
       Some (st, s\<lparr>ks_coordinator := (takeFrame k ((ks_coordinator s)\<lparr>foc_putFrameTrackDataList := ds\<rparr>))\<lparr>foc_eofrPut := False\<rparr>,
         ks_rest := r\<rparr>))"
proof -
  let ?c = "ks_coordinator s" and ?caps = "ks_streamCaps s"
  have fok: "foc_ok ?caps ?c" and scale: "sc_timecodeScale ?caps \<noteq> 0" and mode: "hasCompareFn (sc_frameOrderingMode ?caps)"
    using ok by (simp_all add: stream_ok_def)
  obtain k ds where k: "getEarliestTrack ?caps ?c = Some (STATUS_SUCCESS, Some k, ?c\<lparr>foc_putFrameTrackDataList := ds\<rparr>)"
    "list_all2 same_track (tracks s) ds" "k < length (tracks s)" "queued (tracks s ! k)"
    "dts_mode ?caps \<longrightarrow> (\<forall>d \<in> set (tracks s). queued d \<longrightarrow> head_ts ?caps (tracks s ! k) \<le> head_ts ?caps d)"
    using getEarliestTrack_ok [OF fok mode scale some] by blast
  have kl: "k < length ds" using k(2,3) by (simp add: list_all2_lengthD)
  have "same_track (tracks s ! k) (ds ! k)" using k(2,3) by (simp add: list_all2_nthD)
  then have "queued (ds ! k)" using same_track_queue(1) k(4) by (metis length_0_conv)
  then obtain f fs where f: "td_frameQueue (ds ! k) = f # fs" by (meson neq_Nil_conv)
  have "putEarliestFrame pf s = (case pf (eofr_frame ?c f) (ks_rest s) of (st, r) \<Rightarrow>
       Some (st, s\<lparr>ks_coordinator := (takeFrame k (?c\<lparr>foc_putFrameTrackDataList := ds\<rparr>))\<lparr>foc_eofrPut := False\<rparr>,
         ks_rest := r\<rparr>))"
    using some k(1) kl f by (simp add: putEarliestFrame_def Let_def eofr_frame_def split: prod.split)
  from that [OF k(2) kl f k(5) this] show thesis .
qed

definition kept :: "'s Stream \<Rightarrow> 's Stream \<Rightarrow> bool" where
  "kept s s' \<longleftrightarrow> stream_ok s' \<and> ks_streamCaps s' = ks_streamCaps s \<and>
     foc_lock (ks_coordinator s') = foc_lock (ks_coordinator s) \<and> ks_putFrameErrors s' = ks_putFrameErrors s"

lemma kept_trans: "kept a b \<Longrightarrow> kept b c \<Longrightarrow> kept a c"
  by (simp add: kept_def)

lemma putEarliestFrame_kept:
  assumes ok: "stream_ok s" and some: "foc_trackWithFrame (ks_coordinator s) > 0"
  obtains st s' where "putEarliestFrame pf s = Some (st, s')" "kept s s'" "frames_of (tracks s') < frames_of (tracks s)"
proof -
  let ?c = "ks_coordinator s"
  obtain k ds f fs where k: "list_all2 same_track (tracks s) ds" "k < length ds" "td_frameQueue (ds ! k) = f # fs"
    "putEarliestFrame pf s = (case pf (eofr_frame ?c f) (ks_rest s) of (st, r) \<Rightarrow>
       Some (st, s\<lparr>ks_coordinator := (takeFrame k (?c\<lparr>foc_putFrameTrackDataList := ds\<rparr>))\<lparr>foc_eofrPut := False\<rparr>,
         ks_rest := r\<rparr>))"
    by (rule putEarliestFrame_step [OF ok some, of pf])
  obtain st r where r: "pf (eofr_frame ?c f) (ks_rest s) = (st, r)" by fastforce
  let ?c1 = "?c\<lparr>foc_putFrameTrackDataList := ds\<rparr>"
  have "foc_ok (ks_streamCaps s) ?c1"
    using foc_ok_same_tracks k(1) ok by (simp add: stream_ok_def)
  note t = takeFrame_ok [OF this, of k f fs]
  have "foc_ok (ks_streamCaps s) (takeFrame k ?c1)"
    "frames_of (foc_putFrameTrackDataList (takeFrame k ?c1)) < frames_of ds"
    using t k(2,3) by simp_all
  then show thesis
    using that [OF k(4) [unfolded r prod.case]] ok same_tracks_frames [OF k(1)]
    by (simp add: kept_def stream_ok_def)
qed

text \<open>Both loops end, for every \<open>putFrame\<close>.\<close>

lemma putWhileAnyTrack_returns:
  "stream_ok s \<Longrightarrow> \<exists>st s'. putWhileAnyTrack pf s = Some (st, s') \<and> kept s s' \<and>
     (st = STATUS_SUCCESS \<longrightarrow> foc_trackWithFrame (ks_coordinator s') = 0)"
proof (induction "frames_of (tracks s)" arbitrary: s rule: less_induct)
  case less
  show ?case
  proof (cases "foc_trackWithFrame (ks_coordinator s) > 0")
    case False
    then have "foc_trackWithFrame (ks_coordinator s) = 0" by (simp add: word_gt_0)
    then show ?thesis using less.prems by (subst putWhileAnyTrack.simps) (simp add: kept_def)
  next
    case True
    obtain st s1 where s1: "putEarliestFrame pf s = Some (st, s1)" "kept s s1" "frames_of (tracks s1) < frames_of (tracks s)"
      by (rule putEarliestFrame_kept [OF less.prems True])
    have "stream_ok s1" using s1(2) by (simp add: kept_def)
    then obtain st' s' where "putWhileAnyTrack pf s1 = Some (st', s')" "kept s1 s'"
        "st' = STATUS_SUCCESS \<longrightarrow> foc_trackWithFrame (ks_coordinator s') = 0"
      using less.hyps [OF s1(3)] by blast
    then show ?thesis
      using True s1(1,2) kept_trans [OF s1(2), of s'] by (subst putWhileAnyTrack.simps) simp
  qed
qed

lemma putWhileAllTracks_returns:
  "stream_ok s \<Longrightarrow> \<exists>st s'. putWhileAllTracks pf s = Some (st, s') \<and> kept s s' \<and>
     (st = STATUS_SUCCESS \<longrightarrow> foc_trackWithFrame (ks_coordinator s') \<noteq> foc_putFrameTrackDataListCount (ks_coordinator s'))"
proof (induction "frames_of (tracks s)" arbitrary: s rule: less_induct)
  case less
  show ?case
  proof (cases "foc_trackWithFrame (ks_coordinator s) = foc_putFrameTrackDataListCount (ks_coordinator s)")
    case False
    then show ?thesis using less.prems by (subst putWhileAllTracks.simps) (simp add: kept_def)
  next
    case True
    have "foc_putFrameTrackDataListCount (ks_coordinator s) \<noteq> 0"
      using less.prems unfolding stream_ok_def foc_ok_def by blast
    then have "foc_trackWithFrame (ks_coordinator s) > 0" using True by (simp add: word_gt_0)
    then obtain st s1 where s1: "putEarliestFrame pf s = Some (st, s1)" "kept s s1" "frames_of (tracks s1) < frames_of (tracks s)"
      by (rule putEarliestFrame_kept [OF less.prems])
    have "stream_ok s1" using s1(2) by (simp add: kept_def)
    then obtain st' s' where "putWhileAllTracks pf s1 = Some (st', s')" "kept s1 s'"
        "st' = STATUS_SUCCESS \<longrightarrow> foc_trackWithFrame (ks_coordinator s') \<noteq> foc_putFrameTrackDataListCount (ks_coordinator s')"
      using less.hyps [OF s1(3)] by blast
    then show ?thesis
      using True s1(1,2) kept_trans [OF s1(2), of s'] by (subst putWhileAllTracks.simps) simp
  qed
qed

subsection \<open>The whole operations\<close>

lemma findTrack_Some:
  "findTrack x i ds = Some k \<Longrightarrow> i \<le> k \<and> k - i < length ds \<and> ti_trackId (td_pTrackInfo (ds ! (k - i))) = x"
proof (induction ds arbitrary: i)
  case (Cons d ds)
  show ?case
  proof (cases "ti_trackId (td_pTrackInfo d) = x")
    case False
    then have "Suc i \<le> k \<and> k - Suc i < length ds \<and> ti_trackId (td_pTrackInfo (ds ! (k - Suc i))) = x"
      using Cons.IH [of "Suc i"] Cons.prems by simp
    then show ?thesis by (auto simp: nth_Cons')
  qed (use Cons.prems in simp)
qed simp

lemma enqueueFrame_ok:
  assumes ok: "foc_ok caps c" and k: "k < length (foc_putFrameTrackDataList c)"
    and room: "td_frameCount (foc_putFrameTrackDataList c ! k) \<le> 60"
    and id: "fr_trackId f = ti_trackId (td_pTrackInfo (foc_putFrameTrackDataList c ! k))"
  shows "foc_ok caps (enqueueFrame k f c)"
proof -
  let ?ds = "foc_putFrameTrackDataList c"
  let ?d = "?ds ! k"
  let ?d' = "?d\<lparr>td_frameQueue := td_frameQueue ?d @ [f], td_frameCount := td_frameCount ?d + 1\<rparr>"
  have d: "td_ok ?d" and all: "list_all td_ok ?ds" using ok k by (simp_all add: foc_ok_def list_all_length)
  have "unat (of_nat (length (td_frameQueue ?d)) :: UINT32) = length (td_frameQueue ?d)"
    using d by (simp add: td_ok_def unat_of_nat)
  then have "length (td_frameQueue ?d) \<le> 60" using d room by (simp add: td_ok_def word_le_nat_alt)
  then have d': "td_ok ?d'" using d id by (auto simp: td_ok_def)
  have "length (filter queued (?ds[k := ?d'])) + (if queued ?d then 1 else 0) = length (filter queued ?ds) + 1"
    using filter_update_length [OF k, of queued ?d'] by simp
  then have "length (filter queued (?ds[k := ?d'])) =
      (if queued ?d then length (filter queued ?ds) else length (filter queued ?ds) + 1)" by (simp split: if_splits)
  moreover have "foc_trackWithFrame c = of_nat (length (filter queued ?ds))" using ok by (simp add: foc_ok_def)
  ultimately have cnt: "(if td_frameCount ?d = 0 then foc_trackWithFrame c + 1 else foc_trackWithFrame c) =
      of_nat (length (filter queued (?ds[k := ?d'])))"
    unfolding frameCount_zero [OF d] by simp
  have "list_all td_ok (?ds[k := ?d'])" by (rule list_all_update [OF all, where x = ?d', OF d'])
  then show ?thesis
    unfolding enqueueFrame_def Let_def using foc_ok_update [OF ok length_list_update _ cnt] by blast
qed

lemma stream_ok_flags [simp]:
  "stream_ok (s\<lparr>ks_putFrameErrors := e\<rparr>) = stream_ok s" "stream_ok (s\<lparr>ks_rest := r\<rparr>) = stream_ok s"
  "stream_ok (lockCoordinator s) = stream_ok s" "stream_ok (unlockCoordinator s) = stream_ok s"
  by (simp_all add: stream_ok_def lockCoordinator_def unlockCoordinator_def)

lemma lock_fields [simp]:
  "ks_streamCaps (lockCoordinator s) = ks_streamCaps s" "ks_streamCaps (unlockCoordinator s) = ks_streamCaps s"
  "ks_rest (lockCoordinator s) = ks_rest s" "ks_rest (unlockCoordinator s) = ks_rest s"
  "ks_putFrameErrors (lockCoordinator s) = ks_putFrameErrors s"
  "ks_putFrameErrors (unlockCoordinator s) = ks_putFrameErrors s"
  "foc_lock (ks_coordinator (lockCoordinator s)) = Suc (foc_lock (ks_coordinator s))"
  "foc_lock (ks_coordinator (unlockCoordinator s)) = foc_lock (ks_coordinator s) - 1"
  "foc_putFrameTrackDataList (ks_coordinator (lockCoordinator s)) = foc_putFrameTrackDataList (ks_coordinator s)"
  "foc_putFrameTrackDataList (ks_coordinator (unlockCoordinator s)) = foc_putFrameTrackDataList (ks_coordinator s)"
  "foc_trackWithFrame (ks_coordinator (lockCoordinator s)) = foc_trackWithFrame (ks_coordinator s)"
  "foc_trackWithFrame (ks_coordinator (unlockCoordinator s)) = foc_trackWithFrame (ks_coordinator s)"
  by (simp_all add: lockCoordinator_def unlockCoordinator_def)

lemma stream_ok_not_pass: "stream_ok s \<Longrightarrow> sc_frameOrderingMode (ks_streamCaps s) \<noteq> FRAME_ORDER_MODE_PASS_THROUGH"
  by (simp add: stream_ok_def hasCompareFn_def)

lemma flush_kept:
  assumes "stream_ok s"
  obtains st s' where "frameOrderCoordinatorFlush pf (Some s) = Some (st, Some s')" "kept s s'"
    "st = STATUS_SUCCESS \<longrightarrow> foc_trackWithFrame (ks_coordinator s') = 0"
proof -
  obtain st s1 where s1: "putWhileAnyTrack pf (lockCoordinator s) = Some (st, s1)" "kept (lockCoordinator s) s1"
    "st = STATUS_SUCCESS \<longrightarrow> foc_trackWithFrame (ks_coordinator s1) = 0"
    using putWhileAnyTrack_returns [of "lockCoordinator s" pf] assms by auto
  have "frameOrderCoordinatorFlush pf (Some s) = Some (st, Some (unlockCoordinator s1))"
    using s1(1) stream_ok_not_pass [OF assms] by simp
  moreover have "kept s (unlockCoordinator s1)" using s1(2) by (simp add: kept_def)
  ultimately show thesis using that s1(3) by simp
qed

lemma noteKeyFrame_kept: "stream_ok s \<Longrightarrow> kept s (noteKeyFrame f s)"
  by (simp add: noteKeyFrame_def kept_def stream_ok_def)

lemma noteKeyFrame_tracks [simp]:
  "foc_putFrameTrackDataList (ks_coordinator (noteKeyFrame f s)) = foc_putFrameTrackDataList (ks_coordinator s)"
  "foc_trackWithFrame (ks_coordinator (noteKeyFrame f s)) = foc_trackWithFrame (ks_coordinator s)"
  "ks_rest (noteKeyFrame f s) = ks_rest s" "ks_streamCaps (noteKeyFrame f s) = ks_streamCaps s"
  by (simp_all add: noteKeyFrame_def)

lemma putEndOfFragment_kept:
  assumes "stream_ok s"
  shows "\<exists>st s'. putEndOfFragment pf f s = Some (st, s') \<and> kept s s'"
proof -
  obtain st2 s2 where s2: "frameOrderCoordinatorFlush pf (Some s) = Some (st2, Some s2)" "kept s s2"
    by (rule flush_kept [OF assms])
  obtain st3 r where r: "pf f (ks_rest s2) = (st3, r)" by fastforce
  have "kept s (s2\<lparr>ks_rest := r\<rparr>)" "kept s (s2\<lparr>ks_rest := r, ks_coordinator := (ks_coordinator s2)\<lparr>foc_eofrPut := True\<rparr>\<rparr>)"
    using s2(2) by (auto simp: kept_def stream_ok_def)
  then show ?thesis using s2 r
    by (simp add: putEndOfFragment_def Let_def del: frameOrderCoordinatorFlush.simps)
qed

lemma putIntoTrack_kept:
  assumes "stream_ok s" and size: "64 + unat (fr_size f) < 2 ^ 32"
    and k: "k < length (tracks s)" "ti_trackId (td_pTrackInfo (tracks s ! k)) = fr_trackId f"
    and room: "td_frameCount (tracks s ! k) \<le> 60"
  shows "\<exists>st s'. putIntoTrack pf alloc node f k s = Some (st, s') \<and> kept s s'"
proof -
  let ?s = "s\<lparr>ks_coordinator := enqueueFrame k (copyFrame f) (ks_coordinator s)\<rparr>"
  have "foc_ok (ks_streamCaps s) (enqueueFrame k (copyFrame f) (ks_coordinator s))"
    by (rule enqueueFrame_ok) (use assms(1) k room in \<open>auto simp: stream_ok_def copyFrame_def\<close>)
  then have "stream_ok ?s" using assms(1) by (simp add: stream_ok_def)
  then obtain st s' where s': "putWhileAllTracks pf ?s = Some (st, s')" "kept ?s s'"
    using putWhileAllTracks_returns [of ?s pf] by blast
  have "kept s s'" using s'(2) by (simp add: kept_def enqueueFrame_def Let_def)
  then show ?thesis using s'(1) size assms(1) by (auto simp: putIntoTrack_def kept_def)
qed

lemma findTrack_track:
  assumes "stream_ok s" "findTrack x 0 (take (unat (sc_trackInfoCount (ks_streamCaps s))) (tracks s)) = Some k"
  shows "k < length (tracks s)" "ti_trackId (td_pTrackInfo (tracks s ! k)) = x"
proof -
  have "unat (sc_trackInfoCount (ks_streamCaps s)) = length (tracks s)" using assms(1) by (simp add: stream_ok_def foc_ok_def)
  then show "k < length (tracks s)" "ti_trackId (td_pTrackInfo (tracks s ! k)) = x"
    using findTrack_Some [OF assms(2)] by simp_all
qed

lemma putFrameLocked_kept:
  assumes ok: "stream_ok s" and size: "64 + unat (fr_size f) < 2 ^ 32"
  shows "\<exists>st s'. putFrameLocked pf alloc node f s = Some (st, s') \<and> kept s s'"
proof -
  let ?t = "findTrack (fr_trackId f) 0 (take (unat (sc_trackInfoCount (ks_streamCaps s))) (tracks s))"
  let ?s1 = "noteKeyFrame f s"
  have s0: "kept s s" using ok by (simp add: kept_def)
  have s1: "kept s ?s1" by (rule noteKeyFrame_kept [OF ok])
  then have ok1: "stream_ok ?s1" by (simp add: kept_def)
  have eofr: "\<exists>st s'. putEndOfFragment pf f ?s1 = Some (st, s') \<and> kept s s'"
    using putEndOfFragment_kept [OF ok1, of pf f] kept_trans [OF s1] by blast
  have enq: "\<exists>st s'. putIntoTrack pf alloc node f k ?s1 = Some (st, s') \<and> kept s s'"
    if "?t = Some k" "td_frameCount (tracks s ! k) \<le> 60" for k
    using putIntoTrack_kept [OF ok1 size, of k pf alloc node] findTrack_track [OF ok that(1)] that(2) kept_trans [OF s1]
    by fastforce
  show ?thesis
    using s0 s1 eofr enq by (cases ?t) (simp_all add: putFrameLocked_def Let_def)
qed

subsection \<open>Timestamp order\<close>

text \<open>
  The order of a session: \<open>fut j\<close> are the frames that track \<open>j\<close> will still get and \<open>hist j\<close> those it
  was given so far, up to the changed fields. The stream records the frames put into it.
\<close>

definition recordFrame :: "Frame \<Rightarrow> Frame list \<Rightarrow> STATUS \<times> Frame list" where
  "recordFrame f log = (STATUS_SUCCESS, log @ [f])"

definition track_id :: "FrameOrderTrackData \<Rightarrow> UINT64" where
  "track_id d = ti_trackId (td_pTrackInfo d)"

abbreviation (input) of_track :: "FrameOrderTrackData \<Rightarrow> Frame list \<Rightarrow> Frame list" where
  "of_track d fs \<equiv> filter (\<lambda>f. fr_trackId f = track_id d) fs"

definition ordered :: "(nat \<Rightarrow> Frame list) \<Rightarrow> (nat \<Rightarrow> Frame list) \<Rightarrow> Frame list Stream \<Rightarrow> bool" where
  "ordered fut hist s \<longleftrightarrow> stream_ok s \<and> dts_mode (ks_streamCaps s) \<and> distinct (map track_id (tracks s)) \<and>
     (\<forall>j < length (tracks s).
        sorted (map (dts_of (ks_streamCaps s)) (ks_rest s @ td_frameQueue (tracks s ! j) @ fut j)) \<and>
        map fr_id (of_track (tracks s ! j) (ks_rest s) @ td_frameQueue (tracks s ! j)) = map fr_id (hist j))"

lemma sorted_emit:
  fixes x :: "'a::linorder"
  assumes "sorted (L @ Q)" "sorted (L @ [x])" "Q \<noteq> [] \<Longrightarrow> x \<le> hd Q"
  shows "sorted (L @ x # Q)"
  using assms by (cases Q) (auto simp: sorted_append)

lemma dts_of_fields [simp]:
  "dts_of caps (eofr_frame c f) = dts_of caps f" "fr_trackId (eofr_frame c f) = fr_trackId f"
  "fr_id (eofr_frame c f) = fr_id f"
  by (simp_all add: dts_of_def eofr_frame_def fr_id_def)

lemma same_track_dts:
  assumes "same_track d d'"
  shows "map (dts_of caps) (td_frameQueue d') = map (dts_of caps) (td_frameQueue d)" "track_id d' = track_id d"
proof -
  have "map (\<lambda>f. fr_decodingTs f div sc_timecodeScale caps) (td_frameQueue d') =
      map (\<lambda>f. fr_decodingTs f div sc_timecodeScale caps) (td_frameQueue d)"
    using arg_cong [OF same_track_queue(3) [OF assms], of "map (\<lambda>t. t div sc_timecodeScale caps)"]
    by (simp add: comp_def)
  then show "map (dts_of caps) (td_frameQueue d') = map (dts_of caps) (td_frameQueue d)"
    by (simp add: dts_of_def [abs_def])
  show "track_id d' = track_id d" using assms by (simp add: same_track_def track_id_def)
qed

text \<open>One put keeps the order, if every other track has a frame or gets none any more.\<close>

lemma ordered_step:
  assumes ord: "ordered fut hist s" and some: "foc_trackWithFrame (ks_coordinator s) > 0"
    and ahead: "\<And>j. j < length (tracks s) \<Longrightarrow> queued (tracks s ! j) \<or> fut j = []"
  obtains s' where "putEarliestFrame recordFrame s = Some (STATUS_SUCCESS, s')" "ordered fut hist s'"
    "kept s s'" "frames_of (tracks s') < frames_of (tracks s)" "map track_id (tracks s') = map track_id (tracks s)"
proof -
  let ?c = "ks_coordinator s" and ?caps = "ks_streamCaps s" and ?log = "ks_rest s"
  have ok: "stream_ok s" and dts: "dts_mode ?caps" and dist: "distinct (map track_id (tracks s))"
    using ord by (auto simp: ordered_def)
  obtain k ds f fs where k: "list_all2 same_track (tracks s) ds" "k < length ds" "td_frameQueue (ds ! k) = f # fs"
    "dts_mode ?caps \<longrightarrow> (\<forall>d \<in> set (tracks s). queued d \<longrightarrow> head_ts ?caps (tracks s ! k) \<le> head_ts ?caps d)"
    "putEarliestFrame recordFrame s = (case recordFrame (eofr_frame ?c f) ?log of (st, r) \<Rightarrow>
       Some (st, s\<lparr>ks_coordinator := (takeFrame k (?c\<lparr>foc_putFrameTrackDataList := ds\<rparr>))\<lparr>foc_eofrPut := False\<rparr>,
         ks_rest := r\<rparr>))"
    by (rule putEarliestFrame_step [OF ok some, of recordFrame])
  let ?f = "eofr_frame ?c f"
  let ?s = "s\<lparr>ks_coordinator := (takeFrame k (?c\<lparr>foc_putFrameTrackDataList := ds\<rparr>))\<lparr>foc_eofrPut := False\<rparr>,
         ks_rest := ?log @ [?f]\<rparr>"
  have run: "putEarliestFrame recordFrame s = Some (STATUS_SUCCESS, ?s)" using k(5) by (simp add: recordFrame_def)
  obtain st s' where "putEarliestFrame recordFrame s = Some (st, s')" "kept s s'" "frames_of (tracks s') < frames_of (tracks s)"
    by (rule putEarliestFrame_kept [OF ok some])
  then have kept: "kept s ?s" and less: "frames_of (tracks ?s) < frames_of (tracks s)" using run by simp_all
  have len: "length ds = length (tracks s)" using k(1) by (simp add: list_all2_lengthD)
  let ?dk = "(ds ! k)\<lparr>td_frameQueue := fs, td_frameCount := td_frameCount (ds ! k) - 1\<rparr>"
  have tk: "foc_putFrameTrackDataList (takeFrame k (?c\<lparr>foc_putFrameTrackDataList := ds\<rparr>)) = ds[k := ?dk]"
    using k(3) by (simp add: takeFrame_tracks)
  then have ts: "tracks ?s = ds[k := ?dk]" by simp
  have same: "same_track (tracks s ! j) (ds ! j)" if "j < length ds" for j
    using list_all2_nthD [OF k(1)] that len by simp
  have ids: "map track_id (tracks ?s) = map track_id (tracks s)"
    unfolding ts using len k(2) same_track_dts(2) [OF same] by (intro nth_equalityI) (auto simp: nth_list_update track_id_def)
  have idk: "fr_trackId f = track_id (tracks s ! k)"
  proof -
    have "td_ok (tracks s ! k)" using ok k(2) len by (simp add: stream_ok_def foc_ok_def list_all_length)
    then have "td_ok (ds ! k)" using same_track_ok(1) [OF same [OF k(2)]] by simp
    then show ?thesis using same_track_dts(2) [OF same [OF k(2)]] k(3) by (simp add: td_ok_def track_id_def)
  qed
  have inv: "sorted (map (dts_of ?caps) (?log @ td_frameQueue (ds ! j) @ fut j))"
      "map fr_id (of_track (tracks s ! j) ?log @ td_frameQueue (ds ! j)) = map fr_id (hist j)" if "j < length ds" for j
    using ord that len same_track_dts(1) [OF same [OF that], of ?caps] same_track_queue(2) [OF same [OF that]]
    by (simp_all add: ordered_def)
  have head: "head_ts ?caps (tracks s ! k) = dts_of ?caps f"
    using same_track_head_ts [OF same [OF k(2)], of ?caps] k(3) same_track_queue(1) [OF same [OF k(2)]]
    by (simp add: head_ts_def) (metis list.size(3) nat.distinct(1))
  have "sorted (map (dts_of ?caps) ((?log @ [?f]) @ td_frameQueue (tracks ?s ! j) @ fut j)) \<and>
      map fr_id (of_track (tracks ?s ! j) (?log @ [?f]) @ td_frameQueue (tracks ?s ! j)) = map fr_id (hist j)"
    if j: "j < length ds" for j
  proof (cases "j = k")
    case True
    have idj: "track_id (tracks ?s ! k) = track_id (tracks s ! k)"
      using ids k(2) len by (metis (no_types, lifting) length_map nth_map)
    show ?thesis using inv [OF k(2)] k(2,3) idk unfolding True idj by (simp add: tk)
  next
    case False
    let ?Q = "map (dts_of ?caps) (td_frameQueue (ds ! j) @ fut j)"
    have q: "tracks ?s ! j = ds ! j" using False unfolding ts by simp
    have idj: "track_id (ds ! j) = track_id (tracks s ! j)" using same_track_dts(2) [OF same [OF j]] .
    have "track_id (tracks s ! j) \<noteq> track_id (tracks s ! k)"
      using dist False j k(2) len by (metis (no_types, lifting) length_map nth_eq_iff_index_eq nth_map)
    then have "of_track (ds ! j) (?log @ [?f]) = of_track (tracks s ! j) ?log" using idk idj by simp
    moreover have "sorted (map (dts_of ?caps) ?log @ dts_of ?caps f # ?Q)"
    proof (rule sorted_emit)
      show "sorted (map (dts_of ?caps) ?log @ ?Q)" using inv(1) [OF j] by simp
      show "sorted (map (dts_of ?caps) ?log @ [dts_of ?caps f])"
        using inv(1) [OF k(2)] k(3) by (auto simp: sorted_append)
      assume ne: "?Q \<noteq> []"
      have jl: "j < length (tracks s)" using j len by simp
      have qj: "queued (ds ! j) \<longleftrightarrow> queued (tracks s ! j)" using same_track_queue(1) [OF same [OF j]] by (metis length_0_conv)
      have "queued (tracks s ! j)" using ahead [OF jl] ne qj by auto
      then have "dts_of ?caps f \<le> head_ts ?caps (ds ! j)"
        using k(4) dts head same_track_head_ts [OF same [OF j], of ?caps] nth_mem [OF jl] by metis
      then show "dts_of ?caps f \<le> hd ?Q"
        using \<open>queued (tracks s ! j)\<close> qj by (cases "td_frameQueue (ds ! j)") (simp_all add: head_ts_def)
    qed
    ultimately show ?thesis using inv(2) [OF j] unfolding q by simp
  qed
  then have "ordered fut hist ?s"
    using kept dts dist ids unfolding ordered_def kept_def by (simp add: tk)
  then show thesis using that [OF run _ kept less ids] by blast
qed

lemma ordered_putWhileAllTracks:
  "ordered fut hist s \<Longrightarrow> \<exists>s'. putWhileAllTracks recordFrame s = Some (STATUS_SUCCESS, s') \<and> ordered fut hist s' \<and>
     map track_id (tracks s') = map track_id (tracks s)"
proof (induction "frames_of (tracks s)" arbitrary: s rule: less_induct)
  case less
  have ok: "stream_ok s" using less.prems by (simp add: ordered_def)
  then have fok: "foc_ok (ks_streamCaps s) (ks_coordinator s)" by (simp add: stream_ok_def)
  show ?case
  proof (cases "foc_trackWithFrame (ks_coordinator s) = foc_putFrameTrackDataListCount (ks_coordinator s)")
    case False
    then show ?thesis using less.prems by (subst putWhileAllTracks.simps) simp
  next
    case True
    have "foc_putFrameTrackDataListCount (ks_coordinator s) \<noteq> 0" using fok unfolding foc_ok_def by blast
    then have pos: "foc_trackWithFrame (ks_coordinator s) > 0" using True by (simp add: word_gt_0)
    have ahead: "queued (tracks s ! j) \<or> fut j = []" if "j < length (tracks s)" for j
      using True trackWithFrame_all [OF fok] that by simp
    obtain s1 where s1: "putEarliestFrame recordFrame s = Some (STATUS_SUCCESS, s1)" "ordered fut hist s1"
      "frames_of (tracks s1) < frames_of (tracks s)" "map track_id (tracks s1) = map track_id (tracks s)"
      by (rule ordered_step [OF less.prems pos ahead])
    obtain s' where "putWhileAllTracks recordFrame s1 = Some (STATUS_SUCCESS, s')" "ordered fut hist s'"
        "map track_id (tracks s') = map track_id (tracks s1)"
      using less.hyps [OF s1(3,2)] by blast
    then show ?thesis using True s1(1,4) by (subst putWhileAllTracks.simps) simp
  qed
qed

lemma ordered_putWhileAnyTrack:
  "ordered (\<lambda>_. []) hist s \<Longrightarrow> \<exists>s'. putWhileAnyTrack recordFrame s = Some (STATUS_SUCCESS, s') \<and>
     ordered (\<lambda>_. []) hist s' \<and> map track_id (tracks s') = map track_id (tracks s) \<and>
     foc_trackWithFrame (ks_coordinator s') = 0"
proof (induction "frames_of (tracks s)" arbitrary: s rule: less_induct)
  case less
  show ?case
  proof (cases "foc_trackWithFrame (ks_coordinator s) > 0")
    case False
    then have "foc_trackWithFrame (ks_coordinator s) = 0" by (simp add: word_gt_0)
    then show ?thesis using less.prems by (subst putWhileAnyTrack.simps) simp
  next
    case True
    obtain s1 where s1: "putEarliestFrame recordFrame s = Some (STATUS_SUCCESS, s1)" "ordered (\<lambda>_. []) hist s1"
      "frames_of (tracks s1) < frames_of (tracks s)" "map track_id (tracks s1) = map track_id (tracks s)"
      by (rule ordered_step [OF less.prems True disjI2 [OF refl]])
    obtain s' where "putWhileAnyTrack recordFrame s1 = Some (STATUS_SUCCESS, s')" "ordered (\<lambda>_. []) hist s'"
        "map track_id (tracks s') = map track_id (tracks s1)" "foc_trackWithFrame (ks_coordinator s') = 0"
      using less.hyps [OF s1(3,2)] by blast
    then show ?thesis using True s1(1,4) by (subst putWhileAnyTrack.simps) simp
  qed
qed

lemma ordered_cong:
  "ordered fut hist s \<Longrightarrow> stream_ok s' \<Longrightarrow> ks_streamCaps s' = ks_streamCaps s \<Longrightarrow> tracks s' = tracks s \<Longrightarrow>
   ks_rest s' = ks_rest s \<Longrightarrow> ordered fut hist s'"
  by (simp add: ordered_def)

lemma ordered_ext:
  assumes "ordered fut hist s" "\<And>j. j < length (tracks s) \<Longrightarrow> fut' j = fut j \<and> hist' j = hist j"
  shows "ordered fut' hist' s"
  using assms by (simp add: ordered_def)

lemma ordered_fut_mono:
  assumes "ordered fut hist s" "\<And>j. j < length (tracks s) \<Longrightarrow> \<exists>xs ys zs. fut j = xs @ ys @ zs \<and> fut' j = xs @ zs"
  shows "ordered fut' hist s"
proof -
  have "sorted (map (dts_of (ks_streamCaps s)) (ks_rest s @ td_frameQueue (tracks s ! j) @ fut' j))"
    if "j < length (tracks s)" for j
  proof -
    obtain xs ys zs where "fut j = xs @ ys @ zs" "fut' j = xs @ zs" using assms(2) [OF \<open>j < _\<close>] by blast
    then show ?thesis using assms(1) that by (auto simp: ordered_def sorted_append)
  qed
  then show ?thesis using assms(1) by (simp add: ordered_def)
qed

lemma ordered_enqueue:
  assumes ord: "ordered fut hist s" and k: "k < length (tracks s)" and id: "fr_trackId f = track_id (tracks s ! k)"
    and room: "td_frameCount (tracks s ! k) \<le> 60" and fut: "fut k = f # fs"
  shows "ordered (fut(k := fs)) (hist(k := hist k @ [copyFrame f]))
      (s\<lparr>ks_coordinator := enqueueFrame k (copyFrame f) (ks_coordinator s)\<rparr>)"
    (is "ordered ?fut ?hist ?s")
proof -
  let ?d = "tracks s ! k"
  let ?d' = "?d\<lparr>td_frameQueue := td_frameQueue ?d @ [copyFrame f], td_frameCount := td_frameCount ?d + 1\<rparr>"
  have ts: "foc_putFrameTrackDataList (enqueueFrame k (copyFrame f) (ks_coordinator s)) = (tracks s)[k := ?d']"
    by (simp add: enqueueFrame_def Let_def)
  have ok: "stream_ok s" using ord by (simp add: ordered_def)
  have "foc_ok (ks_streamCaps s) (enqueueFrame k (copyFrame f) (ks_coordinator s))"
    by (rule enqueueFrame_ok) (use ok k room id in \<open>auto simp: stream_ok_def copyFrame_def track_id_def\<close>)
  then have ok': "stream_ok ?s" using ok by (simp add: stream_ok_def)
  have tid: "track_id ?d' = track_id ?d" by (simp add: track_id_def)
  have ids: "map track_id ((tracks s)[k := ?d']) = map track_id (tracks s)"
    unfolding map_update tid using k by (metis length_map list_update_id nth_map)
  have dc: "dts_of caps (copyFrame f) = dts_of caps f" for caps by (simp add: dts_of_def copyFrame_def)
  have inv: "sorted (map (dts_of (ks_streamCaps s)) (ks_rest s @ td_frameQueue (tracks s ! j) @ fut j))"
      "map fr_id (of_track (tracks s ! j) (ks_rest s) @ td_frameQueue (tracks s ! j)) = map fr_id (hist j)"
    if "j < length (tracks s)" for j using ord that by (simp_all add: ordered_def)
  have "sorted (map (dts_of (ks_streamCaps s)) (ks_rest s @ td_frameQueue ((tracks s)[k := ?d'] ! j) @ ?fut j)) \<and>
      map fr_id (of_track ((tracks s)[k := ?d'] ! j) (ks_rest s) @ td_frameQueue ((tracks s)[k := ?d'] ! j)) = map fr_id (?hist j)"
    if "j < length (tracks s)" for j
  proof (cases "j = k")
    case True
    then show ?thesis using inv [OF k] fut k by (simp add: dc tid)
  next
    case False
    then show ?thesis using inv [OF that] by simp
  qed
  then show ?thesis using ok' ord ids by (simp add: ordered_def ts)
qed

lemma findTrack_None: "findTrack x i ds = None \<Longrightarrow> d \<in> set ds \<Longrightarrow> track_id d \<noteq> x"
  by (induction ds arbitrary: i) (auto simp: track_id_def split: if_splits)

abbreviation (input) plain :: "Frame \<Rightarrow> bool" where
  "plain f \<equiv> \<not> CHECK_FRAME_FLAG_END_OF_FRAGMENT (fr_flags f) \<and> 64 + unat (fr_size f) < 2 ^ 32"

lemma putFrame_locked:
  "stream_ok s \<Longrightarrow> putFrameLocked pf alloc node f (lockCoordinator s) = Some (st, s') \<Longrightarrow>
   frameOrderCoordinatorPutFrame pf alloc node (Some s) (Some f) = Some (st, Some (unlockCoordinator (countError st s')))"
  using stream_ok_not_pass [of s] by simp

lemma putFrameLocked_plain:
  assumes "stream_ok s" "plain f"
  shows "putFrameLocked pf True True f s =
    (case findTrack (fr_trackId f) 0 (tracks s) of
       None \<Rightarrow> Some (STATUS_MKV_TRACK_INFO_NOT_FOUND, s)
     | Some k \<Rightarrow> if td_frameCount (tracks s ! k) \<le> 60
         then putWhileAllTracks pf ((noteKeyFrame f s)
           \<lparr>ks_coordinator := enqueueFrame k (copyFrame f) (ks_coordinator (noteKeyFrame f s))\<rparr>)
         else Some (STATUS_MAX_FRAME_TIMESTAMP_DELTA_BETWEEN_TRACKS_EXCEEDED, s))"
proof -
  have "take (unat (sc_trackInfoCount (ks_streamCaps s))) (tracks s) = tracks s"
    using assms(1) by (simp add: stream_ok_def foc_ok_def)
  then show ?thesis
    using assms(2) by (cases "findTrack (fr_trackId f) 0 (tracks s)") (simp_all add: putFrameLocked_def putIntoTrack_def Let_def)
qed

text \<open>A frame that the coordinator accepts takes its place in the order; one that it refuses has no effect.\<close>

lemma ordered_accept:
  assumes ord: "ordered fut hist s" and k: "k < length (tracks s)" and id: "fr_trackId f = track_id (tracks s ! k)"
    and room: "td_frameCount (tracks s ! k) \<le> 60" and fut: "fut k = f # fs"
  obtains s' where "putWhileAllTracks recordFrame ((noteKeyFrame f s)
      \<lparr>ks_coordinator := enqueueFrame k (copyFrame f) (ks_coordinator (noteKeyFrame f s))\<rparr>) = Some (STATUS_SUCCESS, s')"
    "ordered (fut(k := fs)) (hist(k := hist k @ [copyFrame f])) s'" "map track_id (tracks s') = map track_id (tracks s)"
proof -
  let ?s1 = "noteKeyFrame f s"
  let ?s2 = "?s1\<lparr>ks_coordinator := enqueueFrame k (copyFrame f) (ks_coordinator ?s1)\<rparr>"
  have "stream_ok ?s1" using noteKeyFrame_kept [of s f] ord by (simp add: kept_def ordered_def)
  then have o1: "ordered fut hist ?s1" by (rule ordered_cong [OF ord]) simp_all
  have "ordered (fut(k := fs)) (hist(k := hist k @ [copyFrame f])) ?s2"
    by (rule ordered_enqueue [OF o1 _ _ _ fut]) (simp_all add: k id room)
  then obtain s' where s': "putWhileAllTracks recordFrame ?s2 = Some (STATUS_SUCCESS, s')"
    "ordered (fut(k := fs)) (hist(k := hist k @ [copyFrame f])) s'" "map track_id (tracks s') = map track_id (tracks ?s2)"
    using ordered_putWhileAllTracks by blast
  have "map track_id ((tracks s)[k := (tracks s ! k)\<lparr>td_frameQueue := q, td_frameCount := n\<rparr>]) = map track_id (tracks s)" for q n
  proof -
    have "track_id ((tracks s ! k)\<lparr>td_frameQueue := q, td_frameCount := n\<rparr>) = map track_id (tracks s) ! k"
      using k by (simp add: track_id_def)
    then show ?thesis unfolding map_update by (simp only: list_update_id)
  qed
  then have "map track_id (tracks ?s2) = map track_id (tracks s)" by (simp add: enqueueFrame_def Let_def)
  with that [OF s'(1,2)] s'(3) show thesis by simp
qed

lemma ordered_putFrame:
  assumes ord: "ordered (\<lambda>j. filter (\<lambda>g. fr_trackId g = ids ! j) (f # fs)) hist s"
    and ids: "map track_id (tracks s) = ids" and f: "plain f"
  obtains st s' where "frameOrderCoordinatorPutFrame recordFrame True True (Some s) (Some f) = Some (st, Some s')"
    "map track_id (tracks s') = ids"
    "ordered (\<lambda>j. filter (\<lambda>g. fr_trackId g = ids ! j) fs)
       (\<lambda>j. hist j @ (if st = STATUS_SUCCESS \<and> fr_trackId f = ids ! j then [copyFrame f] else [])) s'"
proof -
  let ?s = "lockCoordinator s" and ?t = "findTrack (fr_trackId f) 0 (tracks s)"
  let ?fut = "\<lambda>j. filter (\<lambda>g. fr_trackId g = ids ! j) (f # fs)" and ?fut' = "\<lambda>j. filter (\<lambda>g. fr_trackId g = ids ! j) fs"
  note result = that
  have ok: "stream_ok s" using ord by (simp add: ordered_def)
  have locked: "putFrameLocked recordFrame True True f ?s = (case ?t of
       None \<Rightarrow> Some (STATUS_MKV_TRACK_INFO_NOT_FOUND, ?s)
     | Some k \<Rightarrow> if td_frameCount (tracks s ! k) \<le> 60
         then putWhileAllTracks recordFrame ((noteKeyFrame f ?s)
           \<lparr>ks_coordinator := enqueueFrame k (copyFrame f) (ks_coordinator (noteKeyFrame f ?s))\<rparr>)
         else Some (STATUS_MAX_FRAME_TIMESTAMP_DELTA_BETWEEN_TRACKS_EXCEEDED, ?s))"
    by (rule putFrameLocked_plain [of ?s f recordFrame, unfolded lock_fields stream_ok_flags, OF ok f])
  have refuse: thesis if err: "putFrameLocked recordFrame True True f ?s = Some (st, ?s)" "st \<noteq> STATUS_SUCCESS" for st
  proof (rule result [OF putFrame_locked [OF ok err(1)]])
    let ?s' = "unlockCoordinator (countError st ?s)"
    show "map track_id (tracks ?s') = ids" using ids by (simp add: countError_def)
    have "ordered ?fut' hist s"
    proof (rule ordered_fut_mono [OF ord])
      show "\<exists>xs ys zs. ?fut j = xs @ ys @ zs \<and> ?fut' j = xs @ zs" for j
        by (rule exI [of _ "[]"], rule exI [of _ "if fr_trackId f = ids ! j then [f] else []"]) simp
    qed
    then have "ordered ?fut' hist ?s'" by (rule ordered_cong) (use ok in \<open>simp_all add: countError_def\<close>)
    then show "ordered ?fut' (\<lambda>j. hist j @ (if st = STATUS_SUCCESS \<and> fr_trackId f = ids ! j then [copyFrame f] else [])) ?s'"
      using err(2) by simp
  qed
  show thesis
  proof (cases ?t)
    case None
    then show thesis using locked by (intro refuse [of STATUS_MKV_TRACK_INFO_NOT_FOUND]) simp_all
  next
    case (Some k)
    have k: "k < length (tracks s)" "fr_trackId f = track_id (tracks s ! k)"
      using findTrack_Some [OF Some] by (simp_all add: track_id_def)
    have idsk: "fr_trackId f = ids ! j \<longleftrightarrow> j = k" if "j < length (tracks s)" for j
    proof -
      have "distinct ids" using ord ids by (simp add: ordered_def)
      moreover have "ids ! k = fr_trackId f" using ids k by force
      ultimately show ?thesis using that k(1) ids by (metis length_map nth_eq_iff_index_eq)
    qed
    show thesis
    proof (cases "td_frameCount (tracks s ! k) \<le> 60")
      case False
      then show thesis using locked Some
        by (intro refuse [of STATUS_MAX_FRAME_TIMESTAMP_DELTA_BETWEEN_TRACKS_EXCEEDED]) simp_all
    next
      case True
      have ol: "ordered ?fut hist ?s" by (rule ordered_cong [OF ord]) (simp_all add: ok)
      have futk: "?fut k = f # ?fut' k" using idsk [OF k(1)] by simp
      obtain s3 where s3: "putWhileAllTracks recordFrame ((noteKeyFrame f ?s)
            \<lparr>ks_coordinator := enqueueFrame k (copyFrame f) (ks_coordinator (noteKeyFrame f ?s))\<rparr>) = Some (STATUS_SUCCESS, s3)"
        "ordered (?fut(k := ?fut' k)) (hist(k := hist k @ [copyFrame f])) s3"
        "map track_id (tracks s3) = map track_id (tracks ?s)"
        by (rule ordered_accept [OF ol _ _ _ futk]) (simp_all add: k True)
      have tid: "map track_id (tracks s3) = ids" using s3(3) ids by simp
      have len: "length (tracks s3) = length (tracks s)" using tid ids by (metis length_map)
      have "ordered ?fut' (\<lambda>j. hist j @ (if fr_trackId f = ids ! j then [copyFrame f] else [])) s3"
        by (rule ordered_ext [OF s3(2)]) (use idsk len in simp)
      then have "ordered ?fut' (\<lambda>j. hist j @ (if fr_trackId f = ids ! j then [copyFrame f] else [])) (unlockCoordinator s3)"
        by (rule ordered_cong) (use s3(2) in \<open>simp_all add: ordered_def\<close>)
      moreover have "putFrameLocked recordFrame True True f ?s = Some (STATUS_SUCCESS, s3)"
        unfolding locked by (simp add: Some True s3(1))
      ultimately show thesis
        using result [OF putFrame_locked [OF ok]] tid by (simp add: countError_def del: frameOrderCoordinatorPutFrame.simps)
    qed
  qed
qed

subsection \<open>Sessions\<close>

text \<open>A session: the frames are put one by one, whatever the statuses.\<close>

fun putFrames :: "Frame list Stream \<Rightarrow> Frame list \<Rightarrow> (STATUS list \<times> Frame list Stream) option" where
  "putFrames s [] = Some ([], s)"
| "putFrames s (f # fs) =
     (case frameOrderCoordinatorPutFrame recordFrame True True (Some s) (Some f) of
        Some (st, Some s1) \<Rightarrow>
          (case putFrames s1 fs of None \<Rightarrow> None | Some (sts, s2) \<Rightarrow> Some (st # sts, s2))
      | _ \<Rightarrow> None)"

definition accepted :: "Frame list \<Rightarrow> STATUS list \<Rightarrow> Frame list" where
  "accepted fs sts = map fst (filter (\<lambda>(f, st). st = STATUS_SUCCESS) (zip fs sts))"

lemma accepted_Cons [simp]:
  "accepted [] sts = []"
  "accepted (f # fs) (st # sts) = (if st = STATUS_SUCCESS then f # accepted fs sts else accepted fs sts)"
  by (simp_all add: accepted_def)

lemma ordered_putFrames:
  assumes "ordered (\<lambda>j. filter (\<lambda>g. fr_trackId g = ids ! j) fs) hist s" "map track_id (tracks s) = ids" "\<forall>f \<in> set fs. plain f"
  shows "\<exists>sts s'. putFrames s fs = Some (sts, s') \<and> length sts = length fs \<and> map track_id (tracks s') = ids \<and>
    ordered (\<lambda>_. []) (\<lambda>j. hist j @ map copyFrame (filter (\<lambda>g. fr_trackId g = ids ! j) (accepted fs sts))) s'"
  using assms
proof (induction fs arbitrary: s hist)
  case Nil
  then show ?case by simp
next
  case (Cons f fs)
  have "plain f" and rest: "\<forall>f \<in> set fs. plain f" using Cons.prems(3) by simp_all
  obtain st s1 where s1: "frameOrderCoordinatorPutFrame recordFrame True True (Some s) (Some f) = Some (st, Some s1)"
    "map track_id (tracks s1) = ids"
    "ordered (\<lambda>j. filter (\<lambda>g. fr_trackId g = ids ! j) fs)
       (\<lambda>j. hist j @ (if st = STATUS_SUCCESS \<and> fr_trackId f = ids ! j then [copyFrame f] else [])) s1"
    by (rule ordered_putFrame [OF Cons.prems(1,2) \<open>plain f\<close>])
  obtain sts s' where s': "putFrames s1 fs = Some (sts, s')" "length sts = length fs" "map track_id (tracks s') = ids"
    "ordered (\<lambda>_. []) (\<lambda>j. (hist j @ (if st = STATUS_SUCCESS \<and> fr_trackId f = ids ! j then [copyFrame f] else [])) @
       map copyFrame (filter (\<lambda>g. fr_trackId g = ids ! j) (accepted fs sts))) s'"
    using Cons.IH [OF s1(3,2) rest] by blast
  have "ordered (\<lambda>_. []) (\<lambda>j. hist j @ map copyFrame (filter (\<lambda>g. fr_trackId g = ids ! j) (accepted (f # fs) (st # sts)))) s'"
    by (rule ordered_ext [OF s'(4)]) simp
  moreover have "putFrames s (f # fs) = Some (st # sts, s')"
    using s1(1) s'(1) by (simp del: frameOrderCoordinatorPutFrame.simps)
  moreover have "length (st # sts) = length (f # fs)" using s'(2) by simp
  ultimately show ?case using s'(3) by blast
qed

lemma putFrame_kept:
  assumes "stream_ok s" "64 + unat (fr_size f) < 2 ^ 32"
  obtains st s' where "frameOrderCoordinatorPutFrame pf alloc node (Some s) (Some f) = Some (st, Some s')" "stream_ok s'"
    "ks_streamCaps s' = ks_streamCaps s" "foc_lock (ks_coordinator s') = foc_lock (ks_coordinator s)"
    "ks_putFrameErrors s' = (if st = STATUS_SUCCESS then ks_putFrameErrors s else ks_putFrameErrors s + 1)"
proof -
  obtain st s1 where s1: "putFrameLocked pf alloc node f (lockCoordinator s) = Some (st, s1)" "kept (lockCoordinator s) s1"
    using putFrameLocked_kept [of "lockCoordinator s" f pf alloc node] assms by auto
  then show thesis
    using that [OF putFrame_locked [OF assms(1) s1(1)]] by (simp add: countError_def kept_def)
qed

lemma putFrames_caps:
  "stream_ok s \<Longrightarrow> \<forall>f \<in> set fs. plain f \<Longrightarrow> putFrames s fs = Some (sts, s') \<Longrightarrow> ks_streamCaps s' = ks_streamCaps s"
proof (induction fs arbitrary: s sts)
  case (Cons f fs)
  have size: "64 + unat (fr_size f) < 2 ^ 32" and rest: "\<forall>f \<in> set fs. plain f" using Cons.prems(2) by simp_all
  obtain st s1 where s1: "frameOrderCoordinatorPutFrame recordFrame True True (Some s) (Some f) = Some (st, Some s1)"
    "stream_ok s1" "ks_streamCaps s1 = ks_streamCaps s"
    by (rule putFrame_kept [OF Cons.prems(1) size])
  then obtain sts' where "putFrames s1 fs = Some (sts', s')"
    using Cons.prems(3) by (auto split: option.splits simp del: frameOrderCoordinatorPutFrame.simps)
  with Cons.IH [OF s1(2) rest] s1(3) show ?case by simp
qed simp

lemma created_ordered:
  assumes create: "createFrameOrderCoordinator (Some s0) True True queues = Some (STATUS_SUCCESS, Some c)"
    and mode: "dts_mode (ks_streamCaps s0)" and scale: "sc_timecodeScale (ks_streamCaps s0) \<noteq> 0"
    and count: "sc_trackInfoCount (ks_streamCaps s0) \<noteq> 0"
    and infos: "infos = take (unat (sc_trackInfoCount (ks_streamCaps s0))) (sc_trackInfoList (ks_streamCaps s0))"
    and dist: "distinct (map ti_trackId infos)"
    and srt: "\<forall>ti \<in> set infos. sorted (map (dts_of (ks_streamCaps s0)) (filter (\<lambda>g. fr_trackId g = ti_trackId ti) fs))"
  shows "ordered (\<lambda>j. filter (\<lambda>g. fr_trackId g = map ti_trackId infos ! j) fs) (\<lambda>_. []) (s0\<lparr>ks_coordinator := c, ks_rest := []\<rparr>)"
    "map track_id (foc_putFrameTrackDataList c) = map ti_trackId infos"
proof -
  let ?n = "unat (sc_trackInfoCount (ks_streamCaps s0))" and ?mk = "\<lambda>ti. \<lparr>td_pTrackInfo = ti, td_frameCount = 0, td_frameQueue = []\<rparr>"
  have c: "foc_putFrameTrackDataList c = map ?mk infos" "foc_putFrameTrackDataListCount c = sc_trackInfoCount (ks_streamCaps s0)"
    "foc_trackWithFrame c = 0" "foc_compareFn c = hasCompareFn (sc_frameOrderingMode (ks_streamCaps s0))"
    and len: "length infos = ?n"
    using create by (auto simp: createFrameOrderCoordinator_def infos Let_def split: if_splits)
  have "foc_ok (ks_streamCaps s0) c"
    using c len count by (auto simp: foc_ok_def td_ok_def list_all_length)
  moreover have "hasCompareFn (sc_frameOrderingMode (ks_streamCaps s0))"
    using mode by (auto simp: comparesDts_def hasCompareFn_def)
  ultimately have ok: "stream_ok (s0\<lparr>ks_coordinator := c, ks_rest := []\<rparr>)" using scale by (simp add: stream_ok_def)
  show ids: "map track_id (foc_putFrameTrackDataList c) = map ti_trackId infos"
    by (simp add: c(1) track_id_def comp_def)
  have distinct_ids: "distinct (map track_id (foc_putFrameTrackDataList c))" unfolding ids by (rule dist)
  show "ordered (\<lambda>j. filter (\<lambda>g. fr_trackId g = map ti_trackId infos ! j) fs) (\<lambda>_. []) (s0\<lparr>ks_coordinator := c, ks_rest := []\<rparr>)"
    unfolding ordered_def using ok mode distinct_ids srt by (simp add: c(1))
qed

subsection \<open>The mode without a comparison\<close>

lemma earliestTrackLoop_av:
  assumes "i + n \<le> length ds" "m < i" "list_all td_ok ds" "queued (ds ! m)"
    and mode: "sc_frameOrderingMode caps = FRAME_ORDERING_MODE_MULTI_TRACK_AV"
  shows "\<exists>k. earliestTrackLoop caps True n i m ds = Some (STATUS_SUCCESS, k, ds) \<and> (k = m \<or> i \<le> k \<and> k < i + n) \<and>
    queued (ds ! k) \<and> (\<forall>j. k < j \<and> i \<le> j \<and> j < i + n \<longrightarrow> \<not> queued (ds ! j))"
  using assms(1-4)
proof (induction n arbitrary: i m)
  case (Suc n)
  have il: "i < length ds" "td_ok (ds ! i)" using Suc.prems by (auto simp: list_all_length)
  have cmp: "compareTracks caps d1 d2 = Some (STATUS_SUCCESS, False, d1, d2)" for d1 d2
    using mode by (simp add: compareTracks_def comparesDts_def comparesPts_def)
  show ?case
  proof (cases "queued (ds ! i)")
    case True
    then obtain k where "earliestTrackLoop caps True n (Suc i) i ds = Some (STATUS_SUCCESS, k, ds)"
      "k = i \<or> Suc i \<le> k \<and> k < Suc i + n" "queued (ds ! k)" "\<forall>j. k < j \<and> Suc i \<le> j \<and> j < Suc i + n \<longrightarrow> \<not> queued (ds ! j)"
      using Suc.IH [of "Suc i" i] Suc.prems by auto
    moreover have "td_frameCount (ds ! i) \<noteq> 0" using True frameCount_zero [OF il(2)] by simp
    ultimately show ?thesis by (intro exI [of _ k]) (auto simp: cmp)
  next
    case False
    obtain k where "earliestTrackLoop caps True n (Suc i) m ds = Some (STATUS_SUCCESS, k, ds)"
      "k = m \<or> Suc i \<le> k \<and> k < Suc i + n" "queued (ds ! k)" "\<forall>j. k < j \<and> Suc i \<le> j \<and> j < Suc i + n \<longrightarrow> \<not> queued (ds ! j)"
      using Suc.IH [of "Suc i" m] Suc.prems by auto
    moreover have "td_frameCount (ds ! i) = 0" using False frameCount_zero [OF il(2)] by simp
    moreover have "\<not> queued (ds ! j)" if "k < j" "i \<le> j" "j < i + Suc n" for j
      using calculation(4) that False by (cases "j = i") auto
    ultimately show ?thesis by (intro exI [of _ k]) auto
  qed
qed auto

subsection \<open>Properties\<close>


text \<open>Two tracks whose frames arrive out of step.\<close>

definition fo_caps :: StreamCaps where
  "fo_caps = \<lparr>sc_frameOrderingMode = FRAME_ORDERING_MODE_MULTI_TRACK_AV_COMPARE_DTS_ONE_MS_COMPENSATE,
     sc_timecodeScale = 10000, sc_trackInfoCount = 2,
     sc_trackInfoList = [\<lparr>ti_trackId = 1, ti_trackType = MKV_TRACK_INFO_TYPE_VIDEO\<rparr>,
       \<lparr>ti_trackId = 2, ti_trackType = MKV_TRACK_INFO_TYPE_AUDIO\<rparr>]\<rparr>"

definition fo_frame :: "UINT64 \<Rightarrow> UINT64 \<Rightarrow> Frame" where
  "fo_frame track ts = \<lparr>fr_version = 0, fr_index = 0, fr_flags = 0, fr_decodingTs = ts, fr_presentationTs = ts,
     fr_duration = 0, fr_size = 0, fr_frameData = [], fr_trackId = track\<rparr>"

definition fo_coordinator :: FrameOrderCoordinator where
  "fo_coordinator = \<lparr>foc_eofrPut = False,
     foc_putFrameTrackDataList = map (\<lambda>ti. \<lparr>td_pTrackInfo = ti, td_frameCount = 0, td_frameQueue = []\<rparr>) (sc_trackInfoList fo_caps),
     foc_putFrameTrackDataListCount = 2, foc_keyFrameDetected = False, foc_trackWithFrame = 0, foc_lock = 0, foc_compareFn = True\<rparr>"

definition fo_stream :: "Frame list Stream" where
  "fo_stream = \<lparr>ks_streamCaps = fo_caps, ks_coordinator = fo_coordinator, ks_putFrameErrors = 0, ks_rest = []\<rparr>"

lemma fo_created: "createFrameOrderCoordinator (Some fo_stream) True True [True, True] = Some (STATUS_SUCCESS, Some fo_coordinator)"
  by (simp add: createFrameOrderCoordinator_def fo_stream_def fo_coordinator_def fo_caps_def hasCompareFn_def)


text \<open>C20. Putting a frame and flushing return for every behaviour of the stream's \<open>putFrame\<close>, for every mode but
  pass-through and for every outcome of the allocations: the loops end and no pointer is misused. The
  invariant of the coordinator is kept, the lock is as it was before, and the error counter grows by one
  exactly on failure. A flush that succeeds leaves no frame behind.\<close>

theorem frameOrder_operations_return:
  assumes "stream_ok s" "64 + unat (fr_size f) < 2 ^ 32"
  shows "(\<exists>st s'. frameOrderCoordinatorPutFrame putFrame alloc node (Some s) (Some f) = Some (st, Some s') \<and>
      stream_ok s' \<and> foc_lock (ks_coordinator s') = foc_lock (ks_coordinator s) \<and>
      ks_putFrameErrors s' = (if st = STATUS_SUCCESS then ks_putFrameErrors s else ks_putFrameErrors s + 1)) \<and>
    (\<exists>st s'. frameOrderCoordinatorFlush putFrame (Some s) = Some (st, Some s') \<and>
      stream_ok s' \<and> foc_lock (ks_coordinator s') = foc_lock (ks_coordinator s) \<and>
      (st = STATUS_SUCCESS \<longrightarrow> (\<forall>d \<in> set (foc_putFrameTrackDataList (ks_coordinator s')). td_frameQueue d = [])))"
proof (rule conjI)
  obtain st s' where "frameOrderCoordinatorPutFrame putFrame alloc node (Some s) (Some f) = Some (st, Some s')" "stream_ok s'"
    "ks_streamCaps s' = ks_streamCaps s" "foc_lock (ks_coordinator s') = foc_lock (ks_coordinator s)"
    "ks_putFrameErrors s' = (if st = STATUS_SUCCESS then ks_putFrameErrors s else ks_putFrameErrors s + 1)"
    by (rule putFrame_kept [OF assms])
  then show "\<exists>st s'. frameOrderCoordinatorPutFrame putFrame alloc node (Some s) (Some f) = Some (st, Some s') \<and>
      stream_ok s' \<and> foc_lock (ks_coordinator s') = foc_lock (ks_coordinator s) \<and>
      ks_putFrameErrors s' = (if st = STATUS_SUCCESS then ks_putFrameErrors s else ks_putFrameErrors s + 1)" by blast
  obtain st2 s2 where s2: "frameOrderCoordinatorFlush putFrame (Some s) = Some (st2, Some s2)" "kept s s2"
    "st2 = STATUS_SUCCESS \<longrightarrow> foc_trackWithFrame (ks_coordinator s2) = 0"
    by (rule flush_kept [OF assms(1)])
  have fok: "foc_ok (ks_streamCaps s2) (ks_coordinator s2)" using s2(2) unfolding kept_def stream_ok_def by blast
  have "st2 = STATUS_SUCCESS \<longrightarrow> (\<forall>d \<in> set (tracks s2). td_frameQueue d = [])"
    using s2(3) trackWithFrame_pos [OF fok] by (auto simp: word_gt_0)
  then show "\<exists>st s'. frameOrderCoordinatorFlush putFrame (Some s) = Some (st, Some s') \<and>
      stream_ok s' \<and> foc_lock (ks_coordinator s') = foc_lock (ks_coordinator s) \<and>
      (st = STATUS_SUCCESS \<longrightarrow> (\<forall>d \<in> set (tracks s'). td_frameQueue d = []))"
    using s2(1,2) unfolding kept_def by blast
qed

theorem frameOrder_operations_return_witness:
  "\<exists>st s'. frameOrderCoordinatorPutFrame recordFrame True True (Some fo_stream) (Some (fo_frame 1 50000)) = Some (st, Some s') \<and>
     foc_lock (ks_coordinator s') = 0"
proof -
  have "stream_ok fo_stream"
    by (simp add: stream_ok_def fo_stream_def fo_coordinator_def fo_caps_def foc_ok_def td_ok_def hasCompareFn_def)
  moreover have "64 + unat (fr_size (fo_frame 1 50000)) < 2 ^ 32" by (simp add: fo_frame_def)
  ultimately have "\<exists>st s'. frameOrderCoordinatorPutFrame recordFrame True True (Some fo_stream) (Some (fo_frame 1 50000)) = Some (st, Some s') \<and>
      foc_lock (ks_coordinator s') = foc_lock (ks_coordinator fo_stream)"
    using frameOrder_operations_return [of fo_stream "fo_frame 1 50000" recordFrame True True] by blast
  then show ?thesis by (simp add: fo_stream_def fo_coordinator_def del: frameOrderCoordinatorPutFrame.simps)
qed

text \<open>In the mode for multiple tracks without a named comparison no timestamp is looked at: the next frame is
  always taken from the last track that has one, although the mode is documented to submit frames in the order of their
  decoding timestamps.\<close>

theorem frameOrder_av_mode_takes_last_track:
  assumes ok: "stream_ok s" and mode: "sc_frameOrderingMode (ks_streamCaps s) = FRAME_ORDERING_MODE_MULTI_TRACK_AV"
    and k: "k < length (foc_putFrameTrackDataList (ks_coordinator s))" "td_frameQueue (foc_putFrameTrackDataList (ks_coordinator s) ! k) = f # fs"
    and last: "\<forall>j. k < j \<and> j < length (foc_putFrameTrackDataList (ks_coordinator s)) \<longrightarrow>
      td_frameQueue (foc_putFrameTrackDataList (ks_coordinator s) ! j) = []"
    and put: "putFrame (eofr_frame (ks_coordinator s) f) (ks_rest s) = (st, r)"
  shows "putEarliestFrame putFrame s =
    Some (st, s\<lparr>ks_coordinator := (takeFrame k (ks_coordinator s))\<lparr>foc_eofrPut := False\<rparr>, ks_rest := r\<rparr>)"
proof -
  let ?c = "ks_coordinator s" and ?ds = "tracks s"
  have fok: "foc_ok (ks_streamCaps s) ?c" using ok by (simp add: stream_ok_def)
  have len: "unat (foc_putFrameTrackDataListCount ?c) = length ?ds" and tds: "list_all td_ok ?ds" and cmp: "foc_compareFn ?c"
    using fok mode by (simp_all add: foc_ok_def hasCompareFn_def)
  have ex: "\<exists>d \<in> set ?ds. queued d" using k nth_mem by force
  then have some: "foc_trackWithFrame ?c > 0" using trackWithFrame_pos [OF fok] by blast
  obtain m where m: "firstTrackWithFrame 0 ?ds = 0 + m" "m < length ?ds" "queued (?ds ! m)" "\<forall>i < m. \<not> queued (?ds ! i)"
    by (rule firstTrackWithFrame_ok [OF tds ex])
  have "Suc m + (length ?ds - Suc m) \<le> length ?ds" using m(2) by simp
  from earliestTrackLoop_av [OF this _ tds m(3) mode]
  obtain l where l: "earliestTrackLoop (ks_streamCaps s) True (length ?ds - Suc m) (Suc m) m ?ds = Some (STATUS_SUCCESS, l, ?ds)"
    "l = m \<or> Suc m \<le> l \<and> l < Suc m + (length ?ds - Suc m)" "queued (?ds ! l)"
    "\<forall>j. l < j \<and> Suc m \<le> j \<and> j < Suc m + (length ?ds - Suc m) \<longrightarrow> \<not> queued (?ds ! j)" by blast
  have "\<not> l < k"
  proof
    assume "l < k"
    then have "l < k \<and> Suc m \<le> k \<and> k < Suc m + (length ?ds - Suc m)" using l(2) k(1) by auto
    then show False using l(4) k(2) by simp
  qed
  moreover have "\<not> k < l"
  proof
    assume "k < l"
    then have "k < l \<and> l < length ?ds" using l(2) m(2) by auto
    then show False using last l(3) by blast
  qed
  ultimately have "l = k" by simp
  have "?c\<lparr>foc_putFrameTrackDataList := ?ds\<rparr> = ?c" by simp
  then have "getEarliestTrack (ks_streamCaps s) ?c = Some (STATUS_SUCCESS, Some k, ?c)"
    using some len m(1) l(1) cmp \<open>l = k\<close> by (simp add: getEarliestTrack_def Let_def)
  then show ?thesis using some k put by (simp add: putEarliestFrame_def Let_def eofr_frame_def)
qed

text \<open>A stream in that mode with a frame at timestamp 1 in the first and one at timestamp 2 in the second track.\<close>

definition fo_av_stream :: "Frame list Stream" where
  "fo_av_stream = \<lparr>ks_streamCaps = fo_caps\<lparr>sc_frameOrderingMode := FRAME_ORDERING_MODE_MULTI_TRACK_AV\<rparr>,
     ks_coordinator = fo_coordinator\<lparr>foc_trackWithFrame := 2, foc_putFrameTrackDataList :=
       [\<lparr>td_pTrackInfo = \<lparr>ti_trackId = 1, ti_trackType = MKV_TRACK_INFO_TYPE_VIDEO\<rparr>, td_frameCount = 1, td_frameQueue = [fo_frame 1 1]\<rparr>,
        \<lparr>td_pTrackInfo = \<lparr>ti_trackId = 2, ti_trackType = MKV_TRACK_INFO_TYPE_AUDIO\<rparr>, td_frameCount = 1, td_frameQueue = [fo_frame 2 2]\<rparr>]\<rparr>,
     ks_putFrameErrors = 0, ks_rest = []\<rparr>"

lemma fo_av_ok: "stream_ok fo_av_stream"
  by (simp add: stream_ok_def fo_av_stream_def fo_coordinator_def fo_caps_def foc_ok_def td_ok_def hasCompareFn_def fo_frame_def)

theorem frameOrder_av_mode_takes_last_track_witness:
  "\<exists>s'. putEarliestFrame recordFrame fo_av_stream = Some (STATUS_SUCCESS, s') \<and> ks_rest s' = [fo_frame 2 2]"
proof -
  have "recordFrame (eofr_frame (ks_coordinator fo_av_stream) (fo_frame 2 2)) (ks_rest fo_av_stream) = (STATUS_SUCCESS, [fo_frame 2 2])"
    by (simp add: recordFrame_def eofr_frame_def fo_av_stream_def fo_coordinator_def)
  then have "putEarliestFrame recordFrame fo_av_stream = Some (STATUS_SUCCESS, fo_av_stream
      \<lparr>ks_coordinator := (takeFrame 1 (ks_coordinator fo_av_stream))\<lparr>foc_eofrPut := False\<rparr>, ks_rest := [fo_frame 2 2]\<rparr>)"
    by (intro frameOrder_av_mode_takes_last_track [of fo_av_stream 1 "fo_frame 2 2" "[]" recordFrame STATUS_SUCCESS "[fo_frame 2 2]", OF fo_av_ok])
      (auto simp: fo_av_stream_def)
  then show ?thesis by simp
qed

text \<open>
  In the modes that compare presentation timestamps, a key frame of another track at the same timestamp delays the
  frame that goes first anyway: it enters the stream behind the timestamp of the frame that follows it.
\<close>

lemma pts_mode_delays_first_frame:
  "compareTracks (fo_caps\<lparr>sc_frameOrderingMode := FRAME_ORDERING_MODE_MULTI_TRACK_AV_COMPARE_PTS_ONE_MS_COMPENSATE\<rparr>)
     \<lparr>td_pTrackInfo = \<lparr>ti_trackId = 1, ti_trackType = MKV_TRACK_INFO_TYPE_VIDEO\<rparr>, td_frameCount = 1, td_frameQueue = [fo_frame 1 50000]\<rparr>
     \<lparr>td_pTrackInfo = \<lparr>ti_trackId = 2, ti_trackType = MKV_TRACK_INFO_TYPE_AUDIO\<rparr>, td_frameCount = 1,
       td_frameQueue = [(fo_frame 2 50000)\<lparr>fr_flags := 1\<rparr>]\<rparr> =
   Some (STATUS_SUCCESS, True,
     \<lparr>td_pTrackInfo = \<lparr>ti_trackId = 1, ti_trackType = MKV_TRACK_INFO_TYPE_VIDEO\<rparr>, td_frameCount = 1,
       td_frameQueue = [(fo_frame 1 50000)\<lparr>fr_presentationTs := 60000\<rparr>]\<rparr>,
     \<lparr>td_pTrackInfo = \<lparr>ti_trackId = 2, ti_trackType = MKV_TRACK_INFO_TYPE_AUDIO\<rparr>, td_frameCount = 1,
       td_frameQueue = [(fo_frame 2 50000)\<lparr>fr_flags := 1\<rparr>]\<rparr>)"
  by (simp add: compareTracks_def comparesDts_def comparesPts_def mkvTimestamp_def fo_caps_def fo_frame_def
      delayHead_def delayFrame_def CHECK_FRAME_FLAG_KEY_FRAME_def)

end
