(* ===== verification/Codecs.thy ===== *)
theory Codecs
  imports Prelude
begin

text \<open>
  The hexadecimal and Base64 codecs of \<open>Hex.c\<close> and \<open>Base64.c\<close>.

  A buffer is the list of its bytes; \<open>None\<close> for an input buffer is a \<open>NULL\<close> pointer. \<open>pOutputData\<close> says whether
  an output buffer is given, and \<open>pOutputLength\<close> is the size the caller passes for it. The result of a codec
  has its status, the bytes written to the output buffer and the length written back. Its value is \<open>None\<close> if the code would
  read outside the input buffer or write more bytes than the output buffer has.
\<close>

type_synonym codec_result = "(STATUS \<times> BYTE list \<times> UINT32 option) option"

definition byte_of :: "char \<Rightarrow> BYTE" where "byte_of c = of_nat (of_char c)"

text \<open>The bytes of a C string up to its terminator.\<close>

definition STRLEN :: "BYTE list \<Rightarrow> nat" where
  "STRLEN s = length (takeWhile (\<lambda>b. b \<noteq> 0) s)"

text \<open>What is written must fit into the buffer that the caller describes.\<close>

definition write_out :: "UINT32 \<Rightarrow> BYTE list \<Rightarrow> UINT32 \<Rightarrow> codec_result" where
  "write_out avail bs len = (if length bs \<le> unat avail then Some (STATUS_SUCCESS, bs, Some len) else None)"

subsection \<open>Hexadecimal\<close>

definition HEX_ENCODE_ALPHA_UPPER :: "BYTE list" where
  "HEX_ENCODE_ALPHA_UPPER = map byte_of ''0123456789ABCDEF''"

definition HEX_ENCODE_ALPHA_LOWER :: "BYTE list" where
  "HEX_ENCODE_ALPHA_LOWER = map byte_of ''0123456789abcdef''"

definition HEX_DECODE_ALPHA :: "BYTE list" where
  "HEX_DECODE_ALPHA = [
     0xff, 0xff, 0xff, 0xff, 0xff, 0xff, 0xff, 0xff, 0xff, 0xff, 0xff, 0xff, 0xff, 0xff, 0xff, 0xff,
     0xff, 0xff, 0xff, 0xff, 0xff, 0xff, 0xff, 0xff, 0xff, 0xff, 0xff, 0xff, 0xff, 0xff, 0xff, 0xff,
     0xff, 0xff, 0xff, 0xff, 0xff, 0xff, 0xff, 0xff, 0xff, 0xff, 0xff, 0xff, 0xff, 0xff, 0xff, 0xff,
     0, 1, 2, 3, 4, 5, 6, 7, 8, 9, 0xff, 0xff, 0xff, 0xff, 0xff, 0xff,
     0xff, 10, 11, 12, 13, 14, 15, 0xff, 0xff, 0xff, 0xff, 0xff, 0xff, 0xff, 0xff, 0xff,
     0xff, 0xff, 0xff, 0xff, 0xff, 0xff, 0xff, 0xff, 0xff, 0xff, 0xff, 0xff, 0xff, 0xff, 0xff, 0xff,
     0xff, 10, 11, 12, 13, 14, 15, 0xff, 0xff, 0xff, 0xff, 0xff, 0xff, 0xff, 0xff, 0xff,
     0xff, 0xff, 0xff, 0xff, 0xff, 0xff, 0xff, 0xff, 0xff, 0xff, 0xff, 0xff, 0xff, 0xff, 0xff, 0xff,
     0xff, 0xff, 0xff, 0xff, 0xff, 0xff, 0xff, 0xff, 0xff, 0xff, 0xff, 0xff, 0xff, 0xff, 0xff, 0xff,
     0xff, 0xff, 0xff, 0xff, 0xff, 0xff, 0xff, 0xff, 0xff, 0xff, 0xff, 0xff, 0xff, 0xff, 0xff, 0xff,
     0xff, 0xff, 0xff, 0xff, 0xff, 0xff, 0xff, 0xff, 0xff, 0xff, 0xff, 0xff, 0xff, 0xff, 0xff, 0xff,
     0xff, 0xff, 0xff, 0xff, 0xff, 0xff, 0xff, 0xff, 0xff, 0xff, 0xff, 0xff, 0xff, 0xff, 0xff, 0xff,
     0xff, 0xff, 0xff, 0xff, 0xff, 0xff, 0xff, 0xff, 0xff, 0xff, 0xff, 0xff, 0xff, 0xff, 0xff, 0xff,
     0xff, 0xff, 0xff, 0xff, 0xff, 0xff, 0xff, 0xff, 0xff, 0xff, 0xff, 0xff, 0xff, 0xff, 0xff, 0xff,
     0xff, 0xff, 0xff, 0xff, 0xff, 0xff, 0xff, 0xff, 0xff, 0xff, 0xff, 0xff, 0xff, 0xff, 0xff, 0xff,
     0xff, 0xff, 0xff, 0xff, 0xff, 0xff, 0xff, 0xff, 0xff, 0xff, 0xff, 0xff, 0xff, 0xff, 0xff, 0xff]"

definition hexEncodeByte :: "BYTE list \<Rightarrow> BYTE \<Rightarrow> BYTE list" where
  "hexEncodeByte pAlpha input = [pAlpha ! unat (drop_bit 4 input), pAlpha ! unat (input AND 0x0f)]"

definition hexEncodeCase ::
  "BYTE list option \<Rightarrow> UINT32 \<Rightarrow> bool \<Rightarrow> UINT32 option \<Rightarrow> bool \<Rightarrow> codec_result" where
  "hexEncodeCase pInputData inputLength pOutputData pOutputLength upperCase =
     (case (pInputData, pOutputLength) of
        (Some input, Some avail) \<Rightarrow>
          if inputLength = 0 then Some (STATUS_INVALID_ARG_LEN, [], None)
          else
            let pAlpha = (if upperCase then HEX_ENCODE_ALPHA_UPPER else HEX_ENCODE_ALPHA_LOWER);
                outputLength = 2 * inputLength + 1
            in if \<not> pOutputData then Some (STATUS_SUCCESS, [], Some outputLength)
               else if avail < outputLength then Some (STATUS_BUFFER_TOO_SMALL, [], None)
               else if length input < unat inputLength then None
               else write_out avail (concat (map (hexEncodeByte pAlpha) (take (unat inputLength) input)) @ [0]) outputLength
      | _ \<Rightarrow> Some (STATUS_NULL_ARG, [], None))"

definition hexEncode :: "BYTE list option \<Rightarrow> UINT32 \<Rightarrow> bool \<Rightarrow> UINT32 option \<Rightarrow> codec_result" where
  "hexEncode pInputData inputLength pOutputData pOutputLength =
     hexEncodeCase pInputData inputLength pOutputData pOutputLength True"

text \<open>The decoding loop over an even number of characters: the bytes written and whether it reached the end.\<close>

fun hexDecodeLoop :: "BYTE list \<Rightarrow> BYTE list \<times> bool" where
  "hexDecodeLoop (c0 # c1 # cs) =
     (let hiNibble = HEX_DECODE_ALPHA ! unat c0; loNibble = HEX_DECODE_ALPHA ! unat c1
      in if hiNibble > 0x0f \<or> loNibble > 0x0f then ([], False)
         else case hexDecodeLoop cs of (bs, ok) \<Rightarrow> ((push_bit 4 hiNibble OR loNibble) # bs, ok))"
| "hexDecodeLoop _ = ([], True)"

definition hexDecode :: "BYTE list option \<Rightarrow> UINT32 \<Rightarrow> bool \<Rightarrow> UINT32 option \<Rightarrow> codec_result" where
  "hexDecode pInputData inputLength pOutputData pOutputLength =
     (case (pInputData, pOutputLength) of
        (Some input, Some avail) \<Rightarrow>
          let inputLength = (if inputLength = 0 then of_nat (STRLEN input) else inputLength)
          in if inputLength \<le> 1 then Some (STATUS_INVALID_ARG_LEN, [], None)
             else
               let outputLength = drop_bit 1 inputLength
               in if \<not> pOutputData then Some (STATUS_SUCCESS, [], Some outputLength)
                  else if avail < outputLength then Some (STATUS_BUFFER_TOO_SMALL, [], None)
                  else
                    let inputLength = inputLength AND 0xfffffffe
                    in if length input < unat inputLength then None
                       else case hexDecodeLoop (take (unat inputLength) input) of (bs, ok) \<Rightarrow>
                         if ok then write_out avail bs outputLength
                         else if length bs \<le> unat avail then Some (STATUS_INVALID_ARG, bs, None) else None
      | _ \<Rightarrow> Some (STATUS_NULL_ARG, [], None))"

subsection \<open>Base64\<close>

definition BASE64_ENCODE_ALPHA :: "BYTE list" where
  "BASE64_ENCODE_ALPHA = map byte_of ''ABCDEFGHIJKLMNOPQRSTUVWXYZabcdefghijklmnopqrstuvwxyz0123456789+/''"

definition BASE64_DECODE_ALPHA :: "BYTE list" where
  "BASE64_DECODE_ALPHA = [
     0, 0, 0, 0, 0, 0, 0, 0, 0, 0, 0, 0, 0, 0, 0, 0,
     0, 0, 0, 0, 0, 0, 0, 0, 0, 0, 0, 0, 0, 0, 0, 0,
     0, 0, 0, 0, 0, 0, 0, 0, 0, 0, 0, 62, 0, 0, 0, 63,
     52, 53, 54, 55, 56, 57, 58, 59, 60, 61, 0, 0, 0, 0, 0, 0,
     0, 0, 1, 2, 3, 4, 5, 6, 7, 8, 9, 10, 11, 12, 13, 14,
     15, 16, 17, 18, 19, 20, 21, 22, 23, 24, 25, 0, 0, 0, 0, 0,
     0, 26, 27, 28, 29, 30, 31, 32, 33, 34, 35, 36, 37, 38, 39, 40,
     41, 42, 43, 44, 45, 46, 47, 48, 49, 50, 51, 0, 0, 0, 0, 0,
     0, 0, 0, 0, 0, 0, 0, 0, 0, 0, 0, 0, 0, 0, 0, 0,
     0, 0, 0, 0, 0, 0, 0, 0, 0, 0, 0, 0, 0, 0, 0, 0,
     0, 0, 0, 0, 0, 0, 0, 0, 0, 0, 0, 0, 0, 0, 0, 0,
     0, 0, 0, 0, 0, 0, 0, 0, 0, 0, 0, 0, 0, 0, 0, 0,
     0, 0, 0, 0, 0, 0, 0, 0, 0, 0, 0, 0, 0, 0, 0, 0,
     0, 0, 0, 0, 0, 0, 0, 0, 0, 0, 0, 0, 0, 0, 0, 0,
     0, 0, 0, 0, 0, 0, 0, 0, 0, 0, 0, 0, 0, 0, 0, 0,
     0, 0, 0, 0, 0, 0, 0, 0, 0, 0, 0, 0, 0, 0, 0, 0]"

definition BASE64_ENCODE_PADDING :: "UINT32 list" where "BASE64_ENCODE_PADDING = [0, 2, 1]"

definition BASE64_DECODE_PADDING :: "UINT32 list" where "BASE64_DECODE_PADDING = [0, 0xff, 2, 1]"

abbreviation (input) enc64 :: "BYTE \<Rightarrow> BYTE" where "enc64 i \<equiv> BASE64_ENCODE_ALPHA ! unat i"
abbreviation (input) dec64 :: "BYTE \<Rightarrow> BYTE" where "dec64 c \<equiv> BASE64_DECODE_ALPHA ! unat c"

definition encodeTriade :: "BYTE \<Rightarrow> BYTE \<Rightarrow> BYTE \<Rightarrow> BYTE list" where
  "encodeTriade b0 b1 b2 =
     [enc64 (drop_bit 2 b0), enc64 (push_bit 4 (0x03 AND b0) + drop_bit 4 b1),
      enc64 (push_bit 2 (0x0f AND b1) + drop_bit 6 b2), enc64 (0x3f AND b2)]"

text \<open>The loop over the complete triades: the characters written and the bytes left over.\<close>

fun encodeTriades :: "BYTE list \<Rightarrow> BYTE list \<times> BYTE list" where
  "encodeTriades (b0 # b1 # b2 # bs) =
     (case encodeTriades bs of (cs, rest) \<Rightarrow> (encodeTriade b0 b1 b2 @ cs, rest))"
| "encodeTriades bs = ([], bs)"

definition PAD :: BYTE where "PAD = byte_of (CHR ''='')"

fun encodePadding :: "UINT32 \<Rightarrow> BYTE list \<Rightarrow> BYTE list" where
  "encodePadding padding rest =
     (if padding = 1 then
        [enc64 (drop_bit 2 (rest ! 0)), enc64 (push_bit 4 (0x03 AND rest ! 0) + drop_bit 4 (rest ! 1)),
         enc64 (push_bit 2 (0x0f AND rest ! 1)), PAD]
      else if padding = 2 then
        [enc64 (drop_bit 2 (rest ! 0)), enc64 (push_bit 4 (0x03 AND rest ! 0)), PAD, PAD]
      else [])"

definition base64Encode :: "BYTE list option \<Rightarrow> UINT32 \<Rightarrow> bool \<Rightarrow> UINT32 option \<Rightarrow> codec_result" where
  "base64Encode pInputData inputLength pOutputData pOutputLength =
     (case (pInputData, pOutputLength) of
        (Some input, Some avail) \<Rightarrow>
          if inputLength = 0 then Some (STATUS_INVALID_ARG_LEN, [], None)
          else
            let mod3 = inputLength mod 3;
                padding = BASE64_ENCODE_PADDING ! unat mod3;
                outputLength = 4 * (inputLength + padding) div 3 + 1
            in if \<not> pOutputData then Some (STATUS_SUCCESS, [], Some outputLength)
               else if avail < outputLength then Some (STATUS_BUFFER_TOO_SMALL, [], None)
               else if length input < unat inputLength then None
               else case encodeTriades (take (unat inputLength) input) of (cs, rest) \<Rightarrow>
                 write_out avail (cs @ encodePadding padding rest @ [0]) outputLength
      | _ \<Rightarrow> Some (STATUS_NULL_ARG, [], None))"

definition decodeQuad :: "BYTE \<Rightarrow> BYTE \<Rightarrow> BYTE \<Rightarrow> BYTE \<Rightarrow> BYTE list" where
  "decodeQuad b0 b1 b2 b3 =
     [push_bit 2 b0 OR drop_bit 4 b1, push_bit 4 b1 OR drop_bit 2 b2, push_bit 6 b2 OR b3]"

fun decodeQuads :: "BYTE list \<Rightarrow> BYTE list \<times> BYTE list" where
  "decodeQuads (c0 # c1 # c2 # c3 # cs) =
     (case decodeQuads cs of (bs, rest) \<Rightarrow> (decodeQuad (dec64 c0) (dec64 c1) (dec64 c2) (dec64 c3) @ bs, rest))"
| "decodeQuads cs = ([], cs)"

definition decodePadding :: "UINT32 \<Rightarrow> BYTE list \<Rightarrow> BYTE list" where
  "decodePadding padding rest =
     (if padding = 1 then
        let b0 = dec64 (rest ! 0); b1 = dec64 (rest ! 1); b2 = dec64 (rest ! 2)
        in [push_bit 2 b0 OR drop_bit 4 b1, push_bit 4 b1 OR drop_bit 2 b2]
      else if padding = 2 then
        let b0 = dec64 (rest ! 0); b1 = dec64 (rest ! 1)
        in [push_bit 2 b0 OR drop_bit 4 b1]
      else [])"

text \<open>The removal of one padding character at the end.\<close>

definition dropPad :: "BYTE list \<Rightarrow> UINT32 \<Rightarrow> UINT32" where
  "dropPad input n = (if input ! unat (n - 1) = PAD then n - 1 else n)"

definition base64Decode :: "BYTE list option \<Rightarrow> UINT32 \<Rightarrow> bool \<Rightarrow> UINT32 option \<Rightarrow> codec_result" where
  "base64Decode pInputData inputLength pOutputData pOutputLength =
     (case (pInputData, pOutputLength) of
        (Some input, Some avail) \<Rightarrow>
          let inputLength = (if inputLength \<noteq> 0 then inputLength else of_nat (STRLEN input))
          in if inputLength < 2 then Some (STATUS_INVALID_ARG_LEN, [], None)
             else if length input < unat inputLength then None
             else
               let inputLength = dropPad input (dropPad input inputLength);
                   padding = BASE64_DECODE_PADDING ! unat (inputLength mod 4)
               in if padding = 0xff then Some (STATUS_INVALID_BASE64_ENCODE, [], None)
                  else
                    let outputLength = 3 * inputLength div 4
                    in if \<not> pOutputData then Some (STATUS_SUCCESS, [], Some outputLength)
                       else if avail < outputLength then Some (STATUS_BUFFER_TOO_SMALL, [], None)
                       else case decodeQuads (take (unat inputLength) input) of (bs, rest) \<Rightarrow>
                         write_out avail (bs @ decodePadding padding rest) outputLength
      | _ \<Rightarrow> Some (STATUS_NULL_ARG, [], None))"

end
