(* ===== verification/CodecsProps.thy ===== *)
theory CodecsProps
  imports Codecs
begin

text \<open>
  The codecs are inverse to each other: decoding what was encoded gives back the input, for every input whose
  encoded length fits into 32 bits, in buffers of the sizes that the size queries report.
\<close>

subsection \<open>Bits of a byte\<close>

lemma byte_high: "8 \<le> n \<Longrightarrow> \<not> bit (b :: BYTE) n"
  using bit_imp_le_length [of b n] by auto

lemma nat_below_8: "n < 8 \<Longrightarrow> n = 0 \<or> n = 1 \<or> n = 2 \<or> n = 3 \<or> n = 4 \<or> n = 5 \<or> n = 6 \<or> n = (7::nat)"
  by auto

lemma byte_eqI:
  fixes a b :: BYTE
  assumes "bit a 0 = bit b 0" "bit a 1 = bit b 1" "bit a 2 = bit b 2" "bit a 3 = bit b 3"
    "bit a 4 = bit b 4" "bit a 5 = bit b 5" "bit a 6 = bit b 6" "bit a 7 = bit b 7"
  shows "a = b"
proof (rule bit_word_eqI)
  fix n assume "n < LENGTH(8)"
  then have "n < 8" by simp
  then show "bit a n = bit b n" using nat_below_8 [of n] assms by auto
qed

lemma mask_bytes: "(0x0f :: BYTE) = mask 4" "(0x03 :: BYTE) = mask 2" "(0x3f :: BYTE) = mask 6"
  by (simp_all add: mask_eq_exp_minus_1)

lemma hex_nibbles: "push_bit 4 (drop_bit 4 b) OR (b AND 0x0f) = (b :: BYTE)"
  unfolding mask_bytes by (rule byte_eqI) (simp_all add: bit_simps byte_high)

lemma triade_plus:
  "push_bit 4 (0x03 AND b0) + drop_bit 4 b1 = push_bit 4 (0x03 AND b0) OR drop_bit 4 (b1 :: BYTE)"
  "push_bit 2 (0x0f AND b1) + drop_bit 6 b2 = push_bit 2 (0x0f AND b1) OR drop_bit 6 (b2 :: BYTE)"
proof -
  show "push_bit 4 (0x03 AND b0) + drop_bit 4 b1 = push_bit 4 (0x03 AND b0) OR drop_bit 4 b1"
    unfolding mask_bytes by (rule disjunctive_add) (auto simp: bit_simps byte_high)
  show "push_bit 2 (0x0f AND b1) + drop_bit 6 b2 = push_bit 2 (0x0f AND b1) OR drop_bit 6 b2"
    unfolding mask_bytes by (rule disjunctive_add) (auto simp: bit_simps byte_high)
qed

lemma triade_bytes:
  fixes b0 b1 b2 :: BYTE
  shows "push_bit 2 (drop_bit 2 b0) OR drop_bit 4 (push_bit 4 (0x03 AND b0) OR drop_bit 4 b1) = b0"
    "push_bit 4 (push_bit 4 (0x03 AND b0) OR drop_bit 4 b1) OR drop_bit 2 (push_bit 2 (0x0f AND b1) OR drop_bit 6 b2) = b1"
    "push_bit 6 (push_bit 2 (0x0f AND b1) OR drop_bit 6 b2) OR (0x3f AND b2) = b2"
    "push_bit 2 (drop_bit 2 b0) OR drop_bit 4 (push_bit 4 (0x03 AND b0)) = b0"
    "push_bit 4 (push_bit 4 (0x03 AND b0) OR drop_bit 4 b1) OR drop_bit 2 (push_bit 2 (0x0f AND b1)) = b1"
  unfolding mask_bytes by (rule byte_eqI; simp add: bit_simps byte_high)+

lemma below_64: "(\<And>n. n = 6 \<or> n = 7 \<Longrightarrow> \<not> bit (b :: BYTE) n) \<Longrightarrow> unat b < 64"
proof -
  assume a: "\<And>n. n = 6 \<or> n = 7 \<Longrightarrow> \<not> bit b n"
  have "b = b AND 0x3f" unfolding mask_bytes by (rule byte_eqI) (simp_all add: bit_simps a)
  also have "\<dots> = take_bit 6 b" unfolding mask_bytes by (simp add: take_bit_eq_mask)
  finally have "unat b = take_bit 6 (unat b)" by (metis unsigned_take_bit_eq)
  also have "\<dots> < 2 ^ 6" by (rule take_bit_nat_less_exp)
  finally show ?thesis by simp
qed

lemma triade_bounds:
  fixes b0 b1 b2 :: BYTE
  shows "unat (drop_bit 2 b0) < 64" "unat (push_bit 4 (0x03 AND b0) OR drop_bit 4 b1) < 64"
    "unat (push_bit 2 (0x0f AND b1) OR drop_bit 6 b2) < 64" "unat (0x3f AND b2) < 64"
    "unat (push_bit 2 (0x0f AND b1)) < 64" "unat (push_bit 4 (0x03 AND b0)) < 64"
  unfolding mask_bytes by (rule below_64; auto simp: bit_simps byte_high)+

subsection \<open>Tables\<close>

lemma encode_alpha:
  "HEX_ENCODE_ALPHA_UPPER = [48, 49, 50, 51, 52, 53, 54, 55, 56, 57, 65, 66, 67, 68, 69, 70]"
  "HEX_ENCODE_ALPHA_LOWER = [48, 49, 50, 51, 52, 53, 54, 55, 56, 57, 97, 98, 99, 100, 101, 102]"
  "BASE64_ENCODE_ALPHA =
     [65, 66, 67, 68, 69, 70, 71, 72, 73, 74, 75, 76, 77, 78, 79, 80, 81, 82, 83, 84, 85, 86, 87, 88, 89,
     90, 97, 98, 99, 100, 101, 102, 103, 104, 105, 106, 107, 108, 109, 110, 111, 112, 113, 114, 115, 116,
     117, 118, 119, 120, 121, 122, 48, 49, 50, 51, 52, 53, 54, 55, 56, 57, 43, 47]"
  "PAD = 61"
  by (simp_all add: HEX_ENCODE_ALPHA_UPPER_def HEX_ENCODE_ALPHA_LOWER_def BASE64_ENCODE_ALPHA_def PAD_def byte_of_def)

lemma hex_tables:
  "map (\<lambda>c. HEX_DECODE_ALPHA ! unat c) HEX_ENCODE_ALPHA_UPPER = map of_nat [0..<16]" "0 \<notin> set HEX_ENCODE_ALPHA_UPPER"
  "map (\<lambda>c. HEX_DECODE_ALPHA ! unat c) HEX_ENCODE_ALPHA_LOWER = map of_nat [0..<16]" "0 \<notin> set HEX_ENCODE_ALPHA_LOWER"
  unfolding encode_alpha by (simp_all add: HEX_DECODE_ALPHA_def upt_conv_Cons)

lemma base64_tables:
  "map (\<lambda>c. BASE64_DECODE_ALPHA ! unat c) BASE64_ENCODE_ALPHA = map of_nat [0..<64]"
  "0 \<notin> set BASE64_ENCODE_ALPHA" "PAD \<notin> set BASE64_ENCODE_ALPHA"
  unfolding encode_alpha by (simp_all add: BASE64_DECODE_ALPHA_def upt_conv_Cons)

lemma table_inverse:
  assumes "map f xs = map of_nat [0..<n]" "unat (b :: BYTE) < n"
  shows "f (xs ! unat b) = b" "xs ! unat b \<in> set xs"
proof -
  have len: "length xs = n" using arg_cong [OF assms(1), of length] by simp
  have "map f xs ! unat b = (of_nat (unat b) :: BYTE)" unfolding assms(1) using assms(2) by simp
  then show "f (xs ! unat b) = b" using assms(2) len by simp
  show "xs ! unat b \<in> set xs" using assms(2) len by simp
qed

lemma dec64_enc64:
  fixes b :: BYTE
  assumes "unat b < 64"
  shows "dec64 (enc64 b) = b" "enc64 b \<noteq> PAD" "enc64 b \<noteq> 0"
  using table_inverse [OF base64_tables(1) assms] base64_tables(2,3) by auto

definition hex_alpha :: "bool \<Rightarrow> BYTE list" where
  "hex_alpha upper = (if upper then HEX_ENCODE_ALPHA_UPPER else HEX_ENCODE_ALPHA_LOWER)"

lemma hex_alpha_inverse:
  assumes "unat (b :: BYTE) < 16"
  shows "HEX_DECODE_ALPHA ! unat (hex_alpha upper ! unat b) = b" "hex_alpha upper ! unat b \<noteq> 0"
  using table_inverse [OF hex_tables(1) assms] table_inverse [OF hex_tables(3) assms] hex_tables(2,4)
  by (auto simp: hex_alpha_def)

lemma nibble_bounds:
  fixes b :: BYTE
  shows "unat (drop_bit 4 b) < 16" "unat (b AND 0x0f) < 16"
proof -
  have "unat b < 2 ^ 8" using unsigned_less [of b] by simp
  then show "unat (drop_bit 4 b) < 16" by (simp add: drop_bit_eq_div unat_div)
  have "unat (b AND 0x0f) = take_bit 4 (unat b)" unfolding mask_bytes by (simp add: take_bit_eq_mask [symmetric] unsigned_take_bit_eq)
  then show "unat (b AND 0x0f) < 16" using take_bit_nat_less_exp [of 4 "unat b"] by simp
qed

subsection \<open>Hexadecimal\<close>

lemma hex_loop_inverse: "hexDecodeLoop (concat (map (hexEncodeByte (hex_alpha upper)) bs)) = (bs, True)"
proof (induction bs)
  case (Cons b bs)
  have n: "\<not> drop_bit 4 b > 0x0f" "\<not> b AND 0x0f > 0x0f"
    using nibble_bounds [of b] by (simp_all add: word_less_nat_alt)
  have "hexEncodeByte (hex_alpha upper) b =
      [hex_alpha upper ! unat (drop_bit 4 b), hex_alpha upper ! unat (b AND 0x0f)]" by (simp only: hexEncodeByte_def)
  then show ?case
    by (simp only: list.map concat.simps append.simps hexDecodeLoop.simps Let_def
        hex_alpha_inverse [OF nibble_bounds(1)] hex_alpha_inverse [OF nibble_bounds(2)] n Cons.IH hex_nibbles
        simp_thms if_False prod.case)
qed simp

lemma hex_encoded:
  "length (concat (map (hexEncodeByte (hex_alpha upper)) bs)) = 2 * length bs"
  "c \<in> set (concat (map (hexEncodeByte (hex_alpha upper)) bs)) \<Longrightarrow> c \<noteq> 0"
  by (induction bs) (auto simp: hexEncodeByte_def hex_alpha_inverse nibble_bounds)

lemma STRLEN_terminated:
  assumes "\<And>c. c \<in> set cs \<Longrightarrow> c \<noteq> 0"
  shows "STRLEN (cs @ [0]) = length cs"
  using assms by (simp add: STRLEN_def takeWhile_append2)

lemma unat_of_nat_small: "n < 2 ^ 32 \<Longrightarrow> unat (of_nat n :: UINT32) = n"
  by (simp add: unat_of_nat)

lemma even_mask: "n < 2 ^ 31 \<Longrightarrow> (of_nat (2 * n) :: UINT32) AND 0xfffffffe = of_nat (2 * n)"
proof -
  have "(0xfffffffe :: UINT32) = NOT 1" by simp
  moreover have "(of_nat (2 * n) :: UINT32) AND NOT 1 = of_nat (2 * n)"
    by (rule bit_word_eqI) (auto simp: bit_simps bit_1_iff bit_0)
  ultimately show ?thesis by (simp only:)
qed

lemma hexDecode_run:
  assumes "L = (if n = 0 then of_nat (STRLEN input) else n)" "\<not> L \<le> 1" "\<not> avail < drop_bit 1 L"
    "unat (L AND 0xfffffffe) \<le> length input" "hexDecodeLoop (take (unat (L AND 0xfffffffe)) input) = (bs, True)"
    "length bs \<le> unat avail"
  shows "hexDecode (Some input) n True (Some avail) = Some (STATUS_SUCCESS, bs, Some (drop_bit 1 L))"
  using assms(2-6) unfolding hexDecode_def prod.case option.case assms(1) [symmetric] Let_def by (simp add: write_out_def)

lemma hex_decode_encoded:
  assumes n: "0 < length bs" "length bs < 2 ^ 31 - 1" and avail: "of_nat (length bs) \<le> avail"
  shows "hexDecode (Some (concat (map (hexEncodeByte (hex_alpha upper)) bs) @ [0])) 0 True (Some avail) =
    Some (STATUS_SUCCESS, bs, Some (of_nat (length bs)))"
proof -
  let ?cs = "concat (map (hexEncodeByte (hex_alpha upper)) bs)"
  have len: "length ?cs = 2 * length bs" by (rule hex_encoded(1))
  have str: "STRLEN (?cs @ [0]) = 2 * length bs" using STRLEN_terminated [of ?cs] hex_encoded(2) len by simp
  have u: "unat (of_nat (2 * length bs) :: UINT32) = 2 * length bs" using n by (intro unat_of_nat_small) simp
  have u1: "unat (of_nat (length bs) :: UINT32) = length bs" using n by (intro unat_of_nat_small) simp
  have half: "drop_bit 1 (of_nat (2 * length bs) :: UINT32) = of_nat (length bs)"
  proof (rule unat_eq_iff [THEN iffD1])
    show "unat (drop_bit 1 (of_nat (2 * length bs) :: UINT32)) = unat (of_nat (length bs) :: UINT32)"
      unfolding unsigned_drop_bit_eq u u1 using n by (simp add: drop_bit_eq_div take_bit_nat_eq_self)
  qed
  have gt: "\<not> (of_nat (2 * length bs) :: UINT32) \<le> 1"
    using n(1) unfolding word_le_nat_alt u unsigned_1 by linarith
  have room: "length bs \<le> unat avail" using avail u1 by (simp add: word_le_nat_alt)
  have mask: "(of_nat (2 * length bs) :: UINT32) AND 0xfffffffe = of_nat (2 * length bs)" using n by (intro even_mask) simp
  have loop: "hexDecodeLoop (take (2 * length bs) (?cs @ [0])) = (bs, True)"
    using hex_loop_inverse [of upper bs] len by simp
  have "hexDecode (Some (?cs @ [0])) 0 True (Some avail) = Some (STATUS_SUCCESS, bs, Some (drop_bit 1 (of_nat (2 * length bs))))"
  proof (rule hexDecode_run)
    show "of_nat (2 * length bs) = (if 0 = (0 :: UINT32) then of_nat (STRLEN (?cs @ [0])) else 0)" by (simp only: str if_True refl)
    show "\<not> avail < drop_bit 1 (of_nat (2 * length bs))" unfolding half using avail by (simp only: not_less)
    show "unat (of_nat (2 * length bs) AND 0xfffffffe :: UINT32) \<le> length (?cs @ [0])" unfolding mask u using len by simp
    show "hexDecodeLoop (take (unat (of_nat (2 * length bs) AND 0xfffffffe :: UINT32)) (?cs @ [0])) = (bs, True)"
      unfolding mask u by (rule loop)
  qed (rule gt, rule room)
  then show ?thesis unfolding half .
qed

lemma hex_encode_run:
  assumes n: "0 < length bs" "length bs < 2 ^ 31 - 1" and avail: "of_nat (2 * length bs + 1) \<le> avail"
  shows "hexEncodeCase (Some bs) (of_nat (length bs)) True (Some avail) upper =
    Some (STATUS_SUCCESS, concat (map (hexEncodeByte (hex_alpha upper)) bs) @ [0], Some (of_nat (2 * length bs + 1)))"
proof -
  have u: "unat (of_nat (length bs) :: UINT32) = length bs" using n by (intro unat_of_nat_small) simp
  have z: "(of_nat (length bs) :: UINT32) \<noteq> 0" using u n(1) by (metis less_irrefl unsigned_0)
  have out: "2 * of_nat (length bs) + 1 = (of_nat (2 * length bs + 1) :: UINT32)" by simp
  have "unat (of_nat (2 * length bs + 1) :: UINT32) = 2 * length bs + 1" using n by (intro unat_of_nat_small) simp
  then have room: "2 * length bs + 1 \<le> unat avail" using avail unfolding word_le_nat_alt by (simp only:)
  have small: "\<not> avail < of_nat (2 * length bs + 1)" using avail by (simp only: not_less)
  show ?thesis
    unfolding hexEncodeCase_def prod.case option.case Let_def out u hex_alpha_def [symmetric]
    using z small room hex_encoded(1) [of upper bs] by (simp only: if_False not_True_eq_False if_cancel write_out_def length_append list.size order_refl
        not_less take_all if_True add_0 Suc_eq_plus1) (simp add: not_less)
qed

subsection \<open>Base64\<close>

lemma encodeTriade_chars:
  "c \<in> set (encodeTriade b0 b1 b2) \<Longrightarrow> c \<noteq> 0 \<and> c \<noteq> PAD" "length (encodeTriade b0 b1 b2) = 4"
proof -
  have "c \<in> set [enc64 w, enc64 x, enc64 y, enc64 z] \<Longrightarrow> c \<noteq> 0 \<and> c \<noteq> PAD"
    if "unat w < 64" "unat x < 64" "unat y < 64" "unat z < 64" for w x y z :: BYTE
    using that dec64_enc64(2,3) by auto
  from this [OF triade_bounds(1-4)] show "c \<in> set (encodeTriade b0 b1 b2) \<Longrightarrow> c \<noteq> 0 \<and> c \<noteq> PAD"
    unfolding encodeTriade_def triade_plus .
qed (simp add: encodeTriade_def)

lemma decodeQuad_inverse:
  "decodeQuads (encodeTriade b0 b1 b2 @ cs) = (case decodeQuads cs of (bs, rest) \<Rightarrow> (b0 # b1 # b2 # bs, rest))"
proof -
  have "decodeQuad (drop_bit 2 b0) (push_bit 4 (0x03 AND b0) OR drop_bit 4 b1) (push_bit 2 (0x0f AND b1) OR drop_bit 6 b2) (0x3f AND b2)
      = [b0, b1, b2]" by (simp only: decodeQuad_def triade_bytes)
  then show ?thesis
    by (simp only: encodeTriade_def triade_plus append.simps decodeQuads.simps
        dec64_enc64(1) [OF triade_bounds(1)] dec64_enc64(1) [OF triade_bounds(2)] dec64_enc64(1) [OF triade_bounds(3)]
        dec64_enc64(1) [OF triade_bounds(4)])
qed

lemma decodeQuads_short: "length cs < 4 \<Longrightarrow> decodeQuads cs = ([], cs)"
  by (cases cs rule: decodeQuads.cases) auto

lemma encodeTriades_inverse:
  "\<exists>full. bs = full @ snd (encodeTriades bs) \<and> length full = 3 * (length bs div 3) \<and>
     length (fst (encodeTriades bs)) = 4 * (length bs div 3) \<and>
     (\<forall>c \<in> set (fst (encodeTriades bs)). c \<noteq> 0 \<and> c \<noteq> PAD) \<and>
     (\<forall>tail. length tail < 4 \<longrightarrow> decodeQuads (fst (encodeTriades bs) @ tail) = (full, tail))"
proof (induction bs rule: encodeTriades.induct)
  case (1 b0 b1 b2 bs)
  then obtain full where full: "bs = full @ snd (encodeTriades bs)" "length full = 3 * (length bs div 3)"
    "length (fst (encodeTriades bs)) = 4 * (length bs div 3)" "\<forall>c \<in> set (fst (encodeTriades bs)). c \<noteq> 0 \<and> c \<noteq> PAD"
    "\<forall>tail. length tail < 4 \<longrightarrow> decodeQuads (fst (encodeTriades bs) @ tail) = (full, tail)" by blast
  have e: "encodeTriades (b0 # b1 # b2 # bs) = (encodeTriade b0 b1 b2 @ fst (encodeTriades bs), snd (encodeTriades bs))"
    by (simp add: case_prod_unfold)
  have d3: "length (b0 # b1 # b2 # bs) div 3 = Suc (length bs div 3)" by simp
  show ?case unfolding e fst_conv snd_conv d3
    using full encodeTriade_chars(1) [of _ b0 b1 b2] encodeTriade_chars(2) [of b0 b1 b2] decodeQuad_inverse [of b0 b1 b2]
    by (intro exI [of _ "b0 # b1 # b2 # full"]) auto
qed (simp_all add: decodeQuads_short)

text \<open>The padded end: its characters without the padding, and their decoding.\<close>

definition tail_chars :: "BYTE list \<Rightarrow> BYTE list" where
  "tail_chars rest = (case rest of
     [] \<Rightarrow> []
   | [a] \<Rightarrow> [enc64 (drop_bit 2 a), enc64 (push_bit 4 (0x03 AND a))]
   | a # b # _ \<Rightarrow> [enc64 (drop_bit 2 a), enc64 (push_bit 4 (0x03 AND a) OR drop_bit 4 b), enc64 (push_bit 2 (0x0f AND b))])"

lemma length_less_3: "length (xs :: 'a list) < 3 \<Longrightarrow> xs = [] \<or> (\<exists>a. xs = [a]) \<or> (\<exists>a b. xs = [a, b])"
  by (auto simp: numeral_3_eq_3 less_Suc_eq length_Suc_conv)

lemma tail_chars_pad:
  assumes "length rest < 3"
  shows "encodePadding (BASE64_ENCODE_PADDING ! length rest) rest =
      tail_chars rest @ replicate (if rest = [] then 0 else 3 - length rest) PAD"
    "length (tail_chars rest) = (if rest = [] then 0 else Suc (length rest))"
proof -
  have pad: "BASE64_ENCODE_PADDING ! Suc 0 = 2" "BASE64_ENCODE_PADDING ! Suc (Suc 0) = 1" "BASE64_ENCODE_PADDING ! 0 = 0"
    by (simp_all add: BASE64_ENCODE_PADDING_def)
  consider "rest = []" | a where "rest = [a]" | a b where "rest = [a, b]" using length_less_3 [OF assms] by blast
  then show "encodePadding (BASE64_ENCODE_PADDING ! length rest) rest =
      tail_chars rest @ replicate (if rest = [] then 0 else 3 - length rest) PAD"
    by cases (simp_all add: tail_chars_def pad triade_plus [simplified] numeral_2_eq_2)
  show "length (tail_chars rest) = (if rest = [] then 0 else Suc (length rest))"
    using length_less_3 [OF assms] by (auto simp: tail_chars_def)
qed

lemma tail_chars_ok: "c \<in> set (tail_chars rest) \<Longrightarrow> c \<noteq> 0 \<and> c \<noteq> PAD"
proof -
  have one: "c \<in> set [enc64 w, enc64 x] \<Longrightarrow> c \<noteq> 0 \<and> c \<noteq> PAD" if "unat w < 64" "unat x < 64" for w x :: BYTE
    using that dec64_enc64(2,3) by auto
  have two: "c \<in> set [enc64 w, enc64 x, enc64 y] \<Longrightarrow> c \<noteq> 0 \<and> c \<noteq> PAD"
    if "unat w < 64" "unat x < 64" "unat y < 64" for w x y :: BYTE
    using that dec64_enc64(2,3) by auto
  show "c \<in> set (tail_chars rest) \<Longrightarrow> c \<noteq> 0 \<and> c \<noteq> PAD"
    unfolding tail_chars_def
    using one [OF triade_bounds(1) triade_bounds(6)] two [OF triade_bounds(1,2,5)]
    by (cases rest; cases "tl rest") (simp_all only: list.case list.sel list.set empty_iff list.distinct)
qed

lemma tail_chars_inverse:
  assumes "length rest < 3"
  shows "decodePadding (BASE64_DECODE_PADDING ! length (tail_chars rest)) (tail_chars rest) = rest"
proof -
  consider "rest = []" | a where "rest = [a]" | a b where "rest = [a, b]" using length_less_3 [OF assms] by blast
  then show ?thesis
  proof cases
    case 1
    then show ?thesis by (simp add: tail_chars_def decodePadding_def BASE64_DECODE_PADDING_def)
  next
    case (2 a)
    have t: "tail_chars rest = [enc64 (drop_bit 2 a), enc64 (push_bit 4 (0x03 AND a))]" by (simp only: 2 tail_chars_def list.case)
    have p: "BASE64_DECODE_PADDING ! length (tail_chars rest) = 2" by (simp add: t BASE64_DECODE_PADDING_def)
    have "decodePadding 2 [enc64 x, enc64 y] = [push_bit 2 x OR drop_bit 4 y]" if "unat x < 64" "unat y < 64" for x y :: BYTE
      using that by (simp add: decodePadding_def dec64_enc64)
    from this [OF triade_bounds(1) [of a] triade_bounds(6) [of a]] show ?thesis
      unfolding p unfolding t triade_bytes(4) by (simp only: 2)
  next
    case (3 a b)
    have t: "tail_chars rest = [enc64 (drop_bit 2 a), enc64 (push_bit 4 (0x03 AND a) OR drop_bit 4 b), enc64 (push_bit 2 (0x0f AND b))]"
      by (simp only: 3 tail_chars_def list.case)
    have p: "BASE64_DECODE_PADDING ! length (tail_chars rest) = 1" by (simp add: t BASE64_DECODE_PADDING_def)
    have "decodePadding 1 [enc64 x, enc64 y, enc64 z] = [push_bit 2 x OR drop_bit 4 y, push_bit 4 y OR drop_bit 2 z]"
      if "unat x < 64" "unat y < 64" "unat z < 64" for x y z :: BYTE
      using that by (simp add: decodePadding_def dec64_enc64)
    from this [OF triade_bounds(1) [of a] triade_bounds(2) [of a b] triade_bounds(5) [of b]] show ?thesis
      unfolding p unfolding t triade_bytes(1,5) by (simp only: 3)
  qed
qed

lemma base64Decode_run:
  assumes "L0 = (if n \<noteq> 0 then n else of_nat (STRLEN input))" "\<not> L0 < 2" "unat L0 \<le> length input"
    "L = dropPad input (dropPad input L0)" "padding = BASE64_DECODE_PADDING ! unat (L mod 4)" "padding \<noteq> 0xff"
    "\<not> avail < 3 * L div 4" "decodeQuads (take (unat L) input) = (bs, rest)"
    "length (bs @ decodePadding padding rest) \<le> unat avail"
  shows "base64Decode (Some input) n True (Some avail) = Some (STATUS_SUCCESS, bs @ decodePadding padding rest, Some (3 * L div 4))"
  using assms(2,3,6-9)
  unfolding base64Decode_def prod.case option.case assms(1) [symmetric] Let_def assms(4) [symmetric] assms(5) [symmetric]
  by (simp add: write_out_def)

lemma dropPad_run:
  assumes n: "unat n = length core + k" "length core + k \<le> length input" "k \<le> 2" "core \<noteq> []"
    and core: "\<And>c. c \<in> set core \<Longrightarrow> c \<noteq> PAD" and input: "input = core @ replicate k PAD @ rest"
  shows "dropPad input (dropPad input n) = of_nat (length core)"
proof -
  have pad: "dropPad input m = m - 1 \<and> unat (m - 1) = length core + j" if "unat m = length core + Suc j" "Suc j \<le> k" for m j
  proof -
    have "m \<noteq> 0" using that(1) by auto
    then have u: "unat (m - 1) = length core + j" using unat_pred_nonzero that(1) by fastforce
    have "input ! (length core + j) = PAD" unfolding input using that(2) by (simp add: nth_append)
    then show ?thesis using u by (simp add: dropPad_def)
  qed
  have stop: "dropPad input m = m" if "unat m = length core" for m
  proof -
    have "m \<noteq> 0" using that n(4) by auto
    then have "unat (m - 1) = length core - 1" using unat_pred_nonzero that by fastforce
    moreover have "input ! (length core - 1) = core ! (length core - 1)" unfolding input using n(4) by (simp add: nth_append)
    moreover have "core ! (length core - 1) \<noteq> PAD" using core n(4) by simp
    ultimately show ?thesis by (simp add: dropPad_def)
  qed
  have word: "m = of_nat (length core)" if "unat m = length core" for m :: UINT32
    using that by (metis of_nat_unat ucast_id)
  consider "k = 0" | "k = 1" | "k = 2" using n(3) by linarith
  then show ?thesis
  proof cases
    case 1
    then show ?thesis using stop [of n] n(1) word by simp
  next
    case 2
    then show ?thesis using pad [of n 0] stop [of "n - 1"] n(1) word [of "n - 1"] by simp
  next
    case 3
    then show ?thesis using pad [of n 1] pad [of "n - 1" 0] n(1) word [of "n - 1 - 1"] by simp
  qed
qed

lemma base64Encode_run:
  assumes "n \<noteq> 0" "padding = BASE64_ENCODE_PADDING ! unat (n mod 3)" "\<not> avail < 4 * (n + padding) div 3 + 1"
    "unat n = length bs" "length (fst (encodeTriades bs) @ encodePadding padding (snd (encodeTriades bs)) @ [0]) \<le> unat avail"
  shows "base64Encode (Some bs) n True (Some avail) =
    Some (STATUS_SUCCESS, fst (encodeTriades bs) @ encodePadding padding (snd (encodeTriades bs)) @ [0], Some (4 * (n + padding) div 3 + 1))"
  using assms(1,3-5) unfolding base64Encode_def prod.case option.case Let_def assms(2) [symmetric]
  by (simp add: write_out_def case_prod_unfold del: encodePadding.simps)

lemma of_nat_div: "x < 2 ^ 32 \<Longrightarrow> y < 2 ^ 32 \<Longrightarrow> (of_nat x div of_nat y :: UINT32) = of_nat (x div y)"
proof (rule unat_eq_iff [THEN iffD1])
  assume "x < 2 ^ 32" "y < 2 ^ 32"
  moreover have "x div y < 2 ^ 32" using calculation(1) by (meson div_le_dividend le_less_trans)
  ultimately show "unat (of_nat x div of_nat y :: UINT32) = unat (of_nat (x div y) :: UINT32)"
    unfolding unat_div by (simp only: unat_of_nat_small)
qed

lemma of_nat_mod: "x < 2 ^ 32 \<Longrightarrow> y < 2 ^ 32 \<Longrightarrow> unat (of_nat x mod of_nat y :: UINT32) = x mod y"
  by (simp add: unat_mod unat_of_nat_small)

text \<open>The encoded form of a byte sequence, without the terminator.\<close>

definition base64_core :: "BYTE list \<Rightarrow> BYTE list" where
  "base64_core bs = fst (encodeTriades bs) @ tail_chars (snd (encodeTriades bs))"

definition base64_pads :: "BYTE list \<Rightarrow> nat" where
  "base64_pads bs = (if length bs mod 3 = 0 then 0 else 3 - length bs mod 3)"

lemma base64_core_facts:
  shows "encodePadding (BASE64_ENCODE_PADDING ! (length bs mod 3)) (snd (encodeTriades bs)) =
      tail_chars (snd (encodeTriades bs)) @ replicate (base64_pads bs) PAD"
    "length (base64_core bs) = 4 * (length bs div 3) + (if length bs mod 3 = 0 then 0 else Suc (length bs mod 3))"
    "c \<in> set (base64_core bs) \<Longrightarrow> c \<noteq> 0 \<and> c \<noteq> PAD"
    "decodeQuads (base64_core bs) = (take (3 * (length bs div 3)) bs, tail_chars (snd (encodeTriades bs)))"
    "decodePadding (BASE64_DECODE_PADDING ! (length (base64_core bs) mod 4)) (tail_chars (snd (encodeTriades bs))) =
      drop (3 * (length bs div 3)) bs"
proof -
  let ?rest = "snd (encodeTriades bs)"
  obtain full where full: "bs = full @ ?rest" "length full = 3 * (length bs div 3)"
    "length (fst (encodeTriades bs)) = 4 * (length bs div 3)" "\<forall>c \<in> set (fst (encodeTriades bs)). c \<noteq> 0 \<and> c \<noteq> PAD"
    "\<forall>tail. length tail < 4 \<longrightarrow> decodeQuads (fst (encodeTriades bs) @ tail) = (full, tail)"
    using encodeTriades_inverse [of bs] by blast
  have r: "length ?rest = length bs mod 3"
  proof -
    have "length bs = length full + length ?rest" using arg_cong [OF full(1), of length] by simp
    then show ?thesis using full(2) by (simp add: minus_mult_div_eq_mod [symmetric])
  qed
  then have r3: "length ?rest < 3" by simp
  have re: "?rest = [] \<longleftrightarrow> length bs mod 3 = 0" using r by (metis length_0_conv)
  note pad = tail_chars_pad [OF r3]
  show "encodePadding (BASE64_ENCODE_PADDING ! (length bs mod 3)) ?rest = tail_chars ?rest @ replicate (base64_pads bs) PAD"
    using pad(1) unfolding r base64_pads_def re .
  show len: "length (base64_core bs) = 4 * (length bs div 3) + (if length bs mod 3 = 0 then 0 else Suc (length bs mod 3))"
    unfolding base64_core_def length_append full(3) pad(2) re r ..
  show "c \<in> set (base64_core bs) \<Longrightarrow> c \<noteq> 0 \<and> c \<noteq> PAD"
    using full(4) tail_chars_ok [of c ?rest] by (auto simp: base64_core_def)
  have t4: "length (tail_chars ?rest) < 4" using pad(2) r3 by simp
  have take: "full = take (3 * (length bs div 3)) bs" "?rest = drop (3 * (length bs div 3)) bs"
    using full(1,2) by (metis append_eq_conv_conj)+
  show "decodeQuads (base64_core bs) = (take (3 * (length bs div 3)) bs, tail_chars ?rest)"
    using full(5) t4 take(1) by (simp add: base64_core_def)
  have "length (base64_core bs) mod 4 = length (tail_chars ?rest)"
    using t4 by (simp add: base64_core_def full(3))
  then show "decodePadding (BASE64_DECODE_PADDING ! (length (base64_core bs) mod 4)) (tail_chars ?rest) = drop (3 * (length bs div 3)) bs"
    using tail_chars_inverse [OF r3] take(2) by simp
qed

lemma base64_pads_total:
  "length (base64_core bs) + base64_pads bs = 4 * ((length bs + 2) div 3)"
  "3 * length (base64_core bs) div 4 = length bs" "4 * (length bs + unat (BASE64_ENCODE_PADDING ! (length bs mod 3))) div 3 = 4 * ((length bs + 2) div 3)"
  "unat (BASE64_ENCODE_PADDING ! (length bs mod 3)) \<le> 2" "BASE64_DECODE_PADDING ! (length (base64_core bs) mod 4) \<noteq> 0xff"
proof -
  define q r where "q = length bs div 3" and "r = length bs mod 3"
  have n: "length bs = 3 * q + r" unfolding q_def r_def by simp
  have core: "length (base64_core bs) = 4 * q + (if r = 0 then 0 else Suc r)" using base64_core_facts(2) [of bs] by (simp add: q_def r_def)
  have pads: "base64_pads bs = (if r = 0 then 0 else 3 - r)" by (simp add: base64_pads_def r_def)
  have m4: "Suc (Suc (4 * q)) mod 4 = 2" "Suc (Suc (Suc (4 * q))) mod 4 = 3" by presburger+
  have d4: "(6 + 12 * q) div 4 = Suc (3 * q)" "(9 + 12 * q) div 4 = Suc (Suc (3 * q))" by presburger+
  consider "r = 0" | "r = 1" | "r = 2" unfolding r_def by fastforce
  then have all: "length (base64_core bs) + base64_pads bs = 4 * ((length bs + 2) div 3) \<and>
     3 * length (base64_core bs) div 4 = length bs \<and> 4 * (length bs + unat (BASE64_ENCODE_PADDING ! r)) div 3 = 4 * ((length bs + 2) div 3) \<and>
     unat (BASE64_ENCODE_PADDING ! r) \<le> 2 \<and> BASE64_DECODE_PADDING ! (length (base64_core bs) mod 4) \<noteq> 0xff"
    unfolding core pads n by cases (simp_all add: BASE64_ENCODE_PADDING_def BASE64_DECODE_PADDING_def m4 d4)
  show "length (base64_core bs) + base64_pads bs = 4 * ((length bs + 2) div 3)"
    "3 * length (base64_core bs) div 4 = length bs" "4 * (length bs + unat (BASE64_ENCODE_PADDING ! (length bs mod 3))) div 3 = 4 * ((length bs + 2) div 3)"
    "unat (BASE64_ENCODE_PADDING ! (length bs mod 3)) \<le> 2" "BASE64_DECODE_PADDING ! (length (base64_core bs) mod 4) \<noteq> 0xff"
    using all unfolding r_def by blast+
qed

lemma base64_encode_run:
  assumes n: "0 < length bs" "length bs < 2 ^ 30 - 2" and avail: "of_nat (4 * ((length bs + 2) div 3) + 1) \<le> avail"
  shows "base64Encode (Some bs) (of_nat (length bs)) True (Some avail) =
    Some (STATUS_SUCCESS, base64_core bs @ replicate (base64_pads bs) PAD @ [0], Some (of_nat (4 * ((length bs + 2) div 3) + 1)))"
proof -
  let ?n = "of_nat (length bs) :: UINT32" and ?p = "BASE64_ENCODE_PADDING ! (length bs mod 3)"
  let ?M = "4 * ((length bs + 2) div 3)"
  have u: "unat ?n = length bs" using n by (intro unat_of_nat_small) simp
  have nz: "?n \<noteq> 0" using u n(1) by (metis less_irrefl unsigned_0)
  have p: "BASE64_ENCODE_PADDING ! unat (?n mod 3) = ?p"
    using of_nat_mod [of "length bs" 3] n by simp
  have M: "?M < 2 ^ 32 - 1" using n by simp
  have "4 * (?n + ?p) = of_nat (4 * (length bs + unat ?p))" by simp
  then have "4 * (?n + ?p) div 3 = of_nat (4 * (length bs + unat ?p)) div of_nat 3" by simp
  also have "\<dots> = of_nat ?M"
    using of_nat_div [of "4 * (length bs + unat ?p)" 3] base64_pads_total(3,4) [of bs] n by simp
  finally have out: "4 * (?n + ?p) div 3 + 1 = of_nat (?M + 1)" by simp
  have "length (base64_core bs @ replicate (base64_pads bs) PAD @ [0]) = ?M + 1"
    using base64_pads_total(1) [of bs] by simp
  moreover have "unat (of_nat (?M + 1) :: UINT32) = ?M + 1" using M by (intro unat_of_nat_small) simp
  ultimately have room: "length (base64_core bs @ replicate (base64_pads bs) PAD @ [0]) \<le> unat avail"
    using avail unfolding word_le_nat_alt by (simp only:)
  have enc: "fst (encodeTriades bs) @ encodePadding ?p (snd (encodeTriades bs)) @ [0] = base64_core bs @ replicate (base64_pads bs) PAD @ [0]"
    using base64_core_facts(1) [of bs] by (simp add: base64_core_def del: encodePadding.simps)
  show ?thesis
    using base64Encode_run [OF nz p [symmetric], of avail bs] avail room u unfolding enc out by (simp only: not_less simp_thms)
qed

lemma base64_decode_encoded:
  assumes n: "0 < length bs" "length bs < 2 ^ 30 - 2" and avail: "of_nat (length bs) \<le> avail"
  shows "base64Decode (Some (base64_core bs @ replicate (base64_pads bs) PAD @ [0])) 0 True (Some avail) =
    Some (STATUS_SUCCESS, bs, Some (of_nat (length bs)))"
proof -
  let ?cs = "base64_core bs" and ?k = "base64_pads bs" and ?M = "4 * ((length bs + 2) div 3)"
  let ?input = "?cs @ replicate ?k PAD @ [0]" and ?p = "BASE64_DECODE_PADDING ! (length (base64_core bs) mod 4)"
  note total = base64_pads_total [of bs] and core3 = base64_core_facts(3) [of _ bs] and facts = base64_core_facts(4,5) [of bs]
  have "1 \<le> (length bs + 2) div 3" using n(1) by presburger
  then have M: "2 \<le> ?M" "?M < 2 ^ 32" using n(2) by simp_all
  have "PAD \<noteq> 0" by (simp add: encode_alpha(4))
  then have str: "STRLEN ?input = ?M"
    using STRLEN_terminated [of "?cs @ replicate ?k PAD"] core3 total(1) by fastforce
  have uM: "unat (of_nat ?M :: UINT32) = ?M" using M by (intro unat_of_nat_small)
  have core: "length ?cs < 2 ^ 32" "3 * length ?cs < 2 ^ 32" "?cs \<noteq> []"
  proof -
    show "3 * length ?cs < 2 ^ 32" using total(2) n by simp
    then show "length ?cs < 2 ^ 32" by simp
    have "length ?cs \<noteq> 0" using total(2) n(1) by auto
    then show "?cs \<noteq> []" by auto
  qed
  have uc: "unat (of_nat (length ?cs) :: UINT32) = length ?cs" using core(1) by (intro unat_of_nat_small)
  have drop: "dropPad ?input (dropPad ?input (of_nat ?M)) = of_nat (length ?cs)"
    by (rule dropPad_run [of _ ?cs ?k _ "[0]"]) (use uM total(1) core(3) core3 in \<open>auto simp: base64_pads_def\<close>)
  have out: "3 * of_nat (length ?cs) div 4 = (of_nat (length bs) :: UINT32)"
    using of_nat_div [of "3 * length ?cs" 4] core(2) total(2) by simp
  have "base64Decode (Some ?input) 0 True (Some avail) =
      Some (STATUS_SUCCESS, take (3 * (length bs div 3)) bs @ decodePadding ?p (tail_chars (snd (encodeTriades bs))),
        Some (3 * of_nat (length ?cs) div 4))"
  proof (rule base64Decode_run)
    show "of_nat ?M = (if (0 :: UINT32) \<noteq> 0 then 0 else of_nat (STRLEN ?input))" by (simp only: str simp_thms if_False)
    show "\<not> (of_nat ?M :: UINT32) < 2" using uM M(1) by (simp only: word_less_nat_alt) simp
    show "unat (of_nat ?M :: UINT32) \<le> length ?input" unfolding uM using total(1) by simp
    show "of_nat (length ?cs) = dropPad ?input (dropPad ?input (of_nat ?M))" using drop by simp
    have "unat (of_nat (length ?cs) mod 4 :: UINT32) = length ?cs mod 4" using of_nat_mod [of "length ?cs" 4] core(1) by simp
    then show "?p = BASE64_DECODE_PADDING ! unat (of_nat (length ?cs) mod 4 :: UINT32)" by simp
    show "?p \<noteq> 0xff" by (rule total(5))
    show "\<not> avail < 3 * of_nat (length ?cs) div 4" unfolding out using avail by (simp only: not_less)
    show "decodeQuads (take (unat (of_nat (length ?cs) :: UINT32)) ?input) =
        (take (3 * (length bs div 3)) bs, tail_chars (snd (encodeTriades bs)))" unfolding uc using facts(1) by simp
    have "unat (of_nat (length bs) :: UINT32) = length bs" using n by (intro unat_of_nat_small) simp
    then show "length (take (3 * (length bs div 3)) bs @ decodePadding ?p (tail_chars (snd (encodeTriades bs)))) \<le> unat avail"
      unfolding facts(2) append_take_drop_id using avail unfolding word_le_nat_alt by simp
  qed
  then show ?thesis unfolding facts(2) append_take_drop_id out .
qed

subsection \<open>Properties\<close>

text \<open>C21. Base64 round trip: every non-empty byte sequence of less than \<open>2 ^ 30 - 2\<close> bytes is encoded, in a buffer
  of the size that the size query reports, into a terminated string of that size, and decoding this string gives back the bytes and their
  number.\<close>

theorem base64_roundtrip:
  assumes "0 < length bs" "length bs < 2 ^ 30 - 2"
  shows "\<exists>len enc. base64Encode (Some bs) (of_nat (length bs)) False (Some 0) = Some (STATUS_SUCCESS, [], Some len) \<and>
    base64Encode (Some bs) (of_nat (length bs)) True (Some len) = Some (STATUS_SUCCESS, enc, Some len) \<and>
    length enc = unat len \<and>
    base64Decode (Some enc) 0 True (Some (of_nat (length bs))) = Some (STATUS_SUCCESS, bs, Some (of_nat (length bs)))"
proof -
  let ?len = "of_nat (4 * ((length bs + 2) div 3) + 1) :: UINT32"
  let ?enc = "base64_core bs @ replicate (base64_pads bs) PAD @ [0]"
  have run: "base64Encode (Some bs) (of_nat (length bs)) True (Some ?len) = Some (STATUS_SUCCESS, ?enc, Some ?len)"
    by (rule base64_encode_run [OF assms order_refl])
  moreover have "base64Encode (Some bs) (of_nat (length bs)) False (Some 0) = Some (STATUS_SUCCESS, [], Some ?len)"
    using run unfolding base64Encode_def write_out_def Let_def
    by (auto split: if_splits prod.splits simp del: encodePadding.simps of_nat_add of_nat_mult of_nat_Suc)
  moreover have "length ?enc = unat ?len"
  proof -
    have "unat ?len = 4 * ((length bs + 2) div 3) + 1" using assms(2) by (intro unat_of_nat_small) simp
    then show ?thesis using base64_pads_total(1) [of bs] by simp
  qed
  ultimately show ?thesis using base64_decode_encoded [OF assms order_refl] by blast
qed

theorem base64_roundtrip_witness:
  "\<exists>len enc. base64Encode (Some [1, 2, 250, 4]) 4 True (Some len) = Some (STATUS_SUCCESS, enc, Some len) \<and>
    base64Decode (Some enc) 0 True (Some 4) = Some (STATUS_SUCCESS, [1, 2, 250, 4], Some 4)"
  using base64_roundtrip [of "[1, 2, 250, 4]"] by auto

text \<open>Hexadecimal round trip, in upper and lower case: every non-empty byte sequence of less than \<open>2 ^ 31 - 1\<close> bytes is
  encoded into a terminated string of twice its length and one, and decoding this string gives back the bytes and their number.\<close>

theorem hex_roundtrip:
  assumes "0 < length bs" "length bs < 2 ^ 31 - 1"
  shows "\<exists>enc. hexEncodeCase (Some bs) (of_nat (length bs)) True (Some (of_nat (2 * length bs + 1))) upper =
      Some (STATUS_SUCCESS, enc, Some (of_nat (2 * length bs + 1))) \<and> length enc = 2 * length bs + 1 \<and>
    hexDecode (Some enc) 0 True (Some (of_nat (length bs))) = Some (STATUS_SUCCESS, bs, Some (of_nat (length bs)))"
  using hex_encode_run [OF assms order_refl, of upper] hex_decode_encoded [OF assms order_refl, of upper] hex_encoded(1) [of upper bs]
  by (intro exI [of _ "concat (map (hexEncodeByte (hex_alpha upper)) bs) @ [0]"]) simp

theorem hex_roundtrip_witness:
  "\<exists>enc. hexEncodeCase (Some [1, 2, 250]) 3 True (Some 7) False = Some (STATUS_SUCCESS, enc, Some 7) \<and>
    hexDecode (Some enc) 0 True (Some 3) = Some (STATUS_SUCCESS, [1, 2, 250], Some 3)"
  using hex_roundtrip [of "[1, 2, 250]" False] by auto

end
