(* ===== verification/Bits.thy ===== *)
theory Bits
  imports Prelude
begin

text \<open>
  The bit reader of \<open>BitReader.c\<close>, with its Exp-Golomb codes, and the bit field of \<open>BitField.c\<close>. The result \<open>None\<close>
  of an operation is an access outside the buffer.
\<close>

subsection \<open>Bit reader\<close>

record BitReader =
  br_buffer :: "BYTE list"
  br_bitBufferSize :: UINT32
  br_currentBit :: UINT32

type_synonym 'v reading = "(STATUS \<times> 'v option \<times> BitReader option) option"

fun bitReaderReset :: "BitReader option \<Rightarrow> BYTE list option \<Rightarrow> UINT32 \<Rightarrow> STATUS \<times> BitReader option" where
  "bitReaderReset (Some r) (Some buffer) bitBufferSize =
     (STATUS_SUCCESS, Some (r\<lparr>br_buffer := buffer, br_bitBufferSize := bitBufferSize, br_currentBit := 0\<rparr>))"
| "bitReaderReset r buffer bitBufferSize = (STATUS_NULL_ARG, r)"

fun bitReaderSetCurrent :: "BitReader option \<Rightarrow> UINT32 \<Rightarrow> STATUS \<times> BitReader option" where
  "bitReaderSetCurrent None current = (STATUS_NULL_ARG, None)"
| "bitReaderSetCurrent (Some r) current =
     (if \<not> br_bitBufferSize r > current then (STATUS_BIT_READER_OUT_OF_RANGE, Some r)
      else (STATUS_SUCCESS, Some (r\<lparr>br_currentBit := current\<rparr>)))"

text \<open>\<open>pRead\<close> says whether the out pointer is given; the value written is in the result.\<close>

fun bitReaderReadBit :: "BitReader option \<Rightarrow> bool \<Rightarrow> UINT32 reading" where
  "bitReaderReadBit (Some r) True =
     (if \<not> br_currentBit r < br_bitBufferSize r then Some (STATUS_BIT_READER_OUT_OF_RANGE, None, Some r)
      else
        let pos = unat (drop_bit 3 (br_currentBit r))
        in if \<not> pos < length (br_buffer r) then None
           else
             let byte = br_buffer r ! pos; shift = unat (8 - (br_currentBit r mod 8 + 1))
             in Some (STATUS_SUCCESS, Some (ucast (drop_bit shift byte) AND 0x01),
                  Some (r\<lparr>br_currentBit := br_currentBit r + 1\<rparr>)))"
| "bitReaderReadBit r _ = Some (STATUS_NULL_ARG, None, r)"

text \<open>The loop with \<open>n\<close> bits still to be read.\<close>

fun readBitsLoop :: "nat \<Rightarrow> UINT32 \<Rightarrow> BitReader option \<Rightarrow> UINT32 reading" where
  "readBitsLoop 0 retVal r = Some (STATUS_SUCCESS, Some retVal, r)"
| "readBitsLoop (Suc n) retVal r =
     (case bitReaderReadBit r True of
        Some (st, Some readBit, r') \<Rightarrow> readBitsLoop n (retVal OR push_bit n readBit) r'
      | Some (st, None, r') \<Rightarrow> Some (st, None, r')
      | None \<Rightarrow> None)"

definition bitReaderReadBits :: "BitReader option \<Rightarrow> UINT32 \<Rightarrow> bool \<Rightarrow> UINT32 reading" where
  "bitReaderReadBits r bitCount pRead =
     (if \<not> pRead then Some (STATUS_NULL_ARG, None, r)
      else if \<not> bitCount \<le> 32 then Some (STATUS_BIT_READER_INVALID_SIZE, None, r)
      else readBitsLoop (unat bitCount) 0 r)"

text \<open>The loop over the leading zeros, at most \<open>n\<close> of them: their number.\<close>

fun leadingZeros :: "nat \<Rightarrow> BitReader option \<Rightarrow> nat reading" where
  "leadingZeros 0 r = Some (STATUS_SUCCESS, Some 0, r)"
| "leadingZeros (Suc n) r =
     (case bitReaderReadBit r True of
        Some (st, Some readBit, r') \<Rightarrow>
          if readBit \<noteq> 0 then Some (STATUS_SUCCESS, Some 0, r')
          else (case leadingZeros n r' of
                  Some (st, k, r'') \<Rightarrow> Some (st, map_option Suc k, r'')
                | None \<Rightarrow> None)
      | Some (st, None, r') \<Rightarrow> Some (st, None, r')
      | None \<Rightarrow> None)"

definition bitReaderReadExpGolomb :: "BitReader option \<Rightarrow> bool \<Rightarrow> UINT32 reading" where
  "bitReaderReadExpGolomb r pRead =
     (if \<not> pRead then Some (STATUS_NULL_ARG, None, r)
      else case leadingZeros 32 r of
        Some (st, Some i, r') \<Rightarrow>
          (case bitReaderReadBits r' (of_nat i) True of
             Some (st, Some retVal, r'') \<Rightarrow>
               let shifted = ucast (push_bit i 1 :: UINT64) :: UINT32
               in Some (STATUS_SUCCESS, Some (retVal + shifted - 1), r'')
           | Some (st, None, r'') \<Rightarrow> Some (st, None, r'')
           | None \<Rightarrow> None)
      | Some (st, None, r') \<Rightarrow> Some (st, None, r')
      | None \<Rightarrow> None)"

text \<open>The signed result is the 32-bit word that represents it.\<close>

definition bitReaderReadExpGolombSe :: "BitReader option \<Rightarrow> bool \<Rightarrow> UINT32 reading" where
  "bitReaderReadExpGolombSe r pRead =
     (if \<not> pRead then Some (STATUS_NULL_ARG, None, r)
      else case bitReaderReadExpGolomb r True of
        Some (st, Some exGolomb, r') \<Rightarrow>
          Some (STATUS_SUCCESS,
            Some (if exGolomb AND 0x01 \<noteq> 0 then (exGolomb + 1) div 2
                  else ucast (- (ucast (exGolomb div 2) :: UINT64))), r')
      | Some (st, None, r') \<Rightarrow> Some (st, None, r')
      | None \<Rightarrow> None)"

subsection \<open>Bit field\<close>

record BitField =
  bf_itemCount :: UINT32
  bf_bits :: "BYTE list"

definition GET_BYTE_COUNT_FOR_BITS :: "UINT32 \<Rightarrow> UINT32" where
  "GET_BYTE_COUNT_FOR_BITS x = drop_bit 3 ((x + 7) AND NOT 7)"

text \<open>\<open>calloc\<close> is the success of the allocation, which is zeroed and follows the structure.\<close>

definition bitFieldCreate :: "UINT32 \<Rightarrow> bool \<Rightarrow> bool \<Rightarrow> STATUS \<times> BitField option" where
  "bitFieldCreate itemCount ppBitField calloc =
     (if \<not> (itemCount \<noteq> 0 \<and> ppBitField) then (STATUS_NULL_ARG, None)
      else if \<not> calloc then (STATUS_NOT_ENOUGH_MEMORY, None)
      else (STATUS_SUCCESS, Some \<lparr>bf_itemCount = itemCount,
              bf_bits = replicate (unat (GET_BYTE_COUNT_FOR_BITS itemCount)) 0\<rparr>))"

definition bitFieldFree :: "BitField option \<Rightarrow> STATUS" where
  "bitFieldFree p = STATUS_SUCCESS"

fun bitFieldReset :: "BitField option \<Rightarrow> bool \<Rightarrow> STATUS \<times> BitField option" where
  "bitFieldReset None isSet = (STATUS_NULL_ARG, None)"
| "bitFieldReset (Some f) isSet =
     (let byteCount = unat (GET_BYTE_COUNT_FOR_BITS (bf_itemCount f))
      in (STATUS_SUCCESS, Some (f\<lparr>bf_bits := replicate byteCount (if isSet then 0xff else 0) @ drop byteCount (bf_bits f)\<rparr>)))"

fun bitFieldGetCount :: "BitField option \<Rightarrow> bool \<Rightarrow> STATUS \<times> UINT32 option" where
  "bitFieldGetCount (Some f) True = (STATUS_SUCCESS, Some (bf_itemCount f))"
| "bitFieldGetCount _ _ = (STATUS_NULL_ARG, None)"

definition bitMask :: "UINT32 \<Rightarrow> BYTE" where
  "bitMask index = drop_bit (unat (index mod 8)) 0x80"

fun bitFieldGet :: "BitField option \<Rightarrow> UINT32 \<Rightarrow> bool \<Rightarrow> (STATUS \<times> bool option) option" where
  "bitFieldGet (Some f) index True =
     (if \<not> index < bf_itemCount f then Some (STATUS_INVALID_ARG, None)
      else
        let pos = unat (drop_bit 3 index)
        in if \<not> pos < length (bf_bits f) then None
           else Some (STATUS_SUCCESS, Some (bf_bits f ! pos AND bitMask index \<noteq> 0)))"
| "bitFieldGet _ _ _ = Some (STATUS_NULL_ARG, None)"

fun bitFieldSet :: "BitField option \<Rightarrow> UINT32 \<Rightarrow> bool \<Rightarrow> (STATUS \<times> BitField option) option" where
  "bitFieldSet None index isSet = Some (STATUS_NULL_ARG, None)"
| "bitFieldSet (Some f) index isSet =
     (if \<not> index < bf_itemCount f then Some (STATUS_INVALID_ARG, Some f)
      else
        let pos = unat (drop_bit 3 index)
        in if \<not> pos < length (bf_bits f) then None
           else
             let byte = bf_bits f ! pos;
                 byte' = (if isSet then byte OR bitMask index else byte AND NOT (bitMask index))
             in Some (STATUS_SUCCESS, Some (f\<lparr>bf_bits := (bf_bits f)[pos := byte']\<rparr>)))"

end
