(* ===== verification/BitsProps.thy ===== *)
theory BitsProps
  imports Bits
begin

text \<open>
  The bit reader delivers the bits of its buffer in order, most significant first, and never looks outside
  of it; the Exp-Golomb readers invert the Exp-Golomb code. The bit field implements an array of booleans.
\<close>

subsection \<open>The bits of a buffer\<close>

definition byte_bits :: "BYTE \<Rightarrow> bool list" where
  "byte_bits b = map (\<lambda>i. bit b (7 - i)) [0..<8]"

definition bits_of :: "BYTE list \<Rightarrow> bool list" where
  "bits_of bs = concat (map byte_bits bs)"

lemma length_bits_of [simp]: "length (bits_of bs) = 8 * length bs"
  by (induction bs) (simp_all add: bits_of_def byte_bits_def)

lemma nth_bits_of: "i < 8 * length bs \<Longrightarrow> bits_of bs ! i = bit (bs ! (i div 8)) (7 - i mod 8)"
proof (induction bs arbitrary: i)
  case (Cons b bs)
  have e: "bits_of (b # bs) = byte_bits b @ bits_of bs" by (simp add: bits_of_def)
  show ?case
  proof (cases "i < 8")
    case True
    then show ?thesis unfolding e by (simp add: nth_append byte_bits_def)
  next
    case False
    then have "bits_of (b # bs) ! i = bits_of bs ! (i - 8)" unfolding e by (simp add: nth_append byte_bits_def)
    also have "\<dots> = bit (bs ! ((i - 8) div 8)) (7 - (i - 8) mod 8)" using Cons False by simp
    finally have *: "bits_of (b # bs) ! i = bit (bs ! ((i - 8) div 8)) (7 - (i - 8) mod 8)" .
    have "(i - 8) div 8 = i div 8 - 1" "(i - 8) mod 8 = i mod 8" using False by (simp_all add: le_div_geq le_mod_geq)
    moreover have "i div 8 \<noteq> 0" using False by simp
    ultimately show ?thesis using * by (simp add: nth_Cons')
  qed
qed simp

definition reader_ok :: "BitReader \<Rightarrow> bool" where
  "reader_ok r \<longleftrightarrow> unat (br_bitBufferSize r) \<le> 8 * length (br_buffer r) \<and> br_currentBit r \<le> br_bitBufferSize r"

definition remaining :: "BitReader \<Rightarrow> bool list" where
  "remaining r = drop (unat (br_currentBit r)) (take (unat (br_bitBufferSize r)) (bits_of (br_buffer r)))"

lemma remaining_empty: "reader_ok r \<Longrightarrow> remaining r = [] \<longleftrightarrow> \<not> br_currentBit r < br_bitBufferSize r"
  by (auto simp: reader_ok_def remaining_def word_less_nat_alt word_le_nat_alt)

lemma bit_value: "(ucast (drop_bit n b) AND 0x01 :: UINT32) = of_bool (bit (b :: BYTE) n)"
proof (rule bit_word_eqI)
  fix m
  show "bit (ucast (drop_bit n b) AND 0x01 :: UINT32) m = bit (of_bool (bit b n) :: UINT32) m"
    by (cases m) (simp_all add: bit_simps)
qed

lemma readBit_end:
  "reader_ok r \<Longrightarrow> remaining r = [] \<Longrightarrow> bitReaderReadBit (Some r) True = Some (STATUS_BIT_READER_OUT_OF_RANGE, None, Some r)"
  by (simp add: remaining_empty)

lemma readBit_next:
  assumes ok: "reader_ok r" and rem: "remaining r = x # xs"
  obtains r' where "bitReaderReadBit (Some r) True = Some (STATUS_SUCCESS, Some (of_bool x), Some r')" "reader_ok r'" "remaining r' = xs"
proof -
  let ?c = "br_currentBit r" and ?bits = "bits_of (br_buffer r)"
  let ?r = "r\<lparr>br_currentBit := ?c + 1\<rparr>"
  have lt: "?c < br_bitBufferSize r" using remaining_empty [OF ok] rem by auto
  have c: "unat ?c < unat (br_bitBufferSize r)" "unat ?c < 8 * length (br_buffer r)"
    using lt ok by (auto simp: reader_ok_def word_less_nat_alt)
  have u: "unat (?c + 1) = Suc (unat ?c)" using unat_Suc_less [OF lt] .
  have pos: "unat (drop_bit 3 ?c) = unat ?c div 8" by (simp add: drop_bit_eq_div unat_div)
  have m: "unat (?c mod 8) = unat ?c mod 8" by (simp add: unat_mod)
  have "unat ?c mod 8 \<le> 7" using mod_less_divisor [of 8 "unat ?c"] by linarith
  then have "?c mod 8 \<le> 7" using m by (simp add: word_le_nat_alt)
  then have shift: "unat (8 - (?c mod 8 + 1)) = 7 - unat ?c mod 8"
    using unat_sub [of "?c mod 8" 7] m by simp
  have x: "x = ?bits ! unat ?c" and xs: "xs = drop (Suc (unat ?c)) (take (unat (br_bitBufferSize r)) ?bits)"
    using rem c unfolding remaining_def by (simp_all add: Cons_nth_drop_Suc [symmetric])
  have "bitReaderReadBit (Some r) True = Some (STATUS_SUCCESS, Some (of_bool x), Some ?r)"
    using lt c(2) unfolding x nth_bits_of [OF c(2)] by (simp add: Let_def pos shift [simplified] bit_value less_mult_imp_div_less mult.commute)
  moreover have "reader_ok ?r" using ok word_inc_le(1) [OF lt] by (simp add: reader_ok_def)
  moreover have "remaining ?r = xs" unfolding xs by (simp add: remaining_def u)
  ultimately show thesis using that by blast
qed

subsection \<open>Numbers\<close>

fun bits_val :: "bool list \<Rightarrow> nat" where
  "bits_val [] = 0"
| "bits_val (b # bs) = of_bool b * 2 ^ length bs + bits_val bs"

lemma bits_val_less: "bits_val bs < 2 ^ length bs"
  by (induction bs) auto

lemma bits_val_word:
  "(of_nat (bits_val (b # bs)) :: UINT32) = push_bit (length bs) (of_bool b) OR of_nat (bits_val bs)"
proof -
  have low: "\<not> bit (of_nat (bits_val bs) :: UINT32) n" if "length bs \<le> n" for n
  proof -
    have "bits_val bs < 2 ^ n" using bits_val_less [of bs] that by (meson le_less_trans linorder_not_le order_less_le_trans power_increasing_iff one_less_numeral_iff semiring_norm(76) leD)
    then have "\<not> bit (bits_val bs) n" by (simp add: bit_iff_odd)
    then show ?thesis by (simp add: bit_simps)
  qed
  have "of_nat (bits_val (b # bs)) = (push_bit (length bs) (of_bool b) + of_nat (bits_val bs) :: UINT32)"
    by (simp add: push_bit_eq_mult)
  also have "\<dots> = push_bit (length bs) (of_bool b) OR of_nat (bits_val bs)"
    by (rule disjunctive_add) (use low in \<open>auto simp: bit_simps\<close>)
  finally show ?thesis .
qed

lemma readBitsLoop_ok:
  assumes "reader_ok r" "n \<le> length (remaining r)"
  obtains r' where "readBitsLoop n acc (Some r) = Some (STATUS_SUCCESS, Some (acc OR of_nat (bits_val (take n (remaining r)))), Some r')"
    "reader_ok r'" "remaining r' = drop n (remaining r)"
  using assms
proof (induction n arbitrary: r acc thesis)
  case 0
  then show ?case by simp
next
  case (Suc n)
  obtain x xs where rem: "remaining r = x # xs" using Suc.prems(3) by (cases "remaining r") auto
  obtain r1 where r1: "bitReaderReadBit (Some r) True = Some (STATUS_SUCCESS, Some (of_bool x), Some r1)" "reader_ok r1" "remaining r1 = xs"
    by (rule readBit_next [OF Suc.prems(2) rem])
  have len: "n \<le> length (remaining r1)" using Suc.prems(3) rem r1(3) by simp
  obtain r' where r': "readBitsLoop n (acc OR push_bit n (of_bool x)) (Some r1) =
      Some (STATUS_SUCCESS, Some ((acc OR push_bit n (of_bool x)) OR of_nat (bits_val (take n (remaining r1)))), Some r')"
    "reader_ok r'" "remaining r' = drop n (remaining r1)"
    by (rule Suc.IH [OF _ r1(2) len])
  have "length (take n xs) = n" using len r1(3) by simp
  then have val: "of_nat (bits_val (take (Suc n) (remaining r))) = push_bit n (of_bool x) OR (of_nat (bits_val (take n xs)) :: UINT32)"
    using bits_val_word [of x "take n xs"] by (simp only: rem take_Suc_Cons)
  have "readBitsLoop (Suc n) acc (Some r) =
      Some (STATUS_SUCCESS, Some (acc OR of_nat (bits_val (take (Suc n) (remaining r)))), Some r')"
    unfolding val using r1 r'(1) by (simp add: or.assoc del: bitReaderReadBit.simps)
  then show ?case using Suc.prems(1) [OF _ r'(2)] r'(3) r1(3) rem by simp
qed

lemma readBitsLoop_short:
  "reader_ok r \<Longrightarrow> length (remaining r) < n \<Longrightarrow>
   \<exists>r'. readBitsLoop n acc (Some r) = Some (STATUS_BIT_READER_OUT_OF_RANGE, None, Some r') \<and> reader_ok r' \<and> remaining r' = []"
proof (induction n arbitrary: r acc)
  case (Suc n)
  show ?case
  proof (cases "remaining r")
    case Nil
    then show ?thesis using readBit_end [OF Suc.prems(1) Nil] Suc.prems(1) by (simp del: bitReaderReadBit.simps)
  next
    case (Cons x xs)
    obtain r1 where r1: "bitReaderReadBit (Some r) True = Some (STATUS_SUCCESS, Some (of_bool x), Some r1)" "reader_ok r1" "remaining r1 = xs"
      by (rule readBit_next [OF Suc.prems(1) Cons])
    have "length (remaining r1) < n" using Suc.prems(2) Cons r1(3) by simp
    from Suc.IH [OF r1(2) this, of "acc OR push_bit n (of_bool x)"] show ?thesis
      using r1(1) by (simp del: bitReaderReadBit.simps)
  qed
qed simp

subsection \<open>Exp-Golomb codes\<close>

lemma leadingZeros_ok:
  assumes "reader_ok r" "remaining r = replicate k False @ True # bs" "k < n"
  obtains r' where "leadingZeros n (Some r) = Some (STATUS_SUCCESS, Some k, Some r')" "reader_ok r'" "remaining r' = bs"
  using assms
proof (induction k arbitrary: r n thesis)
  case 0
  obtain m where n: "n = Suc m" using 0(4) by (cases n) auto
  have rem: "remaining r = True # bs" using 0(3) by simp
  obtain r1 where "bitReaderReadBit (Some r) True = Some (STATUS_SUCCESS, Some (of_bool True), Some r1)" "reader_ok r1" "remaining r1 = bs"
    by (rule readBit_next [OF 0(2) rem])
  then show ?case using 0(1) [of r1] by (simp add: n del: bitReaderReadBit.simps)
next
  case (Suc k)
  obtain m where n: "n = Suc m" "k < m" using Suc.prems(4) by (cases n) auto
  have rem: "remaining r = False # replicate k False @ True # bs" using Suc.prems(3) by simp
  obtain r1 where r1: "bitReaderReadBit (Some r) True = Some (STATUS_SUCCESS, Some (of_bool False), Some r1)" "reader_ok r1"
    "remaining r1 = replicate k False @ True # bs"
    by (rule readBit_next [OF Suc.prems(2) rem])
  obtain r' where "leadingZeros m (Some r1) = Some (STATUS_SUCCESS, Some k, Some r')" "reader_ok r'" "remaining r' = bs"
    by (rule Suc.IH [OF _ r1(2,3) n(2)])
  then show ?case using Suc.prems(1) [of r'] r1(1) by (simp add: n(1) del: bitReaderReadBit.simps)
qed

text \<open>The code of a number: as many zeros as the binary digits of its successor behind the first, then these digits.\<close>

fun binary :: "nat \<Rightarrow> nat \<Rightarrow> bool list" where
  "binary 0 v = []"
| "binary (Suc k) v = binary k (v div 2) @ [odd v]"

fun digits :: "nat \<Rightarrow> nat" where
  "digits v = (if v < 2 then 0 else Suc (digits (v div 2)))"

definition ue_code :: "nat \<Rightarrow> bool list" where
  "ue_code v = replicate (digits (v + 1)) False @ True # binary (digits (v + 1)) (v + 1)"

definition se_code :: "int \<Rightarrow> bool list" where
  "se_code x = ue_code (nat (if 0 < x then 2 * x - 1 else - 2 * x))"

lemma length_binary [simp]: "length (binary k v) = k"
  by (induction k arbitrary: v) simp_all

lemma bits_val_snoc: "bits_val (bs @ [b]) = 2 * bits_val bs + of_bool b"
  by (induction bs) simp_all

lemma bits_val_binary: "bits_val (binary k v) = v mod 2 ^ k"
proof (induction k arbitrary: v)
  case (Suc k)
  have "bits_val (binary (Suc k) v) = 2 * (v div 2 mod 2 ^ k) + of_bool (odd v)" by (simp add: bits_val_snoc Suc)
  also have "\<dots> = v mod 2 ^ Suc k" by (simp add: mod_mult2_eq odd_iff_mod_2_eq_one mod2_eq_if)
  finally show ?case .
qed simp

declare digits.simps [simp del]

lemma digits_bounds: "0 < v \<Longrightarrow> 2 ^ digits v \<le> v \<and> v < 2 ^ Suc (digits v)"
proof (induction v rule: digits.induct)
  case (1 v)
  show ?case
  proof (cases "v < 2")
    case True
    then have "digits v = 0" "v = 1" using 1(2) digits.simps [of v] by auto
    then show ?thesis by simp
  next
    case False
    then have "2 ^ digits (v div 2) \<le> v div 2 \<and> v div 2 < 2 ^ Suc (digits (v div 2))" using 1(1) by simp
    then have "2 * 2 ^ digits (v div 2) \<le> v \<and> v < 2 * 2 ^ Suc (digits (v div 2))" by presburger
    moreover have "digits v = Suc (digits (v div 2))" using False digits.simps [of v] by simp
    ultimately show ?thesis by (simp only: power_Suc)
  qed
qed

lemma readExpGolomb_code:
  assumes ok: "reader_ok r" and rem: "remaining r = ue_code v @ rest" and v: "v < 2 ^ 32 - 1"
  obtains r' where "bitReaderReadExpGolomb (Some r) True = Some (STATUS_SUCCESS, Some (of_nat v), Some r')" "reader_ok r'" "remaining r' = rest"
proof -
  let ?k = "digits (v + 1)"
  have b: "2 ^ ?k \<le> v + 1" "v + 1 < 2 ^ Suc ?k" using digits_bounds [of "v + 1"] by simp_all
  have "(2 :: nat) ^ ?k < 2 ^ 32" using b(1) v by simp
  then have k: "?k < 32" using power_less_imp_less_exp [of 2 ?k 32] by simp
  have rem': "remaining r = replicate ?k False @ True # (binary ?k (v + 1) @ rest)" using rem by (simp add: ue_code_def)
  obtain r1 where r1: "leadingZeros 32 (Some r) = Some (STATUS_SUCCESS, Some ?k, Some r1)" "reader_ok r1"
    "remaining r1 = binary ?k (v + 1) @ rest"
    by (rule leadingZeros_ok [OF ok rem' k])
  have len: "?k \<le> length (remaining r1)" using r1(3) by simp
  obtain r2 where r2: "readBitsLoop ?k 0 (Some r1) = Some (STATUS_SUCCESS, Some (0 OR of_nat (bits_val (take ?k (remaining r1)))), Some r2)"
    "reader_ok r2" "remaining r2 = drop ?k (remaining r1)"
    by (rule readBitsLoop_ok [OF r1(2) len])
  have val: "bits_val (take ?k (remaining r1)) = v + 1 - 2 ^ ?k"
    using r1(3) b by (simp add: bits_val_binary) (simp add: mod_if le_mod_geq)
  have u: "unat (of_nat ?k :: UINT32) = ?k" "(of_nat ?k :: UINT32) \<le> 32"
    using k by (simp_all add: unat_of_nat word_le_nat_alt)
  have sh: "ucast (push_bit ?k 1 :: UINT64) = (of_nat (2 ^ ?k) :: UINT32)"
    by (rule bit_word_eqI) (auto simp: bit_simps)
  have "(of_nat (v + 1 - 2 ^ ?k) :: UINT32) + of_nat (2 ^ ?k) - 1 = of_nat v"
  proof -
    have "(of_nat (v + 1 - 2 ^ ?k) :: UINT32) + of_nat (2 ^ ?k) = of_nat (v + 1 - 2 ^ ?k + 2 ^ ?k)" by (simp only: of_nat_add)
    also have "\<dots> = of_nat (v + 1)" using b(1) by (simp only: le_add_diff_inverse2)
    finally show ?thesis by simp
  qed
  then have "bitReaderReadExpGolomb (Some r) True = Some (STATUS_SUCCESS, Some (of_nat v), Some r2)"
    unfolding bitReaderReadExpGolomb_def bitReaderReadBits_def
    by (simp only: r1(1) u r2(1) val sh Let_def option.case prod.case if_False not_True_eq_False not_False_eq_True simp_thms or.left_neutral)
  then show thesis using that r2(2,3) r1(3) by simp
qed

lemma ucast_neg_ucast: "(ucast (- (ucast w :: UINT64)) :: UINT32) = - w"
  by transfer (simp add: take_bit_minus min_def)

lemma and_one_nonzero: "(of_nat v AND 0x01 :: UINT32) \<noteq> 0 \<longleftrightarrow> odd v"
  by (simp add: and_one_eq odd_iff_mod_2_eq_one [symmetric] even_iff_mod_2_eq_zero [symmetric])

lemma readExpGolombSe_code:
  assumes ok: "reader_ok r" and rem: "remaining r = se_code x @ rest" and x: "\<bar>x\<bar> < 2 ^ 31"
  obtains r' where "bitReaderReadExpGolombSe (Some r) True = Some (STATUS_SUCCESS, Some (of_int x), Some r')" "reader_ok r'" "remaining r' = rest"
proof -
  let ?v = "nat (if 0 < x then 2 * x - 1 else - 2 * x)"
  have v: "?v < 2 ^ 32 - 1" using x by auto
  have rem': "remaining r = ue_code ?v @ rest" using rem by (simp add: se_code_def)
  obtain r' where r': "bitReaderReadExpGolomb (Some r) True = Some (STATUS_SUCCESS, Some (of_nat ?v), Some r')" "reader_ok r'" "remaining r' = rest"
    by (rule readExpGolomb_code [OF ok rem' v])
  have odd: "(of_nat ?v AND 0x01 :: UINT32) \<noteq> 0 \<longleftrightarrow> 0 < x"
  proof -
    have "even ?v \<longleftrightarrow> \<not> 0 < x" by (auto simp: even_nat_iff)
    then show ?thesis unfolding and_one_nonzero by simp
  qed
  have half: "(of_nat n :: UINT32) div 2 = of_nat (n div 2)" if "n < 2 ^ 32" for n
    using that by (simp add: word_unat_eq_iff unat_div unat_of_nat)
  have val: "(if (of_nat ?v AND 0x01 :: UINT32) \<noteq> 0 then (of_nat ?v + 1) div 2
      else ucast (- (ucast (of_nat ?v div 2 :: UINT32) :: UINT64))) = (of_int x :: UINT32)"
  proof (cases "0 < x")
    case True
    have "(of_nat ?v + 1 :: UINT32) div 2 = of_nat ((?v + 1) div 2)" using half [of "?v + 1"] v by (simp add: add.commute)
    also have "(?v + 1) div 2 = nat x" using True by simp
    also have "of_nat (nat x) = (of_int x :: UINT32)" using True by simp
    finally show ?thesis using odd True by (simp only: if_True)
  next
    case False
    have "(of_nat ?v :: UINT32) div 2 = of_nat (?v div 2)" using half [of ?v] v by simp
    also have "?v div 2 = nat (- x)" using False by (simp add: nat_mult_distrib)
    finally show ?thesis using odd False by (simp add: ucast_neg_ucast)
  qed
  have "bitReaderReadExpGolombSe (Some r) True = Some (STATUS_SUCCESS, Some (of_int x), Some r')"
    unfolding bitReaderReadExpGolombSe_def
    by (simp only: r'(1) val option.case prod.case simp_thms if_False)
  then show thesis using that r'(2,3) by blast
qed

subsection \<open>The bit field as an array of booleans\<close>

definition field_ok :: "BitField \<Rightarrow> bool" where
  "field_ok f \<longleftrightarrow> unat (bf_itemCount f) \<le> 8 * length (bf_bits f) \<and> length (bf_bits f) = unat (GET_BYTE_COUNT_FOR_BITS (bf_itemCount f))"

definition field_bits :: "BitField \<Rightarrow> bool list" where
  "field_bits f = take (unat (bf_itemCount f)) (bits_of (bf_bits f))"

lemma length_field_bits: "field_ok f \<Longrightarrow> length (field_bits f) = unat (bf_itemCount f)"
  by (simp add: field_ok_def field_bits_def)

lemma bit_high: "bit (0x80 :: BYTE) k \<longleftrightarrow> k = 7"
  using bit_exp_iff [of 7 k, where 'a = "8 word"] by auto

lemma bit_bitMask: "bit (bitMask i) n \<longleftrightarrow> n = 7 - unat i mod 8"
proof -
  have m: "unat (i mod 8) = unat i mod 8" by (simp add: unat_mod)
  have "unat i mod 8 < 8" by simp
  then show ?thesis unfolding bitMask_def m bit_drop_bit_eq comp_def bit_high by linarith
qed

lemma bit_index:
  assumes ok: "field_ok f" and i: "index < bf_itemCount f"
  shows "unat index < 8 * length (bf_bits f)" "unat (drop_bit 3 index) = unat index div 8"
    "unat index div 8 < length (bf_bits f)" "unat index < length (field_bits f)"
proof -
  show 1: "unat index < 8 * length (bf_bits f)" using ok i by (auto simp: field_ok_def word_less_nat_alt)
  show "unat (drop_bit 3 index) = unat index div 8" by (simp add: drop_bit_eq_div unat_div)
  show "unat index div 8 < length (bf_bits f)" using 1 by (simp add: less_mult_imp_div_less mult.commute)
  show "unat index < length (field_bits f)" using i by (simp add: length_field_bits [OF ok] word_less_nat_alt)
qed

lemma bitFieldGet_bit:
  assumes ok: "field_ok f" and i: "index < bf_itemCount f"
  shows "bitFieldGet (Some f) index True = Some (STATUS_SUCCESS, Some (field_bits f ! unat index))"
proof -
  note idx = bit_index [OF assms]
  have "(bf_bits f ! (unat index div 8) AND bitMask index \<noteq> 0) = bit (bf_bits f ! (unat index div 8)) (7 - unat index mod 8)"
    by (auto simp: bit_eq_iff [of "_ AND _" 0] bit_and_iff bit_bitMask)
  moreover have "field_bits f ! unat index = bits_of (bf_bits f) ! unat index"
    using i by (simp add: field_bits_def word_less_nat_alt)
  ultimately show ?thesis using i idx by (simp add: Let_def nth_bits_of)
qed

lemma bitFieldSet_bits:
  assumes ok: "field_ok f" and i: "index < bf_itemCount f"
  obtains f' where "bitFieldSet (Some f) index b = Some (STATUS_SUCCESS, Some f')" "field_ok f'"
    "field_bits f' = (field_bits f)[unat index := b]" "bf_itemCount f' = bf_itemCount f"
proof -
  note idx = bit_index [OF assms]
  let ?n = "unat index div 8" and ?byte = "bf_bits f ! (unat index div 8)"
  let ?byte' = "if b then ?byte OR bitMask index else ?byte AND NOT (bitMask index)"
  let ?f = "f\<lparr>bf_bits := (bf_bits f)[?n := ?byte']\<rparr>"
  have run: "bitFieldSet (Some f) index b = Some (STATUS_SUCCESS, Some ?f)" using i idx by (simp add: Let_def)
  have ok': "field_ok ?f" using ok by (simp add: field_ok_def)
  have byte: "bit ?byte' k = (if k = 7 - unat index mod 8 then b else bit ?byte k)" if "k < 8" for k
    using that by (simp add: bit_simps bit_bitMask)
  have "bits_of ((bf_bits f)[?n := ?byte']) = (bits_of (bf_bits f))[unat index := b]"
  proof (rule nth_equalityI)
    fix k assume k: "k < length (bits_of ((bf_bits f)[?n := ?byte']))"
    have "(k div 8 = ?n \<and> 7 - k mod 8 = 7 - unat index mod 8) = (k = unat index)"
    proof -
      have "7 - k mod 8 = 7 - unat index mod 8 \<longleftrightarrow> k mod 8 = unat index mod 8"
        using mod_less_divisor [of 8 k] mod_less_divisor [of 8 "unat index"] by linarith
      then show ?thesis by (metis div_mult_mod_eq)
    qed
    then show "bits_of ((bf_bits f)[?n := ?byte']) ! k = (bits_of (bf_bits f))[unat index := b] ! k"
      using k byte [of "7 - k mod 8"] idx by (cases "k div 8 = ?n") (auto simp: nth_bits_of nth_list_update)
  qed simp
  then have "field_bits ?f = (field_bits f)[unat index := b]" by (simp add: field_bits_def take_update_swap)
  then show thesis using that run ok' by simp
qed

lemma byte_count:
  assumes "n \<le> 2 ^ 32 - 8"
  shows "unat (GET_BYTE_COUNT_FOR_BITS n) = (unat n + 7) div 8"
proof -
  have "unat (n + 7) = unat n + 7" using assms by (simp add: unat_word_ariths word_le_nat_alt)
  moreover have "drop_bit 3 (x AND NOT 7) = drop_bit 3 (x :: UINT32)" for x
  proof (rule bit_word_eqI)
    fix k
    have m: "(7 :: UINT32) = mask 3" by (simp add: mask_eq_exp_minus_1)
    show "bit (drop_bit 3 (x AND NOT 7)) k = bit (drop_bit 3 x) k"
      unfolding m bit_drop_bit_eq comp_def bit_and_iff bit_not_iff bit_mask_iff by (auto dest: bit_imp_le_length)
  qed
  ultimately show ?thesis unfolding GET_BYTE_COUNT_FOR_BITS_def by (simp add: drop_bit_eq_div unat_div)
qed

lemma bits_of_replicate:
  assumes "byte_bits b = replicate 8 v"
  shows "bits_of (replicate k b) = replicate (8 * k) v"
proof (induction k)
  case (Suc k)
  have "bits_of (replicate (Suc k) b) = replicate 8 v @ bits_of (replicate k b)" by (simp add: bits_of_def assms)
  then show ?case using Suc by (simp only: replicate_add [symmetric] mult_Suc_right)
qed (simp add: bits_of_def)

lemma byte_bits_const: "byte_bits (if v then 0xff else 0) = replicate 8 v"
proof -
  have "byte_bits 0 = replicate 8 False" "byte_bits 0xff = replicate 8 True" by code_simp+
  then show ?thesis by simp
qed

text \<open>A field all of whose bytes have been set to the same bit.\<close>

lemma field_const:
  assumes "n \<le> 2 ^ 32 - 8" "bf_itemCount f = n"
    and "bf_bits f = replicate (unat (GET_BYTE_COUNT_FOR_BITS n)) (if v then 0xff else 0)"
  shows "field_ok f" "field_bits f = replicate (unat n) v"
proof -
  have "unat n \<le> 8 * ((unat n + 7) div 8)" by presburger
  then show "field_ok f" "field_bits f = replicate (unat n) v"
    using assms byte_count [OF assms(1)] by (simp_all add: field_ok_def field_bits_def bits_of_replicate [OF byte_bits_const] min_def del: if_split)
qed

subsection \<open>Properties\<close>

text \<open>C22. Reading bits: a reader over a buffer that holds its bits returns, for at most 32 of them, the number that the next bits
  denote, most significant first, and moves behind them; when fewer are left it reports the end without having
  looked outside the buffer, and a longer request is refused without effect.\<close>

theorem bitReaderReadBits_correct:
  assumes ok: "reader_ok r"
  shows "if 32 < n then bitReaderReadBits (Some r) n True = Some (STATUS_BIT_READER_INVALID_SIZE, None, Some r)
    else if unat n \<le> length (remaining r) then
      \<exists>r'. bitReaderReadBits (Some r) n True = Some (STATUS_SUCCESS, Some (of_nat (bits_val (take (unat n) (remaining r)))), Some r') \<and>
        reader_ok r' \<and> remaining r' = drop (unat n) (remaining r)
    else \<exists>r'. bitReaderReadBits (Some r) n True = Some (STATUS_BIT_READER_OUT_OF_RANGE, None, Some r') \<and>
        reader_ok r' \<and> remaining r' = []"
proof -
  have run: "bitReaderReadBits (Some r) n True = (if 32 < n then Some (STATUS_BIT_READER_INVALID_SIZE, None, Some r)
      else readBitsLoop (unat n) 0 (Some r))"
    by (simp add: bitReaderReadBits_def not_le)
  show ?thesis
  proof (cases "unat n \<le> length (remaining r)")
    case True
    obtain r' where "readBitsLoop (unat n) 0 (Some r) = Some (STATUS_SUCCESS, Some (0 OR of_nat (bits_val (take (unat n) (remaining r)))), Some r')"
      "reader_ok r'" "remaining r' = drop (unat n) (remaining r)"
      by (rule readBitsLoop_ok [OF ok True])
    then show ?thesis using True unfolding run by simp
  next
    case False
    then show ?thesis using readBitsLoop_short [OF ok, of "unat n" 0] unfolding run by simp
  qed
qed

theorem bitReaderReadBits_correct_witness:
  "\<exists>r'. bitReaderReadBits (Some \<lparr>br_buffer = [0xB0, 1], br_bitBufferSize = 16, br_currentBit = 1\<rparr>) 3 True =
      Some (STATUS_SUCCESS, Some 3, Some r') \<and> reader_ok r'"
  using bitReaderReadBits_correct [of "\<lparr>br_buffer = [0xB0, 1], br_bitBufferSize = 16, br_currentBit = 1\<rparr>" 3]
  by (simp add: reader_ok_def remaining_def bits_of_def byte_bits_def upt_rec bit_iff_odd drop_Cons') auto

text \<open>C23. Exp-Golomb round trip: the unsigned reader returns every number below \<open>2 ^ 32 - 1\<close> from its Exp-Golomb code, and the
  signed one every number of absolute value below \<open>2 ^ 31\<close>; both leave what follows the code.\<close>

theorem expGolomb_roundtrip:
  assumes ok: "reader_ok r"
  shows "(remaining r = ue_code v @ rest \<and> v < 2 ^ 32 - 1 \<longrightarrow>
      (\<exists>r'. bitReaderReadExpGolomb (Some r) True = Some (STATUS_SUCCESS, Some (of_nat v), Some r') \<and> reader_ok r' \<and> remaining r' = rest)) \<and>
    (remaining r = se_code x @ rest \<and> \<bar>x\<bar> < 2 ^ 31 \<longrightarrow>
      (\<exists>r'. bitReaderReadExpGolombSe (Some r) True = Some (STATUS_SUCCESS, Some (of_int x), Some r') \<and> reader_ok r' \<and> remaining r' = rest))"
  by (intro conjI impI; elim conjE) (erule readExpGolomb_code [OF ok], assumption, blast, erule readExpGolombSe_code [OF ok], assumption, blast)

theorem expGolomb_roundtrip_witness:
  "\<exists>r'. bitReaderReadExpGolombSe (Some \<lparr>br_buffer = [0x28], br_bitBufferSize = 8, br_currentBit = 0\<rparr>) True =
      Some (STATUS_SUCCESS, Some (- 2), Some r') \<and> remaining r' = [False, False, False]"
proof -
  let ?r = "\<lparr>br_buffer = [0x28], br_bitBufferSize = 8, br_currentBit = 0\<rparr>"
  have "remaining ?r = se_code (- 2) @ [False, False, False]" by code_simp
  then show ?thesis using expGolomb_roundtrip [of ?r 4 "[False, False, False]" "- 2"] by (auto simp: reader_ok_def)
qed

text \<open>The bit field is an array of booleans: a field created for at most \<open>2 ^ 32 - 8\<close> items has that many cleared bits, a reset
  gives every bit the same value, setting a bit changes this bit only, reading returns it, and an index outside
  the field is refused without effect.\<close>

theorem bitField_array:
  assumes n: "n \<noteq> 0" "n \<le> 2 ^ 32 - 8"
  shows "(\<exists>f. bitFieldCreate n True True = (STATUS_SUCCESS, Some f) \<and> field_ok f \<and> field_bits f = replicate (unat n) False) \<and>
    (field_ok f \<and> bf_itemCount f = n \<longrightarrow>
      (\<exists>f'. bitFieldReset (Some f) v = (STATUS_SUCCESS, Some f') \<and> field_ok f' \<and> field_bits f' = replicate (unat n) v) \<and>
      (if index < n then
         bitFieldGet (Some f) index True = Some (STATUS_SUCCESS, Some (field_bits f ! unat index)) \<and>
         (\<exists>f'. bitFieldSet (Some f) index v = Some (STATUS_SUCCESS, Some f') \<and> field_ok f' \<and> bf_itemCount f' = n \<and>
            field_bits f' = (field_bits f)[unat index := v])
       else bitFieldGet (Some f) index True = Some (STATUS_INVALID_ARG, None) \<and>
         bitFieldSet (Some f) index v = Some (STATUS_INVALID_ARG, Some f)))" (is "?create \<and> (_ \<longrightarrow> ?reset \<and> ?access)")
proof (intro conjI impI; (elim conjE)?)
  show ?create
    using n(1) field_const [OF n(2), of _ False] by (auto simp: bitFieldCreate_def)
next
  assume ok: "field_ok f" and f: "bf_itemCount f = n"
  show ?reset using ok f field_const [OF n(2), of "f\<lparr>bf_bits := replicate (unat (GET_BYTE_COUNT_FOR_BITS n)) (if v then 0xff else 0)\<rparr>" v]
    by (auto simp: Let_def field_ok_def)
next
  assume ok: "field_ok f" and f: "bf_itemCount f = n"
  show ?access
  proof (cases "index < n")
    case True
    then have i: "index < bf_itemCount f" using f by simp
    obtain f' where "bitFieldSet (Some f) index v = Some (STATUS_SUCCESS, Some f')" "field_ok f'"
      "field_bits f' = (field_bits f)[unat index := v]" "bf_itemCount f' = bf_itemCount f"
      by (rule bitFieldSet_bits [OF ok i])
    then show ?thesis using True f bitFieldGet_bit [OF ok i] by simp
  qed (simp add: f)
qed

theorem bitField_array_witness:
  "\<exists>f f'. bitFieldCreate 9 True True = (STATUS_SUCCESS, Some f) \<and> bitFieldSet (Some f) 8 True = Some (STATUS_SUCCESS, Some f') \<and>
    field_bits f' = (replicate 9 False)[8 := True]"
proof -
  obtain f where f: "bitFieldCreate 9 True True = (STATUS_SUCCESS, Some f)" "field_ok f" "field_bits f = replicate 9 False"
    using bitField_array [of 9 undefined True 0] by (auto simp del: bitFieldSet.simps)
  moreover have "bf_itemCount f = 9" using f(1) by (auto simp: bitFieldCreate_def)
  ultimately show ?thesis using bitField_array [of 9 f True 8] by (auto simp del: bitFieldSet.simps)
qed

end
