(* ===== verification/CommonHeap.thy ===== *)
theory CommonHeap
  imports Prelude "HOL-Library.Monad_Syntax"
begin

text \<open>
  The base of the heaps: \<open>Common.c\<close>, and the public entry points of \<open>Heap.c\<close> that dispatch through the table of functions in
  \<open>BaseHeap\<close>. Heaps extend the record \<open>Heap\<close>, as the structures in the code embed it. The build without \<open>HEAP_DEBUG\<close> is modelled.

  A handle pointer is an \<open>option\<close> (\<open>None\<close> is \<open>NULL\<close>); the result of an operation is \<open>None\<close> when a fatal assertion fails or
  memory is accessed outside of the allocation that backs the heap.
\<close>

type_synonym ALLOCATION_HANDLE = UINT64

definition INVALID_ALLOCATION_HANDLE_VALUE :: ALLOCATION_HANDLE where "INVALID_ALLOCATION_HANDLE_VALUE = 0"

definition IS_VALID_ALLOCATION_HANDLE :: "ALLOCATION_HANDLE \<Rightarrow> bool" where
  "IS_VALID_ALLOCATION_HANDLE h \<longleftrightarrow> h \<noteq> INVALID_ALLOCATION_HANDLE_VALUE"

definition INVALID_ALLOCATION_VALUE :: UINT64 where "INVALID_ALLOCATION_VALUE = - 1"
definition MIN_HEAP_SIZE :: UINT64 where "MIN_HEAP_SIZE = 1 * 1024 * 1024"
definition MAX_HEAP_SIZE :: UINT64 where "MAX_HEAP_SIZE = 1 * 1024 * 1024 * 1024 * 1024"
definition MAX_ALLOCATION_SIZE :: UINT64 where "MAX_ALLOCATION_SIZE = 0x0FFFFFFFFFFFFFFF"

record Heap =
  heapLimit :: UINT64
  heapSize :: UINT64
  numAlloc :: UINT64

text \<open>The functions of a heap. The address of a mapped allocation is the pointer itself.\<close>

record 'h BaseHeap =
  heapGetSizeFn :: "'h option \<Rightarrow> bool \<Rightarrow> STATUS \<times> UINT64 option"
  heapAllocFn :: "'h option \<Rightarrow> UINT64 \<Rightarrow> bool \<Rightarrow> (STATUS \<times> ALLOCATION_HANDLE option \<times> 'h option) option"
  heapFreeFn :: "'h option \<Rightarrow> ALLOCATION_HANDLE \<Rightarrow> (STATUS \<times> 'h option) option"
  heapGetAllocSizeFn :: "'h option \<Rightarrow> ALLOCATION_HANDLE \<Rightarrow> bool \<Rightarrow> (STATUS \<times> UINT64 option) option"
  heapSetAllocSizeFn ::
    "'h option \<Rightarrow> ALLOCATION_HANDLE option \<Rightarrow> UINT64 \<Rightarrow> UINT64 \<Rightarrow> (STATUS \<times> ALLOCATION_HANDLE option \<times> 'h option) option"
  heapMapFn :: "'h option \<Rightarrow> ALLOCATION_HANDLE \<Rightarrow> bool \<Rightarrow> bool \<Rightarrow> (STATUS \<times> UINT64 option \<times> UINT64 option) option"
  heapUnmapFn :: "'h option \<Rightarrow> UINT64 \<Rightarrow> STATUS"
  heapDebugCheckAllocatorFn :: "'h option \<Rightarrow> STATUS option"
  getAllocationSizeFn :: "'h \<Rightarrow> ALLOCATION_HANDLE \<Rightarrow> UINT64 option"
  getAllocationHeaderSizeFn :: UINT64
  getAllocationFooterSizeFn :: UINT64
  getAllocationAlignedSizeFn :: "UINT64 \<Rightarrow> UINT64"
  getHeapLimitsFn :: "UINT64 \<times> UINT64"

subsection \<open>Common.c\<close>

definition validateHeap :: "'x Heap_scheme option \<Rightarrow> STATUS" where
  "validateHeap pHeap = STATUS_SUCCESS"

definition commonHeapDebugCheckAllocator :: "'x Heap_scheme option \<Rightarrow> STATUS" where
  "commonHeapDebugCheckAllocator pHeap =
     (case pHeap of None \<Rightarrow> STATUS_NULL_ARG
      | Some h \<Rightarrow> if \<not> heapLimit h \<ge> heapSize h then STATUS_INTERNAL_ERROR else STATUS_SUCCESS)"

text \<open>The object is zeroed; \<open>calloc\<close> is its allocation, \<open>None\<close> when it fails.\<close>

definition commonHeapCreate :: "bool \<Rightarrow> UINT32 \<Rightarrow> 'x Heap_scheme option \<Rightarrow> STATUS \<times> 'x Heap_scheme option" where
  "commonHeapCreate ppHeap objectSize calloc =
     (if \<not> (ppHeap \<and> objectSize \<noteq> 0) then (STATUS_INVALID_ARG, None)
      else case calloc of None \<Rightarrow> (STATUS_NOT_ENOUGH_MEMORY, None) | Some h \<Rightarrow> (STATUS_SUCCESS, Some h))"

definition commonHeapInit :: "UINT64 \<times> UINT64 \<Rightarrow> 'x Heap_scheme option \<Rightarrow> UINT64 \<Rightarrow> STATUS \<times> 'x Heap_scheme option" where
  "commonHeapInit limits pHeap limit =
     (case pHeap of None \<Rightarrow> (STATUS_NULL_ARG, None)
      | Some h \<Rightarrow>
          case limits of (minHeapSize, maxHeapSize) \<Rightarrow>
            if \<not> (limit \<ge> minHeapSize \<and> limit \<le> maxHeapSize) then (STATUS_INVALID_ARG, Some h)
            else (STATUS_SUCCESS, Some (h\<lparr>heapLimit := limit, heapSize := 0, numAlloc := 0\<rparr>)))"

definition commonHeapRelease :: "'x Heap_scheme option \<Rightarrow> STATUS \<times> 'x Heap_scheme option" where
  "commonHeapRelease pHeap =
     (case pHeap of None \<Rightarrow> (STATUS_NULL_ARG, None)
      | Some h \<Rightarrow> (STATUS_SUCCESS, Some (h\<lparr>heapLimit := 0, heapSize := 0, numAlloc := 0\<rparr>)))"

definition commonHeapGetSize :: "'x Heap_scheme option \<Rightarrow> bool \<Rightarrow> STATUS \<times> UINT64 option" where
  "commonHeapGetSize pHeap pHeapSize =
     (case pHeap of None \<Rightarrow> (STATUS_NULL_ARG, None)
      | Some h \<Rightarrow>
          if \<not> pHeapSize then (STATUS_NULL_ARG, None)
          else if heapLimit h = 0 then (STATUS_HEAP_NOT_INITIALIZED, None)
          else (STATUS_SUCCESS, Some (heapSize h)))"

definition commonHeapGetAllocSize :: "'x Heap_scheme option \<Rightarrow> ALLOCATION_HANDLE \<Rightarrow> bool \<Rightarrow> STATUS" where
  "commonHeapGetAllocSize pHeap handle pAllocSize =
     (case pHeap of None \<Rightarrow> STATUS_NULL_ARG
      | Some h \<Rightarrow>
          if \<not> pAllocSize then STATUS_NULL_ARG
          else if handle = INVALID_ALLOCATION_HANDLE_VALUE then STATUS_INVALID_ARG
          else if heapLimit h = 0 then STATUS_HEAP_NOT_INITIALIZED
          else validateHeap pHeap)"

definition commonHeapSetAllocSize ::
  "'x Heap_scheme option \<Rightarrow> ALLOCATION_HANDLE option \<Rightarrow> UINT64 \<Rightarrow> UINT64 \<Rightarrow> STATUS \<times> 'x Heap_scheme option" where
  "commonHeapSetAllocSize pHeap pHandle oldSize newSize =
     (case (pHeap, pHandle) of
        (Some h, Some handle) \<Rightarrow>
          if handle = INVALID_ALLOCATION_HANDLE_VALUE then (STATUS_INVALID_ARG, Some h)
          else if heapLimit h = 0 then (STATUS_HEAP_NOT_INITIALIZED, Some h)
          else if \<not> (newSize > 0 \<and> newSize < MAX_ALLOCATION_SIZE) then (STATUS_INVALID_ALLOCATION_SIZE, Some h)
          else if newSize > oldSize then
            let diff = newSize - oldSize
            in if \<not> diff + heapSize h \<le> heapLimit h then (STATUS_NOT_ENOUGH_MEMORY, Some h)
               else let h' = h\<lparr>heapSize := heapSize h + diff\<rparr> in (validateHeap (Some h'), Some h')
          else
            let diff = oldSize - newSize;
                h' = (if heapSize h \<le> diff then h\<lparr>heapSize := 0\<rparr> else h\<lparr>heapSize := heapSize h - diff\<rparr>)
            in (validateHeap (Some h'), Some h')
      | _ \<Rightarrow> (STATUS_NULL_ARG, pHeap))"

definition incrementUsage :: "'x Heap_scheme \<Rightarrow> UINT64 \<Rightarrow> 'x Heap_scheme" where
  "incrementUsage h overallSize = h\<lparr>heapSize := heapSize h + overallSize, numAlloc := numAlloc h + 1\<rparr>"

definition decrementUsage :: "'x Heap_scheme \<Rightarrow> UINT64 \<Rightarrow> 'x Heap_scheme" where
  "decrementUsage h overallSize =
     (let h' = (if heapSize h \<le> overallSize then h\<lparr>heapSize := 0\<rparr> else h\<lparr>heapSize := heapSize h - overallSize\<rparr>)
      in h'\<lparr>numAlloc := numAlloc h' - 1\<rparr>)"

definition commonHeapAlloc ::
  "UINT64 \<Rightarrow> (UINT64 \<Rightarrow> UINT64) \<Rightarrow> UINT64 \<Rightarrow> 'x Heap_scheme option \<Rightarrow> UINT64 \<Rightarrow> bool \<Rightarrow>
    STATUS \<times> ALLOCATION_HANDLE option \<times> 'x Heap_scheme option" where
  "commonHeapAlloc headerSize alignedSize footerSize pHeap sz pHandle =
     (case pHeap of None \<Rightarrow> (STATUS_NULL_ARG, None, None)
      | Some h \<Rightarrow>
          if \<not> pHandle then (STATUS_NULL_ARG, None, Some h)
          else
            let handle = Some INVALID_ALLOCATION_HANDLE_VALUE
            in if \<not> (sz > 0 \<and> sz < MAX_ALLOCATION_SIZE) then (STATUS_INVALID_ALLOCATION_SIZE, handle, Some h)
               else if heapLimit h = 0 then (STATUS_HEAP_NOT_INITIALIZED, handle, Some h)
               else
                 let overallSize = headerSize + alignedSize sz + footerSize
                 in if \<not> overallSize + heapSize h \<le> heapLimit h then (STATUS_NOT_ENOUGH_MEMORY, handle, Some h)
                    else (validateHeap (Some h), handle, Some (incrementUsage h overallSize)))"

definition commonHeapFree ::
  "('x Heap_scheme \<Rightarrow> ALLOCATION_HANDLE \<Rightarrow> UINT64 option) \<Rightarrow> 'x Heap_scheme option \<Rightarrow> ALLOCATION_HANDLE \<Rightarrow>
    (STATUS \<times> 'x Heap_scheme option) option" where
  "commonHeapFree allocationSize pHeap handle =
     (case pHeap of None \<Rightarrow> Some (STATUS_NULL_ARG, None)
      | Some h \<Rightarrow>
          if handle = INVALID_ALLOCATION_HANDLE_VALUE then Some (STATUS_INVALID_ARG, Some h)
          else if heapLimit h = 0 then Some (STATUS_HEAP_NOT_INITIALIZED, Some h)
          else do {
            overallSize \<leftarrow> allocationSize h handle;
            if \<not> (overallSize \<noteq> INVALID_ALLOCATION_VALUE \<and> heapSize h \<ge> overallSize) then Some (STATUS_HEAP_CORRUPTED, Some h)
            else Some (validateHeap (Some h), Some (decrementUsage h overallSize))
          })"

text \<open>The two out pointers of a mapping; \<open>Some 0\<close> is what is written before the checks.\<close>

definition commonHeapMap :: "'x Heap_scheme option \<Rightarrow> ALLOCATION_HANDLE \<Rightarrow> bool \<Rightarrow> bool \<Rightarrow> STATUS \<times> UINT64 option \<times> UINT64 option" where
  "commonHeapMap pHeap handle ppAllocation pSize =
     (case pHeap of None \<Rightarrow> (STATUS_NULL_ARG, None, None)
      | Some h \<Rightarrow>
          if \<not> (ppAllocation \<and> pSize) then (STATUS_NULL_ARG, None, None)
          else if handle = INVALID_ALLOCATION_HANDLE_VALUE then (STATUS_INVALID_ARG, None, None)
          else if heapLimit h = 0 then (STATUS_HEAP_NOT_INITIALIZED, Some 0, Some 0)
          else (validateHeap pHeap, Some 0, Some 0))"

definition commonHeapUnmap :: "'x Heap_scheme option \<Rightarrow> UINT64 \<Rightarrow> STATUS" where
  "commonHeapUnmap pHeap pAllocation =
     (case pHeap of None \<Rightarrow> STATUS_NULL_ARG
      | Some h \<Rightarrow>
          if pAllocation = 0 then STATUS_NULL_ARG
          else if heapLimit h = 0 then STATUS_HEAP_NOT_INITIALIZED
          else validateHeap pHeap)"

subsection \<open>Heap.c\<close>

definition heapDebugCheckAllocator :: "'h BaseHeap \<Rightarrow> 'h option \<Rightarrow> STATUS option" where
  "heapDebugCheckAllocator fns pHeap = (if pHeap = None then Some STATUS_NULL_ARG else heapDebugCheckAllocatorFn fns pHeap)"

definition heapGetSize :: "'h BaseHeap \<Rightarrow> 'h option \<Rightarrow> bool \<Rightarrow> STATUS \<times> UINT64 option" where
  "heapGetSize fns pHeap pHeapSize =
     (if pHeap = None \<or> \<not> pHeapSize then (STATUS_NULL_ARG, None) else heapGetSizeFn fns pHeap pHeapSize)"

definition heapAlloc :: "'h BaseHeap \<Rightarrow> 'h option \<Rightarrow> UINT64 \<Rightarrow> bool \<Rightarrow> (STATUS \<times> ALLOCATION_HANDLE option \<times> 'h option) option" where
  "heapAlloc fns pHeap sz pHandle =
     (if pHeap = None \<or> \<not> pHandle then Some (STATUS_NULL_ARG, None, pHeap)
      else if sz = 0 then Some (STATUS_INVALID_ARG, None, pHeap)
      else heapAllocFn fns pHeap sz pHandle)"

definition heapFree :: "'h BaseHeap \<Rightarrow> 'h option \<Rightarrow> ALLOCATION_HANDLE \<Rightarrow> (STATUS \<times> 'h option) option" where
  "heapFree fns pHeap handle =
     (if pHeap = None then Some (STATUS_NULL_ARG, None)
      else if \<not> IS_VALID_ALLOCATION_HANDLE handle then Some (STATUS_INVALID_ARG, pHeap)
      else heapFreeFn fns pHeap handle)"

definition heapGetAllocSize :: "'h BaseHeap \<Rightarrow> 'h option \<Rightarrow> ALLOCATION_HANDLE \<Rightarrow> bool \<Rightarrow> (STATUS \<times> UINT64 option) option" where
  "heapGetAllocSize fns pHeap handle pAllocSize =
     (if pHeap = None \<or> \<not> pAllocSize then Some (STATUS_NULL_ARG, None)
      else if \<not> IS_VALID_ALLOCATION_HANDLE handle then Some (STATUS_INVALID_ARG, None)
      else heapGetAllocSizeFn fns pHeap handle pAllocSize)"

definition heapSetAllocSize ::
  "'h BaseHeap \<Rightarrow> 'h option \<Rightarrow> ALLOCATION_HANDLE option \<Rightarrow> UINT64 \<Rightarrow> (STATUS \<times> ALLOCATION_HANDLE option \<times> 'h option) option" where
  "heapSetAllocSize fns pHeap pHandle allocSize =
     (case (pHeap, pHandle) of
        (Some h, Some handle) \<Rightarrow>
          if \<not> (allocSize \<noteq> 0 \<and> IS_VALID_ALLOCATION_HANDLE handle) then Some (STATUS_INVALID_ARG, pHandle, pHeap)
          else do {
            (st, existingSize) \<leftarrow> heapGetAllocSizeFn fns pHeap handle True;
            case existingSize of
              None \<Rightarrow> Some (st, pHandle, pHeap)
            | Some existingSize \<Rightarrow>
                if existingSize = allocSize then Some (STATUS_SUCCESS, pHandle, pHeap)
                else heapSetAllocSizeFn fns pHeap pHandle existingSize allocSize
          }
      | _ \<Rightarrow> Some (STATUS_NULL_ARG, pHandle, pHeap))"

definition heapMap ::
  "'h BaseHeap \<Rightarrow> 'h option \<Rightarrow> ALLOCATION_HANDLE \<Rightarrow> bool \<Rightarrow> bool \<Rightarrow> (STATUS \<times> UINT64 option \<times> UINT64 option) option" where
  "heapMap fns pHeap handle ppAllocation pSize =
     (if pHeap = None \<or> \<not> ppAllocation then Some (STATUS_NULL_ARG, None, None)
      else if \<not> IS_VALID_ALLOCATION_HANDLE handle then Some (STATUS_INVALID_ARG, None, None)
      else heapMapFn fns pHeap handle ppAllocation pSize)"

definition heapUnmap :: "'h BaseHeap \<Rightarrow> 'h option \<Rightarrow> UINT64 \<Rightarrow> STATUS" where
  "heapUnmap fns pHeap pAllocation =
     (if pHeap = None \<or> pAllocation = 0 then STATUS_NULL_ARG else heapUnmapFn fns pHeap pAllocation)"

end
