(* ===== verification/ByteMemory.thy ===== *)
theory ByteMemory
  imports Prelude
begin

text \<open>
  A byte addressed memory with little-endian words, for code that lays structures out in a block of memory of its own.
\<close>

type_synonym memory = "nat \<Rightarrow> BYTE"

text \<open>The word in \<open>n\<close> bytes from address \<open>p\<close>, and its replacement.\<close>

fun load_le :: "nat \<Rightarrow> memory \<Rightarrow> nat \<Rightarrow> 'a::len word" where
  "load_le 0 m p = 0"
| "load_le (Suc n) m p = ucast (m p) OR push_bit 8 (load_le n m (Suc p))"

definition store_le :: "nat \<Rightarrow> memory \<Rightarrow> nat \<Rightarrow> 'a::len word \<Rightarrow> memory" where
  "store_le n m p w = (\<lambda>x. if p \<le> x \<and> x < p + n then ucast (drop_bit (8 * (x - p)) w) else m x)"

definition copy_bytes :: "memory \<Rightarrow> nat \<Rightarrow> nat \<Rightarrow> nat \<Rightarrow> memory" where
  "copy_bytes m dst src n = (\<lambda>x. if dst \<le> x \<and> x < dst + n then m (src + (x - dst)) else m x)"

abbreviation rd64 :: "memory \<Rightarrow> nat \<Rightarrow> UINT64" where "rd64 \<equiv> load_le 8"
abbreviation rd32 :: "memory \<Rightarrow> nat \<Rightarrow> UINT32" where "rd32 \<equiv> load_le 4"
abbreviation wr64 :: "memory \<Rightarrow> nat \<Rightarrow> UINT64 \<Rightarrow> memory" where "wr64 \<equiv> store_le 8"
abbreviation wr32 :: "memory \<Rightarrow> nat \<Rightarrow> UINT32 \<Rightarrow> memory" where "wr32 \<equiv> store_le 4"

lemma bit_load_le:
  "bit (load_le n m p :: 'a::len word) i \<longleftrightarrow> i < LENGTH('a) \<and> i < 8 * n \<and> bit (m (p + i div 8)) (i mod 8)"
proof (induction n arbitrary: p i)
  case (Suc n)
  show ?case
  proof (cases "i < 8")
    case True
    then show ?thesis by (auto simp: bit_simps)
  next
    case False
    then have d: "i div 8 = Suc ((i - 8) div 8)" "i mod 8 = (i - 8) mod 8" by (simp_all add: le_div_geq le_mod_geq)
    have "\<not> bit (m p) i" using False bit_imp_le_length [of "m p" i] by auto
    then show ?thesis using False Suc.IH [of "Suc p" "i - 8"] by (auto simp: bit_simps d simp del: load_le.simps(1))
  qed
qed simp

lemma load_cong: "(\<And>i. i < n \<Longrightarrow> m (p + i) = m' (p + i)) \<Longrightarrow> load_le n m p = (load_le n m' p :: 'a::len word)"
proof (induction n arbitrary: p)
  case (Suc n)
  have "load_le n m (Suc p) = (load_le n m' (Suc p) :: 'a word)"
  proof (rule Suc.IH)
    fix i assume "i < n"
    then show "m (Suc p + i) = m' (Suc p + i)" using Suc.prems [of "Suc i"] by simp
  qed
  then show ?case using Suc.prems [of 0] by simp
qed simp

lemma load_store_same:
  assumes "LENGTH('a::len) = 8 * n"
  shows "load_le n (store_le n m p w) p = (w :: 'a word)"
proof (rule bit_word_eqI)
  fix i assume i: "i < LENGTH('a)"
  have "i div 8 < n" using i assms by (simp add: less_mult_imp_div_less mult.commute)
  then show "bit (load_le n (store_le n m p w) p :: 'a word) i = bit w i"
    using i assms by (auto simp: bit_load_le store_le_def bit_simps)
qed

lemma load_store_64 [simp]: "rd64 (wr64 m p w) p = w"
  by (rule load_store_same) simp

lemma load_store_32 [simp]: "rd32 (wr32 m p w) p = w"
  by (rule load_store_same) simp

lemma load_store_other: "q + k \<le> p \<or> p + n \<le> q \<Longrightarrow> load_le k (store_le n m p w) q = load_le k m q"
  by (rule load_cong) (auto simp: store_le_def)

end
