(* ===== verification/AivHeap.thy ===== *)
theory AivHeap
  imports CommonHeap ByteMemory
begin

text \<open>
  The allocator of \<open>AivHeap.c\<close>: a first-fit heap in one large allocation, in which every block has a header and a footer with its
  size, and free and allocated blocks are chained in two doubly linked lists through their headers. The allocation is
  modelled byte by byte, at the addresses the system allocator gave it, so that a write that would hit
  another block does so in the model. Pointers are 64-bit addresses, \<open>0\<close> is \<open>NULL\<close>.

  A definition yields \<open>None\<close> where the code fails a fatal \<open>CHECK\<close> or accesses memory outside of the allocation. The default
  build is modelled (neither \<open>HEAP_DEBUG\<close> nor \<open>ALIGNED_MEMORY_MODEL\<close>).
\<close>

definition ALLOCATION_FLAGS_NONE :: UINT32 where "ALLOCATION_FLAGS_NONE = 0x0000"
definition ALLOCATION_FLAGS_ALLOC :: UINT32 where "ALLOCATION_FLAGS_ALLOC = 0x0001"
definition ALLOCATION_FLAGS_FREE :: UINT32 where "ALLOCATION_FLAGS_FREE = 0x0002"
definition AIV_ALLOCATION_TYPE :: UINT32 where "AIV_ALLOCATION_TYPE = 2"
definition MIN_FREE_ALLOCATION_SIZE :: UINT64 where "MIN_FREE_ALLOCATION_SIZE = 16"
definition AIV_ALLOCATION_HEADER_SIZE :: UINT64 where "AIV_ALLOCATION_HEADER_SIZE = 40"
definition AIV_ALLOCATION_FOOTER_SIZE :: UINT64 where "AIV_ALLOCATION_FOOTER_SIZE = 8"

definition MIN_FREE_BLOCK_SIZE :: UINT64 where
  "MIN_FREE_BLOCK_SIZE = AIV_ALLOCATION_HEADER_SIZE + MIN_FREE_ALLOCATION_SIZE + AIV_ALLOCATION_FOOTER_SIZE"

definition HEAP_PACKED_SIZE :: "UINT64 \<Rightarrow> UINT64" where "HEAP_PACKED_SIZE sz = sz"

record AivHeap = Heap +
  pAllocation :: UINT64
  aiv_pFree :: UINT64
  aiv_pAlloc :: UINT64
  aiv_mem :: memory

subsection \<open>Access to the allocation\<close>

definition in_heap :: "AivHeap \<Rightarrow> UINT64 \<Rightarrow> nat \<Rightarrow> bool" where
  "in_heap h p n \<longleftrightarrow> unat (pAllocation h) \<le> unat p \<and> unat p + n \<le> unat (pAllocation h) + unat (heapLimit h)"

definition load64 :: "AivHeap \<Rightarrow> UINT64 \<Rightarrow> UINT64 option" where
  "load64 h p = (if in_heap h p 8 then Some (rd64 (aiv_mem h) (unat p)) else None)"

definition load32 :: "AivHeap \<Rightarrow> UINT64 \<Rightarrow> UINT32 option" where
  "load32 h p = (if in_heap h p 4 then Some (rd32 (aiv_mem h) (unat p)) else None)"

definition store64 :: "AivHeap \<Rightarrow> UINT64 \<Rightarrow> UINT64 \<Rightarrow> AivHeap option" where
  "store64 h p v = (if in_heap h p 8 then Some (h\<lparr>aiv_mem := wr64 (aiv_mem h) (unat p) v\<rparr>) else None)"

definition store32 :: "AivHeap \<Rightarrow> UINT64 \<Rightarrow> UINT32 \<Rightarrow> AivHeap option" where
  "store32 h p v = (if in_heap h p 4 then Some (h\<lparr>aiv_mem := wr32 (aiv_mem h) (unat p) v\<rparr>) else None)"

definition MEMCPY_heap :: "AivHeap \<Rightarrow> UINT64 \<Rightarrow> UINT64 \<Rightarrow> UINT64 \<Rightarrow> AivHeap option" where
  "MEMCPY_heap h dst src n =
     (if in_heap h dst (unat n) \<and> in_heap h src (unat n)
      then Some (h\<lparr>aiv_mem := copy_bytes (aiv_mem h) (unat dst) (unat src) (unat n)\<rparr>) else None)"

definition CHECK :: "bool \<Rightarrow> unit option" where "CHECK b = (if b then Some () else None)"

text \<open>The fields of \<open>AIV_ALLOCATION_HEADER\<close> at their offsets: \<open>size\<close>, \<open>type\<close>, \<open>flags\<close>, \<open>allocSize\<close>, \<open>pNext\<close>, \<open>pPrev\<close>.\<close>

definition GET_AIV_ALLOCATION_SIZE :: "AivHeap \<Rightarrow> UINT64 \<Rightarrow> UINT64 option" where
  "GET_AIV_ALLOCATION_SIZE h p = load64 h p"

definition SET_AIV_ALLOCATION_SIZE :: "AivHeap \<Rightarrow> UINT64 \<Rightarrow> UINT64 \<Rightarrow> AivHeap option" where
  "SET_AIV_ALLOCATION_SIZE h p s = store64 h p s"

abbreviation "get_flags h p \<equiv> load32 h (p + 12)"
abbreviation "set_flags h p v \<equiv> store32 h (p + 12) v"
abbreviation "get_allocSize h p \<equiv> load64 h (p + 16)"
abbreviation "set_allocSize h p v \<equiv> store64 h (p + 16) v"
abbreviation "get_next h p \<equiv> load64 h (p + 24)"
abbreviation "set_next h p v \<equiv> store64 h (p + 24) v"
abbreviation "get_prev h p \<equiv> load64 h (p + 32)"
abbreviation "set_prev h p v \<equiv> store64 h (p + 32) v"

definition GET_AIV_ALLOCATION :: "UINT64 \<Rightarrow> UINT64" where
  "GET_AIV_ALLOCATION p = p + AIV_ALLOCATION_HEADER_SIZE"

definition GET_AIV_ALLOCATION_HEADER :: "UINT64 \<Rightarrow> UINT64" where
  "GET_AIV_ALLOCATION_HEADER p = p - AIV_ALLOCATION_HEADER_SIZE"

definition GET_AIV_ALLOCATION_FOOTER :: "AivHeap \<Rightarrow> UINT64 \<Rightarrow> UINT64 option" where
  "GET_AIV_ALLOCATION_FOOTER h p = do { s \<leftarrow> GET_AIV_ALLOCATION_SIZE h p; Some (GET_AIV_ALLOCATION p + s) }"

definition GET_AIV_ALLOCATION_FOOTER_SIZE :: "AivHeap \<Rightarrow> UINT64 \<Rightarrow> UINT64 option" where
  "GET_AIV_ALLOCATION_FOOTER_SIZE h p = do { f \<leftarrow> GET_AIV_ALLOCATION_FOOTER h p; load64 h f }"

definition SET_AIV_ALLOCATION_FOOTER_SIZE :: "AivHeap \<Rightarrow> UINT64 \<Rightarrow> AivHeap option" where
  "SET_AIV_ALLOCATION_FOOTER_SIZE h p =
     do { f \<leftarrow> GET_AIV_ALLOCATION_FOOTER h p; s \<leftarrow> GET_AIV_ALLOCATION_SIZE h p; store64 h f s }"

text \<open>The copies of \<open>gAivHeader\<close> and \<open>gAivFooter\<close>.\<close>

definition put_gAivHeader :: "AivHeap \<Rightarrow> UINT64 \<Rightarrow> AivHeap option" where
  "put_gAivHeader h p = do {
     h \<leftarrow> store64 h p 0;
     h \<leftarrow> store32 h (p + 8) AIV_ALLOCATION_TYPE;
     h \<leftarrow> set_flags h p ALLOCATION_FLAGS_FREE;
     h \<leftarrow> set_allocSize h p 0;
     h \<leftarrow> set_next h p 0;
     set_prev h p 0
   }"

definition put_gAivFooter :: "AivHeap \<Rightarrow> UINT64 \<Rightarrow> AivHeap option" where
  "put_gAivFooter h p = store64 h p 0"

definition TO_AIV_HANDLE :: "AivHeap \<Rightarrow> UINT64 \<Rightarrow> ALLOCATION_HANDLE" where
  "TO_AIV_HANDLE h p = push_bit 2 (p - pAllocation h)"

definition FROM_AIV_HANDLE :: "AivHeap \<Rightarrow> ALLOCATION_HANDLE \<Rightarrow> UINT64" where
  "FROM_AIV_HANDLE h handle = pAllocation h + drop_bit 2 handle"

definition CHK_AIV_ALLOCATION :: "AivHeap \<Rightarrow> UINT64 \<Rightarrow> bool" where
  "CHK_AIV_ALLOCATION h p \<longleftrightarrow> p \<noteq> 0 \<and> p \<ge> pAllocation h \<and> p < pAllocation h + heapLimit h"

subsection \<open>Blocks\<close>

partial_function (option) firstFit :: "AivHeap \<Rightarrow> UINT64 \<Rightarrow> UINT64 \<Rightarrow> UINT64 option" where
  [code]: "firstFit h sz pFree =
     (if pFree = 0 then Some 0
      else do {
        s \<leftarrow> GET_AIV_ALLOCATION_SIZE h pFree;
        if s \<ge> HEAP_PACKED_SIZE sz then Some pFree
        else do { next \<leftarrow> get_next h pFree; firstFit h sz next }
      })"

definition getFreeBlock :: "AivHeap \<Rightarrow> UINT64 \<Rightarrow> UINT64 option" where
  "getFreeBlock h sz = firstFit h sz (aiv_pFree h)"

text \<open>The steps that take a block out of the free list, and that put a new block at its position; both
  appear twice in the code.\<close>

definition unlinkFree :: "AivHeap \<Rightarrow> UINT64 \<Rightarrow> AivHeap option" where
  "unlinkFree h pBlock = do {
     next \<leftarrow> get_next h pBlock;
     prev \<leftarrow> get_prev h pBlock;
     h \<leftarrow> (if next \<noteq> 0 then set_prev h next prev else Some h);
     if prev \<noteq> 0 then set_next h prev next
     else do { CHECK (aiv_pFree h = pBlock); Some (h\<lparr>aiv_pFree := next\<rparr>) }
   }"

definition relinkFree :: "AivHeap \<Rightarrow> UINT64 \<Rightarrow> UINT64 \<Rightarrow> AivHeap option" where
  "relinkFree h pBlock pNewFree = do {
     next \<leftarrow> get_next h pNewFree;
     h \<leftarrow> (if next \<noteq> 0 then set_prev h next pNewFree else Some h);
     prev \<leftarrow> get_prev h pNewFree;
     if prev \<noteq> 0 then set_next h prev pNewFree
     else do { CHECK (aiv_pFree h = pBlock); Some (h\<lparr>aiv_pFree := pNewFree\<rparr>) }
   }"

definition splitFreeBlock :: "AivHeap \<Rightarrow> UINT64 \<Rightarrow> UINT64 \<Rightarrow> AivHeap option" where
  "splitFreeBlock h pBlock sz = do {
     let alignedSize = HEAP_PACKED_SIZE sz;
     blockSize \<leftarrow> GET_AIV_ALLOCATION_SIZE h pBlock;
     h \<leftarrow> (if blockSize < alignedSize + MIN_FREE_BLOCK_SIZE then do {
              h \<leftarrow> unlinkFree h pBlock;
              Some (h\<lparr>heapSize := heapSize h + (blockSize - alignedSize)\<rparr>)
            }
            else do {
              let pNewFree = GET_AIV_ALLOCATION pBlock + alignedSize + AIV_ALLOCATION_FOOTER_SIZE;
              h \<leftarrow> put_gAivHeader h pNewFree;
              h \<leftarrow> SET_AIV_ALLOCATION_SIZE h pNewFree (blockSize - alignedSize - AIV_ALLOCATION_HEADER_SIZE - AIV_ALLOCATION_FOOTER_SIZE);
              h \<leftarrow> SET_AIV_ALLOCATION_FOOTER_SIZE h pNewFree;
              h \<leftarrow> set_flags h pNewFree ALLOCATION_FLAGS_FREE;
              next \<leftarrow> get_next h pBlock;
              h \<leftarrow> set_next h pNewFree next;
              prev \<leftarrow> get_prev h pBlock;
              h \<leftarrow> set_prev h pNewFree prev;
              h \<leftarrow> relinkFree h pBlock pNewFree;
              h \<leftarrow> SET_AIV_ALLOCATION_SIZE h pBlock alignedSize;
              h \<leftarrow> put_gAivFooter h (GET_AIV_ALLOCATION pBlock + alignedSize);
              SET_AIV_ALLOCATION_FOOTER_SIZE h pBlock
            });
     h \<leftarrow> set_prev h pBlock 0;
     h \<leftarrow> set_next h pBlock 0;
     h \<leftarrow> set_flags h pBlock ALLOCATION_FLAGS_NONE;
     set_allocSize h pBlock sz
   }"

definition addAllocatedBlock :: "AivHeap \<Rightarrow> UINT64 \<Rightarrow> AivHeap option" where
  "addAllocatedBlock h pBlock = do {
     s \<leftarrow> GET_AIV_ALLOCATION_SIZE h pBlock;
     next \<leftarrow> get_next h pBlock;
     prev \<leftarrow> get_prev h pBlock;
     flags \<leftarrow> get_flags h pBlock;
     CHECK (pBlock \<noteq> 0 \<and> s > 0 \<and> next = 0 \<and> prev = 0 \<and> flags = ALLOCATION_FLAGS_NONE);
     h \<leftarrow> set_flags h pBlock ALLOCATION_FLAGS_ALLOC;
     h \<leftarrow> (if aiv_pAlloc h \<noteq> 0 then do {
              h \<leftarrow> set_next h pBlock (aiv_pAlloc h);
              set_prev h (aiv_pAlloc h) pBlock
            } else Some h);
     Some (h\<lparr>aiv_pAlloc := pBlock\<rparr>)
   }"

definition removeChainedBlock :: "AivHeap \<Rightarrow> UINT64 \<Rightarrow> AivHeap option" where
  "removeChainedBlock h pBlock = do {
     flags \<leftarrow> get_flags h pBlock;
     s \<leftarrow> GET_AIV_ALLOCATION_SIZE h pBlock;
     CHECK (pBlock \<noteq> 0 \<and> flags \<noteq> ALLOCATION_FLAGS_NONE \<and> s > 0);
     prev \<leftarrow> get_prev h pBlock;
     next \<leftarrow> get_next h pBlock;
     h \<leftarrow> (if prev = 0 then
              (if flags = ALLOCATION_FLAGS_FREE then
                 do { CHECK (aiv_pFree h = pBlock); Some (h\<lparr>aiv_pFree := next\<rparr>) }
               else do { CHECK (aiv_pAlloc h = pBlock); Some (h\<lparr>aiv_pAlloc := next\<rparr>) })
            else set_next h prev next);
     h \<leftarrow> (if next \<noteq> 0 then set_prev h next prev else Some h);
     h \<leftarrow> set_flags h pBlock ALLOCATION_FLAGS_NONE;
     h \<leftarrow> set_prev h pBlock 0;
     h \<leftarrow> set_next h pBlock 0;
     set_allocSize h pBlock 0
   }"

definition getLeftBlock :: "AivHeap \<Rightarrow> UINT64 \<Rightarrow> UINT64 option" where
  "getLeftBlock h pBlock =
     (if pAllocation h \<ge> pBlock then Some 0
      else do {
        let pFooter = pBlock - AIV_ALLOCATION_FOOTER_SIZE;
        blockSize \<leftarrow> load64 h pFooter;
        let pHeader = pFooter - blockSize - AIV_ALLOCATION_HEADER_SIZE;
        CHECK (pHeader \<ge> pAllocation h);
        Some pHeader
      })"

definition getRightBlock :: "AivHeap \<Rightarrow> UINT64 \<Rightarrow> UINT64 option" where
  "getRightBlock h pBlock = do {
     blockSize \<leftarrow> GET_AIV_ALLOCATION_SIZE h pBlock;
     let pHeader = GET_AIV_ALLOCATION pBlock + blockSize + AIV_ALLOCATION_FOOTER_SIZE;
     let pHeapLimit = pAllocation h + heapLimit h;
     if pHeapLimit \<le> pHeader then Some 0
     else do {
       f \<leftarrow> GET_AIV_ALLOCATION_FOOTER h pHeader;
       CHECK (pHeapLimit \<ge> f + AIV_ALLOCATION_FOOTER_SIZE);
       Some pHeader
     }
   }"

text \<open>The neighbour is a free block.\<close>

definition isFreeBlock :: "AivHeap \<Rightarrow> UINT64 \<Rightarrow> bool option" where
  "isFreeBlock h p = (if p = 0 then Some False else do { flags \<leftarrow> get_flags h p; Some (flags = ALLOCATION_FLAGS_FREE) })"

text \<open>The three parts of \<open>addFreeBlock\<close> behind its special case: the block merged with a free left neighbour (the block and
  its size), with a free right neighbour, and chained in.\<close>

definition coalesceLeft :: "AivHeap \<Rightarrow> UINT64 \<Rightarrow> (AivHeap \<times> UINT64 \<times> UINT64) option" where
  "coalesceLeft h pBlock = do {
     blockSize \<leftarrow> GET_AIV_ALLOCATION_SIZE h pBlock;
     pLeft \<leftarrow> getLeftBlock h pBlock;
     free \<leftarrow> isFreeBlock h pLeft;
     if free then do {
       leftSize \<leftarrow> GET_AIV_ALLOCATION_SIZE h pLeft;
       let overallSize = leftSize + blockSize + AIV_ALLOCATION_HEADER_SIZE + AIV_ALLOCATION_FOOTER_SIZE;
       h \<leftarrow> SET_AIV_ALLOCATION_SIZE h pLeft overallSize;
       h \<leftarrow> SET_AIV_ALLOCATION_FOOTER_SIZE h pLeft;
       Some (h, pLeft, overallSize)
     } else Some (h, pBlock, blockSize)
   }"

definition coalesceRight :: "AivHeap \<Rightarrow> UINT64 \<Rightarrow> UINT64 \<Rightarrow> AivHeap option" where
  "coalesceRight h pBlock blockSize = do {
     pRight \<leftarrow> getRightBlock h pBlock;
     free \<leftarrow> isFreeBlock h pRight;
     if free then do {
       h \<leftarrow> removeChainedBlock h pRight;
       rightSize \<leftarrow> GET_AIV_ALLOCATION_SIZE h pRight;
       let overallSize = rightSize + blockSize + AIV_ALLOCATION_HEADER_SIZE + AIV_ALLOCATION_FOOTER_SIZE;
       h \<leftarrow> SET_AIV_ALLOCATION_SIZE h pBlock overallSize;
       SET_AIV_ALLOCATION_FOOTER_SIZE h pBlock
     } else Some h
   }"

definition chainFree :: "AivHeap \<Rightarrow> UINT64 \<Rightarrow> AivHeap option" where
  "chainFree h pBlock = do {
     flags \<leftarrow> get_flags h pBlock;
     if flags = ALLOCATION_FLAGS_NONE then do {
       h \<leftarrow> set_flags h pBlock ALLOCATION_FLAGS_FREE;
       h \<leftarrow> set_next h pBlock (aiv_pFree h);
       h \<leftarrow> set_prev h pBlock 0;
       next \<leftarrow> get_next h pBlock;
       h \<leftarrow> (if next \<noteq> 0 then set_prev h next pBlock else Some h);
       Some (h\<lparr>aiv_pFree := pBlock\<rparr>)
     } else Some h
   }"

definition addFreeBlock :: "AivHeap \<Rightarrow> UINT64 \<Rightarrow> AivHeap option" where
  "addFreeBlock h pBlock = do {
     s \<leftarrow> GET_AIV_ALLOCATION_SIZE h pBlock;
     next \<leftarrow> get_next h pBlock;
     prev \<leftarrow> get_prev h pBlock;
     flags \<leftarrow> get_flags h pBlock;
     CHECK (pBlock \<noteq> 0 \<and> s > 0 \<and> next = 0 \<and> prev = 0 \<and> flags = ALLOCATION_FLAGS_NONE);
     if aiv_pFree h = 0 then do {
       h \<leftarrow> set_flags h pBlock ALLOCATION_FLAGS_FREE;
       Some (h\<lparr>aiv_pFree := pBlock\<rparr>)
     }
     else do {
       (h, pBlock, blockSize) \<leftarrow> coalesceLeft h pBlock;
       h \<leftarrow> coalesceRight h pBlock blockSize;
       chainFree h pBlock
     }
   }"

definition splitAllocatedBlock :: "AivHeap \<Rightarrow> UINT64 \<Rightarrow> UINT64 \<Rightarrow> AivHeap option" where
  "splitAllocatedBlock h pBlock sz = do {
     let alignedSize = HEAP_PACKED_SIZE sz;
     blockSize \<leftarrow> GET_AIV_ALLOCATION_SIZE h pBlock;
     CHECK (blockSize \<ge> sz + MIN_FREE_BLOCK_SIZE);
     let pNewFree = GET_AIV_ALLOCATION pBlock + alignedSize + AIV_ALLOCATION_FOOTER_SIZE;
     h \<leftarrow> put_gAivHeader h pNewFree;
     h \<leftarrow> SET_AIV_ALLOCATION_SIZE h pNewFree (blockSize - alignedSize - AIV_ALLOCATION_HEADER_SIZE - AIV_ALLOCATION_FOOTER_SIZE);
     h \<leftarrow> SET_AIV_ALLOCATION_FOOTER_SIZE h pNewFree;
     h \<leftarrow> set_prev h pNewFree 0;
     h \<leftarrow> set_next h pNewFree 0;
     h \<leftarrow> set_flags h pNewFree ALLOCATION_FLAGS_NONE;
     h \<leftarrow> set_allocSize h pBlock sz;
     h \<leftarrow> SET_AIV_ALLOCATION_SIZE h pBlock alignedSize;
     h \<leftarrow> put_gAivFooter h (GET_AIV_ALLOCATION pBlock + alignedSize);
     h \<leftarrow> SET_AIV_ALLOCATION_FOOTER_SIZE h pBlock;
     addFreeBlock h pNewFree
   }"

definition coalesceFreeToAllocatedBlock :: "AivHeap \<Rightarrow> UINT64 \<Rightarrow> UINT64 \<Rightarrow> UINT64 \<Rightarrow> AivHeap option" where
  "coalesceFreeToAllocatedBlock h pAlloc pFree diffSize = do {
     freeSize \<leftarrow> GET_AIV_ALLOCATION_SIZE h pFree;
     blockSize \<leftarrow> GET_AIV_ALLOCATION_SIZE h pAlloc;
     let alignedDiffSize = HEAP_PACKED_SIZE diffSize;
     if freeSize < alignedDiffSize + MIN_FREE_ALLOCATION_SIZE then do {
       h \<leftarrow> unlinkFree h pFree;
       h \<leftarrow> SET_AIV_ALLOCATION_SIZE h pAlloc (blockSize + freeSize + AIV_ALLOCATION_HEADER_SIZE + AIV_ALLOCATION_FOOTER_SIZE);
       allocSize \<leftarrow> get_allocSize h pAlloc;
       h \<leftarrow> set_allocSize h pAlloc (allocSize + diffSize);
       SET_AIV_ALLOCATION_FOOTER_SIZE h pAlloc
     }
     else do {
       let pNewFree = pFree + alignedDiffSize;
       pNext \<leftarrow> get_next h pFree;
       pPrev \<leftarrow> get_prev h pFree;
       h \<leftarrow> put_gAivHeader h pNewFree;
       h \<leftarrow> set_next h pNewFree pNext;
       h \<leftarrow> set_prev h pNewFree pPrev;
       h \<leftarrow> relinkFree h pFree pNewFree;
       h \<leftarrow> SET_AIV_ALLOCATION_SIZE h pNewFree (freeSize - alignedDiffSize);
       h \<leftarrow> SET_AIV_ALLOCATION_FOOTER_SIZE h pNewFree;
       h \<leftarrow> set_flags h pNewFree ALLOCATION_FLAGS_FREE;
       h \<leftarrow> put_gAivFooter h (pNewFree - AIV_ALLOCATION_FOOTER_SIZE);
       allocSize \<leftarrow> get_allocSize h pAlloc;
       h \<leftarrow> set_allocSize h pAlloc (allocSize + diffSize);
       h \<leftarrow> SET_AIV_ALLOCATION_SIZE h pAlloc (blockSize + alignedDiffSize);
       SET_AIV_ALLOCATION_FOOTER_SIZE h pAlloc
     }
   }"

definition checkOverlap :: "AivHeap \<Rightarrow> UINT64 \<Rightarrow> UINT64 \<Rightarrow> bool option" where
  "checkOverlap h pBlock1 pBlock2 =
     (if pBlock1 < pBlock2 then do {
        s \<leftarrow> GET_AIV_ALLOCATION_SIZE h pBlock1;
        Some (GET_AIV_ALLOCATION pBlock1 + s + AIV_ALLOCATION_FOOTER_SIZE > pBlock2)
      }
      else do {
        s \<leftarrow> GET_AIV_ALLOCATION_SIZE h pBlock2;
        Some (GET_AIV_ALLOCATION pBlock2 + s + AIV_ALLOCATION_FOOTER_SIZE > pBlock1)
      })"

subsection \<open>The operations of the heap\<close>

definition aivGetAllocationHeaderSize :: UINT64 where "aivGetAllocationHeaderSize = AIV_ALLOCATION_HEADER_SIZE"
definition aivGetAllocationFooterSize :: UINT64 where "aivGetAllocationFooterSize = AIV_ALLOCATION_FOOTER_SIZE"
definition aivGetAllocationAlignedSize :: "UINT64 \<Rightarrow> UINT64" where "aivGetAllocationAlignedSize sz = HEAP_PACKED_SIZE sz"
definition aivGetHeapLimits :: "UINT64 \<times> UINT64" where "aivGetHeapLimits = (MIN_HEAP_SIZE, MAX_HEAP_SIZE)"

definition aivGetAllocationSize :: "AivHeap \<Rightarrow> ALLOCATION_HANDLE \<Rightarrow> UINT64 option" where
  "aivGetAllocationSize h handle = do {
     let pHeader = GET_AIV_ALLOCATION_HEADER (FROM_AIV_HANDLE h handle);
     s \<leftarrow> GET_AIV_ALLOCATION_SIZE h pHeader;
     Some (AIV_ALLOCATION_HEADER_SIZE + s + AIV_ALLOCATION_FOOTER_SIZE)
   }"

text \<open>The allocated and the free list are walked; an inconsistency is recorded and the walk goes on.\<close>

partial_function (option) checkAllocated :: "AivHeap \<Rightarrow> UINT64 \<Rightarrow> STATUS \<Rightarrow> STATUS option" where
  [code]: "checkAllocated h pBlock retStatus =
     (if pBlock = 0 then Some retStatus
      else do {
        allocSize \<leftarrow> get_allocSize h pBlock;
        s \<leftarrow> GET_AIV_ALLOCATION_SIZE h pBlock;
        flags \<leftarrow> get_flags h pBlock;
        footer \<leftarrow> GET_AIV_ALLOCATION_FOOTER_SIZE h pBlock;
        next \<leftarrow> get_next h pBlock;
        checkAllocated h next
          (if allocSize > s \<or> flags \<noteq> ALLOCATION_FLAGS_ALLOC \<or> s \<noteq> footer then STATUS_HEAP_CORRUPTED else retStatus)
      })"

partial_function (option) checkFree :: "AivHeap \<Rightarrow> UINT64 \<Rightarrow> STATUS \<Rightarrow> STATUS option" where
  [code]: "checkFree h pBlock retStatus =
     (if pBlock = 0 then Some retStatus
      else do {
        flags \<leftarrow> get_flags h pBlock;
        s \<leftarrow> GET_AIV_ALLOCATION_SIZE h pBlock;
        footer \<leftarrow> GET_AIV_ALLOCATION_FOOTER_SIZE h pBlock;
        next \<leftarrow> get_next h pBlock;
        checkFree h next (if flags \<noteq> ALLOCATION_FLAGS_FREE \<or> s \<noteq> footer then STATUS_HEAP_CORRUPTED else retStatus)
      })"

definition aivHeapDebugCheckAllocator :: "AivHeap option \<Rightarrow> STATUS option" where
  "aivHeapDebugCheckAllocator pHeap =
     (let retStatus = commonHeapDebugCheckAllocator pHeap
      in if STATUS_FAILED retStatus then Some retStatus
         else case pHeap of None \<Rightarrow> Some retStatus
              | Some h \<Rightarrow> do { st \<leftarrow> checkAllocated h (aiv_pAlloc h) retStatus; checkFree h (aiv_pFree h) st })"

definition aivHeapCreate :: "bool \<Rightarrow> bool \<Rightarrow> STATUS \<times> AivHeap option" where
  "aivHeapCreate ppHeap calloc =
     commonHeapCreate ppHeap 168
       (if calloc then Some \<lparr>heapLimit = 0, heapSize = 0, numAlloc = 0, pAllocation = 0, aiv_pFree = 0, aiv_pAlloc = 0, aiv_mem = \<lambda>_. 0\<rparr>
        else None)"

text \<open>\<open>malloc\<close> is the result of the large allocation, its address and its contents. For \<open>NULL\<close> as heap the clean-up dereferences
  the null pointer.\<close>

definition aivHeapInit :: "AivHeap option \<Rightarrow> UINT64 \<Rightarrow> (UINT64 \<times> memory) option \<Rightarrow> (STATUS \<times> AivHeap) option" where
  "aivHeapInit pHeap limit malloc =
     (case pHeap of None \<Rightarrow> None
      | Some h \<Rightarrow>
          let h = h\<lparr>pAllocation := 0, aiv_pFree := 0, aiv_pAlloc := 0\<rparr>;
              limit = HEAP_PACKED_SIZE limit
          in case commonHeapInit aivGetHeapLimits (Some h) limit of
               (st, None) \<Rightarrow> None
             | (st, Some h) \<Rightarrow>
                 if STATUS_FAILED st then Some (st, h\<lparr>heapLimit := 0\<rparr>)
                 else case malloc of
                   None \<Rightarrow> Some (STATUS_NOT_ENOUGH_MEMORY, h\<lparr>heapLimit := 0\<rparr>)
                 | Some (p, bytes) \<Rightarrow> do {
                     let h = h\<lparr>pAllocation := p, aiv_mem := bytes\<rparr>;
                     h \<leftarrow> put_gAivHeader h p;
                     h \<leftarrow> put_gAivFooter h (p + heapLimit h - AIV_ALLOCATION_FOOTER_SIZE);
                     h \<leftarrow> SET_AIV_ALLOCATION_SIZE h p (heapLimit h - AIV_ALLOCATION_HEADER_SIZE - AIV_ALLOCATION_FOOTER_SIZE);
                     h \<leftarrow> SET_AIV_ALLOCATION_FOOTER_SIZE h p;
                     Some (STATUS_SUCCESS, h\<lparr>aiv_pFree := p\<rparr>)
                   })"

text \<open>The addresses freed; the object itself is freed as well.\<close>

definition aivHeapRelease :: "AivHeap option \<Rightarrow> STATUS \<times> UINT64 list" where
  "aivHeapRelease pHeap =
     (case pHeap of None \<Rightarrow> (STATUS_SUCCESS, [])
      | Some h \<Rightarrow> (fst (commonHeapRelease pHeap), if pAllocation h \<noteq> 0 then [pAllocation h] else []))"

definition aivHeapAlloc :: "AivHeap option \<Rightarrow> UINT64 \<Rightarrow> bool \<Rightarrow> (STATUS \<times> ALLOCATION_HANDLE option \<times> AivHeap option) option" where
  "aivHeapAlloc pHeap sz pHandle =
     (case commonHeapAlloc aivGetAllocationHeaderSize aivGetAllocationAlignedSize aivGetAllocationFooterSize pHeap sz pHandle of
        (st, handle, None) \<Rightarrow> Some (st, handle, None)
      | (st, handle, Some h) \<Rightarrow>
          if \<not> (st = STATUS_NOT_ENOUGH_MEMORY \<or> st = STATUS_SUCCESS) then Some (st, handle, Some h)
          else if st = STATUS_NOT_ENOUGH_MEMORY then Some (STATUS_SUCCESS, handle, Some h)
          else do {
            pFree \<leftarrow> getFreeBlock h sz;
            if pFree = 0 then
              Some (STATUS_SUCCESS, handle,
                Some (decrementUsage h (AIV_ALLOCATION_HEADER_SIZE + HEAP_PACKED_SIZE sz + AIV_ALLOCATION_FOOTER_SIZE)))
            else do {
              h \<leftarrow> splitFreeBlock h pFree sz;
              h \<leftarrow> addAllocatedBlock h pFree;
              Some (STATUS_SUCCESS, Some (TO_AIV_HANDLE h (GET_AIV_ALLOCATION pFree)), Some h)
            }
          })"

text \<open>The test that a header belongs to an allocation.\<close>

definition isAllocation :: "AivHeap \<Rightarrow> UINT64 \<Rightarrow> bool option" where
  "isAllocation h pHeader = do {
     flags \<leftarrow> get_flags h pHeader;
     allocSize \<leftarrow> get_allocSize h pHeader;
     Some (flags = ALLOCATION_FLAGS_ALLOC \<and> allocSize \<noteq> 0)
   }"

definition aivHeapFree :: "AivHeap option \<Rightarrow> ALLOCATION_HANDLE \<Rightarrow> (STATUS \<times> AivHeap option) option" where
  "aivHeapFree pHeap handle =
     (case pHeap of None \<Rightarrow> Some (STATUS_NULL_ARG, None)
      | Some h \<Rightarrow>
          let pAllocation' = FROM_AIV_HANDLE h handle
          in if \<not> CHK_AIV_ALLOCATION h pAllocation' then Some (STATUS_INVALID_HANDLE_ERROR, Some h)
             else do {
               let pAlloc = GET_AIV_ALLOCATION_HEADER pAllocation';
               valid \<leftarrow> isAllocation h pAlloc;
               if \<not> valid then Some (STATUS_INVALID_HANDLE_ERROR, Some h)
               else do {
                 (st, pHeap) \<leftarrow> commonHeapFree aivGetAllocationSize (Some h) handle;
                 case pHeap of None \<Rightarrow> Some (st, None)
                 | Some h \<Rightarrow>
                     if STATUS_FAILED st then Some (st, Some h)
                     else do {
                       h \<leftarrow> removeChainedBlock h pAlloc;
                       h \<leftarrow> addFreeBlock h pAlloc;
                       Some (STATUS_SUCCESS, Some h)
                     }
               }
             })"

definition aivHeapGetAllocSize :: "AivHeap option \<Rightarrow> ALLOCATION_HANDLE \<Rightarrow> bool \<Rightarrow> (STATUS \<times> UINT64 option) option" where
  "aivHeapGetAllocSize pHeap handle pAllocSize =
     (case pHeap of None \<Rightarrow> Some (STATUS_NULL_ARG, None)
      | Some h \<Rightarrow>
          let pAllocation' = FROM_AIV_HANDLE h handle
          in if \<not> CHK_AIV_ALLOCATION h pAllocation' then Some (STATUS_INVALID_HANDLE_ERROR, None)
             else
               let st = commonHeapGetAllocSize pHeap handle pAllocSize
               in if STATUS_FAILED st then Some (st, None)
                  else do {
                    let pHeader = GET_AIV_ALLOCATION_HEADER pAllocation';
                    valid \<leftarrow> isAllocation h pHeader;
                    if \<not> valid then Some (STATUS_INVALID_HANDLE_ERROR, None)
                    else do { allocSize \<leftarrow> get_allocSize h pHeader; Some (STATUS_SUCCESS, Some allocSize) }
                  })"

definition aivHeapMap ::
  "AivHeap option \<Rightarrow> ALLOCATION_HANDLE \<Rightarrow> bool \<Rightarrow> bool \<Rightarrow> (STATUS \<times> UINT64 option \<times> UINT64 option) option" where
  "aivHeapMap pHeap handle ppAllocation pSize =
     (case pHeap of None \<Rightarrow> Some (STATUS_NULL_ARG, None, None)
      | Some h \<Rightarrow>
          let pAllocation' = FROM_AIV_HANDLE h handle
          in if \<not> CHK_AIV_ALLOCATION h pAllocation' then Some (STATUS_INVALID_HANDLE_ERROR, None, None)
             else case commonHeapMap pHeap handle ppAllocation pSize of (st, allocation, mapped) \<Rightarrow>
               if STATUS_FAILED st then Some (st, allocation, mapped)
               else do {
                 let pHeader = GET_AIV_ALLOCATION_HEADER pAllocation';
                 valid \<leftarrow> isAllocation h pHeader;
                 if \<not> valid then Some (STATUS_INVALID_HANDLE_ERROR, Some pAllocation', mapped)
                 else do { allocSize \<leftarrow> get_allocSize h pHeader; Some (STATUS_SUCCESS, Some pAllocation', Some allocSize) }
               })"

definition aivHeapUnmap :: "AivHeap option \<Rightarrow> UINT64 \<Rightarrow> STATUS" where
  "aivHeapUnmap pHeap p = commonHeapUnmap pHeap p"

text \<open>The resizing where the data moves to a new block: the code behind the attempt to grow in place, and the clean-up that frees
  the new block after an error.\<close>

definition failResize ::
  "STATUS \<Rightarrow> ALLOCATION_HANDLE \<Rightarrow> ALLOCATION_HANDLE \<Rightarrow> AivHeap \<Rightarrow> (STATUS \<times> ALLOCATION_HANDLE option \<times> AivHeap option) option" where
  "failResize st newAllocationHandle handle h =
     (if IS_VALID_ALLOCATION_HANDLE newAllocationHandle
      then do { (_, pHeap) \<leftarrow> aivHeapFree (Some h) newAllocationHandle; Some (st, Some handle, pHeap) }
      else Some (st, Some handle, Some h))"

definition moveAllocation :: "AivHeap \<Rightarrow> ALLOCATION_HANDLE \<Rightarrow> UINT64 \<Rightarrow> (STATUS \<times> ALLOCATION_HANDLE option \<times> AivHeap option) option" where
  "moveAllocation h handle newSize = do {
     (st, newHandle, pHeap) \<leftarrow> aivHeapAlloc (Some h) newSize True;
     case (newHandle, pHeap) of
       (Some newHandle, Some h) \<Rightarrow>
         if STATUS_FAILED st then failResize st newHandle handle h
         else if \<not> IS_VALID_ALLOCATION_HANDLE newHandle then failResize STATUS_NOT_ENOUGH_MEMORY newHandle handle h
         else do {
           (st, pExistingBuffer, existingSize) \<leftarrow> aivHeapMap (Some h) handle True True;
           if STATUS_FAILED st then failResize st newHandle handle h
           else do {
             (st, pNewBuffer, mappedSize) \<leftarrow> aivHeapMap (Some h) newHandle True True;
             if STATUS_FAILED st then failResize st newHandle handle h
             else do {
               existingBuffer \<leftarrow> pExistingBuffer;
               newBuffer \<leftarrow> pNewBuffer;
               existingSize \<leftarrow> existingSize;
               mappedSize \<leftarrow> mappedSize;
               h \<leftarrow> MEMCPY_heap h newBuffer existingBuffer (min existingSize mappedSize);
               let st = aivHeapUnmap (Some h) existingBuffer;
               if STATUS_FAILED st then failResize st newHandle handle h
               else do {
                 let st = aivHeapUnmap (Some h) newBuffer;
                 if STATUS_FAILED st then failResize st newHandle handle h
                 else do {
                   (st, pHeap) \<leftarrow> aivHeapFree (Some h) handle;
                   case pHeap of None \<Rightarrow> None
                   | Some h \<Rightarrow>
                       if STATUS_FAILED st then failResize st newHandle handle h
                       else Some (STATUS_SUCCESS, Some newHandle, Some h)
                 }
               }
             }
           }
         }
     | _ \<Rightarrow> None
   }"

definition aivHeapSetAllocSize ::
  "AivHeap option \<Rightarrow> ALLOCATION_HANDLE option \<Rightarrow> UINT64 \<Rightarrow> UINT64 \<Rightarrow> (STATUS \<times> ALLOCATION_HANDLE option \<times> AivHeap option) option" where
  "aivHeapSetAllocSize pHeap pHandle oldSize newSize =
     (case (commonHeapSetAllocSize pHeap pHandle oldSize newSize, pHandle) of
        ((st, Some h), Some handle) \<Rightarrow>
          if STATUS_FAILED st then Some (st, pHandle, Some h)
          else
            let diffSize = (if newSize > oldSize then newSize - oldSize else oldSize - newSize);
                p = FROM_AIV_HANDLE h handle
            in if \<not> CHK_AIV_ALLOCATION h p then Some (STATUS_INVALID_HANDLE_ERROR, pHandle, Some h)
               else do {
                 let pExistingHeader = GET_AIV_ALLOCATION_HEADER p;
                 blockSize \<leftarrow> GET_AIV_ALLOCATION_SIZE h pExistingHeader;
                 allocSize \<leftarrow> get_allocSize h pExistingHeader;
                 let blockDiffSize = blockSize - allocSize;
                 if (newSize > oldSize \<and> diffSize \<le> blockDiffSize) \<or>
                    (newSize < oldSize \<and> blockDiffSize + diffSize \<le> MIN_FREE_BLOCK_SIZE) then do {
                   h \<leftarrow> set_allocSize h pExistingHeader newSize;
                   Some (STATUS_SUCCESS, pHandle, Some h)
                 }
                 else if newSize < oldSize then do {
                   h \<leftarrow> set_allocSize h pExistingHeader newSize;
                   h \<leftarrow> splitAllocatedBlock h pExistingHeader newSize;
                   Some (STATUS_SUCCESS, pHandle, Some h)
                 }
                 else do {
                   pCheckFree \<leftarrow> getRightBlock h pExistingHeader;
                   free \<leftarrow> isFreeBlock h pCheckFree;
                   fits \<leftarrow> (if free then do {
                              s \<leftarrow> GET_AIV_ALLOCATION_SIZE h pCheckFree;
                              Some (s + AIV_ALLOCATION_FOOTER_SIZE + AIV_ALLOCATION_HEADER_SIZE + blockDiffSize \<ge> diffSize)
                            } else Some False);
                   if fits then do {
                     h \<leftarrow> coalesceFreeToAllocatedBlock h pExistingHeader pCheckFree diffSize;
                     Some (STATUS_SUCCESS, pHandle, Some h)
                   }
                   else moveAllocation h handle newSize
                 }
               }
      | ((st, pHeap), _) \<Rightarrow> Some (st, pHandle, pHeap))"

definition aivBaseHeap :: "AivHeap BaseHeap" where
  "aivBaseHeap = \<lparr>heapGetSizeFn = commonHeapGetSize, heapAllocFn = aivHeapAlloc, heapFreeFn = aivHeapFree,
     heapGetAllocSizeFn = aivHeapGetAllocSize, heapSetAllocSizeFn = aivHeapSetAllocSize, heapMapFn = aivHeapMap,
     heapUnmapFn = aivHeapUnmap, heapDebugCheckAllocatorFn = aivHeapDebugCheckAllocator, getAllocationSizeFn = aivGetAllocationSize,
     getAllocationHeaderSizeFn = aivGetAllocationHeaderSize, getAllocationFooterSizeFn = aivGetAllocationFooterSize,
     getAllocationAlignedSizeFn = aivGetAllocationAlignedSize, getHeapLimitsFn = aivGetHeapLimits\<rparr>"

end
