(* ===== verification/AivHeapMem.thy ===== *)
theory AivHeapMem
  imports AivHeap
begin

text \<open>
  The memory of the AIV heap as its headers and footers. Over a layout, a set of header and of footer addresses whose cells do not
  overlap, a write to one cell updates that cell alone; all the reasoning about the byte memory is in
  this theory.
\<close>

subsection \<open>Cells\<close>

record cell =
  c_size :: UINT64
  c_flags :: UINT32
  c_alloc :: UINT64
  c_next :: UINT64
  c_prev :: UINT64

definition hdr :: "memory \<Rightarrow> nat \<Rightarrow> cell" where
  "hdr m a = \<lparr>c_size = rd64 m a, c_flags = rd32 m (a + 12), c_alloc = rd64 m (a + 16), c_next = rd64 m (a + 24), c_prev = rd64 m (a + 32)\<rparr>"

definition ftr :: "memory \<Rightarrow> nat \<Rightarrow> UINT64" where "ftr m e = rd64 m e"

definition w_size :: "memory \<Rightarrow> nat \<Rightarrow> UINT64 \<Rightarrow> memory" where "w_size m a v = wr64 m a v"
definition w_type :: "memory \<Rightarrow> nat \<Rightarrow> UINT32 \<Rightarrow> memory" where "w_type m a v = wr32 m (a + 8) v"
definition w_flags :: "memory \<Rightarrow> nat \<Rightarrow> UINT32 \<Rightarrow> memory" where "w_flags m a v = wr32 m (a + 12) v"
definition w_alloc :: "memory \<Rightarrow> nat \<Rightarrow> UINT64 \<Rightarrow> memory" where "w_alloc m a v = wr64 m (a + 16) v"
definition w_next :: "memory \<Rightarrow> nat \<Rightarrow> UINT64 \<Rightarrow> memory" where "w_next m a v = wr64 m (a + 24) v"
definition w_prev :: "memory \<Rightarrow> nat \<Rightarrow> UINT64 \<Rightarrow> memory" where "w_prev m a v = wr64 m (a + 32) v"
definition w_ftr :: "memory \<Rightarrow> nat \<Rightarrow> UINT64 \<Rightarrow> memory" where "w_ftr m e v = wr64 m e v"

lemmas w_defs = w_size_def w_type_def w_flags_def w_alloc_def w_next_def w_prev_def w_ftr_def

definition layout :: "nat set \<Rightarrow> nat set \<Rightarrow> bool" where
  "layout H F \<longleftrightarrow>
     (\<forall>a\<in>H. \<forall>b\<in>H. a \<noteq> b \<longrightarrow> a + 40 \<le> b \<or> b + 40 \<le> a) \<and>
     (\<forall>a\<in>H. \<forall>e\<in>F. a + 40 \<le> e \<or> e + 8 \<le> a) \<and>
     (\<forall>e\<in>F. \<forall>e'\<in>F. e \<noteq> e' \<longrightarrow> e + 8 \<le> e' \<or> e' + 8 \<le> e)"

definition cells :: "nat set \<Rightarrow> nat set \<Rightarrow> nat set" where
  "cells H F = (\<Union>a\<in>H. {a..<a + 40}) \<union> (\<Union>e\<in>F. {e..<e + 8})"

lemma layoutD:
  assumes "layout H F"
  shows "a \<in> H \<Longrightarrow> b \<in> H \<Longrightarrow> a \<noteq> b \<Longrightarrow> a + 40 \<le> b \<or> b + 40 \<le> a"
    and "a \<in> H \<Longrightarrow> e \<in> F \<Longrightarrow> a + 40 \<le> e \<or> e + 8 \<le> a"
    and "e \<in> F \<Longrightarrow> e' \<in> F \<Longrightarrow> e \<noteq> e' \<Longrightarrow> e + 8 \<le> e' \<or> e' + 8 \<le> e"
  using assms unfolding layout_def by blast+

text \<open>A header is not touched by a write elsewhere.\<close>

lemma hdr_other: "b + 40 \<le> p \<or> p + n \<le> b \<Longrightarrow> hdr (store_le n m p v) b = hdr m b"
  unfolding hdr_def by (simp add: load_store_other disj_commute) (auto simp: load_store_other)

lemma hdr_same:
  "hdr (w_size m a v) a = (hdr m a)\<lparr>c_size := v\<rparr>" "hdr (w_type m a t) a = hdr m a" "hdr (w_flags m a fl) a = (hdr m a)\<lparr>c_flags := fl\<rparr>"
  "hdr (w_alloc m a v) a = (hdr m a)\<lparr>c_alloc := v\<rparr>" "hdr (w_next m a v) a = (hdr m a)\<lparr>c_next := v\<rparr>"
  "hdr (w_prev m a v) a = (hdr m a)\<lparr>c_prev := v\<rparr>"
  unfolding hdr_def w_defs by (simp_all add: load_store_other)

lemma hdr_w:
  assumes "layout H F" "a \<in> H" "b \<in> H"
  shows "hdr (w_size m a v) b = (if b = a then (hdr m a)\<lparr>c_size := v\<rparr> else hdr m b)"
    and "hdr (w_type m a t) b = hdr m b"
    and "hdr (w_flags m a fl) b = (if b = a then (hdr m a)\<lparr>c_flags := fl\<rparr> else hdr m b)"
    and "hdr (w_alloc m a v) b = (if b = a then (hdr m a)\<lparr>c_alloc := v\<rparr> else hdr m b)"
    and "hdr (w_next m a v) b = (if b = a then (hdr m a)\<lparr>c_next := v\<rparr> else hdr m b)"
    and "hdr (w_prev m a v) b = (if b = a then (hdr m a)\<lparr>c_prev := v\<rparr> else hdr m b)"
proof -
  have sep: "b \<noteq> a \<Longrightarrow> b + 40 \<le> a \<or> a + 40 \<le> b" using layoutD(1) [OF assms(1)] assms(2,3) by auto
  have off: "hdr (store_le n m (a + k) w) b = hdr m b" if "b \<noteq> a" "k + n \<le> 40" for n k and w :: "'w::len word"
    by (rule hdr_other) (use sep that in linarith)
  have off0: "hdr (store_le n m a w) b = hdr m b" if "b \<noteq> a" "n \<le> 40" for n and w :: "'w::len word"
    using off [of 0 n w] that by simp
  show "hdr (w_size m a v) b = (if b = a then (hdr m a)\<lparr>c_size := v\<rparr> else hdr m b)" "hdr (w_type m a t) b = hdr m b"
    "hdr (w_flags m a fl) b = (if b = a then (hdr m a)\<lparr>c_flags := fl\<rparr> else hdr m b)"
    "hdr (w_alloc m a v) b = (if b = a then (hdr m a)\<lparr>c_alloc := v\<rparr> else hdr m b)"
    "hdr (w_next m a v) b = (if b = a then (hdr m a)\<lparr>c_next := v\<rparr> else hdr m b)"
    "hdr (w_prev m a v) b = (if b = a then (hdr m a)\<lparr>c_prev := v\<rparr> else hdr m b)"
    by (cases "b = a"; simp add: hdr_same off off0 w_defs; simp add: hdr_same [unfolded w_defs])+
qed

lemma hdr_w_ftr: "layout H F \<Longrightarrow> e \<in> F \<Longrightarrow> b \<in> H \<Longrightarrow> hdr (w_ftr m e v) b = hdr m b"
  unfolding w_ftr_def by (rule hdr_other) (auto dest: layoutD(2))

lemma ftr_w:
  assumes "layout H F" "a \<in> H" "e \<in> F"
  shows "ftr (w_size m a v) e = ftr m e" "ftr (w_type m a t) e = ftr m e" "ftr (w_flags m a t) e = ftr m e"
    "ftr (w_alloc m a v) e = ftr m e" "ftr (w_next m a v) e = ftr m e" "ftr (w_prev m a v) e = ftr m e"
  using layoutD(2) [OF assms] unfolding ftr_def w_defs by (intro load_store_other; linarith)+

lemma ftr_w_ftr: "layout H F \<Longrightarrow> e \<in> F \<Longrightarrow> e' \<in> F \<Longrightarrow> ftr (w_ftr m e v) e' = (if e' = e then v else ftr m e')"
  using layoutD(3) [of H F e e'] unfolding ftr_def w_defs by (auto simp: load_store_other)

text \<open>Bytes outside of the cells keep their value.\<close>

definition keeps :: "nat set \<Rightarrow> memory \<Rightarrow> memory \<Rightarrow> bool" where
  "keeps A m m' \<longleftrightarrow> (\<forall>x. x \<notin> A \<longrightarrow> m' x = m x)"

lemma keeps_refl [simp, intro]: "keeps A m m"
  by (simp add: keeps_def)

lemma keeps_trans: "keeps A m m' \<Longrightarrow> keeps B m' m'' \<Longrightarrow> keeps (A \<union> B) m m''"
  by (simp add: keeps_def)

lemma keeps_mono: "keeps A m m' \<Longrightarrow> A \<subseteq> B \<Longrightarrow> keeps B m m'"
  by (auto simp: keeps_def)

lemma keeps_w:
  assumes "keeps (cells H F) m0 m" "a \<in> H"
  shows "keeps (cells H F) m0 (w_size m a v)" "keeps (cells H F) m0 (w_type m a t)" "keeps (cells H F) m0 (w_flags m a t)"
    "keeps (cells H F) m0 (w_alloc m a v)" "keeps (cells H F) m0 (w_next m a v)" "keeps (cells H F) m0 (w_prev m a v)"
proof -
  have sub: "{a..<a + 40} \<subseteq> cells H F" using assms(2) by (auto simp: cells_def)
  have st: "keeps (cells H F) m0 (store_le n m (a + k) w)" if "k + n \<le> 40" for n k and w :: "'w::len word"
    using assms(1) sub that by (auto simp: keeps_def store_le_def subset_iff)
  show "keeps (cells H F) m0 (w_size m a v)" unfolding w_defs using st [of 0 8 v] by simp
  show "keeps (cells H F) m0 (w_type m a t)" "keeps (cells H F) m0 (w_flags m a t)"
    "keeps (cells H F) m0 (w_alloc m a v)" "keeps (cells H F) m0 (w_next m a v)" "keeps (cells H F) m0 (w_prev m a v)"
    unfolding w_defs by (rule st; simp)+
qed

lemma keeps_w_ftr: "keeps (cells H F) m0 m \<Longrightarrow> e \<in> F \<Longrightarrow> keeps (cells H F) m0 (w_ftr m e v)"
  unfolding w_defs by (auto simp: keeps_def store_le_def cells_def)

lemma load_keeps:
  assumes "keeps A m m'" "{p..<p + n} \<inter> A = {}" "p \<le> q" "q + k \<le> p + n"
  shows "load_le k m' q = load_le k m q"
proof (rule load_cong)
  fix i assume "i < k"
  then have "q + i \<in> {p..<p + n}" using assms(3,4) by simp
  then show "m' (q + i) = m (q + i)" using assms(1,2) by (auto simp: keeps_def)
qed

lemma hdr_keeps: "keeps A m m' \<Longrightarrow> {a..<a + 40} \<inter> A = {} \<Longrightarrow> hdr m' a = hdr m a"
  unfolding hdr_def by (simp add: load_keeps [of A m m' a 40])

lemma ftr_keeps: "keeps A m m' \<Longrightarrow> {e..<e + 8} \<inter> A = {} \<Longrightarrow> ftr m' e = ftr m e"
  unfolding ftr_def by (simp add: load_keeps [of A m m' e 8])

subsection \<open>Access at an address\<close>

definition base :: "AivHeap \<Rightarrow> nat" where "base h = unat (pAllocation h)"
definition limit :: "AivHeap \<Rightarrow> nat" where "limit h = unat (pAllocation h) + unat (heapLimit h)"

definition wf_bounds :: "AivHeap \<Rightarrow> bool" where
  "wf_bounds h \<longleftrightarrow> 0 < base h \<and> limit h < 2 ^ 64"

definition hdr_at :: "AivHeap \<Rightarrow> nat \<Rightarrow> bool" where
  "hdr_at h a \<longleftrightarrow> wf_bounds h \<and> base h \<le> a \<and> a + 40 \<le> limit h"

definition ftr_at :: "AivHeap \<Rightarrow> nat \<Rightarrow> bool" where
  "ftr_at h e \<longleftrightarrow> wf_bounds h \<and> base h \<le> e \<and> e + 8 \<le> limit h"

lemma bounds_update [simp]:
  "base (h\<lparr>aiv_mem := m\<rparr>) = base h" "base (h\<lparr>heapSize := x\<rparr>) = base h" "base (h\<lparr>numAlloc := x\<rparr>) = base h" "base (h\<lparr>aiv_pFree := x\<rparr>) = base h" "base (h\<lparr>aiv_pAlloc := x\<rparr>) = base h"
  "limit (h\<lparr>aiv_mem := m\<rparr>) = limit h" "limit (h\<lparr>heapSize := x\<rparr>) = limit h" "limit (h\<lparr>numAlloc := x\<rparr>) = limit h" "limit (h\<lparr>aiv_pFree := x\<rparr>) = limit h" "limit (h\<lparr>aiv_pAlloc := x\<rparr>) = limit h"
  by (simp_all add: base_def limit_def)

lemma at_update [simp]:
  "wf_bounds (h\<lparr>aiv_mem := m\<rparr>) = wf_bounds h" "wf_bounds (h\<lparr>heapSize := x\<rparr>) = wf_bounds h" "wf_bounds (h\<lparr>numAlloc := x\<rparr>) = wf_bounds h" "wf_bounds (h\<lparr>aiv_pFree := x\<rparr>) = wf_bounds h" "wf_bounds (h\<lparr>aiv_pAlloc := x\<rparr>) = wf_bounds h"
  "hdr_at (h\<lparr>aiv_mem := m\<rparr>) a = hdr_at h a" "hdr_at (h\<lparr>heapSize := x\<rparr>) a = hdr_at h a" "hdr_at (h\<lparr>numAlloc := x\<rparr>) a = hdr_at h a" "hdr_at (h\<lparr>aiv_pFree := x\<rparr>) a = hdr_at h a" "hdr_at (h\<lparr>aiv_pAlloc := x\<rparr>) a = hdr_at h a"
  "ftr_at (h\<lparr>aiv_mem := m\<rparr>) e = ftr_at h e" "ftr_at (h\<lparr>heapSize := x\<rparr>) e = ftr_at h e" "ftr_at (h\<lparr>numAlloc := x\<rparr>) e = ftr_at h e" "ftr_at (h\<lparr>aiv_pFree := x\<rparr>) e = ftr_at h e" "ftr_at (h\<lparr>aiv_pAlloc := x\<rparr>) e = ftr_at h e"
  by (simp_all add: wf_bounds_def hdr_at_def ftr_at_def)

lemma unat_addr: "a < 2 ^ 64 \<Longrightarrow> unat (of_nat a :: UINT64) = a"
  by (simp add: unat_of_nat)

lemma in_heap_addr: "wf_bounds h \<Longrightarrow> a < 2 ^ 64 \<Longrightarrow> in_heap h (of_nat a) n \<longleftrightarrow> base h \<le> a \<and> a + n \<le> limit h"
  by (simp add: in_heap_def base_def limit_def unat_addr)

lemma addr_add: "of_nat a + 12 = (of_nat (a + 12) :: UINT64)" "of_nat a + 16 = (of_nat (a + 16) :: UINT64)"
  "of_nat a + 24 = (of_nat (a + 24) :: UINT64)" "of_nat a + 32 = (of_nat (a + 32) :: UINT64)" "of_nat a + 8 = (of_nat (a + 8) :: UINT64)"
  by simp_all

lemma access:
  assumes "hdr_at h a"
  shows "GET_AIV_ALLOCATION_SIZE h (of_nat a) = Some (c_size (hdr (aiv_mem h) a))"
    and "load32 h (of_nat a + 12) = Some (c_flags (hdr (aiv_mem h) a))"
    and "load64 h (of_nat a + 16) = Some (c_alloc (hdr (aiv_mem h) a))"
    and "load64 h (of_nat a + 24) = Some (c_next (hdr (aiv_mem h) a))"
    and "load64 h (of_nat a + 32) = Some (c_prev (hdr (aiv_mem h) a))"
    and "SET_AIV_ALLOCATION_SIZE h (of_nat a) v = Some (h\<lparr>aiv_mem := w_size (aiv_mem h) a v\<rparr>)"
    and "store64 h (of_nat a) v = Some (h\<lparr>aiv_mem := w_size (aiv_mem h) a v\<rparr>)"
    and "store32 h (of_nat a + 8) t = Some (h\<lparr>aiv_mem := w_type (aiv_mem h) a t\<rparr>)"
    and "store32 h (of_nat a + 12) t = Some (h\<lparr>aiv_mem := w_flags (aiv_mem h) a t\<rparr>)"
    and "store64 h (of_nat a + 16) v = Some (h\<lparr>aiv_mem := w_alloc (aiv_mem h) a v\<rparr>)"
    and "store64 h (of_nat a + 24) v = Some (h\<lparr>aiv_mem := w_next (aiv_mem h) a v\<rparr>)"
    and "store64 h (of_nat a + 32) v = Some (h\<lparr>aiv_mem := w_prev (aiv_mem h) a v\<rparr>)"
proof -
  have b: "wf_bounds h" "base h \<le> a" "a + 40 \<le> limit h" "a + 40 < 2 ^ 64" using assms by (auto simp: hdr_at_def wf_bounds_def)
  have i: "in_heap h (of_nat (a + k)) n" "unat (of_nat (a + k) :: UINT64) = a + k" if "k + n \<le> 40" for k n
    using that b in_heap_addr [of h "a + k" n] unat_addr [of "a + k"] by linarith+
  have i0: "in_heap h (of_nat a) 8" "unat (of_nat a :: UINT64) = a" using i [of 0 8] by simp_all
  note sims = load64_def load32_def store64_def store32_def GET_AIV_ALLOCATION_SIZE_def SET_AIV_ALLOCATION_SIZE_def hdr_def w_defs
  show "GET_AIV_ALLOCATION_SIZE h (of_nat a) = Some (c_size (hdr (aiv_mem h) a))"
    "SET_AIV_ALLOCATION_SIZE h (of_nat a) v = Some (h\<lparr>aiv_mem := w_size (aiv_mem h) a v\<rparr>)"
    "store64 h (of_nat a) v = Some (h\<lparr>aiv_mem := w_size (aiv_mem h) a v\<rparr>)"
    using i0 by (simp_all add: sims)
  show "load32 h (of_nat a + 12) = Some (c_flags (hdr (aiv_mem h) a))"
    "store32 h (of_nat a + 12) t = Some (h\<lparr>aiv_mem := w_flags (aiv_mem h) a t\<rparr>)"
    "store32 h (of_nat a + 8) t = Some (h\<lparr>aiv_mem := w_type (aiv_mem h) a t\<rparr>)"
    unfolding addr_add using i [of 12 4] i [of 8 4] by (simp_all add: sims del: of_nat_add)
  show "load64 h (of_nat a + 16) = Some (c_alloc (hdr (aiv_mem h) a))"
    "load64 h (of_nat a + 24) = Some (c_next (hdr (aiv_mem h) a))"
    "load64 h (of_nat a + 32) = Some (c_prev (hdr (aiv_mem h) a))"
    "store64 h (of_nat a + 16) v = Some (h\<lparr>aiv_mem := w_alloc (aiv_mem h) a v\<rparr>)"
    "store64 h (of_nat a + 24) v = Some (h\<lparr>aiv_mem := w_next (aiv_mem h) a v\<rparr>)"
    "store64 h (of_nat a + 32) v = Some (h\<lparr>aiv_mem := w_prev (aiv_mem h) a v\<rparr>)"
    unfolding addr_add using i [of 16 8] i [of 24 8] i [of 32 8] by (simp_all add: sims del: of_nat_add)
qed

lemma access_ftr:
  assumes "ftr_at h e"
  shows "load64 h (of_nat e) = Some (ftr (aiv_mem h) e)"
    and "store64 h (of_nat e) v = Some (h\<lparr>aiv_mem := w_ftr (aiv_mem h) e v\<rparr>)"
    and "put_gAivFooter h (of_nat e) = Some (h\<lparr>aiv_mem := w_ftr (aiv_mem h) e 0\<rparr>)"
proof -
  have e: "e < 2 ^ 64" "wf_bounds h" "base h \<le> e" "e + 8 \<le> limit h" using assms by (auto simp: ftr_at_def wf_bounds_def)
  then have "in_heap h (of_nat e) 8" "unat (of_nat e :: UINT64) = e" by (simp_all add: in_heap_addr unat_addr)
  then show "load64 h (of_nat e) = Some (ftr (aiv_mem h) e)"
    "store64 h (of_nat e) v = Some (h\<lparr>aiv_mem := w_ftr (aiv_mem h) e v\<rparr>)"
    "put_gAivFooter h (of_nat e) = Some (h\<lparr>aiv_mem := w_ftr (aiv_mem h) e 0\<rparr>)"
    by (simp_all add: load64_def store64_def put_gAivFooter_def ftr_def w_defs)
qed

text \<open>The footer of the block at \<open>a\<close>, when its header says so.\<close>

lemma footer_at:
  assumes "hdr_at h a" "c_size (hdr (aiv_mem h) a) = of_nat s" "e = a + 40 + s"
  shows "GET_AIV_ALLOCATION_FOOTER h (of_nat a) = Some (of_nat e)"
    and "ftr_at h e \<Longrightarrow> GET_AIV_ALLOCATION_FOOTER_SIZE h (of_nat a) = Some (ftr (aiv_mem h) e)"
    and "ftr_at h e \<Longrightarrow> SET_AIV_ALLOCATION_FOOTER_SIZE h (of_nat a) = Some (h\<lparr>aiv_mem := w_ftr (aiv_mem h) e (of_nat s)\<rparr>)"
proof -
  have "GET_AIV_ALLOCATION (of_nat a) + of_nat s = of_nat e"
    by (simp add: GET_AIV_ALLOCATION_def AIV_ALLOCATION_HEADER_SIZE_def assms(3))
  then show 1: "GET_AIV_ALLOCATION_FOOTER h (of_nat a) = Some (of_nat e)"
    by (simp add: GET_AIV_ALLOCATION_FOOTER_def access [OF assms(1)] assms(2))
  show "ftr_at h e \<Longrightarrow> GET_AIV_ALLOCATION_FOOTER_SIZE h (of_nat a) = Some (ftr (aiv_mem h) e)"
    "ftr_at h e \<Longrightarrow> SET_AIV_ALLOCATION_FOOTER_SIZE h (of_nat a) = Some (h\<lparr>aiv_mem := w_ftr (aiv_mem h) e (of_nat s)\<rparr>)"
    by (simp_all add: GET_AIV_ALLOCATION_FOOTER_SIZE_def SET_AIV_ALLOCATION_FOOTER_SIZE_def 1 access_ftr access [OF assms(1)] assms(2))
qed

end
