(* ===== verification/AivHeapInv.thy ===== *)
theory AivHeapInv
  imports AivHeapMem
begin

text \<open>
  The shape of an AIV heap: blocks that tile the allocation, described by their headers and footers, and the two chains that hold the free
  and the allocated blocks. The definitions in this theory are about addresses and cells only.
\<close>

subsection \<open>Doubly linked chains\<close>

fun first_ptr :: "nat list \<Rightarrow> UINT64" where
  "first_ptr [] = 0"
| "first_ptr (x # xs) = of_nat x"

definition last_ptr :: "nat list \<Rightarrow> UINT64" where
  "last_ptr xs = (if xs = [] then 0 else of_nat (last xs))"

fun chain :: "(nat \<Rightarrow> cell) \<Rightarrow> UINT64 \<Rightarrow> nat list \<Rightarrow> UINT64 \<Rightarrow> bool" where
  "chain f p [] n \<longleftrightarrow> True"
| "chain f p (x # xs) n \<longleftrightarrow> c_prev (f x) = p \<and> c_next (f x) = (if xs = [] then n else first_ptr xs) \<and> chain f (of_nat x) xs n"

definition dll :: "(nat \<Rightarrow> cell) \<Rightarrow> UINT64 \<Rightarrow> nat list \<Rightarrow> bool" where
  "dll f c xs \<longleftrightarrow> c = first_ptr xs \<and> chain f 0 xs 0"

lemma chain_cong:
  "(\<And>x. x \<in> set xs \<Longrightarrow> c_next (f x) = c_next (g x) \<and> c_prev (f x) = c_prev (g x)) \<Longrightarrow> chain f p xs n = chain g p xs n"
  by (induction xs arbitrary: p) auto

lemma dll_cong:
  "(\<And>x. x \<in> set xs \<Longrightarrow> c_next (f x) = c_next (g x) \<and> c_prev (f x) = c_prev (g x)) \<Longrightarrow> dll f c xs = dll g c xs"
  unfolding dll_def using chain_cong [of xs f g 0 0] by simp

lemma first_ptr_append: "first_ptr (us @ vs) = (if us = [] then first_ptr vs else first_ptr us)"
  by (cases us) simp_all

lemma hchain_append:
  "chain f p (us @ vs) n \<longleftrightarrow>
   chain f p us (if vs = [] then n else first_ptr vs) \<and> chain f (if us = [] then p else of_nat (last us)) vs n"
  by (induction us arbitrary: p) (auto simp: first_ptr_append)

text \<open>The neighbours of a gap in the chain linked to new pointers.\<close>

definition linked :: "(nat \<Rightarrow> cell) \<Rightarrow> nat list \<Rightarrow> nat list \<Rightarrow> UINT64 \<Rightarrow> UINT64 \<Rightarrow> nat \<Rightarrow> cell" where
  "linked f us vs X Y = (\<lambda>b.
     (f b)\<lparr>c_prev := if vs \<noteq> [] \<and> b = hd vs then X else c_prev (f b),
           c_next := if us \<noteq> [] \<and> b = last us then Y else c_next (f b)\<rparr>)"

lemma chain_linked_left:
  assumes "chain f p us n" "distinct (us @ vs)" "us \<noteq> []"
  shows "chain (linked f us vs X Y) p us Y"
proof -
  obtain us' l where us: "us = us' @ [l]" using assms(3) by (metis rev_exhaust)
  have "chain f p us' (of_nat l)" "c_prev (f l) = (if us' = [] then p else of_nat (last us'))"
    using assms(1) by (simp_all add: us hchain_append)
  moreover have "chain (linked f us vs X Y) p us' (of_nat l) = chain f p us' (of_nat l)"
    using assms(2) by (intro chain_cong) (auto simp: us linked_def)
  moreover have "c_prev (linked f us vs X Y l) = c_prev (f l)" "c_next (linked f us vs X Y l) = Y"
    using assms(2) by (auto simp: us linked_def)
  ultimately show ?thesis by (simp add: us hchain_append)
qed

lemma chain_linked_right:
  assumes "chain f p vs n" "distinct (us @ vs)" "vs \<noteq> []"
  shows "chain (linked f us vs X Y) X vs n"
proof -
  obtain v vs' where vs: "vs = v # vs'" using assms(3) by (cases vs) auto
  have last: "us \<noteq> [] \<longrightarrow> last us \<notin> set vs" using assms(2) by (auto dest: last_in_set)
  have "chain (linked f us vs X Y) (of_nat v) vs' n = chain f (of_nat v) vs' n"
    using assms(2) last by (intro chain_cong) (auto simp: vs linked_def)
  moreover have "c_next (linked f us vs X Y v) = c_next (f v)" "c_prev (linked f us vs X Y v) = X"
    using last by (auto simp: vs linked_def)
  ultimately show ?thesis using assms(1) by (simp add: vs)
qed

lemma dll_around:
  assumes "dll f c (us @ p # vs)"
  shows "c_next (f p) = first_ptr vs" "c_prev (f p) = last_ptr us" "c = (if us = [] then of_nat p else first_ptr us)"
    and "chain f 0 us (of_nat p)" "chain f (of_nat p) vs 0"
proof -
  have "chain f 0 (us @ p # vs) 0" "c = first_ptr (us @ p # vs)" using assms by (simp_all add: dll_def)
  then show "c_next (f p) = first_ptr vs" "c_prev (f p) = last_ptr us" "c = (if us = [] then of_nat p else first_ptr us)"
    "chain f 0 us (of_nat p)" "chain f (of_nat p) vs 0"
    by (cases vs; auto simp: hchain_append first_ptr_append last_ptr_def)+
qed

lemma dll_unlink:
  assumes "dll f c (us @ p # vs)" "distinct (us @ p # vs)"
  shows "dll (linked f us vs (last_ptr us) (first_ptr vs)) (if us = [] then first_ptr vs else c) (us @ vs)"
proof -
  note a = dll_around [OF assms(1)]
  have d: "distinct (us @ vs)" using assms(2) by simp
  let ?g = "linked f us vs (last_ptr us) (first_ptr vs)"
  have l: "us \<noteq> [] \<Longrightarrow> chain ?g 0 us (first_ptr vs)" using chain_linked_left [OF a(4) d] by blast
  have r: "vs \<noteq> [] \<Longrightarrow> chain ?g (last_ptr us) vs 0" using chain_linked_right [OF a(5) d] by blast
  have "chain ?g 0 (us @ vs) 0" using l r by (cases "us = []"; cases "vs = []"; simp add: hchain_append last_ptr_def)
  then show ?thesis using a(3) by (simp add: dll_def first_ptr_append)
qed

lemma dll_replace:
  assumes "dll f c (us @ p # vs)" "distinct (us @ p # vs)"
    and "\<And>x. x \<in> set us \<union> set vs \<Longrightarrow> c_next (g x) = c_next (linked f us vs (of_nat q) (of_nat q) x) \<and> c_prev (g x) = c_prev (linked f us vs (of_nat q) (of_nat q) x)"
    and "c_next (g q) = first_ptr vs" "c_prev (g q) = last_ptr us"
  shows "dll g (if us = [] then of_nat q else c) (us @ q # vs)"
proof -
  note a = dll_around [OF assms(1)]
  have d: "distinct (us @ vs)" using assms(2) by simp
  let ?g = "linked f us vs (of_nat q) (of_nat q)"
  have "us \<noteq> [] \<Longrightarrow> chain ?g 0 us (of_nat q)" using chain_linked_left [OF a(4) d] by blast
  moreover have "chain ?g 0 us (of_nat q) = chain g 0 us (of_nat q)" by (rule chain_cong) (use assms(3) in auto)
  ultimately have l: "us \<noteq> [] \<Longrightarrow> chain g 0 us (of_nat q)" by blast
  have "vs \<noteq> [] \<Longrightarrow> chain ?g (of_nat q) vs 0" using chain_linked_right [OF a(5) d] by blast
  moreover have "chain ?g (of_nat q) vs 0 = chain g (of_nat q) vs 0" by (rule chain_cong) (use assms(3) in auto)
  ultimately have r: "vs \<noteq> [] \<Longrightarrow> chain g (of_nat q) vs 0" by blast
  have "chain g 0 (us @ q # vs) 0"
    using l r assms(4,5) by (cases "us = []"; cases "vs = []"; simp add: hchain_append last_ptr_def)
  then show ?thesis using a(3) by (simp add: dll_def first_ptr_append)
qed

lemma dll_push:
  assumes "dll f c xs" "distinct xs"
    and "\<And>x. x \<in> set xs \<Longrightarrow> c_next (g x) = c_next (f x) \<and> c_prev (g x) = (if x = hd xs then of_nat q else c_prev (f x))"
    and "c_next (g q) = c" "c_prev (g q) = 0"
  shows "dll g (of_nat q) (q # xs)"
proof (cases xs)
  case Nil
  then show ?thesis using assms by (simp add: dll_def)
next
  case (Cons x xs')
  have "chain g (of_nat x) xs' 0 = chain f (of_nat x) xs' 0" by (rule chain_cong) (use assms(2,3) Cons in auto)
  then show ?thesis using assms Cons by (simp add: dll_def)
qed

subsection \<open>Blocks\<close>

text \<open>A block is free, allocated with a requested size, or in none of the chains.\<close>

datatype kind = KFree | KAlloc nat | KNone nat

type_synonym block = "nat \<times> nat \<times> kind"

fun tiles :: "nat \<Rightarrow> block list \<Rightarrow> nat \<Rightarrow> bool" where
  "tiles a [] e \<longleftrightarrow> a = e"
| "tiles a ((p, s, k) # bs) e \<longleftrightarrow> p = a \<and> 0 < s \<and> tiles (a + 48 + s) bs e"

definition addrs :: "block list \<Rightarrow> nat set" where "addrs bs = fst ` set bs"
definition ends :: "block list \<Rightarrow> nat set" where "ends bs = (\<lambda>(p, s, k). p + 40 + s) ` set bs"

lemma addrs_simps [simp]: "addrs [] = {}" "addrs ((p, s, k) # bs) = insert p (addrs bs)" "addrs (xs @ ys) = addrs xs \<union> addrs ys"
  by (auto simp: addrs_def)

lemma ends_simps [simp]: "ends [] = {}" "ends ((p, s, k) # bs) = insert (p + 40 + s) (ends bs)" "ends (xs @ ys) = ends xs \<union> ends ys"
  by (simp_all add: ends_def image_Un)

lemma tiles_append: "tiles a (xs @ ys) e \<longleftrightarrow> (\<exists>m. tiles a xs m \<and> tiles m ys e)"
  by (induction a xs e rule: tiles.induct) auto

lemma tiles_le: "tiles a bs e \<Longrightarrow> a \<le> e"
  by (induction a bs e rule: tiles.induct) auto

lemma tiles_bounds: "tiles a bs e \<Longrightarrow> (p, s, k) \<in> set bs \<Longrightarrow> a \<le> p \<and> p + 48 + s \<le> e \<and> 0 < s"
  by (induction a bs e rule: tiles.induct) (auto dest: tiles_le)

lemma tiles_addr: "tiles a bs e \<Longrightarrow> p \<in> addrs bs \<Longrightarrow> a \<le> p \<and> p + 48 < e"
  unfolding addrs_def by (force dest: tiles_bounds)

lemma tiles_end: "tiles a bs e \<Longrightarrow> x \<in> ends bs \<Longrightarrow> a + 40 < x \<and> x + 8 \<le> e"
  unfolding ends_def by (force dest: tiles_bounds)

lemma tiles_sep:
  "tiles a bs e \<Longrightarrow> (p, s, k) \<in> set bs \<Longrightarrow> (q, t, l) \<in> set bs \<Longrightarrow> (p, s, k) = (q, t, l) \<or> p + 48 + s \<le> q \<or> q + 48 + t \<le> p"
proof (induction a bs e rule: tiles.induct)
  case (2 a p' s' k' bs e)
  then show ?case using tiles_bounds [of "a + 48 + s'" bs e] by fastforce
qed simp

lemma tiles_same_addr: "tiles a bs e \<Longrightarrow> (p, s, k) \<in> set bs \<Longrightarrow> (p, t, l) \<in> set bs \<Longrightarrow> s = t \<and> k = l"
  using tiles_sep [of a bs e p s k p t l] by fastforce

lemma layout_tiles:
  assumes "tiles a bs e"
  shows "layout (addrs bs) (ends bs)"
  unfolding layout_def addrs_def ends_def using tiles_sep [OF assms] by fastforce

lemma tiles_distinct: "tiles a bs e \<Longrightarrow> distinct (map fst bs)"
proof (induction a bs e rule: tiles.induct)
  case (2 a p s k bs e)
  then show ?case using tiles_bounds [of "a + 48 + s" bs e] by fastforce
qed simp

fun flags_of :: "kind \<Rightarrow> UINT32" where
  "flags_of KFree = ALLOCATION_FLAGS_FREE"
| "flags_of (KAlloc n) = ALLOCATION_FLAGS_ALLOC"
| "flags_of (KNone n) = ALLOCATION_FLAGS_NONE"

fun kind_ok :: "cell \<Rightarrow> nat \<Rightarrow> kind \<Rightarrow> bool" where
  "kind_ok c s KFree \<longleftrightarrow> True"
| "kind_ok c s (KAlloc n) \<longleftrightarrow> c_alloc c = of_nat n \<and> 0 < n \<and> n \<le> s"
| "kind_ok c s (KNone n) \<longleftrightarrow> c_alloc c = of_nat n \<and> c_next c = 0 \<and> c_prev c = 0"

definition block_ok :: "(nat \<Rightarrow> cell) \<Rightarrow> (nat \<Rightarrow> UINT64) \<Rightarrow> block \<Rightarrow> bool" where
  "block_ok f g b \<longleftrightarrow> (case b of (p, s, k) \<Rightarrow>
     c_size (f p) = of_nat s \<and> g (p + 40 + s) = of_nat s \<and> c_flags (f p) = flags_of k \<and> kind_ok (f p) s k)"

lemma block_ok_cong: "f p = f' p \<Longrightarrow> g (p + 40 + s) = g' (p + 40 + s) \<Longrightarrow> block_ok f g (p, s, k) = block_ok f' g' (p, s, k)"
  by (simp add: block_ok_def)

definition frees :: "block list \<Rightarrow> nat set" where "frees bs = {p. \<exists>s. (p, s, KFree) \<in> set bs}"
definition allocs :: "block list \<Rightarrow> nat set" where "allocs bs = {p. \<exists>s n. (p, s, KAlloc n) \<in> set bs}"

lemma frees_simps [simp]: "frees [] = {}" "frees ((p, s, KFree) # bs) = insert p (frees bs)" "frees ((p, s, KAlloc n) # bs) = frees bs"
  "frees ((p, s, KNone n) # bs) = frees bs" "frees (xs @ ys) = frees xs \<union> frees ys"
  by (auto simp: frees_def)

lemma allocs_simps [simp]: "allocs [] = {}" "allocs ((p, s, KAlloc n) # bs) = insert p (allocs bs)" "allocs ((p, s, KFree) # bs) = allocs bs"
  "allocs ((p, s, KNone n) # bs) = allocs bs" "allocs (xs @ ys) = allocs xs \<union> allocs ys"
  by (auto simp: allocs_def)

lemma frees_addrs: "frees bs \<subseteq> addrs bs" "allocs bs \<subseteq> addrs bs"
  by (force simp: frees_def allocs_def addrs_def)+

definition heap_shape :: "AivHeap \<Rightarrow> block list \<Rightarrow> nat list \<Rightarrow> nat list \<Rightarrow> bool" where
  "heap_shape h bs fs as \<longleftrightarrow> wf_bounds h \<and> tiles (base h) bs (limit h) \<and>
     (\<forall>b\<in>set bs. block_ok (hdr (aiv_mem h)) (ftr (aiv_mem h)) b) \<and>
     dll (hdr (aiv_mem h)) (aiv_pFree h) fs \<and> dll (hdr (aiv_mem h)) (aiv_pAlloc h) as \<and>
     distinct fs \<and> distinct as \<and> set fs = frees bs \<and> set as = allocs bs"

lemma heap_shapeD:
  assumes "heap_shape h bs fs as"
  shows "wf_bounds h" "tiles (base h) bs (limit h)" "b \<in> set bs \<Longrightarrow> block_ok (hdr (aiv_mem h)) (ftr (aiv_mem h)) b"
    "dll (hdr (aiv_mem h)) (aiv_pFree h) fs" "dll (hdr (aiv_mem h)) (aiv_pAlloc h) as" "distinct fs" "distinct as"
    "set fs = frees bs" "set as = allocs bs" "layout (addrs bs) (ends bs)"
  using assms layout_tiles unfolding heap_shape_def by blast+

lemma shape_at:
  assumes "wf_bounds h" "tiles (base h) bs (limit h)"
  shows "p \<in> addrs bs \<Longrightarrow> hdr_at h p" "e \<in> ends bs \<Longrightarrow> ftr_at h e"
  using assms tiles_addr [OF assms(2)] tiles_end [OF assms(2)] by (fastforce simp: hdr_at_def ftr_at_def)+

lemma addr_nonzero: "hdr_at h p \<Longrightarrow> (of_nat p :: UINT64) \<noteq> 0"
proof -
  assume "hdr_at h p"
  then have "0 < p" "p < 2 ^ 64" by (auto simp: hdr_at_def wf_bounds_def)
  then show ?thesis using unat_addr [of p] by (metis less_irrefl unat_0)
qed

lemma addr_inj:
  assumes "hdr_at h p" "hdr_at h q"
  shows "(of_nat p :: UINT64) = of_nat q \<longleftrightarrow> p = q"
proof -
  have "p < 2 ^ 64" "q < 2 ^ 64" using assms by (auto simp: hdr_at_def wf_bounds_def)
  then show ?thesis using unat_addr by metis
qed

lemma kind_of_addr:
  assumes "tiles a bs e" "(p, s, k) \<in> set bs"
  shows "p \<in> frees bs \<longleftrightarrow> k = KFree" "p \<in> allocs bs \<longleftrightarrow> (\<exists>n. k = KAlloc n)"
  unfolding frees_def allocs_def using assms tiles_same_addr [OF assms] by blast+

lemma frees_allocs: "tiles a bs e \<Longrightarrow> frees bs \<inter> allocs bs = {}"
  unfolding frees_def allocs_def by (auto dest: tiles_same_addr)

lemma shape_facts:
  assumes sh: "heap_shape h bs fs as"
  shows "a \<in> addrs bs \<Longrightarrow> hdr_at h a" "e \<in> ends bs \<Longrightarrow> ftr_at h e"
    "set fs \<subseteq> addrs bs" "set as \<subseteq> addrs bs" "set fs \<inter> set as = {}" "layout (addrs bs) (ends bs)"
  using shape_at [OF heap_shapeD(1,2) [OF sh]] heap_shapeD(8,9,10) [OF sh] frees_addrs [of bs] frees_allocs [OF heap_shapeD(2) [OF sh]] by auto

lemma linked_cong: "f x = g x \<Longrightarrow> linked f us vs X Y x = linked g us vs X Y x"
  by (simp add: linked_def)

lemma linked_other: "x \<notin> set us \<Longrightarrow> x \<notin> set vs \<Longrightarrow> linked f us vs X Y x = f x"
proof -
  assume "x \<notin> set us" "x \<notin> set vs"
  then have "\<not> (us \<noteq> [] \<and> x = last us)" "\<not> (vs \<noteq> [] \<and> x = hd vs)" by auto
  then show ?thesis unfolding linked_def by (simp only: if_False) simp
qed

lemma tiles_rest:
  assumes "tiles a (xs @ (p, s, k) # ys) e"
  shows "p \<notin> addrs xs \<union> addrs ys" "p + 40 + s \<notin> ends xs \<union> ends ys"
proof -
  have *: "\<exists>m. tiles a xs m \<and> tiles m ((p, s, k) # ys) e" using assms by (simp only: tiles_append)
  then obtain m where m: "tiles a xs m" "p = m" "tiles (m + 48 + s) ys e" by auto
  show "p \<notin> addrs xs \<union> addrs ys" using tiles_addr [OF m(1), of p] tiles_addr [OF m(3), of p] m(2) by auto
  show "p + 40 + s \<notin> ends xs \<union> ends ys" using tiles_end [OF m(1), of "p + 40 + s"] tiles_end [OF m(3), of "p + 40 + s"] m(2) by auto
qed

end
