(* ===== verification/AivHeapOps.thy ===== *)
theory AivHeapOps
  imports AivHeapInv
begin

text \<open>
  The block operations of the AIV heap on a heap of known shape: which blocks and chains they leave, and which bytes they touch.
\<close>

lemmas sizes = AIV_ALLOCATION_HEADER_SIZE_def AIV_ALLOCATION_FOOTER_SIZE_def MIN_FREE_ALLOCATION_SIZE_def MIN_FREE_BLOCK_SIZE_def
  HEAP_PACKED_SIZE_def GET_AIV_ALLOCATION_def GET_AIV_ALLOCATION_HEADER_def

subsection \<open>Linking\<close>

definition link_mem :: "memory \<Rightarrow> nat list \<Rightarrow> nat list \<Rightarrow> UINT64 \<Rightarrow> UINT64 \<Rightarrow> memory" where
  "link_mem m us vs X Y = (let m1 = (if vs = [] then m else w_prev m (hd vs) X) in if us = [] then m1 else w_next m1 (last us) Y)"

definition link_mem' :: "memory \<Rightarrow> nat list \<Rightarrow> nat list \<Rightarrow> UINT64 \<Rightarrow> UINT64 \<Rightarrow> memory" where
  "link_mem' m us vs X Y = (let m1 = (if us = [] then m else w_next m (last us) Y) in if vs = [] then m1 else w_prev m1 (hd vs) X)"

lemma link_mem_view:
  assumes lay: "layout H F" and us: "set us \<subseteq> H" and vs: "set vs \<subseteq> H"
  shows "b \<in> H \<Longrightarrow> hdr (link_mem m us vs X Y) b = linked (hdr m) us vs X Y b"
    and "b \<in> H \<Longrightarrow> hdr (link_mem' m us vs X Y) b = linked (hdr m) us vs X Y b"
    and "e \<in> F \<Longrightarrow> ftr (link_mem m us vs X Y) e = ftr m e"
    and "e \<in> F \<Longrightarrow> ftr (link_mem' m us vs X Y) e = ftr m e"
    and "keeps (cells H F) m0 m \<Longrightarrow> keeps (cells H F) m0 (link_mem m us vs X Y)"
    and "keeps (cells H F) m0 m \<Longrightarrow> keeps (cells H F) m0 (link_mem' m us vs X Y)"
proof -
  have l: "us \<noteq> [] \<Longrightarrow> last us \<in> H" and h: "vs \<noteq> [] \<Longrightarrow> hd vs \<in> H" using us vs by auto
  note r = hdr_w [OF lay] ftr_w [OF lay] keeps_w
  show "b \<in> H \<Longrightarrow> hdr (link_mem m us vs X Y) b = linked (hdr m) us vs X Y b"
    "b \<in> H \<Longrightarrow> hdr (link_mem' m us vs X Y) b = linked (hdr m) us vs X Y b"
    using l h by (cases "us = []"; cases "vs = []"; simp add: link_mem_def link_mem'_def linked_def r)+
  show "e \<in> F \<Longrightarrow> ftr (link_mem m us vs X Y) e = ftr m e" "e \<in> F \<Longrightarrow> ftr (link_mem' m us vs X Y) e = ftr m e"
    "keeps (cells H F) m0 m \<Longrightarrow> keeps (cells H F) m0 (link_mem m us vs X Y)"
    "keeps (cells H F) m0 m \<Longrightarrow> keeps (cells H F) m0 (link_mem' m us vs X Y)"
    using l h by (cases "us = []"; cases "vs = []"; simp add: link_mem_def link_mem'_def r)+
qed

lemma ptr_nonzero:
  assumes "\<forall>x\<in>set xs. hdr_at h x"
  shows "first_ptr xs = 0 \<longleftrightarrow> xs = []" "xs \<noteq> [] \<Longrightarrow> first_ptr xs = of_nat (hd xs)"
    "last_ptr xs = 0 \<longleftrightarrow> xs = []" "xs \<noteq> [] \<Longrightarrow> last_ptr xs = of_nat (last xs)"
  using assms addr_nonzero [of h] by (cases xs; simp add: last_ptr_def)+

lemma unlinkFree_run:
  assumes at: "hdr_at h p" "\<forall>x\<in>set us \<union> set vs. hdr_at h x"
    and dll: "dll (hdr (aiv_mem h)) (aiv_pFree h) (us @ p # vs)"
  shows "unlinkFree h (of_nat p) = Some (h\<lparr>aiv_mem := link_mem (aiv_mem h) us vs (last_ptr us) (first_ptr vs),
      aiv_pFree := if us = [] then first_ptr vs else aiv_pFree h\<rparr>)"
proof -
  note d = dll_around [OF dll]
  have at': "us \<noteq> [] \<Longrightarrow> hdr_at h (last us)" "vs \<noteq> [] \<Longrightarrow> hdr_at h (hd vs)" using at(2) by auto
  note pu = ptr_nonzero [of us h] and pv = ptr_nonzero [of vs h]
  show ?thesis using at pu pv d at'
    by (cases "us = []"; cases "vs = []"; simp add: unlinkFree_def access CHECK_def link_mem_def)
qed

lemma relinkFree_run:
  assumes lay: "layout H F" "q \<in> H" "set us \<subseteq> H" "set vs \<subseteq> H" "q \<notin> set us" "q \<notin> set vs"
    and at: "hdr_at h q" "\<forall>x\<in>set us \<union> set vs. hdr_at h x"
    and q: "c_next (hdr (aiv_mem h) q) = first_ptr vs" "c_prev (hdr (aiv_mem h) q) = last_ptr us"
    and p: "us = [] \<longrightarrow> aiv_pFree h = of_nat p"
  shows "relinkFree h (of_nat p) (of_nat q) = Some (h\<lparr>aiv_mem := link_mem (aiv_mem h) us vs (of_nat q) (of_nat q),
      aiv_pFree := if us = [] then of_nat q else aiv_pFree h\<rparr>)"
proof -
  have at': "us \<noteq> [] \<Longrightarrow> hdr_at h (last us)" "vs \<noteq> [] \<Longrightarrow> hdr_at h (hd vs)" using at(2) by auto
  have H: "vs \<noteq> [] \<Longrightarrow> hd vs \<in> H" "vs \<noteq> [] \<Longrightarrow> hd vs \<noteq> q" using lay by auto
  note pu = ptr_nonzero [of us h] and pv = ptr_nonzero [of vs h]
  show ?thesis using at pu pv at' q p H lay(2)
    by (cases "us = []"; cases "vs = []"; simp add: relinkFree_def access CHECK_def link_mem_def hdr_w [OF lay(1)])
qed

subsection \<open>Blocks that do not change\<close>

definition settled :: "block list \<Rightarrow> bool" where
  "settled bs \<longleftrightarrow> (\<forall>p s n. (p, s, KNone n) \<notin> set bs)"

lemma settled_simps [simp]: "settled []" "settled ((p, s, KFree) # bs) = settled bs" "settled ((p, s, KAlloc n) # bs) = settled bs"
  "\<not> settled ((p, s, KNone n) # bs)" "settled (xs @ ys) \<longleftrightarrow> settled xs \<and> settled ys"
  by (auto simp: settled_def)

lemma block_ok_same:
  assumes "block_ok f g (p, s, k)" "\<And>n. k \<noteq> KNone n"
    and "c_size (f' p) = c_size (f p)" "c_flags (f' p) = c_flags (f p)" "c_alloc (f' p) = c_alloc (f p)" "g' (p + 40 + s) = g (p + 40 + s)"
  shows "block_ok f' g' (p, s, k)"
  using assms by (cases k) (auto simp: block_ok_def)

lemma blocks_same:
  assumes "\<forall>b\<in>set bs. block_ok f g b" "settled bs"
    and "\<And>p. p \<in> addrs bs \<Longrightarrow> c_size (f' p) = c_size (f p) \<and> c_flags (f' p) = c_flags (f p) \<and> c_alloc (f' p) = c_alloc (f p)"
    and "\<And>e. e \<in> ends bs \<Longrightarrow> g' e = g e"
  shows "\<forall>b\<in>set bs. block_ok f' g' b"
proof
  fix b assume b: "b \<in> set bs"
  obtain p s k where [simp]: "b = (p, s, k)" by (cases b)
  have "p \<in> addrs bs" "p + 40 + s \<in> ends bs" using b by (force simp: addrs_def ends_def)+
  then have "c_size (f' p) = c_size (f p)" "c_flags (f' p) = c_flags (f p)" "c_alloc (f' p) = c_alloc (f p)" "g' (p + 40 + s) = g (p + 40 + s)"
    using assms(3,4) by blast+
  moreover have "block_ok f g (p, s, k)" "\<And>n. k \<noteq> KNone n" using b assms(1,2) by (auto simp: settled_def)
  ultimately show "block_ok f' g' b" using block_ok_same by simp
qed

lemma linked_fields [simp]: "c_size (linked f us vs X Y b) = c_size (f b)" "c_flags (linked f us vs X Y b) = c_flags (f b)"
  "c_alloc (linked f us vs X Y b) = c_alloc (f b)"
  by (simp_all add: linked_def)

text \<open>A heap in which some blocks have been replaced has the new shape if the others, the chains apart, are as before.\<close>

lemma shapeI:
  assumes "wf_bounds h" "tiles (base h) (xs @ new @ ys) (limit h)"
    and old: "\<forall>b\<in>set (xs @ ys). block_ok (hdr m) (ftr m) b" "settled xs" "settled ys"
    and same: "\<And>a. a \<in> addrs xs \<union> addrs ys \<Longrightarrow>
      c_size (hdr (aiv_mem h) a) = c_size (hdr m a) \<and> c_flags (hdr (aiv_mem h) a) = c_flags (hdr m a) \<and> c_alloc (hdr (aiv_mem h) a) = c_alloc (hdr m a)"
      "\<And>e. e \<in> ends xs \<union> ends ys \<Longrightarrow> ftr (aiv_mem h) e = ftr m e"
    and "\<And>b. b \<in> set new \<Longrightarrow> block_ok (hdr (aiv_mem h)) (ftr (aiv_mem h)) b"
    and "dll (hdr (aiv_mem h)) (aiv_pFree h) fs" "dll (hdr (aiv_mem h)) (aiv_pAlloc h) as" "distinct fs" "distinct as"
    and "set fs = frees (xs @ new @ ys)" "set as = allocs (xs @ new @ ys)"
  shows "heap_shape h (xs @ new @ ys) fs as"
proof -
  have "\<forall>b\<in>set (xs @ ys). block_ok (hdr (aiv_mem h)) (ftr (aiv_mem h)) b"
    by (rule blocks_same [OF old(1)]) (use old(2,3) same in auto)
  then show ?thesis unfolding heap_shape_def using assms by auto
qed

subsection \<open>Splitting a free block\<close>

lemma splitFree_whole:
  assumes sh: "heap_shape h (xs @ (p, s, KFree) # ys) (us @ p # vs) as"
    and st: "settled xs" "settled ys" and n: "n \<le> s" "s < n + 64" and s64: "s < 2 ^ 60"
  obtains h' where "splitFreeBlock h (of_nat p) (of_nat n) = Some h'"
    "heap_shape h' (xs @ (p, s, KNone n) # ys) (us @ vs) as"
    "heapSize h' = heapSize h + of_nat (s - n)" "numAlloc h' = numAlloc h" "heapLimit h' = heapLimit h" "pAllocation h' = pAllocation h"
    "keeps (cells (addrs (xs @ (p, s, KFree) # ys)) (ends (xs @ (p, s, KFree) # ys))) (aiv_mem h) (aiv_mem h')"
proof -
  let ?bs = "xs @ (p, s, KFree) # ys" and ?bs' = "xs @ (p, s, KNone n) # ys"
  define H where "H = addrs ?bs"
  define F where "F = ends ?bs"
  note D = heap_shapeD [OF sh]
  have lay: "layout H F" using D(10) by (simp add: H_def F_def)
  have p: "p \<in> H" by (simp add: H_def)
  note S = shape_facts [OF sh, folded H_def F_def]
  have fr: "set us \<subseteq> H" "set vs \<subseteq> H" and asf: "set as \<inter> (set us \<union> set vs) = {}" "p \<notin> set as" using S(3,5) by auto
  have dist: "distinct (us @ p # vs)" using D(6) .
  let ?m = "aiv_mem h" and ?ml = "link_mem (aiv_mem h) us vs (last_ptr us) (first_ptr vs)"
  let ?m' = "w_alloc (w_flags (w_next (w_prev ?ml p 0) p 0) p ALLOCATION_FLAGS_NONE) p (of_nat n)"
  let ?c = "if us = [] then first_ptr vs else aiv_pFree h"
  let ?h' = "h\<lparr>aiv_mem := ?m', aiv_pFree := ?c, heapSize := heapSize h + of_nat (s - n)\<rparr>"
  have size: "c_size (hdr ?m p) = of_nat s" using D(3) [of "(p, s, KFree)"] by (simp add: block_ok_def)
  have un: "unlinkFree h (of_nat p) = Some (h\<lparr>aiv_mem := ?ml, aiv_pFree := ?c\<rparr>)"
    by (rule unlinkFree_run) (use S(1) p fr D(4) in auto)
  have small: "(of_nat s :: UINT64) < of_nat n + 64"
  proof -
    have "unat (of_nat s :: UINT64) = s" "unat (of_nat (n + 64) :: UINT64) = n + 64" using n s64 by (intro unat_addr; simp)+
    then show ?thesis using n(2) by (simp add: word_less_nat_alt)
  qed
  have sub: "(of_nat s :: UINT64) - of_nat n = of_nat (s - n)" using n(1) by simp
  have run: "splitFreeBlock h (of_nat p) (of_nat n) = Some ?h'"
    using S(1) [OF p] small by (simp add: splitFreeBlock_def Let_def sizes access size un sub)
  have hd: "hdr ?m' b = (if b = p then (linked (hdr ?m) us vs (last_ptr us) (first_ptr vs) p)\<lparr>c_prev := 0, c_next := 0, c_flags := ALLOCATION_FLAGS_NONE, c_alloc := of_nat n\<rparr>
      else linked (hdr ?m) us vs (last_ptr us) (first_ptr vs) b)" if "b \<in> H" for b
    using that p by (simp add: hdr_w [OF lay] link_mem_view [OF lay fr])
  have ft: "ftr ?m' e = ftr ?m e" if "e \<in> F" for e
    using that p by (simp add: ftr_w [OF lay] link_mem_view [OF lay fr])
  have kp: "keeps (cells H F) ?m ?m'" using p by (intro keeps_w link_mem_view [OF lay fr] keeps_refl)
  note rest = tiles_rest [OF D(2)]
  have sub: "addrs xs \<union> addrs ys \<subseteq> H" "ends xs \<union> ends ys \<subseteq> F" by (auto simp: H_def F_def)
  have other: "linked (hdr ?m) us vs X Y x = hdr ?m x" if "x \<in> set as" for x X Y using that asf by (intro linked_other) auto
  have "heap_shape ?h' (xs @ [(p, s, KNone n)] @ ys) (us @ vs) as"
  proof (rule shapeI [where m = ?m])
    show "block_ok (hdr (aiv_mem ?h')) (ftr (aiv_mem ?h')) b" if "b \<in> set [(p, s, KNone n)]" for b
      using that D(3) [of "(p, s, KFree)"] hd [OF p] ft [of "p + 40 + s"] by (simp add: block_ok_def F_def)
    have "dll (hdr ?m') ?c (us @ vs) = dll (linked (hdr ?m) us vs (last_ptr us) (first_ptr vs)) ?c (us @ vs)"
      by (rule dll_cong) (use hd fr dist in auto)
    then show "dll (hdr (aiv_mem ?h')) (aiv_pFree ?h') (us @ vs)" using dll_unlink [OF D(4) dist] by simp
    have "dll (hdr ?m') (aiv_pAlloc h) as = dll (hdr ?m) (aiv_pAlloc h) as"
      by (rule dll_cong) (use hd S(4) asf(2) other in \<open>auto simp: subset_iff\<close>)
    then show "dll (hdr (aiv_mem ?h')) (aiv_pAlloc ?h') as" using D(5) by simp
    show "set (us @ vs) = frees (xs @ [(p, s, KNone n)] @ ys)"
      using D(8) dist frees_addrs(1) [of xs] frees_addrs(1) [of ys] rest(1) by auto
  qed (use D dist st hd ft sub rest(1) in \<open>auto simp: tiles_append\<close>)
  then have shape: "heap_shape ?h' ?bs' (us @ vs) as" by simp
  show thesis by (rule that [OF run shape]) (use kp in \<open>simp_all add: H_def F_def\<close>)
qed

definition put_hdr :: "memory \<Rightarrow> nat \<Rightarrow> memory" where
  "put_hdr m q = w_prev (w_next (w_alloc (w_flags (w_type (w_size m q 0) q AIV_ALLOCATION_TYPE) q ALLOCATION_FLAGS_FREE) q 0) q 0) q 0"

lemma put_hdr_run: "hdr_at h q \<Longrightarrow> put_gAivHeader h (of_nat q) = Some (h\<lparr>aiv_mem := put_hdr (aiv_mem h) q\<rparr>)"
  by (simp add: put_gAivHeader_def access put_hdr_def)

lemma put_hdr_view:
  assumes "layout H F" "q \<in> H"
  shows "b \<in> H \<Longrightarrow> hdr (put_hdr m q) b =
      (if b = q then \<lparr>c_size = 0, c_flags = ALLOCATION_FLAGS_FREE, c_alloc = 0, c_next = 0, c_prev = 0\<rparr> else hdr m b)"
    and "e \<in> F \<Longrightarrow> ftr (put_hdr m q) e = ftr m e" and "keeps (cells H F) m0 m \<Longrightarrow> keeps (cells H F) m0 (put_hdr m q)"
  unfolding put_hdr_def using assms(2) by (simp_all add: hdr_w [OF assms(1)] ftr_w [OF assms(1)] keeps_w)

lemma splitFree_split:
  assumes sh: "heap_shape h (xs @ (p, s, KFree) # ys) (us @ p # vs) as"
    and st: "settled xs" "settled ys" and n: "0 < n" "n + 64 \<le> s" and s64: "s < 2 ^ 60"
    and qr: "q = p + 48 + n" "r = s - n - 48"
  obtains h' where "splitFreeBlock h (of_nat p) (of_nat n) = Some h'"
    "heap_shape h' (xs @ (p, n, KNone n) # (q, r, KFree) # ys) (us @ q # vs) as"
    "heapSize h' = heapSize h" "numAlloc h' = numAlloc h" "heapLimit h' = heapLimit h" "pAllocation h' = pAllocation h"
    "keeps (cells (addrs (xs @ (p, n, KNone n) # (q, r, KFree) # ys)) (ends (xs @ (p, n, KNone n) # (q, r, KFree) # ys))) (aiv_mem h) (aiv_mem h')"
proof -
  let ?bs = "xs @ (p, s, KFree) # ys" and ?bs' = "xs @ [(p, n, KNone n), (q, r, KFree)] @ ys"
  define H where "H = addrs ?bs'"
  define F where "F = ends ?bs'"
  note D = heap_shapeD [OF sh] and S = shape_facts [OF sh]
  have t': "tiles (base h) ?bs' (limit h)" using D(2) n qr by (auto simp: tiles_append ac_simps)
  have lay: "layout H F" using layout_tiles [OF t'] by (simp add: H_def F_def)
  note at = shape_at [OF D(1) t', folded H_def F_def]
  note rest = tiles_rest [OF D(2)]
  have sub: "addrs xs \<union> addrs ys \<subseteq> H" "ends xs \<union> ends ys \<subseteq> F" by (auto simp: H_def F_def)
  have q: "q \<notin> addrs xs \<union> addrs ys" "p \<notin> addrs xs \<union> addrs ys" "p \<noteq> q" "p \<in> H" "q \<in> H"
    using tiles_rest [of "base h" xs p n "KNone n" "(q, r, KFree) # ys"] tiles_rest [of "base h" "xs @ [(p, n, KNone n)]" q r KFree ys] t'
    by (auto simp: H_def)
  have frs: "set us \<union> set vs = frees xs \<union> frees ys" "p \<notin> set us \<union> set vs" using D(6,8) frees_addrs(1) [of xs] frees_addrs(1) [of ys] rest(1) by auto
  have fr: "set us \<subseteq> H" "set vs \<subseteq> H" and qf: "q \<notin> set us" "q \<notin> set vs"
    using frs frees_addrs(1) [of xs] frees_addrs(1) [of ys] sub q(1) by blast+
  have "set as = allocs xs \<union> allocs ys" using D(9) by simp
  then have al: "set as \<subseteq> H" "p \<notin> set as" "q \<notin> set as" using frees_addrs(2) [of xs] frees_addrs(2) [of ys] sub q(1,2) by blast+
  have asf: "set as \<inter> (set us \<union> set vs) = {}" using S(5) by auto
  define e where "e = q + 40 + r"
  define e' where "e' = p + 40 + n"
  have es: "e = p + 40 + s" using qr n by (simp add: e_def)
  have e: "e \<in> F" "e' \<in> F" "e' \<noteq> e" "e' \<notin> ends xs \<union> ends ys" "e \<notin> ends xs \<union> ends ys"
    using qr n rest(2) tiles_rest(2) [of "base h" xs p n "KNone n" "(q, r, KFree) # ys"] t' unfolding es by (auto simp: F_def e_def e'_def es [symmetric])
  let ?m = "aiv_mem h"
  define m1 where "m1 = w_prev (w_next (w_flags (w_ftr (w_size (put_hdr ?m q) q (of_nat r)) e (of_nat r)) q ALLOCATION_FLAGS_FREE) q (first_ptr vs)) q (last_ptr us)"
  define m2 where "m2 = w_ftr (w_ftr (w_size (link_mem m1 us vs (of_nat q) (of_nat q)) p (of_nat n)) e' 0) e' (of_nat n)"
  define m3 where "m3 = w_alloc (w_flags (w_next (w_prev m2 p 0) p 0) p ALLOCATION_FLAGS_NONE) p (of_nat n)"
  define c where "c = (if us = [] then of_nat q else aiv_pFree h)"
  let ?h' = "h\<lparr>aiv_pFree := c, aiv_mem := m3\<rparr>"
  note d = dll_around [OF D(4)]
  note rules = hdr_w [OF lay] ftr_w [OF lay] hdr_w_ftr [OF lay] ftr_w_ftr [OF lay] put_hdr_view [OF lay q(5)] link_mem_view [OF lay fr]
  have size: "c_size (hdr ?m p) = of_nat s" using D(3) [of "(p, s, KFree)"] by (simp add: block_ok_def)
  have hd1: "hdr m1 b = (if b = q then \<lparr>c_size = of_nat r, c_flags = ALLOCATION_FLAGS_FREE, c_alloc = 0, c_next = first_ptr vs, c_prev = last_ptr us\<rparr> else hdr ?m b)"
    if "b \<in> H" for b
    using that q e by (simp add: m1_def rules)
  have hd: "hdr m3 b = (if b = p then \<lparr>c_size = of_nat n, c_flags = ALLOCATION_FLAGS_NONE, c_alloc = of_nat n, c_next = 0, c_prev = 0\<rparr>
      else linked (hdr m1) us vs (of_nat q) (of_nat q) b)" if "b \<in> H" for b
    using that q e by (simp add: m3_def m2_def rules)
  have ft: "ftr m3 x = (if x = e' then of_nat n else if x = e then of_nat r else ftr ?m x)" if "x \<in> F" for x
    using that q e by (simp add: m3_def m2_def m1_def rules)
  have kp: "keeps (cells H F) ?m m3" unfolding m3_def m2_def m1_def
    using q e by (intro keeps_w keeps_w_ftr link_mem_view(5) [OF lay fr] put_hdr_view(3) [OF lay] keeps_refl)
  have ptr: "of_nat e' + 8 = (of_nat q :: UINT64)" "of_nat p + 40 + of_nat n = (of_nat e' :: UINT64)"
    "of_nat s - of_nat n - 40 - 8 = (of_nat r :: UINT64)" "\<not> (of_nat s :: UINT64) < of_nat n + 64"
  proof -
    show "of_nat e' + 8 = (of_nat q :: UINT64)" "of_nat p + 40 + of_nat n = (of_nat e' :: UINT64)" by (simp_all add: qr e'_def)
    have "of_nat (s - n - 48) = of_nat s - of_nat n - (48 :: UINT64)" using n by (simp add: of_nat_diff)
    then show "of_nat s - of_nat n - 40 - 8 = (of_nat r :: UINT64)" by (simp add: qr)
    have "unat (of_nat s :: UINT64) = s" "unat (of_nat (n + 64) :: UINT64) = n + 64" using n s64 by (intro unat_addr; simp)+
    then show "\<not> (of_nat s :: UINT64) < of_nat n + 64" using n(2) by (simp add: word_less_nat_alt)
  qed
  have run: "splitFreeBlock h (of_nat p) (of_nat n) = Some ?h'"
  proof -
    let ?h1 = "h\<lparr>aiv_mem := w_size (put_hdr ?m q) q (of_nat r)\<rparr>"
    have 1: "SET_AIV_ALLOCATION_FOOTER_SIZE ?h1 (of_nat q) = Some (?h1\<lparr>aiv_mem := w_ftr (aiv_mem ?h1) e (of_nat r)\<rparr>)"
      by (rule footer_at(3)) (use at q e in \<open>simp_all add: rules e_def\<close>)
    have 2: "relinkFree (h\<lparr>aiv_mem := m1\<rparr>) (of_nat p) (of_nat q) =
        Some ((h\<lparr>aiv_mem := m1\<rparr>)\<lparr>aiv_mem := link_mem m1 us vs (of_nat q) (of_nat q), aiv_pFree := c\<rparr>)"
    proof -
      have "\<forall>x\<in>set us \<union> set vs. hdr_at h x" using at(1) fr by blast
      then show ?thesis using relinkFree_run [OF lay q(5) fr qf, of "h\<lparr>aiv_mem := m1\<rparr>" p] at(1) [OF q(5)] hd1 [OF q(5)] d(3) by (simp add: c_def)
    qed
    let ?h3 = "h\<lparr>aiv_pFree := c, aiv_mem := w_ftr (w_size (link_mem m1 us vs (of_nat q) (of_nat q)) p (of_nat n)) e' 0\<rparr>"
    have 3: "SET_AIV_ALLOCATION_FOOTER_SIZE ?h3 (of_nat p) = Some (?h3\<lparr>aiv_mem := w_ftr (aiv_mem ?h3) e' (of_nat n)\<rparr>)"
      by (rule footer_at(3)) (use at q e in \<open>simp_all add: rules e'_def\<close>)
    have "hdr (w_flags (w_ftr (w_size (put_hdr ?m q) q (of_nat r)) e (of_nat r)) q ALLOCATION_FLAGS_FREE) p = hdr ?m p"
      "hdr (w_next (w_flags (w_ftr (w_size (put_hdr ?m q) q (of_nat r)) e (of_nat r)) q ALLOCATION_FLAGS_FREE) q (first_ptr vs)) p = hdr ?m p"
      using q e by (simp_all add: rules)
    then show ?thesis using at(1) [OF q(4)] at(1) [OF q(5)] at(2) [OF e(2)] 1 2 3 d(1,2)
      unfolding splitFreeBlock_def Let_def sizes m1_def [symmetric]
      by (simp add: access access_ftr size ptr put_hdr_run m1_def [symmetric] m2_def m3_def)
  qed
  have other: "linked (hdr m1) us vs X Y x = hdr ?m x" if "x \<in> set as" for x X Y
    using that asf al hd1 by (subst linked_other) auto
  have "heap_shape ?h' (xs @ [(p, n, KNone n), (q, r, KFree)] @ ys) (us @ q # vs) as"
  proof (rule shapeI [where m = ?m])
    have old: "ftr ?m x = ftr m3 x" if "x \<in> ends xs \<union> ends ys" for x using that e sub ft by auto
    show "block_ok (hdr (aiv_mem ?h')) (ftr (aiv_mem ?h')) b" if "b \<in> set [(p, n, KNone n), (q, r, KFree)]" for b
      using that hd [OF q(4)] hd [OF q(5)] hd1 [OF q(5)] ft [OF e(1)] ft [OF e(2)] q(3) e(3)
      by (auto simp: block_ok_def e_def [symmetric] e'_def [symmetric])
    have "dll (hdr m3) (if us = [] then of_nat q else aiv_pFree h) (us @ q # vs)"
    proof (rule dll_replace [OF D(4,6)])
      show "c_next (hdr m3 q) = first_ptr vs" "c_prev (hdr m3 q) = last_ptr us"
        using hd [OF q(5)] hd1 [OF q(5)] q(3) qf linked_other [of q us vs "hdr m1"] by simp_all
      show "c_next (hdr m3 x) = c_next (linked (hdr ?m) us vs (of_nat q) (of_nat q) x) \<and> c_prev (hdr m3 x) = c_prev (linked (hdr ?m) us vs (of_nat q) (of_nat q) x)"
        if "x \<in> set us \<union> set vs" for x
      proof -
        have "x \<in> H" "x \<noteq> p" "x \<noteq> q" using that fr qf frs(2) by auto
        then show ?thesis using hd [of x] hd1 [of x] linked_cong [of "hdr m1" x "hdr ?m"] by simp
      qed
    qed
    then show "dll (hdr (aiv_mem ?h')) (aiv_pFree ?h') (us @ q # vs)" by (simp add: c_def)
    have "dll (hdr m3) (aiv_pAlloc h) as = dll (hdr ?m) (aiv_pAlloc h) as"
      by (rule dll_cong) (use hd al other in \<open>auto simp: subset_iff\<close>)
    then show "dll (hdr (aiv_mem ?h')) (aiv_pAlloc ?h') as" using D(5) by simp
    show "ftr (aiv_mem ?h') x = ftr ?m x" if "x \<in> ends xs \<union> ends ys" for x using old [OF that] by simp
    show "c_size (hdr (aiv_mem ?h') a) = c_size (hdr ?m a) \<and> c_flags (hdr (aiv_mem ?h') a) = c_flags (hdr ?m a) \<and> c_alloc (hdr (aiv_mem ?h') a) = c_alloc (hdr ?m a)"
      if "a \<in> addrs xs \<union> addrs ys" for a
    proof -
      have "a \<in> H" "a \<noteq> p" "a \<noteq> q" using that sub q by auto
      then show ?thesis using hd [of a] hd1 [of a] by simp
    qed
  qed (use D st qf frs t' in auto)
  then have shape: "heap_shape ?h' (xs @ (p, n, KNone n) # (q, r, KFree) # ys) (us @ q # vs) as" by simp
  show thesis by (rule that [OF run shape]) (use kp in \<open>simp_all add: H_def F_def\<close>)
qed

subsection \<open>Entering and leaving a chain\<close>

lemmas flags_defs = ALLOCATION_FLAGS_NONE_def ALLOCATION_FLAGS_ALLOC_def ALLOCATION_FLAGS_FREE_def

lemma addAllocated_shape:
  assumes sh: "heap_shape h (xs @ (p, s, KNone n) # ys) fs as"
    and st: "settled xs" "settled ys" and n: "0 < n" "n \<le> s" and s64: "s < 2 ^ 60"
  obtains h' where "addAllocatedBlock h (of_nat p) = Some h'"
    "heap_shape h' (xs @ (p, s, KAlloc n) # ys) fs (p # as)"
    "heapSize h' = heapSize h" "numAlloc h' = numAlloc h" "heapLimit h' = heapLimit h" "pAllocation h' = pAllocation h"
    "keeps (cells (addrs (xs @ (p, s, KNone n) # ys)) (ends (xs @ (p, s, KNone n) # ys))) (aiv_mem h) (aiv_mem h')"
proof -
  let ?bs = "xs @ (p, s, KNone n) # ys"
  define H where "H = addrs ?bs"
  define F where "F = ends ?bs"
  note D = heap_shapeD [OF sh] and S = shape_facts [OF sh, folded H_def F_def]
  note lay = S(6) and rest = tiles_rest [OF D(2)]
  have p: "p \<in> H" and sub: "addrs xs \<union> addrs ys \<subseteq> H" "ends xs \<union> ends ys \<subseteq> F" "p + 40 + s \<in> F" by (auto simp: H_def F_def)
  have pas: "p \<notin> set as" "p \<notin> set fs"
    using D(8,9) frees_addrs [of xs] frees_addrs [of ys] rest(1) by auto
  have blk: "c_size (hdr (aiv_mem h) p) = of_nat s" "c_flags (hdr (aiv_mem h) p) = ALLOCATION_FLAGS_NONE" "c_alloc (hdr (aiv_mem h) p) = of_nat n"
    "c_next (hdr (aiv_mem h) p) = 0" "c_prev (hdr (aiv_mem h) p) = 0" "ftr (aiv_mem h) (p + 40 + s) = of_nat s"
    using D(3) [of "(p, s, KNone n)"] by (simp_all add: block_ok_def)
  let ?m = "aiv_mem h"
  define m' where "m' = (let m1 = w_flags ?m p ALLOCATION_FLAGS_ALLOC in if as = [] then m1 else w_prev (w_next m1 p (first_ptr as)) (hd as) (of_nat p))"
  let ?h' = "h\<lparr>aiv_pAlloc := of_nat p, aiv_mem := m'\<rparr>"
  have c: "aiv_pAlloc h = first_ptr as" using D(5) by (simp add: dll_def)
  have has: "as \<noteq> [] \<Longrightarrow> hd as \<in> H" "as \<noteq> [] \<Longrightarrow> hd as \<noteq> p" "\<forall>x\<in>set as. hdr_at h x" using S(1,4) pas by auto
  note pn = ptr_nonzero [OF has(3)]
  have pos: "(of_nat s :: UINT64) > 0" "(of_nat p :: UINT64) \<noteq> 0"
    using n s64 unat_addr [of s] addr_nonzero [OF S(1) [OF p]] by (auto simp: word_less_nat_alt)
  have run: "addAllocatedBlock h (of_nat p) = Some ?h'"
    using S(1) [OF p] S(1) [OF has(1)] pos blk pn
    by (cases "as = []"; simp add: addAllocatedBlock_def access CHECK_def c m'_def)
  have hd: "hdr m' b = (if b = p then (hdr ?m p)\<lparr>c_flags := ALLOCATION_FLAGS_ALLOC, c_next := first_ptr as\<rparr>
      else if as \<noteq> [] \<and> b = hd as then (hdr ?m b)\<lparr>c_prev := of_nat p\<rparr> else hdr ?m b)" if "b \<in> H" for b
    using that p has blk by (cases "as = []"; simp add: m'_def hdr_w [OF lay])
  have ft: "ftr m' e = ftr ?m e" if "e \<in> F" for e
    using that p has by (cases "as = []"; simp add: m'_def ftr_w [OF lay])
  have kp: "keeps (cells H F) ?m m'" using p has by (cases "as = []"; simp add: m'_def keeps_w)
  have "heap_shape ?h' (xs @ [(p, s, KAlloc n)] @ ys) fs (p # as)"
  proof (rule shapeI [where m = ?m])
    show "block_ok (hdr (aiv_mem ?h')) (ftr (aiv_mem ?h')) b" if "b \<in> set [(p, s, KAlloc n)]" for b
      using that blk hd [OF p] ft [OF sub(3)] n by (simp add: block_ok_def)
    have "dll (hdr m') (aiv_pFree h) fs = dll (hdr ?m) (aiv_pFree h) fs"
      by (rule dll_cong) (use hd S(3,5) pas in \<open>auto simp: subset_iff\<close>)
    then show "dll (hdr (aiv_mem ?h')) (aiv_pFree ?h') fs" using D(4) by simp
    have "dll (hdr m') (of_nat p) (p # as)"
      by (rule dll_push [OF D(5,7)]) (use hd S(4) pas p blk c in \<open>auto simp: subset_iff\<close>)
    then show "dll (hdr (aiv_mem ?h')) (aiv_pAlloc ?h') (p # as)" by simp
    show "c_size (hdr (aiv_mem ?h') a) = c_size (hdr ?m a) \<and> c_flags (hdr (aiv_mem ?h') a) = c_flags (hdr ?m a) \<and> c_alloc (hdr (aiv_mem ?h') a) = c_alloc (hdr ?m a)"
      if "a \<in> addrs xs \<union> addrs ys" for a
      using that hd [of a] sub rest(1) by auto
  qed (use D st pas ft sub in \<open>auto simp: tiles_append\<close>)
  then have shape: "heap_shape ?h' (xs @ (p, s, KAlloc n) # ys) fs (p # as)" by simp
  show thesis by (rule that [OF run shape]) (use kp in \<open>simp_all add: H_def F_def\<close>)
qed

lemma removeChained_run:
  assumes at: "hdr_at h p" "\<forall>x\<in>set us \<union> set vs. hdr_at h x" "p \<notin> set us" "p \<notin> set vs"
    and dll: "dll (hdr (aiv_mem h)) c (us @ p # vs)"
    and size: "c_size (hdr (aiv_mem h) p) > 0"
    and c: "c_flags (hdr (aiv_mem h) p) = (if free then ALLOCATION_FLAGS_FREE else ALLOCATION_FLAGS_ALLOC)"
      "c = (if free then aiv_pFree h else aiv_pAlloc h)"
    and m': "m' = w_alloc (w_next (w_prev (w_flags (link_mem' (aiv_mem h) us vs (last_ptr us) (first_ptr vs)) p ALLOCATION_FLAGS_NONE) p 0) p 0) p 0"
    and c': "c' = (if us = [] then first_ptr vs else c)"
  shows "removeChainedBlock h (of_nat p) =
    Some (if free then h\<lparr>aiv_pFree := c', aiv_mem := m'\<rparr> else h\<lparr>aiv_pAlloc := c', aiv_mem := m'\<rparr>)"
proof -
  note d = dll_around [OF dll]
  have at': "us \<noteq> [] \<Longrightarrow> hdr_at h (last us)" "vs \<noteq> [] \<Longrightarrow> hdr_at h (hd vs)" using at(2) by auto
  note pu = ptr_nonzero [of us h] and pv = ptr_nonzero [of vs h]
  note pz = addr_nonzero [OF at(1)]
  show ?thesis using at pu pv d at' size c pz
    by (cases "us = []"; cases "vs = []"; cases free; simp add: removeChainedBlock_def access CHECK_def link_mem'_def flags_defs m' c')
qed

lemma removeAllocated_shape:
  assumes sh: "heap_shape h (xs @ (p, s, KAlloc n) # ys) fs (us @ p # vs)"
    and st: "settled xs" "settled ys" and s64: "s < 2 ^ 60"
  obtains h' where "removeChainedBlock h (of_nat p) = Some h'"
    "heap_shape h' (xs @ (p, s, KNone 0) # ys) fs (us @ vs)"
    "heapSize h' = heapSize h" "numAlloc h' = numAlloc h" "heapLimit h' = heapLimit h" "pAllocation h' = pAllocation h"
    "keeps (cells (addrs (xs @ (p, s, KAlloc n) # ys)) (ends (xs @ (p, s, KAlloc n) # ys))) (aiv_mem h) (aiv_mem h')"
proof -
  let ?bs = "xs @ (p, s, KAlloc n) # ys"
  define H where "H = addrs ?bs"
  define F where "F = ends ?bs"
  note D = heap_shapeD [OF sh] and S = shape_facts [OF sh, folded H_def F_def]
  note lay = S(6) and rest = tiles_rest [OF D(2)]
  have p: "p \<in> H" and sub: "addrs xs \<union> addrs ys \<subseteq> H" "ends xs \<union> ends ys \<subseteq> F" "p + 40 + s \<in> F" by (auto simp: H_def F_def)
  have fr: "set us \<subseteq> H" "set vs \<subseteq> H" "p \<notin> set us" "p \<notin> set vs" and pf: "p \<notin> set fs" "set fs \<inter> (set us \<union> set vs) = {}"
    using S(4,5) D(7) by auto
  have blk: "c_size (hdr (aiv_mem h) p) = of_nat s" "c_flags (hdr (aiv_mem h) p) = ALLOCATION_FLAGS_ALLOC" "ftr (aiv_mem h) (p + 40 + s) = of_nat s" "0 < s"
    using D(3) [of "(p, s, KAlloc n)"] tiles_bounds [OF D(2), of p s "KAlloc n"] by (simp_all add: block_ok_def)
  let ?m = "aiv_mem h"
  let ?lk = "linked (hdr ?m) us vs (last_ptr us) (first_ptr vs)"
  define m' where "m' = w_alloc (w_next (w_prev (w_flags (link_mem' ?m us vs (last_ptr us) (first_ptr vs)) p ALLOCATION_FLAGS_NONE) p 0) p 0) p 0"
  define c where "c = (if us = [] then first_ptr vs else aiv_pAlloc h)"
  let ?h' = "h\<lparr>aiv_pAlloc := c, aiv_mem := m'\<rparr>"
  have pos: "(of_nat s :: UINT64) > 0" using blk(4) s64 unat_addr [of s] by (simp add: word_less_nat_alt)
  have "\<forall>x\<in>set us \<union> set vs. hdr_at h x" using fr S(1) by blast
  then have run: "removeChainedBlock h (of_nat p) = Some ?h'"
    using removeChained_run [OF S(1) [OF p] _ fr(3,4) D(5), of False m' c] pos blk by (simp add: m'_def c_def)
  have hd: "hdr m' b = (if b = p then (?lk p)\<lparr>c_flags := ALLOCATION_FLAGS_NONE, c_prev := 0, c_next := 0, c_alloc := 0\<rparr> else ?lk b)" if "b \<in> H" for b
    using that p by (simp add: m'_def hdr_w [OF lay] link_mem_view [OF lay fr(1,2)])
  have ft: "ftr m' e = ftr ?m e" if "e \<in> F" for e
    using that p by (simp add: m'_def ftr_w [OF lay] link_mem_view [OF lay fr(1,2)])
  have kp: "keeps (cells H F) ?m m'" unfolding m'_def using p by (intro keeps_w link_mem_view(6) [OF lay fr(1,2)] keeps_refl)
  have other: "?lk x = hdr ?m x" if "x \<in> set fs" for x using that pf by (intro linked_other) auto
  have "heap_shape ?h' (xs @ [(p, s, KNone 0)] @ ys) fs (us @ vs)"
  proof (rule shapeI [where m = ?m])
    show "block_ok (hdr (aiv_mem ?h')) (ftr (aiv_mem ?h')) b" if "b \<in> set [(p, s, KNone 0)]" for b
      using that blk hd [OF p] ft [OF sub(3)] by (simp add: block_ok_def)
    have "dll (hdr m') (aiv_pFree h) fs = dll (hdr ?m) (aiv_pFree h) fs"
      by (rule dll_cong) (use hd S(3) pf(1) other in \<open>auto simp: subset_iff\<close>)
    then show "dll (hdr (aiv_mem ?h')) (aiv_pFree ?h') fs" using D(4) by simp
    have "dll (hdr m') c (us @ vs) = dll ?lk c (us @ vs)" by (rule dll_cong) (use hd fr in \<open>auto simp: subset_iff\<close>)
    then show "dll (hdr (aiv_mem ?h')) (aiv_pAlloc ?h') (us @ vs)" using dll_unlink [OF D(5,7)] by (simp add: c_def)
    show "c_size (hdr (aiv_mem ?h') a) = c_size (hdr ?m a) \<and> c_flags (hdr (aiv_mem ?h') a) = c_flags (hdr ?m a) \<and> c_alloc (hdr (aiv_mem ?h') a) = c_alloc (hdr ?m a)"
      if "a \<in> addrs xs \<union> addrs ys" for a
      using that hd [of a] sub rest(1) by auto
    show "set (us @ vs) = allocs (xs @ [(p, s, KNone 0)] @ ys)"
      using D(9) fr(3,4) frees_addrs(2) [of xs] frees_addrs(2) [of ys] rest(1) by auto
  qed (use D st ft sub in \<open>auto simp: tiles_append\<close>)
  then have shape: "heap_shape ?h' (xs @ (p, s, KNone 0) # ys) fs (us @ vs)" by simp
  show thesis by (rule that [OF run shape]) (use kp in \<open>simp_all add: H_def F_def\<close>)
qed

subsection \<open>Neighbours\<close>

lemma word_of_nat_le: "a < 2 ^ 64 \<Longrightarrow> b < 2 ^ 64 \<Longrightarrow> (of_nat a :: UINT64) \<le> of_nat b \<longleftrightarrow> a \<le> b"
  by (simp add: word_le_nat_alt unat_addr)

lemma heap_addr: "wf_bounds h \<Longrightarrow> pAllocation h = of_nat (base h)" "wf_bounds h \<Longrightarrow> pAllocation h + heapLimit h = of_nat (limit h)"
  by (simp_all add: base_def limit_def)

lemma getLeftBlock_none:
  assumes "heap_shape h ((p, s, k) # ys) fs as"
  shows "getLeftBlock h (of_nat p) = Some 0"
  using heap_shapeD(1,2) [OF assms] by (simp add: getLeftBlock_def heap_addr)

lemma getLeftBlock_some:
  assumes sh: "heap_shape h (xs @ (q, t, l) # (p, s, k) # ys) fs as"
  shows "getLeftBlock h (of_nat p) = Some (of_nat q)"
proof -
  note D = heap_shapeD [OF sh] and S = shape_facts [OF sh]
  have p: "p = q + 48 + t" using D(2) by (auto simp: tiles_append)
  have q: "base h \<le> q" "q + 48 + t \<le> limit h" "limit h < 2 ^ 64" using tiles_bounds [OF D(2), of q t l] D(1) by (auto simp: wf_bounds_def)
  have f: "ftr (aiv_mem h) (q + 40 + t) = of_nat t" "ftr_at h (q + 40 + t)" using D(3) [of "(q, t, l)"] S(2) by (auto simp: block_ok_def)
  have w: "of_nat p - 8 = (of_nat (q + 40 + t) :: UINT64)" "of_nat (q + 40 + t) - of_nat t - 40 = (of_nat q :: UINT64)"
    by (simp_all add: p)
  have le: "\<not> pAllocation h \<ge> of_nat p" "pAllocation h \<le> of_nat q"
    using q p D(1) by (simp_all add: heap_addr word_of_nat_le del: of_nat_add)
  show ?thesis unfolding getLeftBlock_def Let_def sizes w using le access_ftr(1) [OF f(2)] f(1) w(2)
    by (simp add: CHECK_def del: of_nat_add)
qed

lemma right_addr: "(of_nat p :: UINT64) + 40 + of_nat s + 8 = of_nat (p + 48 + s)"
  by simp

lemma getRightBlock_run:
  assumes "hdr_at h p" "c_size (hdr (aiv_mem h) p) = of_nat s" "wf_bounds h" "q = p + 48 + s"
  shows "getRightBlock h (of_nat p) =
    (if of_nat (limit h) \<le> (of_nat q :: UINT64) then Some 0
     else do { f \<leftarrow> GET_AIV_ALLOCATION_FOOTER h (of_nat q); CHECK (of_nat (limit h) \<ge> f + 8); Some (of_nat q) })"
  unfolding getRightBlock_def access(1) [OF assms(1)] sizes Let_def assms(2)
  by (simp only: bind.bind_lunit right_addr assms(4) heap_addr(2) [OF assms(3)])

lemma getRightBlock_none:
  assumes sh: "heap_shape h (xs @ [(p, s, k)]) fs as"
  shows "getRightBlock h (of_nat p) = Some 0"
proof -
  note D = heap_shapeD [OF sh] and S = shape_facts [OF sh]
  have p: "p + 48 + s = limit h" using D(2) by (auto simp: tiles_append)
  have "c_size (hdr (aiv_mem h) p) = of_nat s" "hdr_at h p" using D(3) [of "(p, s, k)"] S(1) by (auto simp: block_ok_def)
  then show ?thesis using getRightBlock_run [of h p s "limit h"] p D(1) by simp
qed

lemma getRightBlock_some:
  assumes sh: "heap_shape h (xs @ (p, s, k) # (q, t, l) # ys) fs as"
  shows "getRightBlock h (of_nat p) = Some (of_nat q)"
proof -
  note D = heap_shapeD [OF sh] and S = shape_facts [OF sh]
  have q: "q = p + 48 + s" using D(2) by (auto simp: tiles_append)
  have b: "q + 48 + t \<le> limit h" "limit h < 2 ^ 64" using tiles_bounds [OF D(2), of q t l] D(1) by (auto simp: wf_bounds_def)
  have s: "c_size (hdr (aiv_mem h) p) = of_nat s" "c_size (hdr (aiv_mem h) q) = of_nat t" "hdr_at h p" "hdr_at h q"
    using D(3) [of "(p, s, k)"] D(3) [of "(q, t, l)"] S(1) by (auto simp: block_ok_def)
  have f: "GET_AIV_ALLOCATION_FOOTER h (of_nat q) = Some (of_nat (q + 40 + t))" by (rule footer_at(1)) (use s in auto)
  have w: "of_nat (q + 40 + t) + 8 = (of_nat (q + 48 + t) :: UINT64)" by simp
  have "\<not> of_nat (limit h) \<le> (of_nat q :: UINT64)" "of_nat (q + 40 + t) + 8 \<le> (of_nat (limit h) :: UINT64)"
    unfolding w using b by (simp_all add: word_of_nat_le del: of_nat_add)
  then show ?thesis using getRightBlock_run [OF s(3,1) D(1) q] f by (simp add: CHECK_def del: of_nat_add)
qed

lemma isFreeBlock_none [simp]: "isFreeBlock h 0 = Some False"
  by (simp add: isFreeBlock_def)

lemma isFreeBlock_some:
  assumes sh: "heap_shape h bs fs as" and b: "(p, s, k) \<in> set bs"
  shows "isFreeBlock h (of_nat p) = Some (k = KFree)"
proof -
  have at: "hdr_at h p" using shape_facts(1) [OF sh] b by (force simp: addrs_def)
  have "c_flags (hdr (aiv_mem h) p) = flags_of k" using heap_shapeD(3) [OF sh b] by (simp add: block_ok_def)
  then show ?thesis using addr_nonzero [OF at] by (cases k) (simp_all add: isFreeBlock_def access [OF at] flags_defs)
qed

end
