(* ===== verification/AivHeapFree.thy ===== *)
theory AivHeapFree
  imports AivHeapOps
begin

text \<open>
  Returning a block: merging it with its free neighbours and chaining it into the free list.
\<close>

lemma coalesceLeft_none:
  assumes sh: "heap_shape h (xs @ (p, s, k) # ys) fs as" and xs: "xs = [] \<or> snd (snd (last xs)) \<noteq> KFree"
  shows "coalesceLeft h (of_nat p) = Some (h, of_nat p, of_nat s)"
proof -
  note D = heap_shapeD [OF sh] and S = shape_facts [OF sh]
  have p: "GET_AIV_ALLOCATION_SIZE h (of_nat p) = Some (of_nat s)" using D(3) [of "(p, s, k)"] S(1) [of p] by (simp add: access block_ok_def)
  have "\<exists>l. getLeftBlock h (of_nat p) = Some l \<and> isFreeBlock h l = Some False"
  proof (cases "xs = []")
    case True
    then show ?thesis using getLeftBlock_none [of h p s k ys fs as] sh by simp
  next
    case False
    obtain xs' q t l where x: "xs = xs' @ [(q, t, l)]" using False by (metis rev_exhaust prod_cases3)
    have "getLeftBlock h (of_nat p) = Some (of_nat q)" using getLeftBlock_some [of h xs' q t l p s k ys fs as] sh x by simp
    moreover have "isFreeBlock h (of_nat q) = Some False" using isFreeBlock_some [OF sh, of q t l] xs x by simp
    ultimately show ?thesis by blast
  qed
  then show ?thesis using p by (auto simp: coalesceLeft_def)
qed

lemma coalesceLeft_merge:
  assumes sh: "heap_shape h (xs @ (q, t, KFree) # (p, s, KNone n) # ys) fs as"
    and st: "settled xs" "settled ys" and N: "N = t + 48 + s"
  obtains h' where "coalesceLeft h (of_nat p) = Some (h', of_nat q, of_nat N)"
    "heap_shape h' (xs @ (q, N, KFree) # ys) fs as"
    "heapSize h' = heapSize h" "numAlloc h' = numAlloc h" "heapLimit h' = heapLimit h" "pAllocation h' = pAllocation h"
    "keeps (cells (addrs (xs @ (q, t, KFree) # (p, s, KNone n) # ys)) (ends (xs @ (q, t, KFree) # (p, s, KNone n) # ys))) (aiv_mem h) (aiv_mem h')"
proof -
  let ?bs = "xs @ (q, t, KFree) # (p, s, KNone n) # ys" and ?m = "aiv_mem h"
  define H where "H = addrs ?bs"
  define F where "F = ends ?bs"
  note D = heap_shapeD [OF sh] and S = shape_facts [OF sh, folded H_def F_def]
  note lay = S(6)
  have p: "p = q + 48 + t" using D(2) by (auto simp: tiles_append)
  define e where "e = p + 40 + s"
  have e: "e = q + 40 + N" "e \<in> F" using p N by (auto simp: e_def F_def)
  have q: "q \<in> H" "p \<in> H" "q \<noteq> p" and sub: "addrs xs \<union> addrs ys \<subseteq> H" "ends xs \<union> ends ys \<subseteq> F" using p by (auto simp: H_def F_def)
  have t': "tiles (base h) (xs @ [(q, N, KFree)] @ ys) (limit h)" using D(2) p N by (auto simp: tiles_append ac_simps)
  have rest: "q \<notin> addrs xs \<union> addrs ys" "e \<notin> ends xs \<union> ends ys" using tiles_rest [of "base h" xs q N KFree ys] t' e(1) by simp_all
  have blk: "c_size (hdr ?m q) = of_nat t" "c_size (hdr ?m p) = of_nat s" "c_flags (hdr ?m q) = ALLOCATION_FLAGS_FREE"
    using D(3) [of "(q, t, KFree)"] D(3) [of "(p, s, KNone n)"] by (simp_all add: block_ok_def)
  define m' where "m' = w_ftr (w_size ?m q (of_nat N)) e (of_nat N)"
  let ?h1 = "h\<lparr>aiv_mem := w_size ?m q (of_nat N)\<rparr>" and ?h' = "h\<lparr>aiv_mem := m'\<rparr>"
  have left: "getLeftBlock h (of_nat p) = Some (of_nat q)" by (rule getLeftBlock_some [OF sh])
  have free: "isFreeBlock h (of_nat q) = Some True" using isFreeBlock_some [OF sh, of q t KFree] by simp
  have f: "SET_AIV_ALLOCATION_FOOTER_SIZE ?h1 (of_nat q) = Some (?h1\<lparr>aiv_mem := w_ftr (aiv_mem ?h1) e (of_nat N)\<rparr>)"
    by (rule footer_at(3)) (use S(1) [OF q(1)] S(2) [OF e(2)] e q in \<open>simp_all add: hdr_w [OF lay]\<close>)
  have w: "48 + (of_nat t + of_nat s) = (of_nat N :: UINT64)" by (simp add: N)
  have run: "coalesceLeft h (of_nat p) = Some (?h', of_nat q, of_nat N)"
    unfolding coalesceLeft_def Let_def sizes using S(1) [OF q(1)] S(1) [OF q(2)]
    by (simp add: access left free blk w f m'_def)
  have hd: "hdr m' b = (if b = q then (hdr ?m q)\<lparr>c_size := of_nat N\<rparr> else hdr ?m b)" if "b \<in> H" for b
    using that q e by (simp add: m'_def hdr_w [OF lay] hdr_w_ftr [OF lay])
  have ft: "ftr m' x = (if x = e then of_nat N else ftr ?m x)" if "x \<in> F" for x
    using that q e by (simp add: m'_def ftr_w [OF lay] ftr_w_ftr [OF lay])
  have kp: "keeps (cells H F) ?m m'" unfolding m'_def using q e by (intro keeps_w_ftr keeps_w keeps_refl)
  have "heap_shape ?h' (xs @ [(q, N, KFree)] @ ys) fs as"
  proof (rule shapeI [where m = ?m])
    show "block_ok (hdr (aiv_mem ?h')) (ftr (aiv_mem ?h')) b" if "b \<in> set [(q, N, KFree)]" for b
      using that blk hd [OF q(1)] ft [OF e(2)] e(1) by (simp add: block_ok_def)
    have "dll (hdr m') c zs = dll (hdr ?m) c zs" if "set zs \<subseteq> H" for c zs by (rule dll_cong) (use hd that in auto)
    then show "dll (hdr (aiv_mem ?h')) (aiv_pFree ?h') fs" "dll (hdr (aiv_mem ?h')) (aiv_pAlloc ?h') as" using D(4,5) S(3,4) by simp_all
    show "c_size (hdr (aiv_mem ?h') a) = c_size (hdr ?m a) \<and> c_flags (hdr (aiv_mem ?h') a) = c_flags (hdr ?m a) \<and> c_alloc (hdr (aiv_mem ?h') a) = c_alloc (hdr ?m a)"
      if "a \<in> addrs xs \<union> addrs ys" for a
      using that hd [of a] sub rest(1) by auto
    show "ftr (aiv_mem ?h') x = ftr ?m x" if "x \<in> ends xs \<union> ends ys" for x using that ft [of x] sub rest(2) by auto
  qed (use D st t' in auto)
  then have shape: "heap_shape ?h' (xs @ (q, N, KFree) # ys) fs as" by simp
  show thesis by (rule that [OF run shape]) (use kp in \<open>simp_all add: H_def F_def\<close>)
qed

lemma coalesceRight_none:
  assumes sh: "heap_shape h (xs @ (p, s, k) # ys) fs as" and ys: "ys = [] \<or> snd (snd (hd ys)) \<noteq> KFree"
  shows "coalesceRight h (of_nat p) z = Some h"
proof -
  have "\<exists>r. getRightBlock h (of_nat p) = Some r \<and> isFreeBlock h r = Some False"
  proof (cases ys)
    case Nil
    then show ?thesis using getRightBlock_none [of h xs p s k fs as] sh by simp
  next
    case (Cons b ys')
    obtain q t l where y: "ys = (q, t, l) # ys'" using Cons by (cases b) auto
    have "getRightBlock h (of_nat p) = Some (of_nat q)" using getRightBlock_some [of h xs p s k q t l ys' fs as] sh y by simp
    moreover have "isFreeBlock h (of_nat q) = Some False" using isFreeBlock_some [OF sh, of q t l] ys y by simp
    ultimately show ?thesis by blast
  qed
  then show ?thesis by (auto simp: coalesceRight_def)
qed

lemma coalesceRight_merge:
  assumes sh: "heap_shape h (xs @ (p, s, k) # (q, t, KFree) # ys) (us @ q # vs) as"
    and st: "settled xs" "settled ys" and k: "k = KFree \<or> k = KNone n" and N: "N = s + 48 + t" and s64: "N < 2 ^ 60"
  obtains h' where "coalesceRight h (of_nat p) (of_nat s) = Some h'"
    "heap_shape h' (xs @ (p, N, k) # ys) (us @ vs) as"
    "heapSize h' = heapSize h" "numAlloc h' = numAlloc h" "heapLimit h' = heapLimit h" "pAllocation h' = pAllocation h"
    "keeps (cells (addrs (xs @ (p, s, k) # (q, t, KFree) # ys)) (ends (xs @ (p, s, k) # (q, t, KFree) # ys))) (aiv_mem h) (aiv_mem h')"
proof -
  let ?bs = "xs @ (p, s, k) # (q, t, KFree) # ys" and ?m = "aiv_mem h"
  define H where "H = addrs ?bs"
  define F where "F = ends ?bs"
  note D = heap_shapeD [OF sh] and S = shape_facts [OF sh, folded H_def F_def]
  note lay = S(6)
  have q: "q = p + 48 + s" using D(2) by (auto simp: tiles_append)
  define e where "e = q + 40 + t"
  have e: "e = p + 40 + N" "e \<in> F" using q N by (auto simp: e_def F_def)
  have p: "q \<in> H" "p \<in> H" "p \<noteq> q" and sub: "addrs xs \<union> addrs ys \<subseteq> H" "ends xs \<union> ends ys \<subseteq> F" using q by (auto simp: H_def F_def)
  have t': "tiles (base h) (xs @ [(p, N, k)] @ ys) (limit h)" using D(2) q N by (auto simp: tiles_append ac_simps)
  have rest: "p \<notin> addrs xs \<union> addrs ys" "e \<notin> ends xs \<union> ends ys" using tiles_rest [of "base h" xs p N k ys] t' e(1) by simp_all
  have restq: "q \<notin> addrs xs \<union> addrs ys" using tiles_rest(1) [of "base h" "xs @ [(p, s, k)]" q t KFree ys] D(2) by simp
  have blk: "c_size (hdr ?m p) = of_nat s" "c_size (hdr ?m q) = of_nat t" "c_flags (hdr ?m q) = ALLOCATION_FLAGS_FREE"
    "c_flags (hdr ?m p) = flags_of k" "kind_ok (hdr ?m p) s k" "0 < t"
    using D(3) [of "(p, s, k)"] D(3) [of "(q, t, KFree)"] tiles_bounds [OF D(2), of q t KFree] by (simp_all add: block_ok_def)
  have fr: "set us \<subseteq> H" "set vs \<subseteq> H" "q \<notin> set us" "q \<notin> set vs" and qa: "q \<notin> set as" "set as \<inter> (set us \<union> set vs) = {}"
    using S(3,5) D(6) by auto
  have frs: "set us \<union> set vs = frees (xs @ [(p, N, k)] @ ys)"
  proof -
    have "q \<notin> frees (xs @ [(p, N, k)] @ ys)" using p(3) restq k frees_addrs(1) [of xs] frees_addrs(1) [of ys] by auto
    moreover have "insert q (set us \<union> set vs) = insert q (frees (xs @ [(p, N, k)] @ ys))"
      using D(8) k by (elim disjE) (simp_all add: insert_commute)
    ultimately show ?thesis using insert_ident [of q "set us \<union> set vs"] fr(3,4) by simp
  qed
  let ?lk = "linked (hdr ?m) us vs (last_ptr us) (first_ptr vs)"
  define m1 where "m1 = w_alloc (w_next (w_prev (w_flags (link_mem' ?m us vs (last_ptr us) (first_ptr vs)) q ALLOCATION_FLAGS_NONE) q 0) q 0) q 0"
  define m' where "m' = w_ftr (w_size m1 p (of_nat N)) e (of_nat N)"
  define c where "c = (if us = [] then first_ptr vs else aiv_pFree h)"
  let ?h1 = "h\<lparr>aiv_pFree := c, aiv_mem := m1\<rparr>" and ?h' = "h\<lparr>aiv_pFree := c, aiv_mem := m'\<rparr>"
  note rules = hdr_w [OF lay] ftr_w [OF lay] hdr_w_ftr [OF lay] ftr_w_ftr [OF lay] link_mem_view [OF lay fr(1,2)]
  have hd1: "hdr m1 b = (if b = q then (?lk q)\<lparr>c_flags := ALLOCATION_FLAGS_NONE, c_prev := 0, c_next := 0, c_alloc := 0\<rparr> else ?lk b)" if "b \<in> H" for b
    using that p by (simp add: m1_def rules)
  have hd: "hdr m' b = (if b = p then (?lk p)\<lparr>c_size := of_nat N\<rparr> else hdr m1 b)" if "b \<in> H" for b
    using that p e hd1 [of p] by (simp add: m'_def rules)
  have ft: "ftr m' x = (if x = e then of_nat N else ftr ?m x)" if "x \<in> F" for x
    using that p e by (simp add: m'_def m1_def rules)
  have kp: "keeps (cells H F) ?m m'" unfolding m'_def m1_def
    using p e by (intro keeps_w_ftr keeps_w link_mem_view(6) [OF lay fr(1,2)] keeps_refl)
  have right: "getRightBlock h (of_nat p) = Some (of_nat q)" by (rule getRightBlock_some [OF sh])
  have free: "isFreeBlock h (of_nat q) = Some True" using isFreeBlock_some [OF sh, of q t KFree] by simp
  have pos: "(of_nat t :: UINT64) > 0" using blk(6) N s64 unat_addr [of t] by (simp add: word_less_nat_alt)
  have "\<forall>x\<in>set us \<union> set vs. hdr_at h x" using fr S(1) by blast
  then have rm: "removeChainedBlock h (of_nat q) = Some ?h1"
    using removeChained_run [OF S(1) [OF p(1)] _ fr(3,4) D(4), of True m1 c] pos blk by (simp add: m1_def c_def)
  let ?h2 = "h\<lparr>aiv_pFree := c, aiv_mem := w_size m1 p (of_nat N)\<rparr>"
  have f: "SET_AIV_ALLOCATION_FOOTER_SIZE ?h2 (of_nat p) = Some (?h2\<lparr>aiv_mem := w_ftr (aiv_mem ?h2) e (of_nat N)\<rparr>)"
    by (rule footer_at(3)) (use S(1) [OF p(2)] S(2) [OF e(2)] e p in \<open>simp_all add: hdr_w [OF lay]\<close>)
  have w: "48 + (of_nat t + of_nat s) = (of_nat N :: UINT64)" by (simp add: N)
  have sz: "c_size (hdr m1 q) = of_nat t" using hd1 [OF p(1)] blk(2) by simp
  have run: "coalesceRight h (of_nat p) (of_nat s) = Some ?h'"
    unfolding coalesceRight_def Let_def sizes using S(1) [OF p(1)] S(1) [OF p(2)]
    by (simp add: access right free rm sz w f m'_def)
  have other: "?lk x = hdr ?m x" if "x \<in> set as" for x using that qa by (intro linked_other) auto
  have pk: "?lk p = hdr ?m p" if "k = KNone n"
  proof (rule linked_other)
    have "p \<notin> frees ?bs" using kind_of_addr(1) [OF D(2), of p s k] that by simp
    then have "p \<notin> set (us @ q # vs)" unfolding D(8) .
    then show "p \<notin> set us" "p \<notin> set vs" by simp_all
  qed
  have "heap_shape ?h' (xs @ [(p, N, k)] @ ys) (us @ vs) as"
  proof (rule shapeI [where m = ?m])
    show "block_ok (hdr (aiv_mem ?h')) (ftr (aiv_mem ?h')) b" if "b \<in> set [(p, N, k)]" for b
      using that blk hd [OF p(2)] ft [OF e(2)] e(1) k pk by (auto simp: block_ok_def)
    have pa: "p \<notin> set as" unfolding D(9) using kind_of_addr(2) [OF D(2), of p s k] k by force
    have "dll (hdr m') (aiv_pAlloc h) as = dll (hdr ?m) (aiv_pAlloc h) as"
      by (rule dll_cong) (use hd hd1 S(4) qa(1) other pa in \<open>auto simp: subset_iff\<close>)
    then show "dll (hdr (aiv_mem ?h')) (aiv_pAlloc ?h') as" using D(5) by simp
    have "dll (hdr m') c (us @ vs) = dll ?lk c (us @ vs)" by (rule dll_cong) (use hd hd1 fr in \<open>auto simp: subset_iff\<close>)
    then show "dll (hdr (aiv_mem ?h')) (aiv_pFree ?h') (us @ vs)" using dll_unlink [OF D(4,6)] by (simp add: c_def)
    show "c_size (hdr (aiv_mem ?h') a) = c_size (hdr ?m a) \<and> c_flags (hdr (aiv_mem ?h') a) = c_flags (hdr ?m a) \<and> c_alloc (hdr (aiv_mem ?h') a) = c_alloc (hdr ?m a)"
      if "a \<in> addrs xs \<union> addrs ys" for a
    proof -
      have "a \<in> H" "a \<noteq> p" "a \<noteq> q" using that sub rest(1) restq by auto
      then show ?thesis using hd [of a] hd1 [of a] by simp
    qed
    show "ftr (aiv_mem ?h') x = ftr ?m x" if "x \<in> ends xs \<union> ends ys" for x using that ft [of x] sub rest(2) by auto
    show "set as = allocs (xs @ [(p, N, k)] @ ys)" using D(9) k by (elim disjE) simp_all
  qed (use D st t' frs in auto)
  then have shape: "heap_shape ?h' (xs @ (p, N, k) # ys) (us @ vs) as" by simp
  show thesis by (rule that [OF run shape]) (use kp in \<open>simp_all add: H_def F_def\<close>)
qed

lemma chainFree_free:
  assumes sh: "heap_shape h (xs @ (p, s, KFree) # ys) fs as"
  shows "chainFree h (of_nat p) = Some h"
  using heap_shapeD(3) [OF sh, of "(p, s, KFree)"] shape_facts(1) [OF sh, of p]
  by (simp add: chainFree_def access block_ok_def flags_defs)

lemma chainFree_shape:
  assumes sh: "heap_shape h (xs @ (p, s, KNone n) # ys) fs as" and st: "settled xs" "settled ys"
  obtains h' where "chainFree h (of_nat p) = Some h'"
    "heap_shape h' (xs @ (p, s, KFree) # ys) (p # fs) as"
    "heapSize h' = heapSize h" "numAlloc h' = numAlloc h" "heapLimit h' = heapLimit h" "pAllocation h' = pAllocation h"
    "keeps (cells (addrs (xs @ (p, s, KNone n) # ys)) (ends (xs @ (p, s, KNone n) # ys))) (aiv_mem h) (aiv_mem h')"
proof -
  let ?bs = "xs @ (p, s, KNone n) # ys" and ?m = "aiv_mem h"
  define H where "H = addrs ?bs"
  define F where "F = ends ?bs"
  note D = heap_shapeD [OF sh] and S = shape_facts [OF sh, folded H_def F_def]
  note lay = S(6) and rest = tiles_rest [OF D(2)]
  have p: "p \<in> H" and sub: "addrs xs \<union> addrs ys \<subseteq> H" "ends xs \<union> ends ys \<subseteq> F" "p + 40 + s \<in> F" by (auto simp: H_def F_def)
  have pk: "p \<notin> set fs" "p \<notin> set as" unfolding D(8,9) using kind_of_addr [OF D(2), of p s "KNone n"] by simp_all
  have blk: "c_size (hdr ?m p) = of_nat s" "c_flags (hdr ?m p) = ALLOCATION_FLAGS_NONE" "ftr ?m (p + 40 + s) = of_nat s"
    using D(3) [of "(p, s, KNone n)"] by (simp_all add: block_ok_def)
  have c: "aiv_pFree h = first_ptr fs" using D(4) by (simp add: dll_def)
  have hf: "fs \<noteq> [] \<Longrightarrow> hd fs \<in> H" "fs \<noteq> [] \<Longrightarrow> hd fs \<noteq> p" "\<forall>x\<in>set fs. hdr_at h x" using S(1,3) pk by auto
  have hd_other: "fs = [] \<or> hd fs \<notin> set as" using S(5) by (cases fs) auto
  note pn = ptr_nonzero [OF hf(3)]
  define m1 where "m1 = w_prev (w_next (w_flags ?m p ALLOCATION_FLAGS_FREE) p (first_ptr fs)) p 0"
  define m' where "m' = (if fs = [] then m1 else w_prev m1 (hd fs) (of_nat p))"
  let ?h' = "h\<lparr>aiv_pFree := of_nat p, aiv_mem := m'\<rparr>"
  have run: "chainFree h (of_nat p) = Some ?h'"
    using S(1) [OF p] S(1) [OF hf(1)] blk pn
    by (cases "fs = []"; simp add: chainFree_def access c m1_def m'_def hdr_same)
  have hd: "hdr m' b = (if b = p then (hdr ?m p)\<lparr>c_flags := ALLOCATION_FLAGS_FREE, c_next := first_ptr fs, c_prev := 0\<rparr>
      else if fs \<noteq> [] \<and> b = hd fs then (hdr ?m b)\<lparr>c_prev := of_nat p\<rparr> else hdr ?m b)" if "b \<in> H" for b
    using that p hf by (cases "fs = []"; simp add: m'_def m1_def hdr_w [OF lay])
  have ft: "ftr m' e = ftr ?m e" if "e \<in> F" for e
    using that p hf by (cases "fs = []"; simp add: m'_def m1_def ftr_w [OF lay])
  have kp: "keeps (cells H F) ?m m'" using p hf by (cases "fs = []"; simp add: m'_def m1_def keeps_w)
  have "heap_shape ?h' (xs @ [(p, s, KFree)] @ ys) (p # fs) as"
  proof (rule shapeI [where m = ?m])
    show "block_ok (hdr (aiv_mem ?h')) (ftr (aiv_mem ?h')) b" if "b \<in> set [(p, s, KFree)]" for b
      using that blk hd [OF p] ft [OF sub(3)] by (simp add: block_ok_def)
    have "dll (hdr m') (aiv_pAlloc h) as = dll (hdr ?m) (aiv_pAlloc h) as"
      by (rule dll_cong) (use hd S(4) pk hd_other in \<open>auto simp: subset_iff\<close>)
    then show "dll (hdr (aiv_mem ?h')) (aiv_pAlloc ?h') as" using D(5) by simp
    have "dll (hdr m') (of_nat p) (p # fs)"
      by (rule dll_push [OF D(4,6)]) (use hd S(3) pk p c in \<open>auto simp: subset_iff\<close>)
    then show "dll (hdr (aiv_mem ?h')) (aiv_pFree ?h') (p # fs)" by simp
    show "c_size (hdr (aiv_mem ?h') a) = c_size (hdr ?m a) \<and> c_flags (hdr (aiv_mem ?h') a) = c_flags (hdr ?m a) \<and> c_alloc (hdr (aiv_mem ?h') a) = c_alloc (hdr ?m a)"
      if "a \<in> addrs xs \<union> addrs ys" for a
      using that hd [of a] sub rest(1) by auto
  qed (use D st pk ft sub in \<open>auto simp: tiles_append\<close>)
  then have shape: "heap_shape ?h' (xs @ (p, s, KFree) # ys) (p # fs) as" by simp
  show thesis by (rule that [OF run shape]) (use kp in \<open>simp_all add: H_def F_def\<close>)
qed

subsection \<open>The blocks after a block has been returned\<close>

definition absorb_left :: "block list \<Rightarrow> nat \<Rightarrow> nat \<Rightarrow> block list \<times> nat \<times> nat" where
  "absorb_left xs p s =
     (if xs \<noteq> [] \<and> snd (snd (last xs)) = KFree then (butlast xs, fst (last xs), fst (snd (last xs)) + 48 + s) else (xs, p, s))"

definition absorb_right :: "nat \<Rightarrow> block list \<Rightarrow> nat \<times> block list" where
  "absorb_right s ys = (if ys \<noteq> [] \<and> snd (snd (hd ys)) = KFree then (s + 48 + fst (snd (hd ys)), tl ys) else (s, ys))"

definition returned :: "block list \<Rightarrow> nat \<Rightarrow> nat \<Rightarrow> block list \<Rightarrow> block list" where
  "returned xs p s ys = (case absorb_left xs p s of (xs', q, t) \<Rightarrow> case absorb_right t ys of (u, ys') \<Rightarrow> xs' @ (q, u, KFree) # ys')"

lemma cells_mono: "H \<subseteq> H' \<Longrightarrow> F \<subseteq> F' \<Longrightarrow> cells H F \<subseteq> cells H' F'"
  by (force simp: cells_def)

lemma keeps_seq: "keeps A m m' \<Longrightarrow> keeps B m' m'' \<Longrightarrow> B \<subseteq> A \<Longrightarrow> keeps A m m''"
  by (auto simp: keeps_def)

text \<open>The merge with the left neighbour, when there is a free one: afterwards the block is in the free chain or still outside.\<close>

lemma coalesceLeft_shape:
  assumes sh: "heap_shape h (xs @ (p, s, KNone n) # ys) fs as" and st: "settled xs" "settled ys"
    and xs': "absorb_left xs p s = (xs', q, t)"
  obtains h' k where "coalesceLeft h (of_nat p) = Some (h', of_nat q, of_nat t)"
    "heap_shape h' (xs' @ (q, t, k) # ys) fs as" "k = KFree \<or> k = KNone n" "settled xs'"
    "heapSize h' = heapSize h" "numAlloc h' = numAlloc h" "heapLimit h' = heapLimit h" "pAllocation h' = pAllocation h"
    "keeps (cells (addrs (xs @ (p, s, KNone n) # ys)) (ends (xs @ (p, s, KNone n) # ys))) (aiv_mem h) (aiv_mem h')"
    "addrs (xs' @ (q, t, k) # ys) \<subseteq> addrs (xs @ (p, s, KNone n) # ys)" "ends (xs' @ (q, t, k) # ys) \<subseteq> ends (xs @ (p, s, KNone n) # ys)"
proof (cases "xs \<noteq> [] \<and> snd (snd (last xs)) = KFree")
  case False
  then have e: "xs' = xs" "q = p" "t = s" using xs' by (auto simp: absorb_left_def split: if_splits)
  have "coalesceLeft h (of_nat p) = Some (h, of_nat p, of_nat s)" by (rule coalesceLeft_none [OF sh]) (use False in auto)
  then show thesis using that [of h "KNone n"] sh st e by simp
next
  case True
  obtain zs a u where x: "xs = zs @ [(a, u, KFree)]" using True by (metis append_butlast_last_id prod.collapse)
  have e: "xs' = zs" "q = a" "t = u + 48 + s" using xs' by (auto simp: absorb_left_def x)
  have sh': "heap_shape h (zs @ (a, u, KFree) # (p, s, KNone n) # ys) fs as" using sh x by simp
  have zs: "settled zs" using st(1) x by simp
  have p: "p = a + 48 + u" using heap_shapeD(2) [OF sh'] by (auto simp: tiles_append)
  obtain h' where "coalesceLeft h (of_nat p) = Some (h', of_nat a, of_nat t)" "heap_shape h' (zs @ (a, t, KFree) # ys) fs as"
    "heapSize h' = heapSize h" "numAlloc h' = numAlloc h" "heapLimit h' = heapLimit h" "pAllocation h' = pAllocation h"
    "keeps (cells (addrs (zs @ (a, u, KFree) # (p, s, KNone n) # ys)) (ends (zs @ (a, u, KFree) # (p, s, KNone n) # ys))) (aiv_mem h) (aiv_mem h')"
    by (rule coalesceLeft_merge [OF sh' zs st(2) e(3)])
  then show thesis using that [of h' KFree] zs e x p by auto
qed

definition small_heap :: "AivHeap \<Rightarrow> bool" where
  "small_heap h \<longleftrightarrow> limit h < base h + 2 ^ 60"

lemma small_block: "heap_shape h bs fs as \<Longrightarrow> small_heap h \<Longrightarrow> (p, s, k) \<in> set bs \<Longrightarrow> s + 48 < 2 ^ 60"
  using tiles_bounds [of "base h" bs "limit h" p s k] heap_shapeD(2) [of h bs fs as] by (auto simp: small_heap_def)

lemma coalesceRight_shape:
  assumes sh: "heap_shape h (xs @ (q, t, k) # ys) fs as" and st: "settled xs" "settled ys" and k: "k = KFree \<or> k = KNone n"
    and ys': "absorb_right t ys = (u, ys')" and small: "small_heap h"
  obtains h' fs' where "coalesceRight h (of_nat q) (of_nat t) = Some h'"
    "heap_shape h' (xs @ (q, u, k) # ys') fs' as" "settled ys'"
    "heapSize h' = heapSize h" "numAlloc h' = numAlloc h" "heapLimit h' = heapLimit h" "pAllocation h' = pAllocation h"
    "keeps (cells (addrs (xs @ (q, t, k) # ys)) (ends (xs @ (q, t, k) # ys))) (aiv_mem h) (aiv_mem h')"
    "addrs (xs @ (q, u, k) # ys') \<subseteq> addrs (xs @ (q, t, k) # ys)" "ends (xs @ (q, u, k) # ys') \<subseteq> ends (xs @ (q, t, k) # ys)"
proof (cases "ys \<noteq> [] \<and> snd (snd (hd ys)) = KFree")
  case False
  then have e: "ys' = ys" "u = t" using ys' by (auto simp: absorb_right_def split: if_splits)
  have "coalesceRight h (of_nat q) (of_nat t) = Some h" by (rule coalesceRight_none [OF sh]) (use False in auto)
  then show thesis using that [of h fs] sh st e by simp
next
  case True
  obtain a v zs where y: "ys = (a, v, KFree) # zs" using True by (metis list.collapse prod.collapse)
  have e: "ys' = zs" "u = t + 48 + v" using ys' by (auto simp: absorb_right_def y)
  have sh': "heap_shape h (xs @ (q, t, k) # (a, v, KFree) # zs) fs as" using sh y by simp
  have a: "a = q + 48 + t" using heap_shapeD(2) [OF sh'] by (auto simp: tiles_append)
  have "a \<in> set fs" unfolding heap_shapeD(8) [OF sh'] using kind_of_addr(1) [OF heap_shapeD(2) [OF sh'], of a v KFree] by simp
  then obtain us vs where fs: "fs = us @ a # vs" by (meson split_list)
  have zs: "settled zs" using st(2) y by simp
  have u: "u < 2 ^ 60"
  proof -
    have "base h \<le> q" "a + 48 + v \<le> limit h" using tiles_bounds [OF heap_shapeD(2) [OF sh'], of q t k] tiles_bounds [OF heap_shapeD(2) [OF sh'], of a v KFree] by simp_all
    then show ?thesis using small e(2) a by (simp add: small_heap_def)
  qed
  obtain h' where "coalesceRight h (of_nat q) (of_nat t) = Some h'" "heap_shape h' (xs @ (q, u, k) # zs) (us @ vs) as"
    "heapSize h' = heapSize h" "numAlloc h' = numAlloc h" "heapLimit h' = heapLimit h" "pAllocation h' = pAllocation h"
    "keeps (cells (addrs (xs @ (q, t, k) # (a, v, KFree) # zs)) (ends (xs @ (q, t, k) # (a, v, KFree) # zs))) (aiv_mem h) (aiv_mem h')"
    by (rule coalesceRight_merge [OF sh' [unfolded fs] st(1) zs k e(2) u])
  then show thesis using that [of h' "us @ vs"] zs e y a by auto
qed

text \<open>The first block of an empty free list.\<close>

lemma addFree_first:
  assumes sh: "heap_shape h (xs @ (p, s, KNone n) # ys) [] as" and st: "settled xs" "settled ys"
  defines "h' \<equiv> h\<lparr>aiv_pFree := of_nat p, aiv_mem := w_flags (aiv_mem h) p ALLOCATION_FLAGS_FREE\<rparr>"
  shows "heap_shape h' (xs @ (p, s, KFree) # ys) [p] as"
    and "keeps (cells (addrs (xs @ (p, s, KNone n) # ys)) (ends (xs @ (p, s, KNone n) # ys))) (aiv_mem h) (aiv_mem h')"
proof -
  let ?bs = "xs @ (p, s, KNone n) # ys" and ?m = "aiv_mem h"
  define H where "H = addrs ?bs"
  define F where "F = ends ?bs"
  note D = heap_shapeD [OF sh] and S = shape_facts [OF sh, folded H_def F_def]
  note lay = S(6) and rest = tiles_rest [OF D(2)]
  have p: "p \<in> H" and sub: "addrs xs \<union> addrs ys \<subseteq> H" "ends xs \<union> ends ys \<subseteq> F" "p + 40 + s \<in> F" by (auto simp: H_def F_def)
  have pk: "p \<notin> set as" unfolding D(9) using kind_of_addr [OF D(2), of p s "KNone n"] by simp
  have blk: "block_ok (hdr ?m) (ftr ?m) (p, s, KNone n)" using D(3) by simp
  let ?m' = "w_flags ?m p ALLOCATION_FLAGS_FREE"
  have hd: "hdr ?m' b = (if b = p then (hdr ?m p)\<lparr>c_flags := ALLOCATION_FLAGS_FREE\<rparr> else hdr ?m b)" if "b \<in> H" for b
    using that p by (simp add: hdr_w [OF lay])
  have ft: "ftr ?m' e = ftr ?m e" if "e \<in> F" for e using that p by (simp add: ftr_w [OF lay])
  show "keeps (cells (addrs ?bs) (ends ?bs)) ?m (aiv_mem h')"
    using keeps_w(3) [OF keeps_refl p, of F] by (simp add: h'_def H_def F_def)
  have "heap_shape h' (xs @ [(p, s, KFree)] @ ys) [p] as"
  proof (rule shapeI [where m = ?m])
    show "block_ok (hdr (aiv_mem h')) (ftr (aiv_mem h')) b" if "b \<in> set [(p, s, KFree)]" for b
      using that blk hd [OF p] ft [OF sub(3)] by (simp add: h'_def block_ok_def)
    have "dll (hdr ?m') (aiv_pAlloc h) as = dll (hdr ?m) (aiv_pAlloc h) as" by (rule dll_cong) (use hd S(4) pk in auto)
    then show "dll (hdr (aiv_mem h')) (aiv_pAlloc h') as" using D(5) by (simp add: h'_def)
    show "dll (hdr (aiv_mem h')) (aiv_pFree h') [p]" using hd [OF p] blk by (simp add: h'_def dll_def block_ok_def)
    show "c_size (hdr (aiv_mem h') a) = c_size (hdr ?m a) \<and> c_flags (hdr (aiv_mem h') a) = c_flags (hdr ?m a) \<and> c_alloc (hdr (aiv_mem h') a) = c_alloc (hdr ?m a)"
      if "a \<in> addrs xs \<union> addrs ys" for a
      using that hd [of a] sub rest(1) by (auto simp: h'_def)
    show "ftr (aiv_mem h') e = ftr ?m e" if "e \<in> ends xs \<union> ends ys" for e using that ft sub by (auto simp: h'_def)
  qed (use D st in \<open>auto simp: tiles_append h'_def\<close>)
  then show "heap_shape h' (xs @ (p, s, KFree) # ys) [p] as" by simp
qed

lemma no_free_returned:
  assumes "frees xs = {}" "frees ys = {}"
  shows "returned xs p s ys = xs @ (p, s, KFree) # ys"
proof -
  have "\<not> (zs \<noteq> [] \<and> snd (snd (last zs)) = KFree)" "\<not> (zs \<noteq> [] \<and> snd (snd (hd zs)) = KFree)" if "frees zs = {}" for zs
  proof -
    have "(fst b, fst (snd b), KFree) = b \<longleftrightarrow> snd (snd b) = KFree" for b :: block by (metis prod.collapse snd_conv)
    moreover have "(a, u, KFree) \<notin> set zs" for a u using that by (auto simp: frees_def)
    ultimately show "\<not> (zs \<noteq> [] \<and> snd (snd (last zs)) = KFree)" "\<not> (zs \<noteq> [] \<and> snd (snd (hd zs)) = KFree)"
      by (metis last_in_set, metis hd_in_set)
  qed
  from this(1) [OF assms(1)] this(2) [OF assms(2)] show ?thesis unfolding returned_def absorb_left_def absorb_right_def by (simp only: if_False prod.case)
qed

lemma addFree_shape:
  assumes sh: "heap_shape h (xs @ (p, s, KNone n) # ys) fs as" and st: "settled xs" "settled ys" and small: "small_heap h"
  obtains h' fs' where "addFreeBlock h (of_nat p) = Some h'" "heap_shape h' (returned xs p s ys) fs' as"
    "heapSize h' = heapSize h" "numAlloc h' = numAlloc h" "heapLimit h' = heapLimit h" "pAllocation h' = pAllocation h"
    "keeps (cells (addrs (xs @ (p, s, KNone n) # ys)) (ends (xs @ (p, s, KNone n) # ys))) (aiv_mem h) (aiv_mem h')"
proof -
  note result = that
  let ?bs = "xs @ (p, s, KNone n) # ys"
  note D = heap_shapeD [OF sh] and S = shape_facts [OF sh]
  have at: "hdr_at h p" using S(1) by simp
  have blk: "c_size (hdr (aiv_mem h) p) = of_nat s" "c_flags (hdr (aiv_mem h) p) = ALLOCATION_FLAGS_NONE" "c_next (hdr (aiv_mem h) p) = 0" "c_prev (hdr (aiv_mem h) p) = 0"
    using D(3) [of "(p, s, KNone n)"] by (simp_all add: block_ok_def)
  have pos: "(of_nat s :: UINT64) > 0"
    using small_block [OF sh small, of p s "KNone n"] tiles_bounds [OF D(2), of p s "KNone n"] unat_addr [of s] by (auto simp: word_less_nat_alt)
  have c: "aiv_pFree h = first_ptr fs" using D(4) by (simp add: dll_def)
  have "\<forall>x\<in>set fs. hdr_at h x" using S(1,3) by auto
  note pn = ptr_nonzero(1) [OF this]
  show thesis
  proof (cases "fs = []")
    case True
    have sh': "heap_shape h ?bs [] as" using sh True by simp
    have "frees xs = {}" "frees ys = {}" using D(8) True by simp_all
    then have r: "returned xs p s ys = xs @ (p, s, KFree) # ys" by (rule no_free_returned)
    have "addFreeBlock h (of_nat p) = Some (h\<lparr>aiv_pFree := of_nat p, aiv_mem := w_flags (aiv_mem h) p ALLOCATION_FLAGS_FREE\<rparr>)"
      using at blk pos addr_nonzero [OF at] True c by (simp add: addFreeBlock_def access CHECK_def)
    then show thesis using result [of _ "[p]"] addFree_first [OF sh' st] unfolding r by simp
  next
    case False
    obtain xs' q t where x: "absorb_left xs p s = (xs', q, t)" by (metis prod_cases3)
    obtain u ys' where y: "absorb_right t ys = (u, ys')" by (metis prod.exhaust)
    obtain h1 k where h1: "coalesceLeft h (of_nat p) = Some (h1, of_nat q, of_nat t)"
      "heap_shape h1 (xs' @ (q, t, k) # ys) fs as" "k = KFree \<or> k = KNone n" "settled xs'"
      "heapSize h1 = heapSize h" "numAlloc h1 = numAlloc h" "heapLimit h1 = heapLimit h" "pAllocation h1 = pAllocation h"
      "keeps (cells (addrs ?bs) (ends ?bs)) (aiv_mem h) (aiv_mem h1)"
      "addrs (xs' @ (q, t, k) # ys) \<subseteq> addrs ?bs" "ends (xs' @ (q, t, k) # ys) \<subseteq> ends ?bs"
      by (rule coalesceLeft_shape [OF sh st x])
    have small1: "small_heap h1" using small h1(7,8) by (simp add: small_heap_def base_def limit_def)
    obtain h2 fs2 where h2: "coalesceRight h1 (of_nat q) (of_nat t) = Some h2" "heap_shape h2 (xs' @ (q, u, k) # ys') fs2 as" "settled ys'"
      "heapSize h2 = heapSize h1" "numAlloc h2 = numAlloc h1" "heapLimit h2 = heapLimit h1" "pAllocation h2 = pAllocation h1"
      "keeps (cells (addrs (xs' @ (q, t, k) # ys)) (ends (xs' @ (q, t, k) # ys))) (aiv_mem h1) (aiv_mem h2)"
      "addrs (xs' @ (q, u, k) # ys') \<subseteq> addrs (xs' @ (q, t, k) # ys)" "ends (xs' @ (q, u, k) # ys') \<subseteq> ends (xs' @ (q, t, k) # ys)"
      by (rule coalesceRight_shape [OF h1(2,4) st(2) h1(3) y small1])
    have k2: "keeps (cells (addrs ?bs) (ends ?bs)) (aiv_mem h) (aiv_mem h2)"
      by (rule keeps_seq [OF h1(9) h2(8) cells_mono [OF h1(10,11)]])
    have r: "returned xs p s ys = xs' @ (q, u, KFree) # ys'" by (simp add: returned_def x y)
    have run: "addFreeBlock h (of_nat p) = chainFree h2 (of_nat q)"
      using at blk pos addr_nonzero [OF at] False c pn by (simp add: addFreeBlock_def access CHECK_def h1(1) h2(1))
    show thesis using h1(3)
    proof
      assume k: "k = KFree"
      show thesis using result [of h2 fs2] run chainFree_free [OF h2(2) [unfolded k]] h2 h1 k2 r k by simp
    next
      assume k: "k = KNone n"
      obtain h3 where h3: "chainFree h2 (of_nat q) = Some h3" "heap_shape h3 (xs' @ (q, u, KFree) # ys') (q # fs2) as"
        "heapSize h3 = heapSize h2" "numAlloc h3 = numAlloc h2" "heapLimit h3 = heapLimit h2" "pAllocation h3 = pAllocation h2"
        "keeps (cells (addrs (xs' @ (q, u, KNone n) # ys')) (ends (xs' @ (q, u, KNone n) # ys'))) (aiv_mem h2) (aiv_mem h3)"
        by (rule chainFree_shape [OF h2(2) [unfolded k] h1(4) h2(3)])
      have "keeps (cells (addrs ?bs) (ends ?bs)) (aiv_mem h) (aiv_mem h3)"
        by (rule keeps_seq [OF k2 h3(7) cells_mono]) (use h2(9,10) h1(10,11) k in blast)+
      then show thesis using result [of h3 "q # fs2"] run h3 h2 h1 r by simp
    qed
  qed
qed

end
