(* ===== verification/AivHeapProps.thy ===== *)
theory AivHeapProps
  imports AivHeapFree
begin

text \<open>
  The properties of the AIV heap: allocation hands out disjoint regions and leaves the contents of the others alone, freeing
  returns the memory merged with its free neighbours, and no fatal check fails. The accounting of the heap size is exact as long as no allocation
  is resized.
\<close>

subsection \<open>First fit\<close>

definition fits :: "block list \<Rightarrow> nat \<Rightarrow> nat \<Rightarrow> bool" where
  "fits bs n p \<longleftrightarrow> (\<exists>s k. (p, s, k) \<in> set bs \<and> n \<le> s)"

lemma firstFit_run:
  assumes sh: "heap_shape h bs fs as" and small: "small_heap h" and n: "n < 2 ^ 60"
    and zs: "set zs \<subseteq> set fs" "chain (hdr (aiv_mem h)) c zs 0"
  shows "firstFit h (of_nat n) (first_ptr zs) = Some (case find (fits bs n) zs of None \<Rightarrow> 0 | Some p \<Rightarrow> of_nat p)"
  using zs
proof (induction zs arbitrary: c)
  case Nil
  then show ?case by (simp add: firstFit.simps)
next
  case (Cons p zs)
  obtain s where s: "(p, s, KFree) \<in> set bs" using Cons.prems(1) heap_shapeD(8) [OF sh] by (auto simp: frees_def)
  have at: "hdr_at h p" using shape_facts(1) [OF sh, of p] s by (force simp: addrs_def)
  have size: "c_size (hdr (aiv_mem h) p) = of_nat s" using heap_shapeD(3) [OF sh s] by (simp add: block_ok_def)
  have "s < 2 ^ 60" using small_block [OF sh small s] by simp
  then have le: "(of_nat n :: UINT64) \<le> of_nat s \<longleftrightarrow> n \<le> s" using n by (intro word_of_nat_le) simp_all
  have fit: "fits bs n p \<longleftrightarrow> n \<le> s"
    unfolding fits_def using s tiles_same_addr [OF heap_shapeD(2) [OF sh] s] by blast
  have next': "c_next (hdr (aiv_mem h) p) = first_ptr zs" using Cons.prems(2) by (cases zs) simp_all
  have ih: "firstFit h (of_nat n) (first_ptr zs) = Some (case find (fits bs n) zs of None \<Rightarrow> 0 | Some p \<Rightarrow> of_nat p)"
    using Cons.IH [of "of_nat p"] Cons.prems by simp
  show ?case using ih at addr_nonzero [OF at]
    by (subst firstFit.simps) (simp add: access size le fit next' HEAP_PACKED_SIZE_def)
qed

lemma getFreeBlock_run:
  assumes sh: "heap_shape h bs fs as" and small: "small_heap h" and n: "n < 2 ^ 60"
  shows "getFreeBlock h (of_nat n) = Some (case find (fits bs n) fs of None \<Rightarrow> 0 | Some p \<Rightarrow> of_nat p)"
  using firstFit_run [OF assms order_refl, of 0] heap_shapeD(4) [OF sh] by (simp add: getFreeBlock_def dll_def)

subsection \<open>The invariant\<close>

definition apart :: "block list \<Rightarrow> bool" where
  "apart bs = successively (\<lambda>a b. \<not> (snd (snd a) = KFree \<and> snd (snd b) = KFree)) bs"

text \<open>The bytes that the allocated blocks take, with their headers and footers, and the number of these blocks.\<close>

fun used :: "block list \<Rightarrow> nat" where
  "used [] = 0"
| "used ((p, s, KAlloc n) # bs) = 48 + s + used bs"
| "used (b # bs) = used bs"

fun live :: "block list \<Rightarrow> nat" where
  "live [] = 0"
| "live ((p, s, KAlloc n) # bs) = Suc (live bs)"
| "live (b # bs) = live bs"

definition aiv_inv :: "AivHeap \<Rightarrow> block list \<Rightarrow> bool" where
  "aiv_inv h bs \<longleftrightarrow> (\<exists>fs as. heap_shape h bs fs as) \<and> settled bs \<and> apart bs \<and> small_heap h"

definition counted :: "AivHeap \<Rightarrow> block list \<Rightarrow> bool" where
  "counted h bs \<longleftrightarrow> heapSize h = of_nat (used bs) \<and> numAlloc h = of_nat (live bs)"

definition handle_of :: "AivHeap \<Rightarrow> nat \<Rightarrow> ALLOCATION_HANDLE" where
  "handle_of h p = of_nat (4 * (p + 40 - base h))"

text \<open>The contents of the allocations of \<open>bs\<close> that are also in \<open>bs'\<close> are kept.\<close>

definition same_contents :: "AivHeap \<Rightarrow> AivHeap \<Rightarrow> block list \<Rightarrow> block list \<Rightarrow> bool" where
  "same_contents h h' bs bs' \<longleftrightarrow> (\<forall>p s n. (p, s, KAlloc n) \<in> set bs \<and> (p, s, KAlloc n) \<in> set bs' \<longrightarrow>
     (\<forall>i. p + 40 \<le> i \<and> i < p + 40 + s \<longrightarrow> aiv_mem h' i = aiv_mem h i))"

lemma used_append [simp]: "used (xs @ ys) = used xs + used ys"
  by (induction xs rule: used.induct) simp_all

lemma live_append [simp]: "live (xs @ ys) = live xs + live ys"
  by (induction xs rule: live.induct) simp_all

lemma used_tiles: "tiles a bs e \<Longrightarrow> used bs \<le> e - a"
proof (induction a bs e rule: tiles.induct)
  case (2 a p s k bs e)
  have "a + 48 + s \<le> e" using 2 tiles_le by auto
  then show ?case using 2 by (cases k) auto
qed simp

lemma live_used: "live bs \<le> used bs"
  by (induction bs rule: live.induct) simp_all

lemma live_zero_used: "live bs = 0 \<Longrightarrow> used bs = 0"
  by (induction bs rule: live.induct) simp_all

lemma payload_cells:
  assumes t: "tiles a bs e" and b: "(p, s, k) \<in> set bs"
  shows "{p + 40..<p + 40 + s} \<inter> cells (addrs bs) (ends bs) = {}"
proof -
  have "x \<notin> cells (addrs bs) (ends bs)" if x: "p + 40 \<le> x" "x < p + 40 + s" for x
  proof
    assume "x \<in> cells (addrs bs) (ends bs)"
    then obtain q u l where q: "(q, u, l) \<in> set bs" "q \<le> x \<and> x < q + 40 \<or> q + 40 + u \<le> x \<and> x < q + 48 + u"
      by (fastforce simp: cells_def addrs_def ends_def)
    then show False using tiles_sep [OF t b q(1)] x by auto
  qed
  then show ?thesis by auto
qed

lemma contents_keeps:
  assumes "keeps (cells (addrs cs) (ends cs)) (aiv_mem h) (aiv_mem h')" "tiles a cs e"
    and "\<And>p s n. (p, s, KAlloc n) \<in> set bs \<Longrightarrow> (p, s, KAlloc n) \<in> set bs' \<Longrightarrow> \<exists>k. (p, s, k) \<in> set cs"
  shows "same_contents h h' bs bs'"
  unfolding same_contents_def
proof (intro allI impI; elim conjE)
  fix p s n i assume "(p, s, KAlloc n) \<in> set bs" "(p, s, KAlloc n) \<in> set bs'" "p + 40 \<le> i" "i < p + 40 + s"
  moreover from this obtain k where "(p, s, k) \<in> set cs" using assms(3) by blast
  ultimately show "aiv_mem h' i = aiv_mem h i" using payload_cells [OF assms(2)] assms(1) by (fastforce simp: keeps_def)
qed

subsection \<open>Allocation\<close>

lemma find_split: "find P xs = Some x \<Longrightarrow> \<exists>us vs. xs = us @ x # vs \<and> P x"
  by (metis find_Some_iff in_set_conv_decomp nth_mem)

text \<open>The blocks after \<open>n\<close> bytes have been allocated in the free block \<open>(p, s)\<close>.\<close>

definition carved :: "nat \<Rightarrow> nat \<Rightarrow> nat \<Rightarrow> block list" where
  "carved p s n = (if s < n + 64 then [(p, s, KAlloc n)] else [(p, n, KAlloc n), (p + 48 + n, s - n - 48, KFree)])"

lemma carve:
  assumes sh: "heap_shape h (xs @ (p, s, KFree) # ys) (us @ p # vs) as" and st: "settled xs" "settled ys" and small: "small_heap h"
    and n: "0 < n" "n \<le> s"
  obtains h' fs' as' where "splitFreeBlock h (of_nat p) (of_nat n) \<bind> (\<lambda>h. addAllocatedBlock h (of_nat p)) = Some h'"
    "heap_shape h' (xs @ carved p s n @ ys) fs' as'"
    "heapSize h' = heapSize h + of_nat (fst (snd (hd (carved p s n))) - n)" "numAlloc h' = numAlloc h" "heapLimit h' = heapLimit h" "pAllocation h' = pAllocation h"
    "same_contents h h' (xs @ (p, s, KFree) # ys) (xs @ carved p s n @ ys)"
proof -
  note result = that
  have s: "s < 2 ^ 60" using small_block [OF sh small, of p s KFree] by simp
  have alloc: "(a, t, KAlloc m) \<in> set (xs @ (p, s, KFree) # ys) \<Longrightarrow> (a, t, KAlloc m) \<in> set xs \<union> set ys" for a t m by simp
  show thesis
  proof (cases "s < n + 64")
    case True
    obtain h1 where h1: "splitFreeBlock h (of_nat p) (of_nat n) = Some h1" "heap_shape h1 (xs @ (p, s, KNone n) # ys) (us @ vs) as"
      "heapSize h1 = heapSize h + of_nat (s - n)" "numAlloc h1 = numAlloc h" "heapLimit h1 = heapLimit h" "pAllocation h1 = pAllocation h"
      "keeps (cells (addrs (xs @ (p, s, KFree) # ys)) (ends (xs @ (p, s, KFree) # ys))) (aiv_mem h) (aiv_mem h1)"
      by (rule splitFree_whole [OF sh st n(2) True s])
    obtain h2 where h2: "addAllocatedBlock h1 (of_nat p) = Some h2" "heap_shape h2 (xs @ (p, s, KAlloc n) # ys) (us @ vs) (p # as)"
      "heapSize h2 = heapSize h1" "numAlloc h2 = numAlloc h1" "heapLimit h2 = heapLimit h1" "pAllocation h2 = pAllocation h1"
      "keeps (cells (addrs (xs @ (p, s, KNone n) # ys)) (ends (xs @ (p, s, KNone n) # ys))) (aiv_mem h1) (aiv_mem h2)"
      by (rule addAllocated_shape [OF h1(2) st n s])
    have "keeps (cells (addrs (xs @ (p, s, KFree) # ys)) (ends (xs @ (p, s, KFree) # ys))) (aiv_mem h) (aiv_mem h2)"
      by (rule keeps_seq [OF h1(7) h2(7)]) simp
    then have "same_contents h h2 (xs @ (p, s, KFree) # ys) (xs @ [(p, s, KAlloc n)] @ ys)"
      by (rule contents_keeps [OF _ heap_shapeD(2) [OF sh]]) auto
    then show thesis using result [of h2 "us @ vs" "p # as"] h1 h2 True by (simp add: carved_def)
  next
    case False
    then have n64: "n + 64 \<le> s" by simp
    let ?q = "p + 48 + n" and ?r = "s - n - 48"
    obtain h1 where h1: "splitFreeBlock h (of_nat p) (of_nat n) = Some h1" "heap_shape h1 (xs @ (p, n, KNone n) # (?q, ?r, KFree) # ys) (us @ ?q # vs) as"
      "heapSize h1 = heapSize h" "numAlloc h1 = numAlloc h" "heapLimit h1 = heapLimit h" "pAllocation h1 = pAllocation h"
      "keeps (cells (addrs (xs @ (p, n, KNone n) # (?q, ?r, KFree) # ys)) (ends (xs @ (p, n, KNone n) # (?q, ?r, KFree) # ys))) (aiv_mem h) (aiv_mem h1)"
      by (rule splitFree_split [OF sh st n(1) n64 s refl refl])
    have st': "settled ((?q, ?r, KFree) # ys)" using st by simp
    have n60: "n < 2 ^ 60" using n64 s by simp
    obtain h2 where h2: "addAllocatedBlock h1 (of_nat p) = Some h2" "heap_shape h2 (xs @ (p, n, KAlloc n) # (?q, ?r, KFree) # ys) (us @ ?q # vs) (p # as)"
      "heapSize h2 = heapSize h1" "numAlloc h2 = numAlloc h1" "heapLimit h2 = heapLimit h1" "pAllocation h2 = pAllocation h1"
      "keeps (cells (addrs (xs @ (p, n, KNone n) # (?q, ?r, KFree) # ys)) (ends (xs @ (p, n, KNone n) # (?q, ?r, KFree) # ys))) (aiv_mem h1) (aiv_mem h2)"
      by (rule addAllocated_shape [OF h1(2) st(1) st' n(1) order_refl n60])
    have "keeps (cells (addrs (xs @ (p, n, KNone n) # (?q, ?r, KFree) # ys)) (ends (xs @ (p, n, KNone n) # (?q, ?r, KFree) # ys))) (aiv_mem h) (aiv_mem h2)"
      by (rule keeps_seq [OF h1(7) h2(7)]) simp
    then have "same_contents h h2 (xs @ (p, s, KFree) # ys) (xs @ [(p, n, KAlloc n), (?q, ?r, KFree)] @ ys)"
      by (rule contents_keeps [OF _ heap_shapeD(2) [OF h1(2)]]) auto
    then show thesis using result [of h2 "us @ ?q # vs" "p # as"] h1 h2 False by (simp add: carved_def)
  qed
qed

lemma apart_simps:
  "apart (xs @ ys) \<longleftrightarrow> apart xs \<and> apart ys \<and> (xs = [] \<or> ys = [] \<or> \<not> (snd (snd (last xs)) = KFree \<and> snd (snd (hd ys)) = KFree))"
  "apart []" "apart [b]" "apart (b # c # bs) \<longleftrightarrow> \<not> (snd (snd b) = KFree \<and> snd (snd c) = KFree) \<and> apart (c # bs)"
  by (auto simp: apart_def successively_append_iff)

lemma apart_carved: "apart (xs @ (p, s, KFree) # ys) \<Longrightarrow> apart (xs @ carved p s n @ ys)"
  by (cases ys) (auto simp: apart_simps carved_def)

lemma handle_word:
  assumes at: "hdr_at h p" and small: "small_heap h"
  shows "TO_AIV_HANDLE h (GET_AIV_ALLOCATION (of_nat p)) = handle_of h p" "FROM_AIV_HANDLE h (handle_of h p) = of_nat (p + 40)"
    "CHK_AIV_ALLOCATION h (of_nat (p + 40)) \<longleftrightarrow> p + 40 < limit h" "GET_AIV_ALLOCATION_HEADER (of_nat (p + 40)) = of_nat p"
    "handle_of h p \<noteq> 0"
proof -
  have b: "wf_bounds h" "base h \<le> p" "p + 40 \<le> limit h" "limit h < 2 ^ 64" "limit h < base h + 2 ^ 60"
    using assms by (auto simp: hdr_at_def wf_bounds_def small_heap_def)
  define d where "d = p + 40 - base h"
  have d: "d < 2 ^ 60" "0 < d" "p + 40 = base h + d" using b by (auto simp: d_def)
  have h: "handle_of h p = of_nat (4 * d)" by (simp add: handle_of_def d_def)
  have "of_nat p + 40 - of_nat (base h) = (of_nat (p + 40 - base h) :: UINT64)" using b(2) by (simp add: of_nat_diff)
  then show "TO_AIV_HANDLE h (GET_AIV_ALLOCATION (of_nat p)) = handle_of h p"
    unfolding TO_AIV_HANDLE_def sizes heap_addr(1) [OF b(1)] h by (simp add: push_bit_eq_mult d_def)
  have u: "unat (of_nat (4 * d) :: UINT64) = 4 * d" "unat (of_nat d :: UINT64) = d" using d(1) by (intro unat_addr; simp)+
  have "(of_nat (4 * d) :: UINT64) div 4 = of_nat d"
    using u by (simp add: word_unat_eq_iff unat_div del: of_nat_mult)
  then show "FROM_AIV_HANDLE h (handle_of h p) = of_nat (p + 40)"
    unfolding FROM_AIV_HANDLE_def h heap_addr(1) [OF b(1)] d(3) by (simp add: drop_bit_eq_div del: of_nat_mult)
  have "(of_nat (p + 40) :: UINT64) \<noteq> 0" using unat_addr [of "p + 40"] b by (metis add_eq_0_iff_both_eq_0 le_less_trans unat_0 zero_neq_numeral)
  moreover have "(of_nat (base h) :: UINT64) \<le> of_nat (p + 40)" "(of_nat (p + 40) :: UINT64) < of_nat (limit h) \<longleftrightarrow> p + 40 < limit h"
    using b word_of_nat_le [of "limit h" "p + 40"] word_of_nat_le [of "base h" "p + 40"] by (simp_all only: not_le [symmetric]) simp_all
  ultimately show "CHK_AIV_ALLOCATION h (of_nat (p + 40)) \<longleftrightarrow> p + 40 < limit h"
    unfolding CHK_AIV_ALLOCATION_def heap_addr(2) [OF b(1)] unfolding heap_addr(1) [OF b(1)] by blast
  show "GET_AIV_ALLOCATION_HEADER (of_nat (p + 40)) = of_nat p" by (simp add: sizes)
  show "handle_of h p \<noteq> 0" using u(1) d(2) unfolding h by (metis mult_eq_0_iff less_irrefl unat_0 zero_neq_numeral)
qed

lemma shape_update:
  "heap_shape (h\<lparr>heapSize := x, numAlloc := y\<rparr>) bs fs as \<longleftrightarrow> heap_shape h bs fs as" "small_heap (h\<lparr>heapSize := x, numAlloc := y\<rparr>) = small_heap h"
  by (simp_all add: heap_shape_def small_heap_def)

lemma used_free: "tiles a bs e \<Longrightarrow> (p, s, KFree) \<in> set bs \<Longrightarrow> used bs + 48 + s \<le> e - a"
proof (induction a bs e rule: tiles.induct)
  case (2 a q t k bs e)
  have e: "a + 48 + t \<le> e" using 2 tiles_le by auto
  show ?case
  proof (cases "(p, s, KFree) = (q, t, k)")
    case True
    then show ?thesis using used_tiles [of "a + 48 + t" bs e] 2(2) e by auto
  next
    case False
    then show ?thesis using 2 e by (cases k) auto
  qed
qed simp

lemma commonAlloc_run:
  assumes l: "heapLimit h \<noteq> 0" "heapSize h \<le> heapLimit h" and small: "small_heap h" and n: "0 < n" "n < 2 ^ 60 - 1"
  shows "commonHeapAlloc aivGetAllocationHeaderSize aivGetAllocationAlignedSize aivGetAllocationFooterSize (Some h) (of_nat n) True =
    (if n + 48 + unat (heapSize h) \<le> unat (heapLimit h)
     then (STATUS_SUCCESS, Some 0, Some (incrementUsage h (of_nat (n + 48)))) else (STATUS_NOT_ENOUGH_MEMORY, Some 0, Some h))"
proof -
  have u: "unat (of_nat n :: UINT64) = n" using n by (intro unat_addr) simp
  have lim: "unat (heapLimit h) < 2 ^ 60" using small by (simp add: small_heap_def limit_def base_def)
  have hs: "unat (heapSize h) < 2 ^ 60" using l(2) lim by (simp add: word_le_nat_alt)
  have "of_nat (n + 48) + heapSize h = of_nat (n + 48 + unat (heapSize h))" by simp
  moreover have "n + 48 + unat (heapSize h) < 2 ^ 64" using hs n by simp
  ultimately have "unat (of_nat (n + 48) + heapSize h) = n + 48 + unat (heapSize h)" by (simp only: unat_addr)
  then have le: "of_nat (n + 48) + heapSize h \<le> heapLimit h \<longleftrightarrow> n + 48 + unat (heapSize h) \<le> unat (heapLimit h)" by (simp only: word_le_nat_alt)
  have rng: "(of_nat n :: UINT64) > 0 \<and> of_nat n < MAX_ALLOCATION_SIZE"
    using u n by (simp add: word_less_nat_alt MAX_ALLOCATION_SIZE_def)
  have o: "aivGetAllocationHeaderSize + aivGetAllocationAlignedSize (of_nat n) + aivGetAllocationFooterSize = of_nat (n + 48)"
    by (simp add: aivGetAllocationHeaderSize_def aivGetAllocationAlignedSize_def aivGetAllocationFooterSize_def sizes)
  show ?thesis unfolding commonHeapAlloc_def Let_def o validateHeap_def INVALID_ALLOCATION_HANDLE_VALUE_def option.case le
    using l(1) rng by (simp only: simp_thms if_True if_False not_False_eq_True split: if_splits) blast
qed

lemma increment_decrement:
  assumes "n + unat (heapSize h) < 2 ^ 64" "n < 2 ^ 64"
  shows "decrementUsage (incrementUsage h (of_nat n)) (of_nat n) = (h :: AivHeap)"
proof -
  have u: "unat (of_nat n :: UINT64) = n" using assms by (intro unat_addr)
  have "heapSize h + of_nat n = of_nat (n + unat (heapSize h))" by simp
  then have "unat (heapSize h + of_nat n) = unat (heapSize h) + n" using unat_addr [OF assms(1)] by (simp only: add.commute)
  then have "heapSize h + of_nat n \<le> of_nat n \<longleftrightarrow> heapSize h = 0" using u by (simp add: word_le_nat_alt unat_eq_0)
  then show ?thesis by (simp add: decrementUsage_def incrementUsage_def Let_def)
qed

lemma aiv_invE:
  assumes "aiv_inv h bs"
  obtains fs as where "heap_shape h bs fs as" "settled bs" "apart bs" "small_heap h"
  using assms by (auto simp: aiv_inv_def)

lemma carved_counts:
  assumes "0 < n" "n \<le> s"
  shows "used (carved p s n) = 48 + fst (snd (hd (carved p s n)))" "live (carved p s n) = 1" "n \<le> fst (snd (hd (carved p s n)))"
    "settled (carved p s n)"
  using assms by (auto simp: carved_def)

lemma alloc_run:
  assumes inv: "aiv_inv h bs" and l: "heapLimit h \<noteq> 0" "heapSize h \<le> heapLimit h" and n: "0 < n" "n < 2 ^ 60 - 1"
    and room: "n + 48 + unat (heapSize h) \<le> unat (heapLimit h)" and fit: "(p, s, KFree) \<in> set bs" "n \<le> s"
  obtains h' xs q t ys where "aivHeapAlloc (Some h) (of_nat n) True = Some (STATUS_SUCCESS, Some (handle_of h q), Some h')"
    "bs = xs @ (q, t, KFree) # ys" "n \<le> t" "aiv_inv h' (xs @ carved q t n @ ys)" "same_contents h h' bs (xs @ carved q t n @ ys)"
    "counted h bs \<longrightarrow> counted h' (xs @ carved q t n @ ys)" "handle_of h' q = handle_of h q" "handle_of h q \<noteq> 0"
    "heapLimit h' = heapLimit h" "pAllocation h' = pAllocation h"
proof -
  obtain fs as where sh: "heap_shape h bs fs as" and st: "settled bs" and ap: "apart bs" and small: "small_heap h" by (rule aiv_invE [OF inv])
  note D = heap_shapeD [OF sh]
  have "p \<in> set fs" "fits bs n p" using fit kind_of_addr(1) [OF D(2) fit(1)] D(8) by (auto simp: fits_def)
  then obtain q where q: "find (fits bs n) fs = Some q" by (metis find_None_iff not_None_eq)
  obtain us vs where fs: "fs = us @ q # vs" and fq: "fits bs n q" using find_split [OF q] by blast
  obtain t where t: "(q, t, KFree) \<in> set bs" using D(8) fs by (auto simp: frees_def)
  have nt: "n \<le> t" using fq tiles_same_addr [OF D(2) t] by (auto simp: fits_def)
  obtain xs ys where bs: "bs = xs @ (q, t, KFree) # ys" using t by (meson split_list)
  let ?h1 = "incrementUsage h (of_nat (n + 48))"
  have i: "?h1 = h\<lparr>heapSize := heapSize h + of_nat (n + 48), numAlloc := numAlloc h + 1\<rparr>" by (simp add: incrementUsage_def)
  have sh1: "heap_shape ?h1 (xs @ (q, t, KFree) # ys) (us @ q # vs) as" "small_heap ?h1"
    unfolding i shape_update using sh small bs fs by simp_all
  have st': "settled xs" "settled ys" using st bs by simp_all
  obtain h' fs' as' where h': "splitFreeBlock ?h1 (of_nat q) (of_nat n) \<bind> (\<lambda>h. addAllocatedBlock h (of_nat q)) = Some h'"
    "heap_shape h' (xs @ carved q t n @ ys) fs' as'"
    "heapSize h' = heapSize ?h1 + of_nat (fst (snd (hd (carved q t n))) - n)" "numAlloc h' = numAlloc ?h1" "heapLimit h' = heapLimit ?h1" "pAllocation h' = pAllocation ?h1"
    "same_contents ?h1 h' (xs @ (q, t, KFree) # ys) (xs @ carved q t n @ ys)"
    by (rule carve [OF sh1(1) st' sh1(2) n(1) nt])
  have at: "hdr_at h q" using shape_facts(1) [OF sh, of q] bs by simp
  have same: "heapLimit h' = heapLimit h" "pAllocation h' = pAllocation h" using h'(5,6) unfolding i by simp_all
  have small': "small_heap h'" using small same by (simp add: small_heap_def limit_def base_def)
  have at': "hdr_at h' q" using at same by (simp add: hdr_at_def wf_bounds_def limit_def base_def)
  have hd: "handle_of h' q = handle_of h q" using same by (simp add: handle_of_def base_def)
  have get: "getFreeBlock ?h1 (of_nat n) = Some (of_nat q)"
    using getFreeBlock_run [OF sh1, of n] n q bs fs by simp
  have run: "aivHeapAlloc (Some h) (of_nat n) True = Some (STATUS_SUCCESS, Some (handle_of h q), Some h')"
  proof -
    obtain h2 where h2: "splitFreeBlock ?h1 (of_nat q) (of_nat n) = Some h2" "addAllocatedBlock h2 (of_nat q) = Some h'"
      using h'(1) by (cases "splitFreeBlock ?h1 (of_nat q) (of_nat n)") simp_all
    have "TO_AIV_HANDLE h' (GET_AIV_ALLOCATION (of_nat q)) = handle_of h q" using handle_word(1) [OF at' small'] hd by simp
    then show ?thesis unfolding aivHeapAlloc_def commonAlloc_run [OF l small n] using room addr_nonzero [OF at]
      by (simp add: get h2 del: of_nat_add)
  qed
  have cnt: "counted h bs \<longrightarrow> counted h' (xs @ carved q t n @ ys)"
  proof
    assume "counted h bs"
    moreover have "of_nat (n + 48) + of_nat (fst (snd (hd (carved q t n))) - n) = (of_nat (48 + fst (snd (hd (carved q t n)))) :: UINT64)"
      using carved_counts(3) [OF n(1) nt, of q] by simp
    ultimately show "counted h' (xs @ carved q t n @ ys)"
      unfolding counted_def h'(3,4) i using carved_counts(1,2) [OF n(1) nt, of q] by (simp add: bs)
  qed
  have inv': "aiv_inv h' (xs @ carved q t n @ ys)"
    using h'(2) st' carved_counts(4) [OF n(1) nt] apart_carved [of xs q t ys n] ap bs small' by (auto simp: aiv_inv_def)
  have cont: "same_contents h h' bs (xs @ carved q t n @ ys)" using h'(7) unfolding i same_contents_def bs by simp
  show thesis by (rule that [OF run bs nt inv' cont cnt hd handle_word(5) [OF at small] same])
qed

lemma alloc_none:
  assumes inv: "aiv_inv h bs" and l: "heapLimit h \<noteq> 0" "heapSize h \<le> heapLimit h" and n: "0 < n" "n < 2 ^ 60 - 1"
    and no: "\<not> n + 48 + unat (heapSize h) \<le> unat (heapLimit h) \<or> (\<forall>p s. (p, s, KFree) \<in> set bs \<longrightarrow> s < n)"
  shows "aivHeapAlloc (Some h) (of_nat n) True = Some (STATUS_SUCCESS, Some 0, Some h)"
proof -
  obtain fs as where sh: "heap_shape h bs fs as" and small: "small_heap h" by (rule aiv_invE [OF inv])
  note D = heap_shapeD [OF sh]
  show ?thesis
  proof (cases "n + 48 + unat (heapSize h) \<le> unat (heapLimit h)")
    case False
    then show ?thesis unfolding aivHeapAlloc_def commonAlloc_run [OF l small n] by simp
  next
    case True
    let ?h1 = "incrementUsage h (of_nat (n + 48))"
    have i: "?h1 = h\<lparr>heapSize := heapSize h + of_nat (n + 48), numAlloc := numAlloc h + 1\<rparr>" by (simp add: incrementUsage_def)
    have sh1: "heap_shape ?h1 bs fs as" "small_heap ?h1"
      unfolding i shape_update using sh small by simp_all
    have "find (fits bs n) fs = None"
      unfolding find_None_iff
    proof (rule notI, elim exE conjE)
      fix p assume "p \<in> set fs" "fits bs n p"
      then obtain s where "(p, s, KFree) \<in> set bs" "fits bs n p" using D(8) by (auto simp: frees_def)
      then show False using no True tiles_same_addr [OF D(2), of p s KFree] by (fastforce simp: fits_def)
    qed
    then have get: "getFreeBlock ?h1 (of_nat n) = Some 0" using getFreeBlock_run [OF sh1, of n] n by simp
    have "unat (heapSize h) < 2 ^ 60" using small l(2) by (simp add: small_heap_def limit_def base_def word_le_nat_alt)
    then have dec: "decrementUsage ?h1 (of_nat (n + 48)) = h" using n by (intro increment_decrement) simp_all
    have w: "40 + of_nat n + 8 = (of_nat (n + 48) :: UINT64)" by simp
    show ?thesis unfolding aivHeapAlloc_def commonAlloc_run [OF l small n] sizes w using True
      by (simp add: get dec del: of_nat_add)
  qed
qed

subsection \<open>Freeing\<close>

lemma absorb_left_facts:
  assumes "absorb_left xs p s = (xs', q, t)" "settled xs" "apart xs"
  shows "settled xs'" "apart xs'" "xs' = [] \<or> snd (snd (last xs')) \<noteq> KFree" "used xs' = used xs" "live xs' = live xs"
proof -
  have "settled xs' \<and> apart xs' \<and> (xs' = [] \<or> snd (snd (last xs')) \<noteq> KFree) \<and> used xs' = used xs \<and> live xs' = live xs"
  proof (cases "xs \<noteq> [] \<and> snd (snd (last xs)) = KFree")
    case False
    then show ?thesis using assms by (auto simp: absorb_left_def split: if_splits)
  next
    case True
    obtain zs a u where x: "xs = zs @ [(a, u, KFree)]" using True by (metis append_butlast_last_id prod.collapse)
    have "xs' = zs" using assms(1) by (simp add: absorb_left_def x)
    then show ?thesis using assms(2,3) unfolding x by (simp add: apart_simps)
  qed
  then show "settled xs'" "apart xs'" "xs' = [] \<or> snd (snd (last xs')) \<noteq> KFree" "used xs' = used xs" "live xs' = live xs" by simp_all
qed

lemma absorb_right_facts:
  assumes "absorb_right t ys = (u, ys')" "settled ys" "apart ys"
  shows "settled ys'" "apart ys'" "ys' = [] \<or> snd (snd (hd ys')) \<noteq> KFree" "used ys' = used ys" "live ys' = live ys"
proof -
  have "settled ys' \<and> apart ys' \<and> (ys' = [] \<or> snd (snd (hd ys')) \<noteq> KFree) \<and> used ys' = used ys \<and> live ys' = live ys"
  proof (cases "ys \<noteq> [] \<and> snd (snd (hd ys)) = KFree")
    case False
    then show ?thesis using assms by (auto simp: absorb_right_def split: if_splits)
  next
    case True
    obtain a v zs where y: "ys = (a, v, KFree) # zs" using True by (metis list.collapse prod.collapse)
    have "ys' = zs" using assms(1) by (simp add: absorb_right_def y)
    then show ?thesis using assms(2,3) unfolding y by (cases zs) (auto simp: apart_simps)
  qed
  then show "settled ys'" "apart ys'" "ys' = [] \<or> snd (snd (hd ys')) \<noteq> KFree" "used ys' = used ys" "live ys' = live ys" by simp_all
qed

lemma returned_facts:
  assumes "settled xs" "settled ys" "apart xs" "apart ys"
  shows "settled (returned xs p s ys)" "apart (returned xs p s ys)" "used (returned xs p s ys) = used xs + used ys" "live (returned xs p s ys) = live xs + live ys"
proof -
  obtain xs' q t where x: "absorb_left xs p s = (xs', q, t)" by (metis prod_cases3)
  obtain u ys' where y: "absorb_right t ys = (u, ys')" by (metis prod.exhaust)
  have r: "returned xs p s ys = xs' @ (q, u, KFree) # ys'" by (simp add: returned_def x y)
  note L = absorb_left_facts [OF x assms(1,3)] and R = absorb_right_facts [OF y assms(2,4)]
  show "settled (returned xs p s ys)" "used (returned xs p s ys) = used xs + used ys" "live (returned xs p s ys) = live xs + live ys"
    unfolding r using L R by simp_all
  show "apart (returned xs p s ys)" unfolding r using L(2,3) R(2,3) by (cases ys') (auto simp: apart_simps)
qed

lemma alloc_valid:
  assumes sh: "heap_shape h bs fs as" and small: "small_heap h" and b: "(p, s, KAlloc n) \<in> set bs"
  shows "hdr_at h p" "CHK_AIV_ALLOCATION h (FROM_AIV_HANDLE h (handle_of h p))" "FROM_AIV_HANDLE h (handle_of h p) = of_nat (p + 40)"
    "isAllocation h (of_nat p) = Some True" "GET_AIV_ALLOCATION_HEADER (of_nat (p + 40)) = of_nat p" "handle_of h p \<noteq> 0"
    "load64 h (of_nat p + 16) = Some (of_nat n)" "GET_AIV_ALLOCATION_SIZE h (of_nat p) = Some (of_nat s)"
proof -
  note D = heap_shapeD [OF sh]
  show at: "hdr_at h p" using shape_facts(1) [OF sh, of p] b by (force simp: addrs_def)
  note hw = handle_word [OF at small]
  show "FROM_AIV_HANDLE h (handle_of h p) = of_nat (p + 40)" "GET_AIV_ALLOCATION_HEADER (of_nat (p + 40)) = of_nat p" "handle_of h p \<noteq> 0"
    using hw by simp_all
  have "p + 40 < limit h" using tiles_bounds [OF D(2) b] by simp
  then show "CHK_AIV_ALLOCATION h (FROM_AIV_HANDLE h (handle_of h p))" using hw(2,3) by simp
  have blk: "c_size (hdr (aiv_mem h) p) = of_nat s" "c_flags (hdr (aiv_mem h) p) = ALLOCATION_FLAGS_ALLOC" "c_alloc (hdr (aiv_mem h) p) = of_nat n" "0 < n" "n \<le> s"
    using D(3) [OF b] by (simp_all add: block_ok_def)
  have "n < 2 ^ 64" using blk(5) small_block [OF sh small b] by simp
  then have "(of_nat n :: UINT64) \<noteq> 0" using blk(4) unat_addr [of n] by auto
  then show "isAllocation h (of_nat p) = Some True" "load64 h (of_nat p + 16) = Some (of_nat n)" "GET_AIV_ALLOCATION_SIZE h (of_nat p) = Some (of_nat s)"
    using blk by (simp_all add: isAllocation_def access [OF at])
qed

lemma free_run:
  assumes inv: "aiv_inv h (xs @ (p, s, KAlloc n) # ys)" and l: "heapLimit h \<noteq> 0" and hs: "48 + s \<le> unat (heapSize h)"
  obtains h' where "aivHeapFree (Some h) (handle_of h p) = Some (STATUS_SUCCESS, Some h')"
    "aiv_inv h' (returned xs p s ys)" "same_contents h h' (xs @ (p, s, KAlloc n) # ys) (xs @ ys)"
    "counted h (xs @ (p, s, KAlloc n) # ys) \<longrightarrow> counted h' (returned xs p s ys)" "heapLimit h' = heapLimit h" "pAllocation h' = pAllocation h"
    "heapSize h' = heapSize h - of_nat (48 + s)"
proof -
  let ?bs = "xs @ (p, s, KAlloc n) # ys"
  obtain fs as where sh: "heap_shape h ?bs fs as" and st: "settled ?bs" and ap: "apart ?bs" and small: "small_heap h" by (rule aiv_invE [OF inv])
  note D = heap_shapeD [OF sh]
  have b: "(p, s, KAlloc n) \<in> set ?bs" by simp
  note V = alloc_valid [OF sh small b]
  have s: "s + 48 < 2 ^ 60" by (rule small_block [OF sh small b])
  have st': "settled xs" "settled ys" and ap': "apart xs" "apart ys" using st ap by (cases ys; auto simp: apart_simps)+
  let ?h1 = "decrementUsage h (of_nat (48 + s))"
  have u: "unat (of_nat (48 + s) :: UINT64) = 48 + s" using s by (intro unat_addr) simp
  have dec: "?h1 = h\<lparr>heapSize := heapSize h - of_nat (48 + s), numAlloc := numAlloc h - 1\<rparr>"
  proof (cases "heapSize h \<le> of_nat (48 + s)")
    case True
    then have "heapSize h = of_nat (48 + s)" using hs u by (simp add: word_le_nat_alt word_unat_eq_iff del: of_nat_add)
    then show ?thesis unfolding decrementUsage_def Let_def by (simp del: of_nat_add)
  qed (simp add: decrementUsage_def Let_def del: of_nat_add)
  have sh1: "heap_shape ?h1 ?bs fs as" "small_heap ?h1" unfolding dec shape_update using sh small by simp_all
  have size: "aivGetAllocationSize h (handle_of h p) = Some (of_nat (48 + s))"
    unfolding aivGetAllocationSize_def Let_def V(3,5,8) by (simp add: sizes)
  have "(of_nat (48 + s) :: UINT64) \<noteq> INVALID_ALLOCATION_VALUE"
  proof
    assume "(of_nat (48 + s) :: UINT64) = INVALID_ALLOCATION_VALUE"
    then have "48 + s = unat (- 1 :: UINT64)" using u by (simp add: INVALID_ALLOCATION_VALUE_def del: of_nat_add)
    also have "\<dots> = 2 ^ 64 - 1" by (simp add: unsigned_minus_1_eq_mask mask_eq_exp_minus_1)
    finally show False using s by simp
  qed
  moreover have "heapSize h \<ge> of_nat (48 + s)" using hs u by (simp add: word_le_nat_alt)
  ultimately have common: "commonHeapFree aivGetAllocationSize (Some h) (handle_of h p) = Some (STATUS_SUCCESS, Some ?h1)"
    using V(6) l by (simp add: commonHeapFree_def size validateHeap_def INVALID_ALLOCATION_HANDLE_VALUE_def del: of_nat_add)
  have "p \<in> set as" unfolding D(9) by simp
  then obtain us vs where as: "as = us @ p # vs" by (meson split_list)
  have s60: "s < 2 ^ 60" using s by simp
  obtain h2 where h2: "removeChainedBlock ?h1 (of_nat p) = Some h2" "heap_shape h2 (xs @ (p, s, KNone 0) # ys) fs (us @ vs)"
    "heapSize h2 = heapSize ?h1" "numAlloc h2 = numAlloc ?h1" "heapLimit h2 = heapLimit ?h1" "pAllocation h2 = pAllocation ?h1"
    "keeps (cells (addrs ?bs) (ends ?bs)) (aiv_mem ?h1) (aiv_mem h2)"
    by (rule removeAllocated_shape [OF sh1(1) [unfolded as] st' s60])
  have small2: "small_heap h2" using sh1(2) h2(5,6) by (simp add: small_heap_def limit_def base_def)
  obtain h3 fs3 where h3: "addFreeBlock h2 (of_nat p) = Some h3" "heap_shape h3 (returned xs p s ys) fs3 (us @ vs)"
    "heapSize h3 = heapSize h2" "numAlloc h3 = numAlloc h2" "heapLimit h3 = heapLimit h2" "pAllocation h3 = pAllocation h2"
    "keeps (cells (addrs (xs @ (p, s, KNone 0) # ys)) (ends (xs @ (p, s, KNone 0) # ys))) (aiv_mem h2) (aiv_mem h3)"
    by (rule addFree_shape [OF h2(2) st' small2])
  have same: "heapLimit h3 = heapLimit h" "pAllocation h3 = pAllocation h" "heapSize h3 = heapSize h - of_nat (48 + s)" "numAlloc h3 = numAlloc h - 1"
    unfolding h3 h2 dec by simp_all
  have small3: "small_heap h3" using small same by (simp add: small_heap_def limit_def base_def)
  have run: "aivHeapFree (Some h) (handle_of h p) = Some (STATUS_SUCCESS, Some h3)"
    unfolding aivHeapFree_def Let_def V(3) using V(2,4,5) by (simp add: V(3) common h2(1) h3(1) STATUS_FAILED_def del: of_nat_add)
  note R = returned_facts [OF st' ap', of p s]
  have inv': "aiv_inv h3 (returned xs p s ys)" using h3(2) R small3 by (auto simp: aiv_inv_def)
  have "keeps (cells (addrs ?bs) (ends ?bs)) (aiv_mem ?h1) (aiv_mem h3)" by (rule keeps_seq [OF h2(7) h3(7)]) simp
  then have "same_contents ?h1 h3 ?bs (xs @ ys)" by (rule contents_keeps [OF _ heap_shapeD(2) [OF sh1(1)]]) blast
  then have cont: "same_contents h h3 ?bs (xs @ ys)" unfolding same_contents_def dec by simp
  have cnt: "counted h ?bs \<longrightarrow> counted h3 (returned xs p s ys)"
    unfolding counted_def same R(3,4) by simp
  show thesis by (rule that [OF run inv' cont cnt same(1,2,3)])
qed

lemma free_refused:
  assumes inv: "aiv_inv h (xs @ (p, s, KAlloc n) # ys)" and l: "heapLimit h \<noteq> 0" and hs: "\<not> 48 + s \<le> unat (heapSize h)"
  shows "aivHeapFree (Some h) (handle_of h p) = Some (STATUS_HEAP_CORRUPTED, Some h)"
proof -
  obtain fs as where sh: "heap_shape h (xs @ (p, s, KAlloc n) # ys) fs as" and small: "small_heap h" by (rule aiv_invE [OF inv])
  have b: "(p, s, KAlloc n) \<in> set (xs @ (p, s, KAlloc n) # ys)" by simp
  note V = alloc_valid [OF sh small b]
  have u: "unat (of_nat (48 + s) :: UINT64) = 48 + s" using small_block [OF sh small b] by (intro unat_addr) simp
  have size: "aivGetAllocationSize h (handle_of h p) = Some (of_nat (48 + s))"
    unfolding aivGetAllocationSize_def Let_def V(3,5,8) by (simp add: sizes)
  have "\<not> heapSize h \<ge> of_nat (48 + s)" using hs u by (simp add: word_le_nat_alt del: of_nat_add)
  then have "commonHeapFree aivGetAllocationSize (Some h) (handle_of h p) = Some (STATUS_HEAP_CORRUPTED, Some h)"
    using V(6) l by (simp add: commonHeapFree_def size INVALID_ALLOCATION_HANDLE_VALUE_def del: of_nat_add)
  then show ?thesis unfolding aivHeapFree_def Let_def V(3) using V(2,4,5) by (simp add: V(3) del: of_nat_add)
qed

subsection \<open>Creation, accounting and the debug check\<close>

lemma init_run:
  assumes l: "MIN_HEAP_SIZE \<le> L" "L \<le> MAX_HEAP_SIZE" and a: "0 < unat a" "unat a + unat L < 2 ^ 64"
  obtains h where "aivHeapInit (Some h0) L (Some (a, bytes)) = Some (STATUS_SUCCESS, h)"
    "aiv_inv h [(unat a, unat L - 48, KFree)]" "counted h [(unat a, unat L - 48, KFree)]" "heapLimit h = L" "pAllocation h = a"
proof -
  define p where "p = unat a"
  define s where "s = unat L - 48"
  have L: "unat L \<ge> 2 ^ 20" "unat L \<le> 2 ^ 40" using l by (auto simp: MIN_HEAP_SIZE_def MAX_HEAP_SIZE_def word_le_nat_alt)
  let ?bs = "[(p, s, KFree)]"
  define h1 where "h1 = h0\<lparr>pAllocation := a, aiv_pFree := 0, aiv_pAlloc := 0, heapLimit := L, heapSize := 0, numAlloc := 0, aiv_mem := bytes\<rparr>"
  have wf: "wf_bounds h1" "base h1 = p" "limit h1 = p + unat L" using a by (auto simp: wf_bounds_def base_def limit_def h1_def p_def)
  have t: "tiles (base h1) ?bs (limit h1)" using L wf by (simp add: s_def)
  define e where "e = p + 40 + s"
  have H: "p \<in> addrs ?bs" "e \<in> ends ?bs" by (simp_all add: e_def)
  note lay = layout_tiles [OF t]
  note at = shape_at(1) [OF wf(1) t H(1)] shape_at(2) [OF wf(1) t H(2)]
  have w: "a = of_nat p" "of_nat p + L - 8 = (of_nat e :: UINT64)" "L - 48 = (of_nat s :: UINT64)"
    using L by (simp_all add: p_def e_def s_def of_nat_diff)
  define m' where "m' = w_ftr (w_size (w_ftr (put_hdr bytes p) e 0) p (of_nat s)) e (of_nat s)"
  define h where "h = h1\<lparr>aiv_pFree := of_nat p, aiv_mem := m'\<rparr>"
  note rules = hdr_w [OF lay] ftr_w [OF lay] hdr_w_ftr [OF lay] ftr_w_ftr [OF lay] put_hdr_view [OF lay H(1)]
  have hd: "hdr m' p = \<lparr>c_size = of_nat s, c_flags = ALLOCATION_FLAGS_FREE, c_alloc = 0, c_next = 0, c_prev = 0\<rparr>" "ftr m' e = of_nat s"
    using H by (simp_all add: m'_def rules)
  let ?h2 = "h1\<lparr>aiv_mem := w_size (w_ftr (put_hdr bytes p) e 0) p (of_nat s)\<rparr>"
  have f: "SET_AIV_ALLOCATION_FOOTER_SIZE ?h2 (of_nat p) = Some (?h2\<lparr>aiv_mem := w_ftr (aiv_mem ?h2) e (of_nat s)\<rparr>)"
    by (rule footer_at(3)) (use at H in \<open>simp_all add: rules e_def\<close>)
  have m1: "aiv_mem h1 = bytes" "heapLimit h1 = L" by (simp_all add: h1_def)
  have "h0\<lparr>pAllocation := 0, aiv_pFree := 0, aiv_pAlloc := 0, heapLimit := L, heapSize := 0, numAlloc := 0, pAllocation := a, aiv_mem := bytes\<rparr> = h1" by (simp add: h1_def)
  then have run: "aivHeapInit (Some h0) L (Some (a, bytes)) = Some (STATUS_SUCCESS, h)"
    using l at f by (simp add: aivHeapInit_def HEAP_PACKED_SIZE_def commonHeapInit_def aivGetHeapLimits_def Let_def h1_def [symmetric])
      (simp add: w(1) put_hdr_run access access_ftr m1 w(2,3) sizes h_def m'_def)
  have "heap_shape h ?bs [p] []"
    unfolding heap_shape_def using t wf hd by (simp add: h_def h1_def [symmetric] block_ok_def dll_def e_def [symmetric]) (simp add: h1_def)
  then have inv: "aiv_inv h ?bs" using L by (auto simp: aiv_inv_def apart_simps small_heap_def limit_def base_def h_def h1_def)
  have "counted h ?bs" by (simp add: counted_def h_def h1_def)
  then show thesis using that [OF run] inv by (simp add: h_def h1_def p_def s_def)
qed

lemma counted_size:
  assumes "aiv_inv h bs" "counted h bs"
  shows "unat (heapSize h) = used bs" "heapSize h \<le> heapLimit h" "(p, s, KAlloc n) \<in> set bs \<Longrightarrow> 48 + s \<le> unat (heapSize h)"
proof -
  obtain fs as where sh: "heap_shape h bs fs as" and small: "small_heap h" by (rule aiv_invE [OF assms(1)])
  have "used bs \<le> limit h - base h" using used_tiles heap_shapeD(2) [OF sh] by simp
  then have u: "used bs \<le> unat (heapLimit h)" by (simp add: limit_def base_def)
  also have "unat (heapLimit h) < 2 ^ LENGTH(64)" by (rule unsigned_less)
  finally have "used bs < 2 ^ 64" by simp
  then show 1: "unat (heapSize h) = used bs" using assms(2) unat_addr by (simp add: counted_def)
  show "heapSize h \<le> heapLimit h" using u 1 by (simp add: word_le_nat_alt)
  have "(p, s, KAlloc n) \<in> set bs \<Longrightarrow> 48 + s \<le> used bs" by (induction bs rule: used.induct) auto
  then show "(p, s, KAlloc n) \<in> set bs \<Longrightarrow> 48 + s \<le> unat (heapSize h)" using 1 by simp
qed

lemma check_block:
  assumes sh: "heap_shape h bs fs as" and small: "small_heap h" and b: "(p, s, k) \<in> set bs"
  shows "GET_AIV_ALLOCATION_SIZE h (of_nat p) = Some (of_nat s)" "GET_AIV_ALLOCATION_FOOTER_SIZE h (of_nat p) = Some (of_nat s)" "hdr_at h p"
    "load32 h (of_nat p + 12) = Some (flags_of k)"
proof -
  show at: "hdr_at h p" using shape_facts(1) [OF sh, of p] b by (force simp: addrs_def)
  have ft: "ftr_at h (p + 40 + s)" using shape_facts(2) [OF sh, of "p + 40 + s"] b by (force simp: ends_def)
  have blk: "c_size (hdr (aiv_mem h) p) = of_nat s" "ftr (aiv_mem h) (p + 40 + s) = of_nat s" "c_flags (hdr (aiv_mem h) p) = flags_of k"
    using heap_shapeD(3) [OF sh b] by (simp_all add: block_ok_def)
  show "GET_AIV_ALLOCATION_SIZE h (of_nat p) = Some (of_nat s)" "load32 h (of_nat p + 12) = Some (flags_of k)" using blk by (simp_all add: access [OF at])
  show "GET_AIV_ALLOCATION_FOOTER_SIZE h (of_nat p) = Some (of_nat s)" using footer_at(2) [OF at blk(1) refl ft] blk(2) by simp
qed

lemma checkFree_run:
  assumes sh: "heap_shape h bs fs as" and small: "small_heap h" and zs: "set zs \<subseteq> set fs" "chain (hdr (aiv_mem h)) c zs 0"
  shows "checkFree h (first_ptr zs) st = Some st"
  using zs
proof (induction zs arbitrary: c)
  case Nil
  then show ?case by (simp add: checkFree.simps)
next
  case (Cons p zs)
  obtain s where s: "(p, s, KFree) \<in> set bs" using Cons.prems(1) heap_shapeD(8) [OF sh] by (auto simp: frees_def)
  note B = check_block [OF sh small s]
  have nx: "c_next (hdr (aiv_mem h) p) = first_ptr zs" using Cons.prems(2) by (cases zs) simp_all
  have ih: "checkFree h (first_ptr zs) st = Some st" using Cons.IH [of "of_nat p"] Cons.prems by simp
  show ?case using addr_nonzero [OF B(3)] by (subst checkFree.simps) (simp add: B access [OF B(3)] nx ih)
qed

lemma checkAllocated_run:
  assumes sh: "heap_shape h bs fs as" and small: "small_heap h" and zs: "set zs \<subseteq> set as" "chain (hdr (aiv_mem h)) c zs 0"
  shows "checkAllocated h (first_ptr zs) st = Some st"
  using zs
proof (induction zs arbitrary: c)
  case Nil
  then show ?case by (simp add: checkAllocated.simps)
next
  case (Cons p zs)
  obtain s n where s: "(p, s, KAlloc n) \<in> set bs" using Cons.prems(1) heap_shapeD(9) [OF sh] by (auto simp: allocs_def)
  note B = check_block [OF sh small s] and V = alloc_valid [OF sh small s]
  have nx: "c_next (hdr (aiv_mem h) p) = first_ptr zs" using Cons.prems(2) by (cases zs) simp_all
  have ih: "checkAllocated h (first_ptr zs) st = Some st" using Cons.IH [of "of_nat p"] Cons.prems by simp
  have "n \<le> s" "s < 2 ^ 60" using heap_shapeD(3) [OF sh s] small_block [OF sh small s] by (simp_all add: block_ok_def)
  then have "\<not> (of_nat s :: UINT64) < of_nat n" using word_of_nat_le [of n s] by (simp add: not_less)
  then show ?case using addr_nonzero [OF B(3)] by (subst checkAllocated.simps) (simp add: B(1,2,4) V(7) access(4) [OF B(3)] nx ih)
qed

lemma debug_check_run:
  assumes inv: "aiv_inv h bs" and hs: "heapSize h \<le> heapLimit h"
  shows "aivHeapDebugCheckAllocator (Some h) = Some STATUS_SUCCESS"
proof -
  obtain fs as where sh: "heap_shape h bs fs as" and small: "small_heap h" by (rule aiv_invE [OF inv])
  have f: "aiv_pFree h = first_ptr fs" "aiv_pAlloc h = first_ptr as" "chain (hdr (aiv_mem h)) 0 fs 0" "chain (hdr (aiv_mem h)) 0 as 0"
    using heap_shapeD(4,5) [OF sh] by (simp_all add: dll_def)
  show ?thesis using hs checkFree_run [OF sh small order_refl f(3)] checkAllocated_run [OF sh small order_refl f(4)]
    by (simp add: aivHeapDebugCheckAllocator_def commonHeapDebugCheckAllocator_def f(1,2))
qed

subsection \<open>Sessions\<close>

text \<open>A client keeps the handles it has been given and asks for allocations, or for the release of the handle at an index.\<close>

datatype request = Request UINT64 | Release nat

fun serve :: "AivHeap \<Rightarrow> ALLOCATION_HANDLE list \<Rightarrow> request list \<Rightarrow> (AivHeap \<times> ALLOCATION_HANDLE list) option" where
  "serve h hs [] = Some (h, hs)"
| "serve h hs (Request n # rs) =
     (case heapAlloc aivBaseHeap (Some h) n True of
        Some (st, handle, Some h') \<Rightarrow>
          serve h' (case handle of Some x \<Rightarrow> if IS_VALID_ALLOCATION_HANDLE x then x # hs else hs | None \<Rightarrow> hs) rs
      | _ \<Rightarrow> None)"
| "serve h hs (Release i # rs) =
     (if i < length hs then
        (case heapFree aivBaseHeap (Some h) (hs ! i) of
           Some (st, Some h') \<Rightarrow> if st = STATUS_SUCCESS then serve h' (take i hs @ drop (Suc i) hs) rs else None
         | _ \<Rightarrow> None)
      else serve h hs rs)"

definition client_ok :: "AivHeap \<Rightarrow> ALLOCATION_HANDLE list \<Rightarrow> block list \<Rightarrow> bool" where
  "client_ok h hs bs \<longleftrightarrow> aiv_inv h bs \<and> counted h bs \<and> heapLimit h \<noteq> 0 \<and> distinct hs \<and> set hs = handle_of h ` allocs bs"

lemma base_fns [simp]: "heapAllocFn aivBaseHeap = aivHeapAlloc" "heapFreeFn aivBaseHeap = aivHeapFree" "heapGetAllocSizeFn aivBaseHeap = aivHeapGetAllocSize"
  "heapSetAllocSizeFn aivBaseHeap = aivHeapSetAllocSize" "heapMapFn aivBaseHeap = aivHeapMap"
  by (simp_all add: aivBaseHeap_def)

lemma handle_inj:
  assumes "aiv_inv h bs" "p \<in> allocs bs" "q \<in> allocs bs" "handle_of h p = handle_of h q"
  shows "p = q"
proof -
  obtain fs as where sh: "heap_shape h bs fs as" and small: "small_heap h" by (rule aiv_invE [OF assms(1)])
  have at: "hdr_at h p" "hdr_at h q" using shape_facts(1) [OF sh] frees_addrs(2) [of bs] assms(2,3) by auto
  have lt: "p + 40 < 2 ^ 64" "q + 40 < 2 ^ 64" using at by (auto simp: hdr_at_def wf_bounds_def)
  have "(of_nat (p + 40) :: UINT64) = of_nat (q + 40)" using handle_word(2) [OF at(1) small] handle_word(2) [OF at(2) small] assms(4) by simp
  then have "p + 40 = q + 40" using unat_addr lt by metis
  then show ?thesis by simp
qed

lemma allocs_carved: "allocs (xs @ carved p s n @ ys) = insert p (allocs xs \<union> allocs ys)"
  by (auto simp: carved_def)

lemma allocs_returned: "allocs (returned xs p s ys) = allocs xs \<union> allocs ys"
proof -
  obtain xs' q t where x: "absorb_left xs p s = (xs', q, t)" by (metis prod_cases3)
  obtain u ys' where y: "absorb_right t ys = (u, ys')" by (metis prod.exhaust)
  have "allocs xs' = allocs xs"
  proof (cases "xs \<noteq> [] \<and> snd (snd (last xs)) = KFree")
    case True
    then obtain zs a u where z: "xs = zs @ [(a, u, KFree)]" by (metis append_butlast_last_id prod.collapse)
    then have "xs' = zs" using x by (simp add: absorb_left_def)
    then show ?thesis using z by simp
  qed (use x in \<open>auto simp: absorb_left_def split: if_splits\<close>)
  moreover have "allocs ys' = allocs ys"
  proof (cases "ys \<noteq> [] \<and> snd (snd (hd ys)) = KFree")
    case True
    then obtain a v zs where z: "ys = (a, v, KFree) # zs" by (metis list.collapse prod.collapse)
    then have "ys' = zs" using y by (simp add: absorb_right_def)
    then show ?thesis using z by simp
  qed (use y in \<open>auto simp: absorb_right_def split: if_splits\<close>)
  ultimately show ?thesis by (simp add: returned_def x y)
qed

lemma alloc_step:
  assumes ok: "client_ok h hs bs"
  obtains st handle h' hs' bs' where "heapAlloc aivBaseHeap (Some h) w True = Some (st, handle, Some h')"
    "hs' = (case handle of Some x \<Rightarrow> if IS_VALID_ALLOCATION_HANDLE x then x # hs else hs | None \<Rightarrow> hs)" "client_ok h' hs' bs'"
    "heapLimit h' = heapLimit h" "pAllocation h' = pAllocation h"
proof -
  note result = that
  have inv: "aiv_inv h bs" and cnt: "counted h bs" and l: "heapLimit h \<noteq> 0" using ok by (auto simp: client_ok_def)
  note size = counted_size(1,2) [OF inv cnt]
  define n where "n = unat w"
  have "unat w < 2 ^ LENGTH(64)" by (rule unsigned_less)
  then have n: "w = of_nat n" "n < 2 ^ 64" by (simp_all add: n_def)
  consider "n = 0" | "n \<ge> 2 ^ 60 - 1" | (ok) "0 < n" "n < 2 ^ 60 - 1" by linarith
  then show thesis
  proof cases
    case 1
    then show thesis using result [of STATUS_INVALID_ARG None h hs bs] n ok by (simp add: heapAlloc_def)
  next
    case 2
    have "unat w = n" using n unat_addr by simp
    then have "\<not> (w > 0 \<and> w < MAX_ALLOCATION_SIZE)" "w \<noteq> 0" using 2 by (auto simp: word_less_nat_alt MAX_ALLOCATION_SIZE_def)
    then have "heapAlloc aivBaseHeap (Some h) w True = Some (STATUS_INVALID_ALLOCATION_SIZE, Some 0, Some h)"
      by (simp add: heapAlloc_def aivHeapAlloc_def commonHeapAlloc_def Let_def INVALID_ALLOCATION_HANDLE_VALUE_def)
    then show thesis using result [of STATUS_INVALID_ALLOCATION_SIZE "Some 0" h hs bs] ok
      by (simp add: IS_VALID_ALLOCATION_HANDLE_def INVALID_ALLOCATION_HANDLE_VALUE_def)
  next
    case ok': ok
    have "w \<noteq> 0" using n ok' unat_addr [of n] by auto
    then have entry: "heapAlloc aivBaseHeap (Some h) w True = aivHeapAlloc (Some h) (of_nat n) True" using n by (simp add: heapAlloc_def)
    show thesis
    proof (cases "n + 48 + unat (heapSize h) \<le> unat (heapLimit h) \<and> (\<exists>p s. (p, s, KFree) \<in> set bs \<and> n \<le> s)")
      case False
      then have "aivHeapAlloc (Some h) (of_nat n) True = Some (STATUS_SUCCESS, Some 0, Some h)"
        by (intro alloc_none [OF inv l size(2) ok']) (auto simp: not_le)
      then show thesis using result [of STATUS_SUCCESS "Some 0" h hs bs] entry ok
        by (simp add: IS_VALID_ALLOCATION_HANDLE_def INVALID_ALLOCATION_HANDLE_VALUE_def)
    next
      case True
      then obtain p s where ps: "(p, s, KFree) \<in> set bs" "n \<le> s" and room: "n + 48 + unat (heapSize h) \<le> unat (heapLimit h)" by blast
      obtain h' xs q t ys where r: "aivHeapAlloc (Some h) (of_nat n) True = Some (STATUS_SUCCESS, Some (handle_of h q), Some h')"
        "bs = xs @ (q, t, KFree) # ys" "n \<le> t" "aiv_inv h' (xs @ carved q t n @ ys)" "same_contents h h' bs (xs @ carved q t n @ ys)"
        "counted h bs \<longrightarrow> counted h' (xs @ carved q t n @ ys)" "handle_of h' q = handle_of h q" "handle_of h q \<noteq> 0"
        "heapLimit h' = heapLimit h" "pAllocation h' = pAllocation h"
        by (rule alloc_run [OF inv l size(2) ok' room ps])
      have same: "handle_of h' = handle_of h" using r(10) by (simp add: handle_of_def base_def fun_eq_iff)
      have all: "allocs (xs @ carved q t n @ ys) = insert q (allocs bs)" using allocs_carved [of xs q t n ys] r(2) by simp
      obtain fs as where sh: "heap_shape h bs fs as" by (rule aiv_invE [OF inv])
      have "q \<notin> allocs bs" using kind_of_addr(2) [OF heap_shapeD(2) [OF sh], of q t KFree] r(2) by simp
      then have "handle_of h q \<notin> handle_of h ` allocs bs" using handle_inj [OF r(4)] all same by auto
      then have "client_ok h' (handle_of h q # hs) (xs @ carved q t n @ ys)"
        using ok r(4,6,9) cnt unfolding client_ok_def all same by auto
      then show thesis using result [of STATUS_SUCCESS "Some (handle_of h q)" h' "handle_of h q # hs"] entry r
        by (simp add: IS_VALID_ALLOCATION_HANDLE_def INVALID_ALLOCATION_HANDLE_VALUE_def)
    qed
  qed
qed

lemma free_step:
  assumes ok: "client_ok h hs bs" and i: "i < length hs"
  obtains h' bs' where "heapFree aivBaseHeap (Some h) (hs ! i) = Some (STATUS_SUCCESS, Some h')"
    "client_ok h' (take i hs @ drop (Suc i) hs) bs'" "heapLimit h' = heapLimit h" "pAllocation h' = pAllocation h"
proof -
  have inv: "aiv_inv h bs" and cnt: "counted h bs" and l: "heapLimit h \<noteq> 0" and d: "distinct hs" and hs: "set hs = handle_of h ` allocs bs"
    using ok by (auto simp: client_ok_def)
  obtain p where p: "hs ! i = handle_of h p" "p \<in> allocs bs" using hs i nth_mem [OF i] by auto
  then obtain s n where b: "(p, s, KAlloc n) \<in> set bs" by (auto simp: allocs_def)
  obtain xs ys where bs: "bs = xs @ (p, s, KAlloc n) # ys" using b by (meson split_list)
  obtain fs as where sh: "heap_shape h bs fs as" and small: "small_heap h" by (rule aiv_invE [OF inv])
  note V = alloc_valid [OF sh small b]
  obtain h' where h': "aivHeapFree (Some h) (handle_of h p) = Some (STATUS_SUCCESS, Some h')"
    "aiv_inv h' (returned xs p s ys)" "same_contents h h' (xs @ (p, s, KAlloc n) # ys) (xs @ ys)"
    "counted h (xs @ (p, s, KAlloc n) # ys) \<longrightarrow> counted h' (returned xs p s ys)" "heapLimit h' = heapLimit h" "pAllocation h' = pAllocation h"
    "heapSize h' = heapSize h - of_nat (48 + s)"
    by (rule free_run [OF inv [unfolded bs] l counted_size(3) [OF inv cnt b]])
  have same: "handle_of h' = handle_of h" using h'(6) by (simp add: handle_of_def base_def fun_eq_iff)
  have parts: "hs = take i hs @ hs ! i # drop (Suc i) hs" using i by (simp add: id_take_nth_drop)
  then have dd: "distinct (take i hs @ hs ! i # drop (Suc i) hs)" "set hs = set (take i hs @ hs ! i # drop (Suc i) hs)" using d by metis+
  have pn: "p \<notin> allocs xs \<union> allocs ys" using tiles_rest(1) [OF heap_shapeD(2) [OF sh, unfolded bs]] frees_addrs(2) [of xs] frees_addrs(2) [of ys] by blast
  have img: "insert (handle_of h p) (set (take i hs) \<union> set (drop (Suc i) hs)) = insert (handle_of h p) (handle_of h ` (allocs xs \<union> allocs ys))"
    using hs dd(2) p(1) bs by auto
  moreover have "handle_of h p \<notin> handle_of h ` (allocs xs \<union> allocs ys)" using handle_inj [OF inv p(2)] pn bs by auto
  moreover have "handle_of h p \<notin> set (take i hs) \<union> set (drop (Suc i) hs)" using dd(1) p(1) by auto
  ultimately have "set (take i hs) \<union> set (drop (Suc i) hs) = handle_of h ` (allocs xs \<union> allocs ys)" using insert_ident by metis
  then have ok': "client_ok h' (take i hs @ drop (Suc i) hs) (returned xs p s ys)"
    unfolding client_ok_def allocs_returned same using h' cnt bs l dd(1) by auto
  have run: "heapFree aivBaseHeap (Some h) (hs ! i) = Some (STATUS_SUCCESS, Some h')"
    using h'(1) V(6) p(1) by (simp add: heapFree_def IS_VALID_ALLOCATION_HANDLE_def INVALID_ALLOCATION_HANDLE_VALUE_def)
  show thesis by (rule that [OF run ok' h'(5,6)])
qed

lemma serve_ok:
  assumes "client_ok h hs bs"
  shows "\<exists>h' hs' bs'. serve h hs rs = Some (h', hs') \<and> client_ok h' hs' bs' \<and> heapLimit h' = heapLimit h \<and> pAllocation h' = pAllocation h"
  using assms
proof (induction rs arbitrary: h hs bs)
  case Nil
  then show ?case by auto
next
  case (Cons r rs)
  show ?case
  proof (cases r)
    case (Request w)
    obtain st handle h' hs' bs' where a: "heapAlloc aivBaseHeap (Some h) w True = Some (st, handle, Some h')"
      "hs' = (case handle of Some x \<Rightarrow> if IS_VALID_ALLOCATION_HANDLE x then x # hs else hs | None \<Rightarrow> hs)" "client_ok h' hs' bs'"
      "heapLimit h' = heapLimit h" "pAllocation h' = pAllocation h"
      by (rule alloc_step [OF Cons.prems])
    from Cons.IH [OF a(3)] show ?thesis using a(1,2,4,5) by (simp add: Request)
  next
    case (Release i)
    show ?thesis
    proof (cases "i < length hs")
      case True
      obtain h' bs' where f: "heapFree aivBaseHeap (Some h) (hs ! i) = Some (STATUS_SUCCESS, Some h')"
        "client_ok h' (take i hs @ drop (Suc i) hs) bs'" "heapLimit h' = heapLimit h" "pAllocation h' = pAllocation h"
        by (rule free_step [OF Cons.prems True])
      from Cons.IH [OF f(2)] show ?thesis using f(1,3,4) True by (simp add: Release)
    next
      case False
      then show ?thesis using Cons.IH [OF Cons.prems] by (simp add: Release)
    qed
  qed
qed

lemma all_free:
  assumes "aiv_inv h bs" "allocs bs = {}"
  shows "bs = [] \<or> bs = [(base h, limit h - base h - 48, KFree)]"
proof -
  obtain fs as where sh: "heap_shape h bs fs as" and st: "settled bs" and ap: "apart bs" by (rule aiv_invE [OF assms(1)])
  have k: "snd (snd b) = KFree" if "b \<in> set bs" for b
  proof -
    obtain p s k where b: "b = (p, s, k)" by (cases b)
    then show ?thesis using that assms(2) st by (cases k) (auto simp: settled_def allocs_def)
  qed
  show ?thesis
  proof (cases bs)
    case (Cons b cs)
    note bs = this
    have "cs = []"
    proof (cases cs)
      case (Cons c ds)
      then show ?thesis using ap k [of b] k [of c] bs by (simp add: apart_simps)
    qed
    moreover obtain p s l where "b = (p, s, l)" by (cases b)
    ultimately show ?thesis using heap_shapeD(2) [OF sh] k [of b] bs by auto
  qed simp
qed

text \<open>A heap of 1 MB at a fixed address after an allocation of 100 bytes.\<close>

lemma one_allocation:
  "\<exists>h. aiv_inv h [(0x5000, 100, KAlloc 100), (0x5094, 1048380, KFree)] \<and> counted h [(0x5000, 100, KAlloc 100), (0x5094, 1048380, KFree)] \<and> heapLimit h = 0x100000"
proof -
  obtain h where h: "aiv_inv h [(0x5000, 1048528, KFree)]" "counted h [(0x5000, 1048528, KFree)]" "heapLimit h = 0x100000"
    using init_run [of "0x100000" "0x5000" _ "\<lambda>_. 0"] by (auto simp: MIN_HEAP_SIZE_def MAX_HEAP_SIZE_def)
  have room: "heapLimit h \<noteq> 0" "100 + 48 + unat (heapSize h) \<le> unat (heapLimit h)" using h(3) counted_size(1) [OF h(1,2)] by simp_all
  have ins: "(0x5000, 1048528, KFree) \<in> set [(0x5000 :: nat, 1048528 :: nat, KFree)]" by simp
  have le: "(100 :: nat) \<le> 1048528" "(0 :: nat) < 100" "(100 :: nat) < 2 ^ 60 - 1" by simp_all
  obtain h' xs q t ys where r: "[(0x5000, 1048528, KFree)] = xs @ (q, t, KFree) # ys" "aiv_inv h' (xs @ carved q t 100 @ ys)"
    "counted h [(0x5000, 1048528, KFree)] \<longrightarrow> counted h' (xs @ carved q t 100 @ ys)" "heapLimit h' = heapLimit h"
    by (rule alloc_run [OF h(1) room(1) counted_size(2) [OF h(1,2)] le(2,3) room(2) ins le(1)])
  have "xs = []" "q = 0x5000" "t = 1048528" "ys = []" using r(1) by (cases xs; simp)+
  then show ?thesis using r h(2,3) by (auto simp: carved_def)
qed

subsection \<open>Properties\<close>

text \<open>C8. A whole session with the AIV heap: after its creation (any supported limit, wherever the system allocator places it, whatever its bytes are) every
  sequence of allocation requests of any size and of releases of handles that were given out is served. No fatal check fails and no memory outside the heap is accessed; the handles
  in the client's hands are distinct and are exactly the allocated blocks; the blocks tile the heap without two free neighbours; the
  heap size is the size of the allocated blocks and the debug check of the heap succeeds. Once all handles have been released
  the heap is one free block again.\<close>

theorem aivHeap_session:
  assumes "MIN_HEAP_SIZE \<le> L" "L \<le> MAX_HEAP_SIZE" "0 < unat a" "unat a + unat L < 2 ^ 64"
  shows "\<exists>h h' hs bs. aivHeapInit (snd (aivHeapCreate True True)) L (Some (a, bytes)) = Some (STATUS_SUCCESS, h) \<and>
    serve h [] rs = Some (h', hs) \<and> aiv_inv h' bs \<and> unat (heapSize h') = used bs \<and>
    distinct hs \<and> set hs = handle_of h' ` allocs bs \<and> heapDebugCheckAllocator aivBaseHeap (Some h') = Some STATUS_SUCCESS \<and>
    (hs = [] \<longrightarrow> bs = [(unat a, unat L - 48, KFree)])"
proof -
  let ?h0 = "\<lparr>heapLimit = 0, heapSize = 0, numAlloc = 0, pAllocation = 0, aiv_pFree = 0, aiv_pAlloc = 0, aiv_mem = \<lambda>_. 0\<rparr>"
  have c: "snd (aivHeapCreate True True) = Some ?h0" by (simp add: aivHeapCreate_def commonHeapCreate_def)
  obtain h where h: "aivHeapInit (Some ?h0) L (Some (a, bytes)) = Some (STATUS_SUCCESS, h)"
    "aiv_inv h [(unat a, unat L - 48, KFree)]" "counted h [(unat a, unat L - 48, KFree)]" "heapLimit h = L" "pAllocation h = a"
    by (rule init_run [OF assms])
  have L: "L \<noteq> 0" using assms(1) by (auto simp: MIN_HEAP_SIZE_def)
  then have "client_ok h [] [(unat a, unat L - 48, KFree)]" using h by (simp add: client_ok_def)
  from serve_ok [OF this, of rs] obtain h' hs bs where r: "serve h [] rs = Some (h', hs)" "client_ok h' hs bs" "heapLimit h' = L" "pAllocation h' = a"
    using h(4,5) by metis
  have inv: "aiv_inv h' bs" and cnt: "counted h' bs" and hs: "distinct hs" "set hs = handle_of h' ` allocs bs" using r(2) by (auto simp: client_ok_def)
  note size = counted_size(1,2) [OF inv cnt]
  have dbg: "heapDebugCheckAllocator aivBaseHeap (Some h') = Some STATUS_SUCCESS"
    using debug_check_run [OF inv size(2)] by (simp add: heapDebugCheckAllocator_def aivBaseHeap_def)
  have "bs = [(unat a, unat L - 48, KFree)]" if "hs = []"
  proof -
    have "allocs bs = {}" using hs(2) that by auto
    moreover obtain fs as where sh: "heap_shape h' bs fs as" by (rule aiv_invE [OF inv])
    moreover have "bs \<noteq> []" using heap_shapeD(2) [OF sh] r(3,4) L by (auto simp: base_def limit_def unat_eq_0)
    ultimately show ?thesis using all_free [OF inv] r(3,4) by (simp add: base_def limit_def)
  qed
  then show ?thesis using c h(1) r(1) inv size(1) hs dbg by auto
qed

theorem aivHeap_session_witness:
  "\<exists>h h' hs bs. aivHeapInit (snd (aivHeapCreate True True)) 0x100000 (Some (0x5000, \<lambda>_. 0xAA)) = Some (STATUS_SUCCESS, h) \<and>
    serve h [] [Request 100, Request 7, Release 1] = Some (h', hs) \<and> aiv_inv h' bs \<and> set hs = handle_of h' ` allocs bs"
  using aivHeap_session [of "0x100000" "0x5000" "\<lambda>_. 0xAA" "[Request 100, Request 7, Release 1]"]
  by (auto simp: MIN_HEAP_SIZE_def MAX_HEAP_SIZE_def simp del: serve.simps)



text \<open>Freeing: the handle of an allocated block is accepted whenever the accounting covers the block; its memory becomes part of one free block
  together with the free neighbours, the accounting is updated and nothing that other allocations contain changes. When the accounting does
  not cover the block the call is refused as a corrupted heap and nothing changes.\<close>

theorem aivHeapFree_correct:
  assumes inv: "aiv_inv h (xs @ (p, s, KAlloc n) # ys)" and l: "heapLimit h \<noteq> 0"
  shows "if 48 + s \<le> unat (heapSize h) then
      \<exists>h'. aivHeapFree (Some h) (handle_of h p) = Some (STATUS_SUCCESS, Some h') \<and> aiv_inv h' (returned xs p s ys) \<and>
        same_contents h h' (xs @ (p, s, KAlloc n) # ys) (xs @ ys) \<and> heapSize h' = heapSize h - of_nat (48 + s) \<and>
        (counted h (xs @ (p, s, KAlloc n) # ys) \<longrightarrow> counted h' (returned xs p s ys))
    else aivHeapFree (Some h) (handle_of h p) = Some (STATUS_HEAP_CORRUPTED, Some h)"
proof (cases "48 + s \<le> unat (heapSize h)")
  case True
  then show ?thesis using free_run [OF inv l True] by (simp only: if_True) metis
next
  case False
  then show ?thesis using free_refused [OF inv l] by simp
qed

theorem aivHeapFree_correct_witness:
  "\<exists>h h' xs p s ys. aiv_inv h (xs @ (p, s, KAlloc 100) # ys) \<and> aivHeapFree (Some h) (handle_of h p) = Some (STATUS_SUCCESS, Some h') \<and>
    aiv_inv h' (returned xs p s ys) \<and> counted h' (returned xs p s ys)"
proof -
  obtain h where h: "aiv_inv h ([] @ (0x5000, 100, KAlloc 100) # [(0x5094, 1048380, KFree)])"
    "counted h ([] @ (0x5000, 100, KAlloc 100) # [(0x5094, 1048380, KFree)])" "heapLimit h = 0x100000"
    using one_allocation by fastforce
  have l: "heapLimit h \<noteq> 0" using h(3) by simp
  have c: "48 + 100 \<le> unat (heapSize h)" using counted_size(1) [OF h(1,2)] by simp
  from aivHeapFree_correct [OF h(1) l] show ?thesis unfolding if_P [OF c] using h(1,2) by blast
qed

end
