(* ===== verification/AivHeapResize.thy ===== *)
theory AivHeapResize
  imports AivHeapProps
begin

text \<open>
  Resizing a block in place: giving back its end, and taking the free block behind it or a part of that.
\<close>

lemma resize_shape:
  assumes sh: "heap_shape h (xs @ (p, s, KAlloc n) # ys) fs as" and st: "settled xs" "settled ys" and m: "0 < m" "m \<le> s"
  shows "heap_shape (h\<lparr>aiv_mem := w_alloc (aiv_mem h) p (of_nat m)\<rparr>) (xs @ (p, s, KAlloc m) # ys) fs as"
    and "keeps (cells (addrs (xs @ (p, s, KAlloc n) # ys)) (ends (xs @ (p, s, KAlloc n) # ys))) (aiv_mem h) (w_alloc (aiv_mem h) p (of_nat m))"
proof -
  let ?bs = "xs @ (p, s, KAlloc n) # ys" and ?m = "aiv_mem h"
  let ?m' = "w_alloc ?m p (of_nat m)"
  note D = heap_shapeD [OF sh] and S = shape_facts [OF sh]
  note lay = S(6) and rest = tiles_rest [OF D(2)]
  have p: "p \<in> addrs ?bs" and e: "p + 40 + s \<in> ends ?bs" by simp_all
  show "keeps (cells (addrs ?bs) (ends ?bs)) ?m ?m'" by (rule keeps_w(4) [OF keeps_refl p])
  have hd: "hdr ?m' b = (if b = p then (hdr ?m p)\<lparr>c_alloc := of_nat m\<rparr> else hdr ?m b)" if "b \<in> addrs ?bs" for b
    using that p by (simp add: hdr_w [OF lay])
  have ft: "ftr ?m' x = ftr ?m x" if "x \<in> ends ?bs" for x using that p by (simp add: ftr_w [OF lay])
  let ?h' = "h\<lparr>aiv_mem := ?m'\<rparr>"
  have "heap_shape ?h' (xs @ [(p, s, KAlloc m)] @ ys) fs as"
  proof (rule shapeI [where m = ?m])
    show "block_ok (hdr (aiv_mem ?h')) (ftr (aiv_mem ?h')) b" if "b \<in> set [(p, s, KAlloc m)]" for b
      using that D(3) [of "(p, s, KAlloc n)"] hd [OF p] ft [OF e] m by (simp add: block_ok_def)
    have "dll (hdr ?m') c zs = dll (hdr ?m) c zs" if "set zs \<subseteq> addrs ?bs" for c zs by (rule dll_cong) (use hd that in \<open>auto simp del: addrs_simps\<close>)
    then show "dll (hdr (aiv_mem ?h')) (aiv_pFree ?h') fs" "dll (hdr (aiv_mem ?h')) (aiv_pAlloc ?h') as" using D(4,5) S(3,4) by simp_all
    show "c_size (hdr (aiv_mem ?h') a) = c_size (hdr ?m a) \<and> c_flags (hdr (aiv_mem ?h') a) = c_flags (hdr ?m a) \<and> c_alloc (hdr (aiv_mem ?h') a) = c_alloc (hdr ?m a)"
      if "a \<in> addrs xs \<union> addrs ys" for a
      using that hd [of a] rest(1) by auto
    show "ftr (aiv_mem ?h') x = ftr ?m x" if "x \<in> ends xs \<union> ends ys" for x using that ft [of x] by auto
  qed (use D st in \<open>auto simp: tiles_append\<close>)
  then show "heap_shape ?h' (xs @ (p, s, KAlloc m) # ys) fs as" by simp
qed

text \<open>The end of an allocated block becomes a block of its own, which is returned.\<close>

lemma splitAllocated_shape:
  assumes sh: "heap_shape h (xs @ (p, s, KAlloc n) # ys) fs as" and st: "settled xs" "settled ys" and small: "small_heap h"
    and m: "0 < m" "m + 64 \<le> s" and qr: "q = p + 48 + m" "r = s - m - 48"
  obtains h' fs' where "splitAllocatedBlock h (of_nat p) (of_nat m) = Some h'"
    "heap_shape h' (returned (xs @ [(p, m, KAlloc m)]) q r ys) fs' as"
    "heapSize h' = heapSize h" "numAlloc h' = numAlloc h" "heapLimit h' = heapLimit h" "pAllocation h' = pAllocation h"
    "keeps (cells (addrs (xs @ (p, m, KAlloc m) # (q, r, KNone 0) # ys)) (ends (xs @ (p, m, KAlloc m) # (q, r, KNone 0) # ys))) (aiv_mem h) (aiv_mem h')"
proof -
  let ?bs = "xs @ (p, s, KAlloc n) # ys" and ?bs' = "xs @ [(p, m, KAlloc m), (q, r, KNone 0)] @ ys" and ?m = "aiv_mem h"
  define H where "H = addrs ?bs'"
  define F where "F = ends ?bs'"
  note D = heap_shapeD [OF sh] and S = shape_facts [OF sh]
  have s60: "s < 2 ^ 60" using small_block [OF sh small, of p s "KAlloc n"] by simp
  have t': "tiles (base h) ?bs' (limit h)" using D(2) m qr by (auto simp: tiles_append ac_simps)
  have lay: "layout H F" using layout_tiles [OF t'] by (simp add: H_def F_def)
  note at = shape_at [OF D(1) t', folded H_def F_def] and rest = tiles_rest [OF D(2)]
  have sub: "addrs xs \<union> addrs ys \<subseteq> H" "ends xs \<union> ends ys \<subseteq> F" by (auto simp: H_def F_def)
  have q: "q \<notin> addrs xs \<union> addrs ys" "p \<notin> addrs xs \<union> addrs ys" "p \<noteq> q" "p \<in> H" "q \<in> H"
    using tiles_rest [of "base h" xs p m "KAlloc m" "(q, r, KNone 0) # ys"] tiles_rest [of "base h" "xs @ [(p, m, KAlloc m)]" q r "KNone 0" ys] t'
    by (auto simp: H_def)
  have chains: "set fs \<subseteq> H" "set as \<subseteq> H" "q \<notin> set fs" "q \<notin> set as" "p \<notin> set fs"
  proof -
    have "p \<notin> set fs" unfolding D(8) using kind_of_addr(1) [OF D(2), of p s "KAlloc n"] by simp
    moreover have "set fs \<subseteq> insert p (addrs xs \<union> addrs ys)" "set as \<subseteq> insert p (addrs xs \<union> addrs ys)" using S(3,4) by simp_all
    ultimately show "set fs \<subseteq> H" "set as \<subseteq> H" "q \<notin> set fs" "q \<notin> set as" "p \<notin> set fs" using q sub by auto
  qed
  define e where "e = q + 40 + r"
  define e' where "e' = p + 40 + m"
  have es: "e = p + 40 + s" using qr m by (simp add: e_def)
  have e: "e \<in> F" "e' \<in> F" "e' \<noteq> e" "e' \<notin> ends xs \<union> ends ys" "e \<notin> ends xs \<union> ends ys"
    using qr m rest(2) tiles_rest(2) [of "base h" xs p m "KAlloc m" "(q, r, KNone 0) # ys"] t' unfolding es by (auto simp: F_def e_def e'_def es [symmetric])
  define m1 where "m1 = w_flags (w_next (w_prev (w_ftr (w_size (put_hdr ?m q) q (of_nat r)) e (of_nat r)) q 0) q 0) q ALLOCATION_FLAGS_NONE"
  define m2 where "m2 = w_ftr (w_ftr (w_size (w_alloc m1 p (of_nat m)) p (of_nat m)) e' 0) e' (of_nat m)"
  note rules = hdr_w [OF lay] ftr_w [OF lay] hdr_w_ftr [OF lay] ftr_w_ftr [OF lay] put_hdr_view [OF lay q(5)]
  have blk: "c_size (hdr ?m p) = of_nat s" "c_flags (hdr ?m p) = ALLOCATION_FLAGS_ALLOC" using D(3) [of "(p, s, KAlloc n)"] by (simp_all add: block_ok_def)
  have hd: "hdr m2 b = (if b = q then \<lparr>c_size = of_nat r, c_flags = ALLOCATION_FLAGS_NONE, c_alloc = 0, c_next = 0, c_prev = 0\<rparr>
      else if b = p then (hdr ?m p)\<lparr>c_size := of_nat m, c_alloc := of_nat m\<rparr> else hdr ?m b)" if "b \<in> H" for b
    using that q e by (simp add: m2_def m1_def rules)
  have ft: "ftr m2 x = (if x = e' then of_nat m else if x = e then of_nat r else ftr ?m x)" if "x \<in> F" for x
    using that q e by (simp add: m2_def m1_def rules)
  have kp: "keeps (cells H F) ?m m2" unfolding m2_def m1_def
    using q e by (intro keeps_w keeps_w_ftr put_hdr_view(3) [OF lay] keeps_refl)
  let ?h2 = "h\<lparr>aiv_mem := m2\<rparr>"
  have ptr: "of_nat e' + 8 = (of_nat q :: UINT64)" "of_nat p + 40 + of_nat m = (of_nat e' :: UINT64)"
    "of_nat s - of_nat m - 48 = (of_nat r :: UINT64)" "of_nat m + 64 \<le> (of_nat s :: UINT64)"
  proof -
    show "of_nat e' + 8 = (of_nat q :: UINT64)" "of_nat p + 40 + of_nat m = (of_nat e' :: UINT64)" by (simp_all add: qr e'_def)
    have "of_nat (s - m - 48) = of_nat s - of_nat m - (48 :: UINT64)" using m by (simp add: of_nat_diff)
    then show "of_nat s - of_nat m - 48 = (of_nat r :: UINT64)" by (simp add: qr)
    show "of_nat m + 64 \<le> (of_nat s :: UINT64)" using word_of_nat_le [of "m + 64" s] m s60 by simp
  qed
  let ?h1 = "h\<lparr>aiv_mem := w_size (put_hdr ?m q) q (of_nat r)\<rparr>"
  have 1: "SET_AIV_ALLOCATION_FOOTER_SIZE ?h1 (of_nat q) = Some (?h1\<lparr>aiv_mem := w_ftr (aiv_mem ?h1) e (of_nat r)\<rparr>)"
    by (rule footer_at(3)) (use at q e in \<open>simp_all add: rules e_def\<close>)
  let ?h3 = "h\<lparr>aiv_mem := w_ftr (w_size (w_alloc m1 p (of_nat m)) p (of_nat m)) e' 0\<rparr>"
  have 2: "SET_AIV_ALLOCATION_FOOTER_SIZE ?h3 (of_nat p) = Some (?h3\<lparr>aiv_mem := w_ftr (aiv_mem ?h3) e' (of_nat m)\<rparr>)"
    by (rule footer_at(3)) (use at q e in \<open>simp_all add: rules e'_def\<close>)
  have run1: "splitAllocatedBlock h (of_nat p) (of_nat m) = addFreeBlock ?h2 (of_nat q)"
    using at(1) [OF q(4)] at(1) [OF q(5)] at(2) [OF e(2)] 1 2 ptr(4) unfolding splitAllocatedBlock_def Let_def sizes
    by (simp add: access access_ftr blk ptr put_hdr_run m1_def [symmetric] m2_def CHECK_def)
  have "heap_shape ?h2 (xs @ [(p, m, KAlloc m), (q, r, KNone 0)] @ ys) fs as"
  proof (rule shapeI [where m = ?m])
    show "block_ok (hdr (aiv_mem ?h2)) (ftr (aiv_mem ?h2)) b" if "b \<in> set [(p, m, KAlloc m), (q, r, KNone 0)]" for b
      using that hd [OF q(4)] hd [OF q(5)] ft [OF e(1)] ft [OF e(2)] q(3) e(3) blk m
      by (auto simp: block_ok_def e_def [symmetric] e'_def [symmetric])
    have "dll (hdr m2) c zs = dll (hdr ?m) c zs" if "set zs \<subseteq> H" "q \<notin> set zs" for c zs by (rule dll_cong) (use hd that in auto)
    then show "dll (hdr (aiv_mem ?h2)) (aiv_pFree ?h2) fs" "dll (hdr (aiv_mem ?h2)) (aiv_pAlloc ?h2) as" using D(4,5) chains by simp_all
    show "c_size (hdr (aiv_mem ?h2) a) = c_size (hdr ?m a) \<and> c_flags (hdr (aiv_mem ?h2) a) = c_flags (hdr ?m a) \<and> c_alloc (hdr (aiv_mem ?h2) a) = c_alloc (hdr ?m a)"
      if "a \<in> addrs xs \<union> addrs ys" for a
    proof -
      have "a \<in> H" "a \<noteq> p" "a \<noteq> q" using that sub q by auto
      then show ?thesis using hd [of a] by simp
    qed
    show "ftr (aiv_mem ?h2) x = ftr ?m x" if "x \<in> ends xs \<union> ends ys" for x
    proof -
      have "x \<in> F" "x \<noteq> e" "x \<noteq> e'" using that e sub by auto
      then show ?thesis using ft by simp
    qed
  qed (use D st t' in auto)
  then have sh2: "heap_shape ?h2 ((xs @ [(p, m, KAlloc m)]) @ (q, r, KNone 0) # ys) fs as" by simp
  have st': "settled (xs @ [(p, m, KAlloc m)])" "small_heap ?h2" using st small by (simp_all add: small_heap_def)
  obtain h' fs' where h': "addFreeBlock ?h2 (of_nat q) = Some h'" "heap_shape h' (returned (xs @ [(p, m, KAlloc m)]) q r ys) fs' as"
    "heapSize h' = heapSize ?h2" "numAlloc h' = numAlloc ?h2" "heapLimit h' = heapLimit ?h2" "pAllocation h' = pAllocation ?h2"
    "keeps (cells (addrs ((xs @ [(p, m, KAlloc m)]) @ (q, r, KNone 0) # ys)) (ends ((xs @ [(p, m, KAlloc m)]) @ (q, r, KNone 0) # ys))) (aiv_mem ?h2) (aiv_mem h')"
    by (rule addFree_shape [OF sh2 st'(1) st(2) st'(2)])
  have "keeps (cells H F) ?m (aiv_mem h')" by (rule keeps_seq [OF kp _ order_refl]) (use h'(7) in \<open>simp add: H_def F_def\<close>)
  then show thesis using that [of h' fs'] run1 h' by (simp add: H_def F_def)
qed

subsection \<open>Shrinking an allocation\<close>

definition shrunk :: "block list \<Rightarrow> nat \<Rightarrow> nat \<Rightarrow> nat \<Rightarrow> block list \<Rightarrow> block list" where
  "shrunk xs p s m ys =
     (if s - m \<le> 64 then xs @ (p, s, KAlloc m) # ys else returned (xs @ [(p, m, KAlloc m)]) (p + 48 + m) (s - m - 48) ys)"

lemma shrunk_facts:
  assumes "settled (xs @ (p, s, KAlloc n) # ys)" "apart (xs @ (p, s, KAlloc n) # ys)"
  shows "settled (shrunk xs p s m ys)" "apart (shrunk xs p s m ys)"
proof -
  have s: "settled (xs @ [(p, m, KAlloc m)])" "settled ys" "apart (xs @ [(p, m, KAlloc m)])" "apart ys" "apart (xs @ (p, s, KAlloc m) # ys)"
    using assms by (cases ys; auto simp: apart_simps)+
  then show "settled (shrunk xs p s m ys)" "apart (shrunk xs p s m ys)"
    using returned_facts(1,2) [OF s(1,2,3,4)] by (auto simp: shrunk_def)
qed

text \<open>The bytes of the blocks in \<open>xs\<close> and \<open>ys\<close>, and the first \<open>m\<close> bytes of the block at \<open>p\<close>, are kept.\<close>

definition prefix_kept :: "AivHeap \<Rightarrow> AivHeap \<Rightarrow> block list \<Rightarrow> nat \<Rightarrow> nat \<Rightarrow> block list \<Rightarrow> bool" where
  "prefix_kept h h' xs p m ys \<longleftrightarrow> (\<forall>i. p + 40 \<le> i \<and> i < p + 40 + m \<longrightarrow> aiv_mem h' i = aiv_mem h i) \<and> same_contents h h' (xs @ ys) (xs @ ys)"

lemma prefix_keeps:
  assumes k: "keeps (cells (addrs cs) (ends cs)) (aiv_mem h) (aiv_mem h')" and t: "tiles a cs e"
    and b: "(p, s, k) \<in> set cs" "m \<le> s" and sub: "set xs \<union> set ys \<subseteq> set cs"
  shows "prefix_kept h h' xs p m ys"
proof -
  have "same_contents h h' (xs @ ys) (xs @ ys)" by (rule contents_keeps [OF k t]) (use sub in auto)
  moreover have "aiv_mem h' i = aiv_mem h i" if "p + 40 \<le> i" "i < p + 40 + m" for i
    using payload_cells [OF t b(1)] k that b(2) by (fastforce simp: keeps_def)
  ultimately show ?thesis by (simp add: prefix_kept_def)
qed

lemma shrink_blocks:
  assumes inv: "aiv_inv h (xs @ (p, s, KAlloc n) # ys)" and m: "0 < m" "m \<le> s"
  obtains h' where "set_allocSize h (of_nat p) (of_nat m) \<bind> (\<lambda>h. if s - m \<le> 64 then Some h else splitAllocatedBlock h (of_nat p) (of_nat m)) = Some h'"
    "aiv_inv h' (shrunk xs p s m ys)" "prefix_kept h h' xs p m ys"
    "heapSize h' = heapSize h" "numAlloc h' = numAlloc h" "heapLimit h' = heapLimit h" "pAllocation h' = pAllocation h"
proof -
  note result = that
  let ?bs = "xs @ (p, s, KAlloc n) # ys" and ?bs1 = "xs @ (p, s, KAlloc m) # ys"
  let ?h1 = "h\<lparr>aiv_mem := w_alloc (aiv_mem h) p (of_nat m)\<rparr>"
  obtain fs as where sh: "heap_shape h ?bs fs as" and st: "settled ?bs" and ap: "apart ?bs" and small: "small_heap h" by (rule aiv_invE [OF inv])
  have st': "settled xs" "settled ys" using st by simp_all
  note R = resize_shape [OF sh st' m] and F = shrunk_facts [OF st ap, of m]
  have at: "hdr_at h p" using shape_facts(1) [OF sh, of p] by simp
  have set1: "set_allocSize h (of_nat p) (of_nat m) = Some ?h1" by (simp add: access [OF at])
  have small1: "small_heap ?h1" using small by (simp add: small_heap_def limit_def base_def)
  show thesis
  proof (cases "s - m \<le> 64")
    case True
    have bs: "shrunk xs p s m ys = ?bs1" using True by (simp add: shrunk_def)
    have "aiv_inv ?h1 (shrunk xs p s m ys)" using R(1) F small1 bs by (auto simp: aiv_inv_def)
    moreover have "prefix_kept h ?h1 xs p m ys"
      by (rule prefix_keeps [where cs = ?bs and s = s and k = "KAlloc n", OF _ heap_shapeD(2) [OF sh]]) (use R(2) m in auto)
    ultimately show thesis using result [of ?h1] set1 True by simp
  next
    case False
    let ?q = "p + 48 + m" and ?r = "s - m - 48"
    let ?cs = "xs @ (p, m, KAlloc m) # (?q, ?r, KNone 0) # ys"
    have m64: "m + 64 \<le> s" using False by simp
    obtain h' fs' where h': "splitAllocatedBlock ?h1 (of_nat p) (of_nat m) = Some h'"
      "heap_shape h' (returned (xs @ [(p, m, KAlloc m)]) ?q ?r ys) fs' as"
      "heapSize h' = heapSize ?h1" "numAlloc h' = numAlloc ?h1" "heapLimit h' = heapLimit ?h1" "pAllocation h' = pAllocation ?h1"
      "keeps (cells (addrs ?cs) (ends ?cs)) (aiv_mem ?h1) (aiv_mem h')"
      by (rule splitAllocated_shape [OF R(1) st' small1 m(1) m64 refl refl])
    have bs: "shrunk xs p s m ys = returned (xs @ [(p, m, KAlloc m)]) ?q ?r ys" using False by (simp add: shrunk_def)
    have "small_heap h'" using small1 h'(5,6) by (simp add: small_heap_def limit_def base_def)
    then have inv': "aiv_inv h' (shrunk xs p s m ys)" using h'(2) F bs by (auto simp: aiv_inv_def)
    have t: "tiles (base h) ?cs (limit h)" using heap_shapeD(2) [OF sh] m64 m(1) by (auto simp: tiles_append ac_simps)
    have "ends ?bs \<subseteq> ends ?cs" using m64 by auto
    then have "cells (addrs ?bs) (ends ?bs) \<subseteq> cells (addrs ?cs) (ends ?cs)" by (intro cells_mono) auto
    then have "keeps (cells (addrs ?cs) (ends ?cs)) (aiv_mem h) (aiv_mem ?h1)" using R(2) by (auto simp: keeps_def)
    from keeps_seq [OF this h'(7) order_refl] have "prefix_kept h h' xs p m ys"
      by (rule prefix_keeps [where s = m and k = "KAlloc m", OF _ t]) auto
    then show thesis using result [of h'] set1 h' inv' False by simp
  qed
qed

lemma shrink_run:
  assumes inv: "aiv_inv h (xs @ (p, s, KAlloc n) # ys)" and l: "heapLimit h \<noteq> 0" and m: "0 < m" "m < n"
  obtains h' where "heapSetAllocSize aivBaseHeap (Some h) (Some (handle_of h p)) (of_nat m) = Some (STATUS_SUCCESS, Some (handle_of h p), Some h')"
    "aiv_inv h' (shrunk xs p s m ys)" "prefix_kept h h' xs p m ys"
    "unat (heapSize h') = unat (heapSize h) - (n - m)" "numAlloc h' = numAlloc h" "heapLimit h' = heapLimit h" "pAllocation h' = pAllocation h"
proof -
  let ?bs = "xs @ (p, s, KAlloc n) # ys"
  obtain fs as where sh: "heap_shape h ?bs fs as" and small: "small_heap h" by (rule aiv_invE [OF inv])
  have b: "(p, s, KAlloc n) \<in> set ?bs" by simp
  note V = alloc_valid [OF sh small b]
  have ns: "n \<le> s" using heap_shapeD(3) [OF sh b] by (simp add: block_ok_def)
  have s60: "s + 48 < 2 ^ 60" by (rule small_block [OF sh small b])
  have u: "unat (of_nat k :: UINT64) = k" if "k \<le> s" for k using that s60 by (intro unat_addr) simp
  have w: "(of_nat m :: UINT64) \<noteq> 0" "(of_nat m :: UINT64) < of_nat n" "(of_nat n :: UINT64) \<noteq> of_nat m" "0 < (of_nat m :: UINT64)"
    "(of_nat m :: UINT64) < MAX_ALLOCATION_SIZE" "of_nat n - of_nat m = (of_nat (n - m) :: UINT64)" "of_nat s - of_nat n = (of_nat (s - n) :: UINT64)"
    using u [of m] u [of n] m ns s60 by (auto simp: word_less_nat_alt MAX_ALLOCATION_SIZE_def of_nat_diff word_unat_eq_iff)
  have d: "(of_nat (s - n) :: UINT64) + of_nat (n - m) \<le> 64 \<longleftrightarrow> s - m \<le> 64"
  proof -
    have "(of_nat (s - n) :: UINT64) + of_nat (n - m) = of_nat (s - m)" using m ns by (simp add: of_nat_add [symmetric] del: of_nat_add)
    then show ?thesis using u [of "s - m"] by (simp add: word_le_nat_alt)
  qed
  define h1 where "h1 = (if heapSize h \<le> of_nat (n - m) then h\<lparr>heapSize := 0\<rparr> else h\<lparr>heapSize := heapSize h - of_nat (n - m)\<rparr>)"
  have h1s: "unat (heapSize h1) = unat (heapSize h) - (n - m)"
    using u [of "n - m"] m ns by (auto simp: h1_def word_le_nat_alt unat_sub)
  have h1: "heapLimit h1 = heapLimit h" "pAllocation h1 = pAllocation h" "numAlloc h1 = numAlloc h" "aiv_mem h1 = aiv_mem h" "aiv_pFree h1 = aiv_pFree h" "aiv_pAlloc h1 = aiv_pAlloc h"
    by (simp_all add: h1_def)
  have sh1: "heap_shape h1 bs' fs' as' = heap_shape h bs' fs' as'" "small_heap h1 = small_heap h" for bs' fs' as'
    using h1 by (simp_all add: heap_shape_def small_heap_def limit_def base_def wf_bounds_def)
  have inv1: "aiv_inv h1 ?bs" using inv by (simp add: aiv_inv_def sh1)
  have hd: "handle_of h1 p = handle_of h p" using h1 by (simp add: handle_of_def base_def)
  note V1 = alloc_valid [OF sh [folded sh1(1)] small [folded sh1(2)] b, unfolded hd]
  obtain h' where h': "set_allocSize h1 (of_nat p) (of_nat m) \<bind> (\<lambda>h. if s - m \<le> 64 then Some h else splitAllocatedBlock h (of_nat p) (of_nat m)) = Some h'"
    "aiv_inv h' (shrunk xs p s m ys)" "prefix_kept h1 h' xs p m ys"
    "heapSize h' = heapSize h1" "numAlloc h' = numAlloc h1" "heapLimit h' = heapLimit h1" "pAllocation h' = pAllocation h1"
    by (rule shrink_blocks [OF inv1 m(1)]) (use m ns in auto)
  obtain h2 where h2: "set_allocSize h1 (of_nat p) (of_nat m) = Some h2" "(if s - m \<le> 64 then Some h2 else splitAllocatedBlock h2 (of_nat p) (of_nat m)) = Some h'"
    using h'(1) by (cases "set_allocSize h1 (of_nat p) (of_nat m)") auto
  have common: "commonHeapSetAllocSize (Some h) (Some (handle_of h p)) (of_nat n) (of_nat m) = (STATUS_SUCCESS, Some h1)"
    using V(6) l w(2,4,5) by (auto simp: commonHeapSetAllocSize_def h1_def Let_def w(6) validateHeap_def INVALID_ALLOCATION_HANDLE_VALUE_def)
  have ok: "\<not> STATUS_FAILED STATUS_SUCCESS" by (simp add: STATUS_FAILED_def)
  have "aivHeapSetAllocSize (Some h) (Some (handle_of h p)) (of_nat n) (of_nat m) = Some (STATUS_SUCCESS, Some (handle_of h p), Some h')"
  proof (cases "s - m \<le> 64")
    case True
    then show ?thesis unfolding aivHeapSetAllocSize_def common V1(3) V1(5) Let_def prod.case option.case
      using ok V1(2) w(2) h2 by (simp add: V1(3,5,7,8) w(6,7) d sizes not_less less_imp_le del: of_nat_add of_nat_diff)
  next
    case False
    then show ?thesis unfolding aivHeapSetAllocSize_def common V1(3) V1(5) Let_def prod.case option.case
      using ok V1(2) w(2) less_not_sym [OF w(2)] h2 by (simp add: V1(3,5,7,8) w(6,7) d sizes del: of_nat_add of_nat_diff)
  qed
  moreover have "aivHeapGetAllocSize (Some h) (handle_of h p) True = Some (STATUS_SUCCESS, Some (of_nat n))"
    unfolding aivHeapGetAllocSize_def Let_def V(3) using ok V l
    by (simp add: commonHeapGetAllocSize_def validateHeap_def INVALID_ALLOCATION_HANDLE_VALUE_def del: of_nat_add)
  ultimately have run: "heapSetAllocSize aivBaseHeap (Some h) (Some (handle_of h p)) (of_nat m) = Some (STATUS_SUCCESS, Some (handle_of h p), Some h')"
    using V(6) w by (simp add: heapSetAllocSize_def IS_VALID_ALLOCATION_HANDLE_def INVALID_ALLOCATION_HANDLE_VALUE_def aivBaseHeap_def)
  have "prefix_kept h h' xs p m ys" using h'(3) h1 by (simp add: prefix_kept_def same_contents_def)
  then show thesis using that [OF run h'(2)] h' h1 h1s by simp
qed

subsection \<open>Properties\<close>

text \<open>C25. Shrinking an allocation keeps its handle and the bytes that remain, and the contents of every other allocation. The end of the block is
  returned to the free blocks when it is longer than a minimal free block, otherwise the block only records the smaller size. The accounting is
  reduced by the requested difference.\<close>

theorem aivHeapShrink_correct:
  assumes "aiv_inv h (xs @ (p, s, KAlloc n) # ys)" "heapLimit h \<noteq> 0" "0 < m" "m < n"
  shows "\<exists>h'. heapSetAllocSize aivBaseHeap (Some h) (Some (handle_of h p)) (of_nat m) = Some (STATUS_SUCCESS, Some (handle_of h p), Some h') \<and>
    aiv_inv h' (shrunk xs p s m ys) \<and> prefix_kept h h' xs p m ys \<and> unat (heapSize h') = unat (heapSize h) - (n - m)"
  by (rule shrink_run [OF assms]) blast

theorem aivHeapShrink_correct_witness:
  "\<exists>h p xs s ys h'. aiv_inv h (xs @ (p, s, KAlloc 100) # ys) \<and>
    heapSetAllocSize aivBaseHeap (Some h) (Some (handle_of h p)) 20 = Some (STATUS_SUCCESS, Some (handle_of h p), Some h') \<and>
    aiv_inv h' (shrunk xs p s 20 ys)"
proof -
  obtain h where h: "aiv_inv h ([] @ (0x5000, 100, KAlloc 100) # [(0x5094, 1048380, KFree)])" "heapLimit h = 0x100000"
    using one_allocation by fastforce
  have "heapLimit h \<noteq> 0" "(0 :: nat) < 20" "(20 :: nat) < 100" using h(2) by simp_all
  from aivHeapShrink_correct [OF h(1) this] show ?thesis using h(1) by (metis of_nat_numeral)
qed

text \<open>C26. The accounting is reduced by the requested difference although the block keeps its size: when the only allocation of a heap is shrunk
  by a few bytes, freeing it afterwards is refused as a corrupted heap and the block can never be given back.\<close>

theorem aivHeap_shrink_then_free_fails:
  assumes inv: "aiv_inv h (xs @ (p, s, KAlloc n) # ys)" and cnt: "counted h (xs @ (p, s, KAlloc n) # ys)" and single: "live (xs @ ys) = 0"
    and l: "heapLimit h \<noteq> 0" and m: "0 < m" "m < n" "s - m \<le> 64"
  shows "\<exists>h'. heapSetAllocSize aivBaseHeap (Some h) (Some (handle_of h p)) (of_nat m) = Some (STATUS_SUCCESS, Some (handle_of h p), Some h') \<and>
    heapFree aivBaseHeap (Some h') (handle_of h p) = Some (STATUS_HEAP_CORRUPTED, Some h')"
proof -
  obtain h' where h': "heapSetAllocSize aivBaseHeap (Some h) (Some (handle_of h p)) (of_nat m) = Some (STATUS_SUCCESS, Some (handle_of h p), Some h')"
    "aiv_inv h' (shrunk xs p s m ys)" "unat (heapSize h') = unat (heapSize h) - (n - m)" "heapLimit h' = heapLimit h" "pAllocation h' = pAllocation h"
    by (rule shrink_run [OF inv l m(1,2)]) blast
  have inv': "aiv_inv h' (xs @ (p, s, KAlloc m) # ys)" and l': "heapLimit h' \<noteq> 0" using h'(2,4) m(3) l by (simp_all add: shrunk_def)
  have hd: "handle_of h' p = handle_of h p" using h'(5) by (simp add: handle_of_def base_def)
  have "used (xs @ ys) = 0" using single live_zero_used by blast
  then have "unat (heapSize h) = 48 + s" using counted_size(1) [OF inv cnt] by simp
  then have "\<not> 48 + s \<le> unat (heapSize h')" using h'(3) m by simp
  from free_refused [OF inv' l' this] have "aivHeapFree (Some h') (handle_of h p) = Some (STATUS_HEAP_CORRUPTED, Some h')" by (simp add: hd)
  moreover have "handle_of h p \<noteq> 0"
  proof -
    obtain fs as where "heap_shape h (xs @ (p, s, KAlloc n) # ys) fs as" "small_heap h" by (rule aiv_invE [OF inv])
    then show ?thesis using alloc_valid(6) [of h "xs @ (p, s, KAlloc n) # ys" fs as p s n] by simp
  qed
  ultimately show ?thesis using h'(1)
    by (auto simp: heapFree_def IS_VALID_ALLOCATION_HANDLE_def INVALID_ALLOCATION_HANDLE_VALUE_def aivBaseHeap_def)
qed

theorem aivHeap_shrink_then_free_fails_witness:
  "\<exists>h p xs s ys h'. aiv_inv h (xs @ (p, s, KAlloc 100) # ys) \<and>
    heapSetAllocSize aivBaseHeap (Some h) (Some (handle_of h p)) 90 = Some (STATUS_SUCCESS, Some (handle_of h p), Some h') \<and>
    heapFree aivBaseHeap (Some h') (handle_of h p) = Some (STATUS_HEAP_CORRUPTED, Some h')"
proof -
  obtain h where h: "aiv_inv h ([] @ (0x5000, 100, KAlloc 100) # [(0x5094, 1048380, KFree)])"
    "counted h ([] @ (0x5000, 100, KAlloc 100) # [(0x5094, 1048380, KFree)])" "heapLimit h = 0x100000"
    using one_allocation by fastforce
  have "live ([] @ [(0x5094, 1048380, KFree)]) = 0" "heapLimit h \<noteq> 0" "(0 :: nat) < 90" "(90 :: nat) < 100" "100 - 90 \<le> (64 :: nat)" using h(3) by simp_all
  from aivHeap_shrink_then_free_fails [OF h(1,2) this] show ?thesis using h(1) by (metis of_nat_numeral)
qed

end
