(* ===== verification/Strings.thy ===== *)
theory Strings
  imports Codecs "HOL-Library.Monad_Syntax"
begin

text \<open>
  The string utilities of \<open>utils/src/String.c\<close>: conversion between numbers and strings, character search, trimming,
  case conversion and the Rabin-Karp search.

  A \<open>PCHAR\<close> is the list of the bytes from the position it points to up to the end of the memory object, and a
  pointer into that object is the offset from there. The value \<open>None\<close> of a function is an access outside of the object.
  A \<open>CHAR\<close> is signed.
\<close>

abbreviation (input) MAX_STRING_CONVERSION_BASE :: UINT32 where "MAX_STRING_CONVERSION_BASE \<equiv> 36"
abbreviation (input) MAX_UINT32 :: UINT32 where "MAX_UINT32 \<equiv> 0xffffffff"

subsection \<open>What the code uses of the C library\<close>

definition peek :: "BYTE list \<Rightarrow> nat \<Rightarrow> BYTE option" where
  "peek s i = (if i < length s then Some (s ! i) else None)"

definition poke :: "BYTE list \<Rightarrow> nat \<Rightarrow> BYTE \<Rightarrow> BYTE list option" where
  "poke s i b = (if i < length s then Some (s[i := b]) else None)"

definition c_strlen :: "BYTE list \<Rightarrow> nat option" where
  "c_strlen s = (if STRLEN s < length s then Some (STRLEN s) else None)"

definition c_strnlen :: "BYTE list \<Rightarrow> nat \<Rightarrow> nat option" where
  "c_strnlen s n = (if STRLEN s < length s \<or> n \<le> length s then Some (min (STRLEN s) n) else None)"

text \<open>Whether \<open>STRNCMP\<close> returns 0.\<close>

fun strncmp_eq :: "BYTE list \<Rightarrow> BYTE list \<Rightarrow> nat \<Rightarrow> bool option" where
  "strncmp_eq _ _ 0 = Some True"
| "strncmp_eq (a # as) (b # bs) (Suc n) = (if a \<noteq> b then Some False else if a = 0 then Some True else strncmp_eq as bs n)"
| "strncmp_eq _ _ (Suc n) = None"

definition IS_WHITE_SPACE :: "BYTE \<Rightarrow> bool" where
  "IS_WHITE_SPACE ch \<longleftrightarrow> ch = byte_of CHR '' '' \<or> ch = 9 \<or> ch = 13 \<or> ch = 10 \<or> ch = 11 \<or> ch = 12"

definition c_tolower :: "BYTE \<Rightarrow> BYTE" where
  "c_tolower c = (if byte_of CHR ''A'' \<le> c \<and> c \<le> byte_of CHR ''Z'' then c + 32 else c)"

definition c_toupper :: "BYTE \<Rightarrow> BYTE" where
  "c_toupper c = (if byte_of CHR ''a'' \<le> c \<and> c \<le> byte_of CHR ''z'' then c - 32 else c)"

subsection \<open>Numbers to strings\<close>

definition ALPHA_NUM :: "BYTE list" where
  "ALPHA_NUM = map byte_of ''0123456789abcdefghijklmnopqrstuvwxyz''"

text \<open>The digit loop: \<open>Inl\<close> is its early return with the buffer as it is then.\<close>

partial_function (option) ulltostrLoop ::
  "UINT64 \<Rightarrow> UINT32 \<Rightarrow> UINT64 \<Rightarrow> UINT32 \<Rightarrow> BYTE list \<Rightarrow> (BYTE list + UINT32 \<times> BYTE list) option" where
  [code]: "ulltostrLoop base sz value curSize pStr =
     (if value = 0 then Some (Inr (curSize, pStr))
      else if curSize \<ge> sz - 1 then Some (Inl pStr)
      else do {
        ch \<leftarrow> peek ALPHA_NUM (unat (value mod base));
        pStr \<leftarrow> poke pStr (unat curSize) ch;
        ulltostrLoop base sz (value div base) (curSize + 1) pStr
      })"

function swapLoop :: "nat \<Rightarrow> nat \<Rightarrow> BYTE list \<Rightarrow> BYTE list option" where
  "swapLoop curSize i pStr =
     (if i < curSize div 2 then do {
        ch \<leftarrow> peek pStr i;
        other \<leftarrow> peek pStr (curSize - i - 1);
        pStr \<leftarrow> poke pStr i other;
        pStr \<leftarrow> poke pStr (curSize - i - 1) ch;
        swapLoop curSize (Suc i) pStr
      } else Some pStr)"
  by pat_completeness auto
termination by (relation "measure (\<lambda>(n, i, s). n - i)") auto

declare swapLoop.simps [simp del]

definition ulltostr ::
  "UINT64 \<Rightarrow> BYTE list option \<Rightarrow> UINT32 \<Rightarrow> UINT32 \<Rightarrow> (STATUS \<times> BYTE list option \<times> UINT32 option) option" where
  "ulltostr value pStr sz base =
     (case pStr of None \<Rightarrow> Some (STATUS_NULL_ARG, None, None)
      | Some s \<Rightarrow>
          if \<not> sz \<ge> 2 then Some (STATUS_BUFFER_TOO_SMALL, Some s, None)
          else if \<not> (base \<ge> 2 \<and> base \<le> MAX_STRING_CONVERSION_BASE) then Some (STATUS_INVALID_BASE, Some s, None)
          else if value = 0 then do {
            s \<leftarrow> poke s 0 (byte_of CHR ''0'');
            s \<leftarrow> poke s 1 0;
            Some (STATUS_SUCCESS, Some s, Some 1)
          }
          else do {
            r \<leftarrow> ulltostrLoop (ucast base) sz value 0 s;
            case r of Inl s \<Rightarrow> Some (STATUS_BUFFER_TOO_SMALL, Some s, None)
            | Inr (curSize, s) \<Rightarrow> do {
                s \<leftarrow> swapLoop (unat curSize) 0 s;
                s \<leftarrow> poke s (unat curSize) 0;
                Some (STATUS_SUCCESS, Some s, Some curSize)
              }
          })"

definition ultostr ::
  "UINT32 \<Rightarrow> BYTE list option \<Rightarrow> UINT32 \<Rightarrow> UINT32 \<Rightarrow> (STATUS \<times> BYTE list option \<times> UINT32 option) option" where
  "ultostr value pStr sz base = ulltostr (ucast value) pStr sz base"

subsection \<open>Strings to numbers\<close>

definition unsignedSafeMultiplyAdd :: "UINT64 \<Rightarrow> UINT64 \<Rightarrow> UINT64 \<Rightarrow> bool \<Rightarrow> STATUS \<times> UINT64 option" where
  "unsignedSafeMultiplyAdd multiplicand multiplier addend pResult =
     (if \<not> pResult then (STATUS_NULL_ARG, None)
      else if multiplicand = 0 \<or> multiplier = 0 then (STATUS_SUCCESS, Some addend)
      else
        let multiplicandLo = multiplicand AND 0x00000000ffffffff;
            multiplicandHi = drop_bit 32 (multiplicand AND 0xffffffff00000000);
            multiplierLo = multiplier AND 0x00000000ffffffff;
            multiplierHi = drop_bit 32 (multiplier AND 0xffffffff00000000)
        in if multiplicandHi \<noteq> 0 \<and> multiplierHi \<noteq> 0 then (STATUS_INT_OVERFLOW, Some 0)
           else
             let intermediate = multiplicandHi * multiplierLo + multiplicandLo * multiplierHi
             in if intermediate > 0x00000000ffffffff then (STATUS_INT_OVERFLOW, Some 0)
                else
                  let intermediate = push_bit 32 intermediate;
                      result = intermediate + multiplicandLo * multiplierLo
                  in if result < intermediate then (STATUS_INT_OVERFLOW, Some 0)
                     else
                       let sum = result + addend
                       in if sum < result then (STATUS_INT_OVERFLOW, Some 0) else (STATUS_SUCCESS, Some sum))"

definition charDigit :: "BYTE \<Rightarrow> UINT64 option" where
  "charDigit curChar =
     (if sint curChar \<ge> 48 \<and> sint curChar \<le> 57 then Some (of_int (sint curChar - 48))
      else if sint curChar \<ge> 97 \<and> sint curChar \<le> 122 then Some (of_int (sint curChar - 97) + 10)
      else if sint curChar \<ge> 65 \<and> sint curChar \<le> 90 then Some (of_int (sint curChar - 65) + 10)
      else None)"

text \<open>The loop of \<open>strtoint\<close> from the offset \<open>pCur\<close>. The overflow check writes 0 to the result before it fails; the result is not used then.\<close>

function strtointLoop ::
  "BYTE list \<Rightarrow> int option \<Rightarrow> UINT32 \<Rightarrow> nat \<Rightarrow> bool \<Rightarrow> UINT64 \<Rightarrow> (STATUS \<times> bool \<times> UINT64) option" where
  "strtointLoop s pEnd base pCur seenChars result =
     (if pEnd = Some (int pCur) then Some (STATUS_SUCCESS, seenChars, result)
      else if pCur < length s then
        let curChar = s ! pCur
        in if curChar = 0 then Some (STATUS_SUCCESS, seenChars, result)
           else case charDigit curChar of
             None \<Rightarrow> Some (STATUS_INVALID_DIGIT, seenChars, result)
           | Some digit \<Rightarrow>
               if \<not> digit < ucast base then Some (STATUS_INVALID_BASE, True, result)
               else case unsignedSafeMultiplyAdd result (ucast base) digit True of
                 (st, r) \<Rightarrow>
                   if STATUS_FAILED st then Some (st, True, the r)
                   else strtointLoop s pEnd base (Suc pCur) True (the r)
      else None)"
  by pat_completeness auto
termination by (relation "measure (\<lambda>(s, e, b, p, c, r). length s - p)") auto

declare strtointLoop.simps [simp del]

definition strtoint ::
  "BYTE list option \<Rightarrow> int option \<Rightarrow> UINT32 \<Rightarrow> bool \<Rightarrow> bool \<Rightarrow> (STATUS \<times> (UINT64 \<times> bool) option) option" where
  "strtoint pStart pEnd base pRet pSign =
     (case pStart of None \<Rightarrow> Some (STATUS_NULL_ARG, None)
      | Some s \<Rightarrow>
          if \<not> (pRet \<and> pSign) then Some (STATUS_NULL_ARG, None)
          else if \<not> (pEnd = None \<or> the pEnd \<ge> 0) then Some (STATUS_INVALID_ARG, None)
          else if \<not> (base \<ge> 2 \<and> base \<le> MAX_STRING_CONVERSION_BASE) then Some (STATUS_INVALID_BASE, None)
          else do {
            c \<leftarrow> peek s 0;
            let positive = (c \<noteq> byte_of CHR ''-'');
            (st, seenChars, result) \<leftarrow> strtointLoop s pEnd base (if c = byte_of CHR ''-'' \<or> c = byte_of CHR ''+'' then 1 else 0) False 0;
            if STATUS_FAILED st then Some (st, None)
            else if \<not> seenChars then Some (STATUS_EMPTY_STRING, None)
            else Some (STATUS_SUCCESS, Some (if positive then result else - result, positive))
          })"

text \<open>A signed result is given as the integer it stands for.\<close>

definition strtoi64 :: "BYTE list option \<Rightarrow> int option \<Rightarrow> UINT32 \<Rightarrow> bool \<Rightarrow> (STATUS \<times> int option) option" where
  "strtoi64 pStart pEnd base pRet =
     (if \<not> pRet then Some (STATUS_NULL_ARG, None)
      else do {
        (st, r) \<leftarrow> strtoint pStart pEnd base True True;
        case r of None \<Rightarrow> Some (st, None)
        | Some (result, sign) \<Rightarrow>
            if (if sign then sint result \<ge> 0 else sint result \<le> 0) then Some (STATUS_SUCCESS, Some (sint result))
            else Some (STATUS_INT_OVERFLOW, None)
      })"

definition strtoui64 :: "BYTE list option \<Rightarrow> int option \<Rightarrow> UINT32 \<Rightarrow> bool \<Rightarrow> (STATUS \<times> UINT64 option) option" where
  "strtoui64 pStart pEnd base pRet =
     (if \<not> pRet then Some (STATUS_NULL_ARG, None)
      else do {
        (st, r) \<leftarrow> strtoint pStart pEnd base True True;
        case r of None \<Rightarrow> Some (st, None)
        | Some (result, sign) \<Rightarrow> if sign then Some (STATUS_SUCCESS, Some result) else Some (STATUS_INVALID_DIGIT, None)
      })"

definition strtoi32 :: "BYTE list option \<Rightarrow> int option \<Rightarrow> UINT32 \<Rightarrow> bool \<Rightarrow> (STATUS \<times> int option) option" where
  "strtoi32 pStart pEnd base pRet =
     (if \<not> pRet then Some (STATUS_NULL_ARG, None)
      else do {
        (st, r) \<leftarrow> strtoi64 pStart pEnd base True;
        case r of None \<Rightarrow> Some (st, None)
        | Some result \<Rightarrow>
            if result \<ge> - (2 ^ 31) \<and> result \<le> 2 ^ 31 - 1 then Some (STATUS_SUCCESS, Some result) else Some (STATUS_INT_OVERFLOW, None)
      })"

definition strtoui32 :: "BYTE list option \<Rightarrow> int option \<Rightarrow> UINT32 \<Rightarrow> bool \<Rightarrow> (STATUS \<times> UINT32 option) option" where
  "strtoui32 pStart pEnd base pRet =
     (if \<not> pRet then Some (STATUS_NULL_ARG, None)
      else do {
        (st, r) \<leftarrow> strtoui64 pStart pEnd base True;
        case r of None \<Rightarrow> Some (st, None)
        | Some result \<Rightarrow> if result \<le> ucast MAX_UINT32 then Some (STATUS_SUCCESS, Some (ucast result)) else Some (STATUS_INT_OVERFLOW, None)
      })"

subsection \<open>Search, trimming and case\<close>

text \<open>\<open>Some None\<close> is the result \<open>NULL\<close>.\<close>

function strnchrLoop :: "BYTE list \<Rightarrow> UINT32 \<Rightarrow> BYTE \<Rightarrow> nat \<Rightarrow> UINT32 \<Rightarrow> nat option option" where
  "strnchrLoop s strLen ch p i =
     (if p < length s then
        if s ! p = ch then Some (Some p)
        else if s ! p = 0 \<or> i = strLen - 1 then Some None
        else strnchrLoop s strLen ch (Suc p) (i + 1)
      else None)"
  by pat_completeness auto
termination by (relation "measure (\<lambda>(s, l, c, p, i). length s - p)") auto

declare strnchrLoop.simps [simp del]

definition strnchr :: "BYTE list option \<Rightarrow> UINT32 \<Rightarrow> BYTE \<Rightarrow> nat option option" where
  "strnchr pStr strLen ch =
     (case pStr of None \<Rightarrow> Some None | Some s \<Rightarrow> if strLen = 0 then Some None else strnchrLoop s strLen ch 0 0)"

function ltrimLoop :: "BYTE list \<Rightarrow> UINT32 \<Rightarrow> nat \<Rightarrow> UINT32 \<Rightarrow> nat option" where
  "ltrimLoop s strLen p i =
     (if i < strLen then
        if p < length s then
          if s ! p = 0 then Some p
          else if IS_WHITE_SPACE (s ! p) then ltrimLoop s strLen (Suc p) (i + 1) else Some p
        else None
      else Some p)"
  by pat_completeness auto
termination by (relation "measure (\<lambda>(s, l, p, i). length s - p)") auto

declare ltrimLoop.simps [simp del]

definition ltrimstr :: "BYTE list option \<Rightarrow> UINT32 \<Rightarrow> bool \<Rightarrow> (STATUS \<times> nat option) option" where
  "ltrimstr pStr strLen ppStart =
     (case pStr of None \<Rightarrow> Some (STATUS_NULL_ARG, None)
      | Some s \<Rightarrow>
          if \<not> ppStart then Some (STATUS_NULL_ARG, None)
          else do {
            c \<leftarrow> peek s 0;
            if c = 0 then Some (STATUS_SUCCESS, Some 0)
            else do {
              p \<leftarrow> ltrimLoop s (if strLen = 0 then MAX_UINT32 else strLen) 0 0;
              Some (STATUS_SUCCESS, Some p)
            }
          })"

fun rtrimLoop :: "BYTE list \<Rightarrow> nat \<Rightarrow> nat option" where
  "rtrimLoop s 0 = Some 0"
| "rtrimLoop s (Suc p) = do { c \<leftarrow> peek s p; if IS_WHITE_SPACE c then rtrimLoop s p else Some (Suc p) }"

definition rtrimstr :: "BYTE list option \<Rightarrow> UINT32 \<Rightarrow> bool \<Rightarrow> (STATUS \<times> nat option) option" where
  "rtrimstr pStr strLen ppEnd =
     (case pStr of None \<Rightarrow> Some (STATUS_NULL_ARG, None)
      | Some s \<Rightarrow>
          if \<not> ppEnd then Some (STATUS_NULL_ARG, None)
          else do {
            c \<leftarrow> peek s 0;
            if c = 0 then Some (STATUS_SUCCESS, Some 0)
            else do {
              n \<leftarrow> (if strLen = 0 then map_option (\<lambda>n. of_nat n) (c_strlen s) else Some strLen);
              p \<leftarrow> rtrimLoop s (unat n);
              Some (STATUS_SUCCESS, Some p)
            }
          })"

text \<open>The results are the two offsets, as far as they are written.\<close>

definition trimstrall :: "BYTE list option \<Rightarrow> UINT32 \<Rightarrow> bool \<Rightarrow> bool \<Rightarrow> (STATUS \<times> nat option \<times> nat option) option" where
  "trimstrall pStr strLen ppStart ppEnd = do {
     (st, start) \<leftarrow> ltrimstr pStr strLen ppStart;
     case start of None \<Rightarrow> Some (st, None, None)
     | Some start \<Rightarrow>
         let strLen' = (if strLen \<noteq> 0 then strLen - of_nat start else 0)
         in if strLen \<noteq> 0 \<and> strLen' = 0 then
              if \<not> ppEnd then Some (STATUS_NULL_ARG, Some start, None) else Some (STATUS_SUCCESS, Some start, Some start)
            else do {
              (st, end) \<leftarrow> rtrimstr (map_option (drop start) pStr) strLen' ppEnd;
              Some (st, Some start, map_option (\<lambda>e. start + e) end)
            }
   }"

text \<open>The conversion loop; its result has the final value of \<open>i\<close> and of the destination pointer.\<close>

function convertLoop :: "BYTE list \<Rightarrow> UINT32 \<Rightarrow> bool \<Rightarrow> nat \<Rightarrow> UINT32 \<Rightarrow> BYTE list \<Rightarrow> (UINT32 \<times> nat \<times> BYTE list) option" where
  "convertLoop s strLen toUpper p i d =
     (if i < strLen then
        if p < length s then
          if s ! p = 0 then Some (i + 1, p, d)
          else if p < length d
          then convertLoop s strLen toUpper (Suc p) (i + 1) (d[p := (if toUpper then c_toupper (s ! p) else c_tolower (s ! p))])
          else None
        else None
      else Some (i + 1, p, d))"
  by pat_completeness auto
termination by (relation "measure (\<lambda>(s, l, u, p, i, d). length s - p)") auto

declare convertLoop.simps [simp del]

definition tolowerupperstr ::
  "BYTE list option \<Rightarrow> UINT32 \<Rightarrow> bool \<Rightarrow> BYTE list option \<Rightarrow> (STATUS \<times> BYTE list option) option" where
  "tolowerupperstr pStr strLen toUpper pConverted =
     (case (pStr, pConverted) of
        (Some s, Some d) \<Rightarrow> do {
          c \<leftarrow> peek s 0;
          let len = (if c = 0 then strLen else if strLen = 0 then MAX_UINT32 else strLen);
          (i, p, d) \<leftarrow> (if c = 0 then Some (0, 0, d) else convertLoop s len toUpper 0 0 d);
          d \<leftarrow> (if i < len then poke d p 0 else Some d);
          Some (STATUS_SUCCESS, Some d)
        }
      | (None, Some d) \<Rightarrow> do { d \<leftarrow> (if 0 < strLen then poke d 0 0 else Some d); Some (STATUS_NULL_ARG, Some d) }
      | (_, None) \<Rightarrow> Some (STATUS_NULL_ARG, None))"

definition tolowerstr :: "BYTE list option \<Rightarrow> UINT32 \<Rightarrow> BYTE list option \<Rightarrow> (STATUS \<times> BYTE list option) option" where
  "tolowerstr pStr strLen pConverted = tolowerupperstr pStr strLen False pConverted"

definition toupperstr :: "BYTE list option \<Rightarrow> UINT32 \<Rightarrow> BYTE list option \<Rightarrow> (STATUS \<times> BYTE list option) option" where
  "toupperstr pStr strLen pConverted = tolowerupperstr pStr strLen True pConverted"

subsection \<open>Rabin-Karp search\<close>

definition prime :: UINT32 where "prime = 16777619"

definition windowHash :: "BYTE list \<Rightarrow> UINT32" where
  "windowHash s = foldl (\<lambda>h c. h * prime + scast c) 0 s"

function powerLoop :: "UINT32 \<Rightarrow> UINT32 \<Rightarrow> UINT32 \<Rightarrow> UINT32" where
  "powerLoop i square pow =
     (if i > 0 then powerLoop (i div 2) (square * square) (if i mod 2 \<noteq> 0 then pow * square else pow) else pow)"
  by pat_completeness auto
termination by (relation "measure (\<lambda>(i, s, p). unat i)") (auto simp: unat_div unat_gt_0 word_neq_0_conv)

declare powerLoop.simps [simp del]

text \<open>The loop that slides the window; the window ends before the offset \<open>i\<close>.\<close>

function slideLoop :: "BYTE list \<Rightarrow> BYTE list \<Rightarrow> nat \<Rightarrow> nat \<Rightarrow> UINT32 \<Rightarrow> UINT32 \<Rightarrow> nat \<Rightarrow> UINT32 \<Rightarrow> nat option option" where
  "slideLoop haystack needle haystackSize needleSize pow needleHash i hash =
     (if i < haystackSize then do {
        oldest \<leftarrow> peek haystack (i - needleSize);
        new \<leftarrow> peek haystack i;
        let hash = (hash - scast oldest * pow) * prime + scast new;
        same \<leftarrow> (if hash = needleHash then strncmp_eq (drop (Suc i - needleSize) haystack) needle needleSize else Some False);
        if same then Some (Some (Suc i - needleSize))
        else slideLoop haystack needle haystackSize needleSize pow needleHash (Suc i) hash
      } else Some None)"
  by pat_completeness auto
termination by (relation "measure (\<lambda>(h, n, hs, ns, p, nh, i, w). hs - i)") auto

declare slideLoop.simps [simp del]

text \<open>The sizes are cast to 32 bits.\<close>

definition defaultStrnstr :: "BYTE list option \<Rightarrow> BYTE list option \<Rightarrow> nat \<Rightarrow> nat option option" where
  "defaultStrnstr haystack needle len =
     (case (haystack, needle) of
        (None, _) \<Rightarrow> Some None
      | (Some h, None) \<Rightarrow> Some (Some 0)
      | (Some h, Some n) \<Rightarrow> do {
          haystackSize \<leftarrow> map_option (\<lambda>k. of_nat k :: UINT32) (c_strnlen h len);
          needleSize \<leftarrow> map_option (\<lambda>k. of_nat k :: UINT32) (c_strlen n);
          if needleSize > haystackSize then Some None
          else do {
            let hash = windowHash (take (unat needleSize) h);
            let needleHash = windowHash (take (unat needleSize) n);
            same \<leftarrow> (if hash = needleHash then strncmp_eq h n (unat needleSize) else Some False);
            if same then Some (Some 0)
            else slideLoop h n (unat haystackSize) (unat needleSize) (powerLoop (needleSize - 1) prime 1) needleHash (unat needleSize) hash
          }
        })"

end
