(* ===== verification/AckParser.thy ===== *)
theory AckParser
  imports ClientState Strings
begin

text \<open>
  The parser of fragment acknowledgements, \<open>client/src/AckParser.c\<close>: a state machine over the characters of the
  segments that arrive from the service. A finished ACK is given to \<open>streamFragmentAckEvent\<close>, which is an argument here: any function
  on the stream. The value \<open>None\<close> of an operation is an access outside of an array. The state of the parser is kept in the stream between the
  segments, and so is not the nesting level, a local variable of \<open>parseFragmentAck\<close>.
\<close>

type_synonym UPLOAD_HANDLE = UINT64

definition INVALID_UPLOAD_HANDLE_VALUE :: UPLOAD_HANDLE where "INVALID_UPLOAD_HANDLE_VALUE = 0xFFFFFFFFFFFFFFFF"
definition IS_VALID_UPLOAD_HANDLE :: "UPLOAD_HANDLE \<Rightarrow> bool" where "IS_VALID_UPLOAD_HANDLE h \<longleftrightarrow> h \<noteq> INVALID_UPLOAD_HANDLE_VALUE"
definition INVALID_TIMESTAMP_VALUE :: UINT64 where "INVALID_TIMESTAMP_VALUE = 0xFFFFFFFFFFFFFFFF"
definition IS_VALID_TIMESTAMP :: "UINT64 \<Rightarrow> bool" where "IS_VALID_TIMESTAMP t \<longleftrightarrow> t \<noteq> INVALID_TIMESTAMP_VALUE"
abbreviation (input) MAX_FRAGMENT_SEQUENCE_NUMBER :: nat where "MAX_FRAGMENT_SEQUENCE_NUMBER \<equiv> 128"
abbreviation (input) MAX_ACK_FRAGMENT_LEN :: nat where "MAX_ACK_FRAGMENT_LEN \<equiv> 1024"
abbreviation (input) FRAGMENT_ACK_CURRENT_VERSION :: UINT32 where "FRAGMENT_ACK_CURRENT_VERSION \<equiv> 0"

datatype FRAGMENT_ACK_TYPE =
    FRAGMENT_ACK_TYPE_UNDEFINED
  | FRAGMENT_ACK_TYPE_BUFFERING
  | FRAGMENT_ACK_TYPE_RECEIVED
  | FRAGMENT_ACK_TYPE_PERSISTED
  | FRAGMENT_ACK_TYPE_ERROR
  | FRAGMENT_ACK_TYPE_IDLE

record FragmentAck =
  fa_version :: UINT32
  fa_ackType :: FRAGMENT_ACK_TYPE
  fa_timestamp :: UINT64
  fa_sequenceNumber :: "BYTE list"
  fa_result :: SERVICE_CALL_RESULT

datatype FRAGMENT_ACK_PARSER_STATE =
    FRAGMENT_ACK_PARSER_STATE_START
  | FRAGMENT_ACK_PARSER_STATE_ACK_START
  | FRAGMENT_ACK_PARSER_STATE_KEY_START
  | FRAGMENT_ACK_PARSER_STATE_DELIMITER
  | FRAGMENT_ACK_PARSER_STATE_BODY_START
  | FRAGMENT_ACK_PARSER_STATE_SKIP_BODY_BRACE_END
  | FRAGMENT_ACK_PARSER_STATE_SKIP_BODY_BRACKET_END
  | FRAGMENT_ACK_PARSER_STATE_TEXT_VALUE
  | FRAGMENT_ACK_PARSER_STATE_NUMERIC_VALUE
  | FRAGMENT_ACK_PARSER_STATE_VALUE_END

datatype FRAGMENT_ACK_KEY_NAME =
    FRAGMENT_ACK_KEY_NAME_EVENT_TYPE
  | FRAGMENT_ACK_KEY_NAME_FRAGMENT_NUMBER
  | FRAGMENT_ACK_KEY_NAME_FRAGMENT_TIMECODE
  | FRAGMENT_ACK_KEY_NAME_ERROR_ID
  | FRAGMENT_ACK_KEY_NAME_UNKNOWN

text \<open>The array \<open>keys\<close> is the function from its indices.\<close>

record FragmentAckParser =
  fap_state :: FRAGMENT_ACK_PARSER_STATE
  fap_uploadHandle :: UPLOAD_HANDLE
  fap_fragmentAck :: FragmentAck
  fap_curKeyName :: FRAGMENT_ACK_KEY_NAME
  fap_curPos :: UINT32
  fap_keys :: "FRAGMENT_ACK_KEY_NAME \<Rightarrow> bool"
  fap_accumulator :: "BYTE list"

text \<open>What the parser uses of the stream; \<open>kvs_lock\<close> counts the acquisitions of the recursive lock of the stream.\<close>

record KinesisVideoStream =
  kvs_fragmentAckParser :: FragmentAckParser
  kvs_lock :: nat

abbreviation (input) ACK_PARSER_OPEN_BRACE :: BYTE where "ACK_PARSER_OPEN_BRACE \<equiv> 123"
abbreviation (input) ACK_PARSER_CLOSE_BRACE :: BYTE where "ACK_PARSER_CLOSE_BRACE \<equiv> 125"
abbreviation (input) ACK_PARSER_OPEN_BRACKET :: BYTE where "ACK_PARSER_OPEN_BRACKET \<equiv> 91"
abbreviation (input) ACK_PARSER_CLOSE_BRACKET :: BYTE where "ACK_PARSER_CLOSE_BRACKET \<equiv> 93"
abbreviation (input) ACK_PARSER_QUOTE :: BYTE where "ACK_PARSER_QUOTE \<equiv> 34"
abbreviation (input) ACK_PARSER_DELIMITER :: BYTE where "ACK_PARSER_DELIMITER \<equiv> 58"
abbreviation (input) ACK_PARSER_COMMA :: BYTE where "ACK_PARSER_COMMA \<equiv> 44"

definition IS_ACK_START_OF_NUMERIC_VALUE :: "BYTE \<Rightarrow> bool" where
  "IS_ACK_START_OF_NUMERIC_VALUE ch \<longleftrightarrow> ch = byte_of CHR ''-'' \<or> ch = byte_of CHR ''+'' \<or> ch = byte_of CHR ''.'' \<or>
     (sint ch \<ge> 48 \<and> sint ch \<le> 57) \<or> (sint ch \<ge> 97 \<and> sint ch \<le> 122) \<or> (sint ch \<ge> 65 \<and> sint ch \<le> 90)"

subsection \<open>Reset\<close>

definition initial_parser :: FragmentAckParser where
  "initial_parser = \<lparr>fap_state = FRAGMENT_ACK_PARSER_STATE_START, fap_uploadHandle = INVALID_UPLOAD_HANDLE_VALUE,
     fap_fragmentAck = \<lparr>fa_version = FRAGMENT_ACK_CURRENT_VERSION, fa_ackType = FRAGMENT_ACK_TYPE_UNDEFINED, fa_timestamp = INVALID_TIMESTAMP_VALUE,
       fa_sequenceNumber = replicate (MAX_FRAGMENT_SEQUENCE_NUMBER + 1) 0, fa_result = SERVICE_CALL_RESULT_OK\<rparr>,
     fap_curKeyName = FRAGMENT_ACK_KEY_NAME_UNKNOWN, fap_curPos = 0, fap_keys = (\<lambda>_. False),
     fap_accumulator = replicate (MAX_ACK_FRAGMENT_LEN + 1) 0\<rparr>"

definition resetAckParserState :: "'x KinesisVideoStream_scheme option \<Rightarrow> STATUS \<times> 'x KinesisVideoStream_scheme option" where
  "resetAckParserState pKinesisVideoStream =
     (case pKinesisVideoStream of None \<Rightarrow> (STATUS_NULL_ARG, None)
      | Some s \<Rightarrow> (STATUS_SUCCESS, Some (s\<lparr>kvs_fragmentAckParser := initial_parser\<rparr>)))"

subsection \<open>Names and values\<close>

text \<open>The comparison of a C string with a literal, its terminator included.\<close>

definition is_literal :: "string \<Rightarrow> BYTE list \<Rightarrow> bool option" where
  "is_literal name s = strncmp_eq (map byte_of name @ [0]) s (length name + 1)"

definition getFragmentAckType :: "BYTE list \<Rightarrow> FRAGMENT_ACK_TYPE option" where
  "getFragmentAckType eventType = do {
     buffering \<leftarrow> is_literal ''BUFFERING'' eventType;
     if buffering then Some FRAGMENT_ACK_TYPE_BUFFERING else do {
     received \<leftarrow> is_literal ''RECEIVED'' eventType;
     if received then Some FRAGMENT_ACK_TYPE_RECEIVED else do {
     persisted \<leftarrow> is_literal ''PERSISTED'' eventType;
     if persisted then Some FRAGMENT_ACK_TYPE_PERSISTED else do {
     error \<leftarrow> is_literal ''ERROR'' eventType;
     if error then Some FRAGMENT_ACK_TYPE_ERROR else do {
     idle \<leftarrow> is_literal ''IDLE'' eventType;
     if idle then Some FRAGMENT_ACK_TYPE_IDLE else Some FRAGMENT_ACK_TYPE_UNDEFINED }}}}}"

definition getFragmentAckKeyName :: "BYTE list \<Rightarrow> FRAGMENT_ACK_KEY_NAME option" where
  "getFragmentAckKeyName keyName = do {
     eventType \<leftarrow> is_literal ''EventType'' keyName;
     if eventType then Some FRAGMENT_ACK_KEY_NAME_EVENT_TYPE else do {
     fragmentNumber \<leftarrow> is_literal ''FragmentNumber'' keyName;
     if fragmentNumber then Some FRAGMENT_ACK_KEY_NAME_FRAGMENT_NUMBER else do {
     timecode \<leftarrow> is_literal ''FragmentTimecode'' keyName;
     if timecode then Some FRAGMENT_ACK_KEY_NAME_FRAGMENT_TIMECODE else do {
     errorId \<leftarrow> is_literal ''ErrorId'' keyName;
     if errorId then Some FRAGMENT_ACK_KEY_NAME_ERROR_ID else Some FRAGMENT_ACK_KEY_NAME_UNKNOWN }}}}"

text \<open>The cases of \<open>getAckErrorTypeFromErrorId\<close> that are kept; the enumeration is 32 bits wide.\<close>

definition known_ack_errors :: "SERVICE_CALL_RESULT list" where
  "known_ack_errors = [4000, 4001, 4002, 4003, 4004, 4005, 4006, 4007, 4008, 4009, 4010, 4011, 4012,
     4500, 4501, 4502, 4503, 4504, 4505, 4506, 4507, 5000, 5001]"

abbreviation (input) SERVICE_CALL_RESULT_UNKNOWN_ACK_ERROR :: SERVICE_CALL_RESULT where
  "SERVICE_CALL_RESULT_UNKNOWN_ACK_ERROR \<equiv> 7000"

definition getAckErrorTypeFromErrorId :: "UINT64 \<Rightarrow> SERVICE_CALL_RESULT" where
  "getAckErrorTypeFromErrorId errorId =
     (let callResult = ucast errorId
      in if callResult \<in> set known_ack_errors then callResult else SERVICE_CALL_RESULT_UNKNOWN_ACK_ERROR)"

text \<open>\<open>STRNCPY\<close> of \<open>n\<close> characters to the start of \<open>dst\<close>: the string, padded with zeroes.\<close>

definition c_strncpy :: "BYTE list \<Rightarrow> BYTE list \<Rightarrow> nat \<Rightarrow> BYTE list option" where
  "c_strncpy dst src n = do {
     k \<leftarrow> c_strnlen src n;
     if n \<le> length dst then Some (take k src @ replicate (n - k) 0 @ drop n dst) else None
   }"

definition processAckValue :: "FragmentAckParser option \<Rightarrow> (STATUS \<times> FragmentAckParser option) option" where
  "processAckValue pFragmentAckParser =
     (case pFragmentAckParser of None \<Rightarrow> Some (STATUS_NULL_ARG, None)
      | Some p \<Rightarrow>
          let acc = fap_accumulator p; ack = fap_fragmentAck p; key = fap_curKeyName p;
              seen = (\<lambda>p. Some (STATUS_SUCCESS, Some (p\<lparr>fap_keys := (fap_keys p)(fap_curKeyName p := True), fap_curPos := 0\<rparr>)))
          in if key \<noteq> FRAGMENT_ACK_KEY_NAME_UNKNOWN \<and> fap_keys p key then Some (STATUS_INVALID_ACK_DUPLICATE_KEY_NAME, Some p)
             else case key of
               FRAGMENT_ACK_KEY_NAME_EVENT_TYPE \<Rightarrow> do {
                 ty \<leftarrow> getFragmentAckType acc;
                 seen (p\<lparr>fap_fragmentAck := ack\<lparr>fa_ackType := ty\<rparr>\<rparr>)
               }
             | FRAGMENT_ACK_KEY_NAME_FRAGMENT_NUMBER \<Rightarrow> do {
                 number \<leftarrow> c_strncpy (fa_sequenceNumber ack) acc MAX_FRAGMENT_SEQUENCE_NUMBER;
                 number \<leftarrow> poke number MAX_FRAGMENT_SEQUENCE_NUMBER 0;
                 seen (p\<lparr>fap_fragmentAck := ack\<lparr>fa_sequenceNumber := number\<rparr>\<rparr>)
               }
             | FRAGMENT_ACK_KEY_NAME_FRAGMENT_TIMECODE \<Rightarrow> do {
                 (st, value) \<leftarrow> strtoui64 (Some acc) None 10 True;
                 case value of None \<Rightarrow> Some (st, Some p)
                 | Some value \<Rightarrow> seen (p\<lparr>fap_fragmentAck := ack\<lparr>fa_timestamp := value\<rparr>\<rparr>)
               }
             | FRAGMENT_ACK_KEY_NAME_ERROR_ID \<Rightarrow> do {
                 (st, value) \<leftarrow> strtoui64 (Some acc) None 10 True;
                 case value of None \<Rightarrow> Some (st, Some p)
                 | Some value \<Rightarrow> seen (p\<lparr>fap_fragmentAck := ack\<lparr>fa_result := getAckErrorTypeFromErrorId value\<rparr>\<rparr>)
               }
             | FRAGMENT_ACK_KEY_NAME_UNKNOWN \<Rightarrow> seen p)"

definition validateParsedAck :: "FragmentAckParser option \<Rightarrow> STATUS" where
  "validateParsedAck pFragmentAckParser =
     (case pFragmentAckParser of None \<Rightarrow> STATUS_NULL_ARG
      | Some p \<Rightarrow>
          let ack = fap_fragmentAck p
          in if fa_ackType ack = FRAGMENT_ACK_TYPE_UNDEFINED then STATUS_INVALID_PARSED_ACK_TYPE
             else if \<not> (fa_ackType ack \<noteq> FRAGMENT_ACK_TYPE_ERROR \<or> fa_result ack \<noteq> SERVICE_CALL_RESULT_OK) then STATUS_MISSING_ERR_ACK_ID
             else STATUS_SUCCESS)"

subsection \<open>Parsing\<close>

type_synonym 'x ack_event = "'x KinesisVideoStream_scheme \<Rightarrow> UPLOAD_HANDLE \<Rightarrow> FragmentAck \<Rightarrow> (STATUS \<times> 'x KinesisVideoStream_scheme) option"

definition processParsedAck :: "'x ack_event \<Rightarrow> 'x KinesisVideoStream_scheme \<Rightarrow> (STATUS \<times> 'x KinesisVideoStream_scheme) option" where
  "processParsedAck streamFragmentAckEvent s =
     (let st = validateParsedAck (Some (kvs_fragmentAckParser s))
      in if STATUS_FAILED st then Some (st, s)
         else do {
           (st, s) \<leftarrow> streamFragmentAckEvent s (fap_uploadHandle (kvs_fragmentAckParser s)) (fap_fragmentAck (kvs_fragmentAckParser s));
           if STATUS_FAILED st then Some (st, s)
           else case resetAckParserState (Some s) of (st, s') \<Rightarrow> Some (st, the s')
         })"

definition setState :: "FRAGMENT_ACK_PARSER_STATE \<Rightarrow> 'x KinesisVideoStream_scheme \<Rightarrow> 'x KinesisVideoStream_scheme" where
  "setState st s = s\<lparr>kvs_fragmentAckParser := (kvs_fragmentAckParser s)\<lparr>fap_state := st\<rparr>\<rparr>"

definition accumulate :: "BYTE \<Rightarrow> 'x KinesisVideoStream_scheme \<Rightarrow> 'x KinesisVideoStream_scheme option" where
  "accumulate c s = do {
     let p = kvs_fragmentAckParser s;
     acc \<leftarrow> poke (fap_accumulator p) (unat (fap_curPos p)) c;
     Some (s\<lparr>kvs_fragmentAckParser := p\<lparr>fap_accumulator := acc, fap_curPos := fap_curPos p + 1\<rparr>\<rparr>)
   }"

definition terminate :: "'x KinesisVideoStream_scheme \<Rightarrow> 'x KinesisVideoStream_scheme option" where
  "terminate s = do {
     let p = kvs_fragmentAckParser s;
     acc \<leftarrow> poke (fap_accumulator p) (unat (fap_curPos p)) 0;
     Some (s\<lparr>kvs_fragmentAckParser := p\<lparr>fap_accumulator := acc\<rparr>\<rparr>)
   }"

definition finishKey :: "'x KinesisVideoStream_scheme \<Rightarrow> 'x KinesisVideoStream_scheme option" where
  "finishKey s = do {
     s \<leftarrow> terminate s;
     let p = kvs_fragmentAckParser s;
     key \<leftarrow> getFragmentAckKeyName (fap_accumulator p);
     Some (s\<lparr>kvs_fragmentAckParser := p\<lparr>fap_curKeyName := key, fap_state := FRAGMENT_ACK_PARSER_STATE_DELIMITER, fap_curPos := 0\<rparr>\<rparr>)
   }"

text \<open>The end of a value: termination of the text, its processing and, on success, what comes next.\<close>

definition finishValue ::
  "('x KinesisVideoStream_scheme \<Rightarrow> (STATUS \<times> 'x KinesisVideoStream_scheme) option)
   \<Rightarrow> 'x KinesisVideoStream_scheme \<Rightarrow> (STATUS \<times> 'x KinesisVideoStream_scheme) option" where
  "finishValue continue s = do {
     s \<leftarrow> terminate s;
     (st, p) \<leftarrow> processAckValue (Some (kvs_fragmentAckParser s));
     let s = s\<lparr>kvs_fragmentAckParser := the p\<rparr>;
     if STATUS_FAILED st then Some (st, s) else continue s
   }"

definition toState ::
  "FRAGMENT_ACK_PARSER_STATE \<Rightarrow> 'x KinesisVideoStream_scheme \<Rightarrow> (STATUS \<times> 'x KinesisVideoStream_scheme) option" where
  "toState st s = Some (STATUS_SUCCESS, setState st s)"

text \<open>The body of the loop: the status, the level and the stream after one character.\<close>

definition parseChar ::
  "'x ack_event \<Rightarrow> BYTE \<Rightarrow> UINT32 \<Rightarrow> 'x KinesisVideoStream_scheme \<Rightarrow> (STATUS \<times> UINT32 \<times> 'x KinesisVideoStream_scheme) option" where
  "parseChar streamFragmentAckEvent curChar level s =
     (let stay = (STATUS_SUCCESS, level, s);
          with_level = map_option (\<lambda>(st, s). (st, level, s));
          skip = (\<lambda>open close.
            let level = (if curChar = open then level + 1 else if curChar = close then level - 1 else level)
            in Some (STATUS_SUCCESS, level, if level = 0 then setState FRAGMENT_ACK_PARSER_STATE_VALUE_END s else s))
      in case fap_state (kvs_fragmentAckParser s) of
        FRAGMENT_ACK_PARSER_STATE_START \<Rightarrow>
          if curChar = ACK_PARSER_OPEN_BRACE then with_level (toState FRAGMENT_ACK_PARSER_STATE_ACK_START s) else Some stay
      | FRAGMENT_ACK_PARSER_STATE_ACK_START \<Rightarrow>
          if IS_WHITE_SPACE curChar then Some stay
          else if curChar \<noteq> ACK_PARSER_QUOTE then Some (STATUS_INVALID_ACK_KEY_START, level, s)
          else with_level (toState FRAGMENT_ACK_PARSER_STATE_KEY_START s)
      | FRAGMENT_ACK_PARSER_STATE_KEY_START \<Rightarrow>
          if curChar = ACK_PARSER_QUOTE then do { s \<leftarrow> finishKey s; Some (STATUS_SUCCESS, level, s) }
          else do { s \<leftarrow> accumulate curChar s; Some (STATUS_SUCCESS, level, s) }
      | FRAGMENT_ACK_PARSER_STATE_DELIMITER \<Rightarrow>
          if \<not> IS_WHITE_SPACE curChar \<and> curChar = ACK_PARSER_DELIMITER
          then with_level (toState FRAGMENT_ACK_PARSER_STATE_BODY_START s) else Some stay
      | FRAGMENT_ACK_PARSER_STATE_BODY_START \<Rightarrow>
          if IS_WHITE_SPACE curChar then Some stay
          else if curChar = ACK_PARSER_OPEN_BRACE then Some (STATUS_SUCCESS, 1, setState FRAGMENT_ACK_PARSER_STATE_SKIP_BODY_BRACE_END s)
          else if curChar = ACK_PARSER_OPEN_BRACKET then Some (STATUS_SUCCESS, 1, setState FRAGMENT_ACK_PARSER_STATE_SKIP_BODY_BRACKET_END s)
          else if curChar = ACK_PARSER_QUOTE then with_level (toState FRAGMENT_ACK_PARSER_STATE_TEXT_VALUE s)
          else if IS_ACK_START_OF_NUMERIC_VALUE curChar then do {
            s \<leftarrow> accumulate curChar s;
            Some (STATUS_SUCCESS, level, setState FRAGMENT_ACK_PARSER_STATE_NUMERIC_VALUE s)
          }
          else Some (STATUS_INVALID_ACK_INVALID_VALUE_START, level, s)
      | FRAGMENT_ACK_PARSER_STATE_TEXT_VALUE \<Rightarrow>
          if curChar = ACK_PARSER_QUOTE then with_level (finishValue (toState FRAGMENT_ACK_PARSER_STATE_VALUE_END) s)
          else do { s \<leftarrow> accumulate curChar s; Some (STATUS_SUCCESS, level, s) }
      | FRAGMENT_ACK_PARSER_STATE_NUMERIC_VALUE \<Rightarrow>
          if IS_WHITE_SPACE curChar \<or> curChar = ACK_PARSER_COMMA then with_level (finishValue (toState FRAGMENT_ACK_PARSER_STATE_VALUE_END) s)
          else if curChar = ACK_PARSER_CLOSE_BRACE then with_level (finishValue (processParsedAck streamFragmentAckEvent) s)
          else if curChar \<in> {ACK_PARSER_QUOTE, ACK_PARSER_OPEN_BRACE, ACK_PARSER_OPEN_BRACKET, ACK_PARSER_CLOSE_BRACKET, ACK_PARSER_DELIMITER}
          then Some (STATUS_INVALID_ACK_INVALID_VALUE_END, level, s)
          else do { s \<leftarrow> accumulate curChar s; Some (STATUS_SUCCESS, level, s) }
      | FRAGMENT_ACK_PARSER_STATE_SKIP_BODY_BRACE_END \<Rightarrow> skip ACK_PARSER_OPEN_BRACE ACK_PARSER_CLOSE_BRACE
      | FRAGMENT_ACK_PARSER_STATE_SKIP_BODY_BRACKET_END \<Rightarrow> skip ACK_PARSER_OPEN_BRACKET ACK_PARSER_CLOSE_BRACKET
      | FRAGMENT_ACK_PARSER_STATE_VALUE_END \<Rightarrow>
          if IS_WHITE_SPACE curChar \<or> curChar = ACK_PARSER_COMMA then Some stay
          else if curChar = ACK_PARSER_CLOSE_BRACE then with_level (processParsedAck streamFragmentAckEvent s)
          else if curChar = ACK_PARSER_QUOTE then with_level (toState FRAGMENT_ACK_PARSER_STATE_KEY_START s)
          else Some (STATUS_INVALID_ACK_KEY_START, level, s))"

fun parseLoop ::
  "'x ack_event \<Rightarrow> BYTE list \<Rightarrow> UINT32 \<Rightarrow> 'x KinesisVideoStream_scheme \<Rightarrow> (STATUS \<times> 'x KinesisVideoStream_scheme) option" where
  "parseLoop event [] level s = Some (STATUS_SUCCESS, s)"
| "parseLoop event (c # cs) level s = do {
     (st, level, s) \<leftarrow> parseChar event c level s;
     if STATUS_FAILED st then Some (st, s) else parseLoop event cs level s
   }"

definition lockStream :: "'x KinesisVideoStream_scheme \<Rightarrow> 'x KinesisVideoStream_scheme" where
  "lockStream s = s\<lparr>kvs_lock := kvs_lock s + 1\<rparr>"

definition unlockStream :: "'x KinesisVideoStream_scheme \<Rightarrow> 'x KinesisVideoStream_scheme" where
  "unlockStream s = s\<lparr>kvs_lock := kvs_lock s - 1\<rparr>"

definition setUploadHandle :: "UPLOAD_HANDLE \<Rightarrow> 'x KinesisVideoStream_scheme \<Rightarrow> 'x KinesisVideoStream_scheme" where
  "setUploadHandle uploadHandle s =
     (if IS_VALID_UPLOAD_HANDLE (fap_uploadHandle (kvs_fragmentAckParser s)) then s
      else s\<lparr>kvs_fragmentAckParser := (kvs_fragmentAckParser s)\<lparr>fap_uploadHandle := uploadHandle\<rparr>\<rparr>)"

definition parseFragmentAck ::
  "'x ack_event \<Rightarrow> 'x KinesisVideoStream_scheme option \<Rightarrow> UPLOAD_HANDLE \<Rightarrow> BYTE list option \<Rightarrow> UINT32
   \<Rightarrow> (STATUS \<times> 'x KinesisVideoStream_scheme option) option" where
  "parseFragmentAck streamFragmentAckEvent pKinesisVideoStream uploadHandle ackSegment ackSegmentSize =
     (case (pKinesisVideoStream, ackSegment) of
        (Some s, Some seg) \<Rightarrow> do {
          len \<leftarrow> (if ackSegmentSize = 0 then c_strnlen seg MAX_ACK_FRAGMENT_LEN else Some (unat ackSegmentSize));
          if ackSegmentSize \<noteq> 0 \<and> \<not> len \<le> MAX_ACK_FRAGMENT_LEN
          then Some (STATUS_INVALID_ACK_SEGMENT_LEN, Some (the (snd (resetAckParserState (Some s)))))
          else do {
            let s = setUploadHandle uploadHandle (lockStream s);
            (st, s) \<leftarrow> parseLoop streamFragmentAckEvent (take len seg) 0 s;
            if \<not> STATUS_FAILED st \<and> length seg < len then None else do {
            let s = (if STATUS_FAILED st then the (snd (resetAckParserState (Some s))) else s);
            Some (st, Some (unlockStream s)) }
          }
        }
      | _ \<Rightarrow> Some (STATUS_NULL_ARG, snd (resetAckParserState pKinesisVideoStream)))"

end
