(* ===== verification/StreamObject.thy ===== *)
theory StreamObject
  imports ContentViewProps ClientProps AckParser
begin

text \<open>
  The stream object of \<open>client/src/Stream.h\<close>, with the operations of \<open>Stream.c\<close> on its upload handles and on the size of its view. The object holds
  the client it belongs to and the parts of the two state machines that change. The queue of the upload handles is the list of the pointers in it, in
  its order: \<open>None\<close> is \<open>NULL\<close>, \<open>Some\<close> the structure pointed to; a \<open>PUploadHandleInfo\<close> is the position in the queue.
\<close>

subsection \<open>The stream\<close>

type_synonym UPLOAD_HANDLE_STATE = UINT32

abbreviation (input) UPLOAD_HANDLE_STATE_NONE :: UPLOAD_HANDLE_STATE where "UPLOAD_HANDLE_STATE_NONE \<equiv> 0"
abbreviation (input) UPLOAD_HANDLE_STATE_NEW :: UPLOAD_HANDLE_STATE where "UPLOAD_HANDLE_STATE_NEW \<equiv> 1"
abbreviation (input) UPLOAD_HANDLE_STATE_READY :: UPLOAD_HANDLE_STATE where "UPLOAD_HANDLE_STATE_READY \<equiv> 2"
abbreviation (input) UPLOAD_HANDLE_STATE_STREAMING :: UPLOAD_HANDLE_STATE where "UPLOAD_HANDLE_STATE_STREAMING \<equiv> 4"
abbreviation (input) UPLOAD_HANDLE_STATE_TERMINATING :: UPLOAD_HANDLE_STATE where "UPLOAD_HANDLE_STATE_TERMINATING \<equiv> 8"
abbreviation (input) UPLOAD_HANDLE_STATE_AWAITING_ACK :: UPLOAD_HANDLE_STATE where "UPLOAD_HANDLE_STATE_AWAITING_ACK \<equiv> 16"
abbreviation (input) UPLOAD_HANDLE_STATE_ACK_RECEIVED :: UPLOAD_HANDLE_STATE where "UPLOAD_HANDLE_STATE_ACK_RECEIVED \<equiv> 32"
abbreviation (input) UPLOAD_HANDLE_STATE_TERMINATED :: UPLOAD_HANDLE_STATE where "UPLOAD_HANDLE_STATE_TERMINATED \<equiv> 64"
abbreviation (input) UPLOAD_HANDLE_STATE_ERROR :: UPLOAD_HANDLE_STATE where "UPLOAD_HANDLE_STATE_ERROR \<equiv> 128"

text \<open>The unions of states, as their masks.\<close>

abbreviation (input) UPLOAD_HANDLE_STATE_NOT_IN_USE :: UPLOAD_HANDLE_STATE where "UPLOAD_HANDLE_STATE_NOT_IN_USE \<equiv> 3"
abbreviation (input) UPLOAD_HANDLE_STATE_ACTIVE :: UPLOAD_HANDLE_STATE where "UPLOAD_HANDLE_STATE_ACTIVE \<equiv> 63"
abbreviation (input) UPLOAD_HANDLE_STATE_READY_TO_TRIM :: UPLOAD_HANDLE_STATE where "UPLOAD_HANDLE_STATE_READY_TO_TRIM \<equiv> 224"

record UploadHandleInfo =
  uh_handle :: UPLOAD_HANDLE
  uh_timestamp :: UINT64
  uh_lastFragmentTs :: UINT64
  uh_lastPersistedAckTs :: UINT64
  uh_createTime :: UINT64
  uh_state :: UPLOAD_HANDLE_STATE

definition IS_UPLOAD_HANDLE_IN_STATE :: "UploadHandleInfo \<Rightarrow> UPLOAD_HANDLE_STATE \<Rightarrow> bool" where
  "IS_UPLOAD_HANDLE_IN_STATE u s \<longleftrightarrow> (uh_state u AND s) \<noteq> UPLOAD_HANDLE_STATE_NONE"

definition IS_UPLOAD_HANDLE_READY_TO_TRIM :: "UploadHandleInfo \<Rightarrow> bool" where
  "IS_UPLOAD_HANDLE_READY_TO_TRIM u \<longleftrightarrow> IS_UPLOAD_HANDLE_IN_STATE u UPLOAD_HANDLE_STATE_READY_TO_TRIM"

datatype STREAMING_TYPE = STREAMING_TYPE_REALTIME | STREAMING_TYPE_NEAR_REALTIME | STREAMING_TYPE_OFFLINE

type_synonym UPLOAD_CONNECTION_STATE = UINT32

abbreviation (input) UPLOAD_CONNECTION_STATE_NONE :: UPLOAD_CONNECTION_STATE where "UPLOAD_CONNECTION_STATE_NONE \<equiv> 0"
abbreviation (input) UPLOAD_CONNECTION_STATE_OK :: UPLOAD_CONNECTION_STATE where "UPLOAD_CONNECTION_STATE_OK \<equiv> 1"
abbreviation (input) UPLOAD_CONNECTION_STATE_NOT_IN_USE :: UPLOAD_CONNECTION_STATE where "UPLOAD_CONNECTION_STATE_NOT_IN_USE \<equiv> 2"
abbreviation (input) UPLOAD_CONNECTION_STATE_IN_USE :: UPLOAD_CONNECTION_STATE where "UPLOAD_CONNECTION_STATE_IN_USE \<equiv> 4"

datatype STREAM_STATUS = STREAM_STATUS_CREATING | STREAM_STATUS_ACTIVE | STREAM_STATUS_UPDATING | STREAM_STATUS_DELETING

abbreviation (input) STREAM_STATE_NONE :: UINT64 where "STREAM_STATE_NONE \<equiv> 0"
abbreviation (input) STREAM_STATE_NEW :: UINT64 where "STREAM_STATE_NEW \<equiv> 1"
abbreviation (input) STREAM_STATE_DESCRIBE :: UINT64 where "STREAM_STATE_DESCRIBE \<equiv> 2"
abbreviation (input) STREAM_STATE_CREATE :: UINT64 where "STREAM_STATE_CREATE \<equiv> 4"
abbreviation (input) STREAM_STATE_TAG_STREAM :: UINT64 where "STREAM_STATE_TAG_STREAM \<equiv> 8"
abbreviation (input) STREAM_STATE_GET_TOKEN :: UINT64 where "STREAM_STATE_GET_TOKEN \<equiv> 16"
abbreviation (input) STREAM_STATE_GET_ENDPOINT :: UINT64 where "STREAM_STATE_GET_ENDPOINT \<equiv> 32"
abbreviation (input) STREAM_STATE_READY :: UINT64 where "STREAM_STATE_READY \<equiv> 64"
abbreviation (input) STREAM_STATE_PUT_STREAM :: UINT64 where "STREAM_STATE_PUT_STREAM \<equiv> 128"
abbreviation (input) STREAM_STATE_STREAMING :: UINT64 where "STREAM_STATE_STREAMING \<equiv> 256"
abbreviation (input) STREAM_STATE_STOPPED :: UINT64 where "STREAM_STATE_STOPPED \<equiv> 512"

text \<open>The counters of the diagnostics that this code keeps; the averages and the values that are only reported are left out.\<close>

record KinesisVideoStreamDiagnostics =
  di_streamApiCallRetryCount :: UINT32
  di_totalSessions :: UINT64
  di_bufferedAcks :: UINT64
  di_receivedAcks :: UINT64
  di_persistedAcks :: UINT64
  di_errorAcks :: UINT64
  di_skippedFrames :: UINT64

record CurrentViewItem =
  ci_viewItem :: ViewItem
  ci_offset :: UINT32

record MetadataTracker =
  mt_send :: bool
  mt_size :: UINT32

text \<open>A call of a callback of the application.\<close>

datatype callback =
    streamDataAvailableFn UPLOAD_HANDLE UINT64 UINT64
  | streamErrorReportFn UPLOAD_HANDLE UINT64 STATUS
  | fragmentAckReceivedFn UPLOAD_HANDLE FragmentAck
  | broadcastConditionVariableFn
  | streamReadyFn

text \<open>The fields of the state machine of the stream that change: the position of the current state in the table, the retries and the time to wait.\<close>

record MachineFields =
  mf_current :: nat
  mf_localStateRetryCount :: UINT32
  mf_stateTransitionWaitTime :: UINT64

text \<open>
  The fields of \<open>KinesisVideoStream\<close> that this code uses, those of its \<open>base\<close> and of the \<open>streamInfo\<close> among them: \<open>ks_streamInfoRetention\<close> is the
  retention that the application asks for, \<open>ks_retention\<close> the one that a description has returned. \<open>ks_callbacks\<close> are the calls made
  so far, \<open>ks_removed\<close> the notifications of the content view and \<open>ks_freed\<close> the upload handles whose structure has been freed while it is still in the
  queue, oldest first. \<open>ks_hung\<close> is set when a call of the state machine of the client does not return.
\<close>

record 'e StreamObject = KinesisVideoStream +
  ks_pView :: RollingContentView
  ks_pUploadInfoQueue :: "UploadHandleInfo option list"
  ks_diagnostics :: KinesisVideoStreamDiagnostics
  ks_curViewItem :: CurrentViewItem
  ks_metadataTracker :: MetadataTracker
  ks_eosTracker :: MetadataTracker
  ks_fragmentAcks :: bool
  ks_absoluteFragmentTimes :: bool
  ks_streamingType :: STREAMING_TYPE
  ks_streamInfoRetention :: UINT64
  ks_retention :: UINT64
  ks_timecodeScale :: UINT64
  ks_resetGeneratorOnKeyFrame :: bool
  ks_skipNonKeyFrames :: bool
  ks_connectionState :: UPLOAD_CONNECTION_STATE
  ks_streamStopped :: bool
  ks_pKinesisVideoClient :: "'e KinesisVideoClient"
  ks_clientMachine :: "'e client_machine"
  ks_stateMachine :: MachineFields
  ks_result :: SERVICE_CALL_RESULT
  ks_arn :: string
  ks_serviceCallContext :: ServiceCallContext
  ks_streamStatus :: STREAM_STATUS
  ks_streamState :: UINT64
  ks_keepIteratingStateMachine :: bool
  ks_streamReady :: bool
  ks_allowStreamCreation :: bool
  ks_gracePeriod :: bool
  ks_connectionDroppedResult :: SERVICE_CALL_RESULT
  ks_streamingAuthInfo :: AuthInfo
  ks_streamingEndpoint :: string
  ks_tagCount :: UINT32
  ks_tags :: bool
  ks_recoverOnError :: bool
  ks_callbacks :: "callback list"
  ks_removed :: "notification list"
  ks_freed :: "UPLOAD_HANDLE list"
  ks_hung :: bool

text \<open>
  The application: the status that \<open>streamDataAvailableFn\<close> and \<open>streamReadyFn\<close> return, the same of the optional \<open>streamErrorReportFn\<close>, whether
  \<open>fragmentAckReceivedFn\<close> is set, the service calls with the context they are given, over the state of the application, the optional
  \<open>getCurrentRetryAttemptNumberFn\<close>, and the jitter in seconds for a duration, which is a \<open>long double\<close> computation.
\<close>

record 'e stream_env =
  env_dataAvailable :: "'e StreamObject \<Rightarrow> UPLOAD_HANDLE \<Rightarrow> STATUS"
  env_errorReport :: "('e StreamObject \<Rightarrow> UPLOAD_HANDLE \<Rightarrow> STATUS) option"
  env_ackReceived :: bool
  env_streamReady :: "'e StreamObject \<Rightarrow> STATUS"
  env_describeStream :: "ServiceCallContext \<Rightarrow> 'e \<Rightarrow> STATUS \<times> 'e"
  env_createStream :: "ServiceCallContext \<Rightarrow> 'e \<Rightarrow> STATUS \<times> 'e"
  env_tagResource :: "string \<Rightarrow> ServiceCallContext \<Rightarrow> 'e \<Rightarrow> STATUS \<times> 'e"
  env_getStreamingEndpoint :: "ServiceCallContext \<Rightarrow> 'e \<Rightarrow> STATUS \<times> 'e"
  env_getStreamingToken :: "ServiceCallContext \<Rightarrow> 'e \<Rightarrow> STATUS \<times> 'e"
  env_putStream :: "UINT64 \<Rightarrow> string \<Rightarrow> ServiceCallContext \<Rightarrow> 'e \<Rightarrow> STATUS \<times> 'e"
  env_getCurrentRetryAttemptNumber :: "('e \<Rightarrow> STATUS \<times> UINT32 \<times> 'e) option"
  env_jitterInSec :: "UINT64 \<Rightarrow> UINT64"

definition call :: "callback \<Rightarrow> 'e StreamObject \<Rightarrow> 'e StreamObject" where
  "call c s = s\<lparr>ks_callbacks := ks_callbacks s @ [c]\<rparr>"

definition count :: "(KinesisVideoStreamDiagnostics \<Rightarrow> KinesisVideoStreamDiagnostics) \<Rightarrow> 'e StreamObject \<Rightarrow> 'e StreamObject" where
  "count f s = s\<lparr>ks_diagnostics := f (ks_diagnostics s)\<rparr>"

definition set_view :: "RollingContentView \<Rightarrow> 'e StreamObject \<Rightarrow> 'e StreamObject" where
  "set_view v s = s\<lparr>ks_pView := v\<rparr>"

text \<open>The state of the application, the time of the client and the condition variables, behind the stream.\<close>

definition set_env :: "'e \<Rightarrow> 'e StreamObject \<Rightarrow> 'e StreamObject" where
  "set_env x s = s\<lparr>ks_pKinesisVideoClient := (ks_pKinesisVideoClient s)\<lparr>kvc_env := x\<rparr>\<rparr>"

definition streamTime :: "'e StreamObject \<Rightarrow> UINT64 \<times> 'e StreamObject" where
  "streamTime s = (case getCurrentTime (ks_pKinesisVideoClient s) of (t, c) \<Rightarrow> (t, s\<lparr>ks_pKinesisVideoClient := c\<rparr>))"

definition broadcast :: "'e StreamObject \<Rightarrow> STATUS \<times> 'e StreamObject" where
  "broadcast s =
     (case cb_broadcastConditionVariableFn (kvc_clientCallbacks (ks_pKinesisVideoClient s)) (kvc_env (ks_pKinesisVideoClient s)) of
        (st, x) \<Rightarrow> (st, call broadcastConditionVariableFn (set_env x s)))"

definition WAIT_FOR_PERSISTED_ACK :: "'e StreamObject \<Rightarrow> bool" where
  "WAIT_FOR_PERSISTED_ACK s \<longleftrightarrow> ks_fragmentAcks s \<and> ks_streamInfoRetention s \<noteq> 0"

subsection \<open>Flags of the items\<close>

abbreviation (input) ITEM_FLAG_STREAM_START :: UINT32 where "ITEM_FLAG_STREAM_START \<equiv> 1"
abbreviation (input) ITEM_FLAG_BUFFERING_ACK :: UINT32 where "ITEM_FLAG_BUFFERING_ACK \<equiv> 4"
abbreviation (input) ITEM_FLAG_FRAGMENT_END :: UINT32 where "ITEM_FLAG_FRAGMENT_END \<equiv> 16"
abbreviation (input) ITEM_FLAG_PERSISTED_ACK :: UINT32 where "ITEM_FLAG_PERSISTED_ACK \<equiv> 32"
abbreviation (input) ITEM_FLAG_TIMECODE_BASE_START :: UINT32 where "ITEM_FLAG_TIMECODE_BASE_START \<equiv> 128"

definition CHECK_ITEM_STREAM_START :: "UINT32 \<Rightarrow> bool" where
  "CHECK_ITEM_STREAM_START f \<longleftrightarrow> (f AND ITEM_FLAG_STREAM_START) \<noteq> ITEM_FLAG_NONE"
definition CHECK_ITEM_FRAGMENT_END :: "UINT32 \<Rightarrow> bool" where
  "CHECK_ITEM_FRAGMENT_END f \<longleftrightarrow> (f AND ITEM_FLAG_FRAGMENT_END) \<noteq> ITEM_FLAG_NONE"
definition CHECK_ITEM_PERSISTED_ACK :: "UINT32 \<Rightarrow> bool" where
  "CHECK_ITEM_PERSISTED_ACK f \<longleftrightarrow> (f AND ITEM_FLAG_PERSISTED_ACK) \<noteq> ITEM_FLAG_NONE"
definition CHECK_ITEM_TIMECODE_BASE_START :: "UINT32 \<Rightarrow> bool" where
  "CHECK_ITEM_TIMECODE_BASE_START f \<longleftrightarrow> (f AND ITEM_FLAG_TIMECODE_BASE_START) \<noteq> ITEM_FLAG_NONE"

text \<open>The flags of the item behind a pointer, and the assignment that sets one of them.\<close>

definition flags :: "RollingContentView \<Rightarrow> nat \<Rightarrow> UINT32" where
  "flags v p = vi_flags (cv_itemBuffer v ! p)"

definition set_flag :: "UINT32 \<Rightarrow> nat \<Rightarrow> RollingContentView \<Rightarrow> RollingContentView" where
  "set_flag f p v = v\<lparr>cv_itemBuffer := (cv_itemBuffer v)[p := (cv_itemBuffer v ! p)\<lparr>vi_flags := flags v p OR f\<rparr>]\<rparr>"

definition SET_ITEM_BUFFERING_ACK :: "nat \<Rightarrow> RollingContentView \<Rightarrow> RollingContentView" where
  "SET_ITEM_BUFFERING_ACK = set_flag ITEM_FLAG_BUFFERING_ACK"
definition SET_ITEM_RECEIVED_ACK :: "nat \<Rightarrow> RollingContentView \<Rightarrow> RollingContentView" where
  "SET_ITEM_RECEIVED_ACK = set_flag ITEM_FLAG_RECEIVED_ACK"
definition SET_ITEM_PERSISTED_ACK :: "nat \<Rightarrow> RollingContentView \<Rightarrow> RollingContentView" where
  "SET_ITEM_PERSISTED_ACK = set_flag ITEM_FLAG_PERSISTED_ACK"
definition SET_ITEM_SKIP_ITEM :: "nat \<Rightarrow> RollingContentView \<Rightarrow> RollingContentView" where
  "SET_ITEM_SKIP_ITEM = set_flag ITEM_FLAG_SKIP_ITEM"

subsection \<open>Upload handles\<close>

text \<open>The search ends without a result at a \<open>NULL\<close> pointer.\<close>

fun findUpload :: "(UploadHandleInfo \<Rightarrow> bool) \<Rightarrow> UploadHandleInfo option list \<Rightarrow> nat option" where
  "findUpload P [] = None"
| "findUpload P (None # us) = None"
| "findUpload P (Some u # us) = (if P u then Some 0 else map_option Suc (findUpload P us))"

definition getStreamUploadInfo :: "'e StreamObject \<Rightarrow> UPLOAD_HANDLE \<Rightarrow> nat option" where
  "getStreamUploadInfo s uploadHandle = findUpload (\<lambda>u. uh_handle u = uploadHandle) (ks_pUploadInfoQueue s)"

definition getStreamUploadInfoWithState :: "'e StreamObject \<Rightarrow> UPLOAD_HANDLE_STATE \<Rightarrow> nat option" where
  "getStreamUploadInfoWithState s handleState = findUpload (\<lambda>u. IS_UPLOAD_HANDLE_IN_STATE u handleState) (ks_pUploadInfoQueue s)"

definition getCurrentStreamUploadInfo :: "'e StreamObject \<Rightarrow> nat option" where
  "getCurrentStreamUploadInfo s = getStreamUploadInfoWithState s
     (UPLOAD_HANDLE_STATE_NEW OR UPLOAD_HANDLE_STATE_READY OR UPLOAD_HANDLE_STATE_STREAMING OR UPLOAD_HANDLE_STATE_TERMINATING OR UPLOAD_HANDLE_STATE_AWAITING_ACK)"

definition getAckReceivedStreamUploadInfo :: "'e StreamObject \<Rightarrow> nat option" where
  "getAckReceivedStreamUploadInfo s = getStreamUploadInfoWithState s UPLOAD_HANDLE_STATE_ACK_RECEIVED"

text \<open>The structure at a position of the queue, its assignment, and its removal (the average of the session times is not kept).\<close>

definition upload :: "'e StreamObject \<Rightarrow> nat \<Rightarrow> UploadHandleInfo" where
  "upload s i = the (ks_pUploadInfoQueue s ! i)"

definition update_upload :: "nat \<Rightarrow> (UploadHandleInfo \<Rightarrow> UploadHandleInfo) \<Rightarrow> 'e StreamObject \<Rightarrow> 'e StreamObject" where
  "update_upload i f s = s\<lparr>ks_pUploadInfoQueue := (ks_pUploadInfoQueue s)[i := Some (f (upload s i))]\<rparr>"

definition deleteStreamUploadInfo :: "nat \<Rightarrow> 'e StreamObject \<Rightarrow> 'e StreamObject" where
  "deleteStreamUploadInfo i s =
     snd (streamTime (s\<lparr>ks_pUploadInfoQueue := take i (ks_pUploadInfoQueue s) @ drop (Suc i) (ks_pUploadInfoQueue s)\<rparr>))"

definition getAvailableViewSize :: "'e StreamObject \<Rightarrow> STATUS \<times> UINT64 \<times> UINT64" where
  "getAvailableViewSize s =
     (case contentViewGetWindowDuration (Some (ks_pView s)) True False of (st, d, _) \<Rightarrow>
        let duration = the d
        in if STATUS_FAILED st then (st, duration, 0)
           else case contentViewGetWindowAllocationSize (Some (ks_pView s)) True False of (st, sz, _) \<Rightarrow>
             if STATUS_FAILED st then (st, duration, the sz)
             else
               let viewByteSize = the sz + ucast (vi_length (ci_viewItem (ks_curViewItem s)) - ci_offset (ks_curViewItem s));
                   viewByteSize = (if mt_send (ks_metadataTracker s) then viewByteSize + ucast (mt_size (ks_metadataTracker s)) else viewByteSize);
                   viewByteSize = (if mt_send (ks_eosTracker s) then viewByteSize + ucast (mt_size (ks_eosTracker s)) else viewByteSize)
               in (STATUS_SUCCESS, duration, viewByteSize))"

end
