(* ===== verification/StreamState.thy ===== *)
theory StreamState
  imports StreamObject
begin

text \<open>
  The state machine of a stream: \<open>client/src/StreamState.c\<close> and the results of the service calls that drive it, in \<open>client/src/StreamEvent.c\<close>. The
  object behind \<open>customData\<close> is the stream itself, so the \<open>NULL\<close> checks of the callbacks on it hold and are not repeated. A callback of the
  application does not call back into the library while it runs: the results of the service calls arrive as separate events afterwards.
\<close>

subsection \<open>The state callbacks\<close>

abbreviation (input) SERVICE_CALL_RESOURCE_NOT_FOUND :: SERVICE_CALL_RESULT where "SERVICE_CALL_RESOURCE_NOT_FOUND \<equiv> 404"
abbreviation (input) SERVICE_CALL_FORBIDDEN :: SERVICE_CALL_RESULT where "SERVICE_CALL_FORBIDDEN \<equiv> 403"
abbreviation (input) SERVICE_CALL_NOT_AUTHORIZED :: SERVICE_CALL_RESULT where "SERVICE_CALL_NOT_AUTHORIZED \<equiv> 401"
abbreviation (input) SERVICE_CALL_INFINITE_TIMEOUT :: UINT64 where "SERVICE_CALL_INFINITE_TIMEOUT \<equiv> - 1"

definition SERVICE_CALL_RESULT_IS_A_TIMEOUT :: "SERVICE_CALL_RESULT \<Rightarrow> bool" where
  "SERVICE_CALL_RESULT_IS_A_TIMEOUT r \<longleftrightarrow> r = 408 \<or> r = 504 \<or> r = 598 \<or> r = 599"

definition defaultStreamStateTransitionHook :: "'e stream_env \<Rightarrow> 'e StreamObject \<Rightarrow> STATUS \<times> UINT64 option \<times> 'e StreamObject" where
  "defaultStreamStateTransitionHook e s =
     (let c = ks_pKinesisVideoClient s
      in case cb_executeRetryStrategyFn (kvc_clientCallbacks c) of
           None \<Rightarrow> (STATUS_SUCCESS, None, s)
         | Some executeRetryStrategy \<Rightarrow>
             if \<not> (ks_result s > SERVICE_CALL_RESULT_OK \<and> kvc_pRetryStrategy c) then (STATUS_SUCCESS, None, s)
             else
               let s = (case env_getCurrentRetryAttemptNumber e of
                          None \<Rightarrow> s
                        | Some f \<Rightarrow> (case f (kvc_env c) of (st, n, x) \<Rightarrow>
                            if st \<noteq> STATUS_SUCCESS then set_env x s else count (di_streamApiCallRetryCount_update (\<lambda>_. n)) (set_env x s)))
               in case executeRetryStrategy (kvc_env (ks_pKinesisVideoClient s)) of (wait, x) \<Rightarrow> (STATUS_SUCCESS, Some wait, set_env x s))"

definition fromNewStreamState :: "'e StreamObject \<Rightarrow> STATUS \<times> UINT64 \<times> 'e StreamObject" where
  "fromNewStreamState s =
     (STATUS_SUCCESS, if ks_streamState s = STREAM_STATE_STOPPED then STREAM_STATE_STOPPED else STREAM_STATE_DESCRIBE, s)"

definition executeNewStreamState :: "UINT64 \<Rightarrow> 'e StreamObject \<Rightarrow> STATUS \<times> bool \<times> 'e StreamObject" where
  "executeNewStreamState time s = (STATUS_SUCCESS, False, s\<lparr>ks_keepIteratingStateMachine := True\<rparr>)"

text \<open>
  The step of the state machine of the client that precedes a service call, and the rest of the callback after it. The rest is not run when the step
  fails, nor when it does not return.
\<close>

definition store_client :: "'e client_machine \<Rightarrow> 'e KinesisVideoClient \<Rightarrow> 'e StreamObject \<Rightarrow> 'e StreamObject" where
  "store_client m c s = s\<lparr>ks_clientMachine := m, ks_pKinesisVideoClient := c\<rparr>"

definition hang :: "'e StreamObject \<Rightarrow> STATUS \<times> bool \<times> 'e StreamObject" where
  "hang s = (STATUS_SUCCESS, False, s\<lparr>ks_hung := True\<rparr>)"

definition afterClientStep ::
  "'e StreamObject \<Rightarrow> ('e StreamObject \<Rightarrow> STATUS \<times> bool \<times> 'e StreamObject) \<Rightarrow> STATUS \<times> bool \<times> 'e StreamObject" where
  "afterClientStep s rest =
     (case stepClientStateMachine (ks_clientMachine s) (ks_pKinesisVideoClient s) of
        None \<Rightarrow> hang s
      | Some (st, m, c) \<Rightarrow> if STATUS_FAILED st then (st, False, store_client m c s) else rest (store_client m c s))"

definition streamServiceCall :: "PAuthInfo \<Rightarrow> UINT64 \<Rightarrow> UINT64 \<Rightarrow> 'e StreamObject \<Rightarrow> 'e StreamObject" where
  "streamServiceCall auth timeout time s =
     s\<lparr>ks_serviceCallContext :=
        \<lparr>scc_version = SERVICE_CALL_CONTEXT_CURRENT_VERSION, scc_callAfter = time, scc_timeout = timeout, scc_pAuthInfo = auth,
         scc_connectionTimeout = kvc_serviceCallConnectionTimeout (ks_pKinesisVideoClient s)\<rparr>\<rparr>"

definition controlPlaneCall :: "UINT64 \<Rightarrow> 'e StreamObject \<Rightarrow> 'e StreamObject" where
  "controlPlaneCall time s =
     (streamServiceCall tokenAuthInfo_ptr (kvc_serviceCallCompletionTimeout (ks_pKinesisVideoClient s)) time s)\<lparr>ks_result := SERVICE_CALL_RESULT_NOT_SET\<rparr>"

definition issue :: "('e \<Rightarrow> STATUS \<times> 'e) \<Rightarrow> 'e StreamObject \<Rightarrow> STATUS \<times> bool \<times> 'e StreamObject" where
  "issue f s = (case f (kvc_env (ks_pKinesisVideoClient s)) of (st, x) \<Rightarrow> (st, False, set_env x s))"

definition executeDescribeStreamState :: "'e stream_env \<Rightarrow> UINT64 \<Rightarrow> 'e StreamObject \<Rightarrow> STATUS \<times> bool \<times> 'e StreamObject" where
  "executeDescribeStreamState e time s =
     afterClientStep s (\<lambda>s. let s = controlPlaneCall time s in issue (env_describeStream e (ks_serviceCallContext s)) s)"

definition fromDescribeStreamState :: "'e StreamObject \<Rightarrow> STATUS \<times> UINT64 \<times> 'e StreamObject" where
  "fromDescribeStreamState s =
     (if ks_streamState s = STREAM_STATE_STOPPED then (STATUS_SUCCESS, STREAM_STATE_STOPPED, s)
      else if ks_result s = SERVICE_CALL_RESULT_OK
      then
        if ks_streamStatus s = STREAM_STATUS_DELETING then (STATUS_STREAM_IS_BEING_DELETED_ERROR, 0, s)
        else (STATUS_SUCCESS,
              if ks_streamStatus s = STREAM_STATUS_ACTIVE
              then if ks_tagCount s \<noteq> 0 then STREAM_STATE_TAG_STREAM else STREAM_STATE_GET_ENDPOINT
              else STREAM_STATE_DESCRIBE, s)
      else if ks_result s = SERVICE_CALL_RESOURCE_NOT_FOUND
      then (STATUS_SUCCESS, if ks_allowStreamCreation s then STREAM_STATE_CREATE else STREAM_STATE_STOPPED, s)
      else (STATUS_SUCCESS, STREAM_STATE_DESCRIBE, s))"

definition fromCreateStreamState :: "'e StreamObject \<Rightarrow> STATUS \<times> UINT64 \<times> 'e StreamObject" where
  "fromCreateStreamState s =
     (STATUS_SUCCESS,
      if ks_streamState s = STREAM_STATE_STOPPED then STREAM_STATE_STOPPED
      else if ks_result s = SERVICE_CALL_RESULT_OK then if ks_tagCount s \<noteq> 0 then STREAM_STATE_TAG_STREAM else STREAM_STATE_GET_ENDPOINT
      else STREAM_STATE_CREATE, s)"

definition fromTagStreamState :: "'e StreamObject \<Rightarrow> STATUS \<times> UINT64 \<times> 'e StreamObject" where
  "fromTagStreamState s =
     (STATUS_SUCCESS,
      if ks_streamState s = STREAM_STATE_STOPPED then STREAM_STATE_STOPPED
      else if ks_result s = SERVICE_CALL_RESULT_OK then STREAM_STATE_GET_ENDPOINT else STREAM_STATE_TAG_STREAM, s)"

definition fromGetEndpointStreamState :: "'e StreamObject \<Rightarrow> STATUS \<times> UINT64 \<times> 'e StreamObject" where
  "fromGetEndpointStreamState s =
     (STATUS_SUCCESS,
      if ks_streamState s = STREAM_STATE_STOPPED then STREAM_STATE_STOPPED
      else if ks_result s = SERVICE_CALL_RESULT_OK then STREAM_STATE_GET_TOKEN else STREAM_STATE_GET_ENDPOINT, s)"

definition fromGetTokenStreamState :: "'e StreamObject \<Rightarrow> STATUS \<times> UINT64 \<times> 'e StreamObject" where
  "fromGetTokenStreamState s =
     (STATUS_SUCCESS,
      if ks_streamState s = STREAM_STATE_STOPPED then STREAM_STATE_STOPPED
      else if ks_result s = SERVICE_CALL_RESULT_OK then STREAM_STATE_READY else STREAM_STATE_GET_TOKEN, s)"

text \<open>
  After a successful call the first new upload handle becomes ready, and the first ready one is notified when no session is ongoing. There is a ready
  handle then: the one that has just become ready.
\<close>

abbreviation (input) UPLOAD_HANDLE_STATE_ONGOING :: UPLOAD_HANDLE_STATE where "UPLOAD_HANDLE_STATE_ONGOING \<equiv> 60"

definition readyNewHandle :: "'e stream_env \<Rightarrow> 'e StreamObject \<Rightarrow> STATUS \<times> 'e StreamObject" where
  "readyNewHandle e s =
     (case getStreamUploadInfoWithState s UPLOAD_HANDLE_STATE_NEW of
        None \<Rightarrow> (STATUS_SUCCESS, s)
      | Some i \<Rightarrow>
          let s = update_upload i (uh_state_update (\<lambda>_. UPLOAD_HANDLE_STATE_READY)) s
          in case getStreamUploadInfoWithState s UPLOAD_HANDLE_STATE_ONGOING of
               Some _ \<Rightarrow> (STATUS_SUCCESS, s)
             | None \<Rightarrow>
                 let h = uh_handle (upload s (the (getStreamUploadInfoWithState s UPLOAD_HANDLE_STATE_READY)))
                 in case getAvailableViewSize s of (st, duration, viewByteSize) \<Rightarrow>
                      if STATUS_FAILED st then (st, s)
                      else (env_dataAvailable e s h, call (streamDataAvailableFn h duration viewByteSize) s))"

definition fromPutStreamState :: "'e stream_env \<Rightarrow> 'e StreamObject \<Rightarrow> STATUS \<times> UINT64 \<times> 'e StreamObject" where
  "fromPutStreamState e s =
     (if ks_streamState s = STREAM_STATE_STOPPED then (STATUS_SUCCESS, STREAM_STATE_STOPPED, s)
      else if ks_result s = SERVICE_CALL_RESULT_OK
      then case readyNewHandle e s of (st, s) \<Rightarrow> if STATUS_FAILED st then (st, 0, s) else (STATUS_SUCCESS, STREAM_STATE_STREAMING, s)
      else if SERVICE_CALL_RESULT_IS_A_TIMEOUT (ks_result s) then (STATUS_SUCCESS, STREAM_STATE_GET_ENDPOINT, s)
      else if ks_result s = SERVICE_CALL_NOT_AUTHORIZED \<or> ks_result s = SERVICE_CALL_FORBIDDEN then (STATUS_SUCCESS, STREAM_STATE_GET_TOKEN, s)
      else (STATUS_SUCCESS, STREAM_STATE_DESCRIBE, s))"

definition fromStreamingStreamState :: "'e StreamObject \<Rightarrow> STATUS \<times> UINT64 \<times> 'e StreamObject" where
  "fromStreamingStreamState s =
     (STATUS_SUCCESS, if ks_streamState s = STREAM_STATE_STOPPED then STREAM_STATE_STOPPED else STREAM_STATE_STREAMING, s)"

text \<open>The state to go on with after the stop, for the status of the result.\<close>

definition recoveryState :: "STATUS \<Rightarrow> UINT64" where
  "recoveryState st =
     (if st \<in> {STATUS_SUCCESS, STATUS_SERVICE_CALL_DEVICE_LIMIT_ERROR, STATUS_SERVICE_CALL_STREAM_LIMIT_ERROR} then STREAM_STATE_GET_ENDPOINT
      else if st = STATUS_SERVICE_CALL_NOT_AUTHORIZED_ERROR then STREAM_STATE_GET_TOKEN
      else if st \<in> {STATUS_SERVICE_CALL_RESOURCE_IN_USE_ERROR, STATUS_SERVICE_CALL_UNKOWN_ERROR, STATUS_ACK_ERR_ACK_INTERNAL_ERROR,
                     STATUS_SERVICE_CALL_RESOURCE_NOT_FOUND_ERROR, STATUS_SERVICE_CALL_RESOURCE_DELETED_ERROR} then STREAM_STATE_DESCRIBE
      else if st = STATUS_SERVICE_CALL_TIMEOUT_ERROR then STREAM_STATE_READY
      else STREAM_STATE_NEW)"

definition fromStoppedStreamState :: "'e StreamObject \<Rightarrow> STATUS \<times> UINT64 \<times> 'e StreamObject" where
  "fromStoppedStreamState s =
     (let s = s\<lparr>ks_streamState := STREAM_STATE_READY\<rparr>;
          st = serviceCallResultCheck (ks_result s)
      in if \<not> ks_recoverOnError s then (st, STREAM_STATE_NEW, s) else (STATUS_SUCCESS, recoveryState st, s))"

definition fromReadyStreamState :: "'e StreamObject \<Rightarrow> STATUS \<times> UINT64 \<times> 'e StreamObject" where
  "fromReadyStreamState s =
     (STATUS_SUCCESS, if ks_streamState s = STREAM_STATE_STOPPED then STREAM_STATE_STOPPED else STREAM_STATE_PUT_STREAM, s)"

text \<open>When the authentication of the client has failed for good, the endpoint is asked for after one more step of the machine of the client.\<close>

definition stepClientToReady ::
  "'e StreamObject \<Rightarrow> ('e StreamObject \<Rightarrow> STATUS \<times> bool \<times> 'e StreamObject) \<Rightarrow> STATUS \<times> bool \<times> 'e StreamObject" where
  "stepClientToReady s rest =
     (case getStateMachineState (Some (ks_clientMachine s)) CLIENT_STATE_READY True of
        (st, None) \<Rightarrow> (st, False, s)
      | (st, Some i) \<Rightarrow>
          let acc = acceptStateMachineState (Some (ks_clientMachine s)) (sms_acceptStates (smi_states (ks_clientMachine s) ! i))
          in if STATUS_FAILED acc then (acc, False, s)
             else case stepLoop (ks_clientMachine s) (ks_pKinesisVideoClient s) of
               None \<Rightarrow> hang s
             | Some (st, m, c) \<Rightarrow> if STATUS_FAILED st then (st, False, store_client m c s) else rest (store_client m c s))"

definition executeGetEndpointStreamState :: "'e stream_env \<Rightarrow> UINT64 \<Rightarrow> 'e StreamObject \<Rightarrow> STATUS \<times> bool \<times> 'e StreamObject" where
  "executeGetEndpointStreamState e time s =
     (let rest = (\<lambda>s. let s = controlPlaneCall time s in issue (env_getStreamingEndpoint e (ks_serviceCallContext s)) s)
      in case stepClientStateMachine (ks_clientMachine s) (ks_pKinesisVideoClient s) of
           None \<Rightarrow> hang s
         | Some (st, m, c) \<Rightarrow>
             let s = store_client m c s
             in if st = STATUS_CLIENT_AUTH_CALL_FAILED then stepClientToReady s rest
                else if STATUS_FAILED st then (st, False, s) else rest s)"

definition executeGetTokenStreamState :: "'e stream_env \<Rightarrow> UINT64 \<Rightarrow> 'e StreamObject \<Rightarrow> STATUS \<times> bool \<times> 'e StreamObject" where
  "executeGetTokenStreamState e time s =
     afterClientStep s (\<lambda>s. let s = controlPlaneCall time s in issue (env_getStreamingToken e (ks_serviceCallContext s)) s)"

definition executeCreateStreamState :: "'e stream_env \<Rightarrow> UINT64 \<Rightarrow> 'e StreamObject \<Rightarrow> STATUS \<times> bool \<times> 'e StreamObject" where
  "executeCreateStreamState e time s =
     afterClientStep s (\<lambda>s. let s = controlPlaneCall time s in issue (env_createStream e (ks_serviceCallContext s)) s)"

definition executeTagStreamState :: "'e stream_env \<Rightarrow> UINT64 \<Rightarrow> 'e StreamObject \<Rightarrow> STATUS \<times> bool \<times> 'e StreamObject" where
  "executeTagStreamState e time s =
     (if \<not> (ks_tagCount s \<noteq> 0 \<and> ks_tags s) then (STATUS_INVALID_ARG, False, s)
      else afterClientStep s (\<lambda>s. let s = controlPlaneCall time s in issue (env_tagResource e (ks_arn s) (ks_serviceCallContext s)) s))"

definition executeReadyStreamState :: "'e stream_env \<Rightarrow> UINT64 \<Rightarrow> 'e StreamObject \<Rightarrow> STATUS \<times> bool \<times> 'e StreamObject" where
  "executeReadyStreamState e time s =
     (case broadcast (s\<lparr>ks_streamReady := True\<rparr>) of (st, s) \<Rightarrow>
        if STATUS_FAILED st then (st, False, s)
        else
          let st = env_streamReady e s; s = call streamReadyFn s
          in if STATUS_FAILED st then (st, False, s)
             else case getAvailableViewSize s of (st, duration, viewByteSize) \<Rightarrow>
               if STATUS_FAILED st then (st, False, s)
               else (STATUS_SUCCESS, False,
                     if ks_streamState s = STREAM_STATE_READY \<or> ks_streamState s = STREAM_STATE_STOPPED \<or> viewByteSize \<noteq> 0
                     then s\<lparr>ks_keepIteratingStateMachine := True\<rparr> else s))"

definition executePutStreamState :: "'e stream_env \<Rightarrow> UINT64 \<Rightarrow> 'e StreamObject \<Rightarrow> STATUS \<times> bool \<times> 'e StreamObject" where
  "executePutStreamState e time s =
     afterClientStep s (\<lambda>s.
       let s = streamServiceCall streamingAuthInfo_ptr SERVICE_CALL_INFINITE_TIMEOUT time s
       in if ks_streamState s = STREAM_STATE_PUT_STREAM then (STATUS_SUCCESS, False, s)
          else case streamTime (s\<lparr>ks_result := SERVICE_CALL_RESULT_NOT_SET\<rparr>) of (now, s) \<Rightarrow>
            (case issue (env_putStream e now (ks_streamingEndpoint s) (ks_serviceCallContext s)) s of (st, again, s) \<Rightarrow>
               if STATUS_FAILED st then (st, again, s) else (STATUS_SUCCESS, again, s\<lparr>ks_streamState := STREAM_STATE_PUT_STREAM\<rparr>)))"

definition executeStreamingStreamState :: "UINT64 \<Rightarrow> 'e StreamObject \<Rightarrow> STATUS \<times> bool \<times> 'e StreamObject" where
  "executeStreamingStreamState time s = (STATUS_SUCCESS, False, s\<lparr>ks_streamState := STREAM_STATE_STREAMING\<rparr>)"

definition executeStoppedStreamState :: "UINT64 \<Rightarrow> 'e StreamObject \<Rightarrow> STATUS \<times> bool \<times> 'e StreamObject" where
  "executeStoppedStreamState time s =
     (let s = s\<lparr>ks_connectionDroppedResult := ks_result s\<rparr>;
          prime = (STATUS_SUCCESS, False, s\<lparr>ks_keepIteratingStateMachine := True\<rparr>)
      in if \<not> SERVICE_CALL_RESULT_IS_A_TIMEOUT (ks_connectionDroppedResult s) then prime
         else case getAvailableViewSize s of (st, duration, viewByteSize) \<Rightarrow>
           if STATUS_FAILED st then (st, False, s)
           else if viewByteSize = 0
           then (STATUS_SUCCESS, False,
             s\<lparr>ks_resetGeneratorOnKeyFrame := True, ks_skipNonKeyFrames := True, ks_streamState := STREAM_STATE_NEW\<rparr>)
           else prime)"

subsection \<open>The state table\<close>

definition streamMachineState ::
  "'e stream_env \<Rightarrow> UINT64 \<Rightarrow> UINT64 \<Rightarrow> ('e StreamObject \<Rightarrow> STATUS \<times> UINT64 \<times> 'e StreamObject)
   \<Rightarrow> (UINT64 \<Rightarrow> 'e StreamObject \<Rightarrow> STATUS \<times> bool \<times> 'e StreamObject) \<Rightarrow> UINT32 \<Rightarrow> STATUS \<Rightarrow> 'e StreamObject StateMachineState" where
  "streamMachineState e st acc nxt exec retries status =
     \<lparr>sms_state = st, sms_acceptStates = acc, sms_getNextStateFn = Some nxt, sms_executeStateFn = Some exec,
      sms_stateTransitionHookFunc = Some (defaultStreamStateTransitionHook e), sms_maxLocalStateRetryCount = retries, sms_status = status\<rparr>"

definition STREAM_STATE_MACHINE_STATES :: "'e stream_env \<Rightarrow> 'e StreamObject StateMachineState list" where
  "STREAM_STATE_MACHINE_STATES e =
     [streamMachineState e STREAM_STATE_NEW (STREAM_STATE_NONE OR STREAM_STATE_NEW OR STREAM_STATE_STOPPED)
        fromNewStreamState executeNewStreamState INFINITE_RETRY_COUNT_SENTINEL STATUS_INVALID_STREAM_READY_STATE,
      streamMachineState e STREAM_STATE_DESCRIBE (STREAM_STATE_NEW OR STREAM_STATE_STOPPED OR STREAM_STATE_DESCRIBE OR STREAM_STATE_PUT_STREAM)
        fromDescribeStreamState (executeDescribeStreamState e) SERVICE_CALL_MAX_RETRY_COUNT STATUS_DESCRIBE_STREAM_CALL_FAILED,
      streamMachineState e STREAM_STATE_CREATE (STREAM_STATE_DESCRIBE OR STREAM_STATE_CREATE)
        fromCreateStreamState (executeCreateStreamState e) SERVICE_CALL_MAX_RETRY_COUNT STATUS_CREATE_STREAM_CALL_FAILED,
      streamMachineState e STREAM_STATE_TAG_STREAM (STREAM_STATE_DESCRIBE OR STREAM_STATE_CREATE OR STREAM_STATE_TAG_STREAM)
        fromTagStreamState (executeTagStreamState e) SERVICE_CALL_MAX_RETRY_COUNT STATUS_TAG_STREAM_CALL_FAILED,
      streamMachineState e STREAM_STATE_GET_ENDPOINT
        (STREAM_STATE_STOPPED OR STREAM_STATE_DESCRIBE OR STREAM_STATE_CREATE OR STREAM_STATE_GET_ENDPOINT OR STREAM_STATE_TAG_STREAM)
        fromGetEndpointStreamState (executeGetEndpointStreamState e) SERVICE_CALL_MAX_RETRY_COUNT STATUS_GET_STREAMING_ENDPOINT_CALL_FAILED,
      streamMachineState e STREAM_STATE_GET_TOKEN
        (STREAM_STATE_STOPPED OR STREAM_STATE_GET_ENDPOINT OR STREAM_STATE_GET_TOKEN OR STREAM_STATE_PUT_STREAM)
        fromGetTokenStreamState (executeGetTokenStreamState e) SERVICE_CALL_MAX_RETRY_COUNT STATUS_GET_STREAMING_TOKEN_CALL_FAILED,
      streamMachineState e STREAM_STATE_READY
        (STREAM_STATE_STOPPED OR STREAM_STATE_GET_TOKEN OR STREAM_STATE_READY OR STREAM_STATE_PUT_STREAM OR STREAM_STATE_STREAMING)
        fromReadyStreamState (executeReadyStreamState e) SERVICE_CALL_MAX_RETRY_COUNT STATUS_STREAM_READY_CALLBACK_FAILED,
      streamMachineState e STREAM_STATE_PUT_STREAM (STREAM_STATE_READY OR STREAM_STATE_PUT_STREAM)
        (fromPutStreamState e) (executePutStreamState e) INFINITE_RETRY_COUNT_SENTINEL STATUS_PUT_STREAM_CALL_FAILED,
      streamMachineState e STREAM_STATE_STREAMING (STREAM_STATE_PUT_STREAM OR STREAM_STATE_STREAMING)
        fromStreamingStreamState executeStreamingStreamState INFINITE_RETRY_COUNT_SENTINEL STATUS_PUT_STREAM_CALL_FAILED,
      streamMachineState e STREAM_STATE_STOPPED
        (STREAM_STATE_STOPPED OR STREAM_STATE_CREATE OR STREAM_STATE_DESCRIBE OR STREAM_STATE_TAG_STREAM OR STREAM_STATE_GET_ENDPOINT OR
         STREAM_STATE_GET_TOKEN OR STREAM_STATE_READY OR STREAM_STATE_PUT_STREAM OR STREAM_STATE_STREAMING OR STREAM_STATE_NEW)
        fromStoppedStreamState executeStoppedStreamState INFINITE_RETRY_COUNT_SENTINEL STATUS_PUT_STREAM_CALL_FAILED]"

text \<open>The machine of a stream, with the fields that change, and its assignment.\<close>

definition streamMachine :: "'e stream_env \<Rightarrow> MachineFields \<Rightarrow> 'e StreamObject StateMachineImpl" where
  "streamMachine e f =
     \<lparr>smi_version = STATE_MACHINE_CURRENT_VERSION, smi_getCurrentTimeFunc = streamTime, smi_pCurrentState = mf_current f,
      smi_localStateRetryCount = mf_localStateRetryCount f, smi_stateTransitionWaitTime = mf_stateTransitionWaitTime f,
      smi_stateCount = 10, smi_stateMachineName = ''STREAM'', smi_states = STREAM_STATE_MACHINE_STATES e\<rparr>"

definition machineFields :: "'e StreamObject StateMachineImpl \<Rightarrow> MachineFields" where
  "machineFields m = \<lparr>mf_current = smi_pCurrentState m, mf_localStateRetryCount = smi_localStateRetryCount m,
     mf_stateTransitionWaitTime = smi_stateTransitionWaitTime m\<rparr>"

definition store_machine :: "'e StreamObject StateMachineImpl \<Rightarrow> 'e StreamObject \<Rightarrow> 'e StreamObject" where
  "store_machine m s = s\<lparr>ks_stateMachine := machineFields m\<rparr>"

text \<open>\<open>None\<close> means that the iteration, or a call in it, does not return.\<close>

partial_function (option) iterateStreamStateMachine :: "'e stream_env \<Rightarrow> 'e StreamObject \<Rightarrow> (STATUS \<times> 'e StreamObject) option" where
  "iterateStreamStateMachine e s =
     (case stepLoop (streamMachine e (ks_stateMachine s)) (s\<lparr>ks_keepIteratingStateMachine := False\<rparr>) of
        None \<Rightarrow> None
      | Some (st, m, s) \<Rightarrow>
          let s = store_machine m s
          in if ks_hung s then None
             else if STATUS_FAILED st then Some (st, s)
             else if ks_keepIteratingStateMachine s then iterateStreamStateMachine e s
             else Some (STATUS_SUCCESS, s))"

definition acceptStreamState :: "'e stream_env \<Rightarrow> 'e StreamObject \<Rightarrow> UINT64 \<Rightarrow> STATUS" where
  "acceptStreamState e s requiredStates = acceptStateMachineState (Some (streamMachine e (ks_stateMachine s))) requiredStates"

text \<open>The test of an event for its state: the current state must be one of those the state of the event can be entered from.\<close>

definition acceptsEntry :: "'e stream_env \<Rightarrow> 'e StreamObject \<Rightarrow> UINT64 \<Rightarrow> STATUS" where
  "acceptsEntry e s st =
     (case getStateMachineState (Some (streamMachine e (ks_stateMachine s))) st True of
        (r, None) \<Rightarrow> r
      | (r, Some i) \<Rightarrow> acceptStreamState e s (sms_acceptStates (STREAM_STATE_MACHINE_STATES e ! i)))"

end
