(* ===== verification/StreamEvents.thy ===== *)
theory StreamEvents
  imports StreamState
begin

text \<open>
  The results of the service calls of a stream, in \<open>client/src/StreamEvent.c\<close>, with \<open>randomizeAuthInfoExpiration\<close> of \<open>AuthIntegration.c\<close>. The stream
  is not \<open>NULL\<close>. The value \<open>None\<close> is a call that does not return or undefined behaviour.
\<close>

subsection \<open>The frame of the events\<close>

text \<open>The averages of the latencies are not kept.\<close>

definition calculateCallLatency :: "'e StreamObject \<Rightarrow> STATUS \<times> 'e StreamObject" where
  "calculateCallLatency s = (case streamTime s of (currentTime, s) \<Rightarrow> (STATUS_SUCCESS, s))"

text \<open>
  With the lock held, the state the event belongs to must accept the current state and the result must be one of those the event tolerates; then the
  latency is measured, the result is stored, the event's own update runs and, on its success, the machine is iterated. \<open>finish\<close> is what the event does
  after that.
\<close>

definition streamResultEvent ::
  "'e stream_env \<Rightarrow> UINT64 \<Rightarrow> STATUS list \<Rightarrow> bool \<Rightarrow> SERVICE_CALL_RESULT \<Rightarrow> ('e StreamObject \<Rightarrow> (STATUS \<times> 'e StreamObject) option)
   \<Rightarrow> (STATUS \<times> 'e StreamObject \<Rightarrow> (STATUS \<times> 'e StreamObject) option) \<Rightarrow> 'e StreamObject \<Rightarrow> (STATUS \<times> 'e StreamObject) option" where
  "streamResultEvent e st tolerated latency callResult update finish s =
     (let s = lockStream s; acc = acceptsEntry e s st; chk = serviceCallResultCheck callResult
      in if STATUS_FAILED acc then Some (acc, unlockStream s)
         else if \<not> (chk = STATUS_SUCCESS \<or> chk \<in> set tolerated) then Some (chk, unlockStream s)
         else do {
           let s = (if latency then snd (calculateCallLatency s) else s);
           (st, s) \<leftarrow> update (s\<lparr>ks_result := callResult\<rparr>);
           if STATUS_FAILED st then Some (st, unlockStream s)
           else do {
             r \<leftarrow> iterateStreamStateMachine e s;
             (st, s) \<leftarrow> finish r;
             Some (st, unlockStream s)
           }
         })"

subsection \<open>Describe, create and tag\<close>

abbreviation (input) STREAM_DESCRIPTION_CURRENT_VERSION :: UINT32 where "STREAM_DESCRIPTION_CURRENT_VERSION \<equiv> 1"

text \<open>The fields of the description that are stored or checked; those that are only compared for a warning are left out.\<close>

record StreamDescription =
  sd_version :: UINT32
  sd_streamArn :: string
  sd_streamStatus :: STREAM_STATUS
  sd_retention :: UINT64

definition fixupStreamDescription :: "StreamDescription \<Rightarrow> StreamDescription" where
  "fixupStreamDescription d = (if sd_version d = 0 then d\<lparr>sd_retention := 0\<rparr> else d)\<lparr>sd_version := STREAM_DESCRIPTION_CURRENT_VERSION\<rparr>"

text \<open>Nothing is copied of a description of an unknown version: what is read then is uninitialised.\<close>

definition storeDescription ::
  "SERVICE_CALL_RESULT \<Rightarrow> StreamDescription option \<Rightarrow> 'e StreamObject \<Rightarrow> (STATUS \<times> 'e StreamObject) option" where
  "storeDescription callResult pStreamDescription s =
     (if callResult \<noteq> SERVICE_CALL_RESULT_OK then Some (STATUS_SUCCESS, s)
      else case pStreamDescription of
        None \<Rightarrow> Some (STATUS_INVALID_DESCRIBE_STREAM_RESPONSE, s)
      | Some d \<Rightarrow>
          if sd_version d > STREAM_DESCRIPTION_CURRENT_VERSION then None
          else
            let d = fixupStreamDescription d
            in Some (if sd_streamStatus d = STREAM_STATUS_DELETING then (STATUS_STREAM_IS_BEING_DELETED_ERROR, s)
                     else if \<not> sd_version d \<le> STREAM_DESCRIPTION_CURRENT_VERSION then (STATUS_INVALID_STREAM_DESCRIPTION_VERSION, s)
                     else if \<not> length (sd_streamArn d) \<le> MAX_ARN_LEN then (STATUS_INVALID_DESCRIBE_STREAM_RESPONSE, s)
                     else (STATUS_SUCCESS, s\<lparr>ks_arn := sd_streamArn d, ks_streamStatus := sd_streamStatus d, ks_retention := sd_retention d\<rparr>)))"

definition describeStreamResult ::
  "'e stream_env \<Rightarrow> SERVICE_CALL_RESULT \<Rightarrow> StreamDescription option \<Rightarrow> 'e StreamObject \<Rightarrow> (STATUS \<times> 'e StreamObject) option" where
  "describeStreamResult e callResult pStreamDescription =
     streamResultEvent e STREAM_STATE_DESCRIBE
       [STATUS_SERVICE_CALL_RESOURCE_NOT_FOUND_ERROR, STATUS_SERVICE_CALL_TIMEOUT_ERROR, STATUS_SERVICE_CALL_UNKOWN_ERROR,
        STATUS_SERVICE_CALL_NOT_AUTHORIZED_ERROR]
       True callResult (storeDescription callResult pStreamDescription) Some"

definition storeStreamArn :: "SERVICE_CALL_RESULT \<Rightarrow> string option \<Rightarrow> 'e StreamObject \<Rightarrow> (STATUS \<times> 'e StreamObject) option" where
  "storeStreamArn callResult streamArn s =
     (if callResult \<noteq> SERVICE_CALL_RESULT_OK then Some (STATUS_SUCCESS, s)
      else case streamArn of
        None \<Rightarrow> Some (STATUS_INVALID_CREATE_STREAM_RESPONSE, s)
      | Some arn \<Rightarrow>
          if \<not> length arn \<le> MAX_ARN_LEN then Some (STATUS_INVALID_CREATE_STREAM_RESPONSE, s) else Some (STATUS_SUCCESS, s\<lparr>ks_arn := arn\<rparr>))"

definition createStreamResult ::
  "'e stream_env \<Rightarrow> SERVICE_CALL_RESULT \<Rightarrow> string option \<Rightarrow> 'e StreamObject \<Rightarrow> (STATUS \<times> 'e StreamObject) option" where
  "createStreamResult e callResult streamArn =
     streamResultEvent e STREAM_STATE_CREATE
       [STATUS_SERVICE_CALL_TIMEOUT_ERROR, STATUS_SERVICE_CALL_UNKOWN_ERROR, STATUS_SERVICE_CALL_NOT_AUTHORIZED_ERROR]
       True callResult (storeStreamArn callResult streamArn) Some"

text \<open>A tagging that has failed for good is reported, through a callback that is not tested for \<open>NULL\<close> here, and the machine goes on.\<close>

definition overrideTagFailure :: "'e stream_env \<Rightarrow> STATUS \<times> 'e StreamObject \<Rightarrow> (STATUS \<times> 'e StreamObject) option" where
  "overrideTagFailure e r =
     (case r of (st, s) \<Rightarrow>
        if st = STATUS_TAG_STREAM_CALL_FAILED
        then if env_errorReport e = None then None
             else iterateStreamStateMachine e ((call (streamErrorReportFn INVALID_UPLOAD_HANDLE_VALUE INVALID_TIMESTAMP_VALUE STATUS_TAG_STREAM_CALL_FAILED) s)
                    \<lparr>ks_result := SERVICE_CALL_RESULT_OK\<rparr>)
        else Some (st, s))"

definition tagStreamResult :: "'e stream_env \<Rightarrow> SERVICE_CALL_RESULT \<Rightarrow> 'e StreamObject \<Rightarrow> (STATUS \<times> 'e StreamObject) option" where
  "tagStreamResult e callResult =
     streamResultEvent e STREAM_STATE_TAG_STREAM
       [STATUS_SERVICE_CALL_TIMEOUT_ERROR, STATUS_SERVICE_CALL_UNKOWN_ERROR, STATUS_SERVICE_CALL_NOT_AUTHORIZED_ERROR]
       True callResult (\<lambda>s. Some (STATUS_SUCCESS, s)) (overrideTagFailure e)"

subsection \<open>Endpoint and token\<close>

abbreviation (input) MAX_URI_CHAR_LEN :: nat where "MAX_URI_CHAR_LEN \<equiv> 10000"

definition storeEndpoint :: "SERVICE_CALL_RESULT \<Rightarrow> string \<Rightarrow> 'e StreamObject \<Rightarrow> (STATUS \<times> 'e StreamObject) option" where
  "storeEndpoint callResult pEndpoint s =
     (if callResult \<noteq> SERVICE_CALL_RESULT_OK then Some (STATUS_SUCCESS, s)
      else if \<not> length pEndpoint \<le> MAX_URI_CHAR_LEN then Some (STATUS_INVALID_URI_LEN, s)
      else Some (STATUS_SUCCESS, s\<lparr>ks_streamingEndpoint := pEndpoint\<rparr>))"

definition getStreamingEndpointResult ::
  "'e stream_env \<Rightarrow> SERVICE_CALL_RESULT \<Rightarrow> string \<Rightarrow> 'e StreamObject \<Rightarrow> (STATUS \<times> 'e StreamObject) option" where
  "getStreamingEndpointResult e callResult pEndpoint =
     streamResultEvent e STREAM_STATE_GET_ENDPOINT
       [STATUS_SERVICE_CALL_TIMEOUT_ERROR, STATUS_SERVICE_CALL_UNKOWN_ERROR, STATUS_SERVICE_CALL_NOT_AUTHORIZED_ERROR]
       True callResult (storeEndpoint callResult pEndpoint) Some"

abbreviation (input) HUNDREDS_OF_NANOS_IN_A_SECOND :: UINT64 where "HUNDREDS_OF_NANOS_IN_A_SECOND \<equiv> 10000000"
abbreviation (input) AUTH_INFO_EXPIRATION_RANDOMIZATION_DURATION_THRESHOLD :: UINT64 where
  "AUTH_INFO_EXPIRATION_RANDOMIZATION_DURATION_THRESHOLD \<equiv> 3000000000"
abbreviation (input) MAX_AUTH_INFO_EXPIRATION_RANDOMIZATION :: UINT64 where "MAX_AUTH_INFO_EXPIRATION_RANDOMIZATION \<equiv> 1800000000"
abbreviation (input) MAX_ENFORCED_TOKEN_EXPIRATION_DURATION :: UINT64 where "MAX_ENFORCED_TOKEN_EXPIRATION_DURATION \<equiv> 24000000000"

definition randomizeAuthInfoExpiration ::
  "'e stream_env \<Rightarrow> 'e KinesisVideoClient \<Rightarrow> UINT64 \<Rightarrow> UINT64 \<Rightarrow> UINT64 \<times> 'e KinesisVideoClient" where
  "randomizeAuthInfoExpiration e c expiration currentTime =
     (let jitterInSec = env_jitterInSec e (expiration - currentTime)
      in if jitterInSec = 0 \<or> currentTime + AUTH_INFO_EXPIRATION_RANDOMIZATION_DURATION_THRESHOLD > expiration then (expiration, c)
         else case cb_getRandomNumberFn (kvc_clientCallbacks c) (kvc_env c) of (r, x) \<Rightarrow>
           (expiration - min ((ucast r mod jitterInSec) * HUNDREDS_OF_NANOS_IN_A_SECOND) MAX_AUTH_INFO_EXPIRATION_RANDOMIZATION, c\<lparr>kvc_env := x\<rparr>))"

definition storeStreamingToken ::
  "'e stream_env \<Rightarrow> SERVICE_CALL_RESULT \<Rightarrow> BYTE list option \<Rightarrow> UINT32 \<Rightarrow> UINT64 \<Rightarrow> 'e StreamObject \<Rightarrow> (STATUS \<times> 'e StreamObject) option" where
  "storeStreamingToken e callResult pToken tokenSize expiration s =
     (if callResult \<noteq> SERVICE_CALL_RESULT_OK then Some (STATUS_SUCCESS, s)
      else if \<not> tokenSize \<le> MAX_AUTH_LEN then Some (STATUS_INVALID_AUTH_LEN, s)
      else
        let s = s\<lparr>ks_streamingAuthInfo := (ks_streamingAuthInfo s)\<lparr>ai_version := 0, ai_size := tokenSize\<rparr>\<rparr>
        in case streamTime s of (currentTime, s) \<Rightarrow>
          if \<not> (expiration > currentTime \<and> expiration - currentTime \<ge> MIN_STREAMING_TOKEN_EXPIRATION_DURATION)
          then Some (STATUS_INVALID_TOKEN_EXPIRATION, s)
          else case randomizeAuthInfoExpiration e (ks_pKinesisVideoClient s)
                      (min expiration (currentTime + MAX_ENFORCED_TOKEN_EXPIRATION_DURATION)) currentTime of (t, c) \<Rightarrow>
            let a = (ks_streamingAuthInfo s)\<lparr>ai_expiration := t\<rparr>;
                a = (case pToken of
                       None \<Rightarrow> a\<lparr>ai_type := AUTH_INFO_NONE\<rparr>
                     | Some d \<Rightarrow>
                         if tokenSize = 0 then a\<lparr>ai_type := AUTH_INFO_NONE\<rparr>
                         else a\<lparr>ai_type := AUTH_INFO_TYPE_STS, ai_data := take (unat tokenSize) d @ drop (unat tokenSize) (ai_data a)\<rparr>)
            in Some (STATUS_SUCCESS, s\<lparr>ks_pKinesisVideoClient := c, ks_streamingAuthInfo := a, ks_gracePeriod := False\<rparr>))"

definition getStreamingTokenResult ::
  "'e stream_env \<Rightarrow> SERVICE_CALL_RESULT \<Rightarrow> BYTE list option \<Rightarrow> UINT32 \<Rightarrow> UINT64 \<Rightarrow> 'e StreamObject \<Rightarrow> (STATUS \<times> 'e StreamObject) option" where
  "getStreamingTokenResult e callResult pToken tokenSize expiration =
     streamResultEvent e STREAM_STATE_GET_TOKEN [STATUS_SERVICE_CALL_TIMEOUT_ERROR, STATUS_SERVICE_CALL_UNKOWN_ERROR]
       False callResult (storeStreamingToken e callResult pToken tokenSize expiration) Some"

subsection \<open>Put stream\<close>

text \<open>
  The structure of the new session, or \<open>NULL\<close> when the call has failed, is put into the queue. The flags say whether its allocation and that of the
  node of the queue succeed. When the iteration fails the structure is freed, but it stays in the queue.
\<close>

definition newUpload :: "UPLOAD_HANDLE \<Rightarrow> UINT64 \<Rightarrow> UploadHandleInfo" where
  "newUpload uploadHandle createTime =
     \<lparr>uh_handle = uploadHandle, uh_timestamp = INVALID_TIMESTAMP_VALUE, uh_lastFragmentTs = INVALID_TIMESTAMP_VALUE,
      uh_lastPersistedAckTs = INVALID_TIMESTAMP_VALUE, uh_createTime = createTime, uh_state = UPLOAD_HANDLE_STATE_NEW\<rparr>"

definition enqueueUpload ::
  "SERVICE_CALL_RESULT \<Rightarrow> UPLOAD_HANDLE \<Rightarrow> bool \<Rightarrow> bool \<Rightarrow> 'e StreamObject \<Rightarrow> (STATUS \<times> 'e StreamObject) option" where
  "enqueueUpload callResult uploadHandle malloc node s =
     (if STATUS_FAILED (serviceCallResultCheck callResult)
      then if node then Some (STATUS_SUCCESS, s\<lparr>ks_pUploadInfoQueue := ks_pUploadInfoQueue s @ [None]\<rparr>) else Some (STATUS_NOT_ENOUGH_MEMORY, s)
      else if \<not> IS_VALID_UPLOAD_HANDLE uploadHandle then Some (STATUS_INVALID_ARG, s)
      else if \<not> malloc then Some (STATUS_NOT_ENOUGH_MEMORY, s)
      else case streamTime s of (createTime, s) \<Rightarrow>
        let s = count (di_totalSessions_update (\<lambda>n. n + 1)) s
        in if node then Some (STATUS_SUCCESS, s\<lparr>ks_pUploadInfoQueue := ks_pUploadInfoQueue s @ [Some (newUpload uploadHandle createTime)]\<rparr>)
           else Some (STATUS_NOT_ENOUGH_MEMORY, s))"

definition freeUpload :: "SERVICE_CALL_RESULT \<Rightarrow> UPLOAD_HANDLE \<Rightarrow> STATUS \<times> 'e StreamObject \<Rightarrow> (STATUS \<times> 'e StreamObject) option" where
  "freeUpload callResult uploadHandle r =
     (case r of (st, s) \<Rightarrow>
        Some (st, if STATUS_FAILED st \<and> STATUS_SUCCEEDED (serviceCallResultCheck callResult) then s\<lparr>ks_freed := ks_freed s @ [uploadHandle]\<rparr> else s))"

definition putStreamResult ::
  "'e stream_env \<Rightarrow> SERVICE_CALL_RESULT \<Rightarrow> UPLOAD_HANDLE \<Rightarrow> bool \<Rightarrow> bool \<Rightarrow> 'e StreamObject \<Rightarrow> (STATUS \<times> 'e StreamObject) option" where
  "putStreamResult e callResult uploadHandle malloc node =
     streamResultEvent e STREAM_STATE_PUT_STREAM
       [STATUS_SERVICE_CALL_TIMEOUT_ERROR, STATUS_SERVICE_CALL_UNKOWN_ERROR, STATUS_SERVICE_CALL_NOT_AUTHORIZED_ERROR]
       True callResult (enqueueUpload callResult uploadHandle malloc node) (freeUpload callResult uploadHandle)"

end
