(* ===== verification/StreamAck.thy ===== *)
theory StreamAck
  imports StreamEvents
begin

text \<open>
  What a stream does with the ACKs of its fragments and with the end of an upload session: the ACK functions of \<open>client/src/Stream.c\<close> and
  \<open>client/src/StreamEvent.c\<close> over the rolling content view, the queue of the upload handles and the state machine of the stream. The value \<open>None\<close> of an
  operation is the process being stopped by the fatal assertion of the search by timestamp, or a loop that does not end.
\<close>

subsection \<open>Next items\<close>

lemma getNext_measure:
  assumes "contentViewGetNext (Some v) True = (st, v', p)" "\<not> STATUS_FAILED st"
  shows "unat (cv_head (the v') - cv_current (the v')) < unat (cv_head v - cv_current v)" "cv_head (the v') = cv_head v"
  using assms unat_diff_up [of "cv_current v" "cv_head v"] by (auto simp: STATUS_FAILED_def split: if_splits)

lemma getNext_progress:
  "contentViewGetNext (Some v) True = (st, v', p) \<Longrightarrow> \<not> STATUS_FAILED st \<Longrightarrow>
    unat (cv_head (the v') - cv_current (the v')) < unat (cv_head v - cv_current v) \<and> cv_head (the v') = cv_head v"
  using getNext_measure by simp

function getNextViewItem :: "RollingContentView \<Rightarrow> STATUS \<times> RollingContentView \<times> nat option" where
  "getNextViewItem v =
     (case contentViewGetNext (Some v) True of (st, v', p) \<Rightarrow>
        if STATUS_FAILED st then (st, the v', None)
        else if CHECK_ITEM_SKIP_ITEM (flags (the v') (the p)) then getNextViewItem (the v')
        else (STATUS_SUCCESS, the v', p))"
  by pat_completeness auto
termination
  by (relation "measure (\<lambda>v. unat (cv_head v - cv_current v))") (auto dest!: getNext_measure(1) [OF sym] simp del: contentViewGetNext.simps)

declare getNextViewItem.simps [simp del]

lemma getNextViewItem_measure:
  "getNextViewItem v = (st, v', p) \<Longrightarrow> \<not> STATUS_FAILED st \<Longrightarrow>
    unat (cv_head v' - cv_current v') < unat (cv_head v - cv_current v) \<and> cv_head v' = cv_head v"
proof (induction v arbitrary: st v' p rule: getNextViewItem.induct)
  case (1 v)
  obtain st1 v1 p1 where 1: "contentViewGetNext (Some v) True = (st1, v1, p1)" by (cases "contentViewGetNext (Some v) True") auto
  show ?case
  proof (cases "STATUS_FAILED st1")
    case True
    then show ?thesis using "1.prems" 1 by (subst (asm) getNextViewItem.simps) (simp del: contentViewGetNext.simps)
  next
    case False
    note m = getNext_measure [OF 1 False]
    then show ?thesis using "1.prems" "1.IH" [OF 1 [symmetric] refl False] 1 False
      by (subst (asm) getNextViewItem.simps) (auto simp del: contentViewGetNext.simps split: if_splits)
  qed
qed

function getNextBoundaryViewItem :: "RollingContentView \<Rightarrow> STATUS \<times> RollingContentView \<times> nat option" where
  "getNextBoundaryViewItem v =
     (case getNextViewItem v of (st, v', p) \<Rightarrow>
        if STATUS_FAILED st then (st, v', None)
        else if CHECK_ITEM_FRAGMENT_START (flags v' (the p)) \<or> CHECK_ITEM_FRAGMENT_END (flags v' (the p)) then (STATUS_SUCCESS, v', p)
        else getNextBoundaryViewItem v')"
  by pat_completeness auto
termination
  by (relation "measure (\<lambda>v. unat (cv_head v - cv_current v))") (auto dest!: getNextViewItem_measure [OF sym])

declare getNextBoundaryViewItem.simps [simp del]

lemma getNextBoundary_measure:
  "getNextBoundaryViewItem v = (st, v', p) \<Longrightarrow> \<not> STATUS_FAILED st \<Longrightarrow>
    unat (cv_head v' - cv_current v') < unat (cv_head v - cv_current v) \<and> cv_head v' = cv_head v"
proof (induction v arbitrary: st v' p rule: getNextBoundaryViewItem.induct)
  case (1 v)
  obtain st1 v1 p1 where 1: "getNextViewItem v = (st1, v1, p1)" by (cases "getNextViewItem v") auto
  show ?case
  proof (cases "STATUS_FAILED st1")
    case True
    then show ?thesis using "1.prems" 1 by (subst (asm) getNextBoundaryViewItem.simps) simp
  next
    case False
    then show ?thesis using "1.prems" "1.IH" [OF 1 [symmetric] refl False] 1 getNextViewItem_measure [OF 1 False]
      by (subst (asm) getNextBoundaryViewItem.simps) (auto split: if_splits)
  qed
qed

text \<open>The loop of \<open>streamFragmentPersistedAck\<close> over the boundary items that are persisted already.\<close>

function nextUnpersisted :: "RollingContentView \<Rightarrow> STATUS \<times> RollingContentView \<times> nat option" where
  "nextUnpersisted v =
     (case getNextBoundaryViewItem v of (st, v', p) \<Rightarrow>
        if STATUS_FAILED st \<or> \<not> CHECK_ITEM_FRAGMENT_START (flags v' (the p)) \<or> \<not> CHECK_ITEM_PERSISTED_ACK (flags v' (the p)) then (st, v', p)
        else nextUnpersisted v')"
  by pat_completeness auto
termination
  by (relation "measure (\<lambda>v. unat (cv_head v - cv_current v))") (auto dest!: getNextBoundary_measure [OF sym])

declare nextUnpersisted.simps [simp del]

subsection \<open>Termination of a session\<close>

text \<open>Every session is terminated and woken up, up to the first callback that fails.\<close>

fun terminateAll :: "'e stream_env \<Rightarrow> nat list \<Rightarrow> 'e StreamObject \<Rightarrow> STATUS \<times> 'e StreamObject" where
  "terminateAll e [] s = (STATUS_SUCCESS, s)"
| "terminateAll e (i # is) s =
     (if ks_pUploadInfoQueue s ! i = None then (STATUS_INTERNAL_ERROR, s)
      else
        let s = update_upload i (uh_state_update (\<lambda>_. UPLOAD_HANDLE_STATE_TERMINATED)) s;
            h = uh_handle (upload s i);
            st = env_dataAvailable e s h;
            s = call (streamDataAvailableFn h 0 0) s
        in if STATUS_FAILED st then (st, s) else terminateAll e is s)"

text \<open>The decision about the rollback when a session that has sent something ends.\<close>

definition decideConnection :: "'e stream_env \<Rightarrow> nat \<Rightarrow> 'e StreamObject \<Rightarrow> 'e StreamObject" where
  "decideConnection e i s =
     (if getStreamUploadInfoWithState s UPLOAD_HANDLE_STATE_ACTIVE = None then s\<lparr>ks_connectionState := UPLOAD_CONNECTION_STATE_IN_USE\<rparr>
      else
        let s = s\<lparr>ks_connectionState := UPLOAD_CONNECTION_STATE_NOT_IN_USE\<rparr>
        in if uh_state (upload s i) = UPLOAD_HANDLE_STATE_AWAITING_ACK \<and> env_errorReport e \<noteq> None
           then call (streamErrorReportFn (uh_handle (upload s i)) (uh_lastFragmentTs (upload s i)) STATUS_PUTMEDIA_LAST_PERSIST_ACK_NOT_RECEIVED) s
           else s)"

text \<open>The session of a known handle; the flag of the result says whether a new session has to be opened.\<close>

definition terminateOne :: "'e stream_env \<Rightarrow> nat \<Rightarrow> bool \<Rightarrow> 'e StreamObject \<Rightarrow> bool \<times> 'e StreamObject" where
  "terminateOne e i connectionStillAlive s =
     (let notUsed = IS_UPLOAD_HANDLE_IN_STATE (upload s i) UPLOAD_HANDLE_STATE_NOT_IN_USE;
          s = update_upload i (uh_state_update (\<lambda>_. UPLOAD_HANDLE_STATE_TERMINATED)) s;
          s = (if notUsed then s else decideConnection e i s);
          s = (if connectionStillAlive then call (streamDataAvailableFn (uh_handle (upload s i)) 0 0) s else deleteStreamUploadInfo i s)
      in case getStreamUploadInfoWithState s UPLOAD_HANDLE_STATE_ACTIVE of
           None \<Rightarrow> (True, s)
         | Some j \<Rightarrow> (False, call (streamDataAvailableFn (uh_handle (upload s j)) 0 0) s))"

definition parkedAtTimecodeBase :: "'e StreamObject \<Rightarrow> bool" where
  "parkedAtTimecodeBase s \<longleftrightarrow> ks_streamStopped s \<and> vi_handle (ci_viewItem (ks_curViewItem s)) \<noteq> 0 \<and>
     CHECK_ITEM_TIMECODE_BASE_START (vi_flags (ci_viewItem (ks_curViewItem s))) \<and> ci_offset (ks_curViewItem s) = 0"

abbreviation (input) SERVICE_CALL_STREAM_AUTH_IN_GRACE_PERIOD :: SERVICE_CALL_RESULT where "SERVICE_CALL_STREAM_AUTH_IN_GRACE_PERIOD \<equiv> 10401"

text \<open>The part for a session that has ended for good.\<close>

definition terminateSessions :: "'e stream_env \<Rightarrow> UPLOAD_HANDLE \<Rightarrow> bool \<Rightarrow> 'e StreamObject \<Rightarrow> STATUS \<times> bool \<times> 'e StreamObject" where
  "terminateSessions e uploadHandle connectionStillAlive s =
     (let (st, spawn, s) =
        (if \<not> IS_VALID_UPLOAD_HANDLE uploadHandle
         then case terminateAll e [0..<length (ks_pUploadInfoQueue s)] (s\<lparr>ks_connectionState := UPLOAD_CONNECTION_STATE_IN_USE\<rparr>) of
                (st, s) \<Rightarrow> (st, True, s)
         else case getStreamUploadInfo s uploadHandle of
                None \<Rightarrow> (STATUS_SUCCESS, True, s\<lparr>ks_connectionState := UPLOAD_CONNECTION_STATE_IN_USE\<rparr>)
              | Some i \<Rightarrow> (STATUS_SUCCESS, terminateOne e i connectionStillAlive s))
      in if STATUS_FAILED st then (st, spawn, s)
         else (st, spawn, if parkedAtTimecodeBase s then s\<lparr>ks_connectionState := UPLOAD_CONNECTION_STATE_NOT_IN_USE\<rparr> else s))"

text \<open>
  The part that opens a new session: the stream is stopped and its machine iterated, unless the machine is on its way to a new session already. A failure
  of the authentication of the client starts over in any case.
\<close>

abbreviation (input) SPAWNING_STATES :: UINT64 where "SPAWNING_STATES \<equiv> 126"

definition respawn :: "'e stream_env \<Rightarrow> SERVICE_CALL_RESULT \<Rightarrow> 'e StreamObject \<Rightarrow> (STATUS \<times> 'e StreamObject) option" where
  "respawn e callResult s =
     (let s = s\<lparr>ks_streamState := STREAM_STATE_STOPPED\<rparr>;
          acc = acceptsEntry e s STREAM_STATE_STOPPED
      in if STATUS_FAILED acc then Some (acc, s) else iterateStreamStateMachine e (s\<lparr>ks_result := callResult\<rparr>))"

definition spawnSession :: "'e stream_env \<Rightarrow> SERVICE_CALL_RESULT \<Rightarrow> bool \<Rightarrow> 'e StreamObject \<Rightarrow> (STATUS \<times> 'e StreamObject) option" where
  "spawnSession e callResult spawn s =
     (if kvc_result (ks_pKinesisVideoClient s) \<noteq> SERVICE_CALL_AUTH_FAILURE \<and> STATUS_SUCCEEDED (acceptStreamState e s SPAWNING_STATES)
      then Some (STATUS_SUCCESS, s)
      else if spawn then respawn e callResult s
      else Some (STATUS_SUCCESS, s))"

definition streamTerminatedEvent ::
  "'e stream_env \<Rightarrow> 'e StreamObject option \<Rightarrow> UPLOAD_HANDLE \<Rightarrow> SERVICE_CALL_RESULT \<Rightarrow> bool \<Rightarrow> (STATUS \<times> 'e StreamObject option) option" where
  "streamTerminatedEvent e pKinesisVideoStream uploadHandle callResult connectionStillAlive =
     (case pKinesisVideoStream of None \<Rightarrow> Some (STATUS_NULL_ARG, None)
      | Some s \<Rightarrow>
          let s = lockStream s;
              (st, spawn, s) =
                (if callResult = SERVICE_CALL_STREAM_AUTH_IN_GRACE_PERIOD then (STATUS_SUCCESS, True, s)
                 else terminateSessions e uploadHandle connectionStillAlive s)
          in do {
            (st, s) \<leftarrow> (if STATUS_FAILED st then Some (st, s) else spawnSession e callResult spawn s);
            Some (st, Some (unlockStream s))
          })"

subsection \<open>The ACKs\<close>

definition streamFragmentBufferingAck :: "'e StreamObject \<Rightarrow> UINT64 \<Rightarrow> (STATUS \<times> 'e StreamObject) option" where
  "streamFragmentBufferingAck s timestamp = do {
     (st, p) \<leftarrow> contentViewGetItemWithTimestamp (Some (ks_pView s)) timestamp True True;
     if STATUS_FAILED st then Some (st, s)
     else Some (STATUS_SUCCESS, count (di_bufferedAcks_update (\<lambda>n. n + 1)) (set_view (SET_ITEM_BUFFERING_ACK (the p) (ks_pView s)) s))
   }"

definition streamFragmentReceivedAck :: "'e StreamObject \<Rightarrow> UINT64 \<Rightarrow> (STATUS \<times> 'e StreamObject) option" where
  "streamFragmentReceivedAck s timestamp = do {
     (st, p) \<leftarrow> contentViewGetItemWithTimestamp (Some (ks_pView s)) timestamp True True;
     if STATUS_FAILED st then Some (st, s)
     else Some (STATUS_SUCCESS, count (di_receivedAcks_update (\<lambda>n. n + 1)) (set_view (SET_ITEM_RECEIVED_ACK (the p) (ks_pView s)) s))
   }"

text \<open>Whether the sessions before the one of the handle are ready to be trimmed.\<close>

fun earlierReady :: "UPLOAD_HANDLE \<Rightarrow> UploadHandleInfo option list \<Rightarrow> STATUS \<times> bool" where
  "earlierReady h [] = (STATUS_SUCCESS, True)"
| "earlierReady h (None # us) = (STATUS_INTERNAL_ERROR, False)"
| "earlierReady h (Some u # us) =
     (if uh_handle u = h then (STATUS_SUCCESS, True)
      else if \<not> IS_UPLOAD_HANDLE_READY_TO_TRIM u then (STATUS_SUCCESS, False) else earlierReady h us)"

text \<open>The status with which the search for the boundary ended is kept, as long as no call after it fails.\<close>

definition notifyAwaiting :: "'e stream_env \<Rightarrow> nat \<Rightarrow> UINT64 \<Rightarrow> STATUS \<Rightarrow> 'e StreamObject \<Rightarrow> STATUS \<times> bool \<times> 'e StreamObject" where
  "notifyAwaiting e i timestamp retStatus s =
     (let u = upload s i
      in if WAIT_FOR_PERSISTED_ACK s \<and> uh_state u = UPLOAD_HANDLE_STATE_AWAITING_ACK \<and> timestamp = uh_lastFragmentTs u
         then
           let s = update_upload i (uh_state_update (\<lambda>_. UPLOAD_HANDLE_STATE_ACK_RECEIVED)) s
           in case getAvailableViewSize s of (st, duration, viewByteSize) \<Rightarrow>
             if STATUS_FAILED st then (st, False, s)
             else
               let st = env_dataAvailable e s (uh_handle u);
                   s = call (streamDataAvailableFn (uh_handle u) duration viewByteSize) s
               in if STATUS_FAILED st then (st, False, s) else (retStatus, True, s)
         else (retStatus, True, s))"

text \<open>The part between setting the current item and setting it back.\<close>

definition trimPersisted :: "'e stream_env \<Rightarrow> nat \<Rightarrow> UINT64 \<Rightarrow> 'e StreamObject \<Rightarrow> STATUS \<times> 'e StreamObject" where
  "trimPersisted e i timestamp s =
     (case nextUnpersisted (ks_pView s) of (st, v, p) \<Rightarrow>
        let s = set_view v s
        in if \<not> (st = STATUS_SUCCESS \<or> st = STATUS_CONTENT_VIEW_NO_MORE_ITEMS) then (st, s)
           else case notifyAwaiting e i timestamp st s of (st, ok, s) \<Rightarrow>
             if \<not> ok then (st, s)
             else if st = STATUS_CONTENT_VIEW_NO_MORE_ITEMS then (STATUS_SUCCESS, s)
             else
               let item = cv_itemBuffer (ks_pView s) ! the p;
                   boundaryItemIndex = (if CHECK_ITEM_FRAGMENT_END (vi_flags item) then vi_index item + 1 else vi_index item)
               in case contentViewTrimTail (Some (ks_pView s)) boundaryItemIndex of (st, v, removed) \<Rightarrow>
                 let s = (set_view (the v) s)\<lparr>ks_removed := ks_removed s @ removed\<rparr>
                 in if STATUS_FAILED st then (st, s)
                    else (STATUS_SUCCESS, if ks_streamingType s = STREAMING_TYPE_OFFLINE then snd (broadcast s) else s))"

definition streamFragmentPersistedAck :: "'e stream_env \<Rightarrow> 'e StreamObject \<Rightarrow> UINT64 \<Rightarrow> nat \<Rightarrow> (STATUS \<times> 'e StreamObject) option" where
  "streamFragmentPersistedAck e s timestamp i = do {
     let s = count (di_persistedAcks_update (\<lambda>n. n + 1)) (update_upload i (uh_lastPersistedAckTs_update (\<lambda>_. timestamp)) s);
     (st, p) \<leftarrow> contentViewGetItemWithTimestamp (Some (ks_pView s)) timestamp True True;
     if STATUS_FAILED st then Some (st, s)
     else do {
       let s = set_view (SET_ITEM_PERSISTED_ACK (the p) (ks_pView s)) s;
       if \<not> snd (earlierReady (uh_handle (upload s i)) (ks_pUploadInfoQueue s))
       then Some (fst (earlierReady (uh_handle (upload s i)) (ks_pUploadInfoQueue s)), s)
       else do {
         let curItemIndex = cv_current (ks_pView s);
         case contentViewSetCurrentIndex (Some (ks_pView s)) (vi_index (cv_itemBuffer (ks_pView s) ! the p) + 1) of (st, v) \<Rightarrow>
           if STATUS_FAILED st then Some (st, s)
           else case trimPersisted e i timestamp (set_view (the v) s) of (st, s) \<Rightarrow>
             Some (st, set_view (the (snd (contentViewSetCurrentIndex (Some (ks_pView s)) curItemIndex))) s)
       }
     }
   }"

definition serviceCallResultRetry :: "SERVICE_CALL_RESULT \<Rightarrow> bool" where
  "serviceCallResultRetry callResult \<longleftrightarrow> callResult \<notin>
     {406, 10005, 10004, 401, 403, 4506, 10400, 10000, 10001, 10002, 4001, 4002, 4004, 4006, 4005, 4007, 4009, 4010, 4011, 4012,
      4500, 4501, 4502, 4503, 4504, 4505, 4008, 4507}"

text \<open>The loop that marks the items before the failed one, back to the start of the range.\<close>

partial_function (option) skipBackLoop :: "UINT64 \<Rightarrow> nat \<Rightarrow> 'e StreamObject \<Rightarrow> 'e StreamObject option" where
  "skipBackLoop startTimestamp p s =
     (case contentViewGetItemAt (Some (ks_pView s)) (vi_index (cv_itemBuffer (ks_pView s) ! p) - 1) True of (st, q) \<Rightarrow>
        if STATUS_FAILED st \<or> vi_ackTimestamp (cv_itemBuffer (ks_pView s) ! the q) < startTimestamp then Some s
        else skipBackLoop startTimestamp (the q)
               (count (di_skippedFrames_update (\<lambda>n. n + 1)) (set_view (SET_ITEM_SKIP_ITEM (the q) (ks_pView s)) s)))"

text \<open>The loop that marks the failed fragment and moves the current item to the start of the next one.\<close>

lemma set_flag_cursors [simp]:
  "cv_head (set_flag f p v) = cv_head v" "cv_tail (set_flag f p v) = cv_tail v" "cv_current (set_flag f p v) = cv_current v"
  by (simp_all add: set_flag_def)

function skipFragmentLoop :: "nat \<Rightarrow> 'e StreamObject \<Rightarrow> STATUS \<times> 'e StreamObject" where
  "skipFragmentLoop p s =
     (let s = count (di_skippedFrames_update (\<lambda>n. n + 1)) (set_view (SET_ITEM_SKIP_ITEM p (ks_pView s)) s)
      in case contentViewGetNext (Some (ks_pView s)) True of (st, v, q) \<Rightarrow>
        let s = set_view (the v) s
        in if st = STATUS_CONTENT_VIEW_NO_MORE_ITEMS then (STATUS_SUCCESS, s\<lparr>ks_resetGeneratorOnKeyFrame := True, ks_skipNonKeyFrames := True\<rparr>)
           else if STATUS_FAILED st then (st, s)
           else
             let fl = flags (ks_pView s) (the q)
             in if CHECK_ITEM_FRAGMENT_START fl \<or> CHECK_ITEM_STREAM_START fl \<or> CHECK_ITEM_FRAGMENT_END fl
                then case contentViewSetCurrentIndex (Some (ks_pView s)) (vi_index (cv_itemBuffer (ks_pView s) ! the q)) of (st, v) \<Rightarrow>
                  (if STATUS_FAILED st then st else STATUS_SUCCESS, set_view (the v) s)
                else skipFragmentLoop (the q) s)"
  by pat_completeness auto
termination
  by (relation "measure (\<lambda>(p, s). unat (cv_head (ks_pView s) - cv_current (ks_pView s)))")
    (auto simp: set_view_def count_def SET_ITEM_SKIP_ITEM_def simp del: contentViewGetNext.simps
      dest!: getNext_progress [OF sym])

declare skipFragmentLoop.simps [simp del]

definition skipFragment :: "UINT64 \<Rightarrow> UINT64 \<Rightarrow> nat \<Rightarrow> 'e StreamObject \<Rightarrow> (STATUS \<times> 'e StreamObject) option" where
  "skipFragment startTimestamp timestamp p s = do {
     s \<leftarrow> (if startTimestamp \<noteq> timestamp then skipBackLoop startTimestamp p s else Some s);
     case contentViewGetNext (Some (ks_pView s)) True of (st, v, q) \<Rightarrow>
       let s = set_view (the v) s
       in if st = STATUS_CONTENT_VIEW_NO_MORE_ITEMS then Some (STATUS_SUCCESS, s)
          else if STATUS_FAILED st then Some (st, s)
          else Some (skipFragmentLoop (the q) s)
   }"

definition streamFragmentErrorAck :: "'e stream_env \<Rightarrow> 'e StreamObject \<Rightarrow> UINT64 \<Rightarrow> UINT64 \<Rightarrow> SERVICE_CALL_RESULT \<Rightarrow> (STATUS \<times> 'e StreamObject) option" where
  "streamFragmentErrorAck e s startTimestamp timestamp callResult = do {
     let s = count (di_errorAcks_update (\<lambda>n. n + 1)) s;
     (st, p) \<leftarrow> contentViewGetItemWithTimestamp (Some (ks_pView s)) timestamp True True;
     if STATUS_FAILED st then Some (st, s)
     else case contentViewSetCurrentIndex (Some (ks_pView s)) (vi_index (cv_itemBuffer (ks_pView s) ! the p)) of (st, v) \<Rightarrow>
       if STATUS_FAILED st then Some (st, s)
       else do {
         let s = set_view (the v) s;
         (st, s) \<leftarrow> (if serviceCallResultRetry callResult then Some (STATUS_SUCCESS, s) else skipFragment startTimestamp timestamp (the p) s);
         if STATUS_FAILED st then Some (st, s)
         else
           let info = getCurrentStreamUploadInfo s;
               uploadHandle = (case info of None \<Rightarrow> INVALID_UPLOAD_HANDLE_VALUE | Some i \<Rightarrow> uh_handle (upload s i));
               (st, s) = (case env_errorReport e of
                   None \<Rightarrow> (STATUS_SUCCESS, s)
                 | Some f \<Rightarrow> (f s uploadHandle,
                     call (streamErrorReportFn uploadHandle (vi_timestamp (cv_itemBuffer (ks_pView s) ! the p)) (serviceCallResultCheck callResult)) s))
           in if STATUS_FAILED st then Some (st, s)
              else case info of
                None \<Rightarrow> Some (STATUS_SUCCESS, s)
              | Some i \<Rightarrow> map_option (\<lambda>(st, s'). (st, the s')) (streamTerminatedEvent e (Some s) (uh_handle (upload s i)) callResult True)
       }
   }"

definition DEFAULT_TIME_UNIT_IN_NANOS :: UINT64 where "DEFAULT_TIME_UNIT_IN_NANOS = 100"

definition MKV_TIMECODE_TO_TIMESTAMP :: "UINT64 \<Rightarrow> UINT64 \<Rightarrow> UINT64" where
  "MKV_TIMECODE_TO_TIMESTAMP tc tcs = tc * (tcs div DEFAULT_TIME_UNIT_IN_NANOS)"

text \<open>\<open>timecodeScale\<close> is that of the generator, \<open>None\<close> that there is no generator.\<close>

definition mkvgenTimecodeToTimestamp :: "UINT64 option \<Rightarrow> UINT64 \<Rightarrow> bool \<Rightarrow> STATUS \<times> UINT64 option" where
  "mkvgenTimecodeToTimestamp timecodeScale timecode pTimestamp =
     (case timecodeScale of
        Some tcs \<Rightarrow> if pTimestamp then (STATUS_SUCCESS, Some (MKV_TIMECODE_TO_TIMESTAMP timecode tcs)) else (STATUS_NULL_ARG, None)
      | None \<Rightarrow> (STATUS_NULL_ARG, None))"

text \<open>The timestamp an ACK is for, and the timestamp up to which an error of it reaches back.\<close>

definition ackTimestamp :: "'e StreamObject \<Rightarrow> UploadHandleInfo \<Rightarrow> FragmentAck \<Rightarrow> STATUS \<times> UINT64 \<times> UINT64" where
  "ackTimestamp s u ack =
     (if \<not> IS_VALID_TIMESTAMP (fa_timestamp ack)
      then
        let curIndex = cv_current (ks_pView s)
        in case contentViewGetHead (Some (ks_pView s)) True of (st, p) \<Rightarrow>
          if STATUS_FAILED st then (st, 0, 0)
          else
            let (st, p) = (if curIndex < vi_index (cv_itemBuffer (ks_pView s) ! the p)
                           then contentViewGetItemAt (Some (ks_pView s)) curIndex True else (STATUS_SUCCESS, p))
            in if STATUS_FAILED st then (st, 0, 0)
               else (STATUS_SUCCESS, vi_ackTimestamp (cv_itemBuffer (ks_pView s) ! the p),
                 if IS_VALID_TIMESTAMP (uh_lastPersistedAckTs u) then uh_lastPersistedAckTs u else uh_timestamp u)
      else case mkvgenTimecodeToTimestamp (Some (ks_timecodeScale s)) (fa_timestamp ack) True of (st, timestamp) \<Rightarrow>
        if STATUS_FAILED st then (st, 0, 0)
        else
          let timestamp = (if \<not> ks_absoluteFragmentTimes s \<and> IS_VALID_TIMESTAMP (uh_timestamp u) then the timestamp + uh_timestamp u else the timestamp)
          in (STATUS_SUCCESS, timestamp, timestamp))"

definition dispatchAck :: "'e stream_env \<Rightarrow> 'e StreamObject \<Rightarrow> nat \<Rightarrow> FragmentAck \<Rightarrow> bool \<Rightarrow> UINT64 \<Rightarrow> UINT64 \<Rightarrow> (STATUS \<times> 'e StreamObject) option" where
  "dispatchAck e s i ack inView timestamp errorSkipStart =
     (case fa_ackType ack of
        FRAGMENT_ACK_TYPE_BUFFERING \<Rightarrow> if inView then streamFragmentBufferingAck s timestamp else Some (STATUS_SUCCESS, s)
      | FRAGMENT_ACK_TYPE_RECEIVED \<Rightarrow> if inView then streamFragmentReceivedAck s timestamp else Some (STATUS_SUCCESS, s)
      | FRAGMENT_ACK_TYPE_PERSISTED \<Rightarrow> if inView then streamFragmentPersistedAck e s timestamp i else Some (STATUS_SUCCESS, s)
      | FRAGMENT_ACK_TYPE_ERROR \<Rightarrow>
          if inView then streamFragmentErrorAck e s errorSkipStart timestamp (fa_result ack)
          else (case contentViewGetTail (Some (ks_pView s)) True of (st, p) \<Rightarrow>
            if STATUS_FAILED st then Some (st, s)
            else streamFragmentErrorAck e s errorSkipStart (vi_ackTimestamp (cv_itemBuffer (ks_pView s) ! the p)) (fa_result ack))
      | _ \<Rightarrow> Some (STATUS_INVALID_FRAGMENT_ACK_TYPE, s))"

definition expiredHandle :: "UploadHandleInfo \<Rightarrow> bool" where
  "expiredHandle u \<longleftrightarrow> uh_state u = UPLOAD_HANDLE_STATE_ERROR \<or> uh_state u = UPLOAD_HANDLE_STATE_TERMINATED \<or> \<not> IS_VALID_UPLOAD_HANDLE (uh_handle u)"

text \<open>The part under the lock of the stream.\<close>

definition processAck :: "'e stream_env \<Rightarrow> 'e StreamObject \<Rightarrow> UPLOAD_HANDLE \<Rightarrow> FragmentAck \<Rightarrow> (STATUS \<times> 'e StreamObject) option" where
  "processAck e s uploadHandle ack =
     (case getStreamUploadInfo s uploadHandle of
        None \<Rightarrow> Some (STATUS_SUCCESS, s)
      | Some i \<Rightarrow>
          if expiredHandle (upload s i) then Some (STATUS_SUCCESS, s)
          else case ackTimestamp s (upload s i) ack of (st, timestamp, errorSkipStart) \<Rightarrow>
            if STATUS_FAILED st then Some (st, s)
            else case contentViewTimestampInRange (Some (ks_pView s)) timestamp True True of (st, inView) \<Rightarrow>
              if STATUS_FAILED st then Some (st, s)
              else do {
                (st, s) \<leftarrow> dispatchAck e s i ack (the inView) timestamp errorSkipStart;
                if STATUS_FAILED st then Some (st, s)
                else Some (if the inView then STATUS_SUCCESS else STATUS_ACK_TIMESTAMP_NOT_IN_VIEW_WINDOW, s)
              })"

definition streamFragmentAckEvent ::
  "'e stream_env \<Rightarrow> 'e StreamObject option \<Rightarrow> UPLOAD_HANDLE \<Rightarrow> FragmentAck option \<Rightarrow> (STATUS \<times> 'e StreamObject option) option" where
  "streamFragmentAckEvent e pKinesisVideoStream uploadHandle pFragmentAck =
     (case (pKinesisVideoStream, pFragmentAck) of
        (Some s, Some ack) \<Rightarrow>
          if \<not> fa_version ack \<le> FRAGMENT_ACK_CURRENT_VERSION then Some (STATUS_INVALID_FRAGMENT_ACK_VERSION, Some s)
          else if fa_ackType ack = FRAGMENT_ACK_TYPE_IDLE then Some (STATUS_SUCCESS, Some s)
          else do {
            (st, s) \<leftarrow> processAck e (lockStream s) uploadHandle ack;
            let s = (if env_ackReceived e then call (fragmentAckReceivedFn uploadHandle ack) s else s);
            Some (st, Some (unlockStream s))
          }
      | (pStream, _) \<Rightarrow> Some (STATUS_NULL_ARG, pStream))"

text \<open>The event handler of the ACK parser.\<close>

definition ack_event :: "'e stream_env \<Rightarrow> 'e StreamObject \<Rightarrow> UPLOAD_HANDLE \<Rightarrow> FragmentAck \<Rightarrow> (STATUS \<times> 'e StreamObject) option" where
  "ack_event e s uploadHandle ack = map_option (\<lambda>(st, s). (st, the s)) (streamFragmentAckEvent e (Some s) uploadHandle (Some ack))"

end
