(* ===== verification/NumberStrings.thy ===== *)
theory NumberStrings
  imports Strings
begin

text \<open>
  The conversions between numbers and strings: the checked multiplication detects exactly the overflows, reading digits
  gives their value or reports the overflow, and reading inverts writing in every base.
\<close>

subsection \<open>Checked multiplication\<close>

lemma word_split32:
  fixes x :: UINT64
  shows "unat (x AND 0x00000000ffffffff) = unat x mod 2 ^ 32" "unat (drop_bit 32 (x AND 0xffffffff00000000)) = unat x div 2 ^ 32"
proof -
  have lo: "(0xffffffff :: UINT64) = mask 32" by (simp add: mask_eq_exp_minus_1)
  show "unat (x AND 0x00000000ffffffff) = unat x mod 2 ^ 32"
    unfolding lo take_bit_eq_mask [symmetric] unsigned_take_bit_eq by (simp add: take_bit_eq_mod)
  have "drop_bit 32 (x AND 0xffffffff00000000) = drop_bit 32 x AND drop_bit 32 0xffffffff00000000" by (rule drop_bit_and)
  also have "drop_bit 32 (0xffffffff00000000 :: UINT64) = mask 32" by (simp add: drop_bit_eq_div lo [symmetric])
  also have "drop_bit 32 x AND mask 32 = drop_bit 32 x"
    by (rule bit_word_eqI) (auto simp: bit_simps dest: bit_imp_le_length)
  finally have "drop_bit 32 (x AND 0xffffffff00000000) = drop_bit 32 x" .
  then show "unat (drop_bit 32 (x AND 0xffffffff00000000)) = unat x div 2 ^ 32"
    by (simp only: drop_bit_eq_div unat_div) (simp add: unat_div)
qed

lemma unat_mult_small: "unat x * unat y < 2 ^ 64 \<Longrightarrow> unat (x * y :: UINT64) = unat x * unat y"
  by (simp add: unat_word_ariths)

lemma unat_add_small: "unat x + unat y < 2 ^ 64 \<Longrightarrow> unat (x + y :: UINT64) = unat x + unat y"
  by (simp add: unat_word_ariths)

lemma unat64_less: "unat (x :: UINT64) < 2 ^ 64"
  using unsigned_less [of x, where 'a = nat] by simp

lemma add_overflow: "(x + y :: UINT64) < x \<longleftrightarrow> 2 ^ 64 \<le> unat x + unat y"
proof (cases "unat x + unat y < 2 ^ 64")
  case True
  then show ?thesis using unat_add_small [OF True] by (simp add: word_less_nat_alt)
next
  case False
  have "(unat x + unat y) mod 2 ^ 64 = unat x + unat y - 2 ^ 64"
    using False unat64_less [of x] unat64_less [of y] by (simp add: mod_if)
  then have "unat (x + y) = unat x + unat y - 2 ^ 64" by (simp add: unat_word_ariths)
  then show ?thesis using False unat64_less [of x] unat64_less [of y] by (simp add: word_less_nat_alt)
qed

lemma cross_product: "p = 0 \<or> p' = 0 \<Longrightarrow> (k * p + q) * (k * p' + q') = k * (p * q' + q * p') + q * (q' :: nat)"
  by (auto simp: algebra_simps)

lemma split_product:
  fixes a b :: nat
  assumes "a div 2 ^ 32 = 0 \<or> b div 2 ^ 32 = 0"
  shows "a * b = 2 ^ 32 * ((a div 2 ^ 32) * (b mod 2 ^ 32) + (a mod 2 ^ 32) * (b div 2 ^ 32)) + (a mod 2 ^ 32) * (b mod 2 ^ 32)"
  using cross_product [OF assms, of "2 ^ 32" "a mod 2 ^ 32" "b mod 2 ^ 32"] unfolding mult_div_mod_eq .

lemma safeMultiplyAdd:
  "unsignedSafeMultiplyAdd a b c True =
     (if unat a * unat b + unat c < 2 ^ 64 then (STATUS_SUCCESS, Some (of_nat (unat a * unat b + unat c))) else (STATUS_INT_OVERFLOW, Some 0))"
proof (cases "a = 0 \<or> b = 0")
  case True
  then show ?thesis using unat64_less [of c] by (auto simp: unsignedSafeMultiplyAdd_def)
next
  case False
  define ah al bh bl where "ah = drop_bit 32 (a AND 0xffffffff00000000)" "al = a AND 0x00000000ffffffff"
    "bh = drop_bit 32 (b AND 0xffffffff00000000)" "bl = b AND 0x00000000ffffffff"
  define A B where "A = unat a" "B = unat b"
  have u: "unat ah = A div 2 ^ 32" "unat al = A mod 2 ^ 32" "unat bh = B div 2 ^ 32" "unat bl = B mod 2 ^ 32"
    unfolding ah_al_bh_bl_def A_B_def by (rule word_split32)+
  have small: "unat ah < 2 ^ 32" "unat al < 2 ^ 32" "unat bh < 2 ^ 32" "unat bl < 2 ^ 32"
    using unat64_less [of a] unat64_less [of b] unfolding u A_B_def by (auto simp: less_mult_imp_div_less)
  have run0: "unsignedSafeMultiplyAdd a b c True =
      (if ah \<noteq> 0 \<and> bh \<noteq> 0 then (STATUS_INT_OVERFLOW, Some 0)
       else if ah * bl + al * bh > 0xffffffff then (STATUS_INT_OVERFLOW, Some 0)
       else if push_bit 32 (ah * bl + al * bh) + al * bl < push_bit 32 (ah * bl + al * bh) then (STATUS_INT_OVERFLOW, Some 0)
       else if push_bit 32 (ah * bl + al * bh) + al * bl + c < push_bit 32 (ah * bl + al * bh) + al * bl then (STATUS_INT_OVERFLOW, Some 0)
       else (STATUS_SUCCESS, Some (push_bit 32 (ah * bl + al * bh) + al * bl + c)))"
    using False unfolding unsignedSafeMultiplyAdd_def ah_al_bh_bl_def Let_def by (simp only: if_False if_True simp_thms not_True_eq_False)
  show ?thesis
  proof (cases "ah \<noteq> 0 \<and> bh \<noteq> 0")
    case True
    then have "2 ^ 32 \<le> A" "2 ^ 32 \<le> B" using u by (metis div_less not_le unat_eq_zero)+
    then have "2 ^ 32 * 2 ^ 32 \<le> A * B" by (rule mult_le_mono)
    then show ?thesis unfolding run0 using True by (simp add: A_B_def)
  next
    case hi: False
    then have hi0: "A div 2 ^ 32 = 0 \<or> B div 2 ^ 32 = 0" using u by (metis unat_eq_zero)
    define M where "M = (A div 2 ^ 32) * (B mod 2 ^ 32) + (A mod 2 ^ 32) * (B div 2 ^ 32)"
    define LL where "LL = (A mod 2 ^ 32) * (B mod 2 ^ 32)"
    have AB: "A * B = 2 ^ 32 * M + LL" unfolding M_def LL_def by (rule split_product [OF hi0])
    have bound: "x * y < 2 ^ 64" if "x < 2 ^ 32" "y < (2 ^ 32 :: nat)" for x y
      using mult_strict_mono [OF that] by simp
    have M: "M < 2 ^ 64" "LL < 2 ^ 64" using hi0 bound small unfolding M_def LL_def u by auto
    have uM: "unat (ah * bl + al * bh) = M"
    proof -
      have "unat (ah * bl) = (A div 2 ^ 32) * (B mod 2 ^ 32)" "unat (al * bh) = (A mod 2 ^ 32) * (B div 2 ^ 32)"
        using bound [of "unat ah" "unat bl"] bound [of "unat al" "unat bh"] small u by (simp_all add: unat_mult_small)
      then show ?thesis using M(1) unat_add_small [of "ah * bl" "al * bh"] by (simp add: M_def)
    qed
    have uL: "unat (al * bl) = LL" using bound small u by (simp add: unat_mult_small LL_def)
    show ?thesis
    proof (cases "M < 2 ^ 32")
      case False
      then have "2 ^ 32 * 2 ^ 32 \<le> A * B" unfolding AB by (intro trans_le_add1 mult_le_mono) simp_all
      moreover have "ah * bl + al * bh > 0xffffffff" using False uM by (simp add: word_less_nat_alt)
      ultimately show ?thesis unfolding run0 using hi by (simp add: A_B_def)
    next
      case True
      then have le: "\<not> ah * bl + al * bh > 0xffffffff" using uM by (simp add: word_less_nat_alt)
      have uS: "unat (push_bit 32 (ah * bl + al * bh)) = 2 ^ 32 * M"
        using True uM unat_mult_small [of "2 ^ 32" "ah * bl + al * bh"] by (simp add: push_bit_eq_mult mult.commute)
      have ov: "push_bit 32 (ah * bl + al * bh) + al * bl < push_bit 32 (ah * bl + al * bh) \<longleftrightarrow> 2 ^ 64 \<le> A * B"
        unfolding add_overflow uS uL AB ..
      define R where "R = push_bit 32 (ah * bl + al * bh) + al * bl"
      have run: "unsignedSafeMultiplyAdd a b c True = (if R < push_bit 32 (ah * bl + al * bh) then (STATUS_INT_OVERFLOW, Some 0)
          else if R + c < R then (STATUS_INT_OVERFLOW, Some 0) else (STATUS_SUCCESS, Some (R + c)))"
        unfolding run0 R_def using hi le by (simp only: if_False)
      show ?thesis
      proof (cases "A * B < 2 ^ 64")
        case True
        then have uR: "unat R = A * B" using uS uL AB unat_add_small by (simp add: R_def)
        have "R = of_nat (unat R)" by simp
        then have "R = of_nat (A * B)" unfolding uR .
        then show ?thesis unfolding run using True ov uR add_overflow [of R c] by (auto simp: R_def [symmetric] A_B_def)
      next
        case False
        then show ?thesis unfolding run using ov by (simp add: R_def [symmetric] A_B_def)
      qed
    qed
  qed
qed

subsection \<open>Reading digits\<close>

definition digit_val :: "BYTE \<Rightarrow> nat" where "digit_val c = (case charDigit c of None \<Rightarrow> 0 | Some d \<Rightarrow> unat d)"

definition is_digit :: "nat \<Rightarrow> BYTE \<Rightarrow> bool" where
  "is_digit b c \<longleftrightarrow> charDigit c \<noteq> None \<and> digit_val c < b"

definition num_value :: "nat \<Rightarrow> nat \<Rightarrow> BYTE list \<Rightarrow> nat" where
  "num_value b v cs = foldl (\<lambda>v c. v * b + digit_val c) v cs"

lemma num_value_simps [simp]: "num_value b v [] = v" "num_value b v (c # cs) = num_value b (v * b + digit_val c) cs"
  by (simp_all add: num_value_def)

lemma num_value_append: "num_value b v (xs @ ys) = num_value b (num_value b v xs) ys"
  by (simp add: num_value_def)

lemma num_value_mono: "0 < b \<Longrightarrow> v \<le> num_value b v cs"
proof (induction cs arbitrary: v)
  case (Cons c cs)
  have "v \<le> v * b + digit_val c" using Cons.prems by (cases b) simp_all
  then show ?case using Cons.IH [OF Cons.prems, of "v * b + digit_val c"] by simp
qed simp

lemma is_digit_nonzero: "is_digit b c \<Longrightarrow> c \<noteq> 0 \<and> c \<noteq> byte_of CHR ''-'' \<and> c \<noteq> byte_of CHR ''+''"
  by (auto simp: is_digit_def charDigit_def byte_of_def split: if_splits)

lemma strtointLoop_run:
  assumes b: "2 \<le> b" "b \<le> 36" and v: "v < 2 ^ 64" and cs: "\<forall>c\<in>set cs. is_digit b c"
  shows "strtointLoop (pre @ cs @ 0 # r) None (of_nat b) (length pre) seen (of_nat v) =
    (if num_value b v cs < 2 ^ 64 then Some (STATUS_SUCCESS, seen \<or> cs \<noteq> [], of_nat (num_value b v cs)) else Some (STATUS_INT_OVERFLOW, True, 0))"
  using v cs
proof (induction cs arbitrary: pre v seen)
  case Nil
  then show ?case by (simp add: strtointLoop.simps nth_append)
next
  case (Cons c cs)
  obtain d where d: "charDigit c = Some d" "unat d < b" "digit_val c = unat d"
    using Cons.prems(2) by (auto simp: is_digit_def digit_val_def)
  have bw: "unat (ucast (of_nat b :: UINT32) :: UINT64) = b"
    using b by (simp add: unat_ucast_up unat_of_nat take_bit_nat_eq_self)
  have small: "d < ucast (of_nat b :: UINT32)" using d(2) bw by (simp add: word_less_nat_alt)
  have c0: "c \<noteq> 0" using is_digit_nonzero Cons.prems(2) by auto
  have uv: "unat (of_nat v :: UINT64) = v" using Cons.prems(1) by (simp add: unat_of_nat take_bit_nat_eq_self)
  let ?v = "v * b + unat d"
  have mul: "unsignedSafeMultiplyAdd (of_nat v) (ucast (of_nat b :: UINT32)) d True =
      (if ?v < 2 ^ 64 then (STATUS_SUCCESS, Some (of_nat ?v)) else (STATUS_INT_OVERFLOW, Some 0))"
    unfolding safeMultiplyAdd uv bw ..
  have at: "(pre @ (c # cs) @ 0 # r) ! length pre = c" "length pre < length (pre @ (c # cs) @ 0 # r)" by simp_all
  show ?case
  proof (cases "?v < 2 ^ 64")
    case True
    have ih: "strtointLoop ((pre @ [c]) @ cs @ 0 # r) None (of_nat b) (length (pre @ [c])) True (of_nat ?v) =
      (if num_value b ?v cs < 2 ^ 64 then Some (STATUS_SUCCESS, True \<or> cs \<noteq> [], of_nat (num_value b ?v cs)) else Some (STATUS_INT_OVERFLOW, True, 0))"
      by (rule Cons.IH) (use True Cons.prems in auto)
    show ?thesis
      by (subst strtointLoop.simps) (use ih True in \<open>simp add: at c0 d small mul STATUS_FAILED_def Let_def del: of_nat_add of_nat_mult\<close>)
  next
    case False
    then have "\<not> num_value b ?v cs < 2 ^ 64" using num_value_mono [of b ?v cs] b by simp
    then show ?thesis using False
      by (subst strtointLoop.simps) (simp add: at c0 d small mul STATUS_FAILED_def Let_def del: of_nat_add of_nat_mult)
  qed
qed

lemma strtoui64_run:
  assumes b: "2 \<le> b" "b \<le> 36" and cs: "cs \<noteq> []" "\<forall>c\<in>set cs. is_digit b c"
  shows "strtoui64 (Some (cs @ 0 # r)) None (of_nat b) True =
    (if num_value b 0 cs < 2 ^ 64 then Some (STATUS_SUCCESS, Some (of_nat (num_value b 0 cs))) else Some (STATUS_INT_OVERFLOW, None))"
proof -
  obtain c cs' where c: "cs = c # cs'" using cs(1) by (cases cs) auto
  then have sign: "c \<noteq> byte_of CHR ''-''" "c \<noteq> byte_of CHR ''+''" using is_digit_nonzero cs(2) by auto
  have base: "(of_nat b :: UINT32) \<ge> 2 \<and> of_nat b \<le> (36 :: UINT32)"
    using b by (simp add: word_le_nat_alt unat_of_nat take_bit_nat_eq_self)
  have loop: "strtointLoop (cs @ 0 # r) None (of_nat b) 0 False 0 =
    (if num_value b 0 cs < 2 ^ 64 then Some (STATUS_SUCCESS, True, of_nat (num_value b 0 cs)) else Some (STATUS_INT_OVERFLOW, True, 0))"
    using strtointLoop_run [OF b _ cs(2), of 0 "[]" r False] cs(1) by simp
  have pk: "peek (cs @ 0 # r) 0 = Some c" by (simp add: peek_def c)
  show ?thesis unfolding strtoui64_def strtoint_def option.case pk bind.bind_lunit loop
    using base sign loop by (simp add: STATUS_FAILED_def)
qed

subsection \<open>Writing digits\<close>

text \<open>The digits of a number in the base, the lowest first.\<close>

function rdigits :: "nat \<Rightarrow> nat \<Rightarrow> BYTE list" where
  "rdigits b v = (if v = 0 \<or> b < 2 then [] else ALPHA_NUM ! (v mod b) # rdigits b (v div b))"
  by pat_completeness auto
termination by (relation "measure snd") auto

declare rdigits.simps [simp del]

lemma ALPHA_NUM_length: "length ALPHA_NUM = 36"
  by (simp add: ALPHA_NUM_def)

lemma ALPHA_NUM_digit: "d < 36 \<Longrightarrow> charDigit (ALPHA_NUM ! d) = Some (of_nat d)"
proof -
  have "\<forall>d\<in>set [0..<36]. charDigit (ALPHA_NUM ! d) = Some (of_nat d)"
    by (simp add: upt_rec ALPHA_NUM_def byte_of_def charDigit_def)
  then show "d < 36 \<Longrightarrow> charDigit (ALPHA_NUM ! d) = Some (of_nat d)" by simp
qed

lemma rdigits_digit:
  assumes "2 \<le> b" "b \<le> 36" "c \<in> set (rdigits b v)"
  shows "is_digit b c"
  using assms(3)
proof (induction v rule: less_induct)
  case (less v)
  have v: "v \<noteq> 0" using less.prems by (cases "v = 0") (simp_all add: rdigits.simps)
  then have "rdigits b v = ALPHA_NUM ! (v mod b) # rdigits b (v div b)" using assms(1) by (simp add: rdigits.simps)
  then consider "c = ALPHA_NUM ! (v mod b)" | "c \<in> set (rdigits b (v div b))" using less.prems by auto
  then show ?case
  proof cases
    case 1
    have m: "v mod b < b" "v mod b < 36" using assms(1,2) mod_less_divisor [of b v] by linarith+
    then show ?thesis using ALPHA_NUM_digit [OF m(2)] 1
      by (simp add: is_digit_def digit_val_def unat_of_nat take_bit_nat_eq_self)
  next
    case 2
    then show ?thesis using less.IH [of "v div b"] v assms(1) by simp
  qed
qed

lemma rdigits_value: "2 \<le> b \<Longrightarrow> b \<le> 36 \<Longrightarrow> num_value b 0 (rev (rdigits b v)) = v"
proof (induction v rule: less_induct)
  case (less v)
  show ?case
  proof (cases "v = 0")
    case False
    have m: "v mod b < 36" using less.prems mod_less_divisor [of b v] by linarith
    then have "digit_val (ALPHA_NUM ! (v mod b)) = v mod b"
      using ALPHA_NUM_digit [OF m] by (simp add: digit_val_def unat_of_nat take_bit_nat_eq_self)
    moreover have "num_value b 0 (rev (rdigits b (v div b))) = v div b" using less.IH [of "v div b"] False less.prems by simp
    ultimately show ?thesis using False less.prems by (subst rdigits.simps) (simp add: num_value_append)
  qed (simp add: rdigits.simps)
qed

lemma rdigits_length: "2 \<le> b \<Longrightarrow> v < 2 ^ k \<Longrightarrow> length (rdigits b v) \<le> k"
proof (induction k arbitrary: v)
  case (Suc k)
  have "v div b \<le> v div 2" using Suc.prems(1) by (intro div_le_mono2) simp_all
  also have "v div 2 < 2 ^ k" using Suc.prems(2) by simp
  finally show ?case using Suc.IH [OF Suc.prems(1), of "v div b"] by (subst rdigits.simps) simp
qed (simp add: rdigits.simps)

lemma ulltostrLoop_run:
  assumes b: "2 \<le> b" "b \<le> 36" and sz: "2 \<le> unat sz" "unat sz \<le> length s" and k: "k \<le> unat sz - 1" and B: "B = of_nat b"
  shows "if k + length (rdigits b (unat v)) \<le> unat sz - 1
    then ulltostrLoop B sz v (of_nat k) s = Some (Inr (of_nat (k + length (rdigits b (unat v))),
      take k s @ rdigits b (unat v) @ drop (k + length (rdigits b (unat v))) s))
    else \<exists>s'. ulltostrLoop B sz v (of_nat k) s = Some (Inl s')"
  using sz(2) k
proof (induction "unat v" arbitrary: v k s rule: less_induct)
  case less
  show ?case
  proof (cases "v = 0")
    case True
    then show ?thesis using less.prems by (simp add: rdigits.simps ulltostrLoop.simps)
  next
    case False
    have uB: "unat B = b" using b unfolding B by (simp add: unat_of_nat take_bit_nat_eq_self)
    have div: "unat (v div B) = unat v div b" "unat (v mod B) = unat v mod b" by (simp_all add: unat_div unat_mod uB)
    have v: "unat v \<noteq> 0" using False by (simp add: unat_eq_zero)
    have lt: "unat (v div B) < unat v" using v b by (simp add: div)
    have rd: "rdigits b (unat v) = ALPHA_NUM ! (unat v mod b) # rdigits b (unat (v div B))"
      using v b by (subst rdigits.simps) (simp add: div)
    have uk: "unat (of_nat k :: UINT32) = k" using less.prems(2) unsigned_less [of sz, where 'a = nat] by (simp add: unat_of_nat take_bit_nat_eq_self)
    have us: "unat (sz - 1) = unat sz - 1" using sz(1) by (intro unat_minus_one) auto
    have full: "of_nat k \<ge> sz - 1 \<longleftrightarrow> unat sz - 1 \<le> k" by (simp add: word_le_nat_alt uk us)
    have m: "unat v mod b < length ALPHA_NUM" using b mod_less_divisor [of b "unat v"] unfolding ALPHA_NUM_length by linarith
    show ?thesis
    proof (cases "unat sz - 1 \<le> k")
      case True
      then show ?thesis using False full rd by (subst (2) ulltostrLoop.simps) auto
    next
      case room: False
      let ?s = "s[k := ALPHA_NUM ! (unat v mod b)]"
      have kl: "k < length s" using room less.prems sz(1) by linarith
      have step: "ulltostrLoop B sz v (of_nat k) s = ulltostrLoop B sz (v div B) (of_nat (Suc k)) ?s"
        using False room full m kl by (subst ulltostrLoop.simps) (simp add: peek_def poke_def div uk add.commute)
      have k': "Suc k \<le> unat sz - 1" "unat sz \<le> length ?s" using room less.prems by simp_all
      have tk: "take (Suc k) ?s = take k s @ [ALPHA_NUM ! (unat v mod b)]" using less.prems room by (simp add: take_Suc_conv_app_nth)
      have dr: "drop (Suc k + n) ?s = drop (Suc k + n) s" for n by simp
      show ?thesis using less.hyps [OF lt k'(2,1)] unfolding step tk dr rd by (simp del: of_nat_Suc of_nat_add)
    qed
  qed
qed

lemma swapLoop_run:
  assumes "n \<le> length s" "i \<le> n div 2"
  shows "\<exists>t. swapLoop n i s = Some t \<and> length t = length s \<and>
    (\<forall>j<length s. t ! j = (if i \<le> j \<and> j < n - i then s ! (n - 1 - j) else s ! j))"
  using assms
proof (induction "n - i" arbitrary: i s rule: less_induct)
  case less
  show ?case
  proof (cases "i < n div 2")
    case False
    then have "i = n div 2" using less.prems(2) by simp
    moreover have "n = 2 * (n div 2) \<or> n = 2 * (n div 2) + 1" by arith
    ultimately have "n - 1 - j = j" if "i \<le> j" "j < n - i" for j using that by arith
    then show ?thesis using False by (auto simp: swapLoop.simps)
  next
    case True
    define s' where "s' = s[i := s ! (n - i - 1), n - i - 1 := s ! i]"
    have len: "length s' = length s" by (simp add: s'_def)
    have i2: "2 * i + 2 \<le> n" using True by arith
    have il: "i < length s" "n - Suc i < length s" using i2 less.prems by linarith+
    have step: "swapLoop n i s = swapLoop n (Suc i) s'"
      using True il by (subst swapLoop.simps) (simp add: peek_def poke_def s'_def)
    have pre: "n - Suc i < n - i" "n \<le> length s'" "Suc i \<le> n div 2" using True less.prems len i2 by auto
    obtain t where t: "swapLoop n (Suc i) s' = Some t" "length t = length s'"
      "\<forall>j<length s'. t ! j = (if Suc i \<le> j \<and> j < n - Suc i then s' ! (n - 1 - j) else s' ! j)"
      using less.hyps [OF pre] by blast
    have "t ! j = (if i \<le> j \<and> j < n - i then s ! (n - 1 - j) else s ! j)" if j: "j < length s" for j
    proof -
      have at: "s' ! x = (if x = n - i - 1 then s ! i else if x = i then s ! (n - i - 1) else s ! x)" if "x < length s" for x
        using that by (simp add: s'_def nth_list_update)
      have tj: "t ! j = (if Suc i \<le> j \<and> j < n - Suc i then s' ! (n - 1 - j) else s' ! j)" using t(3) j len by simp
      show ?thesis
      proof (cases "Suc i \<le> j \<and> j < n - Suc i")
        case True
        then have "n - 1 - j < length s" "n - 1 - j \<noteq> n - i - 1" "n - 1 - j \<noteq> i" "i \<le> j \<and> j < n - i" using less.prems i2 by arith+
        then show ?thesis using tj True at [of "n - 1 - j"] by simp
      next
        case False
        consider "j = i" | "j = n - i - 1" | "\<not> (i \<le> j \<and> j < n - i)" "j \<noteq> i" "j \<noteq> n - i - 1" using False i2 by arith
        then show ?thesis
        proof cases
          case 1
          then have "i \<le> j \<and> j < n - i" "n - 1 - j = n - i - 1" "i \<noteq> n - i - 1" using i2 by arith+
          then show ?thesis using tj False at [OF j] 1 by simp
        next
          case 2
          then have "i \<le> j \<and> j < n - i" "n - 1 - j = i" using i2 by arith+
          then show ?thesis using tj False at [OF j] 2 by simp
        next
          case 3
          then show ?thesis using tj False at [OF j] by auto
        qed
      qed
    qed
    then show ?thesis using step t(1,2) len by simp
  qed
qed

lemma swapLoop_rev:
  assumes "length d = n"
  shows "swapLoop n 0 (d @ r) = Some (rev d @ r)"
proof -
  obtain t where t: "swapLoop n 0 (d @ r) = Some t" "length t = length (d @ r)"
    "\<forall>j<length (d @ r). t ! j = (if j < n then (d @ r) ! (n - 1 - j) else (d @ r) ! j)"
    using swapLoop_run [of n "d @ r" 0] assms by auto
  have "t = rev d @ r"
    by (rule nth_equalityI) (use t assms in \<open>auto simp: nth_append rev_nth\<close>)
  then show ?thesis using t(1) by simp
qed

lemma ulltostr_run:
  assumes b: "2 \<le> b" "b \<le> 36" and sz: "2 \<le> unat sz" "unat sz \<le> length s" and v: "v \<noteq> 0"
  shows "if length (rdigits b (unat v)) \<le> unat sz - 1
    then ulltostr v (Some s) sz (of_nat b) = Some (STATUS_SUCCESS, Some (rev (rdigits b (unat v)) @ 0 # drop (Suc (length (rdigits b (unat v)))) s),
      Some (of_nat (length (rdigits b (unat v)))))
    else \<exists>s'. ulltostr v (Some s) sz (of_nat b) = Some (STATUS_BUFFER_TOO_SMALL, Some s', None)"
proof -
  let ?d = "rdigits b (unat v)"
  have base: "(of_nat b :: UINT32) \<ge> 2 \<and> of_nat b \<le> (36 :: UINT32)"
    using b by (simp add: word_le_nat_alt unat_of_nat take_bit_nat_eq_self)
  have s2: "sz \<ge> 2" using sz(1) by (simp add: word_le_nat_alt)
  have B: "ucast (of_nat b :: UINT32) = (of_nat b :: UINT64)"
    using b by (simp add: word_unat_eq_iff unat_ucast_up unat_of_nat take_bit_nat_eq_self)
  note L = ulltostrLoop_run [OF b sz, of 0 "of_nat b" v]
  show ?thesis
  proof (cases "length ?d \<le> unat sz - 1")
    case True
    have loop: "ulltostrLoop (of_nat b) sz v 0 s = Some (Inr (of_nat (length ?d), ?d @ drop (length ?d) s))" using L True by simp
    have "length ?d \<le> 64" by (rule rdigits_length [OF b(1)]) (rule unat64_less)
    then have u: "unat (of_nat (length ?d) :: UINT32) = length ?d" by (simp add: unat_of_nat take_bit_nat_eq_self)
    have lt: "length ?d < length s" using True sz by simp
    have "poke (rev ?d @ drop (length ?d) s) (length ?d) 0 = Some (rev ?d @ 0 # drop (Suc (length ?d)) s)"
      using lt by (simp add: poke_def list_update_append Cons_nth_drop_Suc [symmetric])
    then show ?thesis using True v base s2 by (simp add: ulltostr_def B loop u swapLoop_rev)
  next
    case False
    then obtain s' where "ulltostrLoop (of_nat b) sz v 0 s = Some (Inl s')" using L by auto
    then show ?thesis using False v base s2 by (simp add: ulltostr_def B)
  qed
qed

subsection \<open>Properties\<close>

text \<open>Reading an unsigned number: a non-empty string of digits of the base is read as the number it denotes when that fits into 64 bits,
  and is refused with an overflow error otherwise.\<close>

theorem strtoui64_correct:
  assumes "2 \<le> b" "b \<le> 36" "cs \<noteq> []" "\<forall>c\<in>set cs. is_digit b c"
  shows "strtoui64 (Some (cs @ 0 # r)) None (of_nat b) True =
    Some (if num_value b 0 cs < 2 ^ 64 then (STATUS_SUCCESS, Some (of_nat (num_value b 0 cs))) else (STATUS_INT_OVERFLOW, None))"
  using strtoui64_run [OF assms] by simp

theorem strtoui64_correct_witness:
  "strtoui64 (Some (map byte_of ''ff'' @ [0])) None 16 True = Some (STATUS_SUCCESS, Some 255)"
proof -
  have d: "\<forall>c\<in>set (map byte_of ''ff''). is_digit 16 c" by (simp add: is_digit_def charDigit_def digit_val_def byte_of_def)
  have v: "num_value 16 0 (map byte_of ''ff'') = 255" by (simp add: charDigit_def digit_val_def byte_of_def)
  show ?thesis using strtoui64_correct [of 16 "map byte_of ''ff''" "[]", OF _ _ _ d] unfolding v by simp
qed

text \<open>C28. Writing a number into a buffer that has room for it and reading it back gives the number, in every base. A buffer of 65 bytes
  has room for every number.\<close>

theorem ulltostr_strtoui64:
  assumes b: "2 \<le> b" "b \<le> 36" and sz: "65 \<le> unat sz" "unat sz \<le> length s"
  shows "\<exists>s' n. ulltostr v (Some s) sz (of_nat b) = Some (STATUS_SUCCESS, Some s', Some n) \<and> STRLEN s' = unat n \<and> length s' = length s \<and>
    strtoui64 (Some s') None (of_nat b) True = Some (STATUS_SUCCESS, Some v)"
proof (cases "v = 0")
  case True
  have base: "(of_nat b :: UINT32) \<ge> 2 \<and> of_nat b \<le> (36 :: UINT32)" "sz \<ge> 2"
    using b sz(1) by (simp_all add: word_le_nat_alt unat_of_nat take_bit_nat_eq_self)
  obtain x y r where s: "s = x # y # r" using sz by (cases s; cases "tl s") auto
  let ?s = "[byte_of CHR ''0''] @ 0 # r"
  have "ulltostr v (Some s) sz (of_nat b) = Some (STATUS_SUCCESS, Some ?s, Some 1)"
    using True base by (simp add: ulltostr_def poke_def s)
  moreover have "is_digit b (byte_of CHR ''0'')" "num_value b 0 [byte_of CHR ''0''] = 0" using b
    by (simp_all add: is_digit_def charDigit_def digit_val_def byte_of_def)
  then have "strtoui64 (Some ?s) None (of_nat b) True = Some (STATUS_SUCCESS, Some v)"
    using strtoui64_run [OF b, of "[byte_of CHR ''0'']" r] True by simp
  moreover have "STRLEN ?s = 1" by (simp add: STRLEN_def byte_of_def)
  ultimately show ?thesis using s by (intro exI [of _ ?s] exI [of _ 1]) simp
next
  case False
  let ?d = "rdigits b (unat v)"
  let ?s = "rev ?d @ 0 # drop (Suc (length ?d)) s"
  have len: "length ?d \<le> 64" by (rule rdigits_length [OF b(1)]) (rule unat64_less)
  have ne: "?d \<noteq> []" using False b by (subst rdigits.simps) (simp add: unat_eq_zero)
  have dig: "\<forall>c\<in>set (rev ?d). is_digit b c" using rdigits_digit [OF b] by simp
  have "ulltostr v (Some s) sz (of_nat b) = Some (STATUS_SUCCESS, Some ?s, Some (of_nat (length ?d)))"
    using ulltostr_run [OF b _ sz(2) False] len sz(1) by simp
  moreover have "strtoui64 (Some ?s) None (of_nat b) True = Some (STATUS_SUCCESS, Some v)"
    using strtoui64_run [OF b _ dig] ne rdigits_value [OF b, of "unat v"] unat64_less [of v] by simp
  moreover have "STRLEN ?s = length ?d"
  proof -
    have "\<forall>c\<in>set (rev ?d). c \<noteq> 0" using dig is_digit_nonzero by blast
    then show ?thesis unfolding STRLEN_def by (subst takeWhile_append2) auto
  qed
  moreover have "unat (of_nat (length ?d) :: UINT32) = length ?d" using len by (simp add: unat_of_nat take_bit_nat_eq_self)
  ultimately show ?thesis using len sz by (intro exI [of _ ?s] exI [of _ "of_nat (length ?d)"]) simp
qed

theorem ulltostr_strtoui64_witness:
  "\<exists>s' n. ulltostr 1234 (Some (replicate 70 0xAA)) 70 (of_nat 10) = Some (STATUS_SUCCESS, Some s', Some n) \<and>
    strtoui64 (Some s') None (of_nat 10) True = Some (STATUS_SUCCESS, Some 1234)"
  using ulltostr_strtoui64 [of 10 70 "replicate 70 0xAA" 1234] by auto

end
