(* ===== verification/StringsProps.thy ===== *)
theory StringsProps
  imports Strings "HOL-Library.Sublist"
begin

text \<open>
  Properties of the string search, trimming and case conversion: the Rabin-Karp search finds the first occurrence, trimming removes exactly the
  white space at both ends, and where the case conversion leaves its result without a terminator.
\<close>

subsection \<open>C strings\<close>

lemma STRLEN_append: "0 \<notin> set s \<Longrightarrow> STRLEN (s @ 0 # r) = length s"
  unfolding STRLEN_def by (subst takeWhile_append2) auto

lemma c_strlen_append: "0 \<notin> set s \<Longrightarrow> c_strlen (s @ 0 # r) = Some (length s)"
  by (simp add: c_strlen_def STRLEN_append)

lemma c_strnlen_append: "0 \<notin> set s \<Longrightarrow> c_strnlen (s @ 0 # r) n = Some (min (length s) n)"
  by (simp add: c_strnlen_def STRLEN_append)

lemma strncmp_take:
  assumes "n \<le> length a" "n \<le> length b" "0 \<notin> set (take n a)"
  shows "strncmp_eq a b n = Some (take n a = take n b)"
  using assms by (induction a b n rule: strncmp_eq.induct) auto

subsection \<open>The rolling hash\<close>

lemma windowHash_snoc: "windowHash (xs @ [c]) = windowHash xs * prime + scast c"
  by (simp add: windowHash_def)

lemma windowHash_foldl: "foldl (\<lambda>h c. h * prime + scast c) a xs = a * prime ^ length xs + windowHash xs"
proof (induction xs rule: rev_induct)
  case (snoc x xs)
  then show ?case by (simp add: windowHash_def algebra_simps)
qed (simp add: windowHash_def)

lemma windowHash_Cons: "windowHash (c # xs) = scast c * prime ^ length xs + windowHash xs"
  using windowHash_foldl [of "scast c" xs] by (simp add: windowHash_def)

lemma windowHash_slide: "(windowHash (c # xs) - scast c * prime ^ length xs) * prime + scast d = windowHash (xs @ [d])"
  by (simp add: windowHash_Cons windowHash_snoc)

lemma powerLoop_power: "powerLoop i b p = p * b ^ unat i"
proof (induction i b p rule: powerLoop.induct)
  case (1 i b p)
  show ?case
  proof (cases "i = 0")
    case False
    then have pos: "0 < i" by (simp add: word_neq_0_conv)
    have u: "unat (i div 2) = unat i div 2" by (simp add: unat_div)
    have even: "i mod 2 = 0 \<longleftrightarrow> even (unat i)"
      using unat_mod [of i 2] unat_eq_zero [of "i mod 2"] by (simp add: even_iff_mod_2_eq_zero)
    have odd: "i mod 2 = 1 \<longleftrightarrow> odd (unat i)" unfolding not_mod_2_eq_0_eq_1 [symmetric] even by (rule refl)
    have "b ^ unat i = (if odd (unat i) then b else 1) * (b * b) ^ (unat i div 2)"
      by (cases "odd (unat i)") (auto elim!: oddE evenE simp: power_add power_mult power2_eq_square power_mult_distrib)
    then show ?thesis using 1 [OF pos] pos by (subst powerLoop.simps) (simp add: u even odd)
  qed (simp add: powerLoop.simps)
qed

lemma slideLoop_find:
  assumes "i \<le> N" "N \<le> length h" "n \<le> i" "0 < n" "n \<le> length nd" "0 \<notin> set (take N h)"
    "hash = windowHash (take n (drop (i - n) h))" "w = prime ^ (n - 1)" "nh = windowHash (take n nd)"
  shows "slideLoop h nd N n w nh i hash = Some (find (\<lambda>k. take n (drop k h) = take n nd) [Suc (i - n)..<Suc (N - n)])"
  using assms
proof (induction "N - i" arbitrary: i hash)
  case 0
  then show ?case by (simp add: slideLoop.simps)
next
  case (Suc d)
  then have i: "i < N" by simp
  let ?k = "i - n"
  obtain c xs where c: "take n (drop ?k h) = c # xs" "length xs = n - 1" "c = h ! ?k"
  proof -
    have "take n (drop ?k h) = h ! ?k # take (n - 1) (drop (Suc ?k) h)"
      using Suc.prems i by (cases n) (simp_all add: Cons_nth_drop_Suc [symmetric])
    then show thesis using that Suc.prems i by simp
  qed
  have nxt: "take n (drop (Suc ?k) h) = xs @ [h ! i]"
  proof -
    have "take (Suc n) (drop ?k h) = take n (drop ?k h) @ [h ! i]" using Suc.prems i by (simp add: take_Suc_conv_app_nth)
    moreover have "take (Suc n) (drop ?k h) = c # take n (drop (Suc ?k) h)"
      using Suc.prems i c(3) by (simp add: Cons_nth_drop_Suc [symmetric])
    ultimately show ?thesis using c(1) by simp
  qed
  let ?hash = "(hash - scast (h ! ?k) * w) * prime + scast (h ! i)"
  have hash: "?hash = windowHash (take n (drop (Suc ?k) h))"
    unfolding nxt using windowHash_slide [of c xs "h ! i"] c Suc.prems by simp
  have z: "0 \<notin> set (take n (drop (Suc ?k) h))"
  proof -
    have "set (take n (drop (Suc ?k) h)) \<subseteq> set (take N h)"
    proof
      fix x assume "x \<in> set (take n (drop (Suc ?k) h))"
      then obtain j where "j < n" "Suc ?k + j < length h" "x = h ! (Suc ?k + j)" by (auto simp: in_set_conv_nth)
      moreover from this have "Suc ?k + j < N" using Suc.prems(3) i by simp
      ultimately show "x \<in> set (take N h)" using Suc.prems(2) by (auto simp: in_set_conv_nth intro!: exI [of _ "Suc ?k + j"])
    qed
    then show ?thesis using Suc.prems(6) by auto
  qed
  have cmp: "strncmp_eq (drop (Suc i - n) h) nd n = Some (take n (drop (Suc ?k) h) = take n nd)"
    using strncmp_take [of n "drop (Suc ?k) h" nd] z Suc.prems i by (simp add: Suc_diff_le)
  have same: "(if ?hash = nh then strncmp_eq (drop (Suc i - n) h) nd n else Some False) = Some (take n (drop (Suc ?k) h) = take n nd)"
    using cmp hash Suc.prems(9) by auto
  have upt: "[Suc ?k..<Suc (N - n)] = Suc ?k # [Suc (Suc i - n)..<Suc (N - n)]"
    using Suc.prems(3) i upt_conv_Cons [of "Suc ?k" "Suc (N - n)"] by (simp add: Suc_diff_le diff_less_mono del: upt_Suc)
  have pk: "peek h (i - n) = Some (h ! ?k)" "peek h i = Some (h ! i)" using Suc.prems i by (simp_all add: peek_def)
  have ih: "slideLoop h nd N n w nh (Suc i) ?hash = Some (find (\<lambda>k. take n (drop k h) = take n nd) [Suc (Suc i - n)..<Suc (N - n)])"
    by (rule Suc.hyps(1)) (use Suc.hyps(2) Suc.prems i hash in \<open>simp_all add: Suc_diff_le\<close>)
  show ?case
    by (subst slideLoop.simps) (simp add: i pk same ih upt Suc_diff_le [OF Suc.prems(3)] Let_def del: upt_Suc)
qed

lemma prefix_take: "prefix xs ys \<longleftrightarrow> take (length xs) ys = xs"
  by (metis append_eq_conv_conj prefix_def take_is_prefix)

lemma take_drop_take: "take n (drop k (take N h)) = (if k + n \<le> N then take n (drop k h) else take (N - k) (drop k h))"
proof (cases "k \<le> N")
  case True
  then show ?thesis by (auto simp: drop_take min_def)
qed (simp add: drop_take)

lemma find_upt_mono:
  assumes "a \<le> b" "\<And>k. a \<le> k \<Longrightarrow> \<not> P k"
  shows "find P [0..<b] = find P [0..<a]"
proof -
  have "[0..<b] = [0..<a] @ [a..<b]" using assms(1) by (metis le_iff_add upt_add_eq_append zero_le)
  moreover have "find P [a..<b] = None" using assms(2) by (auto simp: find_None_iff)
  moreover have "find P (xs @ ys) = (case find P xs of None \<Rightarrow> find P ys | r \<Rightarrow> r)" for xs ys by (induction xs) auto
  ultimately show ?thesis by (simp split: option.splits)
qed

subsection \<open>Properties\<close>

text \<open>C27. The Rabin-Karp search returns the first position of the text, cut at the given length, at which the needle occurs, and \<open>NULL\<close> if there is
  none; it never reads outside of the two strings. The rolling hash therefore never hides an occurrence.\<close>

theorem defaultStrnstr_correct:
  assumes z: "0 \<notin> set hay" "0 \<notin> set needle" and len: "length hay < 2 ^ 32" "length needle < 2 ^ 32"
  shows "defaultStrnstr (Some (hay @ 0 # r)) (Some (needle @ 0 # r')) l =
    Some (find (\<lambda>k. prefix needle (drop k (take l hay))) [0..<Suc (min l (length hay))])"
proof -
  define h where "h = hay @ 0 # r"
  define nd where "nd = needle @ 0 # r'"
  define N where "N = min (length hay) l"
  define n where "n = length needle"
  let ?P = "\<lambda>k. prefix needle (drop k (take l hay))"
  have u: "unat (of_nat N :: UINT32) = N" "unat (of_nat n :: UINT32) = n"
    using len by (auto simp: N_def n_def unat_of_nat take_bit_nat_eq_self)
  have cut: "take N h = take l hay" "N \<le> length h" by (auto simp: N_def min_def h_def)
  have P: "?P k \<longleftrightarrow> k + n \<le> N \<and> take n (drop k h) = needle" if "0 < n" for k
  proof -
    have "length (take (N - k) (drop k h)) < n" if "\<not> k + n \<le> N" using that \<open>0 < n\<close> by simp
    then have "take (N - k) (drop k h) \<noteq> needle" if "\<not> k + n \<le> N" using that n_def by blast
    then show ?thesis unfolding prefix_take cut(1) [symmetric] n_def [symmetric] take_drop_take by simp
  qed
  have sizes: "c_strnlen h l = Some N" "c_strlen nd = Some n" using z by (simp_all add: c_strnlen_append c_strlen_append N_def n_def h_def nd_def)
  have nd: "take n nd = needle" "n \<le> length nd" by (simp_all add: n_def nd_def)
  have "defaultStrnstr (Some h) (Some nd) l = Some (find ?P [0..<Suc (min l (length hay))])"
  proof (cases "n = 0")
    case True
    then show ?thesis using sizes by (simp add: defaultStrnstr_def n_def windowHash_def upt_conv_Cons del: upt_Suc)
  next
    case False
    then have n: "0 < n" by simp
    show ?thesis
    proof (cases "n \<le> N")
      case False
      then have "find ?P [0..<Suc (min l (length hay))] = None" using P [OF n] by (auto simp: find_None_iff)
      moreover have "(of_nat N :: UINT32) < of_nat n" using False u by (simp add: word_less_nat_alt)
      ultimately show ?thesis using sizes by (simp add: defaultStrnstr_def)
    next
      case True
      have le: "\<not> (of_nat N :: UINT32) < of_nat n" using True u by (simp add: word_less_nat_alt)
      have z0: "0 \<notin> set (take N h)" using z(1) in_set_takeD unfolding cut(1) by fastforce
      have "set (take n h) \<subseteq> set (take N h)" using True by (rule set_take_subset_set_take)
      then have z1: "0 \<notin> set (take n h)" using z0 by blast
      have cmp: "strncmp_eq h nd n = Some (take n h = needle)"
        using strncmp_take [OF _ nd(2) z1] True cut(2) nd(1) by simp
      have pw: "powerLoop (of_nat n - 1) prime 1 = prime ^ (n - 1)"
      proof -
        have "(of_nat n :: UINT32) - 1 = of_nat (n - 1)" using n by (simp add: of_nat_diff)
        moreover have "unat (of_nat (n - 1) :: UINT32) = n - 1" using len(2) by (simp add: n_def unat_of_nat take_bit_nat_eq_self)
        ultimately show ?thesis by (simp add: powerLoop_power)
      qed
      have "find ?P [0..<Suc (min l (length hay))] = find ?P [0..<Suc (N - n)]"
      proof (rule find_upt_mono)
        show "Suc (N - n) \<le> Suc (min l (length hay))" using diff_le_self [of N n] by (metis N_def Suc_le_mono min.commute)
        show "\<not> ?P k" if "Suc (N - n) \<le> k" for k using that P [OF n, of k] True by linarith
      qed
      also have "\<dots> = find (\<lambda>k. take n (drop k h) = take n nd) [0..<Suc (N - n)]"
        by (rule find_cong) (use P [OF n] True nd in \<open>auto simp del: upt_Suc\<close>)
      also have "[0..<Suc (N - n)] = 0 # [Suc (n - n)..<Suc (N - n)]" by (simp add: upt_conv_Cons del: upt_Suc)
      finally have R: "find ?P [0..<Suc (min l (length hay))] = (if take n h = needle then Some 0
          else find (\<lambda>k. take n (drop k h) = take n nd) [Suc (n - n)..<Suc (N - n)])" using nd(1) by (simp del: upt_Suc)
      have S: "slideLoop h nd N n (prime ^ (n - 1)) (windowHash (take n nd)) n (windowHash (take n h)) =
          Some (find (\<lambda>k. take n (drop k h) = take n nd) [Suc (n - n)..<Suc (N - n)])"
        by (rule slideLoop_find) (use True n z0 nd cut(2) in simp_all)
      have same: "(if windowHash (take n h) = windowHash (take n nd) then strncmp_eq h nd n else Some False) = Some (take n h = needle)"
        using cmp nd(1) by auto
      show ?thesis unfolding R defaultStrnstr_def prod.case option.case sizes option.map bind.bind_lunit Let_def u pw same
        using S le by (simp del: upt_Suc)
    qed
  qed
  then show ?thesis by (simp add: h_def nd_def)
qed

theorem defaultStrnstr_correct_witness:
  "defaultStrnstr (Some (map byte_of ''abracadabra'' @ [0])) (Some (map byte_of ''cad'' @ [0])) 20 = Some (Some 4)"
proof -
  have d: "0 \<notin> set (map byte_of ''abracadabra'')" "0 \<notin> set (map byte_of ''cad'')" "length (map byte_of ''abracadabra'') < 2 ^ 32"
    "length (map byte_of ''cad'') < 2 ^ 32" by (simp_all add: byte_of_def)
  have "find (\<lambda>k. prefix (map byte_of ''cad'') (drop k (take 20 (map byte_of ''abracadabra'')))) [0..<Suc (min 20 (length (map byte_of ''abracadabra'')))] = Some 4"
    by (simp add: byte_of_def upt_rec)
  then show ?thesis unfolding defaultStrnstr_correct [OF d] by simp
qed

subsection \<open>Case conversion\<close>

abbreviation converted :: "bool \<Rightarrow> BYTE list \<Rightarrow> BYTE list" where
  "converted toUpper s \<equiv> map (\<lambda>c. if toUpper then c_toupper c else c_tolower c) s"

lemma convertLoop_run:
  assumes z: "0 \<notin> set s" and n: "length s < 2 ^ 32 - 1" "length s \<le> length d" and p: "p \<le> length s" "p \<le> unat L"
  shows "convertLoop (s @ 0 # r) L up p (of_nat p) d =
    (if length s < unat L then Some (of_nat (Suc (length s)), length s, take p d @ converted up (drop p s) @ drop (length s) d)
     else Some (L + 1, unat L, take p d @ converted up (drop p (take (unat L) s)) @ drop (unat L) d))"
  using n(2) p
proof (induction "length s - p" arbitrary: p d)
  case 0
  then have p: "p = length s" by simp
  have u: "unat (of_nat (length s) :: UINT32) = length s" using n by (simp add: unat_of_nat take_bit_nat_eq_self)
  show ?case
  proof (cases "length s < unat L")
    case True
    then have "of_nat (length s) < L" using u by (simp add: word_less_nat_alt)
    then show ?thesis using True p by (subst convertLoop.simps) (simp add: nth_append add.commute)
  next
    case False
    then have L: "L = of_nat (length s)" using 0(4) p u by (simp add: word_unat_eq_iff)
    then show ?thesis using p u by (subst convertLoop.simps) simp
  qed
next
  case (Suc k)
  then have ps: "p < length s" by simp
  have u: "unat (of_nat p :: UINT32) = p" using n ps by (simp add: unat_of_nat take_bit_nat_eq_self)
  show ?case
  proof (cases "p < unat L")
    case False
    then have L: "unat L = p" using Suc.prems by simp
    then have "\<not> of_nat p < L" "L = of_nat p" using u by (simp_all add: word_less_nat_alt word_unat_eq_iff)
    then show ?thesis using L ps by (subst convertLoop.simps) simp
  next
    case True
    then have lt: "of_nat p < L" using u by (simp add: word_less_nat_alt)
    let ?c = "if up then c_toupper (s ! p) else c_tolower (s ! p)"
    let ?d = "d[p := ?c]"
    have nz: "s ! p \<noteq> 0" using z ps by (metis nth_mem)
    have step: "convertLoop (s @ 0 # r) L up p (of_nat p) d = convertLoop (s @ 0 # r) L up (Suc p) (of_nat (Suc p)) ?d"
      using lt ps nz Suc.prems(1) by (subst convertLoop.simps) (simp add: nth_append add.commute)
    have ih: "convertLoop (s @ 0 # r) L up (Suc p) (of_nat (Suc p)) ?d =
      (if length s < unat L then Some (of_nat (Suc (length s)), length s, take (Suc p) ?d @ converted up (drop (Suc p) s) @ drop (length s) ?d)
       else Some (L + 1, unat L, take (Suc p) ?d @ converted up (drop (Suc p) (take (unat L) s)) @ drop (unat L) ?d))"
      by (rule Suc.hyps(1)) (use Suc.hyps(2) Suc.prems True ps in simp_all)
    have tk: "take (Suc p) ?d = take p d @ [?c]" using ps Suc.prems(1) by (simp add: take_Suc_conv_app_nth)
    have dr: "drop (length s) ?d = drop (length s) d" "drop (unat L) ?d = drop (unat L) d" using ps True by simp_all
    have cv: "converted up (drop p s) = ?c # converted up (drop (Suc p) s)"
      using ps by (simp add: Cons_nth_drop_Suc [symmetric])
    have cv': "converted up (drop p (take (unat L) s)) = ?c # converted up (drop (Suc p) (take (unat L) s))" if "\<not> length s < unat L"
      using ps True that by (subst Cons_nth_drop_Suc [symmetric]) simp_all
    show ?thesis unfolding step ih tk dr using cv cv' by simp
  qed
qed

text \<open>Case conversion of a non-empty string writes the converted characters up to the given length. The result is terminated only when the length is 0 (unlimited)
  or exceeds the length of the string by more than one: with a limit of exactly one more than the length of the string, which is the size of the string with
  its terminator, the destination is left without one.\<close>

theorem tolowerupperstr_correct:
  assumes s: "s \<noteq> []" "0 \<notin> set s" and n: "length s < 2 ^ 32 - 2" "length s < length d"
  shows "tolowerupperstr (Some (s @ 0 # r)) L up (Some d) = Some (STATUS_SUCCESS, Some
    (if L = 0 \<or> Suc (length s) < unat L then converted up s @ 0 # drop (Suc (length s)) d
     else if unat L = Suc (length s) then converted up s @ drop (length s) d
     else converted up (take (unat L) s) @ drop (unat L) d))"
proof -
  obtain c s' where c: "s = c # s'" "c \<noteq> 0" using s by (cases s) auto
  let ?L = "if L = 0 then 0xffffffff else L"
  have run: "convertLoop (s @ 0 # r) ?L up 0 0 d =
    (if length s < unat ?L then Some (of_nat (Suc (length s)), length s, converted up s @ drop (length s) d)
     else Some (?L + 1, unat ?L, converted up (take (unat ?L) s) @ drop (unat ?L) d))"
    using convertLoop_run [OF s(2), of d 0 ?L r up] n by simp
  have u: "unat (of_nat (Suc (length s)) :: UINT32) = Suc (length s)" using n by (subst unat_of_nat) (simp add: take_bit_nat_eq_self)
  have less: "of_nat (Suc (length s)) < ?L \<longleftrightarrow> Suc (length s) < unat ?L" unfolding word_less_nat_alt u ..
  have pk: "peek (s @ 0 # r) 0 = Some c" by (simp add: peek_def c)
  have poke: "poke (converted up s @ drop (length s) d) (length s) 0 = Some (converted up s @ 0 # drop (Suc (length s)) d)"
    using n(2) by (simp add: poke_def list_update_append Cons_nth_drop_Suc [symmetric])
  consider "length s < unat ?L" | "L \<noteq> 0" "unat L \<le> length s" using n by (cases "L = 0"; cases "unat L \<le> length s") simp_all
  then show ?thesis
  proof cases
    case 1
    have "tolowerupperstr (Some (s @ 0 # r)) L up (Some d) =
      (if Suc (length s) < unat ?L then Some (STATUS_SUCCESS, Some (converted up s @ 0 # drop (Suc (length s)) d))
       else Some (STATUS_SUCCESS, Some (converted up s @ drop (length s) d)))"
      unfolding tolowerupperstr_def prod.case option.case pk bind.bind_lunit Let_def using 1 run less poke c(2) by (simp del: of_nat_Suc)
    then show ?thesis using 1 n by (auto split: if_splits)
  next
    case 2
    have nw: "\<not> L + 1 < L"
    proof -
      have "unat (L + 1) = Suc (unat L)" using 2 n by (intro unat_Suc_less [of L "0xffffffff"]) (simp add: word_less_nat_alt)
      then show ?thesis by (simp add: word_less_nat_alt)
    qed
    then show ?thesis unfolding tolowerupperstr_def prod.case option.case pk bind.bind_lunit Let_def using 2 run c(2) by simp
  qed
qed

theorem tolowerupperstr_correct_witness:
  "tolowerupperstr (Some (map byte_of ''aBc'' @ [0])) 4 True (Some [7, 7, 7, 7, 7]) = Some (STATUS_SUCCESS, Some (map byte_of ''ABC'' @ [7, 7]))"
  using tolowerupperstr_correct [of "map byte_of ''aBc''" "[7, 7, 7, 7, 7]" "[]" 4 True]
  by (simp add: byte_of_def c_toupper_def)

end
