(* ===== verification/AckParserProps.thy ===== *)
theory AckParserProps
  imports AckParser NumberStrings StringsProps
begin

text \<open>
  Properties of the ACK parser: a segment may be cut anywhere outside of a nested value, an ACK that the service prints is delivered as it was meant,
  no character is written outside of the accumulator as long as the text since the last reset fits into it, and three inputs for which the code
  does not do what it means to.
\<close>

subsection \<open>Cutting a segment\<close>

definition skipping :: "'x KinesisVideoStream_scheme \<Rightarrow> bool" where
  "skipping s \<longleftrightarrow> fap_state (kvs_fragmentAckParser s) \<in> {FRAGMENT_ACK_PARSER_STATE_SKIP_BODY_BRACE_END, FRAGMENT_ACK_PARSER_STATE_SKIP_BODY_BRACKET_END}"

lemma failed_simps [simp]: "\<not> STATUS_FAILED STATUS_SUCCESS" "STATUS_FAILED STATUS_INVALID_ACK_KEY_START" "STATUS_FAILED STATUS_INVALID_ACK_INVALID_VALUE_START"
  "STATUS_FAILED STATUS_INVALID_ACK_INVALID_VALUE_END"
  by (simp_all add: STATUS_FAILED_def)

lemma setState_sel [simp]:
  "kvs_fragmentAckParser (setState x s) = (kvs_fragmentAckParser s)\<lparr>fap_state := x\<rparr>"
  "skipping (setState x s) \<longleftrightarrow> x \<in> {FRAGMENT_ACK_PARSER_STATE_SKIP_BODY_BRACE_END, FRAGMENT_ACK_PARSER_STATE_SKIP_BODY_BRACKET_END}"
  by (simp_all add: setState_def skipping_def)

lemma accumulate_skipping: "accumulate c s = Some s' \<Longrightarrow> skipping s' = skipping s"
  by (auto simp: accumulate_def skipping_def Let_def split: Option.bind_splits)

lemma finishKey_skipping: "finishKey s = Some s' \<Longrightarrow> \<not> skipping s'"
  by (auto simp: finishKey_def skipping_def Let_def split: Option.bind_splits)

lemma toState_skipping:
  "toState x s = Some (st, s') \<Longrightarrow> x \<notin> {FRAGMENT_ACK_PARSER_STATE_SKIP_BODY_BRACE_END, FRAGMENT_ACK_PARSER_STATE_SKIP_BODY_BRACKET_END} \<Longrightarrow>
    STATUS_FAILED st \<or> \<not> skipping s'"
  by (auto simp: toState_def)

lemma processParsedAck_skipping: "processParsedAck ev s = Some (st, s') \<Longrightarrow> STATUS_FAILED st \<or> \<not> skipping s'"
  by (auto simp: processParsedAck_def resetAckParserState_def initial_parser_def skipping_def Let_def split: Option.bind_splits if_splits)

lemma finishValue_skipping:
  assumes "finishValue f s = Some (st, s')" "\<And>s st s'. f s = Some (st, s') \<Longrightarrow> STATUS_FAILED st \<or> \<not> skipping s'"
  shows "STATUS_FAILED st \<or> \<not> skipping s'"
  using assms by (auto simp: finishValue_def Let_def split: Option.bind_splits if_splits)

lemmas level_outcome = accumulate_skipping finishKey_skipping toState_skipping processParsedAck_skipping
  finishValue_skipping [where f = "toState FRAGMENT_ACK_PARSER_STATE_VALUE_END"] finishValue_skipping [where f = "processParsedAck ev" for ev]

text \<open>Outside of nested values the level has no influence.\<close>

definition unlevelled :: "'x ack_event \<Rightarrow> BYTE \<Rightarrow> UINT32 \<Rightarrow> UINT32 \<Rightarrow> 'x KinesisVideoStream_scheme \<Rightarrow> bool" where
  "unlevelled ev c l l0 s \<longleftrightarrow> parseChar ev c l s = None \<and> parseChar ev c l0 s = None \<or>
    (\<exists>st s'. parseChar ev c l s = Some (st, l, s') \<and> parseChar ev c l0 s = Some (st, l0, s') \<and> (STATUS_FAILED st \<or> \<not> skipping s')) \<or>
    (\<exists>st s'. parseChar ev c l s = Some (st, 1, s') \<and> parseChar ev c l0 s = Some (st, 1, s'))"

lemma unlevelledI:
  assumes "\<And>l. parseChar ev c l s = map_option (\<lambda>(st, s'). (st, l, s')) r"
    and "\<And>st s'. r = Some (st, s') \<Longrightarrow> STATUS_FAILED st \<or> \<not> skipping s'"
  shows "unlevelled ev c l l0 s"
  using assms by (cases r) (auto simp: unlevelled_def)

lemma parseChar_level:
  assumes ns: "\<not> skipping s"
  shows "unlevelled ev c l l0 s"
proof (cases "fap_state (kvs_fragmentAckParser s)")
  case FRAGMENT_ACK_PARSER_STATE_START
  then show ?thesis using ns by (intro unlevelledI [where r = "if c = 123 then toState FRAGMENT_ACK_PARSER_STATE_ACK_START s else Some (STATUS_SUCCESS, s)"])
    (auto simp: parseChar_def toState_def split: if_splits)
next
  case FRAGMENT_ACK_PARSER_STATE_ACK_START
  then show ?thesis using ns by (intro unlevelledI [where r = "if IS_WHITE_SPACE c then Some (STATUS_SUCCESS, s) else
      if c \<noteq> 34 then Some (STATUS_INVALID_ACK_KEY_START, s) else toState FRAGMENT_ACK_PARSER_STATE_KEY_START s"])
    (auto simp: parseChar_def toState_def split: if_splits)
next
  case FRAGMENT_ACK_PARSER_STATE_KEY_START
  then show ?thesis using ns by (intro unlevelledI [where r = "map_option (Pair STATUS_SUCCESS) (if c = 34 then finishKey s else accumulate c s)"])
    (auto simp: parseChar_def map_option_bind dest: level_outcome split: Option.bind_splits if_splits option.splits)
next
  case FRAGMENT_ACK_PARSER_STATE_DELIMITER
  then show ?thesis using ns by (intro unlevelledI [where r = "if \<not> IS_WHITE_SPACE c \<and> c = 58 then toState FRAGMENT_ACK_PARSER_STATE_BODY_START s else Some (STATUS_SUCCESS, s)"])
    (auto simp: parseChar_def toState_def split: if_splits)
next
  case FRAGMENT_ACK_PARSER_STATE_BODY_START
  show ?thesis
  proof (cases "\<not> IS_WHITE_SPACE c \<and> (c = 123 \<or> c = 91)")
    case True
    then show ?thesis using FRAGMENT_ACK_PARSER_STATE_BODY_START by (auto simp: unlevelled_def parseChar_def)
  next
    case False
    then show ?thesis using ns FRAGMENT_ACK_PARSER_STATE_BODY_START by (intro unlevelledI [where r = "if IS_WHITE_SPACE c then Some (STATUS_SUCCESS, s)
        else if c = 34 then toState FRAGMENT_ACK_PARSER_STATE_TEXT_VALUE s
        else if IS_ACK_START_OF_NUMERIC_VALUE c then accumulate c s \<bind> toState FRAGMENT_ACK_PARSER_STATE_NUMERIC_VALUE
        else Some (STATUS_INVALID_ACK_INVALID_VALUE_START, s)"])
      (auto simp: parseChar_def toState_def split: Option.bind_splits if_splits)
  qed
next
  case FRAGMENT_ACK_PARSER_STATE_TEXT_VALUE
  then show ?thesis using ns by (intro unlevelledI [where r = "if c = 34 then finishValue (toState FRAGMENT_ACK_PARSER_STATE_VALUE_END) s
        else map_option (Pair STATUS_SUCCESS) (accumulate c s)"])
    (auto simp: parseChar_def dest!: level_outcome split: Option.bind_splits if_splits option.splits)
next
  case FRAGMENT_ACK_PARSER_STATE_NUMERIC_VALUE
  then show ?thesis using ns by (intro unlevelledI [where r = "if IS_WHITE_SPACE c \<or> c = 44 then finishValue (toState FRAGMENT_ACK_PARSER_STATE_VALUE_END) s
        else if c = 125 then finishValue (processParsedAck ev) s
        else if c \<in> {34, 123, 91, 93, 58} then Some (STATUS_INVALID_ACK_INVALID_VALUE_END, s)
        else map_option (Pair STATUS_SUCCESS) (accumulate c s)"])
    (auto simp: parseChar_def dest!: level_outcome split: Option.bind_splits if_splits option.splits)
next
  case FRAGMENT_ACK_PARSER_STATE_VALUE_END
  then show ?thesis using ns by (intro unlevelledI [where r = "if IS_WHITE_SPACE c \<or> c = 44 then Some (STATUS_SUCCESS, s)
        else if c = 125 then processParsedAck ev s
        else if c = 34 then toState FRAGMENT_ACK_PARSER_STATE_KEY_START s else Some (STATUS_INVALID_ACK_KEY_START, s)"])
    (auto simp: parseChar_def dest: level_outcome split: if_splits)
qed (use ns in \<open>simp_all add: skipping_def\<close>)

lemma parseLoop_level: "\<not> skipping s \<Longrightarrow> parseLoop ev cs l s = parseLoop ev cs l0 s"
proof (induction cs arbitrary: l l0 s)
  case (Cons c cs)
  from parseChar_level [OF Cons.prems, of ev c l l0] show ?case
    unfolding unlevelled_def using Cons.IH by (elim disjE exE conjE) auto
qed simp

lemma parseLoop_append:
  assumes "parseLoop ev a l s = Some (st, s1)" "STATUS_FAILED st \<or> \<not> skipping s1"
  shows "parseLoop ev (a @ b) l s = (if STATUS_FAILED st then Some (st, s1) else parseLoop ev b 0 s1)"
  using assms
proof (induction a arbitrary: l s)
  case Nil
  then show ?case using parseLoop_level [of s ev b l 0] by auto
next
  case (Cons c a)
  then show ?case by (auto split: Option.bind_splits prod.splits if_splits)
qed

subsection \<open>Reading names and values\<close>

abbreviation upd :: "FragmentAckParser \<Rightarrow> 'x KinesisVideoStream_scheme \<Rightarrow> 'x KinesisVideoStream_scheme" where
  "upd p s \<equiv> s\<lparr>kvs_fragmentAckParser := p\<rparr>"

definition accumulates :: "FRAGMENT_ACK_PARSER_STATE \<Rightarrow> BYTE \<Rightarrow> bool" where
  "accumulates st c \<longleftrightarrow> st \<in> {FRAGMENT_ACK_PARSER_STATE_KEY_START, FRAGMENT_ACK_PARSER_STATE_TEXT_VALUE} \<and> c \<noteq> 34 \<or>
     st = FRAGMENT_ACK_PARSER_STATE_NUMERIC_VALUE \<and> \<not> IS_WHITE_SPACE c \<and> c \<notin> {44, 125, 34, 123, 91, 93, 58}"

lemma parseChar_accumulates:
  "accumulates (fap_state (kvs_fragmentAckParser s)) c \<Longrightarrow> parseChar ev c l s = map_option (\<lambda>s. (STATUS_SUCCESS, l, s)) (accumulate c s)"
  by (cases "fap_state (kvs_fragmentAckParser s)") (auto simp: accumulates_def parseChar_def Let_def split: Option.bind_splits option.splits)

definition filled :: "BYTE list \<Rightarrow> FragmentAckParser \<Rightarrow> FragmentAckParser" where
  "filled cs p = p\<lparr>fap_accumulator := take (unat (fap_curPos p)) (fap_accumulator p) @ cs @ drop (unat (fap_curPos p) + length cs) (fap_accumulator p),
     fap_curPos := fap_curPos p + of_nat (length cs)\<rparr>"

lemma parseLoop_accumulates:
  assumes "length (fap_accumulator p) = 1025" "\<forall>c\<in>set cs. accumulates (fap_state p) c" "unat (fap_curPos p) + length cs \<le> 1025"
  shows "parseLoop ev (cs @ r) l (upd p s) = parseLoop ev r l (upd (filled cs p) s)"
  using assms
proof (induction cs arbitrary: p)
  case Nil
  then show ?case by (simp add: filled_def)
next
  case (Cons c cs)
  let ?k = "unat (fap_curPos p)"
  let ?p = "p\<lparr>fap_accumulator := (fap_accumulator p)[?k := c], fap_curPos := fap_curPos p + 1\<rparr>"
  have k: "?k < 1025" using Cons.prems(3) by simp
  then have "fap_curPos p < 2000" by (simp add: word_less_nat_alt)
  then have u: "unat (fap_curPos p + 1) = Suc ?k" by (rule unat_Suc_less)
  have acc: "accumulate c (upd p s) = Some (upd ?p s)" using k Cons.prems(1) by (simp add: accumulate_def poke_def Let_def)
  have ih: "parseLoop ev (cs @ r) l (upd ?p s) = parseLoop ev r l (upd (filled cs ?p) s)"
    by (rule Cons.IH) (use Cons.prems u in simp_all)
  have "take (Suc ?k) ((fap_accumulator p)[?k := c]) = take ?k (fap_accumulator p) @ [c]"
    using k Cons.prems(1) by (simp add: take_Suc_conv_app_nth)
  then have "filled cs ?p = filled (c # cs) p" using u by (simp add: filled_def)
  then show ?case using ih Cons.prems(2) by (simp add: parseChar_accumulates acc)
qed

lemma strncmp_literal:
  assumes "0 \<notin> set n" "0 \<notin> set cs"
  shows "strncmp_eq (n @ [0]) (cs @ 0 # r) (Suc (length n)) = Some (n = cs)"
  using assms
proof (induction n arbitrary: cs)
  case Nil
  then show ?case by (cases cs) auto
next
  case (Cons a n)
  then show ?case by (cases cs) auto
qed

lemma is_literal_eq:
  assumes "0 \<notin> set cs" "0 \<notin> set (map byte_of n)"
  shows "is_literal n (cs @ 0 # r) = Some (cs = map byte_of n)"
  using strncmp_literal [OF assms(2,1), of r] by (simp add: is_literal_def eq_commute [of cs])

text \<open>What a key names, and which type of ACK a value denotes.\<close>

definition key_of :: "BYTE list \<Rightarrow> FRAGMENT_ACK_KEY_NAME" where
  "key_of cs =
     (if cs = map byte_of ''EventType'' then FRAGMENT_ACK_KEY_NAME_EVENT_TYPE
      else if cs = map byte_of ''FragmentNumber'' then FRAGMENT_ACK_KEY_NAME_FRAGMENT_NUMBER
      else if cs = map byte_of ''FragmentTimecode'' then FRAGMENT_ACK_KEY_NAME_FRAGMENT_TIMECODE
      else if cs = map byte_of ''ErrorId'' then FRAGMENT_ACK_KEY_NAME_ERROR_ID
      else FRAGMENT_ACK_KEY_NAME_UNKNOWN)"

definition type_of :: "BYTE list \<Rightarrow> FRAGMENT_ACK_TYPE" where
  "type_of cs =
     (if cs = map byte_of ''BUFFERING'' then FRAGMENT_ACK_TYPE_BUFFERING
      else if cs = map byte_of ''RECEIVED'' then FRAGMENT_ACK_TYPE_RECEIVED
      else if cs = map byte_of ''PERSISTED'' then FRAGMENT_ACK_TYPE_PERSISTED
      else if cs = map byte_of ''ERROR'' then FRAGMENT_ACK_TYPE_ERROR
      else if cs = map byte_of ''IDLE'' then FRAGMENT_ACK_TYPE_IDLE
      else FRAGMENT_ACK_TYPE_UNDEFINED)"

lemma literals_nonzero:
  "0 \<notin> set (map byte_of ''EventType'')" "0 \<notin> set (map byte_of ''FragmentNumber'')" "0 \<notin> set (map byte_of ''FragmentTimecode'')"
  "0 \<notin> set (map byte_of ''ErrorId'')" "0 \<notin> set (map byte_of ''BUFFERING'')" "0 \<notin> set (map byte_of ''RECEIVED'')"
  "0 \<notin> set (map byte_of ''PERSISTED'')" "0 \<notin> set (map byte_of ''ERROR'')" "0 \<notin> set (map byte_of ''IDLE'')"
  by (simp_all add: byte_of_def)

lemma key_name:
  assumes "0 \<notin> set cs"
  shows "getFragmentAckKeyName (cs @ 0 # r) = Some (key_of cs)"
  unfolding getFragmentAckKeyName_def key_of_def is_literal_eq [OF assms literals_nonzero(1)] is_literal_eq [OF assms literals_nonzero(2)]
    is_literal_eq [OF assms literals_nonzero(3)] is_literal_eq [OF assms literals_nonzero(4)] bind.bind_lunit
  by (simp only: if_distrib [where f = Some])

lemma type_name:
  assumes "0 \<notin> set cs"
  shows "getFragmentAckType (cs @ 0 # r) = Some (type_of cs)"
  unfolding getFragmentAckType_def type_of_def is_literal_eq [OF assms literals_nonzero(5)] is_literal_eq [OF assms literals_nonzero(6)]
    is_literal_eq [OF assms literals_nonzero(7)] is_literal_eq [OF assms literals_nonzero(8)] is_literal_eq [OF assms literals_nonzero(9)] bind.bind_lunit
  by (simp only: if_distrib [where f = Some])

text \<open>The parser between two values: what has been read of the ACK so far.\<close>

definition parser_at ::
  "FRAGMENT_ACK_PARSER_STATE \<Rightarrow> FragmentAck \<Rightarrow> (FRAGMENT_ACK_KEY_NAME \<Rightarrow> bool) \<Rightarrow> UPLOAD_HANDLE \<Rightarrow> FragmentAckParser \<Rightarrow> bool" where
  "parser_at st ack ks h p \<longleftrightarrow> fap_state p = st \<and> fap_fragmentAck p = ack \<and> fap_keys p = ks \<and> fap_uploadHandle p = h \<and>
     fap_curPos p = 0 \<and> length (fap_accumulator p) = 1025"

lemma terminate_filled:
  assumes "length (fap_accumulator p) = 1025" "fap_curPos p = 0" "length cs \<le> 1024"
  shows "terminate (upd (filled cs p) s) = Some (upd (p\<lparr>fap_accumulator := cs @ 0 # drop (Suc (length cs)) (fap_accumulator p), fap_curPos := of_nat (length cs)\<rparr>) s)"
proof -
  have "unat (of_nat (length cs) :: UINT32) = length cs" using assms(3) by (simp add: unat_of_nat take_bit_nat_eq_self)
  then show ?thesis using assms by (simp add: terminate_def filled_def poke_def Let_def list_update_append Cons_nth_drop_Suc [symmetric])
qed

lemma parse_key:
  assumes at: "parser_at FRAGMENT_ACK_PARSER_STATE_KEY_START ack ks h p" and cs: "34 \<notin> set cs" "0 \<notin> set cs" "length cs \<le> 1024"
  obtains p' where "parser_at FRAGMENT_ACK_PARSER_STATE_DELIMITER ack ks h p'" "fap_curKeyName p' = key_of cs"
    "\<And>ev r l (s :: 'a KinesisVideoStream_scheme). parseLoop ev (cs @ 34 # r) l (upd p s) = parseLoop ev r l (upd p' s)"
proof -
  have p: "length (fap_accumulator p) = 1025" "fap_curPos p = 0" "fap_state p = FRAGMENT_ACK_PARSER_STATE_KEY_START" using at by (simp_all add: parser_at_def)
  let ?p = "p\<lparr>fap_accumulator := cs @ 0 # drop (Suc (length cs)) (fap_accumulator p), fap_curKeyName := key_of cs,
      fap_state := FRAGMENT_ACK_PARSER_STATE_DELIMITER, fap_curPos := 0\<rparr>"
  have acc: "\<forall>c\<in>set cs. accumulates (fap_state p) c" using cs(1) p(3) by (auto simp: accumulates_def)
  have "parseLoop ev (cs @ 34 # r) l (upd p s) = parseLoop ev r l (upd ?p s)" for ev r l and s :: "'a KinesisVideoStream_scheme"
  proof -
    have "finishKey (upd (filled cs p) s) = Some (upd ?p s)"
      unfolding finishKey_def terminate_filled [OF p(1,2) cs(3)] by (simp add: key_name [OF cs(2)] Let_def)
    moreover have "fap_state (filled cs p) = FRAGMENT_ACK_PARSER_STATE_KEY_START" using p(3) by (simp add: filled_def)
    ultimately have "parseLoop ev (34 # r) l (upd (filled cs p) s) = parseLoop ev r l (upd ?p s)" by (simp add: parseChar_def)
    then show ?thesis using parseLoop_accumulates [OF p(1) acc, of ev "34 # r" l s] p(2) cs(3) by simp
  qed
  moreover have "parser_at FRAGMENT_ACK_PARSER_STATE_DELIMITER ack ks h ?p" using at cs(3) by (simp add: parser_at_def)
  ultimately show thesis using that [of ?p] by simp
qed

text \<open>What a value means, and which values are read without an error.\<close>

definition value_read :: "FRAGMENT_ACK_KEY_NAME \<Rightarrow> BYTE list \<Rightarrow> FragmentAck \<Rightarrow> FragmentAck" where
  "value_read key cs ack =
     (case key of
        FRAGMENT_ACK_KEY_NAME_EVENT_TYPE \<Rightarrow> ack\<lparr>fa_ackType := type_of cs\<rparr>
      | FRAGMENT_ACK_KEY_NAME_FRAGMENT_NUMBER \<Rightarrow> ack\<lparr>fa_sequenceNumber := cs @ replicate (129 - length cs) 0\<rparr>
      | FRAGMENT_ACK_KEY_NAME_FRAGMENT_TIMECODE \<Rightarrow> ack\<lparr>fa_timestamp := of_nat (num_value 10 0 cs)\<rparr>
      | FRAGMENT_ACK_KEY_NAME_ERROR_ID \<Rightarrow> ack\<lparr>fa_result := getAckErrorTypeFromErrorId (of_nat (num_value 10 0 cs))\<rparr>
      | FRAGMENT_ACK_KEY_NAME_UNKNOWN \<Rightarrow> ack)"

definition readable :: "FRAGMENT_ACK_KEY_NAME \<Rightarrow> BYTE list \<Rightarrow> FragmentAck \<Rightarrow> bool" where
  "readable key cs ack \<longleftrightarrow> 0 \<notin> set cs \<and> length cs \<le> 1024 \<and>
     (key = FRAGMENT_ACK_KEY_NAME_FRAGMENT_NUMBER \<longrightarrow> length cs \<le> 128 \<and> length (fa_sequenceNumber ack) = 129) \<and>
     (key \<in> {FRAGMENT_ACK_KEY_NAME_FRAGMENT_TIMECODE, FRAGMENT_ACK_KEY_NAME_ERROR_ID} \<longrightarrow>
        cs \<noteq> [] \<and> (\<forall>c\<in>set cs. is_digit 10 c) \<and> num_value 10 0 cs < 2 ^ 64)"

lemma sequence_number:
  assumes "0 \<notin> set cs" "length cs \<le> 128" "length d = 129"
  shows "c_strncpy d (cs @ 0 # r) 128 \<bind> (\<lambda>n. poke n 128 0) = Some (cs @ replicate (129 - length cs) 0)"
proof -
  have l: "c_strnlen (cs @ 0 # r) 128 = Some (length cs)"
    using assms(1,2) by (simp add: c_strnlen_append)
  obtain x where x: "drop 128 d = [x]" using assms(3) by (cases "drop 128 d") (auto dest: arg_cong [where f = length])
  have "129 - length cs = Suc (128 - length cs)" using assms(2) by simp
  then have "replicate (129 - length cs) 0 = replicate (128 - length cs) 0 @ [0 :: BYTE]" by (simp add: replicate_append_same)
  then show ?thesis using assms by (simp add: c_strncpy_def l poke_def x list_update_append)
qed

lemma process_value:
  assumes "fap_curKeyName p = key" "\<not> fap_keys p key" "readable key cs (fap_fragmentAck p)" "fap_accumulator p = cs @ 0 # r"
  shows "processAckValue (Some p) = Some (STATUS_SUCCESS, Some (p\<lparr>fap_fragmentAck := value_read key cs (fap_fragmentAck p),
    fap_keys := (fap_keys p)(key := True), fap_curPos := 0\<rparr>))"
proof (cases key)
  case FRAGMENT_ACK_KEY_NAME_EVENT_TYPE
  then show ?thesis using assms type_name [of cs r] by (simp add: processAckValue_def value_read_def readable_def)
next
  case FRAGMENT_ACK_KEY_NAME_FRAGMENT_NUMBER
  then have "c_strncpy (fa_sequenceNumber (fap_fragmentAck p)) (cs @ 0 # r) 128 \<bind> (\<lambda>n. poke n 128 0) = Some (cs @ replicate (129 - length cs) 0)"
    using assms(3) by (intro sequence_number) (simp_all add: readable_def)
  then obtain n where "c_strncpy (fa_sequenceNumber (fap_fragmentAck p)) (cs @ 0 # r) 128 = Some n" "poke n 128 0 = Some (cs @ replicate (129 - length cs) 0)"
    by (auto split: Option.bind_splits)
  then show ?thesis using assms FRAGMENT_ACK_KEY_NAME_FRAGMENT_NUMBER by (simp add: processAckValue_def value_read_def)
next
  case FRAGMENT_ACK_KEY_NAME_FRAGMENT_TIMECODE
  then have "strtoui64 (Some (cs @ 0 # r)) None 10 True = Some (STATUS_SUCCESS, Some (of_nat (num_value 10 0 cs)))"
    using assms(3) strtoui64_run [of 10 cs r] by (simp add: readable_def)
  then show ?thesis using assms FRAGMENT_ACK_KEY_NAME_FRAGMENT_TIMECODE by (simp add: processAckValue_def value_read_def)
next
  case FRAGMENT_ACK_KEY_NAME_ERROR_ID
  then have "strtoui64 (Some (cs @ 0 # r)) None 10 True = Some (STATUS_SUCCESS, Some (of_nat (num_value 10 0 cs)))"
    using assms(3) strtoui64_run [of 10 cs r] by (simp add: readable_def)
  then show ?thesis using assms FRAGMENT_ACK_KEY_NAME_ERROR_ID by (simp add: processAckValue_def value_read_def)
next
  case FRAGMENT_ACK_KEY_NAME_UNKNOWN
  then show ?thesis using assms by (simp add: processAckValue_def value_read_def)
qed

lemma finish_value:
  assumes at: "parser_at st ack ks h p" and key: "fap_curKeyName p = key" "\<not> ks key" "readable key cs ack"
  obtains p' where "parser_at st (value_read key cs ack) (ks(key := True)) h p'" "\<And>f (s :: 'a KinesisVideoStream_scheme). finishValue f (upd (filled cs p) s) = f (upd p' s)"
proof -
  have p: "length (fap_accumulator p) = 1025" "fap_curPos p = 0" "fap_fragmentAck p = ack" "fap_keys p = ks" using at by (simp_all add: parser_at_def)
  have cs: "length cs \<le> 1024" using key(3) by (simp add: readable_def)
  let ?p = "p\<lparr>fap_accumulator := cs @ 0 # drop (Suc (length cs)) (fap_accumulator p), fap_curPos := of_nat (length cs)\<rparr>"
  let ?q = "?p\<lparr>fap_fragmentAck := value_read key cs (fap_fragmentAck ?p), fap_keys := (fap_keys ?p)(key := True), fap_curPos := 0\<rparr>"
  have "processAckValue (Some ?p) = Some (STATUS_SUCCESS, Some ?q)"
    by (rule process_value) (use key p in simp_all)
  then have "finishValue f (upd (filled cs p) s) = f (upd ?q s)" for f and s :: "'a KinesisVideoStream_scheme"
    unfolding finishValue_def terminate_filled [OF p(1,2) cs] by simp
  moreover have "parser_at st (value_read key cs ack) (ks(key := True)) h ?q" using at p cs by (simp add: parser_at_def)
  ultimately show thesis using that by blast
qed

lemma parser_at_state: "parser_at st ack ks h p \<Longrightarrow> parser_at st' ack ks h (p\<lparr>fap_state := st'\<rparr>)"
  by (simp add: parser_at_def)

lemma parse_value:
  assumes at: "parser_at st ack ks h p" and key: "fap_curKeyName p = key" "\<not> ks key" "readable key cs ack"
    and cs: "\<forall>c\<in>set cs. accumulates st c"
    and e: "st = FRAGMENT_ACK_PARSER_STATE_TEXT_VALUE \<and> e = 34 \<or> st = FRAGMENT_ACK_PARSER_STATE_NUMERIC_VALUE \<and> e = 44"
  obtains p' where "parser_at FRAGMENT_ACK_PARSER_STATE_VALUE_END (value_read key cs ack) (ks(key := True)) h p'"
    "\<And>ev r l (s :: 'a KinesisVideoStream_scheme). parseLoop ev (cs @ e # r) l (upd p s) = parseLoop ev r l (upd p' s)"
proof -
  obtain q where q: "parser_at st (value_read key cs ack) (ks(key := True)) h q" "\<And>f (s :: 'a KinesisVideoStream_scheme). finishValue f (upd (filled cs p) s) = f (upd q s)"
    using finish_value [OF at key] by blast
  have p: "length (fap_accumulator p) = 1025" "fap_curPos p = 0" "fap_state p = st" using at by (simp_all add: parser_at_def)
  have acc: "\<forall>c\<in>set cs. accumulates (fap_state p) c" using cs p(3) by simp
  have len: "unat (fap_curPos p) + length cs \<le> 1025" using key(3) p(2) by (simp add: readable_def)
  let ?q = "q\<lparr>fap_state := FRAGMENT_ACK_PARSER_STATE_VALUE_END\<rparr>"
  have "parseLoop ev (cs @ e # r) l (upd p s) = parseLoop ev r l (upd ?q s)" for ev r l and s :: "'a KinesisVideoStream_scheme"
  proof -
    have "fap_state (filled cs p) = st" using p(3) by (simp add: filled_def)
    then have "parseLoop ev (e # r) l (upd (filled cs p) s) = parseLoop ev r l (upd ?q s)"
      using e by (elim disjE conjE) (simp_all add: parseChar_def q(2) toState_def setState_def IS_WHITE_SPACE_def byte_of_def)
    then show ?thesis unfolding parseLoop_accumulates [OF p(1) acc len] .
  qed
  then show thesis using that [OF parser_at_state [OF q(1)]] by blast
qed

lemma parse_last_value:
  assumes at: "parser_at FRAGMENT_ACK_PARSER_STATE_NUMERIC_VALUE ack ks h p" and key: "fap_curKeyName p = key" "\<not> ks key" "readable key cs ack"
    and cs: "\<forall>c\<in>set cs. accumulates FRAGMENT_ACK_PARSER_STATE_NUMERIC_VALUE c"
  obtains p' where "parser_at FRAGMENT_ACK_PARSER_STATE_NUMERIC_VALUE (value_read key cs ack) (ks(key := True)) h p'"
    "\<And>ev r l (s :: 'a KinesisVideoStream_scheme). parseLoop ev (cs @ 125 # r) l (upd p s) =
       processParsedAck ev (upd p' s) \<bind> (\<lambda>(st, s). if STATUS_FAILED st then Some (st, s) else parseLoop ev r l s)"
proof -
  obtain q where q: "parser_at FRAGMENT_ACK_PARSER_STATE_NUMERIC_VALUE (value_read key cs ack) (ks(key := True)) h q" "\<And>f (s :: 'a KinesisVideoStream_scheme). finishValue f (upd (filled cs p) s) = f (upd q s)"
    using finish_value [OF at key] by blast
  have p: "length (fap_accumulator p) = 1025" "fap_curPos p = 0" "fap_state p = FRAGMENT_ACK_PARSER_STATE_NUMERIC_VALUE" using at by (simp_all add: parser_at_def)
  have acc: "\<forall>c\<in>set cs. accumulates (fap_state p) c" using cs p(3) by simp
  have len: "unat (fap_curPos p) + length cs \<le> 1025" using key(3) p(2) by (simp add: readable_def)
  have "parseLoop ev (cs @ 125 # r) l (upd p s) =
       processParsedAck ev (upd q s) \<bind> (\<lambda>(st, s). if STATUS_FAILED st then Some (st, s) else parseLoop ev r l s)" for ev r l and s :: "'a KinesisVideoStream_scheme"
  proof -
    have "fap_state (filled cs p) = FRAGMENT_ACK_PARSER_STATE_NUMERIC_VALUE" using p(3) by (simp add: filled_def)
    then have "parseLoop ev (125 # r) l (upd (filled cs p) s) =
        processParsedAck ev (upd q s) \<bind> (\<lambda>(st, s). if STATUS_FAILED st then Some (st, s) else parseLoop ev r l s)"
      by (cases "processParsedAck ev (upd q s)") (auto simp: parseChar_def q(2) IS_WHITE_SPACE_def byte_of_def)
    then show ?thesis unfolding parseLoop_accumulates [OF p(1) acc len] .
  qed
  then show thesis using that q(1) by blast
qed

subsection \<open>Reading a whole ACK\<close>

lemma letter_digit:
  assumes "0 \<le> j" "j < 26"
  shows "\<not> unat (of_int j + 10 :: UINT64) < 10"
proof -
  obtain k where k: "j = int k" using assms(1) nonneg_int_cases by blast
  have "of_int j + 10 = (of_nat (k + 10) :: UINT64)" by (simp add: k)
  moreover have "unat (of_nat (k + 10) :: UINT64) = k + 10" using assms(2) k by (subst unat_of_nat) (simp add: take_bit_nat_eq_self)
  ultimately show ?thesis by (metis le_add2 not_le)
qed

lemma is_digit_numeric:
  assumes "is_digit 10 c"
  shows "accumulates FRAGMENT_ACK_PARSER_STATE_NUMERIC_VALUE c" "IS_ACK_START_OF_NUMERIC_VALUE c" "\<not> IS_WHITE_SPACE c" "c \<notin> {123, 91, 34}" "c \<noteq> 0"
proof -
  have d: "sint c \<ge> 48" "sint c \<le> 57"
    using assms letter_digit [of "sint c - 97"] letter_digit [of "sint c - 65"]
    by (auto simp: is_digit_def digit_val_def charDigit_def split: if_splits)
  show "accumulates FRAGMENT_ACK_PARSER_STATE_NUMERIC_VALUE c" "IS_ACK_START_OF_NUMERIC_VALUE c" "\<not> IS_WHITE_SPACE c" "c \<notin> {123, 91, 34}" "c \<noteq> 0"
    using d by (auto simp: accumulates_def IS_ACK_START_OF_NUMERIC_VALUE_def IS_WHITE_SPACE_def byte_of_def)
qed

definition dec :: "UINT64 \<Rightarrow> BYTE list" where
  "dec v = (if v = 0 then [byte_of CHR ''0''] else rev (rdigits 10 (unat v)))"

lemma dec_facts:
  shows "dec v \<noteq> []" "\<forall>c\<in>set (dec v). is_digit 10 c" "num_value 10 0 (dec v) = unat v" "length (dec v) \<le> 64"
proof -
  have "dec v \<noteq> [] \<and> (\<forall>c\<in>set (dec v). is_digit 10 c) \<and> num_value 10 0 (dec v) = unat v \<and> length (dec v) \<le> 64"
  proof (cases "v = 0")
    case True
    then show ?thesis by (simp add: dec_def is_digit_def charDigit_def digit_val_def byte_of_def)
  next
    case False
    have "rdigits 10 (unat v) \<noteq> []" using False by (subst rdigits.simps) (simp add: unat_eq_zero)
    moreover have "length (rdigits 10 (unat v)) \<le> 64" by (rule rdigits_length) (simp_all add: unat64_less [simplified])
    ultimately show ?thesis using False rdigits_digit [of 10] rdigits_value [of 10 "unat v"] by (simp add: dec_def)
  qed
  then show "dec v \<noteq> []" "\<forall>c\<in>set (dec v). is_digit 10 c" "num_value 10 0 (dec v) = unat v" "length (dec v) \<le> 64" by simp_all
qed

text \<open>The text of an ACK as the service sends it.\<close>

definition text_member :: "string \<Rightarrow> BYTE list \<Rightarrow> BYTE list" where
  "text_member k v = 34 # map byte_of k @ [34, 58, 34] @ v @ [34]"

definition number_member :: "string \<Rightarrow> UINT64 \<Rightarrow> BYTE list" where
  "number_member k v = 34 # map byte_of k @ [34, 58] @ dec v"

definition ack_text :: "string \<Rightarrow> UINT64 \<Rightarrow> BYTE list \<Rightarrow> UINT64 option \<Rightarrow> BYTE list" where
  "ack_text ty timecode number err = 123 # text_member ''EventType'' (map byte_of ty) @ 44 # number_member ''FragmentTimecode'' timecode
     @ 44 # text_member ''FragmentNumber'' number @ (case err of None \<Rightarrow> [] | Some e \<Rightarrow> 44 # number_member ''ErrorId'' e) @ [125]"

lemma parse_member_key:
  assumes at: "parser_at st ack ks h p" and st: "st \<in> {FRAGMENT_ACK_PARSER_STATE_ACK_START, FRAGMENT_ACK_PARSER_STATE_VALUE_END}"
    and k: "34 \<notin> set k" "0 \<notin> set k" "length k \<le> 1024"
  obtains p' where "parser_at FRAGMENT_ACK_PARSER_STATE_BODY_START ack ks h p'" "fap_curKeyName p' = key_of k"
    "\<And>ev r l (s :: 'a KinesisVideoStream_scheme). parseLoop ev (34 # k @ 34 # 58 # r) l (upd p s) = parseLoop ev r l (upd p' s)"
proof -
  let ?p = "p\<lparr>fap_state := FRAGMENT_ACK_PARSER_STATE_KEY_START\<rparr>"
  have at1: "parser_at FRAGMENT_ACK_PARSER_STATE_KEY_START ack ks h ?p" by (rule parser_at_state [OF at])
  obtain q where q: "parser_at FRAGMENT_ACK_PARSER_STATE_DELIMITER ack ks h q" "fap_curKeyName q = key_of k"
    "\<And>ev r l (s :: 'a KinesisVideoStream_scheme). parseLoop ev (k @ 34 # r) l (upd ?p s) = parseLoop ev r l (upd q s)"
    using parse_key [OF at1 k] by blast
  let ?q = "q\<lparr>fap_state := FRAGMENT_ACK_PARSER_STATE_BODY_START\<rparr>"
  have "parseLoop ev (34 # k @ 34 # 58 # r) l (upd p s) = parseLoop ev r l (upd ?q s)" for ev r l and s :: "'a KinesisVideoStream_scheme"
  proof -
    have "fap_state p = st" "fap_state q = FRAGMENT_ACK_PARSER_STATE_DELIMITER" using at q(1) by (simp_all add: parser_at_def)
    then have "parseChar ev 34 l (upd p s) = Some (STATUS_SUCCESS, l, upd ?p s)" "parseChar ev 58 l (upd q s) = Some (STATUS_SUCCESS, l, upd ?q s)"
      using st by (auto simp: parseChar_def toState_def setState_def IS_WHITE_SPACE_def byte_of_def)
    then show ?thesis using q(3) [of ev "58 # r" l s] by simp
  qed
  then show thesis using that [OF parser_at_state [OF q(1)]] q(2) by simp
qed

lemma parse_text_member:
  assumes at: "parser_at st ack ks h p" and st: "st \<in> {FRAGMENT_ACK_PARSER_STATE_ACK_START, FRAGMENT_ACK_PARSER_STATE_VALUE_END}"
    and k: "34 \<notin> set (map byte_of k)" "0 \<notin> set (map byte_of k)" "length k \<le> 1024" and key: "key_of (map byte_of k) = key"
    and v: "34 \<notin> set v" "\<not> ks (key)" "readable (key) v ack"
  obtains p' where "parser_at FRAGMENT_ACK_PARSER_STATE_VALUE_END (value_read (key) v ack) (ks(key := True)) h p'"
    "\<And>ev r l (s :: 'a KinesisVideoStream_scheme). parseLoop ev (text_member k v @ r) l (upd p s) = parseLoop ev r l (upd p' s)"
proof -
  let ?k = "map byte_of k"
  have kl: "length ?k \<le> 1024" using k(3) by simp
  obtain q where q: "parser_at FRAGMENT_ACK_PARSER_STATE_BODY_START ack ks h q" "fap_curKeyName q = key"
    "\<And>ev r l (s :: 'a KinesisVideoStream_scheme). parseLoop ev (34 # ?k @ 34 # 58 # r) l (upd p s) = parseLoop ev r l (upd q s)"
    using parse_member_key [OF at st k(1,2) kl] unfolding key by blast
  let ?q = "q\<lparr>fap_state := FRAGMENT_ACK_PARSER_STATE_TEXT_VALUE\<rparr>"
  have atq: "parser_at FRAGMENT_ACK_PARSER_STATE_TEXT_VALUE ack ks h ?q" "fap_curKeyName ?q = key" using parser_at_state [OF q(1)] q(2) by simp_all
  have acc: "\<forall>c\<in>set v. accumulates FRAGMENT_ACK_PARSER_STATE_TEXT_VALUE c" using v(1) by (auto simp: accumulates_def)
  obtain p' where p': "parser_at FRAGMENT_ACK_PARSER_STATE_VALUE_END (value_read (key) v ack) (ks(key := True)) h p'"
    "\<And>ev r l (s :: 'a KinesisVideoStream_scheme). parseLoop ev (v @ 34 # r) l (upd ?q s) = parseLoop ev r l (upd p' s)"
    using parse_value [OF atq v(2,3) acc, of 34] by blast
  have "parseLoop ev (text_member k v @ r) l (upd p s) = parseLoop ev r l (upd p' s)" for ev r l and s :: "'a KinesisVideoStream_scheme"
  proof -
    have "fap_state q = FRAGMENT_ACK_PARSER_STATE_BODY_START" using q(1) by (simp add: parser_at_def)
    then have "parseChar ev 34 l (upd q s) = Some (STATUS_SUCCESS, l, upd ?q s)"
      by (auto simp: parseChar_def toState_def setState_def IS_WHITE_SPACE_def byte_of_def)
    then show ?thesis using q(3) [of ev "34 # v @ 34 # r" l s] p'(2) [of ev r l s] by (simp add: text_member_def)
  qed
  then show thesis using that p'(1) by blast
qed

text \<open>The first digit of a number is accumulated in the state before the number, which is the same as accumulating it in the state of the number.\<close>

lemma parse_first_digit:
  assumes "fap_state p = FRAGMENT_ACK_PARSER_STATE_BODY_START" "is_digit 10 c" "length (fap_accumulator p) = 1025" "fap_curPos p = 0"
  shows "parseLoop ev (c # r) l (upd p s) = parseLoop ev (c # r) l (upd (p\<lparr>fap_state := FRAGMENT_ACK_PARSER_STATE_NUMERIC_VALUE\<rparr>) s)"
proof -
  note d = is_digit_numeric [OF assms(2)]
  let ?p = "p\<lparr>fap_state := FRAGMENT_ACK_PARSER_STATE_NUMERIC_VALUE\<rparr>"
  let ?q = "p\<lparr>fap_accumulator := (fap_accumulator p)[0 := c], fap_curPos := 1, fap_state := FRAGMENT_ACK_PARSER_STATE_NUMERIC_VALUE\<rparr>"
  have "accumulate c (upd p s) = Some (upd (p\<lparr>fap_accumulator := (fap_accumulator p)[0 := c], fap_curPos := 1\<rparr>) s)"
    using assms(3,4) by (simp add: accumulate_def poke_def)
  then have "parseChar ev c l (upd p s) = Some (STATUS_SUCCESS, l, upd ?q s)"
    using assms(1) d by (simp add: parseChar_def setState_def)
  moreover have "accumulate c (upd ?p s) = Some (upd ?q s)" using assms(3,4) by (simp add: accumulate_def poke_def)
  then have "parseChar ev c l (upd ?p s) = Some (STATUS_SUCCESS, l, upd ?q s)" using d(1) by (subst parseChar_accumulates) simp_all
  ultimately show ?thesis by simp
qed

lemma parse_number_key:
  assumes at: "parser_at st ack ks h p" and st: "st \<in> {FRAGMENT_ACK_PARSER_STATE_ACK_START, FRAGMENT_ACK_PARSER_STATE_VALUE_END}"
    and k: "34 \<notin> set (map byte_of k)" "0 \<notin> set (map byte_of k)" "length k \<le> 1024" and key: "key_of (map byte_of k) = key"
  obtains p' where "parser_at FRAGMENT_ACK_PARSER_STATE_NUMERIC_VALUE ack ks h p'" "fap_curKeyName p' = key"
    "\<And>ev r l (s :: 'a KinesisVideoStream_scheme). parseLoop ev (number_member k v @ r) l (upd p s) = parseLoop ev (dec v @ r) l (upd p' s)"
proof -
  let ?k = "map byte_of k"
  have kl: "length ?k \<le> 1024" using k(3) by simp
  obtain q where q: "parser_at FRAGMENT_ACK_PARSER_STATE_BODY_START ack ks h q" "fap_curKeyName q = key"
    "\<And>ev r l (s :: 'a KinesisVideoStream_scheme). parseLoop ev (34 # ?k @ 34 # 58 # r) l (upd p s) = parseLoop ev r l (upd q s)"
    using parse_member_key [OF at st k(1,2) kl] unfolding key by blast
  let ?q = "q\<lparr>fap_state := FRAGMENT_ACK_PARSER_STATE_NUMERIC_VALUE\<rparr>"
  obtain c cs where c: "dec v = c # cs" using dec_facts(1) by (cases "dec v") auto
  then have "is_digit 10 c" using dec_facts(2) [of v] by simp
  then have "parseLoop ev (number_member k v @ r) l (upd p s) = parseLoop ev (dec v @ r) l (upd ?q s)" for ev r l and s :: "'a KinesisVideoStream_scheme"
    using q(1) q(3) [of ev "dec v @ r" l s] parse_first_digit [of q c ev "cs @ r" l s] c by (simp add: number_member_def parser_at_def)
  then show thesis using that [OF parser_at_state [OF q(1)]] q(2) by simp
qed

lemma numeric_readable:
  "key \<noteq> FRAGMENT_ACK_KEY_NAME_FRAGMENT_NUMBER \<Longrightarrow> readable key (dec v) ack" "\<forall>c\<in>set (dec v). accumulates FRAGMENT_ACK_PARSER_STATE_NUMERIC_VALUE c"
proof -
  have d: "\<forall>c\<in>set (dec v). is_digit 10 c" by (rule dec_facts(2))
  then show "\<forall>c\<in>set (dec v). accumulates FRAGMENT_ACK_PARSER_STATE_NUMERIC_VALUE c" using is_digit_numeric(1) by blast
  have "0 \<notin> set (dec v)" using d is_digit_numeric(5) by blast
  then show "readable key (dec v) ack" if "key \<noteq> FRAGMENT_ACK_KEY_NAME_FRAGMENT_NUMBER"
    using that dec_facts [of v] unat64_less [of v] by (simp add: readable_def)
qed

lemma comma_stays: "parser_at FRAGMENT_ACK_PARSER_STATE_VALUE_END ack ks h p \<Longrightarrow> parseLoop ev (44 # r) l (upd p s) = parseLoop ev r l (upd p s)"
  by (simp add: parser_at_def parseChar_def)

definition initial_ack :: FragmentAck where "initial_ack = fap_fragmentAck initial_parser"

lemma key_names:
  "key_of (map byte_of ''EventType'') = FRAGMENT_ACK_KEY_NAME_EVENT_TYPE" "key_of (map byte_of ''FragmentNumber'') = FRAGMENT_ACK_KEY_NAME_FRAGMENT_NUMBER"
  "key_of (map byte_of ''FragmentTimecode'') = FRAGMENT_ACK_KEY_NAME_FRAGMENT_TIMECODE" "key_of (map byte_of ''ErrorId'') = FRAGMENT_ACK_KEY_NAME_ERROR_ID"
  by (simp_all add: key_of_def byte_of_def)

lemma quotes: "34 \<notin> set (map byte_of ''EventType'')" "34 \<notin> set (map byte_of ''FragmentNumber'')" "34 \<notin> set (map byte_of ''FragmentTimecode'')"
  "34 \<notin> set (map byte_of ''ErrorId'')"
  by (simp_all add: byte_of_def)

text \<open>The ACK that a text means.\<close>

definition meant :: "string \<Rightarrow> UINT64 \<Rightarrow> BYTE list \<Rightarrow> UINT64 option \<Rightarrow> FragmentAck" where
  "meant ty timecode number err = \<lparr>fa_version = 0, fa_ackType = type_of (map byte_of ty), fa_timestamp = timecode,
     fa_sequenceNumber = number @ replicate (129 - length number) 0,
     fa_result = (case err of None \<Rightarrow> SERVICE_CALL_RESULT_OK | Some e \<Rightarrow> getAckErrorTypeFromErrorId e)\<rparr>"

lemma parse_common:
  assumes at: "parser_at FRAGMENT_ACK_PARSER_STATE_START initial_ack (\<lambda>_. False) h p"
    and ty: "34 \<notin> set (map byte_of ty)" "0 \<notin> set (map byte_of ty)" "length ty \<le> 1024"
    and number: "34 \<notin> set number" "0 \<notin> set number" "length number \<le> 128"
  obtains p' ks where "parser_at FRAGMENT_ACK_PARSER_STATE_VALUE_END (meant ty timecode number None) ks h p'" "\<not> ks FRAGMENT_ACK_KEY_NAME_ERROR_ID"
    "\<And>ev r l (s :: 'a KinesisVideoStream_scheme). parseLoop ev (123 # text_member ''EventType'' (map byte_of ty) @ 44 # number_member ''FragmentTimecode'' timecode
       @ 44 # text_member ''FragmentNumber'' number @ r) l (upd p s) = parseLoop ev r l (upd p' s)"
proof -
  let ?p = "p\<lparr>fap_state := FRAGMENT_ACK_PARSER_STATE_ACK_START\<rparr>"
  have at0: "parser_at FRAGMENT_ACK_PARSER_STATE_ACK_START initial_ack (\<lambda>_. False) h ?p" by (rule parser_at_state [OF at])
  have brace: "parseLoop ev (123 # r) l (upd p s) = parseLoop ev r l (upd ?p s)" for ev r l and s :: "'a KinesisVideoStream_scheme"
    using at by (simp add: parser_at_def parseChar_def toState_def setState_def)
  let ?a1 = "value_read FRAGMENT_ACK_KEY_NAME_EVENT_TYPE (map byte_of ty) initial_ack"
  let ?k1 = "(\<lambda>_. False)(FRAGMENT_ACK_KEY_NAME_EVENT_TYPE := True)"
  obtain p1 where p1: "parser_at FRAGMENT_ACK_PARSER_STATE_VALUE_END ?a1 ?k1 h p1"
    "\<And>ev r l (s :: 'a KinesisVideoStream_scheme). parseLoop ev (text_member ''EventType'' (map byte_of ty) @ r) l (upd ?p s) = parseLoop ev r l (upd p1 s)"
    by (rule parse_text_member [OF at0 _ quotes(1) literals_nonzero(1) _ key_names(1) ty(1), where 'a = 'a]) (use ty in \<open>simp_all add: readable_def\<close>)
  let ?a2 = "value_read FRAGMENT_ACK_KEY_NAME_FRAGMENT_TIMECODE (dec timecode) ?a1"
  let ?k2 = "?k1(FRAGMENT_ACK_KEY_NAME_FRAGMENT_TIMECODE := True)"
  obtain q2 where q2: "parser_at FRAGMENT_ACK_PARSER_STATE_NUMERIC_VALUE ?a1 ?k1 h q2" "fap_curKeyName q2 = FRAGMENT_ACK_KEY_NAME_FRAGMENT_TIMECODE"
    "\<And>ev r l (s :: 'a KinesisVideoStream_scheme). parseLoop ev (number_member ''FragmentTimecode'' timecode @ r) l (upd p1 s) = parseLoop ev (dec timecode @ r) l (upd q2 s)"
    by (rule parse_number_key [OF p1(1) _ quotes(3) literals_nonzero(3) _ key_names(3), where 'a = 'a and v = timecode]) simp_all
  obtain p2 where p2: "parser_at FRAGMENT_ACK_PARSER_STATE_VALUE_END ?a2 ?k2 h p2"
    "\<And>ev r l (s :: 'a KinesisVideoStream_scheme). parseLoop ev (dec timecode @ 44 # r) l (upd q2 s) = parseLoop ev r l (upd p2 s)"
    by (rule parse_value [OF q2(1,2) _ numeric_readable(1) numeric_readable(2) [of timecode], of 44, where 'a = 'a]) simp_all
  let ?a3 = "value_read FRAGMENT_ACK_KEY_NAME_FRAGMENT_NUMBER number ?a2"
  let ?k3 = "?k2(FRAGMENT_ACK_KEY_NAME_FRAGMENT_NUMBER := True)"
  obtain p3 where p3: "parser_at FRAGMENT_ACK_PARSER_STATE_VALUE_END ?a3 ?k3 h p3"
    "\<And>ev r l (s :: 'a KinesisVideoStream_scheme). parseLoop ev (text_member ''FragmentNumber'' number @ r) l (upd p2 s) = parseLoop ev r l (upd p3 s)"
    by (rule parse_text_member [OF p2(1) _ quotes(2) literals_nonzero(2) _ key_names(2) number(1), where 'a = 'a])
      (use number in \<open>simp_all add: readable_def value_read_def initial_ack_def initial_parser_def\<close>)
  have a3: "?a3 = meant ty timecode number None"
    by (simp add: value_read_def meant_def initial_ack_def initial_parser_def dec_facts(3))
  have "parseLoop ev (123 # text_member ''EventType'' (map byte_of ty) @ 44 # number_member ''FragmentTimecode'' timecode
       @ 44 # text_member ''FragmentNumber'' number @ r) l (upd p s) = parseLoop ev r l (upd p3 s)" for ev r l and s :: "'a KinesisVideoStream_scheme"
    unfolding brace p1(2) comma_stays [OF p1(1)] q2(3) p2(2) p3(2) ..
  moreover have "\<not> ?k3 FRAGMENT_ACK_KEY_NAME_ERROR_ID" by simp
  ultimately show thesis using that [OF p3(1) [unfolded a3]] by blast
qed

lemma getAckErrorType_not_ok: "getAckErrorTypeFromErrorId e \<noteq> SERVICE_CALL_RESULT_OK"
  by (auto simp: getAckErrorTypeFromErrorId_def known_ack_errors_def Let_def)

text \<open>An ACK that the parser accepts: a known type, and an error identifier for an error.\<close>

definition acceptable :: "string \<Rightarrow> BYTE list \<Rightarrow> UINT64 option \<Rightarrow> bool" where
  "acceptable ty number err \<longleftrightarrow> ty \<in> {''BUFFERING'', ''RECEIVED'', ''PERSISTED'', ''IDLE''} \<union> (if err = None then {} else {''ERROR''}) \<and>
     34 \<notin> set number \<and> 0 \<notin> set number \<and> length number \<le> 128"

lemma acceptable_type:
  assumes "acceptable ty number err"
  shows "34 \<notin> set (map byte_of ty)" "0 \<notin> set (map byte_of ty)" "length ty \<le> 9" "type_of (map byte_of ty) \<noteq> FRAGMENT_ACK_TYPE_UNDEFINED"
    "type_of (map byte_of ty) = FRAGMENT_ACK_TYPE_ERROR \<longrightarrow> err \<noteq> None"
  using assms by (auto simp: acceptable_def type_of_def byte_of_def split: if_splits)

lemma processParsedAck_valid:
  assumes "fap_fragmentAck p = meant ty timecode number err" "acceptable ty number err"
  shows "processParsedAck ev (upd p s) = ev (upd p s) (fap_uploadHandle p) (meant ty timecode number err) \<bind>
    (\<lambda>(st, s). Some (st, if STATUS_FAILED st then s else upd initial_parser s))"
proof -
  have "validateParsedAck (Some p) = STATUS_SUCCESS"
    using acceptable_type(4,5) [OF assms(2)] getAckErrorType_not_ok
    by (cases err) (auto simp: validateParsedAck_def assms(1) meant_def Let_def)
  then show ?thesis using assms(1)
    by (cases "ev (upd p s) (fap_uploadHandle p) (meant ty timecode number err)")
      (auto simp: processParsedAck_def resetAckParserState_def STATUS_FAILED_def Let_def)
qed

text \<open>A text is read as the ACK it means; the rest of the segment is parsed when the event succeeds.\<close>

lemma parse_ack:
  assumes at: "parser_at FRAGMENT_ACK_PARSER_STATE_START initial_ack (\<lambda>_. False) h p" and ok: "acceptable ty number err"
  obtains p' where "\<And>ev r l (s :: 'a KinesisVideoStream_scheme). parseLoop ev (ack_text ty timecode number err @ r) l (upd p s) =
    ev (upd p' s) h (meant ty timecode number err) \<bind> (\<lambda>(st, s). if STATUS_FAILED st then Some (st, s) else parseLoop ev r l (upd initial_parser s))"
proof -
  note T = acceptable_type [OF ok]
  have number: "34 \<notin> set number" "0 \<notin> set number" "length number \<le> 128" using ok by (simp_all add: acceptable_def)
  obtain q ks where q: "parser_at FRAGMENT_ACK_PARSER_STATE_VALUE_END (meant ty timecode number None) ks h q" "\<not> ks FRAGMENT_ACK_KEY_NAME_ERROR_ID"
    "\<And>ev r l (s :: 'a KinesisVideoStream_scheme). parseLoop ev (123 # text_member ''EventType'' (map byte_of ty) @ 44 # number_member ''FragmentTimecode'' timecode
       @ 44 # text_member ''FragmentNumber'' number @ r) l (upd p s) = parseLoop ev r l (upd q s)"
    by (rule parse_common [OF at T(1,2) le_trans [OF T(3)] number, where 'a = 'a and timecode = timecode]) simp_all
  obtain p' where p': "fap_fragmentAck p' = meant ty timecode number err" "fap_uploadHandle p' = h"
    "\<And>ev r l (s :: 'a KinesisVideoStream_scheme). parseLoop ev ((case err of None \<Rightarrow> [] | Some e \<Rightarrow> 44 # number_member ''ErrorId'' e) @ 125 # r) l (upd q s) =
      processParsedAck ev (upd p' s) \<bind> (\<lambda>(st, s). if STATUS_FAILED st then Some (st, s) else parseLoop ev r l s)"
  proof (cases err)
    case None
    have "parseLoop ev (125 # r) l (upd q s) = processParsedAck ev (upd q s) \<bind> (\<lambda>(st, s). if STATUS_FAILED st then Some (st, s) else parseLoop ev r l s)"
      for ev r l and s :: "'a KinesisVideoStream_scheme"
      using q(1) by (cases "processParsedAck ev (upd q s)") (auto simp: parser_at_def parseChar_def IS_WHITE_SPACE_def byte_of_def)
    moreover have "fap_fragmentAck q = meant ty timecode number err" "fap_uploadHandle q = h" using q(1) None by (simp_all add: parser_at_def)
    ultimately show thesis by (intro that [of q]) (simp_all add: None)
  next
    case (Some e)
    obtain q1 where q1: "parser_at FRAGMENT_ACK_PARSER_STATE_NUMERIC_VALUE (meant ty timecode number None) ks h q1" "fap_curKeyName q1 = FRAGMENT_ACK_KEY_NAME_ERROR_ID"
      "\<And>ev r l (s :: 'a KinesisVideoStream_scheme). parseLoop ev (number_member ''ErrorId'' e @ r) l (upd q s) = parseLoop ev (dec e @ r) l (upd q1 s)"
      by (rule parse_number_key [OF q(1) _ quotes(4) literals_nonzero(4) _ key_names(4), where 'a = 'a and v = e]) simp_all
    obtain q2 where q2: "parser_at FRAGMENT_ACK_PARSER_STATE_NUMERIC_VALUE (value_read FRAGMENT_ACK_KEY_NAME_ERROR_ID (dec e) (meant ty timecode number None))
        (ks(FRAGMENT_ACK_KEY_NAME_ERROR_ID := True)) h q2"
      "\<And>ev r l (s :: 'a KinesisVideoStream_scheme). parseLoop ev (dec e @ 125 # r) l (upd q1 s) =
        processParsedAck ev (upd q2 s) \<bind> (\<lambda>(st, s). if STATUS_FAILED st then Some (st, s) else parseLoop ev r l s)"
      by (rule parse_last_value [OF q1(1,2) q(2) numeric_readable(1) numeric_readable(2) [of e], where 'a = 'a]) simp_all
    have "value_read FRAGMENT_ACK_KEY_NAME_ERROR_ID (dec e) (meant ty timecode number None) = meant ty timecode number err"
      by (simp add: value_read_def meant_def Some dec_facts(3))
    then have "fap_fragmentAck q2 = meant ty timecode number err" "fap_uploadHandle q2 = h" using q2(1) by (simp_all add: parser_at_def)
    then show thesis by (rule that) (simp only: Some option.case append_Cons comma_stays [OF q(1)] q1(3) q2(2))
  qed
  have "parseLoop ev (ack_text ty timecode number err @ r) l (upd p s) =
    ev (upd p' s) h (meant ty timecode number err) \<bind> (\<lambda>(st, s). if STATUS_FAILED st then Some (st, s) else parseLoop ev r l (upd initial_parser s))"
    for ev r l and s :: "'a KinesisVideoStream_scheme"
  proof -
    have "parseLoop ev (ack_text ty timecode number err @ r) l (upd p s) =
      processParsedAck ev (upd p' s) \<bind> (\<lambda>(st, s). if STATUS_FAILED st then Some (st, s) else parseLoop ev r l s)"
      using q(3) [of ev "(case err of None \<Rightarrow> [] | Some e \<Rightarrow> 44 # number_member ''ErrorId'' e) @ 125 # r" l s] p'(3) [of ev r l s]
      by (simp add: ack_text_def)
    then show ?thesis unfolding processParsedAck_valid [OF p'(1) ok] p'(2)
      by (cases "ev (upd p' s) h (meant ty timecode number err)") auto
  qed
  then show thesis using that by blast
qed

subsection \<open>Bounds\<close>

definition ack_inv :: "FragmentAckParser \<Rightarrow> bool" where
  "ack_inv p \<longleftrightarrow> length (fap_accumulator p) = 1025 \<and> length (fa_sequenceNumber (fap_fragmentAck p)) = 129"

lemma ack_inv_initial: "ack_inv initial_parser" "fap_curPos initial_parser = 0"
  by (simp_all add: ack_inv_def initial_parser_def)

lemma strncmp_total: "n \<le> length a \<Longrightarrow> n \<le> length b \<Longrightarrow> strncmp_eq a b n \<noteq> None"
  by (induction a b n rule: strncmp_eq.induct) auto

lemma is_literal_total: "length n < length s \<Longrightarrow> \<exists>b. is_literal n s = Some b"
  using strncmp_total [of "length n + 1" "map byte_of n @ [0]" s] by (auto simp: is_literal_def)

lemma names_total:
  assumes "length s = 1025"
  shows "\<exists>k. getFragmentAckKeyName s = Some k" "\<exists>t. getFragmentAckType s = Some t"
proof -
  have lit: "length n \<le> 20 \<Longrightarrow> \<exists>b. is_literal n s = Some b" for n using is_literal_total [of n s] assms by simp
  obtain b1 where 1: "is_literal ''EventType'' s = Some b1" using lit [of "''EventType''"] by auto
  obtain b2 where 2: "is_literal ''FragmentNumber'' s = Some b2" using lit [of "''FragmentNumber''"] by auto
  obtain b3 where 3: "is_literal ''FragmentTimecode'' s = Some b3" using lit [of "''FragmentTimecode''"] by auto
  obtain b4 where 4: "is_literal ''ErrorId'' s = Some b4" using lit [of "''ErrorId''"] by auto
  show "\<exists>k. getFragmentAckKeyName s = Some k" by (simp add: getFragmentAckKeyName_def 1 2 3 4)
  obtain c1 where 5: "is_literal ''BUFFERING'' s = Some c1" using lit [of "''BUFFERING''"] by auto
  obtain c2 where 6: "is_literal ''RECEIVED'' s = Some c2" using lit [of "''RECEIVED''"] by auto
  obtain c3 where 7: "is_literal ''PERSISTED'' s = Some c3" using lit [of "''PERSISTED''"] by auto
  obtain c4 where 8: "is_literal ''ERROR'' s = Some c4" using lit [of "''ERROR''"] by auto
  obtain c5 where 9: "is_literal ''IDLE'' s = Some c5" using lit [of "''IDLE''"] by auto
  show "\<exists>t. getFragmentAckType s = Some t" by (simp add: getFragmentAckType_def 5 6 7 8 9)
qed

lemma strtointLoop_total:
  assumes "p \<le> j" "j < length s" "s ! j = 0"
  shows "\<exists>r. strtointLoop s None b p c v = Some r"
  using assms
proof (induction "j - p" arbitrary: p c v)
  case 0
  then have "p = j" by simp
  then show ?case using 0 by (subst strtointLoop.simps) simp
next
  case (Suc k)
  show ?case
  proof (cases "s ! p = 0")
    case True
    then show ?thesis using Suc.prems by (subst strtointLoop.simps) simp
  next
    case False
    have ih: "\<exists>r. strtointLoop s None b (Suc p) c' v' = Some r" for c' v'
      by (rule Suc.hyps(1)) (use Suc.hyps(2) Suc.prems in auto)
    show ?thesis using False Suc.prems ih by (subst strtointLoop.simps) (auto simp: Let_def split: option.splits prod.splits)
  qed
qed

lemma strtoui64_total:
  assumes "j < length s" "s ! j = 0"
  shows "\<exists>st v. strtoui64 (Some s) None 10 True = Some (st, v) \<and> (v = None \<longrightarrow> STATUS_FAILED st)"
proof -
  let ?p = "if s ! 0 = byte_of CHR ''-'' \<or> s ! 0 = byte_of CHR ''+'' then 1 else 0 :: nat"
  have "?p \<le> j" using assms by (cases j) (auto simp: byte_of_def)
  then obtain r where r: "strtointLoop s None 10 ?p False 0 = Some r" using strtointLoop_total assms by blast
  obtain st seen v where r3: "r = (st, seen, v)" by (cases r)
  have "peek s 0 = Some (s ! 0)" using assms(1) by (auto simp: peek_def)
  then show ?thesis using r unfolding strtoui64_def strtoint_def r3 by (auto simp: Let_def STATUS_FAILED_def)
qed

lemma processAckValue_total:
  assumes inv: "ack_inv p" and z: "j < 1025" "fap_accumulator p ! j = 0"
  obtains st p' where "processAckValue (Some p) = Some (st, Some p')" "ack_inv p'" "STATUS_FAILED st \<or> fap_curPos p' = 0"
proof -
  have len: "length (fap_accumulator p) = 1025" "length (fa_sequenceNumber (fap_fragmentAck p)) = 129" using inv by (simp_all add: ack_inv_def)
  obtain st v where sv: "strtoui64 (Some (fap_accumulator p)) None 10 True = Some (st, v)" "v = None \<longrightarrow> STATUS_FAILED st"
    using strtoui64_total [of j "fap_accumulator p"] z len(1) by auto
  obtain t where t: "getFragmentAckType (fap_accumulator p) = Some t" using names_total(2) [OF len(1)] by blast
  have "c_strnlen (fap_accumulator p) 128 = Some (min (STRLEN (fap_accumulator p)) 128)" using len(1) by (simp add: c_strnlen_def)
  then obtain n where n: "c_strncpy (fa_sequenceNumber (fap_fragmentAck p)) (fap_accumulator p) 128 = Some n" "length n = 129"
    using len by (auto simp: c_strncpy_def)
  have pk: "poke n 128 0 = Some (n[128 := 0])" using n(2) by (simp add: poke_def)
  show thesis
  proof (cases "fap_curKeyName p \<noteq> FRAGMENT_ACK_KEY_NAME_UNKNOWN \<and> fap_keys p (fap_curKeyName p)")
    case True
    then show thesis using that [of STATUS_INVALID_ACK_DUPLICATE_KEY_NAME p] inv by (simp add: processAckValue_def STATUS_FAILED_def Let_def)
  next
    case False
    then show thesis
      using that len n(2) sv t n(1) pk
      by (cases "fap_curKeyName p"; cases v) (auto simp: processAckValue_def ack_inv_def STATUS_FAILED_def Let_def split: if_splits)
  qed
qed

definition step_ok :: "FragmentAckParser \<Rightarrow> STATUS \<times> 'x KinesisVideoStream_scheme \<Rightarrow> bool" where
  "step_ok p r \<longleftrightarrow> (case r of (st, s') \<Rightarrow> STATUS_FAILED st \<or>
     ack_inv (kvs_fragmentAckParser s') \<and> unat (fap_curPos (kvs_fragmentAckParser s')) \<le> Suc (unat (fap_curPos p)))"

lemma step_okI: "ack_inv (kvs_fragmentAckParser s') \<Longrightarrow> unat (fap_curPos (kvs_fragmentAckParser s')) \<le> Suc (unat (fap_curPos p)) \<Longrightarrow> step_ok p (st, s')"
  by (simp add: step_ok_def)

lemma accumulate_total:
  assumes "ack_inv (kvs_fragmentAckParser s)" "unat (fap_curPos (kvs_fragmentAckParser s)) \<le> 1024"
  obtains s' where "accumulate c s = Some s'" "ack_inv (kvs_fragmentAckParser s')"
    "unat (fap_curPos (kvs_fragmentAckParser s')) = Suc (unat (fap_curPos (kvs_fragmentAckParser s)))"
proof -
  have "fap_curPos (kvs_fragmentAckParser s) < 2000" using assms(2) by (simp add: word_less_nat_alt)
  then have "unat (fap_curPos (kvs_fragmentAckParser s) + 1) = Suc (unat (fap_curPos (kvs_fragmentAckParser s)))" by (rule unat_Suc_less)
  then show thesis using that assms by (simp add: accumulate_def poke_def ack_inv_def Let_def)
qed

lemma terminate_total:
  assumes "ack_inv (kvs_fragmentAckParser s)" "unat (fap_curPos (kvs_fragmentAckParser s)) \<le> 1024"
  obtains s' where "terminate s = Some s'" "ack_inv (kvs_fragmentAckParser s')" "fap_accumulator (kvs_fragmentAckParser s') ! unat (fap_curPos (kvs_fragmentAckParser s)) = 0"
  using that assms by (simp add: terminate_def poke_def ack_inv_def Let_def)

lemma finishKey_total:
  assumes "ack_inv (kvs_fragmentAckParser s)" "unat (fap_curPos (kvs_fragmentAckParser s)) \<le> 1024"
  shows "\<exists>s'. finishKey s = Some s' \<and> ack_inv (kvs_fragmentAckParser s') \<and> fap_curPos (kvs_fragmentAckParser s') = 0"
proof -
  obtain s1 where s1: "terminate s = Some s1" "ack_inv (kvs_fragmentAckParser s1)" by (rule terminate_total [OF assms])
  obtain k where "getFragmentAckKeyName (fap_accumulator (kvs_fragmentAckParser s1)) = Some k" using names_total(1) s1(2) by (auto simp: ack_inv_def)
  then show ?thesis using s1 by (simp add: finishKey_def ack_inv_def Let_def)
qed

lemma finishValue_total:
  assumes inv: "ack_inv (kvs_fragmentAckParser s)" "unat (fap_curPos (kvs_fragmentAckParser s)) \<le> 1024"
    and f: "\<And>s. ack_inv (kvs_fragmentAckParser s) \<Longrightarrow> fap_curPos (kvs_fragmentAckParser s) = 0 \<Longrightarrow> \<exists>r. f s = Some r \<and> step_ok p r"
  shows "\<exists>r. finishValue f s = Some r \<and> step_ok p r"
proof -
  obtain s1 where s1: "terminate s = Some s1" "ack_inv (kvs_fragmentAckParser s1)"
    "fap_accumulator (kvs_fragmentAckParser s1) ! unat (fap_curPos (kvs_fragmentAckParser s)) = 0" by (rule terminate_total [OF inv])
  have j: "unat (fap_curPos (kvs_fragmentAckParser s)) < 1025" using inv(2) by simp
  obtain st p' where p': "processAckValue (Some (kvs_fragmentAckParser s1)) = Some (st, Some p')" "ack_inv p'" "STATUS_FAILED st \<or> fap_curPos p' = 0"
    by (rule processAckValue_total [OF s1(2) j s1(3)])
  then show ?thesis using s1(1) f [of "upd p' s1"] by (auto simp: finishValue_def step_ok_def Let_def)
qed

lemma processParsedAck_total:
  assumes "\<And>s h a. ev s h a \<noteq> None"
  shows "\<exists>r. processParsedAck ev s = Some r \<and> step_ok p r"
proof -
  obtain st s' where "ev s (fap_uploadHandle (kvs_fragmentAckParser s)) (fap_fragmentAck (kvs_fragmentAckParser s)) = Some (st, s')" using assms by (metis not_None_eq prod.exhaust)
  then show ?thesis by (auto simp: processParsedAck_def resetAckParserState_def step_ok_def ack_inv_initial Let_def)
qed

lemma toState_total:
  "ack_inv (kvs_fragmentAckParser s) \<Longrightarrow> unat (fap_curPos (kvs_fragmentAckParser s)) \<le> Suc (unat (fap_curPos p)) \<Longrightarrow> \<exists>r. toState st s = Some r \<and> step_ok p r"
  by (simp add: toState_def step_ok_def ack_inv_def)

lemma parseChar_total:
  assumes inv: "ack_inv (kvs_fragmentAckParser s)" "unat (fap_curPos (kvs_fragmentAckParser s)) < 1024" and ev: "\<And>s h a. ev s h a \<noteq> None"
  shows "\<exists>st l' s'. parseChar ev c l s = Some (st, l', s') \<and> step_ok (kvs_fragmentAckParser s) (st, s')"
proof -
  let ?p = "kvs_fragmentAckParser s"
  have le: "unat (fap_curPos ?p) \<le> 1024" using inv(2) by simp
  obtain sa where sa: "accumulate c s = Some sa" "ack_inv (kvs_fragmentAckParser sa)" "unat (fap_curPos (kvs_fragmentAckParser sa)) = Suc (unat (fap_curPos ?p))"
    by (rule accumulate_total [OF inv(1) le])
  obtain sk where sk: "finishKey s = Some sk" "ack_inv (kvs_fragmentAckParser sk)" "fap_curPos (kvs_fragmentAckParser sk) = 0"
    using finishKey_total [OF inv(1) le] by blast
  obtain r1 where r1: "finishValue (toState FRAGMENT_ACK_PARSER_STATE_VALUE_END) s = Some r1" "step_ok ?p r1"
    using finishValue_total [OF inv(1) le, of "toState FRAGMENT_ACK_PARSER_STATE_VALUE_END" ?p] toState_total [of _ ?p] by fastforce
  obtain r2 where r2: "finishValue (processParsedAck ev) s = Some r2" "step_ok ?p r2"
    using finishValue_total [OF inv(1) le, of "processParsedAck ev" ?p] processParsedAck_total [of ev, OF ev] by blast
  obtain r3 where r3: "processParsedAck ev s = Some r3" "step_ok ?p r3" using processParsedAck_total [of ev, OF ev] by blast
  have keep: "step_ok ?p (st, s)" "step_ok ?p (st, setState x s)" "step_ok ?p (st, sa)" "step_ok ?p (st, setState x sa)" "step_ok ?p (st, sk)" for st x
    using inv(1) sa(2,3) sk(2,3) by (simp_all add: step_ok_def ack_inv_def)
  obtain a1 b1 a2 b2 a3 b3 where r: "r1 = (a1, b1)" "r2 = (a2, b2)" "r3 = (a3, b3)" by (metis prod.exhaust)
  show ?thesis using r1(2) r2(2) r3(2) keep unfolding r
    by (cases "fap_state ?p") (auto simp: parseChar_def sa(1) sk(1) r1(1) r2(1) r3(1) r toState_def Let_def)
qed

lemma parseLoop_total:
  assumes ev: "\<And>s h a. ev s h a \<noteq> None" and "ack_inv (kvs_fragmentAckParser s)" "unat (fap_curPos (kvs_fragmentAckParser s)) + length cs \<le> 1024"
  shows "\<exists>st s'. parseLoop ev cs l s = Some (st, s') \<and> (STATUS_FAILED st \<or>
    ack_inv (kvs_fragmentAckParser s') \<and> unat (fap_curPos (kvs_fragmentAckParser s')) \<le> unat (fap_curPos (kvs_fragmentAckParser s)) + length cs)"
  using assms(2,3)
proof (induction cs arbitrary: l s)
  case (Cons c cs)
  obtain st l' s' where s': "parseChar ev c l s = Some (st, l', s')" "step_ok (kvs_fragmentAckParser s) (st, s')"
    using parseChar_total [where ev = ev and s = s and c = c and l = l, OF Cons.prems(1) _ ev] Cons.prems(2) by auto
  show ?case
  proof (cases "STATUS_FAILED st")
    case True
    then show ?thesis using s'(1) by simp
  next
    case False
    then have inv': "ack_inv (kvs_fragmentAckParser s')" "unat (fap_curPos (kvs_fragmentAckParser s')) \<le> Suc (unat (fap_curPos (kvs_fragmentAckParser s)))"
      using s'(2) by (simp_all add: step_ok_def)
    then show ?thesis using Cons.IH [OF inv'(1), of l'] Cons.prems(2) s'(1) False by fastforce
  qed
qed auto

lemma parseLoop_overflow:
  assumes "length (fap_accumulator p) = 1025" "\<forall>c\<in>set cs. accumulates (fap_state p) c" "unat (fap_curPos p) \<le> 1025" "1025 < unat (fap_curPos p) + length cs"
  shows "parseLoop ev cs l (upd p s) = None"
proof -
  let ?n = "1025 - unat (fap_curPos p)"
  have n: "?n < length cs" using assms(3,4) by simp
  define c where "c = cs ! ?n"
  have c: "drop ?n cs = c # drop (Suc ?n) cs" "c \<in> set cs" using n by (simp_all add: c_def Cons_nth_drop_Suc)
  let ?q = "filled (take ?n cs) p"
  have "parseLoop ev (take ?n cs @ drop ?n cs) l (upd p s) = parseLoop ev (drop ?n cs) l (upd ?q s)"
    by (rule parseLoop_accumulates) (use assms in \<open>auto dest: in_set_takeD\<close>)
  moreover have "length (fap_accumulator ?q) = 1025" using assms by (simp add: filled_def)
  moreover have "unat (fap_curPos ?q) = 1025"
  proof -
    have "fap_curPos ?q = of_nat (unat (fap_curPos p) + ?n)" using assms(3,4) by (simp add: filled_def)
    then have "fap_curPos ?q = of_nat 1025" using assms(3) by (simp del: of_nat_add)
    then show ?thesis by simp
  qed
  ultimately have "parseLoop ev cs l (upd p s) = parseLoop ev (drop ?n cs) l (upd ?q s)" "accumulate c (upd ?q s) = None"
    by (simp_all only: append_take_drop_id) (simp add: accumulate_def poke_def Let_def)
  moreover have "accumulates (fap_state ?q) c" using assms(2) c(2) by (simp add: filled_def)
  ultimately show ?thesis unfolding c(1) by (simp add: parseChar_accumulates)
qed

subsection \<open>Segments\<close>

lemma parse_segment:
  assumes "cs \<noteq> []" "length cs \<le> 1024"
  shows "parseFragmentAck ev (Some s) h (Some cs) (of_nat (length cs)) =
    parseLoop ev cs 0 (setUploadHandle h (lockStream s)) \<bind> (\<lambda>(st, s). Some (st, Some (unlockStream (if STATUS_FAILED st then upd initial_parser s else s))))"
proof -
  have u: "unat (of_nat (length cs) :: UINT32) = length cs" using assms(2) by (simp add: unat_of_nat take_bit_nat_eq_self)
  then have nz: "(of_nat (length cs) :: UINT32) \<noteq> 0" using assms(1) by (metis length_0_conv unat_0)
  show ?thesis unfolding parseFragmentAck_def prod.case option.case using nz u assms(2)
    by (cases "parseLoop ev cs 0 (setUploadHandle h (lockStream s))") (auto simp: resetAckParserState_def Let_def)
qed

lemma setUploadHandle_initial:
  assumes "kvs_fragmentAckParser s = initial_parser"
  shows "setUploadHandle h s = upd (initial_parser\<lparr>fap_uploadHandle := h\<rparr>) s" "parser_at FRAGMENT_ACK_PARSER_STATE_START initial_ack (\<lambda>_. False) h (initial_parser\<lparr>fap_uploadHandle := h\<rparr>)"
  using assms by (simp_all add: setUploadHandle_def initial_parser_def IS_VALID_UPLOAD_HANDLE_def parser_at_def initial_ack_def)

lemma ack_text_length:
  assumes "acceptable ty number err"
  shows "length (ack_text ty timecode number err) \<le> 512" "ack_text ty timecode number err \<noteq> []"
proof -
  have "length ty \<le> 9" "length number \<le> 128" "length (dec timecode) \<le> 64" using acceptable_type(3) [OF assms] assms dec_facts(4) by (simp_all add: acceptable_def)
  moreover have "length (case err of None \<Rightarrow> [] | Some e \<Rightarrow> 44 # number_member ''ErrorId'' e) \<le> 80"
    using dec_facts(4) [of "the err"] by (cases err) (simp_all add: number_member_def)
  ultimately show "length (ack_text ty timecode number err) \<le> 512" by (simp add: ack_text_def text_member_def number_member_def)
  show "ack_text ty timecode number err \<noteq> []" by (simp add: ack_text_def)
qed

end
