(* ===== verification/AckSegments.thy ===== *)
theory AckSegments
  imports AckParserProps
begin

text \<open>
  The properties of \<open>parseFragmentAck\<close>: delivery of an ACK in one segment and in several, the bound under which no character is written outside of
  the accumulator, and the segments for which the code departs from what it means to do.
\<close>

lemma upd_commutes [simp]:
  "upd p (lockStream s) = lockStream (upd p s)" "upd p (unlockStream s) = unlockStream (upd p s)" "upd p (upd q s) = upd p s"
  "kvs_fragmentAckParser (lockStream s) = kvs_fragmentAckParser s" "kvs_fragmentAckParser (unlockStream s) = kvs_fragmentAckParser s"
  "kvs_lock (lockStream s) = Suc (kvs_lock s)"
  by (simp_all add: lockStream_def unlockStream_def)

lemma setUploadHandle_valid: "IS_VALID_UPLOAD_HANDLE (fap_uploadHandle (kvs_fragmentAckParser s)) \<Longrightarrow> setUploadHandle h s = s"
  by (simp add: setUploadHandle_def)

lemma initial_at: "parser_at FRAGMENT_ACK_PARSER_STATE_START initial_ack (\<lambda>_. False) INVALID_UPLOAD_HANDLE_VALUE initial_parser"
  by (simp add: parser_at_def initial_ack_def initial_parser_def)

text \<open>The end of \<open>parseFragmentAck\<close>.\<close>

definition leave :: "STATUS \<Rightarrow> 'x KinesisVideoStream_scheme \<Rightarrow> (STATUS \<times> 'x KinesisVideoStream_scheme option) option" where
  "leave st s = Some (st, Some (unlockStream (if STATUS_FAILED st then upd initial_parser s else s)))"

lemma parse_segment_leave:
  assumes "cs \<noteq> []" "length cs \<le> 1024"
  shows "parseFragmentAck ev (Some s) h (Some cs) (of_nat (length cs)) = parseLoop ev cs 0 (setUploadHandle h (lockStream s)) \<bind> (\<lambda>(st, s). leave st s)"
  unfolding parse_segment [OF assms] leave_def ..

text \<open>Nothing but the event changes the number of acquisitions of the lock.\<close>

lemma setUploadHandle_lock: "kvs_lock (setUploadHandle h s) = kvs_lock s"
  by (simp add: setUploadHandle_def)

lemma lock_kept:
  "accumulate c s = Some s' \<Longrightarrow> kvs_lock s' = kvs_lock s" "terminate s = Some s' \<Longrightarrow> kvs_lock s' = kvs_lock s"
  "finishKey s = Some s' \<Longrightarrow> kvs_lock s' = kvs_lock s" "kvs_lock (setState x s) = kvs_lock s"
  by (auto simp: accumulate_def terminate_def finishKey_def setState_def Let_def split: Option.bind_splits)

lemma finishValue_lock:
  assumes "finishValue f s = Some (st, s')" "\<And>s st s'. f s = Some (st, s') \<Longrightarrow> kvs_lock s' = kvs_lock s"
  shows "kvs_lock s' = kvs_lock s"
  using assms lock_kept(2) by (fastforce simp: finishValue_def Let_def split: Option.bind_splits if_splits)

lemma parseChar_lock:
  assumes ev: "\<And>s h ack st s'. ev s h ack = Some (st, s') \<Longrightarrow> kvs_lock s' = kvs_lock s" and c: "parseChar ev c l s = Some (st, l', s')"
  shows "kvs_lock s' = kvs_lock s"
proof -
  have p: "processParsedAck ev s = Some (st, s') \<Longrightarrow> kvs_lock s' = kvs_lock s" for s st s'
    by (auto simp: processParsedAck_def resetAckParserState_def Let_def ev split: Option.bind_splits if_splits)
  have t: "toState x s = Some (st, s') \<Longrightarrow> kvs_lock s' = kvs_lock s" for x s st s' by (auto simp: toState_def lock_kept)
  note f = finishValue_lock [OF _ p] finishValue_lock [OF _ t]
  show ?thesis using c
    by (cases "fap_state (kvs_fragmentAckParser s)") (auto simp: parseChar_def lock_kept Let_def dest: p t f lock_kept(1,3) split: if_splits Option.bind_splits)
qed

lemma parseLoop_lock:
  assumes ev: "\<And>s h ack st s'. ev s h ack = Some (st, s') \<Longrightarrow> kvs_lock s' = kvs_lock s" and "parseLoop ev cs l s = Some (st, s')"
  shows "kvs_lock s' = kvs_lock s"
  using assms(2)
proof (induction cs arbitrary: l s)
  case (Cons c cs)
  obtain st1 l1 s1 where 1: "parseChar ev c l s = Some (st1, l1, s1)" using Cons.prems by (auto split: Option.bind_splits)
  then have "kvs_lock s1 = kvs_lock s" by (rule parseChar_lock [OF ev, rotated])
  then show ?case using Cons.prems Cons.IH 1 by (auto split: if_splits)
qed simp

lemma parse_text_delivers:
  assumes "kvs_fragmentAckParser s = initial_parser" "acceptable ty number err"
  shows "\<exists>p. parseFragmentAck ev (Some s) h (Some (ack_text ty timecode number err)) (of_nat (length (ack_text ty timecode number err))) =
    ev (upd p (lockStream s)) h (meant ty timecode number err) \<bind> (\<lambda>(st, s'). Some (st, Some (unlockStream (upd initial_parser s'))))"
proof -
  let ?t = "ack_text ty timecode number err"
  have i: "kvs_fragmentAckParser (lockStream s) = initial_parser" using assms(1) by simp
  obtain p where p: "\<And>ev r l (s :: 'a KinesisVideoStream_scheme). parseLoop ev (?t @ r) l (upd (initial_parser\<lparr>fap_uploadHandle := h\<rparr>) s) =
    ev (upd p s) h (meant ty timecode number err) \<bind> (\<lambda>(st, s). if STATUS_FAILED st then Some (st, s) else parseLoop ev r l (upd initial_parser s))"
    by (rule parse_ack [OF setUploadHandle_initial(2) [OF i] assms(2), where 'a = 'a]) blast
  have "parseLoop ev ?t 0 (upd (initial_parser\<lparr>fap_uploadHandle := h\<rparr>) (lockStream s)) =
    ev (upd p (lockStream s)) h (meant ty timecode number err) \<bind> (\<lambda>(st, s). if STATUS_FAILED st then Some (st, s) else Some (STATUS_SUCCESS, upd initial_parser s))"
    using p [of ev "[]" 0 "lockStream s"] by (simp cong: if_cong)
  moreover have "length ?t \<le> 1024" using ack_text_length(1) [OF assms(2), of timecode] by simp
  ultimately have "parseFragmentAck ev (Some s) h (Some ?t) (of_nat (length ?t)) =
    ev (upd p (lockStream s)) h (meant ty timecode number err) \<bind> (\<lambda>(st, s'). Some (st, Some (unlockStream (upd initial_parser s'))))"
    using ack_text_length(2) [OF assms(2), of timecode] unfolding parse_segment [OF ack_text_length(2) [OF assms(2)] \<open>length ?t \<le> 1024\<close>] setUploadHandle_initial(1) [OF i]
    by (cases "ev (upd p (lockStream s)) h (meant ty timecode number err)") (auto simp: STATUS_FAILED_def)
  then show ?thesis by blast
qed

text \<open>C4. An ACK that the service prints - its type, timecode and fragment number and, for an error, the identifier of the error - is given to the event
  handler as it was meant, together with the upload handle of the segment; on success of the handler and on its failure the parser is reset, and the stream is unlocked.\<close>

theorem parseFragmentAck_delivers:
  assumes "kvs_fragmentAckParser s = initial_parser" "acceptable ty number err"
  shows "\<exists>p. parseFragmentAck ev (Some s) h (Some (ack_text ty timecode number err)) (of_nat (length (ack_text ty timecode number err))) =
    ev (upd p (lockStream s)) h (meant ty timecode number err) \<bind> (\<lambda>(st, s'). Some (st, Some (unlockStream (upd initial_parser s'))))"
  by (rule parse_text_delivers [OF assms])

theorem parseFragmentAck_delivers_witness:
  "parseFragmentAck (\<lambda>s h ack. Some (STATUS_SUCCESS, s)) (Some \<lparr>kvs_fragmentAckParser = initial_parser, kvs_lock = 0\<rparr>) 5
     (Some (ack_text ''PERSISTED'' 1000 (map byte_of ''123'') None)) (of_nat (length (ack_text ''PERSISTED'' 1000 (map byte_of ''123'') None))) =
   Some (STATUS_SUCCESS, Some \<lparr>kvs_fragmentAckParser = initial_parser, kvs_lock = 0\<rparr>)"
proof -
  have "acceptable ''PERSISTED'' (map byte_of ''123'') None" by (simp add: acceptable_def byte_of_def)
  then show ?thesis
    using parseFragmentAck_delivers [of "\<lparr>kvs_fragmentAckParser = initial_parser, kvs_lock = 0\<rparr>" "''PERSISTED''" "map byte_of ''123''" None
      "\<lambda>s h ack. Some (STATUS_SUCCESS, s)" 5 1000] by (auto simp: unlockStream_def lockStream_def)
qed

text \<open>C29. A segment may be cut anywhere outside of a nested value and inside of an ACK: the two pieces, given one after the other, are treated as the
  segment itself, whatever handles they are given with.\<close>

theorem parseFragmentAck_chunks:
  assumes pieces: "a \<noteq> []" "b \<noteq> []" "length a + length b \<le> 1024"
    and first: "parseFragmentAck ev (Some s) h (Some a) (of_nat (length a)) = Some (STATUS_SUCCESS, Some s1)"
    and inside: "\<not> skipping s1" "IS_VALID_UPLOAD_HANDLE (fap_uploadHandle (kvs_fragmentAckParser s1))"
    and lock: "\<And>s h ack st s'. ev s h ack = Some (st, s') \<Longrightarrow> kvs_lock s' = kvs_lock s"
  shows "parseFragmentAck ev (Some s) h (Some (a @ b)) (of_nat (length (a @ b))) = parseFragmentAck ev (Some s1) h2 (Some b) (of_nat (length b))"
proof -
  let ?s0 = "setUploadHandle h (lockStream s)"
  obtain s2 where s2: "parseLoop ev a 0 ?s0 = Some (STATUS_SUCCESS, s2)" "s1 = unlockStream s2"
    using first pieces unfolding parse_segment_leave [OF pieces(1) order_trans [OF le_add1 pieces(3)]]
    by (auto simp: leave_def bind_eq_Some_conv split: if_splits)
  have "0 < kvs_lock s2"
    using parseLoop_lock [OF lock s2(1)] by (simp add: setUploadHandle_lock)
  then have "lockStream s1 = s2" by (simp add: s2(2) lockStream_def unlockStream_def)
  moreover have "\<not> skipping s2" using inside(1) by (simp add: s2(2) skipping_def)
  moreover have "setUploadHandle h2 s2 = s2" using inside(2) by (simp add: s2(2) setUploadHandle_valid)
  ultimately show ?thesis
    using pieces parseLoop_append [OF s2(1), of b] parse_segment_leave [of "a @ b" ev s h] parse_segment_leave [of b ev s1 h2] by simp
qed

abbreviation (input) fresh :: KinesisVideoStream where
  "fresh \<equiv> \<lparr>kvs_fragmentAckParser = initial_parser, kvs_lock = 0\<rparr>"

text \<open>The first piece is the opening brace, the second one is the rest of the ACK.\<close>

theorem parseFragmentAck_chunks_witness:
  "\<exists>s1. parseFragmentAck (\<lambda>s h ack. Some (STATUS_SUCCESS, s)) (Some fresh) 5 (Some [123]) 1 = Some (STATUS_SUCCESS, Some s1) \<and>
     parseFragmentAck (\<lambda>s h ack. Some (STATUS_SUCCESS, s)) (Some fresh) 5 (Some [123, 34]) 2 =
     parseFragmentAck (\<lambda>s h ack. Some (STATUS_SUCCESS, s)) (Some s1) 6 (Some [34]) 1"
proof -
  let ?ev = "\<lambda>(s :: KinesisVideoStream) (h :: UPLOAD_HANDLE) (ack :: FragmentAck). Some (STATUS_SUCCESS, s)"
  define p where "p = initial_parser\<lparr>fap_uploadHandle := 5, fap_state := FRAGMENT_ACK_PARSER_STATE_ACK_START\<rparr>"
  define s1 where "s1 = unlockStream (upd p (lockStream fresh))"
  have "parseFragmentAck ?ev (Some fresh) 5 (Some [123]) (of_nat (length [123 :: BYTE])) = Some (STATUS_SUCCESS, Some s1)"
    by (subst parse_segment_leave) (simp_all add: leave_def s1_def p_def parseChar_def toState_def setState_def setUploadHandle_def initial_parser_def
        IS_VALID_UPLOAD_HANDLE_def INVALID_UPLOAD_HANDLE_VALUE_def lockStream_def unlockStream_def)
  moreover have "\<not> skipping s1" "IS_VALID_UPLOAD_HANDLE (fap_uploadHandle (kvs_fragmentAckParser s1))"
    by (simp_all add: s1_def p_def skipping_def IS_VALID_UPLOAD_HANDLE_def INVALID_UPLOAD_HANDLE_VALUE_def lockStream_def unlockStream_def)
  ultimately have "parseFragmentAck ?ev (Some fresh) 5 (Some ([123] @ [34])) (of_nat (length ([123 :: BYTE] @ [34]))) =
     parseFragmentAck ?ev (Some s1) 6 (Some [34]) (of_nat (length [34 :: BYTE]))"
    by (intro parseFragmentAck_chunks) auto
  then show ?thesis using \<open>parseFragmentAck ?ev (Some fresh) 5 (Some [123]) (of_nat (length [123 :: BYTE])) = Some (STATUS_SUCCESS, Some s1)\<close> by auto
qed

text \<open>C30. As long as the characters since the last reset fit into the accumulator - those of the text that is being read and those of the segment together
  are at most its 1024 characters - the parser accesses no character outside of it, whatever the segment holds, and keeps its arrays.\<close>

theorem parseFragmentAck_safe:
  assumes "ack_inv (kvs_fragmentAckParser s)" "seg \<noteq> []" "unat (fap_curPos (kvs_fragmentAckParser s)) + length seg \<le> 1024" "\<And>s h ack. ev s h ack \<noteq> None"
  shows "\<exists>st s'. parseFragmentAck ev (Some s) h (Some seg) (of_nat (length seg)) = Some (st, Some s') \<and> ack_inv (kvs_fragmentAckParser s') \<and>
    unat (fap_curPos (kvs_fragmentAckParser s')) \<le> unat (fap_curPos (kvs_fragmentAckParser s)) + length seg"
proof -
  let ?s0 = "setUploadHandle h (lockStream s)"
  have i: "ack_inv (kvs_fragmentAckParser ?s0)" "fap_curPos (kvs_fragmentAckParser ?s0) = fap_curPos (kvs_fragmentAckParser s)"
    using assms(1) by (simp_all add: setUploadHandle_def ack_inv_def)
  have len: "length seg \<le> 1024" using assms(3) by simp
  obtain st s' where "parseLoop ev seg 0 ?s0 = Some (st, s')" "STATUS_FAILED st \<or> ack_inv (kvs_fragmentAckParser s') \<and>
      unat (fap_curPos (kvs_fragmentAckParser s')) \<le> unat (fap_curPos (kvs_fragmentAckParser s)) + length seg"
    using parseLoop_total [where ev = ev and s = ?s0 and cs = seg and l = 0, OF assms(4) i(1)] assms(3) i(2) by auto
  then show ?thesis unfolding parse_segment_leave [OF assms(2) len] by (auto simp: leave_def ack_inv_initial)
qed

theorem parseFragmentAck_safe_witness:
  "\<exists>st s'. parseFragmentAck (\<lambda>s h ack. Some (STATUS_SUCCESS, s)) (Some fresh) 5 (Some (replicate 1024 34)) 1024 = Some (st, Some s') \<and>
     ack_inv (kvs_fragmentAckParser s')"
  using parseFragmentAck_safe [of fresh "replicate 1024 34" "\<lambda>s h ack. Some (STATUS_SUCCESS, s)" 5] by (auto simp: ack_inv_initial)

text \<open>C31. The accumulator is not checked for its end: when the key or the value that is being read does not end, and its part of the earlier segments and
  the segment together exceed the accumulator, then the parser writes behind it, although every segment is of an admitted length.\<close>

theorem parseFragmentAck_overflow:
  assumes "ack_inv (kvs_fragmentAckParser s)" "unat (fap_curPos (kvs_fragmentAckParser s)) \<le> 1025"
    and "\<forall>c\<in>set seg. accumulates (fap_state (kvs_fragmentAckParser s)) c" "length seg \<le> 1024"
    and "1025 < unat (fap_curPos (kvs_fragmentAckParser s)) + length seg"
  shows "parseFragmentAck ev (Some s) h (Some seg) (of_nat (length seg)) = None"
proof -
  let ?p = "kvs_fragmentAckParser (setUploadHandle h (lockStream s))"
  have "seg \<noteq> []" using assms(2,5) by auto
  moreover have "parseLoop ev seg 0 (upd ?p (setUploadHandle h (lockStream s))) = None"
    by (rule parseLoop_overflow) (use assms in \<open>simp_all add: ack_inv_def setUploadHandle_def\<close>)
  ultimately show ?thesis using parse_segment_leave [OF _ assms(4), of ev s h] by simp
qed

text \<open>A key that fills the first segment, and more of it in the second one.\<close>

theorem parseFragmentAck_overflow_witness:
  "\<exists>s1. parseFragmentAck (\<lambda>s h ack. Some (STATUS_SUCCESS, s)) (Some fresh) 5 (Some (123 # 34 # replicate 1022 97)) 1024 = Some (STATUS_SUCCESS, Some s1) \<and>
     parseFragmentAck (\<lambda>s h ack. Some (STATUS_SUCCESS, s)) (Some s1) 5 (Some (replicate 1024 97)) 1024 = None"
proof -
  let ?ev = "\<lambda>(s :: KinesisVideoStream) (h :: UPLOAD_HANDLE) (ack :: FragmentAck). Some (STATUS_SUCCESS, s)"
  define cs :: "BYTE list" where "cs = replicate 1022 97"
  define p where "p = initial_parser\<lparr>fap_uploadHandle := 5, fap_state := FRAGMENT_ACK_PARSER_STATE_KEY_START\<rparr>"
  define s1 where "s1 = upd (filled cs p) fresh"
  have cs: "length cs = 1022" "\<forall>c\<in>set cs. accumulates FRAGMENT_ACK_PARSER_STATE_KEY_START c" by (simp_all add: cs_def accumulates_def)
  have p: "fap_state p = FRAGMENT_ACK_PARSER_STATE_KEY_START" "fap_curPos p = 0" "length (fap_accumulator p) = 1025" "ack_inv p"
    by (simp_all add: p_def initial_parser_def ack_inv_def)
  have "parseLoop ?ev (cs @ []) 0 (upd p (lockStream fresh)) = parseLoop ?ev [] 0 (upd (filled cs p) (lockStream fresh))"
    by (rule parseLoop_accumulates) (use cs p in simp_all)
  then have "parseLoop ?ev (123 # 34 # cs) 0 (setUploadHandle 5 (lockStream fresh)) = Some (STATUS_SUCCESS, lockStream s1)"
    by (simp add: parseChar_def toState_def setState_def setUploadHandle_def initial_parser_def p_def s1_def IS_VALID_UPLOAD_HANDLE_def
        IS_WHITE_SPACE_def byte_of_def)
  then have "parseFragmentAck ?ev (Some fresh) 5 (Some (123 # 34 # cs)) 1024 = Some (STATUS_SUCCESS, Some s1)"
    using parse_segment_leave [of "123 # 34 # cs" ?ev fresh 5] cs(1) by (simp add: leave_def lockStream_def unlockStream_def)
  moreover have "parseFragmentAck ?ev (Some s1) 5 (Some (replicate 1024 97)) (of_nat (length (replicate 1024 (97 :: BYTE)))) = None"
    by (rule parseFragmentAck_overflow) (use cs(1) p in \<open>simp_all add: s1_def filled_def ack_inv_def accumulates_def\<close>)
  ultimately show ?thesis unfolding cs_def by auto
qed

text \<open>C32. When one segment holds two ACKs, then the second one is not given to the event handler with the upload handle of the segment: the reset after the
  first ACK has cleared the handle, which is only set at the start of a segment.\<close>

theorem parseFragmentAck_second_ack:
  assumes "kvs_fragmentAckParser s = initial_parser" "acceptable ty number err" "acceptable ty2 number2 err2"
    and seg_def: "seg = ack_text ty timecode number err @ ack_text ty2 timecode2 number2 err2"
  shows "\<exists>p p2. parseFragmentAck ev (Some s) h (Some seg) (of_nat (length seg)) =
    ev (upd p (lockStream s)) h (meant ty timecode number err) \<bind> (\<lambda>(st, s1).
      if STATUS_FAILED st then Some (st, Some (unlockStream (upd initial_parser s1)))
      else ev (upd p2 s1) INVALID_UPLOAD_HANDLE_VALUE (meant ty2 timecode2 number2 err2) \<bind> (\<lambda>(st, s2). Some (st, Some (unlockStream (upd initial_parser s2)))))"
proof -
  let ?t = "ack_text ty timecode number err" and ?t2 = "ack_text ty2 timecode2 number2 err2"
  have i: "kvs_fragmentAckParser (lockStream s) = initial_parser" using assms(1) by simp
  obtain p where p: "\<And>ev r l (s :: 'a KinesisVideoStream_scheme). parseLoop ev (?t @ r) l (upd (initial_parser\<lparr>fap_uploadHandle := h\<rparr>) s) =
    ev (upd p s) h (meant ty timecode number err) \<bind> (\<lambda>(st, s). if STATUS_FAILED st then Some (st, s) else parseLoop ev r l (upd initial_parser s))"
    by (rule parse_ack [OF setUploadHandle_initial(2) [OF i] assms(2), where 'a = 'a]) blast
  obtain p2 where p2: "\<And>ev r l (s :: 'a KinesisVideoStream_scheme). parseLoop ev (?t2 @ r) l (upd initial_parser s) =
    ev (upd p2 s) INVALID_UPLOAD_HANDLE_VALUE (meant ty2 timecode2 number2 err2) \<bind>
      (\<lambda>(st, s). if STATUS_FAILED st then Some (st, s) else parseLoop ev r l (upd initial_parser s))"
    by (rule parse_ack [OF initial_at assms(3), where 'a = 'a]) blast
  have seg: "seg \<noteq> []" "length seg \<le> 1024"
    using ack_text_length [OF assms(2), of timecode] ack_text_length [OF assms(3), of timecode2] by (simp_all add: seg_def)
  have second: "parseLoop ev ?t2 l (upd initial_parser s) \<bind> (\<lambda>(st, s). leave st s) = ev (upd p2 s) INVALID_UPLOAD_HANDLE_VALUE (meant ty2 timecode2 number2 err2) \<bind>
      (\<lambda>(st, s2). Some (st, Some (unlockStream (upd initial_parser s2))))" for l and s :: "'a KinesisVideoStream_scheme"
    using p2 [of ev "[]" l s] by (cases "ev (upd p2 s) INVALID_UPLOAD_HANDLE_VALUE (meant ty2 timecode2 number2 err2)") (auto simp: leave_def)
  have "parseFragmentAck ev (Some s) h (Some seg) (of_nat (length seg)) =
    ev (upd p (lockStream s)) h (meant ty timecode number err) \<bind> (\<lambda>(st, s1).
      if STATUS_FAILED st then Some (st, Some (unlockStream (upd initial_parser s1)))
      else ev (upd p2 s1) INVALID_UPLOAD_HANDLE_VALUE (meant ty2 timecode2 number2 err2) \<bind> (\<lambda>(st, s2). Some (st, Some (unlockStream (upd initial_parser s2)))))"
    unfolding parse_segment_leave [OF seg] setUploadHandle_initial(1) [OF i] unfolding seg_def p
    by (cases "ev (upd p (lockStream s)) h (meant ty timecode number err)") (auto simp: second simp del: upd_commutes, simp_all add: leave_def)
  then show ?thesis by blast
qed

theorem parseFragmentAck_second_ack_witness:
  "parseFragmentAck (\<lambda>s h ack. Some (if h = 5 then STATUS_SUCCESS else STATUS_INVALID_ARG, s)) (Some fresh) 5
     (Some (ack_text ''BUFFERING'' 1000 (map byte_of ''1'') None @ ack_text ''PERSISTED'' 1000 (map byte_of ''1'') None))
     (of_nat (length (ack_text ''BUFFERING'' 1000 (map byte_of ''1'') None @ ack_text ''PERSISTED'' 1000 (map byte_of ''1'') None))) =
   Some (STATUS_INVALID_ARG, Some fresh)"
proof -
  have "acceptable ''BUFFERING'' (map byte_of ''1'') None" "acceptable ''PERSISTED'' (map byte_of ''1'') None" by (simp_all add: acceptable_def byte_of_def)
  then show ?thesis
    using parseFragmentAck_second_ack [of fresh "''BUFFERING''" "map byte_of ''1''" None "''PERSISTED''" "map byte_of ''1''" None _ 1000 1000
      "\<lambda>s h ack. Some (if h = 5 then STATUS_SUCCESS else STATUS_INVALID_ARG, s)" 5]
    by (auto simp: unlockStream_def lockStream_def INVALID_UPLOAD_HANDLE_VALUE_def STATUS_FAILED_def)
qed

text \<open>A nested value may not be cut: its level is forgotten at the end of the segment, so that the first character of the next one which is not a
  brace ends the value, and the ACK is refused at the character after it.\<close>

theorem parseFragmentAck_nested_cut:
  assumes "fap_state (kvs_fragmentAckParser s) = FRAGMENT_ACK_PARSER_STATE_SKIP_BODY_BRACE_END" "c \<noteq> 123" "c \<noteq> 125"
    and "\<not> IS_WHITE_SPACE d" "d \<notin> {44, 125, 34}" "length r \<le> 1022"
  shows "parseFragmentAck ev (Some s) h (Some (c # d # r)) (of_nat (length (c # d # r))) =
    Some (STATUS_INVALID_ACK_KEY_START, Some (s\<lparr>kvs_fragmentAckParser := initial_parser\<rparr>))"
proof -
  let ?s0 = "setUploadHandle h (lockStream s)"
  have st: "fap_state (kvs_fragmentAckParser ?s0) = FRAGMENT_ACK_PARSER_STATE_SKIP_BODY_BRACE_END" using assms(1) by (simp add: setUploadHandle_def)
  have "parseLoop ev (c # d # r) 0 ?s0 = Some (STATUS_INVALID_ACK_KEY_START, setState FRAGMENT_ACK_PARSER_STATE_VALUE_END ?s0)"
    using st assms by (simp add: parseChar_def Let_def)
  moreover have "unlockStream (upd initial_parser (setState x (setUploadHandle h (lockStream s)))) = upd initial_parser s" for x
    by (simp add: setState_def setUploadHandle_def unlockStream_def lockStream_def)
  ultimately show ?thesis using assms(6) parse_segment_leave [of "c # d # r" ev s h] by (simp add: leave_def)
qed

lemma brace_starts:
  "fap_state p = FRAGMENT_ACK_PARSER_STATE_START \<Longrightarrow>
    parseLoop ev (123 # r) l (upd p s) = parseLoop ev r l (upd (p\<lparr>fap_state := FRAGMENT_ACK_PARSER_STATE_ACK_START\<rparr>) s)"
  by (simp add: parseChar_def toState_def setState_def)

text \<open>A body between braces is skipped, up to a closing brace of the same segment.\<close>

lemma skip_starts:
  assumes "parser_at FRAGMENT_ACK_PARSER_STATE_BODY_START ack ks h q"
  shows "parseLoop ev (123 # 34 # 97 # 34 # r) l (upd q s) = parseLoop ev r 1 (upd (q\<lparr>fap_state := FRAGMENT_ACK_PARSER_STATE_SKIP_BODY_BRACE_END\<rparr>) s)"
proof -
  have "fap_state q = FRAGMENT_ACK_PARSER_STATE_BODY_START" using assms by (simp add: parser_at_def)
  moreover have "\<not> IS_WHITE_SPACE 123" by (simp add: IS_WHITE_SPACE_def byte_of_def)
  ultimately show ?thesis by (simp add: parseChar_def setState_def Let_def)
qed

lemma end_ack:
  assumes "parser_at FRAGMENT_ACK_PARSER_STATE_VALUE_END ack ks h p"
  shows "parseLoop ev (125 # r) l (upd p s) = processParsedAck ev (upd p s) \<bind> (\<lambda>(st, s). if STATUS_FAILED st then Some (st, s) else parseLoop ev r l s)"
proof -
  have "fap_state p = FRAGMENT_ACK_PARSER_STATE_VALUE_END" using assms by (simp add: parser_at_def)
  moreover have "\<not> IS_WHITE_SPACE 125" by (simp add: IS_WHITE_SPACE_def byte_of_def)
  ultimately show ?thesis by (cases "processParsedAck ev (upd p s)") (auto simp: parseChar_def)
qed

text \<open>The segment \<open>{"X":{"a":1},"EventType":"IDLE"}\<close> is accepted, and cut behind \<open>"a"\<close> it is refused.\<close>

theorem parseFragmentAck_nested_cut_witness:
  defines "a \<equiv> 123 # 34 # [88] @ 34 # 58 # [123, 34, 97, 34]" and "b \<equiv> 58 # 49 # 125 # 44 # text_member ''EventType'' (map byte_of ''IDLE'') @ [125]"
  shows "parseFragmentAck (\<lambda>s h ack. Some (STATUS_SUCCESS, s)) (Some fresh) 5 (Some (a @ b)) (of_nat (length (a @ b))) = Some (STATUS_SUCCESS, Some fresh) \<and>
    (\<exists>s1. parseFragmentAck (\<lambda>s h ack. Some (STATUS_SUCCESS, s)) (Some fresh) 5 (Some a) (of_nat (length a)) = Some (STATUS_SUCCESS, Some s1) \<and>
      parseFragmentAck (\<lambda>s h ack. Some (STATUS_SUCCESS, s)) (Some s1) 5 (Some b) (of_nat (length b)) = Some (STATUS_INVALID_ACK_KEY_START, Some fresh))"
proof -
  let ?ev = "\<lambda>(s :: KinesisVideoStream) (h :: UPLOAD_HANDLE) (ack :: FragmentAck). Some (STATUS_SUCCESS, s)"
  let ?S = "lockStream fresh"
  define p where "p = (initial_parser\<lparr>fap_uploadHandle := 5\<rparr>)\<lparr>fap_state := FRAGMENT_ACK_PARSER_STATE_ACK_START\<rparr>"
  have p: "parser_at FRAGMENT_ACK_PARSER_STATE_ACK_START initial_ack (\<lambda>_. False) 5 p"
    by (simp add: p_def parser_at_def initial_ack_def initial_parser_def)
  obtain q where q: "parser_at FRAGMENT_ACK_PARSER_STATE_BODY_START initial_ack (\<lambda>_. False) 5 q"
    "\<And>ev r l (s :: KinesisVideoStream). parseLoop ev (34 # [88] @ 34 # 58 # r) l (upd p s) = parseLoop ev r l (upd q s)"
    by (rule parse_member_key [OF p, of "[88]", where 'a = unit]) auto
  define q1 where "q1 = q\<lparr>fap_state := FRAGMENT_ACK_PARSER_STATE_SKIP_BODY_BRACE_END\<rparr>"
  define q2 where "q2 = q\<lparr>fap_state := FRAGMENT_ACK_PARSER_STATE_VALUE_END\<rparr>"
  have start: "setUploadHandle 5 ?S = upd (initial_parser\<lparr>fap_uploadHandle := 5\<rparr>) ?S" by (rule setUploadHandle_initial) simp
  have a: "parseLoop ?ev (a @ r) 0 (setUploadHandle 5 ?S) = parseLoop ?ev r 1 (upd q1 ?S)" for r
  proof -
    have "parseLoop ?ev (a @ r) 0 (setUploadHandle 5 ?S) = parseLoop ?ev (34 # [88] @ 34 # 58 # [123, 34, 97, 34] @ r) 0 (upd p ?S)"
      unfolding a_def start p_def append_Cons append_assoc append_Nil by (rule brace_starts) (simp add: initial_parser_def)
    also have "\<dots> = parseLoop ?ev ([123, 34, 97, 34] @ r) 0 (upd q ?S)" by (rule q(2))
    also have "\<dots> = parseLoop ?ev r 1 (upd q1 ?S)" unfolding q1_def append_Cons append_Nil by (rule skip_starts [OF q(1)])
    finally show ?thesis .
  qed
  have la: "parseLoop ?ev a 0 (setUploadHandle 5 ?S) = Some (STATUS_SUCCESS, upd q1 ?S)" "a \<noteq> []" "length a \<le> 1024"
    using a [of "[]"] by (simp, simp_all add: a_def)
  have skip: "parseLoop ?ev (58 # 49 # 125 # r) 1 (upd q1 ?S) = parseLoop ?ev r 0 (upd q2 ?S)" for r
    by (simp add: parseChar_def q1_def q2_def setState_def)
  have q2: "parser_at FRAGMENT_ACK_PARSER_STATE_VALUE_END initial_ack (\<lambda>_. False) 5 q2" unfolding q2_def by (rule parser_at_state [OF q(1)])
  obtain p' ks where p': "parser_at FRAGMENT_ACK_PARSER_STATE_VALUE_END (value_read FRAGMENT_ACK_KEY_NAME_EVENT_TYPE (map byte_of ''IDLE'') initial_ack) ks 5 p'"
    "\<And>ev r l (s :: KinesisVideoStream). parseLoop ev (text_member ''EventType'' (map byte_of ''IDLE'') @ r) l (upd q2 s) = parseLoop ev r l (upd p' s)"
    by (rule parse_text_member [OF q2 _ quotes(1) literals_nonzero(1) _ key_names(1), where 'a = unit and v = "map byte_of ''IDLE''"])
      (auto simp: readable_def byte_of_def)
  have "processParsedAck ?ev (upd p' ?S) = Some (STATUS_SUCCESS, upd initial_parser ?S)"
    using p'(1) by (simp add: processParsedAck_def validateParsedAck_def parser_at_def value_read_def type_of_def byte_of_def resetAckParserState_def Let_def)
  then have "parseLoop ?ev [125] 0 (upd p' ?S) = Some (STATUS_SUCCESS, upd initial_parser ?S)"
    by (subst end_ack [OF p'(1)]) simp
  then have "parseLoop ?ev b 1 (upd q1 ?S) = Some (STATUS_SUCCESS, upd initial_parser ?S)"
    unfolding b_def skip comma_stays [OF q2] p'(2) .
  then have "parseFragmentAck ?ev (Some fresh) 5 (Some (a @ b)) (of_nat (length (a @ b))) = Some (STATUS_SUCCESS, Some fresh)"
    using parse_segment_leave [of "a @ b" ?ev fresh 5] unfolding a
    by (simp add: a_def b_def text_member_def leave_def unlockStream_def lockStream_def)
  moreover have "parseFragmentAck ?ev (Some fresh) 5 (Some a) (of_nat (length a)) = Some (STATUS_SUCCESS, Some (upd q1 fresh))"
    unfolding parse_segment_leave [OF la(2,3)] la(1) by (simp add: leave_def unlockStream_def lockStream_def)
  moreover have "parseFragmentAck ?ev (Some (upd q1 fresh)) 5 (Some b) (of_nat (length b)) = Some (STATUS_INVALID_ACK_KEY_START, Some fresh)"
    unfolding b_def using parseFragmentAck_nested_cut [of "upd q1 fresh" 58 49 "125 # 44 # text_member ''EventType'' (map byte_of ''IDLE'') @ [125]" ?ev 5]
    by (simp add: q1_def IS_WHITE_SPACE_def byte_of_def text_member_def)
  ultimately show ?thesis by blast
qed

end
