(* ===== verification/StreamStateProps.thy ===== *)
theory StreamStateProps
  imports StreamEvents
begin

text \<open>
  Properties of the state machine of a stream: its iteration returns whatever the application answers, what it leaves alone, in which states the stream
  has a token and an endpoint, and what the results of the service calls do in the states they are not meant for.
\<close>

subsection \<open>The table\<close>

lemma stream_table:
  "length (STREAM_STATE_MACHINE_STATES e) = 10"
  by (simp add: STREAM_STATE_MACHINE_STATES_def)

lemma nat_less_10: "i < (10 :: nat) \<longleftrightarrow> i \<in> {0, 1, 2, 3, 4, 5, 6, 7, 8, 9}"
  by auto

lemma stream_state_nth:
  "STREAM_STATE_MACHINE_STATES e ! 0 = streamMachineState e 1 513 fromNewStreamState executeNewStreamState 0 STATUS_INVALID_STREAM_READY_STATE"
  "STREAM_STATE_MACHINE_STATES e ! Suc 0 = streamMachineState e 2 643 fromDescribeStreamState (executeDescribeStreamState e) 5
     STATUS_DESCRIBE_STREAM_CALL_FAILED"
  "STREAM_STATE_MACHINE_STATES e ! 2 = streamMachineState e 4 6 fromCreateStreamState (executeCreateStreamState e) 5 STATUS_CREATE_STREAM_CALL_FAILED"
  "STREAM_STATE_MACHINE_STATES e ! 3 = streamMachineState e 8 14 fromTagStreamState (executeTagStreamState e) 5 STATUS_TAG_STREAM_CALL_FAILED"
  "STREAM_STATE_MACHINE_STATES e ! 4 = streamMachineState e 32 558 fromGetEndpointStreamState (executeGetEndpointStreamState e) 5
     STATUS_GET_STREAMING_ENDPOINT_CALL_FAILED"
  "STREAM_STATE_MACHINE_STATES e ! 5 = streamMachineState e 16 688 fromGetTokenStreamState (executeGetTokenStreamState e) 5
     STATUS_GET_STREAMING_TOKEN_CALL_FAILED"
  "STREAM_STATE_MACHINE_STATES e ! 6 = streamMachineState e 64 976 fromReadyStreamState (executeReadyStreamState e) 5 STATUS_STREAM_READY_CALLBACK_FAILED"
  "STREAM_STATE_MACHINE_STATES e ! 7 = streamMachineState e 128 192 (fromPutStreamState e) (executePutStreamState e) 0 STATUS_PUT_STREAM_CALL_FAILED"
  "STREAM_STATE_MACHINE_STATES e ! 8 = streamMachineState e 256 384 fromStreamingStreamState executeStreamingStreamState 0 STATUS_PUT_STREAM_CALL_FAILED"
  "STREAM_STATE_MACHINE_STATES e ! 9 = streamMachineState e 512 1023 fromStoppedStreamState executeStoppedStreamState 0 STATUS_PUT_STREAM_CALL_FAILED"
  by (simp_all add: STREAM_STATE_MACHINE_STATES_def)

lemma stream_find:
  "findState 1 0 (STREAM_STATE_MACHINE_STATES e) = Some 0" "findState 2 0 (STREAM_STATE_MACHINE_STATES e) = Some 1"
  "findState 4 0 (STREAM_STATE_MACHINE_STATES e) = Some 2" "findState 8 0 (STREAM_STATE_MACHINE_STATES e) = Some 3"
  "findState 32 0 (STREAM_STATE_MACHINE_STATES e) = Some 4" "findState 16 0 (STREAM_STATE_MACHINE_STATES e) = Some 5"
  "findState 64 0 (STREAM_STATE_MACHINE_STATES e) = Some 6" "findState 128 0 (STREAM_STATE_MACHINE_STATES e) = Some 7"
  "findState 256 0 (STREAM_STATE_MACHINE_STATES e) = Some 8" "findState 512 0 (STREAM_STATE_MACHINE_STATES e) = Some 9"
  by (simp_all add: STREAM_STATE_MACHINE_STATES_def streamMachineState_def)

lemma stream_machine [simp]:
  "smi_states (streamMachine e f) = STREAM_STATE_MACHINE_STATES e" "smi_pCurrentState (streamMachine e f) = mf_current f"
  "smi_getCurrentTimeFunc (streamMachine e f) = streamTime" "smi_localStateRetryCount (streamMachine e f) = mf_localStateRetryCount f"
  "current_state (streamMachine e f) = STREAM_STATE_MACHINE_STATES e ! mf_current f"
  by (simp_all add: streamMachine_def current_state_def)

subsection \<open>What a callback leaves alone\<close>

definition handles :: "'e StreamObject \<Rightarrow> UPLOAD_HANDLE option list" where
  "handles s = map (map_option uh_handle) (ks_pUploadInfoQueue s)"

definition stream_frame :: "'e StreamObject \<Rightarrow> 'e StreamObject \<Rightarrow> bool" where
  "stream_frame s s' \<longleftrightarrow> ks_pView s' = ks_pView s \<and> ks_removed s' = ks_removed s \<and> kvs_lock s' = kvs_lock s \<and>
     kvs_fragmentAckParser s' = kvs_fragmentAckParser s \<and> handles s' = handles s \<and> ks_freed s' = ks_freed s \<and>
     (ks_resetGeneratorOnKeyFrame s \<longrightarrow> ks_resetGeneratorOnKeyFrame s') \<and> (ks_skipNonKeyFrames s \<longrightarrow> ks_skipNonKeyFrames s') \<and>
     ks_recoverOnError s' = ks_recoverOnError s \<and> ks_allowStreamCreation s' = ks_allowStreamCreation s \<and> ks_tagCount s' = ks_tagCount s \<and>
     ks_tags s' = ks_tags s \<and> ks_curViewItem s' = ks_curViewItem s \<and> ks_metadataTracker s' = ks_metadataTracker s \<and>
     ks_eosTracker s' = ks_eosTracker s \<and> ks_streamingEndpoint s' = ks_streamingEndpoint s \<and> ks_streamingAuthInfo s' = ks_streamingAuthInfo s \<and> ks_streamStatus s' = ks_streamStatus s"

lemma stream_frame_refl [simp]: "stream_frame s s"
  by (simp add: stream_frame_def)

lemma stream_frame_trans: "stream_frame a b \<Longrightarrow> stream_frame b c \<Longrightarrow> stream_frame a c"
  by (simp add: stream_frame_def)

lemma handles_update: "i < length (ks_pUploadInfoQueue s) \<Longrightarrow> ks_pUploadInfoQueue s ! i \<noteq> None \<Longrightarrow>
    handles (update_upload i (uh_state_update f) s) = handles s"
  by (auto simp: handles_def update_upload_def upload_def list_eq_iff_nth_eq nth_list_update)

lemma findUpload_Some:
  "findUpload P us = Some i \<Longrightarrow> i < length us \<and> us ! i \<noteq> None \<and> P (the (us ! i)) \<and> None \<notin> set (take i us)"
proof (induction us arbitrary: i)
  case (Cons u us)
  then show ?case by (cases u) (fastforce split: if_splits)+
qed simp

text \<open>The time, the hook: nothing but the state of the application and the diagnostics.\<close>

definition env_moves :: "'e StreamObject \<Rightarrow> 'e StreamObject \<Rightarrow> bool" where
  "env_moves s s' \<longleftrightarrow> (\<exists>x d. s' = s\<lparr>ks_pKinesisVideoClient := (ks_pKinesisVideoClient s)\<lparr>kvc_env := x\<rparr>, ks_diagnostics := d\<rparr>)"

lemma env_moves_trans: "env_moves a b \<Longrightarrow> env_moves b c \<Longrightarrow> env_moves a c"
proof -
  assume "env_moves a b" "env_moves b c"
  then obtain x y d d' where "b = a\<lparr>ks_pKinesisVideoClient := (ks_pKinesisVideoClient a)\<lparr>kvc_env := x\<rparr>, ks_diagnostics := d\<rparr>"
    "c = b\<lparr>ks_pKinesisVideoClient := (ks_pKinesisVideoClient b)\<lparr>kvc_env := y\<rparr>, ks_diagnostics := d'\<rparr>"
    unfolding env_moves_def by blast
  then have "c = a\<lparr>ks_pKinesisVideoClient := (ks_pKinesisVideoClient a)\<lparr>kvc_env := y\<rparr>, ks_diagnostics := d'\<rparr>" by simp
  then show ?thesis unfolding env_moves_def by blast
qed

lemma env_moves_steps:
  "env_moves s (set_env x s)" "env_moves s (snd (streamTime s))" "env_moves s (count f s)" "env_moves s s"
proof -
  show refl: "env_moves s s"
    unfolding env_moves_def by (intro exI [of _ "kvc_env (ks_pKinesisVideoClient s)"] exI [of _ "ks_diagnostics s"]) (cases s, simp)
  have d: "s = s\<lparr>ks_diagnostics := ks_diagnostics s\<rparr>" by (cases s) simp
  show "env_moves s (set_env x s)" for x
    unfolding env_moves_def set_env_def by (intro exI [of _ x] exI [of _ "ks_diagnostics s"]) (cases s, simp)
  then show "env_moves s (snd (streamTime s))" by (simp add: streamTime_def getCurrentTime_def set_env_def split: prod.splits)
  show "env_moves s (count f s)"
    unfolding env_moves_def count_def
    by (intro exI [of _ "kvc_env (ks_pKinesisVideoClient s)"] exI [of _ "f (ks_diagnostics s)"]) (cases s, cases "ks_pKinesisVideoClient s", simp)
qed

lemma env_moves_after: "env_moves a b \<Longrightarrow> env_moves a (set_env x b)" "env_moves a b \<Longrightarrow> env_moves a (count f b)"
  by (erule env_moves_trans, rule env_moves_steps)+

lemma client_inv_env [simp]: "client_inv m (c\<lparr>kvc_env := x\<rparr>) = client_inv m c"
  by (simp add: client_inv_def)

definition client_ok :: "'e StreamObject \<Rightarrow> bool" where
  "client_ok s \<longleftrightarrow> client_inv (ks_clientMachine s) (ks_pKinesisVideoClient s)"

lemma env_moves_frame:
  "env_moves s s' \<Longrightarrow> stream_frame s s' \<and> ks_stateMachine s' = ks_stateMachine s \<and> ks_hung s' = ks_hung s \<and> ks_streamState s' = ks_streamState s \<and>
    ks_keepIteratingStateMachine s' = ks_keepIteratingStateMachine s \<and> ks_result s' = ks_result s \<and> ks_clientMachine s' = ks_clientMachine s \<and>
    client_ok s' = client_ok s"
  by (auto simp: env_moves_def stream_frame_def handles_def client_ok_def)

lemma stream_hook:
  assumes "mf_current f < 10" "runHook (streamMachine e f) s = (st, t, s')"
  shows "env_moves s s' \<and> st = STATUS_SUCCESS"
proof -
  have "sms_stateTransitionHookFunc (STREAM_STATE_MACHINE_STATES e ! mf_current f) = Some (defaultStreamStateTransitionHook e)"
    using assms(1) unfolding nat_less_10 by (auto simp: stream_state_nth streamMachineState_def)
  then show ?thesis using assms(2) env_moves_steps(4)
    by (auto simp: runHook_def defaultStreamStateTransitionHook_def Let_def intro: env_moves_after split: option.splits prod.splits if_splits)
qed

subsection \<open>The successors\<close>

text \<open>The states the \<open>from\<close> callbacks may choose, by position in the table.\<close>

definition stream_next :: "nat \<Rightarrow> 'e StreamObject \<Rightarrow> nat \<Rightarrow> bool" where
  "stream_next i s j \<longleftrightarrow>
     (if i = 9 then (if ks_recoverOnError s then j \<in> {0, 1, 4, 5} \<or> j = 6 \<and> SERVICE_CALL_RESULT_IS_A_TIMEOUT (ks_result s) else j = 0)
      else if ks_streamState s = STREAM_STATE_STOPPED then j = 9
      else if i = 0 then j = 1
      else if i = 6 then j = 7
      else if i = 8 then j = 8
      else if ks_result s = SERVICE_CALL_RESULT_OK
      then (i = 1 \<and> j \<in> {1, 3, 4} \<or> i = 2 \<and> j \<in> {3, 4} \<or> i = 3 \<and> j = 4 \<or> i = 4 \<and> j = 5 \<or> i = 5 \<and> j = 6 \<or> i = 7 \<and> j = 8)
      else if i = 1 then j = 1 \<or> ks_result s = SERVICE_CALL_RESOURCE_NOT_FOUND \<and> j = (if ks_allowStreamCreation s then 2 else 9)
      else if i = 7 then j = (if SERVICE_CALL_RESULT_IS_A_TIMEOUT (ks_result s) then 4 else if ks_result s = SERVICE_CALL_NOT_AUTHORIZED \<or> ks_result s = SERVICE_CALL_FORBIDDEN then 5 else 1)
      else j = i)"

lemma recovery_next:
  "(\<exists>j \<in> {0, 1, 4, 5}. findState (recoveryState (serviceCallResultCheck r)) 0 (STREAM_STATE_MACHINE_STATES e) = Some j) \<or>
   findState (recoveryState (serviceCallResultCheck r)) 0 (STREAM_STATE_MACHINE_STATES e) = Some 6 \<and> SERVICE_CALL_RESULT_IS_A_TIMEOUT r"
proof -
  have "serviceCallResultCheck r = STATUS_SERVICE_CALL_TIMEOUT_ERROR \<longleftrightarrow> SERVICE_CALL_RESULT_IS_A_TIMEOUT r"
    unfolding serviceCallResultCheck_def SERVICE_CALL_RESULT_IS_A_TIMEOUT_def by (simp split: if_split)
  then show ?thesis by (simp add: recoveryState_def stream_find)
qed

text \<open>A new handle, once the call has succeeded, is the only change before a state is entered.\<close>

lemma readyNewHandle_frame:
  assumes "readyNewHandle e s = (st, s')"
  shows "stream_frame s s' \<and> ks_stateMachine s' = ks_stateMachine s \<and> ks_hung s' = ks_hung s \<and> ks_streamState s' = ks_streamState s \<and>
    ks_keepIteratingStateMachine s' = ks_keepIteratingStateMachine s \<and> ks_result s' = ks_result s \<and> ks_clientMachine s' = ks_clientMachine s \<and>
    ks_pKinesisVideoClient s' = ks_pKinesisVideoClient s"
proof (cases "getStreamUploadInfoWithState s UPLOAD_HANDLE_STATE_NEW")
  case None
  then show ?thesis using assms by (auto simp: readyNewHandle_def)
next
  case (Some i)
  let ?s = "update_upload i (uh_state_update (\<lambda>_. UPLOAD_HANDLE_STATE_READY)) s"
  have "handles ?s = handles s"
    using handles_update findUpload_Some [OF Some [unfolded getStreamUploadInfoWithState_def]] by blast
  moreover have "s' = ?s \<or> (\<exists>c. s' = call c ?s)"
    using assms Some by (auto simp: readyNewHandle_def Let_def split: option.splits prod.splits if_splits)
  ultimately show ?thesis by (auto simp: stream_frame_def call_def update_upload_def handles_def)
qed

text \<open>The \<open>from\<close> callback of a position.\<close>

definition stream_from :: "'e stream_env \<Rightarrow> nat \<Rightarrow> 'e StreamObject \<Rightarrow> STATUS \<times> UINT64 \<times> 'e StreamObject" where
  "stream_from e i = the (sms_getNextStateFn (STREAM_STATE_MACHINE_STATES e ! i))"

definition stream_exec :: "'e stream_env \<Rightarrow> nat \<Rightarrow> UINT64 \<Rightarrow> 'e StreamObject \<Rightarrow> STATUS \<times> bool \<times> 'e StreamObject" where
  "stream_exec e i = the (sms_executeStateFn (STREAM_STATE_MACHINE_STATES e ! i))"

lemma stream_callbacks:
  "stream_from e 0 = fromNewStreamState" "stream_from e (Suc 0) = fromDescribeStreamState" "stream_from e 2 = fromCreateStreamState"
  "stream_from e 3 = fromTagStreamState" "stream_from e 4 = fromGetEndpointStreamState" "stream_from e 5 = fromGetTokenStreamState"
  "stream_from e 6 = fromReadyStreamState" "stream_from e 7 = fromPutStreamState e" "stream_from e 8 = fromStreamingStreamState"
  "stream_from e 9 = fromStoppedStreamState"
  "stream_exec e 0 = executeNewStreamState" "stream_exec e (Suc 0) = executeDescribeStreamState e" "stream_exec e 2 = executeCreateStreamState e"
  "stream_exec e 3 = executeTagStreamState e" "stream_exec e 4 = executeGetEndpointStreamState e" "stream_exec e 5 = executeGetTokenStreamState e"
  "stream_exec e 6 = executeReadyStreamState e" "stream_exec e 7 = executePutStreamState e" "stream_exec e 8 = executeStreamingStreamState"
  "stream_exec e 9 = executeStoppedStreamState"
  by (simp_all add: stream_from_def stream_exec_def stream_state_nth streamMachineState_def)

lemma stream_callbacks_Some:
  "i < 10 \<Longrightarrow> sms_getNextStateFn (STREAM_STATE_MACHINE_STATES e ! i) = Some (stream_from e i)"
  "i < 10 \<Longrightarrow> sms_executeStateFn (STREAM_STATE_MACHINE_STATES e ! i) = Some (stream_exec e i)"
  unfolding nat_less_10 by (auto simp: stream_callbacks stream_state_nth streamMachineState_def)

definition from_moves :: "nat \<Rightarrow> 'e StreamObject \<Rightarrow> 'e StreamObject \<Rightarrow> bool" where
  "from_moves i s s' \<longleftrightarrow> stream_frame s s' \<and> ks_stateMachine s' = ks_stateMachine s \<and> ks_hung s' = ks_hung s \<and>
     ks_streamState s' = (if i = 9 then STREAM_STATE_READY else ks_streamState s) \<and>
     ks_keepIteratingStateMachine s' = ks_keepIteratingStateMachine s \<and> ks_result s' = ks_result s \<and> ks_clientMachine s' = ks_clientMachine s \<and>
     ks_pKinesisVideoClient s' = ks_pKinesisVideoClient s"

lemma stream_from_next:
  assumes "i < 10" "stream_from e i s = (st, n, s')"
  shows "from_moves i s s' \<and> (st = STATUS_SUCCESS \<longrightarrow> (\<exists>j < 10. findState n 0 (STREAM_STATE_MACHINE_STATES e) = Some j \<and> stream_next i s j))"
proof -
  have mv: "i \<noteq> 9 \<Longrightarrow> s' = s \<Longrightarrow> from_moves i s s'" by (simp add: from_moves_def)
  consider "i = 0" | "i = 1" | "i = 2" | "i = 3" | "i = 4" | "i = 5" | "i = 6" | "i = 7" | "i = 8" | "i = 9"
    using assms(1) unfolding nat_less_10 by auto
  then show ?thesis
  proof cases
    case 8
    then show ?thesis using assms(2) readyNewHandle_frame [of e s] mv
      by (auto simp: stream_callbacks fromPutStreamState_def stream_find stream_next_def from_moves_def split: if_splits prod.splits)
  next
    case 10
    then show ?thesis using assms(2) recovery_next [of "ks_result s" e]
      by (auto simp: stream_callbacks fromStoppedStreamState_def stream_find stream_next_def from_moves_def stream_frame_def handles_def Let_def split: if_splits)
  qed (use assms(2) mv in \<open>auto simp: stream_callbacks fromNewStreamState_def fromDescribeStreamState_def fromCreateStreamState_def fromTagStreamState_def
      fromGetEndpointStreamState_def fromGetTokenStreamState_def fromReadyStreamState_def fromStreamingStreamState_def stream_find stream_next_def
      split: if_splits\<close>)
qed

text \<open>The table accepts what the callbacks ask for, except the way from a put stream call that has timed out to a new endpoint.\<close>

lemma stream_accepts:
  assumes "stream_next i s j" "i < 10"
  shows "(sms_acceptStates (STREAM_STATE_MACHINE_STATES e ! j) AND sms_state (STREAM_STATE_MACHINE_STATES e ! i) =
     sms_state (STREAM_STATE_MACHINE_STATES e ! i)) = (\<not> (i = 7 \<and> j = 4))"
proof -
  consider "i = 0" | "i = 1" | "i = 2" | "i = 3" | "i = 4" | "i = 5" | "i = 6" | "i = 7" | "i = 8" | "i = 9"
    using assms(2) unfolding nat_less_10 by auto
  then show ?thesis
    by cases (use assms(1) in \<open>auto simp: stream_next_def stream_state_nth streamMachineState_def split: if_splits\<close>)
qed

subsection \<open>Entering a state\<close>

definition exec_moves :: "nat \<Rightarrow> STATUS \<Rightarrow> 'e StreamObject \<Rightarrow> 'e StreamObject \<Rightarrow> bool" where
  "exec_moves i st s s' \<longleftrightarrow> stream_frame s s' \<and> ks_stateMachine s' = ks_stateMachine s \<and> ks_hung s' = ks_hung s \<and> client_ok s' \<and>
     (ks_keepIteratingStateMachine s' \<longrightarrow> ks_keepIteratingStateMachine s \<or> st = STATUS_SUCCESS \<and> i \<in> {0, 6, 9}) \<and>
     (i \<in> {0, 6} \<longrightarrow> ks_streamState s' = ks_streamState s)"

lemma store_client_moves:
  "client_inv m c \<Longrightarrow> exec_moves i st s (store_client m c s) \<and> ks_streamState (store_client m c s) = ks_streamState s"
  by (simp add: exec_moves_def store_client_def stream_frame_def handles_def client_ok_def)

lemma exec_moves_refl: "client_ok s \<Longrightarrow> exec_moves i st s s"
  by (simp add: exec_moves_def)

lemma exec_moves_trans: "exec_moves i st s s1 \<Longrightarrow> exec_moves i st' s1 s2 \<Longrightarrow> i \<notin> {0, 6, 9} \<Longrightarrow> exec_moves i st' s s2"
  using stream_frame_trans by (fastforce simp: exec_moves_def)

lemma afterClientStep_moves:
  assumes ok: "client_ok s" and st: "afterClientStep s rest = (st, a, s')" and i: "i \<notin> {0, 6, 9}"
    and rest: "\<And>s1 st a s'. client_ok s1 \<Longrightarrow> rest s1 = (st, a, s') \<Longrightarrow> \<not> a \<and> exec_moves i st s1 s'"
  shows "\<not> a \<and> exec_moves i st s s'"
proof -
  obtain r m c where c: "stepClientStateMachine (ks_clientMachine s) (ks_pKinesisVideoClient s) = Some (r, m, c)" "client_inv m c"
    using stepClient_safe ok unfolding client_ok_def by blast
  have mv: "exec_moves i st s (store_client m c s)" "client_ok (store_client m c s)" for st
    using store_client_moves [OF c(2)] by (auto simp: exec_moves_def)
  show ?thesis
  proof (cases "STATUS_FAILED r")
    case True
    then show ?thesis using st c mv(1) by (simp add: afterClientStep_def)
  next
    case False
    then have "rest (store_client m c s) = (st, a, s')" using st c by (simp add: afterClientStep_def)
    then show ?thesis using rest [OF mv(2)] exec_moves_trans [OF mv(1) _ i] by blast
  qed
qed

lemma set_env_moves: "client_ok s \<Longrightarrow> exec_moves i st s (set_env x s) \<and> ks_streamState (set_env x s) = ks_streamState s"
  by (simp add: exec_moves_def set_env_def stream_frame_def handles_def client_ok_def)

lemma serviceCall_moves:
  "client_ok s \<Longrightarrow> exec_moves i st s (streamServiceCall auth timeout time s)"
  "client_ok s \<Longrightarrow> exec_moves i st s (controlPlaneCall time s)"
  "client_ok s \<Longrightarrow> exec_moves i st s (s\<lparr>ks_result := r\<rparr>)"
  by (simp_all add: exec_moves_def streamServiceCall_def controlPlaneCall_def stream_frame_def handles_def client_ok_def)

lemma moves_ok: "exec_moves i st s s' \<Longrightarrow> client_ok s'"
  by (simp add: exec_moves_def)

lemma issue_moves:
  assumes "client_ok s" "issue f s = (st, a, s')"
  shows "\<not> a \<and> exec_moves i st s s'"
  using assms(2) set_env_moves [OF assms(1)] by (auto simp: issue_def split: prod.splits)

lemma controlPlane_moves:
  assumes "client_ok s" "issue (f (ks_serviceCallContext (controlPlaneCall t s))) (controlPlaneCall t s) = (st, a, s')" "i \<notin> {0, 6, 9}"
  shows "\<not> a \<and> exec_moves i st s s'"
  using issue_moves [OF moves_ok [OF serviceCall_moves(2) [OF assms(1)]] assms(2)]
    exec_moves_trans [OF serviceCall_moves(2) [OF assms(1)] _ assms(3)] by blast

lemma stepClientToReady_moves:
  assumes ok: "client_ok s" and st: "stepClientToReady s rest = (st, a, s')" and i: "i \<notin> {0, 6, 9}"
    and rest: "\<And>s1 st a s'. client_ok s1 \<Longrightarrow> rest s1 = (st, a, s') \<Longrightarrow> \<not> a \<and> exec_moves i st s1 s'"
  shows "\<not> a \<and> exec_moves i st s s'"
proof -
  obtain r m c where c: "stepLoop (ks_clientMachine s) (ks_pKinesisVideoClient s) = Some (r, m, c)" "client_inv m c"
    using client_table.step_returns ok unfolding client_ok_def by blast
  have mv: "exec_moves i st s (store_client m c s)" "client_ok (store_client m c s)" for st
    using store_client_moves [OF c(2)] by (auto simp: exec_moves_def)
  have "(\<not> a \<and> s' = s) \<or> (\<not> a \<and> s' = store_client m c s) \<or> rest (store_client m c s) = (st, a, s')"
    using st c(1) by (auto simp: stepClientToReady_def Let_def split: prod.splits option.splits if_splits)
  then show ?thesis using exec_moves_refl [OF ok] mv(1) rest [OF mv(2)] exec_moves_trans [OF mv(1) _ i] by blast
qed

lemma getEndpoint_moves:
  assumes ok: "client_ok s" and st: "executeGetEndpointStreamState e t s = (st, a, s')" and i: "i \<notin> {0, 6, 9}"
  shows "\<not> a \<and> exec_moves i st s s'"
proof -
  let ?rest = "\<lambda>s. issue (env_getStreamingEndpoint e (ks_serviceCallContext (controlPlaneCall t s))) (controlPlaneCall t s)"
  obtain r m c where c: "stepClientStateMachine (ks_clientMachine s) (ks_pKinesisVideoClient s) = Some (r, m, c)" "client_inv m c"
    using stepClient_safe ok unfolding client_ok_def by blast
  have mv: "exec_moves i st s (store_client m c s)" "client_ok (store_client m c s)" for st
    using store_client_moves [OF c(2)] by (auto simp: exec_moves_def)
  have rest: "client_ok s1 \<Longrightarrow> ?rest s1 = (st, a, s') \<Longrightarrow> \<not> a \<and> exec_moves i st s1 s'" for s1 st a s'
    by (rule controlPlane_moves [OF _ _ i])
  have "stepClientToReady (store_client m c s) ?rest = (st, a, s') \<or> (\<not> a \<and> s' = store_client m c s) \<or> ?rest (store_client m c s) = (st, a, s')"
    using st c(1) by (auto simp: executeGetEndpointStreamState_def Let_def split: if_splits)
  then show ?thesis
    using mv(1) rest [OF mv(2)] exec_moves_trans [OF mv(1) _ i] stepClientToReady_moves [OF mv(2) _ i, of ?rest] rest by blast
qed

lemma streamTime_moves: "streamTime s = (t, s') \<Longrightarrow> client_ok s \<Longrightarrow> exec_moves i st s s'"
  using set_env_moves by (auto simp: streamTime_def getCurrentTime_def set_env_def split: prod.splits)

lemma putStream_moves:
  assumes ok: "client_ok s" and st: "executePutStreamState e t s = (st, a, s')"
  shows "\<not> a \<and> exec_moves 7 st s s'"
proof -
  have i: "(7 :: nat) \<notin> {0, 6, 9}" by simp
  let ?rest = "\<lambda>s. let s = streamServiceCall streamingAuthInfo_ptr SERVICE_CALL_INFINITE_TIMEOUT t s
       in if ks_streamState s = STREAM_STATE_PUT_STREAM then (STATUS_SUCCESS, False, s)
          else case streamTime (s\<lparr>ks_result := SERVICE_CALL_RESULT_NOT_SET\<rparr>) of (now, s) \<Rightarrow>
            (case issue (env_putStream e now (ks_streamingEndpoint s) (ks_serviceCallContext s)) s of (st, again, s) \<Rightarrow>
               if STATUS_FAILED st then (st, again, s) else (STATUS_SUCCESS, again, s\<lparr>ks_streamState := STREAM_STATE_PUT_STREAM\<rparr>))"
  have rest: "\<not> a \<and> exec_moves 7 st s1 s'" if "client_ok s1" "?rest s1 = (st, a, s')" for s1 st a s'
  proof -
    define s2 where "s2 = streamServiceCall streamingAuthInfo_ptr SERVICE_CALL_INFINITE_TIMEOUT t s1"
    have 2: "exec_moves 7 st s1 s2" "client_ok s2" for st
      using serviceCall_moves(1) [OF that(1)] moves_ok [OF serviceCall_moves(1) [OF that(1)]] by (simp_all add: s2_def)
    obtain now s3 where 3: "streamTime (s2\<lparr>ks_result := SERVICE_CALL_RESULT_NOT_SET\<rparr>) = (now, s3)" by fastforce
    have 4: "exec_moves 7 st s1 s3" "client_ok s3" for st
    proof -
      have r: "exec_moves 7 st s2 (s2\<lparr>ks_result := SERVICE_CALL_RESULT_NOT_SET\<rparr>)" for st by (rule serviceCall_moves(3) [OF 2(2)])
      have "exec_moves 7 st s2 s3" for st using exec_moves_trans [OF r streamTime_moves [OF 3 moves_ok [OF r]] i] .
      then show "exec_moves 7 st s1 s3" "client_ok s3" using exec_moves_trans [OF 2(1) _ i] moves_ok by blast+
    qed
    obtain r b s4 where 5: "issue (env_putStream e now (ks_streamingEndpoint s3) (ks_serviceCallContext s3)) s3 = (r, b, s4)" by (metis prod_cases3)
    have 6: "\<not> b" "exec_moves 7 st s1 s4" for st using issue_moves [OF 4(2) 5, of 7] exec_moves_trans [OF 4(1) _ i] by (auto simp: exec_moves_def)
    have 7: "exec_moves 7 st s1 (s4\<lparr>ks_streamState := x\<rparr>)" for st x
      using 6(2) by (simp add: exec_moves_def stream_frame_def handles_def client_ok_def)
    show ?thesis using that(2) 2(1) 3 5 6 7 unfolding s2_def [symmetric] Let_def by (auto split: if_splits)
  qed
  show ?thesis by (rule afterClientStep_moves [OF ok st [unfolded executePutStreamState_def] i rest])
qed

lemma ready_moves:
  assumes ok: "client_ok s" and st: "executeReadyStreamState e t s = (st, a, s')"
  shows "\<not> a \<and> exec_moves 6 st s s'"
proof -
  obtain r s1 where b: "broadcast (s\<lparr>ks_streamReady := True\<rparr>) = (r, s1)" by fastforce
  have 1: "exec_moves 6 st s s1" "exec_moves 6 st s (call c s1)" "exec_moves 6 STATUS_SUCCESS s ((call c s1)\<lparr>ks_keepIteratingStateMachine := True\<rparr>)" for st c
    using ok b by (auto simp: broadcast_def set_env_def call_def exec_moves_def stream_frame_def handles_def client_ok_def split: prod.splits)
  have "\<not> a \<and> (s' = s1 \<or> s' = call streamReadyFn s1 \<or> st = STATUS_SUCCESS \<and> s' = (call streamReadyFn s1)\<lparr>ks_keepIteratingStateMachine := True\<rparr>)"
    using st b by (auto simp: executeReadyStreamState_def Let_def split: prod.splits if_splits)
  then show ?thesis using 1 by auto
qed

lemma stopped_moves:
  assumes "client_ok s" "executeStoppedStreamState t s = (st, a, s')"
  shows "\<not> a \<and> exec_moves 9 st s s'"
  using assms by (auto simp: executeStoppedStreamState_def Let_def exec_moves_def stream_frame_def handles_def client_ok_def split: prod.splits if_splits)

lemma stream_exec_moves:
  assumes ok: "client_ok s" and i: "i < 10" and st: "stream_exec e i t s = (st, a, s')"
  shows "\<not> a \<and> exec_moves i st s s'"
proof -
  have call: "\<not> a \<and> exec_moves i st s s'"
    if "afterClientStep s (\<lambda>s. issue (f (ks_serviceCallContext (controlPlaneCall t s))) (controlPlaneCall t s)) = (st, a, s')" "i \<notin> {0, 6, 9}"
    for f i by (rule afterClientStep_moves [OF ok that controlPlane_moves [OF _ _ that(2)]])
  have tag: "\<not> a \<and> exec_moves 3 st s s'" if "executeTagStreamState e t s = (st, a, s')"
  proof (cases "ks_tagCount s \<noteq> 0 \<and> ks_tags s")
    case True
    have "afterClientStep s (\<lambda>s. issue (env_tagResource e (ks_arn (controlPlaneCall t s)) (ks_serviceCallContext (controlPlaneCall t s))) (controlPlaneCall t s)) = (st, a, s')"
      using that True by (simp add: executeTagStreamState_def Let_def)
    moreover have "\<not> a \<and> exec_moves 3 st s1 s'"
      if "client_ok s1" "issue (env_tagResource e (ks_arn (controlPlaneCall t s1)) (ks_serviceCallContext (controlPlaneCall t s1))) (controlPlaneCall t s1) = (st, a, s')"
      for s1 st a s' using controlPlane_moves [OF that(1), where f = "env_tagResource e (ks_arn (controlPlaneCall t s1))" and i = 3, OF that(2)] by simp
    ultimately show ?thesis using afterClientStep_moves [OF ok, where i = 3] by fastforce
  qed (use that ok in \<open>auto simp: executeTagStreamState_def exec_moves_refl\<close>)
  consider "i = 0" | "i = 1" | "i = 2" | "i = 3" | "i = 4" | "i = 5" | "i = 6" | "i = 7" | "i = 8" | "i = 9"
    using i unfolding nat_less_10 by auto
  then show ?thesis
  proof cases
    case 1
    then show ?thesis using st ok
      by (auto simp: stream_callbacks executeNewStreamState_def exec_moves_def stream_frame_def handles_def client_ok_def)
  next
    case 2
    then show ?thesis using call [of "env_describeStream e" i] st by (simp add: stream_callbacks executeDescribeStreamState_def Let_def)
  next
    case 3
    then show ?thesis using call [of "env_createStream e" i] st by (simp add: stream_callbacks executeCreateStreamState_def Let_def)
  next
    case 4
    then show ?thesis using tag st by (simp add: stream_callbacks)
  next
    case 5
    then show ?thesis using getEndpoint_moves [OF ok, of e t st a s' i] st by (simp add: stream_callbacks)
  next
    case 6
    then show ?thesis using call [of "env_getStreamingToken e" i] st by (simp add: stream_callbacks executeGetTokenStreamState_def Let_def)
  next
    case 7
    then show ?thesis using ready_moves [OF ok, of e t st a s'] st by (simp add: stream_callbacks)
  next
    case 8
    then show ?thesis using putStream_moves [OF ok, of e t st a s'] st by (simp add: stream_callbacks)
  next
    case 9
    then show ?thesis using st ok
      by (auto simp: stream_callbacks executeStreamingStreamState_def exec_moves_def stream_frame_def handles_def client_ok_def)
  next
    case 10
    then show ?thesis using stopped_moves [OF ok, of t st a s'] st by (simp add: stream_callbacks)
  qed
qed

subsection \<open>One transition\<close>

lemma stream_hook_fn:
  assumes "i < 10"
  shows "sms_stateTransitionHookFunc (STREAM_STATE_MACHINE_STATES e ! i) = Some (defaultStreamStateTransitionHook e)"
  using assms unfolding nat_less_10 by (auto simp: stream_state_nth streamMachineState_def)

lemma stream_limits:
  assumes "i < 10"
  shows "sms_maxLocalStateRetryCount (STREAM_STATE_MACHINE_STATES e ! i) = (if i \<in> {0, 7, 8, 9} then 0 else 5)"
    "j < 10 \<Longrightarrow> sms_state (STREAM_STATE_MACHINE_STATES e ! i) = sms_state (STREAM_STATE_MACHINE_STATES e ! j) \<longleftrightarrow> i = j"
    "sms_status (STREAM_STATE_MACHINE_STATES e ! i) \<noteq> STATUS_SUCCESS"
proof -
  show "sms_maxLocalStateRetryCount (STREAM_STATE_MACHINE_STATES e ! i) = (if i \<in> {0, 7, 8, 9} then 0 else 5)"
    using assms unfolding nat_less_10 by (auto simp: stream_state_nth streamMachineState_def)
  show "sms_status (STREAM_STATE_MACHINE_STATES e ! i) \<noteq> STATUS_SUCCESS"
    using assms unfolding nat_less_10 by (auto simp: stream_state_nth streamMachineState_def)
  have "map sms_state (STREAM_STATE_MACHINE_STATES e) = [1, 2, 4, 8, 32, 16, 64, 128, 256, 512]"
    by (simp add: STREAM_STATE_MACHINE_STATES_def streamMachineState_def)
  then have n: "sms_state (STREAM_STATE_MACHINE_STATES e ! k) = [1, 2, 4, 8, 32, 16, 64, 128, 256, 512] ! k" if "k < 10" for k
    using that stream_table [of e] by (metis nth_map)
  show "j < 10 \<Longrightarrow> sms_state (STREAM_STATE_MACHINE_STATES e ! i) = sms_state (STREAM_STATE_MACHINE_STATES e ! j) \<longleftrightarrow> i = j"
    using n assms nth_eq_iff_index_eq [of "[1 :: UINT64, 2, 4, 8, 32, 16, 64, 128, 256, 512]" i j] by simp
qed

text \<open>
  A transition of the machine of a stream: it is refused by the callback of the current state, by the table or by the bound of the retries; or the chosen
  state is entered.
\<close>

lemma stream_transition:
  assumes f: "mf_current f < 10" and step: "stepTransition (streamMachine e f) s = (st, again, m', s')"
  obtains (refused) n s1 where "\<not> again" "st \<noteq> STATUS_SUCCESS" "stream_from e (mf_current f) s = (st, n, s1)" "s' = s1" "machineFields m' = f"
  | (rejected) n s1 where "\<not> again" "st = STATUS_INVALID_STREAM_STATE" "mf_current f = 7" "stream_from e 7 s = (STATUS_SUCCESS, n, s1)" "s' = s1"
      "stream_next 7 s 4" "machineFields m' = f" "findState n 0 (STREAM_STATE_MACHINE_STATES e) = Some 4"
  | (exceeded) n s1 r where "\<not> again" "st = sms_status (STREAM_STATE_MACHINE_STATES e ! mf_current f)"
      "stream_from e (mf_current f) s = (STATUS_SUCCESS, n, s1)" "env_moves s1 s'" "stream_next (mf_current f) s (mf_current f)"
      "machineFields m' = f\<lparr>mf_localStateRetryCount := r\<rparr>" "mf_localStateRetryCount f + 1 > 5" "mf_current f \<notin> {0, 7, 8, 9}"
      "findState n 0 (STREAM_STATE_MACHINE_STATES e) = Some (mf_current f)"
  | (entered) n s1 s2 j t a r where "stream_from e (mf_current f) s = (STATUS_SUCCESS, n, s1)" "findState n 0 (STREAM_STATE_MACHINE_STATES e) = Some j"
      "j < 10" "stream_next (mf_current f) s j" "env_moves s1 s2" "stream_exec e j t s2 = (st, a, s')" "again \<longleftrightarrow> st = STATUS_SUCCESS \<and> a"
      "machineFields m' = \<lparr>mf_current = j, mf_localStateRetryCount = r, mf_stateTransitionWaitTime = t\<rparr>"
      "r = (if j = mf_current f then mf_localStateRetryCount f + 1 else 0)" "j \<notin> {0, 7, 8, 9} \<longrightarrow> r \<le> 5" "\<not> (mf_current f = 7 \<and> j = 4)"
proof -
  let ?T = "STREAM_STATE_MACHINE_STATES e" and ?i = "mf_current f"
  obtain r n s1 where r: "stream_from e ?i s = (r, n, s1)" by (metis prod_cases3)
  note fr = stream_from_next [OF f r]
  obtain now s2 where t: "streamTime s1 = (now, s2)" by fastforce
  obtain r2 wait s3 where h: "runHook (streamMachine e f) s2 = (r2, wait, s3)" by (metis prod_cases3)
  have hk: "env_moves s1 s3" "r2 = STATUS_SUCCESS"
    using stream_hook [OF f h] env_moves_steps(2) [of s1] env_moves_trans [of s1 s2 s3] t by simp_all
  show thesis
  proof (cases "r = STATUS_SUCCESS")
    case False
    have "\<not> again \<and> st = r \<and> m' = streamMachine e f \<and> s' = s1"
      using step False r by (auto simp: stepTransition_def stream_callbacks_Some [OF f])
    then show thesis using refused [of n s1] False r by (auto simp: machineFields_def streamMachine_def)
  next
    case True
    then obtain j where j: "j < 10" "findState n 0 ?T = Some j" "stream_next ?i s j" using fr by auto
    note acc = stream_accepts [OF j(3) f, of e]
    show thesis
    proof (cases "?i = 7 \<and> j = 4")
      case bad: True
      have "\<not> again \<and> st = STATUS_INVALID_STREAM_STATE \<and> m' = streamMachine e f \<and> s' = s1"
        using step True r j(2) acc bad stream_callbacks_Some(1) [of 7 e] by (auto simp: stepTransition_def Let_def)
      then show thesis using rejected [of n s1] True r bad j(2,3) by (auto simp: machineFields_def streamMachine_def)
    next
      case good: False
      let ?n = "retryCountAfter (streamMachine e f) (?T ! j)"
      have n: "?n = (if j = ?i then mf_localStateRetryCount f + 1 else 0)"
        using stream_limits(2) [OF j(1) f, of e] by (simp add: retryCountAfter_def)
      obtain r3 a s4 where x: "stream_exec e j (now + wait) s3 = (r3, a, s4)" by (metis prod_cases3)
      show thesis
      proof (cases "sms_maxLocalStateRetryCount (?T ! j) \<noteq> 0 \<and> \<not> ?n \<le> sms_maxLocalStateRetryCount (?T ! j)")
        case over: True
        then have ji: "j = ?i" "?i \<notin> {0, 7, 8, 9}" "mf_localStateRetryCount f + 1 > 5"
          using n stream_limits(1) [OF j(1), of e] by (auto split: if_splits)
        have "(st, again, m', s') = (sms_status (?T ! j), False, (streamMachine e f)\<lparr>smi_localStateRetryCount := ?n\<rparr>, s3)"
          using step True over r t h hk(2) j(2) acc good by (simp add: stepTransition_def stream_callbacks_Some [OF f] Let_def)
        then show thesis
          using exceeded [of n s1 ?n] True r hk(1) j(2,3) ji by (auto simp: machineFields_def streamMachine_def)
      next
        case False
        have "(st, again, m', s') = (r3, r3 = STATUS_SUCCESS \<and> a,
            (streamMachine e f)\<lparr>smi_localStateRetryCount := ?n, smi_stateTransitionWaitTime := now + wait, smi_pCurrentState := j\<rparr>, s4)"
          using step True False r t h hk(2) j(2) acc good x stream_callbacks_Some(2) [OF j(1), of e]
          by (auto simp: stepTransition_def stream_callbacks_Some [OF f] enterState_def current_state_def Let_def)
        then have eqs: "st = r3" "again \<longleftrightarrow> r3 = STATUS_SUCCESS \<and> a" "s' = s4"
          "machineFields m' = \<lparr>mf_current = j, mf_localStateRetryCount = ?n, mf_stateTransitionWaitTime = now + wait\<rparr>"
          by (auto simp: machineFields_def)
        have "j \<notin> {0, 7, 8, 9} \<longrightarrow> ?n \<le> 5" using False stream_limits(1) [OF j(1), of e] by auto
        then show thesis
          using entered [of n s1 j s3 "now + wait" a ?n] True r j hk(1) x n good unfolding eqs(1,3) by (simp add: eqs(2,4))
      qed
    qed
  qed
qed

subsection \<open>The iteration returns\<close>

text \<open>The object between two calls.\<close>

definition stream_ok :: "'e StreamObject \<Rightarrow> bool" where
  "stream_ok s \<longleftrightarrow> client_ok s \<and> mf_current (ks_stateMachine s) < 10 \<and> \<not> ks_hung s"

text \<open>Only three states ask for another iteration, and a stopped stream is so at most once.\<close>

definition stream_rank :: "'e StreamObject \<Rightarrow> nat" where
  "stream_rank s =
     (let i = mf_current (ks_stateMachine s)
      in if i = 9 then 2 else if i \<in> {0, 6} then if ks_streamState s = STREAM_STATE_STOPPED then 3 else 1 else 4)"

text \<open>What a call leaves alone; the machine may have moved.\<close>

lemma frame_store: "stream_frame a b \<Longrightarrow> stream_frame a (store_machine m b)"
  by (simp add: stream_frame_def store_machine_def handles_def)

text \<open>The object after the callback of the old state, and after the hook.\<close>

lemma left_moves:
  assumes f: "mf_current (ks_stateMachine s) < 10" and r: "stream_from e (mf_current (ks_stateMachine s)) s = (st, n, s1)" and mv: "env_moves s1 s2"
    and cl: "client_ok s"
  shows "from_moves (mf_current (ks_stateMachine s)) s s1" "client_ok s2" "stream_frame s s2" "ks_hung s2 = ks_hung s"
    "ks_streamState s2 = (if mf_current (ks_stateMachine s) = 9 then STREAM_STATE_READY else ks_streamState s)"
    "ks_keepIteratingStateMachine s2 = ks_keepIteratingStateMachine s"
proof -
  show 1: "from_moves (mf_current (ks_stateMachine s)) s s1" using stream_from_next [OF f r] by blast
  note 2 = env_moves_frame [OF mv]
  have "client_ok s1" using 1 cl by (simp add: from_moves_def client_ok_def)
  then show "client_ok s2" using 2 by blast
  show "stream_frame s s2" using 1 2 stream_frame_trans unfolding from_moves_def by blast
  show "ks_hung s2 = ks_hung s" "ks_keepIteratingStateMachine s2 = ks_keepIteratingStateMachine s"
    "ks_streamState s2 = (if mf_current (ks_stateMachine s) = 9 then STREAM_STATE_READY else ks_streamState s)"
    using 1 2 by (simp_all add: from_moves_def)
qed

lemma env_moves_refl: "env_moves s s"
  by (rule env_moves_steps)

text \<open>The object after a transition, as the next one finds it.\<close>

definition step_good :: "'e StreamObject \<Rightarrow> STATUS \<Rightarrow> bool \<Rightarrow> MachineFields \<Rightarrow> 'e StreamObject \<Rightarrow> bool" where
  "step_good s st again g s' \<longleftrightarrow> \<not> again \<and> client_ok s' \<and> \<not> ks_hung s' \<and> stream_frame s s' \<and> mf_current g < 10 \<and>
     (st = STATUS_SUCCESS \<and> ks_keepIteratingStateMachine s' \<longrightarrow> stream_rank (s'\<lparr>ks_stateMachine := g\<rparr>) < stream_rank s)"

lemma entered_rank:
  assumes nx: "stream_next (mf_current (ks_stateMachine s)) s j" and j: "j \<in> {0, 6, 9}" "mf_current g = j"
    and ss: "j \<in> {0, 6} \<Longrightarrow> ks_streamState s' = (if mf_current (ks_stateMachine s) = 9 then STREAM_STATE_READY else ks_streamState s)"
  shows "stream_rank (s'\<lparr>ks_stateMachine := g\<rparr>) < stream_rank s"
proof (cases "j = 9")
  case True
  then have "stream_rank (s'\<lparr>ks_stateMachine := g\<rparr>) = 2" using j(2) by (simp add: stream_rank_def)
  then show ?thesis using nx True by (auto simp: stream_rank_def stream_next_def Let_def split: if_splits)
next
  case False
  then have "stream_rank (s'\<lparr>ks_stateMachine := g\<rparr>) = (if ks_streamState s' = STREAM_STATE_STOPPED then 3 else 1)"
    using j by (auto simp: stream_rank_def Let_def)
  then show ?thesis using nx False j(1) ss by (auto simp: stream_rank_def stream_next_def Let_def split: if_splits)
qed

lemma transition_good:
  assumes ok: "stream_ok s" and keep: "\<not> ks_keepIteratingStateMachine s"
    and step: "stepTransition (streamMachine e (ks_stateMachine s)) s = (st, again, m, s')"
  shows "step_good s st again (machineFields m) s'"
proof -
  let ?f = "ks_stateMachine s"
  have f: "mf_current ?f < 10" and hung: "\<not> ks_hung s" and cl: "client_ok s" using ok by (simp_all add: stream_ok_def)
  show ?thesis using f step
  proof (cases rule: stream_transition)
    case (refused n s1)
    show ?thesis using left_moves [OF f refused(3) env_moves_refl cl] refused(1,2,4,5) f hung by (simp add: step_good_def)
  next
    case (rejected n s1)
    show ?thesis using left_moves [OF f _ env_moves_refl cl, of e STATUS_SUCCESS n s1] rejected(1-5,7) f hung by (simp add: step_good_def)
  next
    case (exceeded n s1 r)
    show ?thesis using left_moves [OF f exceeded(3,4) cl] exceeded(1,2,6) stream_limits(3) [OF f, of e] f hung by (simp add: step_good_def)
  next
    case (entered n s1 s2 j t a r)
    note 2 = left_moves [OF f entered(1,5) cl]
    have 3: "\<not> a" "exec_moves j st s2 s'" using stream_exec_moves [OF 2(2) entered(3,6)] by auto
    have k: "j \<in> {0, 6, 9}" if "ks_keepIteratingStateMachine s'" using that 2(6) 3(2) keep unfolding exec_moves_def by blast
    have ss: "ks_streamState s' = (if mf_current ?f = 9 then STREAM_STATE_READY else ks_streamState s)" if "j \<in> {0, 6}"
      using that 2(5) 3(2) unfolding exec_moves_def by simp
    have fr: "stream_frame s s'" using 2(3) 3(2) stream_frame_trans unfolding exec_moves_def by blast
    have cur: "mf_current (machineFields m) = j" using entered(8) by simp
    have "stream_rank (s'\<lparr>ks_stateMachine := machineFields m\<rparr>) < stream_rank s" if "ks_keepIteratingStateMachine s'"
      by (rule entered_rank [OF entered(4) k [OF that] cur ss])
    moreover have "client_ok s'" "\<not> ks_hung s'" using 3(2) 2(4) hung by (simp_all add: exec_moves_def)
    ultimately show ?thesis using 3(1) fr cur entered(3,7) by (simp add: step_good_def)
  qed
qed

lemma step_moves:
  assumes ok: "stream_ok s"
  obtains st m s' where "stepLoop (streamMachine e (ks_stateMachine s)) (s\<lparr>ks_keepIteratingStateMachine := False\<rparr>) = Some (st, m, s')"
    "stream_ok (store_machine m s')" "stream_frame s (store_machine m s')"
    "st = STATUS_SUCCESS \<Longrightarrow> ks_keepIteratingStateMachine s' \<Longrightarrow> stream_rank (store_machine m s') < stream_rank s"
proof -
  let ?s0 = "s\<lparr>ks_keepIteratingStateMachine := False\<rparr>"
  obtain st again m s' where step: "stepTransition (streamMachine e (ks_stateMachine s)) ?s0 = (st, again, m, s')" by (metis prod_cases4)
  have good: "step_good ?s0 st again (machineFields m) s'"
    using transition_good [of ?s0 e] ok step by (simp add: stream_ok_def client_ok_def)
  have fr: "stream_frame s ?s0" by (simp add: stream_frame_def handles_def)
  have rk: "stream_rank ?s0 = stream_rank s" by (simp add: stream_rank_def)
  have st: "stepLoop (streamMachine e (ks_stateMachine s)) ?s0 = Some (st, m, s')" using step good by (subst stepLoop.simps) (simp add: step_good_def)
  have ok': "stream_ok (store_machine m s')" using good by (simp add: stream_ok_def store_machine_def client_ok_def step_good_def)
  have "stream_frame s s'" using fr good stream_frame_trans unfolding step_good_def by blast
  then show thesis using that [OF st ok' frame_store] good by (simp add: step_good_def rk store_machine_def)
qed

lemma iterate_returns:
  "stream_ok s \<Longrightarrow> \<exists>st s'. iterateStreamStateMachine e s = Some (st, s') \<and> stream_ok s' \<and> stream_frame s s'"
proof (induction "stream_rank s" arbitrary: s rule: less_induct)
  case less
  obtain st m s' where s: "stepLoop (streamMachine e (ks_stateMachine s)) (s\<lparr>ks_keepIteratingStateMachine := False\<rparr>) = Some (st, m, s')"
    "stream_ok (store_machine m s')" "stream_frame s (store_machine m s')"
    "st = STATUS_SUCCESS \<Longrightarrow> ks_keepIteratingStateMachine s' \<Longrightarrow> stream_rank (store_machine m s') < stream_rank s"
    by (rule step_moves [OF less.prems]) blast
  have h: "\<not> ks_hung (store_machine m s')" "ks_keepIteratingStateMachine (store_machine m s') = ks_keepIteratingStateMachine s'"
    using s(2) by (simp_all add: stream_ok_def store_machine_def)
  show ?case
  proof (cases "st = STATUS_SUCCESS \<and> ks_keepIteratingStateMachine s'")
    case True
    then obtain st' s'' where "iterateStreamStateMachine e (store_machine m s') = Some (st', s'')" "stream_ok s''" "stream_frame (store_machine m s') s''"
      using less.hyps [OF s(4) s(2)] by blast
    then show ?thesis using s(1,3) h True stream_frame_trans by (subst iterateStreamStateMachine.simps) (auto simp: Let_def)
  next
    case False
    then show ?thesis using s(1,2,3) h by (subst iterateStreamStateMachine.simps) (auto simp: Let_def)
  qed
qed

lemma available_frame: "stream_frame s s' \<Longrightarrow> getAvailableViewSize s' = getAvailableViewSize s"
proof -
  assume "stream_frame s s'"
  then have eqs: "ks_pView s' = ks_pView s" "ks_curViewItem s' = ks_curViewItem s" "ks_metadataTracker s' = ks_metadataTracker s"
    "ks_eosTracker s' = ks_eosTracker s" by (simp_all add: stream_frame_def)
  show ?thesis unfolding getAvailableViewSize_def eqs ..
qed

subsection \<open>The results of the service calls return\<close>

lemma lock_ok [simp]: "stream_ok (lockStream s) = stream_ok s" "stream_ok (unlockStream s) = stream_ok s"
  by (simp_all add: stream_ok_def client_ok_def lockStream_def unlockStream_def)

lemma stream_lock_fields [simp]:
  "ks_stateMachine (lockStream s) = ks_stateMachine s" "ks_stateMachine (unlockStream s) = ks_stateMachine s"
  "ks_pUploadInfoQueue (lockStream s) = ks_pUploadInfoQueue s" "ks_pUploadInfoQueue (unlockStream s) = ks_pUploadInfoQueue s"
  "ks_streamState (lockStream s) = ks_streamState s" "ks_streamState (unlockStream s) = ks_streamState s"
  "ks_result (lockStream s) = ks_result s" "ks_result (unlockStream s) = ks_result s"
  "ks_streamingEndpoint (lockStream s) = ks_streamingEndpoint s" "ks_streamingEndpoint (unlockStream s) = ks_streamingEndpoint s"
  "ks_freed (lockStream s) = ks_freed s" "ks_freed (unlockStream s) = ks_freed s"
  "kvs_lock (lockStream s) = Suc (kvs_lock s)" "kvs_lock (unlockStream s) = kvs_lock s - 1"
  "acceptsEntry e (lockStream s) i = acceptsEntry e s i"
  by (simp_all add: lockStream_def unlockStream_def acceptsEntry_def acceptStreamState_def split: prod.split option.split)

text \<open>What is known of an object that an event hands on.\<close>

definition event_ok :: "'e StreamObject \<Rightarrow> (STATUS \<times> 'e StreamObject) option \<Rightarrow> bool" where
  "event_ok s r \<longleftrightarrow> (\<exists>st s'. r = Some (st, s') \<and> stream_ok s' \<and> kvs_lock s' = kvs_lock s)"

lemma iterate_ok: "stream_ok s \<Longrightarrow> event_ok s (iterateStreamStateMachine e s)"
  using iterate_returns [of s e] by (auto simp: event_ok_def stream_frame_def)

lemma latency_ok: "stream_ok s \<Longrightarrow> stream_ok (snd (calculateCallLatency s)) \<and> kvs_lock (snd (calculateCallLatency s)) = kvs_lock s"
  by (auto simp: calculateCallLatency_def streamTime_def getCurrentTime_def stream_ok_def client_ok_def split: prod.splits)

lemma streamResultEvent_ok:
  assumes ok: "stream_ok s" and upd: "\<And>s. stream_ok s \<Longrightarrow> event_ok s (update s)"
    and fin: "\<And>st s. stream_ok s \<Longrightarrow> event_ok s (finish (st, s))"
  shows "event_ok s (streamResultEvent e st tol lat r update finish s)"
proof -
  let ?s = "lockStream s"
  define s1 where "s1 = (if lat then snd (calculateCallLatency ?s) else ?s)"
  have "stream_ok s1" "kvs_lock s1 = Suc (kvs_lock s)" using latency_ok [of ?s] ok by (simp_all add: s1_def)
  then have s1: "stream_ok (s1\<lparr>ks_result := r\<rparr>)" "kvs_lock (s1\<lparr>ks_result := r\<rparr>) = Suc (kvs_lock s)"
    by (simp_all add: stream_ok_def client_ok_def)
  obtain st2 s2 where s2: "update (s1\<lparr>ks_result := r\<rparr>) = Some (st2, s2)" "stream_ok s2" "kvs_lock s2 = Suc (kvs_lock s)"
    using upd [OF s1(1)] s1(2) by (auto simp: event_ok_def)
  obtain st3 s3 where s3: "iterateStreamStateMachine e s2 = Some (st3, s3)" "stream_ok s3" "kvs_lock s3 = Suc (kvs_lock s)"
    using iterate_ok [OF s2(2), of e] s2(3) by (auto simp: event_ok_def)
  obtain st4 s4 where s4: "finish (st3, s3) = Some (st4, s4)" "stream_ok s4" "kvs_lock s4 = Suc (kvs_lock s)"
    using fin [OF s3(2), of st3] s3(3) by (auto simp: event_ok_def)
  show ?thesis
    unfolding streamResultEvent_def Let_def s1_def [symmetric] event_ok_def using ok s2 s3 s4 by simp
qed

lemma updates_ok:
  "stream_ok s \<Longrightarrow> (\<And>d. pDesc = Some d \<Longrightarrow> sd_version d \<le> STREAM_DESCRIPTION_CURRENT_VERSION) \<Longrightarrow> event_ok s (storeDescription r pDesc s)"
  "stream_ok s \<Longrightarrow> event_ok s (storeStreamArn r arn s)"
  "stream_ok s \<Longrightarrow> event_ok s (storeEndpoint r ep s)"
  "stream_ok s \<Longrightarrow> event_ok s (storeStreamingToken e r tok n ex s)"
  "stream_ok s \<Longrightarrow> event_ok s (enqueueUpload r h malloc node s)"
proof -
  show "stream_ok s \<Longrightarrow> (\<And>d. pDesc = Some d \<Longrightarrow> sd_version d \<le> STREAM_DESCRIPTION_CURRENT_VERSION) \<Longrightarrow> event_ok s (storeDescription r pDesc s)"
    by (auto simp: storeDescription_def event_ok_def stream_ok_def client_ok_def Let_def not_le split: option.splits)
  show "stream_ok s \<Longrightarrow> event_ok s (storeStreamArn r arn s)"
    by (auto simp: storeStreamArn_def event_ok_def stream_ok_def client_ok_def split: option.splits)
  show "stream_ok s \<Longrightarrow> event_ok s (storeEndpoint r ep s)"
    by (auto simp: storeEndpoint_def event_ok_def stream_ok_def client_ok_def)
  show "stream_ok s \<Longrightarrow> event_ok s (enqueueUpload r h malloc node s)"
    by (auto simp: enqueueUpload_def event_ok_def stream_ok_def client_ok_def streamTime_def getCurrentTime_def count_def Let_def split: prod.splits)
  show "stream_ok s \<Longrightarrow> event_ok s (storeStreamingToken e r tok n ex s)"
    by (auto simp: storeStreamingToken_def event_ok_def stream_ok_def client_ok_def streamTime_def getCurrentTime_def randomizeAuthInfoExpiration_def Let_def
        split: prod.splits option.splits)
qed

lemma tag_ok:
  assumes "env_errorReport e \<noteq> None" "stream_ok s"
  shows "event_ok s (overrideTagFailure e (st, s))"
proof -
  let ?s = "(call (streamErrorReportFn INVALID_UPLOAD_HANDLE_VALUE INVALID_TIMESTAMP_VALUE STATUS_TAG_STREAM_CALL_FAILED) s)\<lparr>ks_result := SERVICE_CALL_RESULT_OK\<rparr>"
  have "stream_ok ?s" "kvs_lock ?s = kvs_lock s" using assms(2) by (simp_all add: stream_ok_def client_ok_def call_def)
  then have "event_ok s (iterateStreamStateMachine e ?s)" using iterate_ok [of ?s e] by (simp add: event_ok_def)
  then show ?thesis using assms by (auto simp: overrideTagFailure_def event_ok_def)
qed

lemma results_ok:
  assumes ok: "stream_ok s"
  shows "(\<And>d. pDesc = Some d \<Longrightarrow> sd_version d \<le> STREAM_DESCRIPTION_CURRENT_VERSION) \<Longrightarrow> event_ok s (describeStreamResult e r pDesc s)"
    "event_ok s (createStreamResult e r arn s)" "event_ok s (getStreamingEndpointResult e r ep s)"
    "event_ok s (getStreamingTokenResult e r tok n ex s)" "event_ok s (putStreamResult e r h malloc node s)"
    "env_errorReport e \<noteq> None \<Longrightarrow> event_ok s (tagStreamResult e r s)"
proof -
  have some: "stream_ok s \<Longrightarrow> event_ok s (Some (st, s))" for st and s :: "'a StreamObject" by (simp add: event_ok_def)
  show "(\<And>d. pDesc = Some d \<Longrightarrow> sd_version d \<le> STREAM_DESCRIPTION_CURRENT_VERSION) \<Longrightarrow> event_ok s (describeStreamResult e r pDesc s)"
    unfolding describeStreamResult_def by (rule streamResultEvent_ok [OF ok updates_ok(1) some])
  show "event_ok s (createStreamResult e r arn s)" unfolding createStreamResult_def by (rule streamResultEvent_ok [OF ok updates_ok(2) some])
  show "event_ok s (getStreamingEndpointResult e r ep s)"
    unfolding getStreamingEndpointResult_def by (rule streamResultEvent_ok [OF ok updates_ok(3) some])
  show "event_ok s (getStreamingTokenResult e r tok n ex s)"
    unfolding getStreamingTokenResult_def by (rule streamResultEvent_ok [OF ok updates_ok(4) some])
  have free: "stream_ok s \<Longrightarrow> event_ok s (freeUpload r h (st, s))" for st and s :: "'a StreamObject"
    by (simp add: freeUpload_def event_ok_def stream_ok_def client_ok_def)
  show "event_ok s (putStreamResult e r h malloc node s)"
    unfolding putStreamResult_def by (rule streamResultEvent_ok [OF ok updates_ok(5) free])
  show "event_ok s (tagStreamResult e r s)" if "env_errorReport e \<noteq> None"
    unfolding tagStreamResult_def by (rule streamResultEvent_ok [OF ok some tag_ok [OF that]])
qed

end
