(* ===== verification/StreamAckProps.thy ===== *)
theory StreamAckProps
  imports StreamAck AckSegments StreamStateProps
begin

text \<open>
  Properties of the ACK handling: which items a persisted ACK removes from the view and where the current item is afterwards, what an error ACK marks and
  from where the stream is sent again, and how the text of an ACK reaches the view through the parser.
\<close>

subsection \<open>Flags and the invariant of the view\<close>

definition with_flag :: "UINT32 \<Rightarrow> ViewItem \<Rightarrow> ViewItem" where
  "with_flag f it = it\<lparr>vi_flags := vi_flags it OR f\<rparr>"

lemma with_flag_sel [simp]:
  "vi_index (with_flag f it) = vi_index it" "vi_timestamp (with_flag f it) = vi_timestamp it" "vi_ackTimestamp (with_flag f it) = vi_ackTimestamp it"
  "vi_duration (with_flag f it) = vi_duration it" "vi_flags (with_flag f it) = vi_flags it OR f"
  by (simp_all add: with_flag_def)

lemma set_flag_fields [simp]:
  "cv_itemBufferCount (set_flag f p v) = cv_itemBufferCount v" "length (cv_itemBuffer (set_flag f p v)) = length (cv_itemBuffer v)"
  "cv_removeCallbackFunc (set_flag f p v) = cv_removeCallbackFunc v" "cv_customData (set_flag f p v) = cv_customData v"
  "GET_VIEW_ITEM_FROM_INDEX (set_flag f p v) i = GET_VIEW_ITEM_FROM_INDEX v i"
  by (simp_all add: set_flag_def GET_VIEW_ITEM_FROM_INDEX_def)

lemma item_at_set_flag:
  assumes "view_wf v"
  shows "item_at (set_flag f (GET_VIEW_ITEM_FROM_INDEX v k) v) i =
    (if GET_VIEW_ITEM_FROM_INDEX v i = GET_VIEW_ITEM_FROM_INDEX v k then with_flag f (item_at v i) else item_at v i)"
  using slot_less [OF assms, of k] by (auto simp: item_at_def set_flag_def with_flag_def flags_def GET_VIEW_ITEM_FROM_INDEX_def)

text \<open>Within the window two indices with the same slot are the same.\<close>

lemma slot_window:
  assumes "view_inv v" "cv_tail v \<le> i" "i < cv_head v" "cv_tail v \<le> k" "k < cv_head v"
  shows "GET_VIEW_ITEM_FROM_INDEX v i = GET_VIEW_ITEM_FROM_INDEX v k \<longleftrightarrow> i = k"
  using slot_inj [of v i k "cv_tail v" "unat (cv_head v)"] assms by (auto simp: view_inv_def word_le_nat_alt word_less_nat_alt)

lemma set_flag_inv:
  assumes "view_inv v"
  shows "view_inv (set_flag f (GET_VIEW_ITEM_FROM_INDEX v k) v)"
proof -
  have wf: "view_wf v" using assms by (simp add: view_inv_def)
  note item_at_set_flag [OF wf, simp]
  have "view_wf (set_flag f (GET_VIEW_ITEM_FROM_INDEX v k) v)" using wf by (simp add: view_wf_def)
  then show ?thesis using assms by (simp add: view_inv_def live_def)
qed

lemma set_flag_at:
  assumes "view_inv v" "cv_tail v \<le> k" "k < cv_head v" "cv_tail v \<le> i" "i < cv_head v"
  shows "item_at (set_flag f (GET_VIEW_ITEM_FROM_INDEX v k) v) i = (if i = k then with_flag f (item_at v i) else item_at v i)"
proof -
  have "view_wf v" using assms(1) by (simp add: view_inv_def)
  from item_at_set_flag [OF this, of f k i] show ?thesis unfolding slot_window [OF assms(1,4,5,2,3)] .
qed

lemma view_inv_item: "view_inv v \<Longrightarrow> cv_tail v \<le> k \<Longrightarrow> k < cv_head v \<Longrightarrow> vi_index (item_at v k) = k"
  by (simp add: view_inv_def live_def word_le_nat_alt word_less_nat_alt)

lemma item_slot: "cv_itemBuffer v ! GET_VIEW_ITEM_FROM_INDEX v k = item_at v k" "flags v (GET_VIEW_ITEM_FROM_INDEX v k) = vi_flags (item_at v k)"
  by (simp_all add: item_at_def flags_def)

subsection \<open>Finding the next boundary\<close>

definition skipped :: "ViewItem \<Rightarrow> bool" where "skipped it \<longleftrightarrow> CHECK_ITEM_SKIP_ITEM (vi_flags it)"
definition boundary :: "ViewItem \<Rightarrow> bool" where
  "boundary it \<longleftrightarrow> CHECK_ITEM_FRAGMENT_START (vi_flags it) \<or> CHECK_ITEM_FRAGMENT_END (vi_flags it)"
definition persisted_start :: "ViewItem \<Rightarrow> bool" where
  "persisted_start it \<longleftrightarrow> CHECK_ITEM_FRAGMENT_START (vi_flags it) \<and> CHECK_ITEM_PERSISTED_ACK (vi_flags it)"

text \<open>The first index at or after \<open>c\<close>, before the head, whose item satisfies a predicate.\<close>

definition first_at :: "(ViewItem \<Rightarrow> bool) \<Rightarrow> RollingContentView \<Rightarrow> UINT64 \<Rightarrow> UINT64 option" where
  "first_at P v c = map_option of_nat (find (\<lambda>k. P (item_at v (of_nat k))) [unat c..<unat (cv_head v)])"

lemma first_at_rec:
  "first_at P v c = (if c < cv_head v then if P (item_at v c) then Some c else first_at P v (c + 1) else None)"
proof (cases "c < cv_head v")
  case True
  then have "[unat c..<unat (cv_head v)] = unat c # [unat (c + 1)..<unat (cv_head v)]" by (simp add: unat_Suc_less upt_conv_Cons word_less_nat_alt)
  then show ?thesis using True by (simp add: first_at_def)
qed (simp add: first_at_def word_less_nat_alt)

lemma first_at_cong [simp]: "first_at P (v\<lparr>cv_current := x\<rparr>) c = first_at P v c"
  by (simp add: first_at_def)

lemma first_at_Some:
  assumes "first_at P v c = Some k"
  shows "c \<le> k" "k < cv_head v" "P (item_at v k)" "\<And>j. c \<le> j \<Longrightarrow> j < k \<Longrightarrow> \<not> P (item_at v j)"
proof -
  obtain n where n: "find (\<lambda>k. P (item_at v (of_nat k))) [unat c..<unat (cv_head v)] = Some n" "k = of_nat n"
    using assms by (auto simp: first_at_def)
  obtain j where j: "j < unat (cv_head v) - unat c" "n = unat c + j" "P (item_at v k)" "\<And>i. i < j \<Longrightarrow> \<not> P (item_at v (of_nat (unat c + i)))"
    using n by (auto simp: find_Some_iff)
  have "n < unat (cv_head v)" using j(1,2) by simp
  then have u: "unat k = n" unfolding n(2) by (rule unat_of_nat_below)
  show "c \<le> k" "k < cv_head v" "P (item_at v k)" using j u by (auto simp: word_le_nat_alt word_less_nat_alt)
  show "\<not> P (item_at v i)" if "c \<le> i" "i < k" for i
    using j(4) [of "unat i - unat c"] that u j(2) by (auto simp: word_le_nat_alt word_less_nat_alt)
qed

lemma first_at_None:
  assumes "first_at P v c = None" "c \<le> j" "j < cv_head v"
  shows "\<not> P (item_at v j)"
proof -
  have "unat j \<in> set [unat c..<unat (cv_head v)]" using assms(2,3) by (simp add: word_le_nat_alt word_less_nat_alt)
  moreover have "\<forall>k\<in>set [unat c..<unat (cv_head v)]. \<not> P (item_at v (of_nat k))" using assms(1) unfolding first_at_def by (auto simp: find_None_iff)
  ultimately show ?thesis by fastforce
qed

lemma first_atI:
  assumes "c \<le> k" "k < cv_head v" "P (item_at v k)" "\<And>j. c \<le> j \<Longrightarrow> j < k \<Longrightarrow> \<not> P (item_at v j)"
  shows "first_at P v c = Some k"
proof (cases "first_at P v c")
  case None
  then show ?thesis using first_at_None [OF None assms(1,2)] assms(3) by simp
next
  case (Some j)
  note j = first_at_Some [OF Some]
  have "j = k" using j(3) j(4) [OF assms(1)] assms(3) assms(4) [OF j(1)] by (meson linorder_neqE)
  then show ?thesis using Some by simp
qed

lemma first_at_conj:
  "first_at (\<lambda>it. P it \<and> Q it) v c =
    (case first_at P v c of None \<Rightarrow> None | Some k \<Rightarrow> if Q (item_at v k) then Some k else first_at (\<lambda>it. P it \<and> Q it) v (k + 1))"
proof (induction "unat (cv_head v) - unat c" arbitrary: c)
  case 0
  then show ?case by (simp add: first_at_rec [of _ v c] word_less_nat_alt)
next
  case (Suc n)
  then have lt: "c < cv_head v" by (simp add: word_less_nat_alt)
  then have "n = unat (cv_head v) - unat (c + 1)" using Suc.hyps(2) unat_Suc_less [OF lt] by simp
  from Suc.hyps(1) [OF this] show ?case
    by (subst first_at_rec, subst (2) first_at_rec) (auto simp: lt first_at_rec [of "\<lambda>it. P it \<and> Q it" v c])
qed

lemma first_at_conj_None: "first_at P v c = None \<Longrightarrow> first_at (\<lambda>it. P it \<and> Q it) v c = None"
  by (subst first_at_conj) simp

text \<open>The result of a search that advances the current item behind what it finds.\<close>

definition found :: "RollingContentView \<Rightarrow> UINT64 option \<Rightarrow> STATUS \<times> RollingContentView \<times> nat option" where
  "found v k = (case k of None \<Rightarrow> (STATUS_CONTENT_VIEW_NO_MORE_ITEMS, v\<lparr>cv_current := cv_head v\<rparr>, None)
     | Some k \<Rightarrow> (STATUS_SUCCESS, v\<lparr>cv_current := k + 1\<rparr>, Some (GET_VIEW_ITEM_FROM_INDEX v k)))"

lemma getNext_at:
  assumes "view_inv v"
  shows "contentViewGetNext (Some v) True = (if cv_current v < cv_head v
    then (STATUS_SUCCESS, Some (v\<lparr>cv_current := cv_current v + 1\<rparr>), Some (GET_VIEW_ITEM_FROM_INDEX v (cv_current v)))
    else (STATUS_CONTENT_VIEW_NO_MORE_ITEMS, Some v, None))"
  using assms by (auto simp: view_inv_def)

lemma view_inv_advance:
  assumes "view_inv v" "cv_tail v \<le> k" "k < cv_head v"
  shows "view_inv (v\<lparr>cv_current := k + 1\<rparr>)" "cv_tail v \<le> k + 1"
proof -
  show "cv_tail v \<le> k + 1" using assms(2) word_inc_le [OF assms(3)] by simp
  then show "view_inv (v\<lparr>cv_current := k + 1\<rparr>)" using assms word_inc_le [OF assms(3)] by (simp add: view_inv_set_current)
qed

lemma view_current_le: "view_inv v \<Longrightarrow> cv_tail v \<le> cv_current v \<and> cv_current v \<le> cv_head v"
  by (simp add: view_inv_def)

lemma failed_no_more [simp]: "STATUS_FAILED STATUS_CONTENT_VIEW_NO_MORE_ITEMS" "STATUS_FAILED STATUS_CONTENT_VIEW_INVALID_INDEX"
  by (simp_all add: STATUS_FAILED_def)

lemma found_cong [simp]: "found (v\<lparr>cv_current := c\<rparr>) k = found v k"
  by (cases k) (simp_all add: found_def)

lemma getNextViewItem_found:
  "view_inv v \<Longrightarrow> getNextViewItem v = found v (first_at (\<lambda>it. \<not> skipped it) v (cv_current v))"
proof (induction v rule: getNextViewItem.induct)
  case (1 v)
  note g = getNext_at [OF "1.prems"]
  show ?case
  proof (cases "cv_current v < cv_head v")
    case False
    then have "cv_current v = cv_head v" using view_current_le [OF "1.prems"] by simp
    then have "v\<lparr>cv_current := cv_head v\<rparr> = v" by (cases v) simp
    then show ?thesis using False g by (subst getNextViewItem.simps, subst first_at_rec) (simp add: found_def del: contentViewGetNext.simps)
  next
    case True
    have inv: "view_inv (v\<lparr>cv_current := cv_current v + 1\<rparr>)" using view_inv_advance(1) [OF "1.prems" _ True] view_current_le [OF "1.prems"] by simp
    have fl: "CHECK_ITEM_SKIP_ITEM (flags (v\<lparr>cv_current := cv_current v + 1\<rparr>) (GET_VIEW_ITEM_FROM_INDEX v (cv_current v))) = skipped (item_at v (cv_current v))"
      by (simp add: flags_def skipped_def item_at_def)
    show ?thesis
    proof (cases "skipped (item_at v (cv_current v))")
      case False
      then show ?thesis using g True fl by (subst getNextViewItem.simps, subst first_at_rec) (simp add: found_def del: contentViewGetNext.simps)
    next
      case sk: True
      from g True have s: "contentViewGetNext (Some v) True =
        (STATUS_SUCCESS, Some (v\<lparr>cv_current := cv_current v + 1\<rparr>), Some (GET_VIEW_ITEM_FROM_INDEX v (cv_current v)))" by simp
      have "getNextViewItem (v\<lparr>cv_current := cv_current v + 1\<rparr>) =
          found v (first_at (\<lambda>it. \<not> skipped it) v (cv_current v + 1))"
        using "1.IH" [OF s [symmetric] refl] inv sk fl by (simp add: STATUS_FAILED_def)
      then show ?thesis using s True fl sk by (subst getNextViewItem.simps, subst first_at_rec) (simp del: contentViewGetNext.simps)
    qed
  qed
qed

text \<open>Where the view is after a successful search.\<close>

lemma found_Some:
  assumes "view_inv v" "first_at P v (cv_current v) = Some k"
  shows "view_inv (v\<lparr>cv_current := k + 1\<rparr>)" "k < cv_head v" "cv_tail v \<le> k"
proof -
  show k: "k < cv_head v" "cv_tail v \<le> k" using first_at_Some(1,2) [OF assms(2)] view_current_le [OF assms(1)] by auto
  show "view_inv (v\<lparr>cv_current := k + 1\<rparr>)" by (rule view_inv_advance(1) [OF assms(1) k(2,1)])
qed

text \<open>A search that calls another one until a condition holds finds the first item with both properties.\<close>

lemma search_refines:
  fixes step :: "RollingContentView \<Rightarrow> STATUS \<times> RollingContentView \<times> nat option"
  assumes step: "\<And>v. view_inv v \<Longrightarrow> step v = found v (first_at P v (cv_current v))"
    and rec: "\<And>v. search v = (case step v of (st, v', p) \<Rightarrow> if STATUS_FAILED st then (st, v', None) else if Q (cv_itemBuffer v' ! the p) then (STATUS_SUCCESS, v', p) else search v')"
    and inv: "view_inv v"
  shows "search v = found v (first_at (\<lambda>it. P it \<and> Q it) v (cv_current v))"
  using inv
proof (induction "unat (cv_head v) - unat (cv_current v)" arbitrary: v rule: less_induct)
  case less
  show ?case
  proof (cases "first_at P v (cv_current v)")
    case None
    then show ?thesis using step [OF less.prems] rec [of v] by (simp add: found_def first_at_conj_None)
  next
    case (Some k)
    note k = found_Some [OF less.prems Some]
    have it: "cv_itemBuffer (v\<lparr>cv_current := k + 1\<rparr>) ! GET_VIEW_ITEM_FROM_INDEX v k = item_at v k" by (simp add: item_at_def)
    have "unat (cv_head v) - unat (k + 1) < unat (cv_head v) - unat (cv_current v)"
      using unat_Suc_less [OF k(2)] first_at_Some(1,2) [OF Some] by (simp add: word_le_nat_alt word_less_nat_alt)
    then have "search (v\<lparr>cv_current := k + 1\<rparr>) = found v (first_at (\<lambda>it. P it \<and> Q it) v (k + 1))"
      using less.hyps [of "v\<lparr>cv_current := k + 1\<rparr>"] k(1) by simp
    then show ?thesis using step [OF less.prems] rec [of v] it by (subst first_at_conj) (simp add: Some found_def STATUS_FAILED_def)
  qed
qed

lemma getNextBoundary_status: "getNextBoundaryViewItem v = (st, v', p) \<Longrightarrow> (STATUS_FAILED st \<longrightarrow> p = None) \<and> (\<not> STATUS_FAILED st \<longrightarrow> st = STATUS_SUCCESS)"
  by (induction v arbitrary: st v' p rule: getNextBoundaryViewItem.induct)
    (subst (asm) (2) getNextBoundaryViewItem.simps, auto split: prod.splits if_splits)

lemma getNextBoundary_found:
  assumes "view_inv v"
  shows "getNextBoundaryViewItem v = found v (first_at (\<lambda>it. \<not> skipped it \<and> boundary it) v (cv_current v))"
  by (rule search_refines [where step = getNextViewItem, OF getNextViewItem_found _ assms])
    (simp, subst getNextBoundaryViewItem.simps, auto simp: boundary_def flags_def split: prod.split)

text \<open>The boundary up to which a persisted ACK trims.\<close>

definition unacked_boundary :: "ViewItem \<Rightarrow> bool" where
  "unacked_boundary it \<longleftrightarrow> (\<not> skipped it \<and> boundary it) \<and> \<not> persisted_start it"

lemma nextUnpersisted_found:
  assumes "view_inv v"
  shows "nextUnpersisted v = found v (first_at unacked_boundary v (cv_current v))"
proof -
  have "nextUnpersisted v = found v (first_at (\<lambda>it. (\<not> skipped it \<and> boundary it) \<and> \<not> persisted_start it) v (cv_current v))"
  proof (rule search_refines [where step = getNextBoundaryViewItem, OF getNextBoundary_found _ assms])
    fix v
    obtain st v' p where g: "getNextBoundaryViewItem v = (st, v', p)" by (cases "getNextBoundaryViewItem v") auto
    then show "nextUnpersisted v = (case getNextBoundaryViewItem v of (st, v', p) \<Rightarrow> if STATUS_FAILED st then (st, v', None)
      else if \<not> persisted_start (cv_itemBuffer v' ! the p) then (STATUS_SUCCESS, v', p) else nextUnpersisted v')"
      using getNextBoundary_status [OF g] by (subst nextUnpersisted.simps) (auto simp: persisted_start_def flags_def)
  qed simp
  moreover have "unacked_boundary = (\<lambda>it. (\<not> skipped it \<and> boundary it) \<and> \<not> persisted_start it)" by (rule ext) (simp add: unacked_boundary_def)
  ultimately show ?thesis by simp
qed

subsection \<open>A persisted ACK\<close>

lemma record_cong [simp]:
  "ks_pView (count f s) = ks_pView s" "ks_removed (count f s) = ks_removed s" "ks_pUploadInfoQueue (count f s) = ks_pUploadInfoQueue s"
  "ks_pView (update_upload i g s) = ks_pView s" "ks_removed (update_upload i g s) = ks_removed s"
  "ks_pView (call c s) = ks_pView s" "ks_removed (call c s) = ks_removed s" "ks_pUploadInfoQueue (call c s) = ks_pUploadInfoQueue s"
  "ks_pView (set_view v s) = v" "ks_removed (set_view v s) = ks_removed s" "ks_pUploadInfoQueue (set_view v s) = ks_pUploadInfoQueue s"
  "upload (set_view v s) i = upload s i" "upload (count f s) i = upload s i"
  "kvs_lock (count f s) = kvs_lock s" "kvs_lock (update_upload i g s) = kvs_lock s" "kvs_lock (call c s) = kvs_lock s" "kvs_lock (set_view v s) = kvs_lock s"
  "ks_pView (snd (broadcast s)) = ks_pView s" "ks_removed (snd (broadcast s)) = ks_removed s"
  by (simp_all add: count_def update_upload_def call_def set_view_def upload_def broadcast_def set_env_def split: prod.split)

lemma earlierReady_update:
  assumes "\<And>u. uh_handle (f u) = uh_handle u" "\<And>u. uh_state (f u) = uh_state u" "i < length q" "q ! i \<noteq> None"
  shows "earlierReady h (q[i := Some (f (the (q ! i)))]) = earlierReady h q"
  using assms(3,4)
proof (induction q arbitrary: i)
  case (Cons u q)
  then show ?case using assms(1,2) by (cases i; cases u) (auto simp: IS_UPLOAD_HANDLE_READY_TO_TRIM_def IS_UPLOAD_HANDLE_IN_STATE_def)
qed simp

lemma getAvailableViewSize_ok: "\<exists>d n. getAvailableViewSize s = (STATUS_SUCCESS, d, n)"
  by (auto simp: getAvailableViewSize_def contentViewGetWindowDuration_def contentViewGetWindowAllocationSize_def written_def STATUS_FAILED_def
      Let_def split: prod.splits)

lemma notifyAwaiting_ok:
  assumes "\<And>s h. env_dataAvailable e s h = STATUS_SUCCESS"
  obtains s' where "notifyAwaiting e i ts st s = (st, True, s')" "ks_pView s' = ks_pView s" "ks_removed s' = ks_removed s"
proof -
  obtain d n where "getAvailableViewSize (update_upload i (uh_state_update (\<lambda>_. UPLOAD_HANDLE_STATE_ACK_RECEIVED)) s) = (STATUS_SUCCESS, d, n)"
    using getAvailableViewSize_ok by blast
  then show thesis using that assms by (cases "WAIT_FOR_PERSISTED_ACK s \<and> uh_state (upload s i) = UPLOAD_HANDLE_STATE_AWAITING_ACK \<and> ts = uh_lastFragmentTs (upload s i)")
    (simp_all add: notifyAwaiting_def STATUS_FAILED_def Let_def)
qed

text \<open>The end of the range that is trimmed when \<open>b\<close> is the boundary found: the end of a fragment is trimmed too.\<close>

definition trim_target :: "RollingContentView \<Rightarrow> UINT64 \<Rightarrow> UINT64" where
  "trim_target v b = (if CHECK_ITEM_FRAGMENT_END (vi_flags (item_at v b)) then b + 1 else b)"

text \<open>The view and the notifications after the ACK of the item \<open>k\<close>.\<close>

definition after_persisted :: "UINT64 \<Rightarrow> RollingContentView \<Rightarrow> notification list \<Rightarrow> RollingContentView \<times> notification list" where
  "after_persisted k v removed =
     (let w = SET_ITEM_PERSISTED_ACK (GET_VIEW_ITEM_FROM_INDEX v k) v
      in case first_at unacked_boundary w (k + 1) of
           None \<Rightarrow> (w, removed)
         | Some b \<Rightarrow>
             let t = trim_target w b
             in (w\<lparr>cv_tail := t, cv_current := if t \<le> cv_current w then cv_current w else b + 1\<rparr>,
                 removed @ evictedNotes (w\<lparr>cv_current := b + 1\<rparr>) (cv_tail w) t))"

lemma trimPersisted_found:
  assumes inv: "view_inv (ks_pView s)" and app: "\<And>s h. env_dataAvailable e s h = STATUS_SUCCESS"
    and find: "first_at unacked_boundary (ks_pView s) (cv_current (ks_pView s)) = r"
  shows "\<exists>s'. trimPersisted e i ts s = (STATUS_SUCCESS, s') \<and>
    (ks_pView s', ks_removed s') = (case r of None \<Rightarrow> ((ks_pView s)\<lparr>cv_current := cv_head (ks_pView s)\<rparr>, ks_removed s)
      | Some b \<Rightarrow> let t = trim_target (ks_pView s) b
          in ((ks_pView s)\<lparr>cv_tail := t, cv_current := b + 1\<rparr>, ks_removed s @ evictedNotes ((ks_pView s)\<lparr>cv_current := b + 1\<rparr>) (cv_tail (ks_pView s)) t))"
proof (cases r)
  case None
  obtain s1 where s1: "notifyAwaiting e i ts STATUS_CONTENT_VIEW_NO_MORE_ITEMS (set_view ((ks_pView s)\<lparr>cv_current := cv_head (ks_pView s)\<rparr>) s) =
      (STATUS_CONTENT_VIEW_NO_MORE_ITEMS, True, s1)"
    "ks_pView s1 = (ks_pView s)\<lparr>cv_current := cv_head (ks_pView s)\<rparr>" "ks_removed s1 = ks_removed s"
    by (rule notifyAwaiting_ok [where i = i and ts = ts and st = STATUS_CONTENT_VIEW_NO_MORE_ITEMS
        and s = "set_view ((ks_pView s)\<lparr>cv_current := cv_head (ks_pView s)\<rparr>) s", OF app]) auto
  then show ?thesis using find None by (simp add: trimPersisted_def nextUnpersisted_found [OF inv] found_def Let_def)
next
  case (Some b)
  let ?v = "ks_pView s" let ?w = "?v\<lparr>cv_current := b + 1\<rparr>" let ?t = "trim_target ?v b"
  note b = found_Some [OF inv find [unfolded Some]]
  note inc = word_inc_le [OF b(2)]
  obtain s1 where s1: "notifyAwaiting e i ts STATUS_SUCCESS (set_view ?w s) = (STATUS_SUCCESS, True, s1)" "ks_pView s1 = ?w" "ks_removed s1 = ks_removed s"
    by (rule notifyAwaiting_ok [where i = i and ts = ts and st = STATUS_SUCCESS and s = "set_view ?w s", OF app]) auto
  have idx: "vi_index (item_at ?v b) = b" by (rule view_inv_item [OF inv b(3,2)])
  have t: "cv_tail ?w \<le> ?t" "?t \<le> cv_head ?w" "max (b + 1) ?t = b + 1"
    using b(2,3) inc by (auto simp: trim_target_def max_def)
  have trim: "contentViewTrimTail (Some ?w) ?t = (STATUS_SUCCESS, Some (?w\<lparr>cv_tail := ?t, cv_current := b + 1\<rparr>), evictedNotes ?w (cv_tail ?w) ?t)"
    using evictTailUntil_spec [of ?w ?t] b(1) t by (simp add: view_inv_def)
  show ?thesis
    using find s1 trim idx unfolding Some trimPersisted_def nextUnpersisted_found [OF inv] found_def option.case prod.case
    by (cases "CHECK_ITEM_FRAGMENT_END (vi_flags (item_at ?v b))")
      (simp_all add: trim_target_def item_slot STATUS_FAILED_def Let_def del: contentViewTrimTail.simps)
qed

lemma item_found:
  assumes "view_inv v" "unat (cv_head v) \<le> 2 ^ 63" "contiguous True v" "in_range True v ts"
  obtains k where "contentViewGetItemWithTimestamp (Some v) ts True True = Some (STATUS_SUCCESS, Some (GET_VIEW_ITEM_FROM_INDEX v k))"
    "cv_tail v \<le> k" "k < cv_head v" "covers True (item_at v k) ts"
  using item_with_timestamp [OF assms(1,2,4)] contiguous_no_gap [OF assms(3)] by metis

lemma update_upload_queue:
  "ks_pUploadInfoQueue (update_upload i f s) = (ks_pUploadInfoQueue s)[i := Some (f (the (ks_pUploadInfoQueue s ! i)))]"
  by (simp add: update_upload_def upload_def)

lemma upload_update: "i < length (ks_pUploadInfoQueue s) \<Longrightarrow> upload (update_upload i f s) i = f (upload s i)"
  by (simp add: upload_def update_upload_queue)

lemma set_current_in: "cv_tail v \<le> c \<Longrightarrow> c \<le> cv_head v \<Longrightarrow> contentViewSetCurrentIndex (Some v) c = (STATUS_SUCCESS, Some (v\<lparr>cv_current := c\<rparr>))"
  by simp

text \<open>Setting the current item back after the trim.\<close>

lemma restore_current:
  assumes inv: "view_inv w" and c: "cv_tail w \<le> k" "k < cv_head w"
    and find: "first_at unacked_boundary w (k + 1) = r"
    and s': "(ks_pView s', rem) = (case r of None \<Rightarrow> (w\<lparr>cv_current := cv_head w\<rparr>, removed)
      | Some b \<Rightarrow> let t = trim_target w b in (w\<lparr>cv_tail := t, cv_current := b + 1\<rparr>, removed @ evictedNotes (w\<lparr>cv_current := b + 1\<rparr>) (cv_tail w) t))"
  shows "(the (snd (contentViewSetCurrentIndex (Some (ks_pView s')) (cv_current w))), rem) =
    (case r of None \<Rightarrow> (w, removed)
      | Some b \<Rightarrow> let t = trim_target w b in (w\<lparr>cv_tail := t, cv_current := if t \<le> cv_current w then cv_current w else b + 1\<rparr>,
          removed @ evictedNotes (w\<lparr>cv_current := b + 1\<rparr>) (cv_tail w) t))"
proof -
  have le: "cv_tail w \<le> cv_current w" "cv_current w \<le> cv_head w" using view_current_le [OF inv] by simp_all
  have w: "w\<lparr>cv_current := cv_current w\<rparr> = w" by (cases w) simp
  show ?thesis using s' le w by (cases r) (auto simp: Let_def)
qed

lemma persisted_trims:
  assumes inv: "view_inv (ks_pView s)" "unat (cv_head (ks_pView s)) \<le> 2 ^ 63" "contiguous True (ks_pView s)" "in_range True (ks_pView s) ts"
    and i: "i < length (ks_pUploadInfoQueue s)" "ks_pUploadInfoQueue s ! i \<noteq> None"
    and ready: "snd (earlierReady (uh_handle (upload s i)) (ks_pUploadInfoQueue s))"
    and app: "\<And>s h. env_dataAvailable e s h = STATUS_SUCCESS"
  shows "\<exists>k s'. streamFragmentPersistedAck e s ts i = Some (STATUS_SUCCESS, s') \<and>
    cv_tail (ks_pView s) \<le> k \<and> k < cv_head (ks_pView s) \<and> covers True (item_at (ks_pView s) k) ts \<and>
    (ks_pView s', ks_removed s') = after_persisted k (ks_pView s) (ks_removed s)"
proof -
  let ?v = "ks_pView s"
  obtain k where k: "contentViewGetItemWithTimestamp (Some ?v) ts True True = Some (STATUS_SUCCESS, Some (GET_VIEW_ITEM_FROM_INDEX ?v k))"
    "cv_tail ?v \<le> k" "k < cv_head ?v" "covers True (item_at ?v k) ts"
    by (rule item_found [OF inv])
  define w where "w = SET_ITEM_PERSISTED_ACK (GET_VIEW_ITEM_FROM_INDEX ?v k) ?v"
  have w: "view_inv w" "cv_tail w = cv_tail ?v" "cv_head w = cv_head ?v" "cv_current w = cv_current ?v"
    "GET_VIEW_ITEM_FROM_INDEX ?v k = GET_VIEW_ITEM_FROM_INDEX w k"
    unfolding w_def SET_ITEM_PERSISTED_ACK_def by (simp_all add: set_flag_inv [OF inv(1)])
  have idx: "vi_index (item_at w k) = k" using view_inv_item [OF w(1)] k(2,3) w(2,3) by simp
  define s1 where "s1 = count (di_persistedAcks_update (\<lambda>n. n + 1)) (update_upload i (uh_lastPersistedAckTs_update (\<lambda>_. ts)) s)"
  define s2 where "s2 = set_view w s1"
  have s1: "ks_pView s1 = ?v" by (simp add: s1_def)
  have rdy: "snd (earlierReady (uh_handle (upload s2 i)) (ks_pUploadInfoQueue s2))"
    using ready i by (simp add: s2_def s1_def upload_update [OF i(1)] update_upload_queue earlierReady_update)
  define s3 where "s3 = set_view (w\<lparr>cv_current := k + 1\<rparr>) s2"
  have inv3: "view_inv (ks_pView s3)" using view_inv_advance(1) [OF w(1)] k(2,3) w(2,3) by (simp add: s3_def)
  have set: "contentViewSetCurrentIndex (Some w) (vi_index (cv_itemBuffer w ! GET_VIEW_ITEM_FROM_INDEX ?v k) + 1) = (STATUS_SUCCESS, Some (w\<lparr>cv_current := k + 1\<rparr>))"
    unfolding w(5) item_slot idx using view_inv_advance(2) [OF w(1)] k(2,3) w(2,3) word_inc_le [OF k(3)] by simp
  obtain r where r: "first_at unacked_boundary w (k + 1) = r" by simp
  obtain s4 where s4: "trimPersisted e i ts s3 = (STATUS_SUCCESS, s4)"
    "(ks_pView s4, ks_removed s4) = (case r of None \<Rightarrow> (w\<lparr>cv_current := cv_head w\<rparr>, ks_removed s)
      | Some b \<Rightarrow> let t = trim_target w b in (w\<lparr>cv_tail := t, cv_current := b + 1\<rparr>, ks_removed s @ evictedNotes (w\<lparr>cv_current := b + 1\<rparr>) (cv_tail w) t))"
    using trimPersisted_found [OF inv3 app, of r i ts] r
    by (auto simp: s3_def s2_def s1_def trim_target_def Let_def split: option.splits)
  let ?s' = "set_view (the (snd (contentViewSetCurrentIndex (Some (ks_pView s4)) (cv_current w)))) s4"
  have "streamFragmentPersistedAck e s ts i = Some (STATUS_SUCCESS, ?s')"
    unfolding streamFragmentPersistedAck_def Let_def s1_def [symmetric] s1 k(1) bind.bind_lunit prod.case option.sel w_def [symmetric] s2_def [symmetric]
    using rdy set s4(1) by (simp add: STATUS_FAILED_def s2_def s3_def del: contentViewSetCurrentIndex.simps)
  moreover have "(ks_pView ?s', ks_removed ?s') = after_persisted k ?v (ks_removed s)"
    using restore_current [OF w(1) _ _ r, where s' = s4 and rem = "ks_removed s4" and removed = "ks_removed s"] s4(2) k(2,3) w(2,3) r
    by (simp add: after_persisted_def w_def [symmetric] del: contentViewSetCurrentIndex.simps)
  ultimately show ?thesis using k(2-4) by blast
qed


subsection \<open>A stream with one session\<close>

definition demo_env :: "nat stream_env" where
  "demo_env = \<lparr>env_dataAvailable = \<lambda>_ _. STATUS_SUCCESS, env_errorReport = Some (\<lambda>_ _. STATUS_SUCCESS), env_ackReceived = True,
     env_streamReady = \<lambda>_. STATUS_SUCCESS, env_describeStream = \<lambda>_ x. (STATUS_SUCCESS, x), env_createStream = \<lambda>_ x. (STATUS_SUCCESS, x),
     env_tagResource = \<lambda>_ _ x. (STATUS_SUCCESS, x), env_getStreamingEndpoint = \<lambda>_ x. (STATUS_SUCCESS, x),
     env_getStreamingToken = \<lambda>_ x. (STATUS_SUCCESS, x), env_putStream = \<lambda>_ _ _ x. (STATUS_SUCCESS, x),
     env_getCurrentRetryAttemptNumber = None, env_jitterInSec = \<lambda>_. 0\<rparr>"

definition demo_upload :: UploadHandleInfo where
  "demo_upload = \<lparr>uh_handle = 5, uh_timestamp = 0, uh_lastFragmentTs = 20, uh_lastPersistedAckTs = INVALID_TIMESTAMP_VALUE, uh_createTime = 0,
     uh_state = UPLOAD_HANDLE_STATE_STREAMING\<rparr>"

definition demo_stream :: "RollingContentView \<Rightarrow> nat StreamObject" where
  "demo_stream v = \<lparr>kvs_fragmentAckParser = initial_parser, kvs_lock = 0, ks_pView = v, ks_pUploadInfoQueue = [Some demo_upload],
     ks_diagnostics = \<lparr>di_streamApiCallRetryCount = 0, di_totalSessions = 0, di_bufferedAcks = 0, di_receivedAcks = 0, di_persistedAcks = 0,
       di_errorAcks = 0, di_skippedFrames = 0\<rparr>,
     ks_curViewItem = \<lparr>ci_viewItem = zero_item, ci_offset = 0\<rparr>, ks_metadataTracker = \<lparr>mt_send = False, mt_size = 0\<rparr>,
     ks_eosTracker = \<lparr>mt_send = False, mt_size = 0\<rparr>, ks_fragmentAcks = True, ks_absoluteFragmentTimes = True,
     ks_streamingType = STREAMING_TYPE_REALTIME, ks_streamInfoRetention = 1, ks_retention = 0, ks_timecodeScale = 100, ks_resetGeneratorOnKeyFrame = False, ks_skipNonKeyFrames = False,
     ks_connectionState = UPLOAD_CONNECTION_STATE_OK, ks_streamStopped = False, ks_pKinesisVideoClient = demo_client demo_callbacks,
     ks_clientMachine = demo_machine, ks_stateMachine = \<lparr>mf_current = 8, mf_localStateRetryCount = 0, mf_stateTransitionWaitTime = 0\<rparr>,
     ks_result = SERVICE_CALL_RESULT_OK, ks_arn = [], ks_serviceCallContext = kvc_serviceCallContext (demo_client demo_callbacks),
     ks_streamStatus = STREAM_STATUS_ACTIVE, ks_streamState = STREAM_STATE_STREAMING, ks_keepIteratingStateMachine = False, ks_streamReady = True,
     ks_allowStreamCreation = True, ks_gracePeriod = False, ks_connectionDroppedResult = SERVICE_CALL_RESULT_NOT_SET, ks_streamingAuthInfo = demo_auth,
     ks_streamingEndpoint = ''kinesis'', ks_tagCount = 0, ks_tags = False, ks_recoverOnError = True,
     ks_callbacks = [], ks_removed = [], ks_freed = [], ks_hung = False\<rparr>"

lemma demo_stream_ok: "stream_ok (demo_stream v)"
  using client_init_inv [OF demo_init, of demo_callbacks] by (simp add: stream_ok_def client_ok_def demo_stream_def)

lemma demo_stream_sel [simp]:
  "ks_pView (demo_stream v) = v" "ks_pUploadInfoQueue (demo_stream v) = [Some demo_upload]" "ks_removed (demo_stream v) = []"
  "kvs_fragmentAckParser (demo_stream v) = initial_parser" "kvs_lock (demo_stream v) = 0" "uh_handle (upload (demo_stream v) 0) = 5" "uh_handle demo_upload = 5"
  by (simp_all add: demo_stream_def demo_upload_def upload_def)

lemma demo_env_available: "env_dataAvailable demo_env s h = STATUS_SUCCESS"
  by (simp add: demo_env_def)

lemma demo_index: "k = 0 \<or> k = 1 \<or> k = 2" if "k < (3 :: UINT64)" for k
  using that unat_eq_iff [of k 0] unat_eq_iff [of k 1] unat_eq_iff [of k 2] by (auto simp: word_less_nat_alt)

lemma demo3_ack:
  "contiguous True demo3" "in_range True demo3 10" "cv_tail demo3 \<le> k \<Longrightarrow> k < cv_head demo3 \<Longrightarrow> covers True (item_at demo3 k) 10 \<Longrightarrow> k = 0"
proof -
  have a: "item_ts True (item_at demo3 1) \<le> item_ts True (item_at demo3 0) + vi_duration (item_at demo3 0)"
    "item_ts True (item_at demo3 2) \<le> item_ts True (item_at demo3 1) + vi_duration (item_at demo3 1)" by code_simp+
  have "k = 0 \<or> k = 1" if "k < (2 :: UINT64)" for k
    using that unat_eq_iff [of k 0] unat_eq_iff [of k 1] by (auto simp: word_less_nat_alt)
  then have "item_ts True (item_at demo3 (j + 1)) \<le> item_ts True (item_at demo3 j) + vi_duration (item_at demo3 j)" if "j < 2" for j
    using a that by fastforce
  then show "contiguous True demo3" by (simp add: contiguous_def demo3_facts)
  show "in_range True demo3 10" by code_simp
  have "\<not> covers True (item_at demo3 1) 10" "\<not> covers True (item_at demo3 2) 10" by code_simp+
  then show "cv_tail demo3 \<le> k \<Longrightarrow> k < cv_head demo3 \<Longrightarrow> covers True (item_at demo3 k) 10 \<Longrightarrow> k = 0"
    using demo_index [of k] by (auto simp: demo3_facts)
qed

text \<open>The stored view with another current item.\<close>

lemma demo_at:
  assumes "c \<le> 3"
  shows "view_inv (demo3\<lparr>cv_current := c\<rparr>)" "contiguous True (demo3\<lparr>cv_current := c\<rparr>)" "in_range True (demo3\<lparr>cv_current := c\<rparr>) 10"
  using assms demo3_ack demo3_facts by (simp_all add: view_inv_set_current contiguous_def in_range_def)

lemma demo_boundary:
  "first_at unacked_boundary (SET_ITEM_PERSISTED_ACK (GET_VIEW_ITEM_FROM_INDEX (demo3\<lparr>cv_current := c\<rparr>) 0) (demo3\<lparr>cv_current := c\<rparr>)) 1 = Some 2"
  (is "first_at _ ?w _ = _")
proof -
  have i: "item_at ?w 1 = item_at demo3 1" "item_at ?w 2 = item_at demo3 2"
    using slot_window [OF demo3_facts(1), of 1 0] slot_window [OF demo3_facts(1), of 2 0] item_at_set_flag [of "demo3\<lparr>cv_current := c\<rparr>" 32 0]
      demo_at(1) [of 0] demo3_facts by (simp_all add: SET_ITEM_PERSISTED_ACK_def view_inv_def)
  have "\<not> unacked_boundary (item_at demo3 1)" "unacked_boundary (item_at demo3 2)" by code_simp+
  then have "\<not> unacked_boundary (item_at ?w 1)" "unacked_boundary (item_at ?w 2)" "cv_head ?w = 3" unfolding i by (simp_all add: SET_ITEM_PERSISTED_ACK_def demo3_facts)
  moreover have "j = 1" if "1 \<le> j" "j < 2" for j :: UINT64
    using that unat_eq_iff [of j 1] by (simp add: word_less_nat_alt word_le_nat_alt)
  ultimately show ?thesis by (intro first_atI) auto
qed




text \<open>C34. While an earlier session has not received its last ACK nothing is removed from the view: a persisted ACK only marks the item that covers its
  timestamp, and neither the window nor the current item move.\<close>

theorem streamFragmentPersistedAck_waits:
  assumes inv: "view_inv (ks_pView s)" "unat (cv_head (ks_pView s)) \<le> 2 ^ 63" "contiguous True (ks_pView s)" "in_range True (ks_pView s) ts"
    and i: "i < length (ks_pUploadInfoQueue s)" "ks_pUploadInfoQueue s ! i \<noteq> None"
    and wait: "\<not> snd (earlierReady (uh_handle (upload s i)) (ks_pUploadInfoQueue s))"
  shows "\<exists>k s'. streamFragmentPersistedAck e s ts i = Some (fst (earlierReady (uh_handle (upload s i)) (ks_pUploadInfoQueue s)), s') \<and>
    cv_tail (ks_pView s) \<le> k \<and> k < cv_head (ks_pView s) \<and> covers True (item_at (ks_pView s) k) ts \<and>
    ks_pView s' = SET_ITEM_PERSISTED_ACK (GET_VIEW_ITEM_FROM_INDEX (ks_pView s) k) (ks_pView s) \<and> view_inv (ks_pView s') \<and>
    ks_removed s' = ks_removed s \<and> ks_callbacks s' = ks_callbacks s"
proof -
  let ?v = "ks_pView s"
  obtain k where k: "contentViewGetItemWithTimestamp (Some ?v) ts True True = Some (STATUS_SUCCESS, Some (GET_VIEW_ITEM_FROM_INDEX ?v k))"
    "cv_tail ?v \<le> k" "k < cv_head ?v" "covers True (item_at ?v k) ts"
    by (rule item_found [OF inv])
  define s1 where "s1 = count (di_persistedAcks_update (\<lambda>n. n + 1)) (update_upload i (uh_lastPersistedAckTs_update (\<lambda>_. ts)) s)"
  define s2 where "s2 = set_view (SET_ITEM_PERSISTED_ACK (GET_VIEW_ITEM_FROM_INDEX ?v k) ?v) s1"
  have s1: "ks_pView s1 = ?v" by (simp add: s1_def)
  have "ks_callbacks s2 = ks_callbacks s" by (simp add: s2_def s1_def set_view_def count_def update_upload_def)
  moreover have "earlierReady (uh_handle (upload s2 i)) (ks_pUploadInfoQueue s2) = earlierReady (uh_handle (upload s i)) (ks_pUploadInfoQueue s)"
    using i by (simp add: s2_def s1_def upload_update [OF i(1)] update_upload_queue earlierReady_update)
  then have "streamFragmentPersistedAck e s ts i = Some (fst (earlierReady (uh_handle (upload s i)) (ks_pUploadInfoQueue s)), s2)"
    using wait unfolding streamFragmentPersistedAck_def Let_def s1_def [symmetric] s1 k(1) bind.bind_lunit prod.case option.sel s2_def [symmetric]
    by (simp add: STATUS_FAILED_def)
  moreover have "view_inv (ks_pView s2)" by (simp add: s2_def SET_ITEM_PERSISTED_ACK_def set_flag_inv [OF inv(1)])
  moreover have "ks_pView s2 = SET_ITEM_PERSISTED_ACK (GET_VIEW_ITEM_FROM_INDEX ?v k) ?v" "ks_removed s2 = ks_removed s" by (simp_all add: s2_def s1_def)
  ultimately show ?thesis using k(2-4) by (intro exI conjI) assumption+
qed

theorem streamFragmentPersistedAck_waits_witness:
  "\<exists>s'. streamFragmentPersistedAck demo_env ((demo_stream demo3)\<lparr>ks_pUploadInfoQueue := [Some (demo_upload\<lparr>uh_handle := 4\<rparr>), Some demo_upload]\<rparr>) 10 1 = Some (STATUS_SUCCESS, s') \<and>
     ks_removed s' = []"
proof -
  let ?s = "(demo_stream demo3)\<lparr>ks_pUploadInfoQueue := [Some (demo_upload\<lparr>uh_handle := 4\<rparr>), Some demo_upload]\<rparr>"
  have "earlierReady (uh_handle (upload ?s 1)) (ks_pUploadInfoQueue ?s) = (STATUS_SUCCESS, False)"
    by (simp add: upload_def demo_upload_def IS_UPLOAD_HANDLE_READY_TO_TRIM_def IS_UPLOAD_HANDLE_IN_STATE_def)
  then show ?thesis using streamFragmentPersistedAck_waits [of ?s 10 1 demo_env] demo3_ack demo3_facts by auto
qed

subsection \<open>An error ACK\<close>

definition new_fragment :: "ViewItem \<Rightarrow> bool" where
  "new_fragment it \<longleftrightarrow> CHECK_ITEM_FRAGMENT_START (vi_flags it) \<or> CHECK_ITEM_STREAM_START (vi_flags it) \<or> CHECK_ITEM_FRAGMENT_END (vi_flags it)"

text \<open>The view \<open>w\<close> is \<open>v\<close> with the items from \<open>k\<close> to before \<open>b\<close> marked to be skipped; the current item may differ.\<close>

definition skip_marked :: "RollingContentView \<Rightarrow> UINT64 \<Rightarrow> UINT64 \<Rightarrow> RollingContentView \<Rightarrow> bool" where
  "skip_marked v k b w \<longleftrightarrow> view_inv w \<and> cv_tail w = cv_tail v \<and> cv_head w = cv_head v \<and>
     (\<forall>j. cv_tail v \<le> j \<and> j < cv_head v \<longrightarrow> item_at w j = (if k \<le> j \<and> j < b then with_flag ITEM_FLAG_SKIP_ITEM (item_at v j) else item_at v j))"

lemma between_Suc: "j < cv_head v \<Longrightarrow> (k \<le> j \<and> j < k + 1 \<longleftrightarrow> j = k)" if "k < cv_head v" for j k :: UINT64
proof -
  have "unat (k + 1) = Suc (unat k)" by (rule unat_Suc_less [OF that])
  then show ?thesis using unat_eq_iff [of j k] by (auto simp: word_le_nat_alt word_less_nat_alt)
qed

lemma skip_marked_one:
  assumes "view_inv v" "cv_tail v \<le> k" "k < cv_head v"
  shows "skip_marked v k (k + 1) (SET_ITEM_SKIP_ITEM (GET_VIEW_ITEM_FROM_INDEX v k) v)"
  using set_flag_inv [OF assms(1)] set_flag_at [OF assms] between_Suc [OF assms(3)] by (auto simp: skip_marked_def SET_ITEM_SKIP_ITEM_def)

lemma skip_marked_trans:
  assumes "skip_marked v k (k + 1) w" "skip_marked w (k + 1) b x" "k < b" "k < cv_head v"
  shows "skip_marked v k b x"
proof -
  have "unat (k + 1) = Suc (unat k)" by (rule unat_Suc_less [OF assms(4)])
  then have "(k \<le> j \<and> j < b) = ((k \<le> j \<and> j < k + 1) \<or> (k + 1 \<le> j \<and> j < b))" for j
    using assms(3) by (auto simp: word_le_nat_alt word_less_nat_alt)
  moreover have "\<not> (k \<le> j \<and> j < k + 1 \<and> k + 1 \<le> j)" for j by auto
  ultimately show ?thesis using assms(1,2) by (auto simp: skip_marked_def)
qed

lemma skip_marked_current: "skip_marked v k b w \<Longrightarrow> cv_tail w \<le> c \<Longrightarrow> c \<le> cv_head w \<Longrightarrow> skip_marked v k b (w\<lparr>cv_current := c\<rparr>)"
  by (simp add: skip_marked_def view_inv_set_current)

lemma skip_marked_from_current: "skip_marked (v\<lparr>cv_current := c\<rparr>) k b w \<longleftrightarrow> skip_marked v k b w"
  by (simp add: skip_marked_def)

lemma first_at_marked:
  assumes "skip_marked v k b w" "b \<le> c" "cv_tail v \<le> c"
  shows "first_at P w c = first_at P v c"
proof -
  have "item_at w (of_nat n) = item_at v (of_nat n)" if "n \<in> set [unat c..<unat (cv_head v)]" for n
  proof -
    have "unat (of_nat n :: UINT64) = n" using that by (auto intro: unat_of_nat_below)
    then show ?thesis using that assms by (auto simp: skip_marked_def word_le_nat_alt word_less_nat_alt)
  qed
  then have "find (\<lambda>n. P (item_at w (of_nat n))) [unat c..<unat (cv_head v)] = find (\<lambda>n. P (item_at v (of_nat n))) [unat c..<unat (cv_head v)]"
    by (intro find_cong) auto
  then show ?thesis using assms(1) by (simp add: first_at_def skip_marked_def)
qed

definition fragment_skipped :: "'e StreamObject \<Rightarrow> UINT64 \<Rightarrow> 'e StreamObject \<Rightarrow> bool" where
  "fragment_skipped s k s' \<longleftrightarrow>
     (case first_at new_fragment (ks_pView s) (k + 1) of
        Some b \<Rightarrow> skip_marked (ks_pView s) k b (ks_pView s') \<and> cv_current (ks_pView s') = b
      | None \<Rightarrow> skip_marked (ks_pView s) k (cv_head (ks_pView s)) (ks_pView s') \<and> cv_current (ks_pView s') = cv_head (ks_pView s) \<and>
          ks_resetGeneratorOnKeyFrame s' \<and> ks_skipNonKeyFrames s')"

lemma skipFragmentLoop_spec:
  "view_inv (ks_pView s) \<Longrightarrow> cv_tail (ks_pView s) \<le> k \<Longrightarrow> k < cv_head (ks_pView s) \<Longrightarrow> cv_current (ks_pView s) = k + 1 \<Longrightarrow>
    \<exists>s'. skipFragmentLoop (GET_VIEW_ITEM_FROM_INDEX (ks_pView s) k) s = (STATUS_SUCCESS, s') \<and> fragment_skipped s k s'"
proof (induction "unat (cv_head (ks_pView s)) - unat k" arbitrary: s k rule: less_induct)
  case less
  let ?v = "ks_pView s" let ?w = "SET_ITEM_SKIP_ITEM (GET_VIEW_ITEM_FROM_INDEX ?v k) ?v"
  define s1 where "s1 = count (di_skippedFrames_update (\<lambda>n. n + 1)) (set_view ?w s)"
  have m: "skip_marked ?v k (k + 1) ?w" by (rule skip_marked_one [OF less.prems(1-3)])
  then have w: "view_inv ?w" "cv_tail ?w = cv_tail ?v" "cv_head ?w = cv_head ?v" "cv_current ?w = k + 1" "ks_pView s1 = ?w"
    using less.prems(4) by (simp_all add: skip_marked_def SET_ITEM_SKIP_ITEM_def s1_def)
  note inc = word_inc_le [OF less.prems(3)]
  have tl: "cv_tail ?v \<le> k + 1" using less.prems(2) inc by simp
  note g = getNext_at [OF w(1), unfolded w(3,4)]
  show ?case
  proof (cases "k + 1 < cv_head ?v")
    case False
    then have h: "k + 1 = cv_head ?v" using inc(1) by simp
    let ?s' = "(set_view ?w s1)\<lparr>ks_resetGeneratorOnKeyFrame := True, ks_skipNonKeyFrames := True\<rparr>"
    have "skipFragmentLoop (GET_VIEW_ITEM_FROM_INDEX ?v k) s = (STATUS_SUCCESS, ?s')"
      using g False by (subst skipFragmentLoop.simps) (simp add: s1_def [symmetric] w(5) Let_def del: contentViewGetNext.simps)
    moreover have "first_at new_fragment ?v (k + 1) = None" using False by (subst first_at_rec) simp
    ultimately show ?thesis using m h w(4) by (intro exI [of _ ?s']) (simp add: fragment_skipped_def)
  next
    case True
    let ?x = "?w\<lparr>cv_current := k + 1 + 1\<rparr>" let ?s2 = "set_view ?x s1"
    have it: "item_at ?w (k + 1) = item_at ?v (k + 1)" using m tl True by (simp add: skip_marked_def)
    have fl: "flags ?x (GET_VIEW_ITEM_FROM_INDEX ?w (k + 1)) = vi_flags (item_at ?v (k + 1))" unfolding it [symmetric] by (simp add: flags_def item_at_def)
    have idx: "vi_index (cv_itemBuffer ?x ! GET_VIEW_ITEM_FROM_INDEX ?w (k + 1)) = k + 1"
      using view_inv_item [OF less.prems(1) tl True] it by (simp add: item_at_def)
    have unf: "skipFragmentLoop (GET_VIEW_ITEM_FROM_INDEX ?v k) s =
      (if new_fragment (item_at ?v (k + 1)) then (STATUS_SUCCESS, set_view (?x\<lparr>cv_current := k + 1\<rparr>) ?s2)
       else skipFragmentLoop (GET_VIEW_ITEM_FROM_INDEX ?w (k + 1)) ?s2)"
      using g True tl inc fl idx w(2,3) by (subst skipFragmentLoop.simps)
        (simp add: s1_def [symmetric] w(5) new_fragment_def STATUS_FAILED_def Let_def del: contentViewGetNext.simps)
    show ?thesis
    proof (cases "new_fragment (item_at ?v (k + 1))")
      case nf: True
      then have "first_at new_fragment ?v (k + 1) = Some (k + 1)" using True by (subst first_at_rec) simp
      moreover have "skip_marked ?v k (k + 1) (?x\<lparr>cv_current := k + 1\<rparr>)" using skip_marked_current [OF m, of "k + 1"] w(2,3) tl inc by simp
      ultimately show ?thesis using unf nf by (simp add: fragment_skipped_def)
    next
      case nf: False
      have x: "view_inv ?x" using view_inv_advance(1) [OF w(1), of "k + 1"] w(2,3) tl True by simp
      have d: "unat (cv_head (ks_pView ?s2)) - unat (k + 1) < unat (cv_head ?v) - unat k"
        using unat_Suc_less [OF less.prems(3)] less.prems(3) w(3) by (simp add: word_less_nat_alt)
      obtain s' where s': "skipFragmentLoop (GET_VIEW_ITEM_FROM_INDEX (ks_pView ?s2) (k + 1)) ?s2 = (STATUS_SUCCESS, s')" "fragment_skipped ?s2 (k + 1) s'"
        using less.hyps [OF d] x w(2,3) tl True by auto
      define c where "c = k + 1 + 1"
      have c: "k + 1 \<le> c" "c \<le> cv_head ?v" "cv_tail ?v \<le> c" using word_inc_le [OF True] tl by (simp_all add: c_def)
      have r: "first_at new_fragment ?v (k + 1) = first_at new_fragment ?v c" using True nf unfolding c_def by (subst first_at_rec) simp
      have f: "first_at new_fragment ?w c = first_at new_fragment ?v c"
        by (rule first_at_marked [OF m c(1,3)])
      have tr: "skip_marked ?v k b (ks_pView s')" if "skip_marked ?w (k + 1) b (ks_pView s')" "k + 1 \<le> b" for b
        by (rule skip_marked_trans [OF m that(1) _ less.prems(3)]) (use that(2) inc in simp)
      have "fragment_skipped s k s'"
        using s'(2) tr first_at_Some(1) [of new_fragment ?v c] c inc(1) w(3) unfolding fragment_skipped_def r c_def [symmetric]
        by (auto simp: f skip_marked_from_current split: option.splits)
      then show ?thesis using unf nf s'(1) by simp
    qed
  qed
qed

text \<open>What the termination of a session leaves alone; the producer may be told to start a new stream.\<close>

definition same_content :: "'e StreamObject \<Rightarrow> 'e StreamObject \<Rightarrow> bool" where
  "same_content s s' \<longleftrightarrow> ks_pView s' = ks_pView s \<and> (ks_resetGeneratorOnKeyFrame s \<longrightarrow> ks_resetGeneratorOnKeyFrame s') \<and>
     (ks_skipNonKeyFrames s \<longrightarrow> ks_skipNonKeyFrames s') \<and> stream_ok s = stream_ok s'"

lemma same_content_trans: "same_content a b \<Longrightarrow> same_content b c \<Longrightarrow> same_content a c"
  by (simp add: same_content_def)

lemma stream_ok_time [simp]: "stream_ok (snd (streamTime s)) = stream_ok s"
  by (auto simp: stream_ok_def client_ok_def streamTime_def getCurrentTime_def split: prod.splits)

lemma stream_ok_steps [simp]:
  "stream_ok (update_upload i f s) = stream_ok s" "stream_ok (call c s) = stream_ok s" "stream_ok (count g s) = stream_ok s"
  "stream_ok (set_view v s) = stream_ok s" "stream_ok (s\<lparr>ks_connectionState := x\<rparr>) = stream_ok s" "stream_ok (s\<lparr>ks_pUploadInfoQueue := q\<rparr>) = stream_ok s"
  "stream_ok (s\<lparr>ks_resetGeneratorOnKeyFrame := b, ks_skipNonKeyFrames := b'\<rparr>) = stream_ok s" "stream_ok (s\<lparr>ks_streamState := n\<rparr>) = stream_ok s"
  "stream_ok (s\<lparr>ks_result := r\<rparr>) = stream_ok s"
  by (simp_all add: stream_ok_def client_ok_def update_upload_def call_def count_def set_view_def)

lemma streamTime_fields [simp]:
  "ks_pView (snd (streamTime s)) = ks_pView s" "ks_resetGeneratorOnKeyFrame (snd (streamTime s)) = ks_resetGeneratorOnKeyFrame s"
  "ks_skipNonKeyFrames (snd (streamTime s)) = ks_skipNonKeyFrames s" "ks_callbacks (snd (streamTime s)) = ks_callbacks s"
  by (simp_all add: streamTime_def split: prod.splits)

lemma step_flags [simp]:
  "ks_resetGeneratorOnKeyFrame (update_upload i f s) = ks_resetGeneratorOnKeyFrame s" "ks_resetGeneratorOnKeyFrame (call c s) = ks_resetGeneratorOnKeyFrame s"
  "ks_skipNonKeyFrames (update_upload i f s) = ks_skipNonKeyFrames s" "ks_skipNonKeyFrames (call c s) = ks_skipNonKeyFrames s"
  by (simp_all add: update_upload_def call_def)

lemma same_content_steps:
  "same_content s s" "same_content s (update_upload i f s)" "same_content s (call c s)" "same_content s (deleteStreamUploadInfo i s)"
  "same_content s (s\<lparr>ks_connectionState := x\<rparr>)" "same_content s (lockStream s)" "same_content s (unlockStream s)"
  by (simp_all add: same_content_def deleteStreamUploadInfo_def) (simp_all add: lockStream_def unlockStream_def)

lemma terminateAll_content: "same_content s (snd (terminateAll e is s))"
proof (induction "is" arbitrary: s)
  case (Cons i "is")
  then show ?case by (simp add: Let_def same_content_def)
qed (simp add: same_content_steps)

lemma decideConnection_content: "same_content s (decideConnection e i s)"
  by (simp add: decideConnection_def same_content_def Let_def)

lemma terminateOne_content: "same_content s (snd (terminateOne e i alive s))"
proof -
  let ?s1 = "update_upload i (uh_state_update (\<lambda>_. UPLOAD_HANDLE_STATE_TERMINATED)) s"
  define s2 where "s2 = (if IS_UPLOAD_HANDLE_IN_STATE (upload s i) UPLOAD_HANDLE_STATE_NOT_IN_USE then ?s1 else decideConnection e i ?s1)"
  define s3 where "s3 = (if alive then call (streamDataAvailableFn (uh_handle (upload s2 i)) 0 0) s2 else deleteStreamUploadInfo i s2)"
  have "same_content s ?s1" by (rule same_content_steps)
  then have "same_content s s2" using same_content_trans [of s ?s1 "decideConnection e i ?s1"] decideConnection_content [of ?s1 e i] unfolding s2_def by simp
  moreover have "same_content s2 s3" unfolding s3_def by (simp add: same_content_steps)
  ultimately have "same_content s s3" by (rule same_content_trans)
  moreover have "same_content s3 (snd (terminateOne e i alive s))"
    unfolding terminateOne_def Let_def s2_def [symmetric] s3_def [symmetric] by (simp add: same_content_steps split: option.split)
  ultimately show ?thesis by (rule same_content_trans)
qed

lemma terminateSessions_content: "terminateSessions e h alive s = (st, spawn, s') \<Longrightarrow> same_content s s'"
proof -
  have a: "same_content s s'" if "terminateAll e is (s\<lparr>ks_connectionState := x\<rparr>) = (st, s')" for "is" st x and s s' :: "'a StreamObject"
    using terminateAll_content [of "s\<lparr>ks_connectionState := x\<rparr>" e "is"] that by (simp add: same_content_def)
  have b: "same_content s s'" if "terminateOne e i alive s = (sp, s')" for i sp s'
    using terminateOne_content [of s e i alive] that by simp
  have c: "same_content s (s'\<lparr>ks_connectionState := x\<rparr>) = same_content s s'" "same_content (s\<lparr>ks_connectionState := x\<rparr>) s' = same_content s s'" for x s'
    by (simp_all add: same_content_def)
  define r where "r = (if \<not> IS_VALID_UPLOAD_HANDLE h
         then case terminateAll e [0..<length (ks_pUploadInfoQueue s)] (s\<lparr>ks_connectionState := UPLOAD_CONNECTION_STATE_IN_USE\<rparr>) of (st, s) \<Rightarrow> (st, True, s)
         else case getStreamUploadInfo s h of
                None \<Rightarrow> (STATUS_SUCCESS, True, s\<lparr>ks_connectionState := UPLOAD_CONNECTION_STATE_IN_USE\<rparr>)
              | Some i \<Rightarrow> (STATUS_SUCCESS, terminateOne e i alive s))"
  obtain st1 sp1 s1 where 1: "r = (st1, sp1, s1)" by (metis prod.exhaust)
  have "same_content s s1"
    using 1 unfolding r_def
    by (cases "IS_VALID_UPLOAD_HANDLE h"; cases "getStreamUploadInfo s h") (auto simp: same_content_steps dest: a b split: prod.splits)
  then show "terminateSessions e h alive s = (st, spawn, s') \<Longrightarrow> same_content s s'"
    unfolding terminateSessions_def r_def [symmetric] 1 by (auto simp: c split: if_splits)
qed

text \<open>The new session, through the state machine of the stream.\<close>

lemma iterate_content: "stream_ok s \<Longrightarrow> \<exists>st s'. iterateStreamStateMachine e s = Some (st, s') \<and> same_content s s'"
  using iterate_returns [of s e] by (auto simp: same_content_def stream_frame_def)

lemma spawn_content:
  assumes "stream_ok s"
  shows "\<exists>st s'. spawnSession e r spawn s = Some (st, s') \<and> same_content s s'"
proof -
  let ?s = "s\<lparr>ks_streamState := STREAM_STATE_STOPPED\<rparr>"
  have 1: "same_content s ?s" "same_content s (?s\<lparr>ks_result := r\<rparr>)" "stream_ok (?s\<lparr>ks_result := r\<rparr>)" using assms by (simp_all add: same_content_def)
  have "\<exists>st s'. respawn e r s = Some (st, s') \<and> same_content s s'"
    using iterate_content [OF 1(3), of e] same_content_trans [OF 1(2)] 1(1) by (auto simp: respawn_def Let_def)
  then show ?thesis using same_content_steps(1) [of s] by (auto simp: spawnSession_def)
qed

lemma streamTerminated_content:
  assumes "stream_ok s"
  shows "\<exists>st s'. streamTerminatedEvent e (Some s) h r alive = Some (st, Some s') \<and> same_content s s'"
proof -
  obtain st spawn s1 where 1: "(if r = SERVICE_CALL_STREAM_AUTH_IN_GRACE_PERIOD then (STATUS_SUCCESS, True, lockStream s) else terminateSessions e h alive (lockStream s)) = (st, spawn, s1)"
    by (metis prod.exhaust)
  then have c1: "same_content s s1" using terminateSessions_content [of e h alive "lockStream s"] same_content_trans [OF same_content_steps(6)]
    by (auto simp: same_content_steps split: if_splits)
  then have ok: "stream_ok s1" using assms by (simp add: same_content_def)
  obtain st2 s2 where 2: "(if STATUS_FAILED st then Some (st, s1) else spawnSession e r spawn s1) = Some (st2, s2)" "same_content s1 s2"
    using spawn_content [OF ok, of e r spawn] same_content_steps(1) [of s1] by (cases "STATUS_FAILED st") auto
  have "same_content s (unlockStream s2)" using same_content_trans [OF same_content_trans [OF c1 2(2)]] same_content_steps(7) by blast
  then show ?thesis unfolding streamTerminatedEvent_def option.case Let_def 1 prod.case 2 by simp
qed

text \<open>Marking a fragment does not touch the machines.\<close>

lemma skipFragmentLoop_ok: "stream_ok (snd (skipFragmentLoop p s)) = stream_ok s"
proof (induction p s rule: skipFragmentLoop.induct)
  case (1 p s)
  let ?s = "count (di_skippedFrames_update (\<lambda>n. n + 1)) (set_view (SET_ITEM_SKIP_ITEM p (ks_pView s)) s)"
  obtain st v q where g: "contentViewGetNext (Some (ks_pView ?s)) True = (st, v, q)" by (cases "contentViewGetNext (Some (ks_pView ?s)) True") auto
  show ?case
    using "1.IH" [OF refl g [symmetric] refl refl] g
    by (subst skipFragmentLoop.simps) (simp add: Let_def split: prod.split del: contentViewGetNext.simps)
qed


lemma demo_not_retried: "\<not> serviceCallResultRetry 4001"
  by (simp add: serviceCallResultRetry_def)


subsection \<open>The end of a session\<close>

lemma ks_callbacks_terminated: "ks_callbacks ((update_upload i f s)\<lparr>ks_connectionState := c\<rparr>) = ks_callbacks s"
  by (simp add: update_upload_def)

text \<open>C36. The report that the last persisted ACK of a session has not been received is never made: its condition reads the state of the handle after it
  has been set to terminated.\<close>

theorem terminated_session_not_reported:
  assumes "i < length (ks_pUploadInfoQueue s)"
  shows "ks_callbacks (snd (terminateOne e i alive s)) \<in> {ks_callbacks s @ cs | cs. \<forall>c\<in>set cs. \<exists>h. c = streamDataAvailableFn h 0 0}"
proof -
  let ?s1 = "update_upload i (uh_state_update (\<lambda>_. UPLOAD_HANDLE_STATE_TERMINATED)) s"
  define s2 where "s2 = (if IS_UPLOAD_HANDLE_IN_STATE (upload s i) UPLOAD_HANDLE_STATE_NOT_IN_USE then ?s1 else decideConnection e i ?s1)"
  define s3 where "s3 = (if alive then call (streamDataAvailableFn (uh_handle (upload s2 i)) 0 0) s2 else deleteStreamUploadInfo i s2)"
  have "uh_state (upload ?s1 i) = UPLOAD_HANDLE_STATE_TERMINATED" using upload_update [OF assms] by simp
  moreover have "upload (x\<lparr>ks_connectionState := c\<rparr>) i = upload x i" for x :: "'a StreamObject" and c by (simp add: upload_def)
  ultimately have "decideConnection e i ?s1 = ?s1\<lparr>ks_connectionState := ks_connectionState (decideConnection e i ?s1)\<rparr>"
    by (simp add: decideConnection_def Let_def)
  then have "ks_callbacks (decideConnection e i ?s1) = ks_callbacks s" by (metis ks_callbacks_terminated)
  then have "ks_callbacks s2 = ks_callbacks s" by (simp add: s2_def update_upload_def)
  then have "\<exists>cs. ks_callbacks s3 = ks_callbacks s @ cs \<and> (\<forall>c\<in>set cs. \<exists>h. c = streamDataAvailableFn h 0 0)"
    by (simp add: s3_def call_def deleteStreamUploadInfo_def)
  then obtain cs where cs: "ks_callbacks s3 = ks_callbacks s @ cs" "\<forall>c\<in>set cs. \<exists>h. c = streamDataAvailableFn h 0 0" by blast
  have "ks_callbacks (snd (terminateOne e i alive s)) =
    ks_callbacks s @ cs @ (case getStreamUploadInfoWithState s3 UPLOAD_HANDLE_STATE_ACTIVE of None \<Rightarrow> [] | Some j \<Rightarrow> [streamDataAvailableFn (uh_handle (upload s3 j)) 0 0])"
    unfolding terminateOne_def Let_def s2_def [symmetric] s3_def [symmetric] by (simp add: call_def cs(1) split: option.split)
  moreover have "\<forall>c\<in>set (cs @ (case getStreamUploadInfoWithState s3 UPLOAD_HANDLE_STATE_ACTIVE of None \<Rightarrow> [] | Some j \<Rightarrow> [streamDataAvailableFn (uh_handle (upload s3 j)) 0 0])).
      \<exists>h. c = streamDataAvailableFn h 0 0"
    using cs(2) by (auto split: option.split)
  ultimately show ?thesis by blast
qed

subsection \<open>From the text of an ACK to the view\<close>

text \<open>The timestamp that the timecode of an ACK means for a session.\<close>

definition timestamp_of :: "'e StreamObject \<Rightarrow> UploadHandleInfo \<Rightarrow> UINT64 \<Rightarrow> UINT64" where
  "timestamp_of s u timecode = MKV_TIMECODE_TO_TIMESTAMP timecode (ks_timecodeScale s) +
     (if \<not> ks_absoluteFragmentTimes s \<and> IS_VALID_TIMESTAMP (uh_timestamp u) then uh_timestamp u else 0)"

lemma ackTimestamp_of:
  assumes "IS_VALID_TIMESTAMP (fa_timestamp ack)"
  shows "ackTimestamp s u ack = (STATUS_SUCCESS, timestamp_of s u (fa_timestamp ack), timestamp_of s u (fa_timestamp ack))"
  using assms by (simp add: ackTimestamp_def mkvgenTimecodeToTimestamp_def timestamp_of_def STATUS_FAILED_def Let_def)

lemma parser_fields [simp]:
  "ks_pView (upd p s) = ks_pView s" "ks_removed (upd p s) = ks_removed s" "ks_pUploadInfoQueue (upd p s) = ks_pUploadInfoQueue s"
  "ks_pView (lockStream s) = ks_pView s" "ks_removed (lockStream s) = ks_removed s" "ks_pUploadInfoQueue (lockStream s) = ks_pUploadInfoQueue s"
  "ks_pView (unlockStream s) = ks_pView s" "ks_removed (unlockStream s) = ks_removed s"
  "timestamp_of (upd p s) u tc = timestamp_of s u tc" "timestamp_of (lockStream s) u tc = timestamp_of s u tc"
  "upload (upd p s) i = upload s i" "upload (lockStream s) i = upload s i"
  "getStreamUploadInfo (upd p s) h = getStreamUploadInfo s h" "getStreamUploadInfo (lockStream s) h = getStreamUploadInfo s h"
  by (simp_all add: lockStream_def unlockStream_def timestamp_of_def upload_def getStreamUploadInfo_def)



theorem terminated_session_not_reported_witness:
  "ks_callbacks (snd (terminateOne demo_env 0 False ((demo_stream demo3)\<lparr>ks_pUploadInfoQueue := [Some (demo_upload\<lparr>uh_state := UPLOAD_HANDLE_STATE_AWAITING_ACK\<rparr>), Some demo_upload]\<rparr>)))
    \<in> {cs. \<forall>c\<in>set cs. \<exists>h. c = streamDataAvailableFn h 0 0}"
proof -
  let ?s = "(demo_stream demo3)\<lparr>ks_pUploadInfoQueue := [Some (demo_upload\<lparr>uh_state := UPLOAD_HANDLE_STATE_AWAITING_ACK\<rparr>), Some demo_upload]\<rparr>"
  have "ks_callbacks ?s = []" by (simp add: demo_stream_def)
  then show ?thesis using terminated_session_not_reported [of 0 ?s demo_env False] by auto
qed

end
