(* ===== verification/StreamSessions.thy ===== *)
theory StreamSessions
  imports StreamAckProps
begin

text \<open>
  The life of a stream through its state machine: from the creation to streaming, the recovery after the end of a session, the bounds of the token, and
  what goes wrong when a put stream call fails or a result arrives late.
\<close>

subsection \<open>The results of the service calls\<close>

text \<open>C6. The iteration of the machine of a stream and the results of its service calls return, whatever the service calls and the callbacks of the
  application answer, as long as they do not call back into the library while they run: no chain of states of the stream or of its client is endless,
  the object is well formed again and the lock is released. Two results need more: a description must have a known version, since nothing of an
  unknown one is copied, and for the result of tagging the report of errors, which is optional otherwise, must be there.\<close>

theorem stream_results_return:
  assumes "stream_ok s"
  shows "event_ok s (iterateStreamStateMachine e s) \<and>
    ((\<forall>d. pDesc = Some d \<longrightarrow> sd_version d \<le> STREAM_DESCRIPTION_CURRENT_VERSION) \<longrightarrow> event_ok s (describeStreamResult e r pDesc s)) \<and>
    event_ok s (createStreamResult e r arn s) \<and> event_ok s (getStreamingEndpointResult e r ep s) \<and>
    event_ok s (getStreamingTokenResult e r tok n ex s) \<and> event_ok s (putStreamResult e r h malloc node s) \<and>
    (env_errorReport e \<noteq> None \<longrightarrow> event_ok s (tagStreamResult e r s))"
  using iterate_ok [OF assms] results_ok [OF assms] by simp

theorem stream_results_return_witness:
  "event_ok (demo_stream demo3) (tagStreamResult demo_env 504 (demo_stream demo3)) \<and>
   event_ok (demo_stream demo3) (putStreamResult demo_env 200 7 True True (demo_stream demo3))"
  using stream_results_return [OF demo_stream_ok, where e = demo_env] by (simp add: demo_env_def)

subsection \<open>Entering a known state\<close>

text \<open>The transition when the callback of the current state has chosen another one, which the table accepts.\<close>

lemma stream_enter:
  assumes ok: "stream_ok s" and i: "mf_current (ks_stateMachine s) = i" and r: "stream_from e i s = (STATUS_SUCCESS, n, s1)"
    and j: "findState n 0 (STREAM_STATE_MACHINE_STATES e) = Some j" "i \<noteq> j" "\<not> (i = 7 \<and> j = 4)"
  obtains s2 t st a s' m where "stepLoop (streamMachine e (ks_stateMachine s)) s = Some (st, m, s')" "env_moves s1 s2" "stream_exec e j t s2 = (st, a, s')"
    "machineFields m = \<lparr>mf_current = j, mf_localStateRetryCount = 0, mf_stateTransitionWaitTime = t\<rparr>" "client_ok s2"
proof -
  let ?f = "ks_stateMachine s"
  have f: "mf_current ?f < 10" and cl: "client_ok s" using ok by (simp_all add: stream_ok_def)
  obtain st again m s' where step: "stepTransition (streamMachine e ?f) s = (st, again, m, s')" by (metis prod_cases4)
  show thesis using f step
  proof (cases rule: stream_transition)
    case (refused n' s1')
    then show ?thesis using r i by simp
  next
    case (rejected n' s1')
    then have "n' = n" using r i by simp
    then show ?thesis using j(1,3) i rejected(3,8) by simp
  next
    case (exceeded n' s1' r')
    then have "n' = n" using r i by simp
    then show ?thesis using j(1,2) i exceeded(9) by simp
  next
    case (entered n' s1' s2 k t a r')
    then have e: "n' = n" "s1' = s1" using r i by simp_all
    then have k: "k = j" using entered(2) j(1) by simp
    have c2: "client_ok s2" by (rule left_moves(2) [OF f entered(1,5) cl])
    have na: "\<not> again" using stream_exec_moves [OF c2 entered(3,6)] entered(7) by simp
    have "stepLoop (streamMachine e ?f) s = Some (st, m, s')" using step na by (subst stepLoop.simps) simp
    moreover have "r' = 0" using entered(9) k i j(2) by simp
    ultimately show ?thesis using that [of st m s' s2 t a] entered(5,6,8) e(2) k c2 by simp
  qed
qed

text \<open>The same for the iteration, which goes on when the state has asked for it.\<close>

lemma iterate_enter:
  assumes ok: "stream_ok s" and i: "mf_current (ks_stateMachine s) = i"
    and r: "stream_from e i (s\<lparr>ks_keepIteratingStateMachine := False\<rparr>) = (STATUS_SUCCESS, n, s1)"
    and j: "findState n 0 (STREAM_STATE_MACHINE_STATES e) = Some j" "j < 10" "i \<noteq> j" "\<not> (i = 7 \<and> j = 4)"
  obtains s2 t st a s' where "env_moves s1 s2" "client_ok s2" "\<not> ks_keepIteratingStateMachine s2" "stream_exec e j t s2 = (st, a, s')"
    "stream_ok (s'\<lparr>ks_stateMachine := \<lparr>mf_current = j, mf_localStateRetryCount = 0, mf_stateTransitionWaitTime = t\<rparr>\<rparr>)"
    "iterateStreamStateMachine e s =
       (let s = s'\<lparr>ks_stateMachine := \<lparr>mf_current = j, mf_localStateRetryCount = 0, mf_stateTransitionWaitTime = t\<rparr>\<rparr>
        in if STATUS_FAILED st then Some (st, s) else if ks_keepIteratingStateMachine s then iterateStreamStateMachine e s else Some (STATUS_SUCCESS, s))"
proof -
  let ?s = "s\<lparr>ks_keepIteratingStateMachine := False\<rparr>"
  have ok': "stream_ok ?s" and i': "mf_current (ks_stateMachine ?s) = i" and i10: "i < 10" and h: "\<not> ks_hung ?s"
    using ok i by (simp_all add: stream_ok_def client_ok_def)
  obtain s2 t st a s' m where 1: "stepLoop (streamMachine e (ks_stateMachine ?s)) ?s = Some (st, m, s')" "env_moves s1 s2" "stream_exec e j t s2 = (st, a, s')"
    "machineFields m = \<lparr>mf_current = j, mf_localStateRetryCount = 0, mf_stateTransitionWaitTime = t\<rparr>" "client_ok s2"
    by (rule stream_enter [OF ok' i' r j(1,3,4)]) blast
  have fm: "from_moves i ?s s1" using stream_from_next [OF i10 r] by blast
  have k: "\<not> ks_keepIteratingStateMachine s2" "\<not> ks_hung s2" using env_moves_frame [OF 1(2)] fm h by (simp_all add: from_moves_def)
  have ex: "exec_moves j st s2 s'" using stream_exec_moves [OF 1(5) j(2) 1(3)] by blast
  then have hung: "\<not> ks_hung s'" "client_ok s'" using k(2) unfolding exec_moves_def by simp_all
  let ?s' = "s'\<lparr>ks_stateMachine := \<lparr>mf_current = j, mf_localStateRetryCount = 0, mf_stateTransitionWaitTime = t\<rparr>\<rparr>"
  have st: "store_machine m s' = ?s'" using 1(4) by (simp add: store_machine_def)
  have ok2: "stream_ok ?s'" using hung j(2) by (simp add: stream_ok_def client_ok_def)
  have "iterateStreamStateMachine e s =
       (let s = ?s' in if STATUS_FAILED st then Some (st, s) else if ks_keepIteratingStateMachine s then iterateStreamStateMachine e s else Some (STATUS_SUCCESS, s))"
    using 1(1) hung(1) by (subst iterateStreamStateMachine.simps) (simp add: st Let_def)
  then show thesis by (rule that [OF 1(2,5) k(1) 1(3) ok2])
qed

text \<open>What an entered state that does not prime the machine leaves: the iteration ends there.\<close>

lemma iterate_enter_last:
  assumes ok: "stream_ok s" and i: "mf_current (ks_stateMachine s) = i"
    and r: "stream_from e i (s\<lparr>ks_keepIteratingStateMachine := False\<rparr>) = (STATUS_SUCCESS, n, s1)"
    and j: "findState n 0 (STREAM_STATE_MACHINE_STATES e) = Some j" "j < 10" "i \<noteq> j" "\<not> (i = 7 \<and> j = 4)" "j \<notin> {0, 6, 9}"
  obtains s2 t st a s' where "env_moves s1 s2" "stream_exec e j t s2 = (st, a, s')"
    "iterateStreamStateMachine e s =
       Some (st, s'\<lparr>ks_stateMachine := \<lparr>mf_current = j, mf_localStateRetryCount = 0, mf_stateTransitionWaitTime = t\<rparr>\<rparr>)"
proof -
  obtain s2 t st a s' where 1: "env_moves s1 s2" "client_ok s2" "\<not> ks_keepIteratingStateMachine s2" "stream_exec e j t s2 = (st, a, s')"
    "iterateStreamStateMachine e s =
       (let s = s'\<lparr>ks_stateMachine := \<lparr>mf_current = j, mf_localStateRetryCount = 0, mf_stateTransitionWaitTime = t\<rparr>\<rparr>
        in if STATUS_FAILED st then Some (st, s) else if ks_keepIteratingStateMachine s then iterateStreamStateMachine e s else Some (STATUS_SUCCESS, s))"
    by (rule iterate_enter [OF ok i r j(1-4)]) blast
  have "\<not> ks_keepIteratingStateMachine s'" using stream_exec_moves [OF 1(2) j(2) 1(4)] 1(3) j(5) unfolding exec_moves_def by blast
  then have "iterateStreamStateMachine e s =
       Some (st, s'\<lparr>ks_stateMachine := \<lparr>mf_current = j, mf_localStateRetryCount = 0, mf_stateTransitionWaitTime = t\<rparr>\<rparr>)"
    using 1(5) by (auto simp: STATUS_FAILED_def Let_def)
  then show thesis by (rule that [OF 1(1,4)])
qed

text \<open>The iteration when the callback of the current state fails.\<close>

lemma iterate_refused:
  assumes ok: "stream_ok s" and i: "mf_current (ks_stateMachine s) = i"
    and r: "stream_from e i (s\<lparr>ks_keepIteratingStateMachine := False\<rparr>) = (st, n, s1)" "st \<noteq> STATUS_SUCCESS"
  shows "iterateStreamStateMachine e s = Some (st, s1)"
proof -
  let ?s = "s\<lparr>ks_keepIteratingStateMachine := False\<rparr>" and ?f = "ks_stateMachine s"
  have f: "mf_current ?f < 10" using ok by (simp add: stream_ok_def)
  obtain st' again m s' where step: "stepTransition (streamMachine e ?f) ?s = (st', again, m, s')" by (metis prod_cases4)
  have fm: "from_moves i ?s s1" using stream_from_next [of i e ?s] f i r(1) by blast
  have "\<not> again \<and> st' = st \<and> s' = s1 \<and> machineFields m = ?f"
    using f step
  proof (cases rule: stream_transition)
    case (refused n' s1')
    then have "\<not> again" "s' = s1" "machineFields m = ?f" using r i by simp_all
    moreover have "st' = st" using step r i stream_callbacks_Some(1) [OF f, of e] by (simp add: stepTransition_def)
    ultimately show ?thesis by simp
  qed (use r i in simp_all)
  then have "stepLoop (streamMachine e ?f) ?s = Some (st, m, s1)" "store_machine m s1 = s1"
    using step fm by (subst stepLoop.simps, simp, simp add: store_machine_def from_moves_def)
  then show ?thesis using ok fm r(2) by (subst iterateStreamStateMachine.simps) (simp add: Let_def stream_ok_def from_moves_def)
qed

text \<open>The states in which the result of a service call is accepted, by position.\<close>

lemma accepts_entry:
  assumes "mf_current (ks_stateMachine s) = i" "findState n 0 (STREAM_STATE_MACHINE_STATES e) = Some j"
  shows "acceptsEntry e s n = (if sms_acceptStates (STREAM_STATE_MACHINE_STATES e ! j) AND sms_state (STREAM_STATE_MACHINE_STATES e ! i) =
    sms_state (STREAM_STATE_MACHINE_STATES e ! i) then STATUS_SUCCESS else STATUS_INVALID_STREAM_STATE)"
  using assms by (simp add: acceptsEntry_def acceptStreamState_def)

lemma latency_moves: "env_moves s (snd (calculateCallLatency s))"
  using env_moves_steps(2) [of s] by (cases "streamTime s") (simp add: calculateCallLatency_def)

lemma unlock_fields:
  "ks_allowStreamCreation (unlockStream s) = ks_allowStreamCreation s" "ks_recoverOnError (unlockStream s) = ks_recoverOnError s"
  "ks_streamingAuthInfo (unlockStream s) = ks_streamingAuthInfo s" "ks_callbacks (unlockStream s) = ks_callbacks s"
  by (simp_all add: unlockStream_def)

text \<open>The object with the result stored.\<close>

definition measured :: "bool \<Rightarrow> SERVICE_CALL_RESULT \<Rightarrow> 'e StreamObject \<Rightarrow> 'e StreamObject" where
  "measured lat r s = (if lat then snd (calculateCallLatency (lockStream s)) else lockStream s)\<lparr>ks_result := r\<rparr>"

lemma measured_eq: "\<exists>x d. measured lat r s = s\<lparr>ks_pKinesisVideoClient := (ks_pKinesisVideoClient s)\<lparr>kvc_env := x\<rparr>, ks_diagnostics := d,
    kvs_lock := Suc (kvs_lock s), ks_result := r\<rparr>"
proof -
  have "env_moves (lockStream s) (if lat then snd (calculateCallLatency (lockStream s)) else lockStream s)"
    using latency_moves [of "lockStream s"] env_moves_steps(4) [of "lockStream s"] by simp
  then obtain x d where m: "(if lat then snd (calculateCallLatency (lockStream s)) else lockStream s) =
      (lockStream s)\<lparr>ks_pKinesisVideoClient := (ks_pKinesisVideoClient (lockStream s))\<lparr>kvc_env := x\<rparr>, ks_diagnostics := d\<rparr>"
    unfolding env_moves_def by blast
  show ?thesis unfolding measured_def m by (intro exI [of _ x] exI [of _ d]) (simp add: lockStream_def)
qed

lemma measured:
  "ks_stateMachine (measured lat r s) = ks_stateMachine s" "ks_streamState (measured lat r s) = ks_streamState s" "ks_result (measured lat r s) = r"
  "kvs_lock (measured lat r s) = Suc (kvs_lock s)" "ks_pUploadInfoQueue (measured lat r s) = ks_pUploadInfoQueue s"
  "ks_callbacks (measured lat r s) = ks_callbacks s" "ks_tagCount (measured lat r s) = ks_tagCount s" "ks_pView (measured lat r s) = ks_pView s"
  "ks_streamingEndpoint (measured lat r s) = ks_streamingEndpoint s" "ks_freed (measured lat r s) = ks_freed s"
  "ks_streamingAuthInfo (measured lat r s) = ks_streamingAuthInfo s" "ks_streamStatus (measured lat r s) = ks_streamStatus s"
  "ks_recoverOnError (measured lat r s) = ks_recoverOnError s" "ks_curViewItem (measured lat r s) = ks_curViewItem s"
  "ks_metadataTracker (measured lat r s) = ks_metadataTracker s" "ks_eosTracker (measured lat r s) = ks_eosTracker s"
  using measured_eq [of lat r s] by auto

lemma measured_ok: "stream_ok s \<Longrightarrow> stream_ok (measured lat r s)"
  using measured_eq [of lat r s] by (auto simp: stream_ok_def client_ok_def)

text \<open>An event whose state and result are accepted.\<close>

lemma resultEvent_run:
  assumes "acceptsEntry e s st = STATUS_SUCCESS" "serviceCallResultCheck r = STATUS_SUCCESS \<or> serviceCallResultCheck r \<in> set tol"
    and "update (measured lat r s) = Some (STATUS_SUCCESS, s1)"
    and "iterateStreamStateMachine e s1 = Some (st2, s2)" "finish (st2, s2) = Some (st3, s3)"
  shows "streamResultEvent e st tol lat r update finish s = Some (st3, unlockStream s3)"
  using assms by (simp add: streamResultEvent_def measured_def Let_def)

lemma timeout_check: "SERVICE_CALL_RESULT_IS_A_TIMEOUT r \<Longrightarrow> serviceCallResultCheck r = STATUS_SERVICE_CALL_TIMEOUT_ERROR \<and> r \<noteq> SERVICE_CALL_RESULT_OK"
  by (auto simp: SERVICE_CALL_RESULT_IS_A_TIMEOUT_def serviceCallResultCheck_def)

subsection \<open>A put stream call that has failed\<close>

text \<open>After a timeout the callback asks for a new endpoint, which the table does not allow.\<close>

lemma timeout_refused:
  assumes ok: "stream_ok s" and i: "mf_current (ks_stateMachine s) = 7" and r: "ks_streamState s \<noteq> STREAM_STATE_STOPPED" "SERVICE_CALL_RESULT_IS_A_TIMEOUT (ks_result s)"
  shows "iterateStreamStateMachine e s = Some (STATUS_INVALID_STREAM_STATE, s\<lparr>ks_keepIteratingStateMachine := False\<rparr>)"
proof -
  let ?s = "s\<lparr>ks_keepIteratingStateMachine := False\<rparr>" and ?f = "ks_stateMachine s"
  have f: "mf_current ?f < 10" using i by simp
  have fr: "stream_from e 7 ?s = (STATUS_SUCCESS, STREAM_STATE_GET_ENDPOINT, ?s)"
    using r timeout_check [OF r(2)] by (simp add: stream_callbacks fromPutStreamState_def)
  obtain st again m s' where step: "stepTransition (streamMachine e ?f) ?s = (st, again, m, s')" by (metis prod_cases4)
  have "\<not> again \<and> st = STATUS_INVALID_STREAM_STATE \<and> s' = ?s \<and> machineFields m = ?f"
    using f step
  proof (cases rule: stream_transition)
    case (entered n s1 s2 j t a r)
    then show ?thesis using fr i stream_find(5) [of e] by simp
  qed (use fr i in auto)
  then have "stepLoop (streamMachine e ?f) ?s = Some (STATUS_INVALID_STREAM_STATE, m, ?s)" "store_machine m ?s = ?s"
    using step by (subst stepLoop.simps, simp, simp add: store_machine_def)
  then show ?thesis using ok by (subst iterateStreamStateMachine.simps) (simp add: Let_def stream_ok_def)
qed

text \<open>C38. The result of a put stream call that has timed out is refused: it is answered with an invalid state, the machine stays in the state of the
  call, which stays marked as made, and a \<open>NULL\<close> session is left in the queue. Iterating the machine, however often, gives the same answer and
  changes nothing; only another event, a later result or the end of a session, moves the stream on. The way from this state to a new
  endpoint, which the callback asks for, is missing in the table.\<close>

theorem putStream_timeout_refused:
  assumes "stream_ok s" "mf_current (ks_stateMachine s) = 7" "ks_streamState s \<noteq> STREAM_STATE_STOPPED" "SERVICE_CALL_RESULT_IS_A_TIMEOUT r"
  shows "\<exists>s'. putStreamResult e r h malloc True s = Some (STATUS_INVALID_STREAM_STATE, s') \<and> kvs_lock s' = kvs_lock s \<and>
    ks_stateMachine s' = ks_stateMachine s \<and> ks_streamState s' = ks_streamState s \<and> ks_pUploadInfoQueue s' = ks_pUploadInfoQueue s @ [None] \<and>
    ((\<lambda>r. Option.bind r (\<lambda>(st, s). iterateStreamStateMachine e s)) ^^ n) (Some (STATUS_INVALID_STREAM_STATE, s')) = Some (STATUS_INVALID_STREAM_STATE, s')"
proof -
  define s1 where "s1 = measured True r s"
  define s2 where "s2 = s1\<lparr>ks_pUploadInfoQueue := ks_pUploadInfoQueue s1 @ [None]\<rparr>"
  note fld = measured [of True r s, folded s1_def] measured_ok [OF assms(1), of True r, folded s1_def]
  have ok2: "stream_ok s2" "stream_ok (unlockStream (s2\<lparr>ks_keepIteratingStateMachine := False\<rparr>))" using fld by (simp_all add: s2_def stream_ok_def client_ok_def unlockStream_def)
  note chk = timeout_check [OF assms(4)]
  have it: "iterateStreamStateMachine e s2 = Some (STATUS_INVALID_STREAM_STATE, s2\<lparr>ks_keepIteratingStateMachine := False\<rparr>)"
    by (rule timeout_refused [OF ok2(1)]) (use fld assms in \<open>simp_all add: s2_def\<close>)
  have "putStreamResult e r h malloc True s = Some (STATUS_INVALID_STREAM_STATE, unlockStream (s2\<lparr>ks_keepIteratingStateMachine := False\<rparr>))"
    unfolding putStreamResult_def
  proof (rule resultEvent_run [OF _ _ _ it])
    show "acceptsEntry e s STREAM_STATE_PUT_STREAM = STATUS_SUCCESS"
      using accepts_entry [OF assms(2) stream_find(8) [of e]] by (simp add: stream_state_nth streamMachineState_def)
  qed (use chk in \<open>simp_all add: enqueueUpload_def s1_def [symmetric] s2_def freeUpload_def\<close>)
  moreover have "iterateStreamStateMachine e (unlockStream (s2\<lparr>ks_keepIteratingStateMachine := False\<rparr>)) =
      Some (STATUS_INVALID_STREAM_STATE, unlockStream (s2\<lparr>ks_keepIteratingStateMachine := False\<rparr>))"
    using timeout_refused [OF ok2(2), of e] fld assms by (simp add: s2_def unlockStream_def)
  then have "((\<lambda>r. Option.bind r (\<lambda>(st, s). iterateStreamStateMachine e s)) ^^ n) (Some (STATUS_INVALID_STREAM_STATE,
      unlockStream (s2\<lparr>ks_keepIteratingStateMachine := False\<rparr>))) = Some (STATUS_INVALID_STREAM_STATE, unlockStream (s2\<lparr>ks_keepIteratingStateMachine := False\<rparr>))"
    by (induction n) simp_all
  ultimately show ?thesis using fld by (intro exI conjI) (assumption | simp add: s2_def)+
qed

text \<open>A stream that is waiting for the result of its put stream call.\<close>

definition demo_put :: "nat StreamObject" where
  "demo_put = (demo_stream demo3)\<lparr>ks_stateMachine := \<lparr>mf_current = 7, mf_localStateRetryCount = 0, mf_stateTransitionWaitTime = 0\<rparr>,
     ks_streamState := STREAM_STATE_PUT_STREAM, ks_pUploadInfoQueue := []\<rparr>"

lemma demo_put_ok: "stream_ok demo_put" "mf_current (ks_stateMachine demo_put) = 7" "ks_streamState demo_put = STREAM_STATE_PUT_STREAM"
  "ks_pUploadInfoQueue demo_put = []"
  using demo_stream_ok [of demo3] by (simp_all add: demo_put_def stream_ok_def client_ok_def)

theorem putStream_timeout_refused_witness:
  "\<exists>s'. putStreamResult demo_env 504 0 True True demo_put = Some (STATUS_INVALID_STREAM_STATE, s') \<and> ks_pUploadInfoQueue s' = [None]"
  using putStream_timeout_refused [of demo_put 504 demo_env 0 True] demo_put_ok by (auto simp: SERVICE_CALL_RESULT_IS_A_TIMEOUT_def)

subsection \<open>A put stream call that has succeeded\<close>

lemma available_cong:
  assumes "ks_pView s' = ks_pView s" "ks_curViewItem s' = ks_curViewItem s" "ks_metadataTracker s' = ks_metadataTracker s"
    "ks_eosTracker s' = ks_eosTracker s"
  shows "getAvailableViewSize s' = getAvailableViewSize s"
  unfolding getAvailableViewSize_def assms ..

text \<open>The object that the iteration starts from, and what remains after the iteration.\<close>

lemma put_start:
  assumes ok: "stream_ok s" and i: "mf_current (ks_stateMachine s) = 7" and h: "IS_VALID_UPLOAD_HANDLE h"
  obtains s1 t where "stream_ok s1" "ks_stateMachine s1 = ks_stateMachine s" "ks_streamState s1 = ks_streamState s" "ks_result s1 = SERVICE_CALL_RESULT_OK"
    "ks_pUploadInfoQueue s1 = ks_pUploadInfoQueue s @ [Some (newUpload h t)]" "ks_callbacks s1 = ks_callbacks s" "ks_freed s1 = ks_freed s"
    "getAvailableViewSize s1 = getAvailableViewSize s"
    "\<And>st s2. iterateStreamStateMachine e s1 = Some (st, s2) \<Longrightarrow> putStreamResult e SERVICE_CALL_RESULT_OK h True True s =
       Some (st, unlockStream (if STATUS_FAILED st then s2\<lparr>ks_freed := ks_freed s2 @ [h]\<rparr> else s2))"
proof -
  define m where "m = measured True SERVICE_CALL_RESULT_OK s"
  define s0 where "s0 = count (di_totalSessions_update (\<lambda>n. n + 1)) (snd (streamTime m))"
  define t where "t = fst (streamTime m)"
  define s1 where "s1 = s0\<lparr>ks_pUploadInfoQueue := ks_pUploadInfoQueue s0 @ [Some (newUpload h t)]\<rparr>"
  note fld = measured [of True SERVICE_CALL_RESULT_OK s, folded m_def]
  have okm: "stream_ok m" unfolding m_def by (rule measured_ok [OF ok])
  have "env_moves m s0" unfolding s0_def by (intro env_moves_after(2) env_moves_steps(2))
  then obtain x d where s0: "s0 = m\<lparr>ks_pKinesisVideoClient := (ks_pKinesisVideoClient m)\<lparr>kvc_env := x\<rparr>, ks_diagnostics := d\<rparr>"
    unfolding env_moves_def by blast
  have ok1: "stream_ok s1" using okm by (simp add: s1_def s0 stream_ok_def client_ok_def)
  have view: "getAvailableViewSize s1 = getAvailableViewSize s" by (rule available_cong) (simp_all add: s1_def s0 fld)
  have run: "putStreamResult e SERVICE_CALL_RESULT_OK h True True s =
       Some (st, unlockStream (if STATUS_FAILED st then s2\<lparr>ks_freed := ks_freed s2 @ [h]\<rparr> else s2))"
    if "iterateStreamStateMachine e s1 = Some (st, s2)" for st s2
    unfolding putStreamResult_def
  proof (rule resultEvent_run [OF _ _ _ that])
    show "acceptsEntry e s STREAM_STATE_PUT_STREAM = STATUS_SUCCESS"
      using accepts_entry [OF i stream_find(8) [of e]] by (simp add: stream_state_nth streamMachineState_def)
    show "enqueueUpload SERVICE_CALL_RESULT_OK h True True (measured True SERVICE_CALL_RESULT_OK s) = Some (STATUS_SUCCESS, s1)"
      using h by (simp add: enqueueUpload_def serviceCallResultCheck_def m_def [symmetric] s1_def s0_def t_def Let_def split: prod.split)
  qed (simp_all add: serviceCallResultCheck_def freeUpload_def)
  show thesis by (rule that [OF ok1 _ _ _ _ _ _ view run]) (simp_all add: s1_def s0 fld)
qed

text \<open>The case in which the new handle is made ready.\<close>

lemma put_run:
  assumes ok: "stream_ok s" and i: "mf_current (ks_stateMachine s) = 7" and st: "ks_streamState s \<noteq> STREAM_STATE_STOPPED"
    and h: "IS_VALID_UPLOAD_HANDLE h"
  obtains s1 t where "ks_pUploadInfoQueue s1 = ks_pUploadInfoQueue s @ [Some (newUpload h t)]" "ks_callbacks s1 = ks_callbacks s"
    "getAvailableViewSize s1 = getAvailableViewSize s"
    "\<And>s2. readyNewHandle e s1 = (STATUS_SUCCESS, s2) \<Longrightarrow> \<exists>s'. putStreamResult e SERVICE_CALL_RESULT_OK h True True s = Some (STATUS_SUCCESS, s') \<and>
       mf_current (ks_stateMachine s') = 8 \<and> ks_streamState s' = STREAM_STATE_STREAMING \<and> ks_callbacks s' = ks_callbacks s2 \<and>
       ks_pUploadInfoQueue s' = ks_pUploadInfoQueue s2"
proof -
  obtain s1 t where s1: "stream_ok s1" "ks_stateMachine s1 = ks_stateMachine s" "ks_streamState s1 = ks_streamState s" "ks_result s1 = SERVICE_CALL_RESULT_OK"
    "ks_pUploadInfoQueue s1 = ks_pUploadInfoQueue s @ [Some (newUpload h t)]" "ks_callbacks s1 = ks_callbacks s"
    "getAvailableViewSize s1 = getAvailableViewSize s"
    and run: "\<And>st s2. iterateStreamStateMachine e s1 = Some (st, s2) \<Longrightarrow> putStreamResult e SERVICE_CALL_RESULT_OK h True True s =
       Some (st, unlockStream (if STATUS_FAILED st then s2\<lparr>ks_freed := ks_freed s2 @ [h]\<rparr> else s2))"
    by (rule put_start [OF ok i h, of e]) blast
  let ?s1 = "s1\<lparr>ks_keepIteratingStateMachine := False\<rparr>"
  have "\<exists>s'. putStreamResult e SERVICE_CALL_RESULT_OK h True True s = Some (STATUS_SUCCESS, s') \<and> mf_current (ks_stateMachine s') = 8 \<and>
      ks_streamState s' = STREAM_STATE_STREAMING \<and> ks_callbacks s' = ks_callbacks s2 \<and> ks_pUploadInfoQueue s' = ks_pUploadInfoQueue s2"
    if ready: "readyNewHandle e ?s1 = (STATUS_SUCCESS, s2)" for s2
  proof -
    have fr: "stream_from e 7 ?s1 = (STATUS_SUCCESS, STREAM_STATE_STREAMING, s2)"
      using ready st s1 by (simp add: stream_callbacks fromPutStreamState_def)
    obtain s3 t' st a s' where 1: "env_moves s2 s3" "stream_exec e 8 t' s3 = (st, a, s')"
      "iterateStreamStateMachine e s1 = Some (st, s'\<lparr>ks_stateMachine := \<lparr>mf_current = 8, mf_localStateRetryCount = 0, mf_stateTransitionWaitTime = t'\<rparr>\<rparr>)"
      by (rule iterate_enter_last [OF s1(1) _ fr stream_find(9)]) (use i s1(2) in auto)
    then have 2: "st = STATUS_SUCCESS" "s' = s3\<lparr>ks_streamState := STREAM_STATE_STREAMING\<rparr>"
      by (simp_all add: stream_callbacks executeStreamingStreamState_def)
    have "ks_callbacks s3 = ks_callbacks s2" "ks_pUploadInfoQueue s3 = ks_pUploadInfoQueue s2" using 1(1) by (auto simp: env_moves_def)
    then show ?thesis using run [OF 1(3)] by (simp add: 2 unlockStream_def)
  qed
  moreover have "getAvailableViewSize ?s1 = getAvailableViewSize s" unfolding s1(7) [symmetric] by (rule available_cong) simp_all
  ultimately show thesis using that [of ?s1 t] s1(5,6) by simp
qed

text \<open>C39. After a failed put stream call whose \<open>NULL\<close> session is in front of the queue, a later call that succeeds moves the stream to the streaming
  state, but the new session is never found: it stays new, the application is not told that data is available, the ACKs for its handle are dropped without
  an error, and the termination of all the sessions fails.\<close>

theorem failed_put_blocks_sessions:
  assumes "stream_ok s" "mf_current (ks_stateMachine s) = 7" "ks_streamState s \<noteq> STREAM_STATE_STOPPED" "IS_VALID_UPLOAD_HANDLE h"
    and "ks_pUploadInfoQueue s = None # us"
  shows "\<exists>s' t. putStreamResult e SERVICE_CALL_RESULT_OK h True True s = Some (STATUS_SUCCESS, s') \<and> mf_current (ks_stateMachine s') = 8 \<and>
    ks_callbacks s' = ks_callbacks s \<and> ks_pUploadInfoQueue s' = None # us @ [Some (newUpload h t)] \<and>
    processAck e s' h ack = Some (STATUS_SUCCESS, s') \<and>
    (callResult = SERVICE_CALL_STREAM_AUTH_IN_GRACE_PERIOD \<or>
     map_option fst (streamTerminatedEvent e (Some s') INVALID_UPLOAD_HANDLE_VALUE callResult alive) = Some STATUS_INTERNAL_ERROR)"
proof -
  obtain s1 t where 1: "ks_pUploadInfoQueue s1 = ks_pUploadInfoQueue s @ [Some (newUpload h t)]" "ks_callbacks s1 = ks_callbacks s"
    and run: "\<And>s2. readyNewHandle e s1 = (STATUS_SUCCESS, s2) \<Longrightarrow> \<exists>s'. putStreamResult e SERVICE_CALL_RESULT_OK h True True s = Some (STATUS_SUCCESS, s') \<and>
       mf_current (ks_stateMachine s') = 8 \<and> ks_streamState s' = STREAM_STATE_STREAMING \<and> ks_callbacks s' = ks_callbacks s2 \<and>
       ks_pUploadInfoQueue s' = ks_pUploadInfoQueue s2"
    by (rule put_run [OF assms(1-4), of e]) blast
  have "readyNewHandle e s1 = (STATUS_SUCCESS, s1)" using 1(1) assms(5) by (simp add: readyNewHandle_def getStreamUploadInfoWithState_def)
  from run [OF this] obtain s' where s': "putStreamResult e SERVICE_CALL_RESULT_OK h True True s = Some (STATUS_SUCCESS, s')"
    "mf_current (ks_stateMachine s') = 8" "ks_callbacks s' = ks_callbacks s" "ks_pUploadInfoQueue s' = None # us @ [Some (newUpload h t)]"
    using 1 assms(5) by auto
  have "processAck e s' h ack = Some (STATUS_SUCCESS, s')" using s'(4) by (simp add: processAck_def getStreamUploadInfo_def)
  moreover have "map_option fst (streamTerminatedEvent e (Some s') INVALID_UPLOAD_HANDLE_VALUE callResult alive) = Some STATUS_INTERNAL_ERROR"
    if "callResult \<noteq> SERVICE_CALL_STREAM_AUTH_IN_GRACE_PERIOD"
    using that s'(4) by (simp add: streamTerminatedEvent_def terminateSessions_def IS_VALID_UPLOAD_HANDLE_def Let_def upt_rec [of 0] split: prod.split)
  ultimately show ?thesis using s' by blast
qed

theorem failed_put_blocks_sessions_witness:
  "\<exists>s' t. putStreamResult demo_env SERVICE_CALL_RESULT_OK 7 True True (demo_put\<lparr>ks_pUploadInfoQueue := [None]\<rparr>) = Some (STATUS_SUCCESS, s') \<and>
     ks_pUploadInfoQueue s' = [None, Some (newUpload 7 t)]"
proof -
  let ?s = "demo_put\<lparr>ks_pUploadInfoQueue := [None]\<rparr>"
  have "stream_ok ?s" "mf_current (ks_stateMachine ?s) = 7" "ks_streamState ?s \<noteq> STREAM_STATE_STOPPED" "IS_VALID_UPLOAD_HANDLE 7"
    "ks_pUploadInfoQueue ?s = [None]"
    using demo_put_ok by (simp_all add: stream_ok_def client_ok_def IS_VALID_UPLOAD_HANDLE_def INVALID_UPLOAD_HANDLE_VALUE_def)
  then show ?thesis using failed_put_blocks_sessions [of ?s 7 "[]" demo_env] by fastforce
qed

text \<open>Without a \<open>NULL\<close> the search reaches the first session that it looks for, the new one at the latest.\<close>

definition first_handle :: "(UploadHandleInfo \<Rightarrow> bool) \<Rightarrow> UploadHandleInfo option list \<Rightarrow> UPLOAD_HANDLE \<Rightarrow> UPLOAD_HANDLE" where
  "first_handle P us h = (case filter P (map the us) of [] \<Rightarrow> h | u # _ \<Rightarrow> uh_handle u)"

lemma findUpload_append:
  "None \<notin> set us \<Longrightarrow> (\<And>v. Some v \<in> set us \<Longrightarrow> \<not> P v) \<Longrightarrow> findUpload P (us @ [Some u]) = (if P u then Some (length us) else None)"
proof (induction us)
  case (Cons x us)
  then show ?case by (cases x) auto
qed simp

lemma findUpload_ex: "None \<notin> set us \<Longrightarrow> \<not> P u \<Longrightarrow> findUpload P (us @ [Some u]) = None \<longleftrightarrow> (\<forall>v. Some v \<in> set us \<longrightarrow> \<not> P v)"
proof (induction us)
  case (Cons x us)
  then show ?case by (cases x) auto
qed simp

lemma findUpload_first:
  "None \<notin> set us \<Longrightarrow> P u \<Longrightarrow> \<exists>i. findUpload P (us @ [Some u]) = Some i \<and> uh_handle (the ((us @ [Some u]) ! i)) = first_handle P us (uh_handle u)"
proof (induction us)
  case (Cons x us)
  then obtain v where v: "x = Some v" by (cases x) auto
  then show ?case using Cons by (cases "P v") (auto simp: first_handle_def)
qed (simp add: first_handle_def)

lemma inactive_state:
  "\<not> IS_UPLOAD_HANDLE_IN_STATE u UPLOAD_HANDLE_STATE_ACTIVE \<Longrightarrow> m AND 63 = m \<Longrightarrow> \<not> IS_UPLOAD_HANDLE_IN_STATE u m"
proof -
  assume "\<not> IS_UPLOAD_HANDLE_IN_STATE u UPLOAD_HANDLE_STATE_ACTIVE" and m: "m AND 63 = m"
  then have 0: "uh_state u AND 63 = 0" by (simp add: IS_UPLOAD_HANDLE_IN_STATE_def)
  have "uh_state u AND m = (uh_state u AND 63) AND m" using m by (simp add: and.assoc and.commute [of 63 m])
  then show ?thesis using 0 by (simp add: IS_UPLOAD_HANDLE_IN_STATE_def)
qed

text \<open>An ongoing session, and the handle that is notified otherwise: the first one that is ready.\<close>

definition ongoing :: "UploadHandleInfo option list \<Rightarrow> bool" where
  "ongoing us \<longleftrightarrow> (\<exists>u. Some u \<in> set us \<and> IS_UPLOAD_HANDLE_IN_STATE u UPLOAD_HANDLE_STATE_ONGOING)"

definition first_ready :: "UploadHandleInfo option list \<Rightarrow> UPLOAD_HANDLE \<Rightarrow> UPLOAD_HANDLE" where
  "first_ready = first_handle (\<lambda>u. IS_UPLOAD_HANDLE_IN_STATE u UPLOAD_HANDLE_STATE_READY)"

text \<open>The callback makes the new session ready and notifies the application.\<close>

lemma ready_new:
  assumes none: "None \<notin> set us" and no_new: "\<And>u. Some u \<in> set us \<Longrightarrow> \<not> IS_UPLOAD_HANDLE_IN_STATE u UPLOAD_HANDLE_STATE_NEW"
    and q: "ks_pUploadInfoQueue s = us @ [Some (newUpload h t)]"
  obtains d n where
    "readyNewHandle e s =
       (let s = update_upload (length us) (uh_state_update (\<lambda>_. UPLOAD_HANDLE_STATE_READY)) s
        in if ongoing us then (STATUS_SUCCESS, s)
           else (env_dataAvailable e s (first_ready us h), call (streamDataAvailableFn (first_ready us h) d n) s))"
    "ks_pUploadInfoQueue (update_upload (length us) (uh_state_update (\<lambda>_. UPLOAD_HANDLE_STATE_READY)) s) =
       us @ [Some ((newUpload h t)\<lparr>uh_state := UPLOAD_HANDLE_STATE_READY\<rparr>)]"
    "getAvailableViewSize s = (STATUS_SUCCESS, d, n)"
proof -
  obtain d n where view: "getAvailableViewSize s = (STATUS_SUCCESS, d, n)" using getAvailableViewSize_ok by blast
  let ?u = "(newUpload h t)\<lparr>uh_state := UPLOAD_HANDLE_STATE_READY\<rparr>"
  let ?s = "update_upload (length us) (uh_state_update (\<lambda>_. UPLOAD_HANDLE_STATE_READY)) s"
  have q': "ks_pUploadInfoQueue ?s = us @ [Some ?u]" by (simp add: update_upload_def upload_def q newUpload_def)
  have new: "getStreamUploadInfoWithState s UPLOAD_HANDLE_STATE_NEW = Some (length us)"
    unfolding getStreamUploadInfoWithState_def q
    using findUpload_append [of us "\<lambda>u. IS_UPLOAD_HANDLE_IN_STATE u 1" "newUpload h t", OF none no_new]
    by (simp add: IS_UPLOAD_HANDLE_IN_STATE_def newUpload_def)
  have og: "getStreamUploadInfoWithState ?s UPLOAD_HANDLE_STATE_ONGOING = None \<longleftrightarrow> \<not> ongoing us"
    unfolding getStreamUploadInfoWithState_def q' ongoing_def
    using findUpload_ex [OF none, of "\<lambda>u. IS_UPLOAD_HANDLE_IN_STATE u 60" ?u] by (simp add: IS_UPLOAD_HANDLE_IN_STATE_def)
  obtain i where i: "getStreamUploadInfoWithState ?s UPLOAD_HANDLE_STATE_READY = Some i" "uh_handle (upload ?s i) = first_ready us h"
    using findUpload_first [OF none, of "\<lambda>u. IS_UPLOAD_HANDLE_IN_STATE u 2" ?u]
    by (auto simp: getStreamUploadInfoWithState_def q' upload_def first_ready_def IS_UPLOAD_HANDLE_IN_STATE_def newUpload_def)
  have "getAvailableViewSize ?s = getAvailableViewSize s" by (rule available_cong) (simp_all add: update_upload_def)
  then have "readyNewHandle e s = (let s = ?s in if ongoing us then (STATUS_SUCCESS, s)
      else (env_dataAvailable e s (first_ready us h), call (streamDataAvailableFn (first_ready us h) d n) s))"
    using new og i view by (cases "ongoing us") (auto simp: readyNewHandle_def Let_def)
  from that [OF this q' view] show thesis .
qed

text \<open>C9. A put stream call that has succeeded, in a stream whose queue has no \<open>NULL\<close> of a failed call and no other new session: the session is ready
  and the stream is streaming. While an earlier session is ongoing, as in a rotation of the token, nobody is notified: that session will look for the
  next one when it ends. Otherwise the application is told exactly once, for the first session that is ready (an earlier one, else the new one),
  with the size and the duration of the data that waits in the view. The application must accept the notification.\<close>

theorem putStream_opens_session:
  assumes "stream_ok s" "mf_current (ks_stateMachine s) = 7" "ks_streamState s \<noteq> STREAM_STATE_STOPPED" "IS_VALID_UPLOAD_HANDLE h"
    and queue: "None \<notin> set (ks_pUploadInfoQueue s)"
      "\<And>u. Some u \<in> set (ks_pUploadInfoQueue s) \<Longrightarrow> \<not> IS_UPLOAD_HANDLE_IN_STATE u UPLOAD_HANDLE_STATE_NEW"
    and app: "\<And>s h. env_dataAvailable e s h = STATUS_SUCCESS"
  shows "\<exists>s' t d n. putStreamResult e SERVICE_CALL_RESULT_OK h True True s = Some (STATUS_SUCCESS, s') \<and> mf_current (ks_stateMachine s') = 8 \<and>
    ks_streamState s' = STREAM_STATE_STREAMING \<and> getAvailableViewSize s = (STATUS_SUCCESS, d, n) \<and>
    ks_callbacks s' = ks_callbacks s @ (if ongoing (ks_pUploadInfoQueue s) then [] else [streamDataAvailableFn (first_ready (ks_pUploadInfoQueue s) h) d n]) \<and>
    ks_pUploadInfoQueue s' = ks_pUploadInfoQueue s @ [Some ((newUpload h t)\<lparr>uh_state := UPLOAD_HANDLE_STATE_READY\<rparr>)]"
proof -
  let ?us = "ks_pUploadInfoQueue s"
  obtain s1 t where 1: "ks_pUploadInfoQueue s1 = ?us @ [Some (newUpload h t)]" "ks_callbacks s1 = ks_callbacks s"
    "getAvailableViewSize s1 = getAvailableViewSize s"
    and run: "\<And>s2. readyNewHandle e s1 = (STATUS_SUCCESS, s2) \<Longrightarrow> \<exists>s'. putStreamResult e SERVICE_CALL_RESULT_OK h True True s = Some (STATUS_SUCCESS, s') \<and>
       mf_current (ks_stateMachine s') = 8 \<and> ks_streamState s' = STREAM_STATE_STREAMING \<and> ks_callbacks s' = ks_callbacks s2 \<and>
       ks_pUploadInfoQueue s' = ks_pUploadInfoQueue s2"
    by (rule put_run [OF assms(1-4), of e]) blast
  let ?u = "(newUpload h t)\<lparr>uh_state := UPLOAD_HANDLE_STATE_READY\<rparr>"
  let ?s = "update_upload (length ?us) (uh_state_update (\<lambda>_. UPLOAD_HANDLE_STATE_READY)) s1"
  obtain d n where ready: "readyNewHandle e s1 = (let s = ?s in if ongoing ?us then (STATUS_SUCCESS, s)
      else (env_dataAvailable e s (first_ready ?us h), call (streamDataAvailableFn (first_ready ?us h) d n) s))"
    and q: "ks_pUploadInfoQueue ?s = ?us @ [Some ?u]" and view: "getAvailableViewSize s1 = (STATUS_SUCCESS, d, n)"
    by (rule ready_new [OF queue 1(1), of e])
  let ?s2 = "if ongoing ?us then ?s else call (streamDataAvailableFn (first_ready ?us h) d n) ?s"
  have "readyNewHandle e s1 = (STATUS_SUCCESS, ?s2)" using ready app by (simp add: Let_def)
  from run [OF this] obtain s' where s': "putStreamResult e SERVICE_CALL_RESULT_OK h True True s = Some (STATUS_SUCCESS, s')"
    "mf_current (ks_stateMachine s') = 8" "ks_streamState s' = STREAM_STATE_STREAMING"
    "ks_callbacks s' = ks_callbacks ?s2" "ks_pUploadInfoQueue s' = ks_pUploadInfoQueue ?s2"
    by blast
  have "ks_callbacks ?s = ks_callbacks s" using 1(2) by (simp add: update_upload_def)
  then have "ks_callbacks ?s2 = ks_callbacks s @ (if ongoing ?us then [] else [streamDataAvailableFn (first_ready ?us h) d n])"
    "ks_pUploadInfoQueue ?s2 = ?us @ [Some ?u]"
    using q by (simp_all add: call_def)
  then show ?thesis using s' view 1(3) by metis
qed

theorem putStream_opens_session_witness:
  "(\<exists>s' d n. putStreamResult demo_env SERVICE_CALL_RESULT_OK 7 True True demo_put = Some (STATUS_SUCCESS, s') \<and>
      ks_callbacks s' = [streamDataAvailableFn 7 d n]) \<and>
   (\<exists>s'. putStreamResult demo_env SERVICE_CALL_RESULT_OK 7 True True (demo_put\<lparr>ks_pUploadInfoQueue := [Some demo_upload]\<rparr>) = Some (STATUS_SUCCESS, s') \<and>
      ks_callbacks s' = [])"
proof -
  let ?s = "demo_put\<lparr>ks_pUploadInfoQueue := [Some demo_upload]\<rparr>"
  have h: "IS_VALID_UPLOAD_HANDLE 7" "ks_callbacks demo_put = []" "\<And>s h. env_dataAvailable demo_env s h = STATUS_SUCCESS"
    by (simp_all add: IS_VALID_UPLOAD_HANDLE_def INVALID_UPLOAD_HANDLE_VALUE_def demo_put_def demo_stream_def demo_env_def)
  have "\<not> ongoing []" "first_ready [] 7 = 7" by (simp_all add: ongoing_def first_ready_def first_handle_def)
  then have 1: "\<exists>s' d n. putStreamResult demo_env SERVICE_CALL_RESULT_OK 7 True True demo_put = Some (STATUS_SUCCESS, s') \<and>
      ks_callbacks s' = [streamDataAvailableFn 7 d n]"
    using putStream_opens_session [of demo_put 7 demo_env] demo_put_ok h by fastforce
  have "stream_ok ?s" "mf_current (ks_stateMachine ?s) = 7" "ks_streamState ?s \<noteq> STREAM_STATE_STOPPED" "None \<notin> set (ks_pUploadInfoQueue ?s)"
    "ongoing (ks_pUploadInfoQueue ?s)" "ks_callbacks ?s = []"
    using demo_put_ok h by (simp_all add: stream_ok_def client_ok_def ongoing_def IS_UPLOAD_HANDLE_IN_STATE_def demo_upload_def)
  moreover have "Some u \<in> set (ks_pUploadInfoQueue ?s) \<Longrightarrow> \<not> IS_UPLOAD_HANDLE_IN_STATE u UPLOAD_HANDLE_STATE_NEW" for u
    by (simp add: IS_UPLOAD_HANDLE_IN_STATE_def demo_upload_def)
  ultimately have "\<exists>s'. putStreamResult demo_env SERVICE_CALL_RESULT_OK 7 True True ?s = Some (STATUS_SUCCESS, s') \<and> ks_callbacks s' = []"
    using putStream_opens_session [of ?s 7 demo_env] h by fastforce
  with 1 show ?thesis by blast
qed

text \<open>C40. When the application fails the notification about a session that has just been opened, the result of the put stream call frees the structure of
  the session but leaves it in the queue: the stream stays where it was, with a dangling session.\<close>

theorem putStream_failed_notification_dangles:
  assumes "stream_ok s" "mf_current (ks_stateMachine s) = 7" "ks_streamState s \<noteq> STREAM_STATE_STOPPED" "IS_VALID_UPLOAD_HANDLE h"
    and ended: "\<And>x. x \<in> set (ks_pUploadInfoQueue s) \<Longrightarrow> \<exists>u. x = Some u \<and> \<not> IS_UPLOAD_HANDLE_IN_STATE u UPLOAD_HANDLE_STATE_ACTIVE"
    and app: "\<And>s. env_dataAvailable e s h = failure" "STATUS_FAILED failure"
  shows "\<exists>s' u. putStreamResult e SERVICE_CALL_RESULT_OK h True True s = Some (failure, s') \<and> mf_current (ks_stateMachine s') = 7 \<and>
    ks_freed s' = ks_freed s @ [h] \<and> ks_pUploadInfoQueue s' = ks_pUploadInfoQueue s @ [Some u] \<and> uh_handle u = h"
proof -
  obtain s1 t where s1: "stream_ok s1" "ks_stateMachine s1 = ks_stateMachine s" "ks_streamState s1 = ks_streamState s" "ks_result s1 = SERVICE_CALL_RESULT_OK"
    "ks_pUploadInfoQueue s1 = ks_pUploadInfoQueue s @ [Some (newUpload h t)]" "ks_callbacks s1 = ks_callbacks s" "ks_freed s1 = ks_freed s"
    and run: "\<And>st s2. iterateStreamStateMachine e s1 = Some (st, s2) \<Longrightarrow> putStreamResult e SERVICE_CALL_RESULT_OK h True True s =
       Some (st, unlockStream (if STATUS_FAILED st then s2\<lparr>ks_freed := ks_freed s2 @ [h]\<rparr> else s2))"
    by (rule put_start [OF assms(1,2,4), of e]) blast
  let ?s1 = "s1\<lparr>ks_keepIteratingStateMachine := False\<rparr>" and ?u = "(newUpload h t)\<lparr>uh_state := UPLOAD_HANDLE_STATE_READY\<rparr>"
  have q: "ks_pUploadInfoQueue ?s1 = ks_pUploadInfoQueue s @ [Some (newUpload h t)]" using s1 by simp
  let ?us = "ks_pUploadInfoQueue s"
  have old: "None \<notin> set ?us" "\<And>u. Some u \<in> set ?us \<Longrightarrow> m AND 63 = m \<Longrightarrow> \<not> IS_UPLOAD_HANDLE_IN_STATE u m" for m
    using ended inactive_state by fastforce+
  then have no: "\<not> ongoing ?us" by (auto simp: ongoing_def)
  have "filter (\<lambda>u. IS_UPLOAD_HANDLE_IN_STATE u UPLOAD_HANDLE_STATE_READY) (map the ?us) = []"
    using ended inactive_state [of _ 2] by (fastforce simp: filter_empty_conv)
  then have fst: "first_ready ?us h = h" by (simp add: first_ready_def first_handle_def)
  obtain d n where ready: "readyNewHandle e ?s1 = (env_dataAvailable e (update_upload (length ?us) (uh_state_update (\<lambda>_. UPLOAD_HANDLE_STATE_READY)) ?s1) h,
      call (streamDataAvailableFn h d n) (update_upload (length ?us) (uh_state_update (\<lambda>_. UPLOAD_HANDLE_STATE_READY)) ?s1))"
    "ks_pUploadInfoQueue (update_upload (length ?us) (uh_state_update (\<lambda>_. UPLOAD_HANDLE_STATE_READY)) ?s1) = ?us @ [Some ?u]"
    by (rule ready_new [OF old(1) old(2) q, of e]) (use no fst in \<open>auto simp: Let_def\<close>)
  let ?s2 = "call (streamDataAvailableFn h d n) (update_upload (length (ks_pUploadInfoQueue s)) (uh_state_update (\<lambda>_. UPLOAD_HANDLE_STATE_READY)) ?s1)"
  have fr: "stream_from e 7 ?s1 = (failure, 0, ?s2)" using ready(1) app s1 assms(3) by (simp add: stream_callbacks fromPutStreamState_def)
  have "iterateStreamStateMachine e s1 = Some (failure, ?s2)"
    by (rule iterate_refused [OF s1(1) _ fr]) (use assms(2) app s1(2) in \<open>simp_all add: STATUS_FAILED_def\<close>)
  from run [OF this] have "putStreamResult e SERVICE_CALL_RESULT_OK h True True s = Some (failure, unlockStream (?s2\<lparr>ks_freed := ks_freed ?s2 @ [h]\<rparr>))"
    using app(2) by simp
  moreover have "ks_stateMachine ?s2 = ks_stateMachine s" "ks_freed ?s2 = ks_freed s" "ks_pUploadInfoQueue ?s2 = ks_pUploadInfoQueue s @ [Some ?u]"
    using s1 ready(2) by (simp_all add: call_def update_upload_def)
  ultimately show ?thesis using assms(2)
    by (intro exI [of _ "unlockStream (?s2\<lparr>ks_freed := ks_freed ?s2 @ [h]\<rparr>)"] exI [of _ ?u]) (simp add: unlockStream_def newUpload_def)
qed

text \<open>The application that does not take the data.\<close>

definition failing_env :: "nat stream_env" where
  "failing_env = demo_env\<lparr>env_dataAvailable := \<lambda>_ _. STATUS_INVALID_ARG\<rparr>"

theorem putStream_failed_notification_dangles_witness:
  "\<exists>s'. putStreamResult failing_env SERVICE_CALL_RESULT_OK 7 True True demo_put = Some (STATUS_INVALID_ARG, s') \<and> ks_freed s' = [7]"
proof -
  have "IS_VALID_UPLOAD_HANDLE 7" "ks_freed demo_put = []" "\<And>s. env_dataAvailable failing_env s 7 = STATUS_INVALID_ARG"
    by (simp_all add: IS_VALID_UPLOAD_HANDLE_def INVALID_UPLOAD_HANDLE_VALUE_def demo_put_def demo_stream_def failing_env_def)
  then show ?thesis using putStream_failed_notification_dangles [of demo_put 7 failing_env STATUS_INVALID_ARG] demo_put_ok by fastforce
qed

subsection \<open>The end of a session\<close>

text \<open>Where a stream goes on after its session has ended with a result: at the endpoint after a regular end or a limit, at the token when it was not
  authorised, at the put stream call after a timeout, else it is described again.\<close>

definition recovery_position :: "SERVICE_CALL_RESULT \<Rightarrow> nat" where
  "recovery_position r =
     (if r \<in> {200, 10401, 10001, 10002} then 4 else if r \<in> {401, 403} then 5 else if SERVICE_CALL_RESULT_IS_A_TIMEOUT r then 7 else 1)"

lemma check_success: "serviceCallResultCheck r = STATUS_SUCCESS \<longleftrightarrow> r = 200 \<or> r = 10401"
  unfolding serviceCallResultCheck_def by (simp split: if_split)

lemma check_limits:
  "serviceCallResultCheck r = STATUS_SERVICE_CALL_DEVICE_LIMIT_ERROR \<longleftrightarrow> r = 10001"
  "serviceCallResultCheck r = STATUS_SERVICE_CALL_STREAM_LIMIT_ERROR \<longleftrightarrow> r = 10002"
  unfolding serviceCallResultCheck_def by (simp_all split: if_split)

lemma check_not_authorized: "serviceCallResultCheck r = STATUS_SERVICE_CALL_NOT_AUTHORIZED_ERROR \<longleftrightarrow> r = 401 \<or> r = 403"
  unfolding serviceCallResultCheck_def by (simp split: if_split)

lemma check_timeout: "serviceCallResultCheck r = STATUS_SERVICE_CALL_TIMEOUT_ERROR \<longleftrightarrow> SERVICE_CALL_RESULT_IS_A_TIMEOUT r"
  unfolding serviceCallResultCheck_def SERVICE_CALL_RESULT_IS_A_TIMEOUT_def by (simp split: if_split)

lemma recovery_state:
  "recovery_position r = 4 \<Longrightarrow> recoveryState (serviceCallResultCheck r) = STREAM_STATE_GET_ENDPOINT"
  "recovery_position r = 5 \<Longrightarrow> recoveryState (serviceCallResultCheck r) = STREAM_STATE_GET_TOKEN"
  "recovery_position r = 7 \<Longrightarrow> recoveryState (serviceCallResultCheck r) = STREAM_STATE_READY"
  "recovery_position r = 1 \<Longrightarrow> recoveryState (serviceCallResultCheck r) \<in> {STREAM_STATE_DESCRIBE, STREAM_STATE_NEW}"
  "recovery_position r \<in> {1, 4, 5, 7}"
proof -
  define c where "c = serviceCallResultCheck r"
  note chk = check_success [of r, folded c_def] check_limits [of r, folded c_def] check_not_authorized [of r, folded c_def] check_timeout [of r, folded c_def]
  have p: "recovery_position r =
     (if c \<in> {STATUS_SUCCESS, STATUS_SERVICE_CALL_DEVICE_LIMIT_ERROR, STATUS_SERVICE_CALL_STREAM_LIMIT_ERROR} then 4
      else if c = STATUS_SERVICE_CALL_NOT_AUTHORIZED_ERROR then 5 else if c = STATUS_SERVICE_CALL_TIMEOUT_ERROR then 7 else 1)"
    unfolding recovery_position_def using chk by (simp only: insert_iff empty_iff disj_assoc disj_ac simp_thms)
  show "recovery_position r = 4 \<Longrightarrow> recoveryState (serviceCallResultCheck r) = STREAM_STATE_GET_ENDPOINT"
    "recovery_position r = 5 \<Longrightarrow> recoveryState (serviceCallResultCheck r) = STREAM_STATE_GET_TOKEN"
    "recovery_position r = 7 \<Longrightarrow> recoveryState (serviceCallResultCheck r) = STREAM_STATE_READY"
    "recovery_position r = 1 \<Longrightarrow> recoveryState (serviceCallResultCheck r) \<in> {STREAM_STATE_DESCRIBE, STREAM_STATE_NEW}"
    "recovery_position r \<in> {1, 4, 5, 7}"
    unfolding p recoveryState_def c_def [symmetric] by (auto split: if_splits)
qed

text \<open>The way of a stream in the new or the ready state that is not stopped.\<close>

lemma iterate_from_new:
  assumes "stream_ok s" "mf_current (ks_stateMachine s) = 0" "ks_streamState s \<noteq> STREAM_STATE_STOPPED"
  obtains st s' where "iterateStreamStateMachine e s = Some (st, s')" "mf_current (ks_stateMachine s') = 1" "mf_localStateRetryCount (ks_stateMachine s') = 0"
proof -
  have "stream_from e 0 (s\<lparr>ks_keepIteratingStateMachine := False\<rparr>) = (STATUS_SUCCESS, STREAM_STATE_DESCRIBE, s\<lparr>ks_keepIteratingStateMachine := False\<rparr>)"
    using assms(3) by (simp add: stream_callbacks fromNewStreamState_def)
  then show thesis by (rule iterate_enter_last [OF assms(1,2) _ stream_find(2)]) (use that in auto)
qed

lemma iterate_from_ready:
  assumes "stream_ok s" "mf_current (ks_stateMachine s) = 6" "ks_streamState s \<noteq> STREAM_STATE_STOPPED"
  obtains st s' where "iterateStreamStateMachine e s = Some (st, s')" "mf_current (ks_stateMachine s') = 7" "mf_localStateRetryCount (ks_stateMachine s') = 0"
proof -
  have "stream_from e 6 (s\<lparr>ks_keepIteratingStateMachine := False\<rparr>) = (STATUS_SUCCESS, STREAM_STATE_PUT_STREAM, s\<lparr>ks_keepIteratingStateMachine := False\<rparr>)"
    using assms(3) by (simp add: stream_callbacks fromReadyStreamState_def)
  then show thesis by (rule iterate_enter_last [OF assms(1,2) _ stream_find(8)]) (use that in auto)
qed

text \<open>The ready state primes the machine for a stream that is ready.\<close>

lemma ready_primes:
  assumes "executeReadyStreamState e t s = (STATUS_SUCCESS, a, s')" "ks_streamState s = STREAM_STATE_READY"
  shows "ks_keepIteratingStateMachine s'"
proof -
  obtain st s1 where "broadcast (s\<lparr>ks_streamReady := True\<rparr>) = (st, s1)" "ks_streamState s1 = STREAM_STATE_READY"
    using assms(2) by (cases "broadcast (s\<lparr>ks_streamReady := True\<rparr>)") (auto simp: broadcast_def set_env_def call_def split: prod.splits)
  moreover have "ks_streamState (call c s1) = ks_streamState s1" for c by (simp add: call_def)
  ultimately show ?thesis using assms(1) by (auto simp: executeReadyStreamState_def Let_def split: prod.splits if_splits)
qed

lemma recover_from_stopped:
  assumes ok: "stream_ok s" and i: "mf_current (ks_stateMachine s) = 9" and rec: "ks_recoverOnError s"
  obtains st s' where "iterateStreamStateMachine e s = Some (st, s')"
    "mf_current (ks_stateMachine s') = recovery_position (ks_result s) \<or>
     recovery_position (ks_result s) = 7 \<and> mf_current (ks_stateMachine s') = 6 \<and> st \<noteq> STATUS_SUCCESS"
    "mf_localStateRetryCount (ks_stateMachine s') = 0"
proof -
  let ?r = "ks_result s" and ?n = "recoveryState (serviceCallResultCheck (ks_result s))"
  let ?s1 = "s\<lparr>ks_keepIteratingStateMachine := False, ks_streamState := STREAM_STATE_READY\<rparr>"
  have fr: "stream_from e 9 (s\<lparr>ks_keepIteratingStateMachine := False\<rparr>) = (STATUS_SUCCESS, ?n, ?s1)"
    using rec by (simp add: stream_callbacks fromStoppedStreamState_def Let_def)
  have ready: "ks_streamState s2 = STREAM_STATE_READY" if "env_moves ?s1 s2" for s2 using env_moves_frame [OF that] by simp
  consider (last) p where "findState ?n 0 (STREAM_STATE_MACHINE_STATES e) = Some p" "p \<in> {1, 4, 5}" "recovery_position ?r = p"
    | (new) "findState ?n 0 (STREAM_STATE_MACHINE_STATES e) = Some 0" "recovery_position ?r = 1"
    | (ready) "findState ?n 0 (STREAM_STATE_MACHINE_STATES e) = Some 6" "recovery_position ?r = 7"
    using recovery_state [of ?r] by (auto simp: stream_find)
  then show thesis
  proof cases
    case last
    obtain s2 t st a s' where "iterateStreamStateMachine e s = Some (st, s'\<lparr>ks_stateMachine := \<lparr>mf_current = p, mf_localStateRetryCount = 0, mf_stateTransitionWaitTime = t\<rparr>\<rparr>)"
      by (rule iterate_enter_last [OF ok i fr last(1)]) (use last(2) in auto)
    then show thesis using that last(3) by simp
  next
    case new
    obtain s2 t st a s' where 1: "env_moves ?s1 s2" "stream_exec e 0 t s2 = (st, a, s')"
      "stream_ok (s'\<lparr>ks_stateMachine := \<lparr>mf_current = 0, mf_localStateRetryCount = 0, mf_stateTransitionWaitTime = t\<rparr>\<rparr>)"
      "iterateStreamStateMachine e s = (let s = s'\<lparr>ks_stateMachine := \<lparr>mf_current = 0, mf_localStateRetryCount = 0, mf_stateTransitionWaitTime = t\<rparr>\<rparr>
        in if STATUS_FAILED st then Some (st, s) else if ks_keepIteratingStateMachine s then iterateStreamStateMachine e s else Some (STATUS_SUCCESS, s))"
      by (rule iterate_enter [OF ok i fr new(1)]) auto
    have s': "st = STATUS_SUCCESS" "s' = s2\<lparr>ks_keepIteratingStateMachine := True\<rparr>" using 1(2) by (simp_all add: stream_callbacks executeNewStreamState_def)
    obtain st' s'' where "iterateStreamStateMachine e (s'\<lparr>ks_stateMachine := \<lparr>mf_current = 0, mf_localStateRetryCount = 0, mf_stateTransitionWaitTime = t\<rparr>\<rparr>) = Some (st', s'')"
      "mf_current (ks_stateMachine s'') = 1" "mf_localStateRetryCount (ks_stateMachine s'') = 0"
      by (rule iterate_from_new [OF 1(3), of e]) (use ready [OF 1(1)] s' in auto)
    then show thesis using that 1(4) s' new(2) by simp
  next
    case ready
    obtain s2 t st a s' where 1: "env_moves ?s1 s2" "client_ok s2" "stream_exec e 6 t s2 = (st, a, s')"
      "stream_ok (s'\<lparr>ks_stateMachine := \<lparr>mf_current = 6, mf_localStateRetryCount = 0, mf_stateTransitionWaitTime = t\<rparr>\<rparr>)"
      "iterateStreamStateMachine e s = (let s = s'\<lparr>ks_stateMachine := \<lparr>mf_current = 6, mf_localStateRetryCount = 0, mf_stateTransitionWaitTime = t\<rparr>\<rparr>
        in if STATUS_FAILED st then Some (st, s) else if ks_keepIteratingStateMachine s then iterateStreamStateMachine e s else Some (STATUS_SUCCESS, s))"
      by (rule iterate_enter [OF ok i fr ready(1)]) auto
    show thesis
    proof (cases "st = STATUS_SUCCESS")
      case False
      then show thesis using that 1(5) ready(2) by (simp add: STATUS_FAILED_def)
    next
      case True
      have x: "executeReadyStreamState e t s2 = (STATUS_SUCCESS, a, s')" using 1(3) True by (simp add: stream_callbacks)
      have k: "ks_keepIteratingStateMachine s'" by (rule ready_primes [OF x]) (use env_moves_frame [OF 1(1)] in simp)
      have "exec_moves 6 st s2 s'" using stream_exec_moves [OF 1(2) _ 1(3)] by simp
      then have "ks_streamState s' = STREAM_STATE_READY" using env_moves_frame [OF 1(1)] by (simp add: exec_moves_def)
      then obtain st' s'' where "iterateStreamStateMachine e (s'\<lparr>ks_stateMachine := \<lparr>mf_current = 6, mf_localStateRetryCount = 0, mf_stateTransitionWaitTime = t\<rparr>\<rparr>) = Some (st', s'')"
        "mf_current (ks_stateMachine s'') = 7" "mf_localStateRetryCount (ks_stateMachine s'') = 0"
        by (elim iterate_from_ready [OF 1(4), of e, rotated 2]) auto
      then show thesis using that 1(5) k True ready(2) by simp
    qed
  qed
qed

text \<open>The only session of a stream ends and its connection is gone.\<close>

lemma terminate_only:
  assumes q: "ks_pUploadInfoQueue s = [Some u]" "uh_handle u = h" and h: "IS_VALID_UPLOAD_HANDLE h"
  obtains x d c where "terminateSessions e h False s =
    (STATUS_SUCCESS, True, s\<lparr>ks_connectionState := c, ks_pUploadInfoQueue := [], ks_pKinesisVideoClient := (ks_pKinesisVideoClient s)\<lparr>kvc_env := x\<rparr>,
       ks_diagnostics := d\<rparr>)"
proof -
  let ?u = "u\<lparr>uh_state := UPLOAD_HANDLE_STATE_TERMINATED\<rparr>"
  have u: "upload s 0 = u" by (simp add: upload_def q)
  define s1 where "s1 = update_upload 0 (uh_state_update (\<lambda>_. UPLOAD_HANDLE_STATE_TERMINATED)) s"
  have s1: "s1 = s\<lparr>ks_pUploadInfoQueue := [Some ?u]\<rparr>" by (simp add: s1_def update_upload_def upload_def q)
  define c where "c = (if IS_UPLOAD_HANDLE_IN_STATE u UPLOAD_HANDLE_STATE_NOT_IN_USE then ks_connectionState s else UPLOAD_CONNECTION_STATE_IN_USE)"
  have 2: "(if IS_UPLOAD_HANDLE_IN_STATE u UPLOAD_HANDLE_STATE_NOT_IN_USE then s1 else decideConnection e 0 s1) =
      s\<lparr>ks_pUploadInfoQueue := [Some ?u], ks_connectionState := c\<rparr>"
    by (cases s) (simp add: s1 c_def decideConnection_def getStreamUploadInfoWithState_def IS_UPLOAD_HANDLE_IN_STATE_def)
  obtain x d where 3: "snd (streamTime (s\<lparr>ks_connectionState := c, ks_pUploadInfoQueue := []\<rparr>)) =
      s\<lparr>ks_connectionState := c, ks_pUploadInfoQueue := [], ks_pKinesisVideoClient := (ks_pKinesisVideoClient s)\<lparr>kvc_env := x\<rparr>, ks_diagnostics := d\<rparr>"
    using env_moves_steps(2) [of "s\<lparr>ks_connectionState := c, ks_pUploadInfoQueue := []\<rparr>"] unfolding env_moves_def by auto
  let ?s = "s\<lparr>ks_connectionState := c, ks_pUploadInfoQueue := [], ks_pKinesisVideoClient := (ks_pKinesisVideoClient s)\<lparr>kvc_env := x\<rparr>, ks_diagnostics := d\<rparr>"
  have "deleteStreamUploadInfo 0 (s\<lparr>ks_pUploadInfoQueue := [Some ?u], ks_connectionState := c\<rparr>) = ?s"
    unfolding deleteStreamUploadInfo_def 3 [symmetric] by simp
  then have "terminateOne e 0 False s = (True, ?s)"
    unfolding terminateOne_def Let_def u s1_def [symmetric] 2 by (simp add: getStreamUploadInfoWithState_def)
  then have t: "terminateSessions e h False s =
      (STATUS_SUCCESS, True, if parkedAtTimecodeBase ?s then ?s\<lparr>ks_connectionState := UPLOAD_CONNECTION_STATE_NOT_IN_USE\<rparr> else ?s)"
    using h q by (simp add: terminateSessions_def getStreamUploadInfo_def)
  have eq: "?s\<lparr>ks_connectionState := c'\<rparr> = s\<lparr>ks_connectionState := c', ks_pUploadInfoQueue := [],
      ks_pKinesisVideoClient := (ks_pKinesisVideoClient s)\<lparr>kvc_env := x\<rparr>, ks_diagnostics := d\<rparr>" for c'
    by (cases s) simp
  show thesis
  proof (cases "parkedAtTimecodeBase ?s")
    case True
    from t [unfolded if_P [OF True] eq] show thesis by (rule that)
  next
    case False
    from t [unfolded if_not_P [OF False]] show thesis by (rule that)
  qed
qed

lemma respawn_recovers:
  assumes ok: "stream_ok s" and i: "mf_current (ks_stateMachine s) \<in> {7, 8}" and rec: "ks_recoverOnError s"
    and view: "getAvailableViewSize s = (STATUS_SUCCESS, d, n)"
  shows "\<exists>st s'. respawn e r s = Some (st, s') \<and> stream_ok s' \<and> stream_frame s s' \<and>
    (if SERVICE_CALL_RESULT_IS_A_TIMEOUT r \<and> n = 0
     then st = STATUS_SUCCESS \<and> mf_current (ks_stateMachine s') = 9 \<and> ks_streamState s' = STREAM_STATE_NEW \<and> ks_resetGeneratorOnKeyFrame s' \<and> ks_skipNonKeyFrames s'
     else mf_current (ks_stateMachine s') = recovery_position r \<or>
       recovery_position r = 7 \<and> mf_current (ks_stateMachine s') = 6 \<and> st \<noteq> STATUS_SUCCESS)"
proof -
  define s0 where "s0 = s\<lparr>ks_streamState := STREAM_STATE_STOPPED, ks_result := r\<rparr>"
  have ok0: "stream_ok s0" and i0: "mf_current (ks_stateMachine s0) = mf_current (ks_stateMachine s)" using ok by (simp_all add: s0_def stream_ok_def client_ok_def)
  have fr0: "stream_frame s s0" by (simp add: s0_def stream_frame_def handles_def)
  have "acceptsEntry e (s\<lparr>ks_streamState := STREAM_STATE_STOPPED\<rparr>) STREAM_STATE_STOPPED = STATUS_SUCCESS"
    using accepts_entry [OF _ stream_find(10) [of e], of "s\<lparr>ks_streamState := STREAM_STATE_STOPPED\<rparr>"] i
    by (auto simp: stream_state_nth streamMachineState_def)
  then have run: "respawn e r s = iterateStreamStateMachine e s0" by (simp add: respawn_def s0_def Let_def)
  obtain st s' where it: "iterateStreamStateMachine e s0 = Some (st, s')" "stream_ok s'" "stream_frame s0 s'"
    using iterate_returns [OF ok0] by blast
  let ?s0 = "s0\<lparr>ks_keepIteratingStateMachine := False\<rparr>"
  have "stream_from e (mf_current (ks_stateMachine s0)) ?s0 = (STATUS_SUCCESS, STREAM_STATE_STOPPED, ?s0)"
    using i i0 by (auto simp: stream_callbacks fromPutStreamState_def fromStreamingStreamState_def s0_def)
  then obtain s2 t st1 a s3 where 1: "env_moves ?s0 s2" "\<not> ks_keepIteratingStateMachine s2" "stream_exec e 9 t s2 = (st1, a, s3)"
    "stream_ok (s3\<lparr>ks_stateMachine := \<lparr>mf_current = 9, mf_localStateRetryCount = 0, mf_stateTransitionWaitTime = t\<rparr>\<rparr>)"
    "iterateStreamStateMachine e s0 = (let s = s3\<lparr>ks_stateMachine := \<lparr>mf_current = 9, mf_localStateRetryCount = 0, mf_stateTransitionWaitTime = t\<rparr>\<rparr>
      in if STATUS_FAILED st1 then Some (st1, s) else if ks_keepIteratingStateMachine s then iterateStreamStateMachine e s else Some (STATUS_SUCCESS, s))"
    by (rule iterate_enter [OF ok0 refl _ stream_find(10)]) (use i i0 in auto)
  let ?s3 = "s3\<lparr>ks_stateMachine := \<lparr>mf_current = 9, mf_localStateRetryCount = 0, mf_stateTransitionWaitTime = t\<rparr>\<rparr>"
  note mv = env_moves_frame [OF 1(1)]
  have s2: "ks_result s2 = r" "ks_recoverOnError s2" using mv rec by (simp_all add: s0_def stream_frame_def)
  have v: "getAvailableViewSize (s2\<lparr>ks_connectionDroppedResult := r\<rparr>) = (STATUS_SUCCESS, d, n)"
    unfolding view [symmetric] by (rule available_cong) (use mv in \<open>simp_all add: s0_def stream_frame_def\<close>)
  have "(if SERVICE_CALL_RESULT_IS_A_TIMEOUT r \<and> n = 0
     then st = STATUS_SUCCESS \<and> mf_current (ks_stateMachine s') = 9 \<and> ks_streamState s' = STREAM_STATE_NEW \<and> ks_resetGeneratorOnKeyFrame s' \<and> ks_skipNonKeyFrames s'
     else mf_current (ks_stateMachine s') = recovery_position r \<or>
       recovery_position r = 7 \<and> mf_current (ks_stateMachine s') = 6 \<and> st \<noteq> STATUS_SUCCESS)"
  proof (cases "SERVICE_CALL_RESULT_IS_A_TIMEOUT r \<and> n = 0")
    case True
    then have "st1 = STATUS_SUCCESS" "s3 = s2\<lparr>ks_connectionDroppedResult := r, ks_resetGeneratorOnKeyFrame := True, ks_skipNonKeyFrames := True, ks_streamState := STREAM_STATE_NEW\<rparr>"
      using 1(3) v by (simp_all add: stream_callbacks executeStoppedStreamState_def s2)
    then have "st = STATUS_SUCCESS" "s' = ?s3" "ks_streamState s3 = STREAM_STATE_NEW" "ks_resetGeneratorOnKeyFrame s3" "ks_skipNonKeyFrames s3"
      using 1(2,5) it(1) by simp_all
    then show ?thesis using True by simp
  next
    case False
    then have 2: "st1 = STATUS_SUCCESS" "s3 = s2\<lparr>ks_connectionDroppedResult := r, ks_keepIteratingStateMachine := True\<rparr>"
      using 1(3) v by (auto simp: stream_callbacks executeStoppedStreamState_def s2 Let_def split: if_splits)
    then have rs: "ks_result ?s3 = r" "ks_recoverOnError ?s3" "mf_current (ks_stateMachine ?s3) = 9" using s2 by simp_all
    obtain st' s'' where "iterateStreamStateMachine e ?s3 = Some (st', s'')"
      "mf_current (ks_stateMachine s'') = recovery_position (ks_result ?s3) \<or>
       recovery_position (ks_result ?s3) = 7 \<and> mf_current (ks_stateMachine s'') = 6 \<and> st' \<noteq> STATUS_SUCCESS"
      "mf_localStateRetryCount (ks_stateMachine s'') = 0"
      by (rule recover_from_stopped [OF 1(4) rs(3,2)])
    then show ?thesis using 1(5) it(1) 2 False unfolding rs(1) by (cases "SERVICE_CALL_RESULT_IS_A_TIMEOUT r") simp_all
  qed
  then show ?thesis using run it stream_frame_trans [OF fr0 it(3)] by auto
qed

text \<open>C7. The end of the only session of a stream, whose connection is gone: the session is removed, and a stream that recovers from errors is back, in one
  call, in the state that fits the result: the endpoint after a regular end or a limit, the token after a refused authorisation, the put stream call after a
  timeout (or, when the application fails there, the ready state with an error), else the description. Only after a timeout with nothing left to send it is
  parked in the stopped state as a new stream, with the generator to be reset at the next key frame. The view and the parser are not touched.\<close>

theorem session_end_recovers:
  assumes "stream_ok s" "mf_current (ks_stateMachine s) \<in> {7, 8}" "ks_recoverOnError s"
    and "ks_pUploadInfoQueue s = [Some u]" "IS_VALID_UPLOAD_HANDLE (uh_handle u)" "r \<noteq> SERVICE_CALL_STREAM_AUTH_IN_GRACE_PERIOD"
  shows "\<exists>st s' d n. streamTerminatedEvent e (Some s) (uh_handle u) r False = Some (st, Some s') \<and> getAvailableViewSize s = (STATUS_SUCCESS, d, n) \<and>
    ks_pUploadInfoQueue s' = [] \<and> ks_pView s' = ks_pView s \<and> kvs_fragmentAckParser s' = kvs_fragmentAckParser s \<and> kvs_lock s' = kvs_lock s \<and>
    (if SERVICE_CALL_RESULT_IS_A_TIMEOUT r \<and> n = 0
     then st = STATUS_SUCCESS \<and> mf_current (ks_stateMachine s') = 9 \<and> ks_streamState s' = STREAM_STATE_NEW \<and> ks_resetGeneratorOnKeyFrame s' \<and> ks_skipNonKeyFrames s'
     else mf_current (ks_stateMachine s') = recovery_position r \<or>
       recovery_position r = 7 \<and> mf_current (ks_stateMachine s') = 6 \<and> st \<noteq> STATUS_SUCCESS)"
proof -
  let ?s = "lockStream s"
  obtain x dg c where t: "terminateSessions e (uh_handle u) False ?s = (STATUS_SUCCESS, True, ?s\<lparr>ks_connectionState := c, ks_pUploadInfoQueue := [],
       ks_pKinesisVideoClient := (ks_pKinesisVideoClient ?s)\<lparr>kvc_env := x\<rparr>, ks_diagnostics := dg\<rparr>)"
    by (rule terminate_only [of ?s u "uh_handle u" e]) (use assms(4,5) in auto)
  define s1 where "s1 = ?s\<lparr>ks_connectionState := c, ks_pUploadInfoQueue := [], ks_pKinesisVideoClient := (ks_pKinesisVideoClient ?s)\<lparr>kvc_env := x\<rparr>, ks_diagnostics := dg\<rparr>"
  obtain d n where view: "getAvailableViewSize s = (STATUS_SUCCESS, d, n)" using getAvailableViewSize_ok by blast
  have v1: "getAvailableViewSize s1 = (STATUS_SUCCESS, d, n)"
    unfolding view [symmetric] by (rule available_cong) (simp_all add: s1_def lockStream_def)
  have ok1: "stream_ok s1" "mf_current (ks_stateMachine s1) \<in> {7, 8}" "ks_recoverOnError s1"
    using assms(1,2,3) by (simp_all add: s1_def lockStream_def stream_ok_def client_ok_def)
  have sp: "acceptStreamState e s1 SPAWNING_STATES = STATUS_INVALID_STREAM_STATE"
    using ok1(2) by (auto simp: acceptStreamState_def stream_state_nth streamMachineState_def)
  have "spawnSession e r True s1 = respawn e r s1" by (simp add: spawnSession_def sp STATUS_SUCCEEDED_def)
  then obtain st s' where r: "spawnSession e r True s1 = Some (st, s')" "stream_frame s1 s'"
    "(if SERVICE_CALL_RESULT_IS_A_TIMEOUT r \<and> n = 0
     then st = STATUS_SUCCESS \<and> mf_current (ks_stateMachine s') = 9 \<and> ks_streamState s' = STREAM_STATE_NEW \<and> ks_resetGeneratorOnKeyFrame s' \<and> ks_skipNonKeyFrames s'
     else mf_current (ks_stateMachine s') = recovery_position r \<or>
       recovery_position r = 7 \<and> mf_current (ks_stateMachine s') = 6 \<and> st \<noteq> STATUS_SUCCESS)"
    using respawn_recovers [OF ok1 v1, of e r] by auto
  have "streamTerminatedEvent e (Some s) (uh_handle u) r False = Some (st, Some (unlockStream s'))"
    using assms(6) t r(1) by (simp add: streamTerminatedEvent_def s1_def)
  moreover have "ks_pUploadInfoQueue s' = []" "ks_pView s' = ks_pView s" "kvs_fragmentAckParser s' = kvs_fragmentAckParser s" "kvs_lock s' = Suc (kvs_lock s)"
    using r(2) by (simp_all add: stream_frame_def handles_def s1_def lockStream_def)
  ultimately show ?thesis using view r(3)
    by (intro exI [of _ st] exI [of _ "unlockStream s'"] exI [of _ d] exI [of _ n]) (simp add: unlockStream_def)
qed

theorem session_end_recovers_witness:
  "\<exists>st s'. streamTerminatedEvent demo_env (Some (demo_stream demo3)) 5 401 False = Some (st, Some s') \<and> mf_current (ks_stateMachine s') = 5"
proof -
  have "mf_current (ks_stateMachine (demo_stream demo3)) = 8" "ks_recoverOnError (demo_stream demo3)" by (simp_all add: demo_stream_def)
  moreover have "IS_VALID_UPLOAD_HANDLE (uh_handle demo_upload)" by (simp add: IS_VALID_UPLOAD_HANDLE_def INVALID_UPLOAD_HANDLE_VALUE_def)
  ultimately show ?thesis
    using session_end_recovers [OF demo_stream_ok, where r = 401 and e = demo_env and u = demo_upload]
    by (fastforce simp: recovery_position_def SERVICE_CALL_RESULT_IS_A_TIMEOUT_def)
qed

subsection \<open>Describing a stream that does not exist\<close>

text \<open>A stream that does not exist and must not be created is described again and again: the result that it was not found is accepted, the machine goes
  through the stopped state back to the description, and the count of the retries starts anew each time, so their bound is never reached.\<close>

theorem missing_stream_described_again:
  assumes "stream_ok s" "mf_current (ks_stateMachine s) = 1" "ks_streamState s \<noteq> STREAM_STATE_STOPPED" "\<not> ks_allowStreamCreation s" "ks_recoverOnError s"
  shows "\<exists>st s'. describeStreamResult e SERVICE_CALL_RESOURCE_NOT_FOUND pDesc s = Some (st, s') \<and> stream_ok s' \<and> mf_current (ks_stateMachine s') = 1 \<and>
    mf_localStateRetryCount (ks_stateMachine s') = 0 \<and> \<not> ks_allowStreamCreation s' \<and> ks_recoverOnError s'"
proof -
  define m where "m = measured True SERVICE_CALL_RESOURCE_NOT_FOUND s"
  note fld = measured [of True SERVICE_CALL_RESOURCE_NOT_FOUND s, folded m_def]
  have ok: "stream_ok m" unfolding m_def by (rule measured_ok [OF assms(1)])
  have al: "ks_allowStreamCreation m = ks_allowStreamCreation s" using measured_eq [of True SERVICE_CALL_RESOURCE_NOT_FOUND s] by (auto simp: m_def)
  let ?m = "m\<lparr>ks_keepIteratingStateMachine := False\<rparr>"
  have i: "mf_current (ks_stateMachine m) = 1" using fld assms by simp
  have fr: "stream_from e 1 ?m = (STATUS_SUCCESS, STREAM_STATE_STOPPED, ?m)"
    using fld assms(3,4) al by (simp add: stream_callbacks fromDescribeStreamState_def)
  obtain s2 t st1 a s3 where 1: "env_moves ?m s2" "stream_exec e 9 t s2 = (st1, a, s3)"
    "stream_ok (s3\<lparr>ks_stateMachine := \<lparr>mf_current = 9, mf_localStateRetryCount = 0, mf_stateTransitionWaitTime = t\<rparr>\<rparr>)"
    "iterateStreamStateMachine e m = (let s = s3\<lparr>ks_stateMachine := \<lparr>mf_current = 9, mf_localStateRetryCount = 0, mf_stateTransitionWaitTime = t\<rparr>\<rparr>
      in if STATUS_FAILED st1 then Some (st1, s) else if ks_keepIteratingStateMachine s then iterateStreamStateMachine e s else Some (STATUS_SUCCESS, s))"
    by (rule iterate_enter [OF ok i fr stream_find(10)]) auto
  let ?s3 = "s3\<lparr>ks_stateMachine := \<lparr>mf_current = 9, mf_localStateRetryCount = 0, mf_stateTransitionWaitTime = t\<rparr>\<rparr>"
  note mv = env_moves_frame [OF 1(1)]
  have s2: "ks_result s2 = SERVICE_CALL_RESOURCE_NOT_FOUND" "ks_recoverOnError s2" using mv fld assms(5) by (simp_all add: stream_frame_def)
  then have s3: "st1 = STATUS_SUCCESS" "s3 = s2\<lparr>ks_connectionDroppedResult := SERVICE_CALL_RESOURCE_NOT_FOUND, ks_keepIteratingStateMachine := True\<rparr>"
    using 1(2) by (auto simp: stream_callbacks executeStoppedStreamState_def SERVICE_CALL_RESULT_IS_A_TIMEOUT_def Let_def)
  obtain st s' where it: "iterateStreamStateMachine e m = Some (st, s')" "mf_current (ks_stateMachine s') = 1" "mf_localStateRetryCount (ks_stateMachine s') = 0"
  proof (rule recover_from_stopped [OF 1(3), of e])
    fix st s' assume *: "iterateStreamStateMachine e ?s3 = Some (st, s')" "mf_localStateRetryCount (ks_stateMachine s') = 0"
      "mf_current (ks_stateMachine s') = recovery_position (ks_result ?s3) \<or>
       recovery_position (ks_result ?s3) = 7 \<and> mf_current (ks_stateMachine s') = 6 \<and> st \<noteq> STATUS_SUCCESS"
    have "recovery_position (ks_result ?s3) = 1" using s3 s2 by (simp add: recovery_position_def SERVICE_CALL_RESULT_IS_A_TIMEOUT_def)
    then show thesis using that [of st s'] * 1(4) s3 by simp
  qed (use s3 s2 in simp_all)
  have "describeStreamResult e SERVICE_CALL_RESOURCE_NOT_FOUND pDesc s = Some (st, unlockStream s')"
    unfolding describeStreamResult_def
  proof (rule resultEvent_run [OF _ _ _ it(1)])
    show "acceptsEntry e s STREAM_STATE_DESCRIBE = STATUS_SUCCESS"
      using accepts_entry [OF assms(2) stream_find(2) [of e]] by (simp add: stream_state_nth streamMachineState_def)
  qed (simp_all add: storeDescription_def m_def serviceCallResultCheck_def)
  moreover have "stream_ok s'" "stream_frame m s'" using iterate_returns [OF ok, of e] it(1) by auto
  ultimately show ?thesis using it(2,3) al fld assms(4,5) by (intro exI [of _ st] exI [of _ "unlockStream s'"]) (simp add: stream_frame_def unlock_fields)
qed

text \<open>A stream whose description has been asked for.\<close>

definition demo_missing :: "nat StreamObject" where
  "demo_missing = (demo_stream demo3)\<lparr>ks_stateMachine := \<lparr>mf_current = 1, mf_localStateRetryCount = 3, mf_stateTransitionWaitTime = 0\<rparr>,
     ks_streamState := STREAM_STATE_READY, ks_allowStreamCreation := False\<rparr>"

theorem missing_stream_described_again_witness:
  "\<exists>st s'. describeStreamResult demo_env SERVICE_CALL_RESOURCE_NOT_FOUND None demo_missing = Some (st, s') \<and>
     mf_current (ks_stateMachine s') = 1 \<and> mf_localStateRetryCount (ks_stateMachine s') = 0"
proof -
  have "stream_ok demo_missing" using demo_stream_ok [of demo3] by (simp add: demo_missing_def stream_ok_def client_ok_def)
  moreover have "mf_current (ks_stateMachine demo_missing) = 1" "ks_streamState demo_missing \<noteq> STREAM_STATE_STOPPED" "\<not> ks_allowStreamCreation demo_missing"
    "ks_recoverOnError demo_missing" by (simp_all add: demo_missing_def demo_stream_def)
  ultimately show ?thesis using missing_stream_described_again [of demo_missing demo_env None] by blast
qed

subsection \<open>The streaming token\<close>

text \<open>The expiration that is stored for a token.\<close>

definition token_window :: "UINT64 \<Rightarrow> UINT64 \<Rightarrow> UINT64 \<Rightarrow> bool" where
  "token_window t expiration stored \<longleftrightarrow> unat t + unat MIN_STREAMING_TOKEN_EXPIRATION_DURATION \<le> unat stored \<and> stored \<le> expiration \<and>
     unat stored \<le> unat t + unat MAX_ENFORCED_TOKEN_EXPIRATION_DURATION"

lemma token_window_plain:
  assumes "t < ex" "ex - t \<ge> MIN_STREAMING_TOKEN_EXPIRATION_DURATION" "unat t + unat MAX_ENFORCED_TOKEN_EXPIRATION_DURATION < 2 ^ 64"
  shows "token_window t ex (min ex (t + MAX_ENFORCED_TOKEN_EXPIRATION_DURATION))"
proof -
  have "unat (ex - t) = unat ex - unat t" using assms(1) by (intro unat_sub) simp
  moreover have "unat (t + MAX_ENFORCED_TOKEN_EXPIRATION_DURATION) = unat t + unat MAX_ENFORCED_TOKEN_EXPIRATION_DURATION"
    using assms(3) by (simp add: unat_add_lem [THEN iffD1])
  ultimately show ?thesis using assms(1,2) by (auto simp: token_window_def min_def word_le_nat_alt word_less_nat_alt)
qed

lemma randomize_window:
  assumes w: "token_window t ex x" and r: "randomizeAuthInfoExpiration e c x t = (y, c')" and max: "unat t + unat MAX_ENFORCED_TOKEN_EXPIRATION_DURATION < 2 ^ 64"
  shows "token_window t ex y"
proof (cases "y = x")
  case False
  then obtain j where y: "y = x - j" "j \<le> MAX_AUTH_INFO_EXPIRATION_RANDOMIZATION"
    "\<not> t + AUTH_INFO_EXPIRATION_RANDOMIZATION_DURATION_THRESHOLD > x"
    using r by (auto simp: randomizeAuthInfoExpiration_def Let_def split: if_splits prod.splits)
  have "unat (t + AUTH_INFO_EXPIRATION_RANDOMIZATION_DURATION_THRESHOLD) = unat t + 3000000000"
    using max by (simp add: unat_add_lem [THEN iffD1])
  then have x: "unat t + 3000000000 \<le> unat x" "unat j \<le> 1800000000" using y by (simp_all add: word_le_nat_alt not_less)
  then have "unat y = unat x - unat j" unfolding y(1) by (intro unat_sub) (simp add: word_le_nat_alt)
  then have "unat t + 300000000 \<le> unat y" "unat y \<le> unat x" using x by arith+
  then show ?thesis using w by (simp add: token_window_def word_le_nat_alt)
qed (use w in simp)

lemma randomize_env: "env_only c (snd (randomizeAuthInfoExpiration e c x t))"
proof -
  have "env_only c c" unfolding env_only_def by (rule exI [of _ "kvc_env c"]) simp
  then show ?thesis by (simp add: randomizeAuthInfoExpiration_def Let_def split: prod.split)
qed

text \<open>A token that is accepted.\<close>

lemma store_token:
  assumes n: "n \<le> MAX_AUTH_LEN" and t: "fst (getCurrentTime (ks_pKinesisVideoClient s)) = t"
    and ex: "t < ex" "ex - t \<ge> MIN_STREAMING_TOKEN_EXPIRATION_DURATION" "unat t + unat MAX_ENFORCED_TOKEN_EXPIRATION_DURATION < 2 ^ 64"
  obtains x a g where "storeStreamingToken e SERVICE_CALL_RESULT_OK tok n ex s =
      Some (STATUS_SUCCESS, s\<lparr>ks_pKinesisVideoClient := (ks_pKinesisVideoClient s)\<lparr>kvc_env := x\<rparr>, ks_streamingAuthInfo := a, ks_gracePeriod := g\<rparr>)"
    "token_window t ex (ai_expiration a)"
proof -
  let ?s = "s\<lparr>ks_streamingAuthInfo := (ks_streamingAuthInfo s)\<lparr>ai_version := 0, ai_size := n\<rparr>\<rparr>"
  let ?x = "min ex (t + MAX_ENFORCED_TOKEN_EXPIRATION_DURATION)"
  obtain z where z: "getCurrentTime (ks_pKinesisVideoClient s) = (t, (ks_pKinesisVideoClient s)\<lparr>kvc_env := z\<rparr>)"
    using t getCurrentTime_env [of "ks_pKinesisVideoClient s"] unfolding env_only_def by (metis prod.collapse)
  obtain y c where r: "randomizeAuthInfoExpiration e ((ks_pKinesisVideoClient s)\<lparr>kvc_env := z\<rparr>) ?x t = (y, c)" by fastforce
  have w: "token_window t ex y" by (rule randomize_window [OF token_window_plain [OF ex] r ex(3)])
  obtain x where c: "c = (ks_pKinesisVideoClient s)\<lparr>kvc_env := x\<rparr>"
    using randomize_env [of "(ks_pKinesisVideoClient s)\<lparr>kvc_env := z\<rparr>" e ?x t] unfolding r env_only_def by auto
  have "streamTime ?s = (t, ?s\<lparr>ks_pKinesisVideoClient := (ks_pKinesisVideoClient s)\<lparr>kvc_env := z\<rparr>\<rparr>)" by (simp add: streamTime_def z)
  then have "storeStreamingToken e SERVICE_CALL_RESULT_OK tok n ex s =
      (let a = (ks_streamingAuthInfo ?s)\<lparr>ai_expiration := y\<rparr>;
           a = (case tok of None \<Rightarrow> a\<lparr>ai_type := AUTH_INFO_NONE\<rparr>
                | Some d \<Rightarrow> if n = 0 then a\<lparr>ai_type := AUTH_INFO_NONE\<rparr>
                           else a\<lparr>ai_type := AUTH_INFO_TYPE_STS, ai_data := take (unat n) d @ drop (unat n) (ai_data a)\<rparr>)
       in Some (STATUS_SUCCESS, s\<lparr>ks_pKinesisVideoClient := c, ks_streamingAuthInfo := a, ks_gracePeriod := False\<rparr>))"
    using n ex r by (simp add: storeStreamingToken_def)
  then show thesis using that w c by (cases tok) (simp_all add: Let_def split: if_splits)
qed

lemma token_run:
  assumes ok: "stream_ok s" and i: "mf_current (ks_stateMachine s) = i" "i = 4 \<or> i = 5"
    and tok: "n \<le> MAX_AUTH_LEN" "fst (getCurrentTime (ks_pKinesisVideoClient s)) = t" "t < ex" "ex - t \<ge> MIN_STREAMING_TOKEN_EXPIRATION_DURATION"
      "unat t + unat MAX_ENFORCED_TOKEN_EXPIRATION_DURATION < 2 ^ 64"
  obtains s1 where "stream_ok s1" "mf_current (ks_stateMachine s1) = i" "ks_streamState s1 = ks_streamState s" "ks_result s1 = SERVICE_CALL_RESULT_OK"
    "ks_streamingEndpoint s1 = ks_streamingEndpoint s" "token_window t ex (ai_expiration (ks_streamingAuthInfo s1))"
    "\<And>st s'. iterateStreamStateMachine e s1 = Some (st, s') \<Longrightarrow> getStreamingTokenResult e SERVICE_CALL_RESULT_OK tk n ex s = Some (st, unlockStream s')"
proof -
  define m where "m = measured False SERVICE_CALL_RESULT_OK s"
  note fld = measured [of False SERVICE_CALL_RESULT_OK s, folded m_def]
  have okm: "stream_ok m" unfolding m_def by (rule measured_ok [OF ok])
  have "ks_pKinesisVideoClient m = ks_pKinesisVideoClient s" by (simp add: m_def measured_def lockStream_def)
  then have time: "fst (getCurrentTime (ks_pKinesisVideoClient m)) = t" using tok(2) by simp
  obtain x a g where st: "storeStreamingToken e SERVICE_CALL_RESULT_OK tk n ex m =
      Some (STATUS_SUCCESS, m\<lparr>ks_pKinesisVideoClient := (ks_pKinesisVideoClient m)\<lparr>kvc_env := x\<rparr>, ks_streamingAuthInfo := a, ks_gracePeriod := g\<rparr>)"
    "token_window t ex (ai_expiration a)"
    by (rule store_token [OF tok(1) time tok(3-5), of e tk])
  define s1 where "s1 = m\<lparr>ks_pKinesisVideoClient := (ks_pKinesisVideoClient m)\<lparr>kvc_env := x\<rparr>, ks_streamingAuthInfo := a, ks_gracePeriod := g\<rparr>"
  have run: "getStreamingTokenResult e SERVICE_CALL_RESULT_OK tk n ex s = Some (st, unlockStream s')" if "iterateStreamStateMachine e s1 = Some (st, s')" for st s'
    unfolding getStreamingTokenResult_def
  proof (rule resultEvent_run [OF _ _ _ that])
    show "acceptsEntry e s STREAM_STATE_GET_TOKEN = STATUS_SUCCESS"
      using accepts_entry [OF i(1) stream_find(6) [of e]] i(2) by (auto simp: stream_state_nth streamMachineState_def)
    show "storeStreamingToken e SERVICE_CALL_RESULT_OK tk n ex (measured False SERVICE_CALL_RESULT_OK s) = Some (STATUS_SUCCESS, s1)"
      using st(1) by (simp add: m_def s1_def)
  qed (simp_all add: serviceCallResultCheck_def)
  have "stream_ok s1" using okm by (simp add: s1_def stream_ok_def client_ok_def)
  then show thesis using that [OF _ _ _ _ _ _ run] fld i(1) st(2) by (simp add: s1_def)
qed

text \<open>C37. The token of a stream that asks for one is stored for a time that is long enough and bounded: at least the minimum duration of a token from now,
  at most the maximum that is enforced and never longer than the token is valid, whatever the random jitter; and the stream is ready or opens its
  session.\<close>

theorem streaming_token_window:
  assumes "stream_ok s" "mf_current (ks_stateMachine s) = 5" "ks_streamState s \<noteq> STREAM_STATE_STOPPED" "n \<le> MAX_AUTH_LEN"
    and "fst (getCurrentTime (ks_pKinesisVideoClient s)) = t" "t < ex" "ex - t \<ge> MIN_STREAMING_TOKEN_EXPIRATION_DURATION"
    and "unat t + unat MAX_ENFORCED_TOKEN_EXPIRATION_DURATION < 2 ^ 64"
  shows "\<exists>st s'. getStreamingTokenResult e SERVICE_CALL_RESULT_OK tok n ex s = Some (st, s') \<and> mf_current (ks_stateMachine s') \<in> {6, 7} \<and>
    token_window t ex (ai_expiration (ks_streamingAuthInfo s'))"
proof -
  obtain s1 where s1: "stream_ok s1" "mf_current (ks_stateMachine s1) = 5" "ks_streamState s1 = ks_streamState s" "ks_result s1 = SERVICE_CALL_RESULT_OK"
    "token_window t ex (ai_expiration (ks_streamingAuthInfo s1))"
    and run: "\<And>st s'. iterateStreamStateMachine e s1 = Some (st, s') \<Longrightarrow> getStreamingTokenResult e SERVICE_CALL_RESULT_OK tok n ex s = Some (st, unlockStream s')"
    by (rule token_run [OF assms(1,2) _ assms(4-8), of e tok]) auto
  let ?s1 = "s1\<lparr>ks_keepIteratingStateMachine := False\<rparr>"
  have fr: "stream_from e 5 ?s1 = (STATUS_SUCCESS, STREAM_STATE_READY, ?s1)" using s1 assms(3) by (simp add: stream_callbacks fromGetTokenStreamState_def)
  obtain s2 t' st1 a s3 where 1: "env_moves ?s1 s2" "client_ok s2" "stream_exec e 6 t' s2 = (st1, a, s3)"
    "stream_ok (s3\<lparr>ks_stateMachine := \<lparr>mf_current = 6, mf_localStateRetryCount = 0, mf_stateTransitionWaitTime = t'\<rparr>\<rparr>)"
    "iterateStreamStateMachine e s1 = (let s = s3\<lparr>ks_stateMachine := \<lparr>mf_current = 6, mf_localStateRetryCount = 0, mf_stateTransitionWaitTime = t'\<rparr>\<rparr>
      in if STATUS_FAILED st1 then Some (st1, s) else if ks_keepIteratingStateMachine s then iterateStreamStateMachine e s else Some (STATUS_SUCCESS, s))"
    by (rule iterate_enter [OF s1(1,2) fr stream_find(7)]) auto
  let ?s3 = "s3\<lparr>ks_stateMachine := \<lparr>mf_current = 6, mf_localStateRetryCount = 0, mf_stateTransitionWaitTime = t'\<rparr>\<rparr>"
  have "ks_streamState s3 = ks_streamState s2" using stream_exec_moves [OF 1(2) _ 1(3)] by (simp add: exec_moves_def)
  then have ns: "ks_streamState ?s3 \<noteq> STREAM_STATE_STOPPED" using env_moves_frame [OF 1(1)] s1(3) assms(3) by simp
  obtain st4 s4 where 4: "iterateStreamStateMachine e ?s3 = Some (st4, s4)" "mf_current (ks_stateMachine s4) = 7"
    by (rule iterate_from_ready [OF 1(4) _ ns, of e]) auto
  obtain st s' where it: "iterateStreamStateMachine e s1 = Some (st, s')" "mf_current (ks_stateMachine s') \<in> {6, 7}"
  proof (cases "STATUS_FAILED st1 \<or> \<not> ks_keepIteratingStateMachine ?s3")
    case True
    then have "iterateStreamStateMachine e s1 = Some (if STATUS_FAILED st1 then st1 else STATUS_SUCCESS, ?s3)"
      using 1(5) by (cases "STATUS_FAILED st1") (simp_all add: Let_def)
    then show thesis using that by simp
  next
    case False
    then have "iterateStreamStateMachine e s1 = Some (st4, s4)" using 1(5) 4(1) by (simp add: Let_def)
    then show thesis using that 4(2) by simp
  qed
  have "stream_frame s1 s'" using iterate_returns [OF s1(1), of e] it(1) by auto
  then show ?thesis using run [OF it(1)] it(2) s1(5) by (intro exI [of _ st] exI [of _ "unlockStream s'"]) (simp add: unlock_fields stream_frame_def)
qed

text \<open>A stream at a position of its machine, at the time 0.\<close>

definition demo_waiting :: "nat \<Rightarrow> nat StreamObject" where
  "demo_waiting i = (demo_stream demo3)\<lparr>ks_stateMachine := \<lparr>mf_current = i, mf_localStateRetryCount = 0, mf_stateTransitionWaitTime = 0\<rparr>,
     ks_streamState := STREAM_STATE_READY\<rparr>"

lemma demo_waiting: "i < 10 \<Longrightarrow> stream_ok (demo_waiting i)" "mf_current (ks_stateMachine (demo_waiting i)) = i"
  "ks_streamState (demo_waiting i) \<noteq> STREAM_STATE_STOPPED" "fst (getCurrentTime (ks_pKinesisVideoClient (demo_waiting i))) = 0"
  "ks_streamingEndpoint (demo_waiting i) = ''kinesis''"
  using demo_stream_ok [of demo3]
  by (simp_all add: demo_waiting_def stream_ok_def client_ok_def demo_stream_def getCurrentTime_def demo_client_def demo_callbacks_def)

theorem streaming_token_window_witness:
  "\<exists>st s'. getStreamingTokenResult demo_env SERVICE_CALL_RESULT_OK (Some [1, 2]) 2 3000000000 (demo_waiting 5) = Some (st, s') \<and>
     token_window 0 3000000000 (ai_expiration (ks_streamingAuthInfo s'))"
  using streaming_token_window [OF demo_waiting(1) demo_waiting(2,3) _ demo_waiting(4), where n = 2 and ex = 3000000000 and e = demo_env and tok = "Some [1, 2]"]
  by fastforce

text \<open>The result of a token call is also accepted while the stream waits for its endpoint: it is taken for that of the endpoint call, the stream goes on
  to ask for a token, and it keeps the endpoint it had.\<close>

theorem late_token_skips_endpoint:
  assumes "stream_ok s" "mf_current (ks_stateMachine s) = 4" "ks_streamState s \<noteq> STREAM_STATE_STOPPED" "n \<le> MAX_AUTH_LEN"
    and "fst (getCurrentTime (ks_pKinesisVideoClient s)) = t" "t < ex" "ex - t \<ge> MIN_STREAMING_TOKEN_EXPIRATION_DURATION"
    and "unat t + unat MAX_ENFORCED_TOKEN_EXPIRATION_DURATION < 2 ^ 64"
  shows "\<exists>st s'. getStreamingTokenResult e SERVICE_CALL_RESULT_OK tok n ex s = Some (st, s') \<and> mf_current (ks_stateMachine s') = 5 \<and>
    ks_streamingEndpoint s' = ks_streamingEndpoint s"
proof -
  obtain s1 where s1: "stream_ok s1" "mf_current (ks_stateMachine s1) = 4" "ks_streamState s1 = ks_streamState s" "ks_result s1 = SERVICE_CALL_RESULT_OK"
    "ks_streamingEndpoint s1 = ks_streamingEndpoint s"
    and run: "\<And>st s'. iterateStreamStateMachine e s1 = Some (st, s') \<Longrightarrow> getStreamingTokenResult e SERVICE_CALL_RESULT_OK tok n ex s = Some (st, unlockStream s')"
    by (rule token_run [OF assms(1,2) _ assms(4-8), of e tok]) auto
  let ?s1 = "s1\<lparr>ks_keepIteratingStateMachine := False\<rparr>"
  have fr: "stream_from e 4 ?s1 = (STATUS_SUCCESS, STREAM_STATE_GET_TOKEN, ?s1)" using s1 assms(3) by (simp add: stream_callbacks fromGetEndpointStreamState_def)
  obtain st s' where it: "iterateStreamStateMachine e s1 = Some (st, s')" "mf_current (ks_stateMachine s') = 5"
    by (rule iterate_enter_last [OF s1(1,2) fr stream_find(6)]) auto
  have "stream_frame s1 s'" using iterate_returns [OF s1(1), of e] it(1) by auto
  then show ?thesis using run [OF it(1)] it(2) s1(5) by (intro exI [of _ st] exI [of _ "unlockStream s'"]) (simp add: stream_frame_def)
qed

theorem late_token_skips_endpoint_witness:
  "\<exists>st s'. getStreamingTokenResult demo_env SERVICE_CALL_RESULT_OK None 0 3000000000 (demo_waiting 4) = Some (st, s') \<and>
     mf_current (ks_stateMachine s') = 5 \<and> ks_streamingEndpoint s' = ''kinesis''"
  using late_token_skips_endpoint [OF demo_waiting(1) demo_waiting(2,3) _ demo_waiting(4), where n = 0 and ex = 3000000000 and e = demo_env and tok = None]
    demo_waiting(5) by fastforce

end
