(* ===== verification/Spec2Isabelle.thy ===== *)
theory Spec2Isabelle
  imports ContentViewProps ClientProps StackQueueProps HashTableProps FrameOrderProps CodecsProps BitsProps AivHeapResize StreamSessions
begin

text \<open>
  A verification development for the platform independent code (PIC) of the Amazon Kinesis Video
  Streams producer: a C library that takes media frames from an application, keeps them in a bounded
  buffer, packages them as MKV and hands them to the networking code, while state machines drive the
  client and its streams through authentication, creation and streaming.

  \<^bold>\<open>Parts of the program and their theories.\<close> Source names are relative to \<open>src/src\<close>.

  \<^item> Status codes (\<open>Status\<close>): the numeric values of the headers. Conventions for pointers, out
    parameters and allocation, and the generic lemmas on words (\<open>Prelude\<close>).
  \<^item> Contracts between components (\<open>Interfaces\<close>), as locales: sequential consumption
    (\<open>consumer\<close>), first-in-first-out (\<open>fifo\<close>, an extension of it) and key-value stores
    (\<open>key_store\<close>). Each is interpreted on the model of the component that provides it.
  \<^item> \<open>view/src/ContentView.c\<close>: the rolling content view, the circular buffer between the producer and
    the network consumer. \<open>ContentView\<close> has one definition per function, over the record
    \<open>RollingContentView\<close>; the remove callback is the list of the calls made. \<open>ContentViewInv\<close> has the
    invariant and its preservation, \<open>ContentViewProps\<close> the functional properties.
  \<^item> \<open>state/src/State.c\<close>: the generic state machine over a table of callbacks (\<open>StateMachine\<close>, with
    the locale \<open>stepping_table\<close>), and its instance for the client in \<open>client/src/ClientState.c\<close>,
    \<open>AuthIntegration.c\<close> and \<open>ClientEvent.c\<close> (\<open>ClientState\<close>, \<open>ClientProps\<close>).
  \<^item> \<open>client/src/FrameOrderCoordinator.c\<close>: the ordering of the frames of several tracks
    (\<open>FrameOrder\<close>, \<open>FrameOrderProps\<close>).
  \<^item> \<open>utils/src/SingleLinkedList.c\<close> and \<open>StackQueue.c\<close>: linked lists over an explicit heap of nodes
    (\<open>SingleLinkedList\<close>, \<open>LinkedListProps\<close>) and the queues built on them (\<open>StackQueue\<close>,
    \<open>StackQueueProps\<close>).
  \<^item> \<open>utils/src/HashTable.c\<close>: the hash table with growing buckets (\<open>HashTable\<close>, \<open>HashTableProps\<close>).
  \<^item> \<open>utils/src/Hex.c\<close> and \<open>Base64.c\<close>: the text codecs (\<open>Codecs\<close>, \<open>CodecsProps\<close>);
    \<open>BitReader.c\<close> and \<open>BitField.c\<close> (\<open>Bits\<close>, \<open>BitsProps\<close>); \<open>String.c\<close> (\<open>Strings\<close>, \<open>StringsProps\<close>,
    and the conversions of numbers in \<open>NumberStrings\<close>).
  \<^item> \<open>heap/src\<close>: the accounting of \<open>Common.c\<close> (\<open>CommonHeap\<close>), memory as bytes (\<open>ByteMemory\<close>) and the
    allocator \<open>AivHeap.c\<close>, whose free and allocated blocks are linked through that memory (\<open>AivHeap\<close>;
    the invariant in \<open>AivHeapInv\<close>, its preservation in \<open>AivHeapMem\<close>, \<open>AivHeapOps\<close> and \<open>AivHeapFree\<close>, the properties
    in \<open>AivHeapProps\<close> and \<open>AivHeapResize\<close>).
  \<^item> \<open>client/src/AckParser.c\<close>: the incremental parser of the fragment ACKs the service sends
    (\<open>AckParser\<close>, \<open>AckParserProps\<close>, \<open>AckSegments\<close>). The handler of a parsed ACK is an argument.
  \<^item> \<open>client/src/Stream.h\<close>: the stream object with its upload handles, and the operations of \<open>Stream.c\<close> on them
    (\<open>StreamObject\<close>). The record \<open>StreamObject\<close> holds the parser, the content view, the queue of the upload handles, the client with its
    state machine, and the fields of the machine of the stream; the application is the record \<open>stream_env\<close>.
  \<^item> \<open>client/src/StreamState.c\<close>: the table and the callbacks of the state machine of a stream, an instance of the generic
    machine, and its iteration (\<open>StreamState\<close>). \<open>client/src/StreamEvent.c\<close>: the results of the service calls that drive it
    (\<open>StreamEvents\<close>). \<open>StreamStateProps\<close> shows that all of them return, \<open>StreamSessions\<close> what they do.
  \<^item> \<open>client/src/Stream.c\<close> and \<open>StreamEvent.c\<close>, the processing of fragment ACKs: \<open>StreamAck\<close> models
    \<open>streamFragmentAckEvent\<close> with all it calls, the end of an upload session by \<open>streamTerminatedEvent\<close> included, which stops the
    stream and iterates its machine. \<open>StreamAckProps\<close> composes it with the parser and the content view.

  \<^bold>\<open>What the lemmas show.\<close> Every component has an invariant over its record that each operation keeps,
  and properties that say what each operation returns on every branch. Content view: adding,
  trimming, eviction by either overflow policy, search by timestamp (with termination and absence of its
  fatal assertion, in sparse views too), rollback against a reference definition, and in-order delivery. Client machine:
  every chain of steps is finite whatever the service callbacks answer, transitions respect the
  acceptance masks, and a ready client is authenticated. Linked lists and queues: each operation
  against the list of items, memory safety, and first-in-first-out over any sequence of operations.
  Hash table: each operation against the finite map it stands for, and a complete enumeration. Frame order: the frames of a session
  leave in timestamp order, when those of each track are put in decoding order. Codecs: decoding inverts encoding. Bits: the reader delivers the bits of its buffer
  in order and inverts the Exp-Golomb codes. Heap: every sequence of operations keeps the memory a chain of blocks that do
  not overlap, and allocated contents survive. Strings: number conversions invert each other and detect overflow, the rolling
  hash search agrees with the naive one. ACK parser: the text of an ACK reaches the handler as meant, also when it is cut in segments outside of nested values, and the
  parser stays inside of its buffers as long as the text fits. Fragment ACKs: a persisted ACK, from the text on, trims
  the view up to the next fragment that is not persisted; an error ACK sets the stream back or skips the fragment. Stream machine: its
  iteration ends whatever the application answers, a put stream call that succeeds opens its session and notifies the application
  unless an earlier session is ongoing,
  the end of a session leads back to the state that fits the result, and the stored token is valid long enough; and what happens
  when a put stream call fails: its result is refused after a timeout, and the empty session in the queue hides the later ones.

  \<^bold>\<open>Bounds and loops.\<close> Integers have their width in the code; where a theorem needs that a counter does not wrap
  it says so as a hypothesis. Loops are structural recursion, \<open>function\<close> with a measure, or
  \<open>partial_function (option)\<close> whose result \<open>None\<close> is a loop that does not end or undefined behaviour; the
  properties prove that a result is returned. No definition takes fuel. The iteration of the machine of a stream ends because only
  three of its states ask for another round and a rank over the states (\<open>stream_rank\<close>) falls with each.

  \<^bold>\<open>Not modelled.\<close> The put path and the data path of the stream object, its creation and release, the life
  cycle of the client object, the input validation, the system, hybrid and file heaps, the MKV generator
  with the parsers of codec data, the timer queue and the thread pool are not modelled; the platform layer (threads,
  files, logging, time) is operating system interface. The callbacks of the application do not call
  back into the library while they run: the answer to a service call is an event that follows it. An application that answers from
  inside of the callback, as some tests of the repository do, is outside of the model (there the repeated description of a missing stream, which
  is one round per answer here, would be a recursion). The manifest lists each part.
\<close>

end
